(* ===== verification/Prelude.thy ===== *)
theory Prelude
  imports Complex_Main "HOL-Library.AList" "HOL-Library.Code_Target_Nat"
begin

text \<open>
  Shared vocabulary of the development: the JavaScript library operations the engine uses
  (insertion-ordered \<^verbatim>\<open>Map\<close> and \<^verbatim>\<open>Set\<close>, array \<^verbatim>\<open>find\<close>,
  \<^verbatim>\<open>slice\<close> and \<^verbatim>\<open>splice\<close>, string \<^verbatim>\<open>trim\<close>), the result type of a
  function that may throw, and the list lemmas the components share.

  Conventions. A string is a HOL \<open>string\<close>: one \<open>char\<close> per UTF-16 code unit, for texts
  whose code units are below 256. A time stamp is the number of milliseconds since the epoch, an
  \<open>int\<close>: the ISO-8601 texts of the source are produced by \<^verbatim>\<open>Date.toISOString\<close>, which is
  strictly monotone in that number for the years 0 to 9999, so comparing the texts is comparing the
  numbers. A number read from a JSON payload is a \<open>rat\<close>: every finite double is one.
\<close>

named_theorems js_simps \<open>rewriting of the modelled JavaScript library operations\<close>
named_theorems inv_intros \<open>an operation keeps the invariant of its component\<close>

type_synonym msec = int
type_synonym id = string

text \<open>The result of code that may throw: \<open>Inl\<close> is the thrown error.\<close>

type_synonym ('e, 'a) result = "'e + 'a"

abbreviation ok :: "'a \<Rightarrow> 'e + 'a" where "ok \<equiv> Inr"
abbreviation throw :: "'e \<Rightarrow> 'e + 'a" where "throw \<equiv> Inl"

section \<open>JavaScript \<^verbatim>\<open>Map\<close> and \<^verbatim>\<open>Set\<close>\<close>

text \<open>
  A \<^verbatim>\<open>Map\<close> is an association list in insertion order: \<open>set\<close> on a present key keeps its
  place, on a new key appends.
\<close>

type_synonym ('k, 'v) js_map = "('k \<times> 'v) list"

abbreviation map_get :: "('k, 'v) js_map \<Rightarrow> 'k \<Rightarrow> 'v option" where
  "map_get m k \<equiv> map_of m k"

abbreviation map_has :: "('k, 'v) js_map \<Rightarrow> 'k \<Rightarrow> bool" where
  "map_has m k \<equiv> map_of m k \<noteq> None"

abbreviation map_set :: "'k \<Rightarrow> 'v \<Rightarrow> ('k, 'v) js_map \<Rightarrow> ('k, 'v) js_map" where
  "map_set k v m \<equiv> AList.update k v m"

abbreviation map_delete :: "'k \<Rightarrow> ('k, 'v) js_map \<Rightarrow> ('k, 'v) js_map" where
  "map_delete k m \<equiv> AList.delete k m"

lemma map_get_set [js_simps]: "map_get (map_set k v m) = (map_get m)(k \<mapsto> v)"
  by (simp add: update_conv' fun_eq_iff)

lemma map_get_delete [js_simps]: "map_get (map_delete k m) = (map_get m)(k := None)"
  by (simp add: delete_conv' fun_eq_iff)

text \<open>\<^verbatim>\<open>[...new Set(xs)]\<close>: the elements in order of first occurrence.\<close>

fun dedupe :: "'a list \<Rightarrow> 'a list" where
  "dedupe [] = []"
| "dedupe (x # xs) = x # filter (\<lambda>y. y \<noteq> x) (dedupe xs)"

lemma set_dedupe [simp]: "set (dedupe xs) = set xs"
  by (induction xs) auto

lemma distinct_dedupe [simp]: "distinct (dedupe xs)"
  by (induction xs) auto

lemma dedupe_distinct: "distinct xs \<Longrightarrow> dedupe xs = xs"
  by (induction xs) (auto simp: filter_id_conv)

lemma length_dedupe: "length (dedupe xs) \<le> length xs"
proof (induction xs)
  case (Cons x xs)
  have "length (filter (\<lambda>y. y \<noteq> x) (dedupe xs)) \<le> length (dedupe xs)"
    by (rule length_filter_le)
  also note Cons.IH
  finally show ?case by simp
qed simp

section \<open>Arrays\<close>

text \<open>\<^verbatim>\<open>xs.slice(-n)\<close> for \<open>n > 0\<close>, and \<^verbatim>\<open>xs.splice(0, xs.length - n)\<close> applied when the
  array is longer than \<open>n\<close>: both keep the last \<open>n\<close> elements.\<close>

definition take_last :: "nat \<Rightarrow> 'a list \<Rightarrow> 'a list" where
  "take_last n xs = drop (length xs - n) xs"

lemma length_take_last [simp]: "length (take_last n xs) = min n (length xs)"
  by (simp add: take_last_def)

lemma take_last_id [simp]: "length xs \<le> n \<Longrightarrow> take_last n xs = xs"
  by (simp add: take_last_def)

lemma set_take_last: "set (take_last n xs) \<subseteq> set xs"
  by (simp add: take_last_def set_drop_subset)

lemma take_last_append: "0 < n \<Longrightarrow> take_last n (xs @ [x]) = take_last (n - 1) xs @ [x]"
  by (cases n) (auto simp: take_last_def)

lemma take_last_snoc_mem: "0 < n \<Longrightarrow> x \<in> set (take_last n (xs @ [x]))"
  by (simp add: take_last_append)

lemma map_take_last: "map f (take_last n xs) = take_last n (map f xs)"
  by (simp add: take_last_def drop_map)

lemma take_last_upt: "n \<le> k \<Longrightarrow> take_last mx [k - n ..< k] = [k - min mx n ..< k]"
  by (simp add: take_last_def min_def)

text \<open>\<^verbatim>\<open>xs.at(-1)\<close>.\<close>

definition last_opt :: "'a list \<Rightarrow> 'a option" where
  "last_opt xs = (if xs = [] then None else Some (last xs))"

lemma last_opt_simps [simp]: "last_opt [] = None" "last_opt (xs @ [x]) = Some x"
  by (auto simp: last_opt_def)

lemma last_opt_None [simp]: "last_opt xs = None \<longleftrightarrow> xs = []"
  by (auto simp: last_opt_def)

lemma last_opt_Some: "last_opt xs = Some x \<longleftrightarrow> (\<exists>ys. xs = ys @ [x])"
  by (auto simp: last_opt_def dest!: append_butlast_last_id) (metis append_butlast_last_id)

lemma find_Some_mem: "List.find P xs = Some x \<Longrightarrow> x \<in> set xs \<and> P x"
  by (auto simp: find_Some_iff)

text \<open>\<^verbatim>\<open>xs.find(p)\<close> followed by a mutation of the found object: only the first match changes.\<close>

fun update_first :: "('a \<Rightarrow> bool) \<Rightarrow> ('a \<Rightarrow> 'a) \<Rightarrow> 'a list \<Rightarrow> 'a list" where
  "update_first p f [] = []"
| "update_first p f (x # xs) = (if p x then f x # xs else x # update_first p f xs)"

lemma length_update_first [simp]: "length (update_first p f xs) = length xs"
  by (induction xs) auto

lemma update_first_none: "List.find p xs = None \<Longrightarrow> update_first p f xs = xs"
  by (induction xs) (auto split: if_splits)

lemma map_update_first:
  "(\<And>x. g (f x) = g x) \<Longrightarrow> map g (update_first p f xs) = map g xs"
  by (induction xs) auto

lemma update_first_mem:
  "y \<in> set (update_first p f xs) \<Longrightarrow> y \<in> set xs \<or> (\<exists>x \<in> set xs. p x \<and> y = f x)"
  by (induction xs) (auto split: if_splits)

lemma update_first_all: "list_all P xs \<Longrightarrow> (\<And>x. p x \<Longrightarrow> P x \<Longrightarrow> P (f x)) \<Longrightarrow> list_all P (update_first p f xs)"
  by (induction xs) auto

lemma find_update_first:
  "List.find p xs = Some x \<Longrightarrow> p (f x) \<Longrightarrow> List.find p (update_first p f xs) = Some (f x)"
  by (induction xs) (auto split: if_splits)

lemma find_update_first_other:
  "(\<And>x. p x \<Longrightarrow> \<not> q x) \<Longrightarrow> (\<And>x. p x \<Longrightarrow> \<not> q (f x)) \<Longrightarrow>
   List.find q (update_first p f xs) = List.find q xs"
  by (induction xs) auto

text \<open>\<^verbatim>\<open>xs.findIndex(p)\<close> with \<^verbatim>\<open>xs.splice(i, 1)\<close>: drop the first match.\<close>

fun remove_first :: "('a \<Rightarrow> bool) \<Rightarrow> 'a list \<Rightarrow> 'a list" where
  "remove_first p [] = []"
| "remove_first p (x # xs) = (if p x then xs else x # remove_first p xs)"

lemma set_remove_first: "set (remove_first p xs) \<subseteq> set xs"
  by (induction xs) auto

lemma length_remove_first: "length (remove_first p xs) \<le> length xs"
  by (induction xs) auto

lemma distinct_remove_first: "distinct (map g xs) \<Longrightarrow> distinct (map g (remove_first p xs))"
  by (induction xs) (auto dest: subsetD [OF set_remove_first])

text \<open>\<^verbatim>\<open>xs.map(f)\<close> with a callback that may throw: the first throw ends it.\<close>

fun map_ok :: "('a \<Rightarrow> ('e, 'b) result) \<Rightarrow> 'a list \<Rightarrow> ('e, 'b list) result" where
  "map_ok f [] = ok []"
| "map_ok f (x # xs) = (case f x of Inl e \<Rightarrow> throw e
     | Inr y \<Rightarrow> (case map_ok f xs of Inl e \<Rightarrow> throw e | Inr ys \<Rightarrow> ok (y # ys)))"

lemma map_ok_all: "map_ok f xs = Inr ys \<Longrightarrow> list_all2 (\<lambda>x y. f x = Inr y) xs ys"
  by (induction xs arbitrary: ys) (auto split: sum.splits)

text \<open>Statements in sequence: a throw keeps what the statements before it did.\<close>

fun run_steps :: "('s \<Rightarrow> ('e, unit) result \<times> 's) list \<Rightarrow> 's \<Rightarrow> ('e, unit) result \<times> 's" where
  "run_steps [] s = (ok (), s)"
| "run_steps (f # fs) s = (case f s of (Inl e, s') \<Rightarrow> (throw e, s') | (Inr _, s') \<Rightarrow> run_steps fs s')"

lemma run_steps_append:
  "run_steps (fs @ gs) s = (case run_steps fs s of (Inl e, s') \<Rightarrow> (throw e, s') | (Inr _, s') \<Rightarrow> run_steps gs s')"
  by (induction fs arbitrary: s) (auto split: prod.split sum.split)

lemma run_steps_inv:
  "(\<And>f s. f \<in> set fs \<Longrightarrow> P s \<Longrightarrow> P (snd (f s))) \<Longrightarrow> P s \<Longrightarrow> P (snd (run_steps fs s))"
proof (induction fs arbitrary: s)
  case (Cons f fs)
  have "P (snd (f s))" using Cons.prems by simp
  then show ?case using Cons.IH Cons.prems(1) by (auto split: prod.split sum.split)
qed simp

lemma run_steps_inv_append:
  assumes "P (snd (run_steps fs s))" and "\<And>s. P s \<Longrightarrow> P (snd (run_steps gs s))"
  shows "P (snd (run_steps (fs @ gs) s))"
  using assms by (auto simp: run_steps_append split: prod.split sum.split)

text \<open>A JavaScript sort is stable: sorting by a numeric key is \<^const>\<open>sort_key\<close>.\<close>

lemma sort_key_mem [simp]: "set (sort_key f xs) = set xs"
  by simp

section \<open>Strings\<close>

text \<open>The white space \<^verbatim>\<open>String.trim\<close> removes, of the code units below 256.\<close>

definition js_ws :: "char \<Rightarrow> bool" where
  "js_ws c = (let n = (of_char c :: nat) in (9 \<le> n \<and> n \<le> 13) \<or> n = 32 \<or> n = 160)"

definition js_trim :: "string \<Rightarrow> string" where
  "js_trim s = rev (dropWhile js_ws (rev (dropWhile js_ws s)))"

text \<open>\<^verbatim>\<open>s.trim()\<close> is truthy: the string has a character that is not white space.\<close>

definition js_blank :: "string \<Rightarrow> bool" where
  "js_blank s = (js_trim s = [])"

definition starts_with :: "string \<Rightarrow> string \<Rightarrow> bool" where
  "starts_with s p = (take (length p) s = p)"

definition ends_with :: "string \<Rightarrow> string \<Rightarrow> bool" where
  "ends_with s p = (length p \<le> length s \<and> drop (length s - length p) s = p)"

lemma starts_with_append [simp]: "starts_with (p @ s) p"
  by (simp add: starts_with_def)

lemma starts_with_iff: "starts_with s p \<longleftrightarrow> (\<exists>t. s = p @ t)"
  by (metis append_eq_conv_conj append_take_drop_id starts_with_def)

lemma dropWhile_hd: "xs = [] \<or> \<not> P (hd xs) \<Longrightarrow> dropWhile P xs = xs"
  by (cases xs) auto

lemma js_trim_hd: "js_trim s \<noteq> [] \<Longrightarrow> \<not> js_ws (hd (js_trim s))"
proof -
  assume ne: "js_trim s \<noteq> []"
  let ?t = "dropWhile js_ws s"
  have split: "?t = js_trim s @ rev (takeWhile js_ws (rev ?t))"
    unfolding js_trim_def by (metis rev_append rev_rev_ident takeWhile_dropWhile_id)
  then have "?t \<noteq> []" using ne by (metis append_is_Nil_conv)
  then have "\<not> js_ws (hd ?t)" by (rule hd_dropWhile)
  also have "hd ?t = hd (js_trim s)" using ne by (subst split) simp
  finally show ?thesis .
qed

lemma js_trim_idem [simp]: "js_trim (js_trim s) = js_trim s"
proof -
  have "dropWhile js_ws (js_trim s) = js_trim s"
    using js_trim_hd by (intro dropWhile_hd) blast
  then show ?thesis by (simp add: js_trim_def)
qed

text \<open>A JSON value, with object keys in insertion order.\<close>

datatype json =
    JNull
  | JBool bool
  | JNum rat
  | JStr string
  | JArr "json list"
  | JObj "(string \<times> json) list"

end
