(* ===== verification/AuroraState.thy ===== *)
theory AuroraState
  imports Prelude
begin

text \<open>
  The substrate of the Aurora services, \<^verbatim>\<open>util/aurora-state.ts\<close>: the input validators
  \<^verbatim>\<open>auroraText\<close>, \<^verbatim>\<open>auroraInteger\<close>, \<^verbatim>\<open>auroraUnit\<close>, \<^verbatim>\<open>auroraTags\<close> and
  \<^verbatim>\<open>auroraIds\<close>, and \<^verbatim>\<open>DurableJsonState\<close>, the cached JSON file every service keeps its state
  in. The two locales at the end are the interface between that store and a service: what a
  service promises of each operation, and what the store then guarantees of every state it can
  reach, on disk and in memory, across restarts and failed writes.
\<close>

section \<open>Validators\<close>

text \<open>One constructor per message the validators throw; the argument is the label.\<close>

datatype aurora_error =
    NotUnit string
  | Invalid string
  | AreInvalid string

text \<open>\<^verbatim>\<open>Number(value.toFixed(6))\<close>: the nearest multiple of a millionth, ties upward (the
  arguments are not negative).\<close>

definition to_fixed6 :: "rat \<Rightarrow> rat" where
  "to_fixed6 x = of_int \<lfloor>x * 1000000 + 1 / 2\<rfloor> / 1000000"

definition auroraUnit :: "rat \<Rightarrow> string \<Rightarrow> (aurora_error, rat) result" where
  "auroraUnit x label = (if x < 0 \<or> 1 < x then throw (NotUnit label) else ok (to_fixed6 x))"

definition auroraInteger :: "int \<Rightarrow> int \<Rightarrow> int \<Rightarrow> string \<Rightarrow> (aurora_error, int) result" where
  "auroraInteger v lo hi label =
     (if v < lo \<or> hi < v then throw (Invalid label) else ok v)"

text \<open>\<^verbatim>\<open>/[\u0000-\u0008\u000b\u000c\u000e-\u001f\u007f]/\<close>: control characters but tab, line feed
  and carriage return.\<close>

definition control_char :: "char \<Rightarrow> bool" where
  "control_char c = (let n = (of_char c :: nat) in
     n \<le> 8 \<or> n = 11 \<or> n = 12 \<or> (14 \<le> n \<and> n \<le> 31) \<or> n = 127)"

definition auroraText :: "string \<Rightarrow> nat \<Rightarrow> string \<Rightarrow> (aurora_error, string) result" where
  "auroraText value mx label =
     (let text = js_trim value in
      if text = [] \<or> length text > mx \<or> list_ex control_char text
      then throw (Invalid label) else ok text)"

definition auroraOptionalText ::
    "string option \<Rightarrow> nat \<Rightarrow> string \<Rightarrow> (aurora_error, string option) result" where
  "auroraOptionalText value mx label =
     (case value of None \<Rightarrow> ok None
      | Some v \<Rightarrow> (case auroraText v mx label of Inl e \<Rightarrow> throw e | Inr t \<Rightarrow> ok (Some t)))"

definition js_lower_char :: "char \<Rightarrow> char" where
  "js_lower_char c = (let n = (of_char c :: nat) in
     if (65 \<le> n \<and> n \<le> 90) \<or> (192 \<le> n \<and> n \<le> 222 \<and> n \<noteq> 215) then char_of (n + 32) else c)"

definition js_lower :: "string \<Rightarrow> string" where
  "js_lower s = map js_lower_char s"

definition lower_alnum :: "char \<Rightarrow> bool" where
  "lower_alnum c = (let n = (of_char c :: nat) in (97 \<le> n \<and> n \<le> 122) \<or> (48 \<le> n \<and> n \<le> 57))"

text \<open>\<^verbatim>\<open>/^[a-z0-9][a-z0-9._:-]{0,99}$/\<close>\<close>

definition tag_ok :: "string \<Rightarrow> bool" where
  "tag_ok s = (case s of [] \<Rightarrow> False
     | c # cs \<Rightarrow> lower_alnum c \<and> length cs \<le> 99
         \<and> list_all (\<lambda>d. lower_alnum d \<or> d \<in> set ''._:-'') cs)"

definition auroraTags :: "string list option \<Rightarrow> string \<Rightarrow> (aurora_error, string list) result" where
  "auroraTags values label =
     (let tags = filter (\<lambda>t. 0 < length t)
                   (dedupe (map (\<lambda>t. js_lower (js_trim t)) (case values of None \<Rightarrow> [] | Some v \<Rightarrow> v)))
      in if length tags > 100 \<or> list_ex (\<lambda>t. \<not> tag_ok t) tags
         then throw (AreInvalid label) else ok tags)"

definition auroraIds ::
    "string list option \<Rightarrow> nat \<Rightarrow> string \<Rightarrow> (aurora_error, string list) result" where
  "auroraIds values mx label =
     (let ids = filter (\<lambda>t. 0 < length t)
                  (dedupe (map js_trim (case values of None \<Rightarrow> [] | Some v \<Rightarrow> v)))
      in if length ids > mx \<or> list_ex (\<lambda>t. length t > 300) ids
         then throw (AreInvalid label) else ok ids)"

lemma auroraText_ok:
  "auroraText v mx l = Inr t \<longleftrightarrow>
     t = js_trim v \<and> t \<noteq> [] \<and> length t \<le> mx \<and> \<not> list_ex control_char t"
  by (auto simp: auroraText_def Let_def)

lemma auroraInteger_ok: "auroraInteger v lo hi l = Inr w \<longleftrightarrow> w = v \<and> lo \<le> v \<and> v \<le> hi"
  by (auto simp: auroraInteger_def)

lemma to_fixed6_unit: "0 \<le> x \<Longrightarrow> x \<le> 1 \<Longrightarrow> 0 \<le> to_fixed6 x \<and> to_fixed6 x \<le> 1"
proof -
  assume x: "0 \<le> x" "x \<le> 1"
  have "\<lfloor>x * 1000000 + 1 / 2\<rfloor> \<le> 1000000"
    using x by (simp add: floor_le_iff)
  moreover have "0 \<le> \<lfloor>x * 1000000 + 1 / 2\<rfloor>"
    using x by simp
  ultimately show ?thesis by (simp add: to_fixed6_def)
qed

text \<open>A validated text is stored as it will be read back: validating it again returns it.\<close>

lemma auroraText_idem: "auroraText v mx l = Inr t \<Longrightarrow> auroraText t mx l' = Inr t"
  by (auto simp: auroraText_ok)

lemma auroraIds_ok:
  "auroraIds vs mx l = Inr ts \<Longrightarrow> distinct ts \<and> length ts \<le> mx \<and> [] \<notin> set ts"
  by (auto simp: auroraIds_def Let_def split: if_splits)

section \<open>The durable store\<close>

text \<open>The file of a store: absent (\<^verbatim>\<open>ENOENT\<close>), one that does not load (too large, not JSON, or
  refused by the service's \<^verbatim>\<open>validate\<close>), or one that holds a state.\<close>

datatype 'a disk_file = Absent | Unloadable | Stored 'a

record 'a durable =
  cached :: "'a option"
  disk :: "'a disk_file"

datatype 'e store_error = LoadFailed | SafetyBound | WriteFailed | Rejected 'e

text \<open>\<^verbatim>\<open>read\<close>: \<open>None\<close> is the throw of \<^verbatim>\<open>loadFromDisk\<close>, after which the cache is still empty.\<close>

definition durable_read :: "'a \<Rightarrow> 'a durable \<Rightarrow> 'a option \<times> 'a durable" where
  "durable_read create st =
     (case cached st of
        Some v \<Rightarrow> (Some v, st)
      | None \<Rightarrow>
          (case disk st of
             Absent \<Rightarrow> (Some create, st\<lparr>cached := Some create\<rparr>)
           | Unloadable \<Rightarrow> (None, st)
           | Stored v \<Rightarrow> (Some v, st\<lparr>cached := Some v\<rparr>)))"

text \<open>
  \<^verbatim>\<open>mutate\<close>: the operation works on the live state, so a throw keeps what it had changed so far in
  the cache and skips the flush. \<open>fits\<close> says that the encoded state is within \<^verbatim>\<open>maxBytes\<close>, \<open>written\<close>
  whether the file system accepted the atomic write.
\<close>

definition durable_mutate ::
    "'a \<Rightarrow> ('a \<Rightarrow> bool) \<Rightarrow> bool \<Rightarrow> ('a \<Rightarrow> ('e, 'r) result \<times> 'a) \<Rightarrow> 'a durable
       \<Rightarrow> ('e store_error, 'r) result \<times> 'a durable" where
  "durable_mutate create fits written operation st =
     (case durable_read create st of
        (None, st') \<Rightarrow> (throw LoadFailed, st')
      | (Some v, st') \<Rightarrow>
          (case operation v of
             (Inl e, v') \<Rightarrow> (throw (Rejected e), st'\<lparr>cached := Some v'\<rparr>)
           | (Inr r, v') \<Rightarrow>
               (if \<not> fits v' then (throw SafetyBound, st'\<lparr>cached := Some v'\<rparr>)
                else if \<not> written then (throw WriteFailed, st'\<lparr>cached := Some v'\<rparr>)
                else (ok r, st'\<lparr>cached := Some v', disk := Stored v'\<rparr>))))"

text \<open>What a reader of the store sees.\<close>

definition durable_view :: "'a \<Rightarrow> 'a durable \<Rightarrow> 'a option" where
  "durable_view create st = fst (durable_read create st)"

text \<open>A refused operation is answered with its error, and what it changed before it threw is what readers see.\<close>

lemma refused_mutate:
  assumes "durable_view create st = Some v" and "operation v = (Inl e, v')"
  shows "\<exists>st'. durable_mutate create fits written operation st = (Inl (Rejected e), st') \<and> durable_view create st' = Some v'"
proof -
  obtain st1 where "durable_read create st = (Some v, st1)"
    using assms(1) by (cases "durable_read create st") (simp add: durable_view_def)
  then show ?thesis using assms(2)
    by (intro exI [of _ "st1\<lparr>cached := Some v'\<rparr>"]) (simp add: durable_mutate_def durable_view_def durable_read_def)
qed

text \<open>The states of a store whose service runs the operations \<open>step c\<close>, with reads, writes that
  fail and process restarts (which drop the cache) in any order.\<close>

inductive durable_reach ::
    "'a \<Rightarrow> ('a \<Rightarrow> bool) \<Rightarrow> ('c \<Rightarrow> 'a \<Rightarrow> ('e, 'r) result \<times> 'a) \<Rightarrow> 'a durable \<Rightarrow> bool"
  for create fits step where
  fresh: "durable_reach create fits step \<lparr>cached = None, disk = Absent\<rparr>"
| read: "durable_reach create fits step st \<Longrightarrow>
    durable_reach create fits step (snd (durable_read create st))"
| mutate: "durable_reach create fits step st \<Longrightarrow>
    durable_reach create fits step (snd (durable_mutate create fits written (step c) st))"
| restart: "durable_reach create fits step st \<Longrightarrow>
    durable_reach create fits step (st\<lparr>cached := None\<rparr>)"

definition durable_good :: "('a \<Rightarrow> bool) \<Rightarrow> 'a durable \<Rightarrow> bool" where
  "durable_good good st \<longleftrightarrow>
     (\<forall>v. cached st = Some v \<longrightarrow> good v) \<and> (\<forall>v. disk st = Stored v \<longrightarrow> good v)"

lemma durable_goodD:
  "durable_good good st \<Longrightarrow> cached st = Some v \<Longrightarrow> good v"
  "durable_good good st \<Longrightarrow> disk st = Stored v \<Longrightarrow> good v"
  by (auto simp: durable_good_def)

lemma durable_read_good:
  "good create \<Longrightarrow> durable_good good st \<Longrightarrow> durable_good good (snd (durable_read create st))"
  by (auto simp: durable_read_def durable_good_def split: option.splits disk_file.splits)

lemma durable_read_value_good:
  "good create \<Longrightarrow> durable_good good st \<Longrightarrow> fst (durable_read create st) = Some v \<Longrightarrow> good v"
  by (auto simp: durable_read_def durable_good_def split: option.splits disk_file.splits)

lemma durable_mutate_good:
  assumes create: "good create" and st: "durable_good good st"
    and operation: "\<And>v. good v \<Longrightarrow> good (snd (operation v))"
  shows "durable_good good (snd (durable_mutate create fits written operation st))"
proof -
  obtain r st' where rd: "durable_read create st = (r, st')" by (cases "durable_read create st")
  have st': "durable_good good st'"
    using durable_read_good [OF create st] rd by simp
  show ?thesis
  proof (cases r)
    case None
    with rd st' show ?thesis by (simp add: durable_mutate_def)
  next
    case (Some v)
    then have "good v"
      using durable_read_value_good [OF create st] rd by simp
    then have "good (snd (operation v))" by (rule operation)
    with rd Some st' show ?thesis
      by (auto simp: durable_mutate_def durable_good_def split: prod.splits sum.splits)
  qed
qed

text \<open>A rejected operation never reaches the disk by itself.\<close>

lemma durable_mutate_rejected_disk:
  "durable_mutate create fits written operation st = (Inl e, st') \<Longrightarrow> disk st' = disk st"
  by (auto simp: durable_mutate_def durable_read_def
      split: prod.splits sum.splits option.splits disk_file.splits if_splits)

section \<open>The contract between a service and its store\<close>

locale durable_service =
  fixes create :: "'a" and step :: "'c \<Rightarrow> 'a \<Rightarrow> ('e, 'r) result \<times> 'a" and good :: "'a \<Rightarrow> bool"
  assumes good_create: "good create"
    and good_step: "good v \<Longrightarrow> good (snd (step c v))"
begin

lemma reach_good: "durable_reach create fits step st \<Longrightarrow> durable_good good st"
proof (induction rule: durable_reach.induct)
  case fresh
  show ?case by (simp add: durable_good_def)
next
  case (read st)
  then show ?case by (simp add: durable_read_good good_create)
next
  case (mutate st written c)
  then show ?case by (intro durable_mutate_good good_create good_step)
next
  case (restart st)
  then show ?case by (simp add: durable_good_def)
qed

lemma reach_cached: "durable_reach create fits step st \<Longrightarrow> cached st = Some v \<Longrightarrow> good v"
  using reach_good by (rule durable_goodD)

lemma reach_disk: "durable_reach create fits step st \<Longrightarrow> disk st = Stored v \<Longrightarrow> good v"
  using reach_good by (rule durable_goodD)

end

text \<open>A service whose operations validate before they write: a rejected call changes nothing a
  later reader can see.\<close>

locale atomic_service = durable_service +
  assumes atomic: "step c v = (Inl e, v') \<Longrightarrow> v' = v"
begin

lemma rejected_view:
  assumes "durable_mutate create fits written (step c) st = (Inl (Rejected e), st')"
  shows "durable_view create st' = durable_view create st"
  using assms
  by (auto simp: durable_mutate_def durable_view_def durable_read_def dest: atomic
      split: prod.splits sum.splits option.splits disk_file.splits if_splits)

end

end
