(* ===== verification/Types.thy ===== *)
theory Types
  imports Prelude
begin

text \<open>
  The data types the components exchange, \<^verbatim>\<open>packages/engine/src/types.ts\<close>: one
  \<^theory_text>\<open>record\<close> per interface and one \<^theory_text>\<open>datatype\<close> per union of literals, in
  the order of the source. Fields carry a short prefix of their interface because Isabelle's record
  selectors share one name space. An optional field is an \<open>option\<close>.
\<close>

datatype input_source =
    SrcWeb | SrcCli | SrcApi | SrcScheduler | SrcAgent | SrcTelegram | SrcDiscord | SrcSlack | SrcWebhook

datatype session_status =
    Provisioning | Ready | Running | Idle | WaitingApproval | WaitingChildren | Compacting | Paused
  | Recovering | Failed | Closed

datatype command_kind =
    SessionPrompt | ArtifactInteraction | SessionCancel | SessionPause | SessionResume | SessionClose
  | SessionCompact | TreeGet | TreeBranch | TreeLabel | GoalSet | GoalPause | GoalResume
  | GoalComplete | GoalClear | AutonomousConfigure | ModelSelect | AgentMessageCmd | TaskList
  | TaskCreate | TaskUpdate

record command_envelope =
  cmd_commandId :: id
  cmd_clientId :: string
  cmd_tenantId :: string
  cmd_sessionId :: id
  cmd_expectedGeneration :: "nat option"
  cmd_kind :: command_kind
  cmd_source :: input_source
  cmd_issuedAt :: msec
  cmd_payload :: json

datatype command_status = CmdCompleted | CmdRejected | CmdUncertain

record command_error =
  err_code :: string
  err_message :: string
  err_retryable :: bool

record command_result =
  res_commandId :: id
  res_status :: command_status
  res_result :: "json option"
  res_error :: "command_error option"

datatype event_visibility = VisInternal | VisUser | VisAudit

datatype redaction_class =
    RedactNone | MetadataOnly | UserContent | ModelContent | ToolArgumentsSanitized | ToolResultSanitized

record event_envelope =
  ev_eventId :: id
  ev_tenantId :: string
  ev_sessionId :: id
  ev_familyId :: id
  ev_generation :: nat
  ev_sequence :: nat
  ev_turnId :: "id option"
  ev_traceId :: id
  ev_type :: string
  ev_timestamp :: msec
  ev_visibility :: event_visibility
  ev_redactionClass :: redaction_class
  ev_payload :: json

datatype message_content =
    TextContent (tc_text: string)
  | ImageContent (ic_path: string) (ic_mimeType: string) (ic_sha256: "string option") (ic_alt: "string option")
  | ToolCallContent (tcc_id: id) (tcc_name: string) (tcc_arguments: json)
  | ToolResultContent (trc_toolCallId: id) (trc_name: string) (trc_result: json) (trc_isError: bool)

datatype message_role = RoleSystem | RoleUser | RoleAssistant | RoleTool

record model_usage =
  inputTokens :: int
  outputTokens :: int
  cacheReadTokens :: int
  cacheWriteTokens :: int
  costUsd :: "rat option"

record agent_message =
  msg_id :: id
  msg_role :: message_role
  msg_content :: "message_content list"
  msg_timestamp :: msec
  msg_source :: "input_source option"
  msg_usage :: "model_usage option"
  msg_hidden :: bool

datatype capability_risk =
    Pure | WorkspaceRead | WorkspaceWrite | Process | Network | ExternalSideEffect | Privileged

record capability_descriptor =
  desc_id :: string
  desc_risk :: capability_risk
  desc_sideEffect :: bool

record capability_context =
  ctx_tenantId :: string
  ctx_sessionId :: id
  ctx_familyId :: id
  ctx_turnId :: id
  ctx_toolCallId :: id
  ctx_source :: input_source
  ctx_allowedCapabilityIds :: "string list option"
  ctx_idempotencyKey :: string

text \<open>A value that is none of the three literals can get past the check of an OPA answer.\<close>

datatype decision_kind = Allow | Deny | RequireApproval | NotALiteral json

datatype approval_scope = ScopeOnce | ScopeSession | ScopeResource

record policy_decision =
  decision :: decision_kind
  reasonCode :: string
  approvalScope :: "approval_scope option"

datatype approval_status = ApPending | ApApproved | ApDenied | ApExpired

record approval_request =
  ar_id :: id
  ar_tenantId :: string
  ar_sessionId :: id
  ar_turnId :: id
  ar_toolCallId :: id
  ar_capabilityId :: string
  ar_risk :: capability_risk
  ar_argumentsPreview :: json
  ar_reason :: string
  ar_createdAt :: msec
  ar_expiresAt :: msec
  ar_status :: approval_status
  ar_autoApproval :: "(id option \<times> string) option"

datatype goal_status = GoalActive | GoalPaused | GoalCompleted | GoalFailed

record goal_state =
  goal_objective :: string
  goal_status :: goal_status
  goal_tokenBudget :: "int option"
  goal_maxContinuations :: int
  goal_tokensUsed :: int
  goal_continuationCount :: int
  goal_createdAt :: msec
  goal_updatedAt :: msec
  goal_completedAt :: "msec option"

record gate_result =
  gate_command :: string
  gate_exitCode :: "int option"
  gate_output :: string

record autonomous_state =
  enabled :: bool
  maxContinuations :: int
  maxTurns :: int
  maxTokens :: int
  timeoutMs :: int
  continuationPrompt :: string
  gates :: "string list"
  gateTimeoutMs :: int
  gateMaxRetries :: int
  continuationsUsed :: int
  turnsUsed :: int
  tokensUsed :: int
  startedAt :: "msec option"
  gateAttempts :: "(string, int) js_map"
  lastGateFingerprint :: "string option"
  lastGateFailure :: "gate_result option"

record session_tree_entry =
  te_id :: id
  te_parentId :: "id option"
  te_message :: agent_message
  te_labels :: "string list"
  te_contextReset :: bool
  te_createdAt :: msec

record session_tree_state =
  ts_entries :: "session_tree_entry list"
  ts_activeLeafId :: "id option"

datatype delivery_mode = ModeAuto | ModeSteer | ModeFollowUp

datatype effective_mode = Steer | FollowUp

datatype relationship = RelParent | RelSibling | RelChild | RelExternal

datatype inbox_state = InPending | InClaimed | InDelivered | InUncertain

record inbox_message =
  in_id :: id
  in_commandId :: id
  in_tenantId :: string
  in_familyId :: id
  in_senderSessionId :: id
  in_senderName :: string
  in_targetSessionId :: id
  in_targetName :: string
  in_relationship :: relationship
  in_requestedMode :: delivery_mode
  in_effectiveMode :: effective_mode
  in_text :: string
  in_state :: inbox_state
  in_createdAt :: msec
  in_updatedAt :: msec
  in_ownerId :: "id option"
  in_deliveredAt :: "msec option"
  in_uncertainReason :: "string option"

record message_receipt =
  rc_id :: id
  rc_targetSessionId :: id
  rc_targetName :: string
  rc_relationship :: relationship
  rc_requestedMode :: delivery_mode
  rc_effectiveMode :: effective_mode
  rc_delivered :: bool
  rc_queuedAt :: msec
  rc_deliveredAt :: "msec option"

datatype task_status = Backlog | TaskReady | InProgress | Blocked | Review | Done | Cancelled

datatype task_priority = PrioLow | PrioNormal | PrioHigh | PrioCritical

record task_item =
  task_id :: id
  title :: string
  description :: "string option"
  task_status :: task_status
  priority :: task_priority
  dependsOn :: "id list"
  assignee :: "id option"
  createdAt :: msec
  updatedAt :: msec
  completedAt :: "msec option"

record agent_profile =
  ap_id :: id
  ap_name :: string
  ap_version :: nat
  ap_instructions :: string
  ap_allowedCapabilityIds :: "string list option"
  ap_modelRoute :: "string option"
  ap_fallbackModels :: "string list"

record session_snapshot =
  sn_sessionId :: id
  sn_familyId :: id
  sn_parentSessionId :: "id option"
  sn_tenantId :: string
  sn_generation :: nat
  sn_lastSequence :: nat
  sn_status :: session_status
  sn_name :: string
  sn_createdAt :: msec
  sn_updatedAt :: msec
  sn_messages :: "agent_message list"
  sn_tree :: "session_tree_state option"
  sn_childSessionIds :: "id list"
  sn_activeTurnId :: "id option"
  sn_modelName :: "string option"
  sn_modelFallbacks :: "string list option"
  sn_agentProfile :: "agent_profile option"
  sn_tasks :: "task_item list"
  sn_goal :: "goal_state option"
  sn_autonomous :: "autonomous_state option"
  sn_totalUsage :: model_usage

end
