(* ===== verification/Journals.thy ===== *)
theory Journals
  imports Types
begin

text \<open>
  The two write-ahead journals, \<^verbatim>\<open>persistence/command-journal.ts\<close> and
  \<^verbatim>\<open>persistence/effect-journal.ts\<close>: a JSON-lines file, the records loaded from it, and the
  executions in flight. Every \<^verbatim>\<open>await\<close> of the source is a point where other calls run, so a
  journal is a transition system: one action per stretch of code between two awaits, plus the
  appends that fail, tear or land without being acknowledged, and the crash of the process. The
  \<^verbatim>\<open>AsyncMutex\<close> around the appends only removes interleavings, so it is left out. The time stamp of a
  record (and the command id of a command record) is written and never read back by this code, and
  is not modelled.

  Both journals share the transition system and differ in how they decide what to do with a key and
  in what they do when the operation throws; the locale states what the proofs need of a decision.
\<close>

section \<open>State\<close>

datatype record_state = JStarted | JCompleted

record 'r journal_record =
  jr_key :: string
  jr_state :: record_state
  jr_result :: "'r option"

text \<open>A line of the file: one that parses, or one a failed append has torn.\<close>

datatype 'r journal_line = Line "'r journal_record" | Torn

text \<open>Where the execution in flight for a key is: appending the started record, that append written
  but not acknowledged, running the operation, appending the outcome, that append written.\<close>

datatype 'r phase = Starting | StartWritten | Operating | Finishing 'r | FinishWritten 'r

record 'r journal =
  jn_records :: "(string, 'r journal_record) js_map"
  jn_inFlight :: "(string, 'r phase) js_map"
  jn_loaded :: bool
  jn_log :: "'r journal_line list"
  jn_invoked :: "string list"
  jn_outcomes :: "(string \<times> 'r) list"

text \<open>The last two fields are history, read by no operation: the keys whose operation was called, and
  the outcome each call had.\<close>

definition journal_init :: "'r journal" where
  "journal_init = \<lparr>jn_records = [], jn_inFlight = [], jn_loaded = False, jn_log = [],
     jn_invoked = [], jn_outcomes = []\<rparr>"

section \<open>Operations\<close>

text \<open>The loop of \<^verbatim>\<open>ensureLoaded\<close> and \<^verbatim>\<open>load\<close>: records are set line by line, and a line that does not
  parse throws out of the loop with the records before it set.\<close>

fun load_lines ::
    "'r journal_line list \<Rightarrow> (string, 'r journal_record) js_map
       \<Rightarrow> (string, 'r journal_record) js_map \<times> bool" where
  "load_lines [] m = (m, True)"
| "load_lines (Torn # ls) m = (m, False)"
| "load_lines (Line r # ls) m = load_lines ls (map_set (jr_key r) r m)"

definition ensureLoaded :: "'r journal \<Rightarrow> 'r journal" where
  "ensureLoaded st =
     (if jn_loaded st then st
      else let (m, loaded) = load_lines (jn_log st) (jn_records st)
           in st\<lparr>jn_records := m, jn_loaded := loaded\<rparr>)"

text \<open>What a call does with its key: answer a recorded result, join the execution in flight, report
  that the outcome is unknown, or start an execution.\<close>

datatype 'r reply = Cached 'r | Join | OutcomeUncertain | Fresh

definition command_decide :: "'r journal_record option \<Rightarrow> bool \<Rightarrow> 'r reply" where
  "command_decide current active =
     (case current of
        Some r \<Rightarrow>
          (case (jr_state r, jr_result r) of
             (JCompleted, Some result) \<Rightarrow> Cached result
           | (JCompleted, None) \<Rightarrow> if active then Join else Fresh
           | (JStarted, _) \<Rightarrow> if active then Join else OutcomeUncertain)
      | None \<Rightarrow> if active then Join else Fresh)"

definition effect_decide :: "'r journal_record option \<Rightarrow> bool \<Rightarrow> 'r reply" where
  "effect_decide current active =
     (if active then Join
      else case current of
        None \<Rightarrow> Fresh
      | Some r \<Rightarrow>
          (case (jr_state r, jr_result r) of
             (JCompleted, Some result) \<Rightarrow> Cached result
           | (JCompleted, None) \<Rightarrow> Fresh
           | (JStarted, _) \<Rightarrow> OutcomeUncertain))"

definition command_key :: "command_envelope \<Rightarrow> string" where
  "command_key c = cmd_tenantId c @ '':'' @ cmd_clientId c @ '':'' @ cmd_commandId c"

text \<open>What a command whose operation throws is journalled with; an effect whose operation throws
  leaves its started record behind.\<close>

definition command_on_throw :: "id \<times> string \<Rightarrow> command_result option" where
  "command_on_throw e = Some
     \<lparr>res_commandId = fst e, res_status = CmdRejected, res_result = None,
      res_error = Some \<lparr>err_code = ''COMMAND_FAILED'', err_message = snd e, err_retryable = False\<rparr>\<rparr>"

definition effect_on_throw :: "string \<Rightarrow> json option" where
  "effect_on_throw e = None"

definition command_uncertain :: "command_envelope \<Rightarrow> command_result" where
  "command_uncertain c =
     \<lparr>res_commandId = cmd_commandId c, res_status = CmdUncertain, res_result = None,
      res_error = Some \<lparr>err_code = ''COMMAND_OUTCOME_UNCERTAIN'',
        err_message = ''The command was durably accepted before a restart, but no durable outcome exists. It was not replayed automatically.'',
        err_retryable = False\<rparr>\<rparr>"

text \<open>What the caller of \<^verbatim>\<open>CommandJournal.execute\<close> is answered at once; \<open>None\<close> when it waits.\<close>

definition command_answer :: "command_envelope \<Rightarrow> command_result reply \<Rightarrow> command_result option" where
  "command_answer c rep =
     (case rep of Cached result \<Rightarrow> Some result
      | OutcomeUncertain \<Rightarrow> Some (command_uncertain c)
      | _ \<Rightarrow> None)"

datatype 'e effect_error = EffectOutcomeUncertain string

definition effect_answer :: "string \<Rightarrow> json reply \<Rightarrow> (unit effect_error, json) result option" where
  "effect_answer key rep =
     (case rep of Cached result \<Rightarrow> Some (ok result)
      | OutcomeUncertain \<Rightarrow> Some (throw (EffectOutcomeUncertain key))
      | _ \<Rightarrow> None)"

text \<open>The synchronous stretch of \<^verbatim>\<open>execute\<close> after the load: the decision, and for a fresh key the
  entry in \<^verbatim>\<open>inFlight\<close>.\<close>

definition journal_call ::
    "('r journal_record option \<Rightarrow> bool \<Rightarrow> 'r reply) \<Rightarrow> string \<Rightarrow> 'r journal \<Rightarrow> 'r reply \<times> 'r journal" where
  "journal_call decide key st =
     (let rep = decide (map_get (jn_records st) key) (map_has (jn_inFlight st) key)
      in (rep, if rep = Fresh then st\<lparr>jn_inFlight := map_set key Starting (jn_inFlight st)\<rparr> else st))"

definition started_record :: "string \<Rightarrow> 'r journal_record" where
  "started_record key = \<lparr>jr_key = key, jr_state = JStarted, jr_result = None\<rparr>"

definition completed_record :: "string \<Rightarrow> 'r \<Rightarrow> 'r journal_record" where
  "completed_record key result = \<lparr>jr_key = key, jr_state = JCompleted, jr_result = Some result\<rparr>"

datatype ('e, 'r) journal_action =
    Load
  | Call string
  | AppendWrites string
  | AppendAcks string
  | AppendTears string
  | AppendFails string
  | Returns string 'r
  | Throws string 'e
  | Crash

text \<open>
  One action. \<open>AppendWrites\<close>: the line of the pending append reaches the file. \<open>AppendAcks\<close>: the
  appending promise resolves, and the record is set in memory; after a started record the operation
  is called, after an outcome the execution is over and leaves \<^verbatim>\<open>inFlight\<close>. \<open>AppendFails\<close>: the append
  rejects, before or after its line reached the file, and so does the execution; \<open>AppendTears\<close>: it rejects having
  written a part of its line. An action that does not apply to the state leaves it as it is.
\<close>

definition set_phase :: "string \<Rightarrow> 'r phase \<Rightarrow> 'r journal \<Rightarrow> 'r journal" where
  "set_phase key p st = st\<lparr>jn_inFlight := map_set key p (jn_inFlight st)\<rparr>"

definition end_flight :: "string \<Rightarrow> 'r journal \<Rightarrow> 'r journal" where
  "end_flight key st = st\<lparr>jn_inFlight := map_delete key (jn_inFlight st)\<rparr>"

fun journal_step ::
    "('r journal_record option \<Rightarrow> bool \<Rightarrow> 'r reply) \<Rightarrow> ('e \<Rightarrow> 'r option)
       \<Rightarrow> ('e, 'r) journal_action \<Rightarrow> 'r journal \<Rightarrow> 'r journal" where
  "journal_step decide on_throw Load st = ensureLoaded st"
| "journal_step decide on_throw (Call key) st =
     (if jn_loaded st then snd (journal_call decide key st) else st)"
| "journal_step decide on_throw (AppendWrites key) st =
     (case map_get (jn_inFlight st) key of
        Some Starting \<Rightarrow>
          set_phase key StartWritten (st\<lparr>jn_log := jn_log st @ [Line (started_record key)]\<rparr>)
      | Some (Finishing r) \<Rightarrow>
          set_phase key (FinishWritten r) (st\<lparr>jn_log := jn_log st @ [Line (completed_record key r)]\<rparr>)
      | _ \<Rightarrow> st)"
| "journal_step decide on_throw (AppendAcks key) st =
     (case map_get (jn_inFlight st) key of
        Some StartWritten \<Rightarrow>
          set_phase key Operating
            (st\<lparr>jn_records := map_set key (started_record key) (jn_records st),
                jn_invoked := jn_invoked st @ [key]\<rparr>)
      | Some (FinishWritten r) \<Rightarrow>
          end_flight key (st\<lparr>jn_records := map_set key (completed_record key r) (jn_records st)\<rparr>)
      | _ \<Rightarrow> st)"
| "journal_step decide on_throw (AppendTears key) st =
     (case map_get (jn_inFlight st) key of
        Some Starting \<Rightarrow> end_flight key (st\<lparr>jn_log := jn_log st @ [Torn]\<rparr>)
      | Some (Finishing r) \<Rightarrow> end_flight key (st\<lparr>jn_log := jn_log st @ [Torn]\<rparr>)
      | _ \<Rightarrow> st)"
| "journal_step decide on_throw (AppendFails key) st =
     (case map_get (jn_inFlight st) key of
        Some Operating \<Rightarrow> st
      | Some _ \<Rightarrow> end_flight key st
      | None \<Rightarrow> st)"
| "journal_step decide on_throw (Returns key r) st =
     (if map_get (jn_inFlight st) key = Some Operating
      then set_phase key (Finishing r) (st\<lparr>jn_outcomes := jn_outcomes st @ [(key, r)]\<rparr>)
      else st)"
| "journal_step decide on_throw (Throws key e) st =
     (if map_get (jn_inFlight st) key = Some Operating
      then (case on_throw e of
              Some r \<Rightarrow> set_phase key (Finishing r) (st\<lparr>jn_outcomes := jn_outcomes st @ [(key, r)]\<rparr>)
            | None \<Rightarrow> end_flight key st)
      else st)"
| "journal_step decide on_throw Crash st =
     st\<lparr>jn_records := [], jn_inFlight := [], jn_loaded := False\<rparr>"

definition journal_run ::
    "('r journal_record option \<Rightarrow> bool \<Rightarrow> 'r reply) \<Rightarrow> ('e \<Rightarrow> 'r option)
       \<Rightarrow> ('e, 'r) journal_action list \<Rightarrow> 'r journal \<Rightarrow> 'r journal" where
  "journal_run decide on_throw acts st = fold (journal_step decide on_throw) acts st"

text \<open>The two journals.\<close>

definition command_step ::
    "(id \<times> string, command_result) journal_action \<Rightarrow> command_result journal \<Rightarrow> command_result journal" where
  "command_step = journal_step command_decide command_on_throw"

definition effect_step :: "(string, json) journal_action \<Rightarrow> json journal \<Rightarrow> json journal" where
  "effect_step = journal_step effect_decide effect_on_throw"

section \<open>The invariant\<close>

text \<open>The last line of the file for a key.\<close>

fun last_record :: "string \<Rightarrow> 'r journal_line list \<Rightarrow> 'r journal_record option" where
  "last_record k [] = None"
| "last_record k (Torn # ls) = last_record k ls"
| "last_record k (Line r # ls) =
     (case last_record k ls of Some s \<Rightarrow> Some s | None \<Rightarrow> if jr_key r = k then Some r else None)"

definition record_ok :: "(string \<times> 'r) list \<Rightarrow> 'r journal_record \<Rightarrow> bool" where
  "record_ok outcomes r \<longleftrightarrow>
     (case jr_state r of JStarted \<Rightarrow> jr_result r = None
      | JCompleted \<Rightarrow> (\<exists>v. jr_result r = Some v \<and> (jr_key r, v) \<in> set outcomes))"

definition flight_ok :: "'r journal \<Rightarrow> string \<Rightarrow> bool" where
  "flight_ok st k \<longleftrightarrow>
     (case map_get (jn_inFlight st) k of
        None \<Rightarrow> True
      | Some Starting \<Rightarrow> k \<notin> set (jn_invoked st) \<and> map_get (jn_records st) k = None
      | Some StartWritten \<Rightarrow> k \<notin> set (jn_invoked st) \<and> map_get (jn_records st) k = None
          \<and> last_record k (jn_log st) \<noteq> None
      | Some Operating \<Rightarrow> k \<in> set (jn_invoked st)
          \<and> map_get (jn_records st) k = Some (started_record k) \<and> k \<notin> fst ` set (jn_outcomes st)
      | Some (Finishing v) \<Rightarrow> k \<in> set (jn_invoked st)
          \<and> map_get (jn_records st) k = Some (started_record k) \<and> (k, v) \<in> set (jn_outcomes st)
      | Some (FinishWritten v) \<Rightarrow> k \<in> set (jn_invoked st)
          \<and> map_get (jn_records st) k = Some (started_record k) \<and> (k, v) \<in> set (jn_outcomes st)
          \<and> last_record k (jn_log st) = Some (completed_record k v))"

definition key_ok :: "'r journal \<Rightarrow> string \<Rightarrow> bool" where
  "key_ok st k \<longleftrightarrow>
     (\<forall>r. map_get (jn_records st) k = Some r \<longrightarrow>
        jr_key r = k \<and> record_ok (jn_outcomes st) r \<and> last_record k (jn_log st) \<noteq> None
        \<and> (jn_loaded st \<and> jr_state r = JCompleted \<longrightarrow> last_record k (jn_log st) = Some r))
     \<and> (k \<in> set (jn_invoked st) \<longrightarrow> last_record k (jn_log st) \<noteq> None
          \<and> (jn_loaded st \<longrightarrow> map_get (jn_records st) k \<noteq> None))
     \<and> flight_ok st k"

definition journal_inv :: "'r journal \<Rightarrow> bool" where
  "journal_inv st \<longleftrightarrow>
     (jn_loaded st \<or> jn_inFlight st = []) \<and> distinct (jn_invoked st)
     \<and> distinct (map fst (jn_outcomes st)) \<and> fst ` set (jn_outcomes st) \<subseteq> set (jn_invoked st)
     \<and> (\<forall>r. Line r \<in> set (jn_log st) \<longrightarrow> record_ok (jn_outcomes st) r)
     \<and> (\<forall>k. key_ok st k)"

lemma last_record_append:
  "last_record k (ls @ ls') =
     (case last_record k ls' of Some r \<Rightarrow> Some r | None \<Rightarrow> last_record k ls)"
  by (induction ls rule: last_record.induct) (auto split: option.splits)

lemma last_record_key: "last_record k ls = Some r \<Longrightarrow> jr_key r = k \<and> Line r \<in> set ls"
proof (induction ls)
  case (Cons l ls)
  then show ?case by (cases l) (auto split: option.splits if_splits)
qed simp

lemma last_record_ne: "Line r \<in> set ls \<Longrightarrow> last_record (jr_key r) ls \<noteq> None"
proof (induction ls)
  case (Cons l ls)
  then show ?case by (cases l) (auto split: option.splits)
qed simp

lemma record_ok_mono: "record_ok outs r \<Longrightarrow> record_ok (outs @ outs') r"
  by (auto simp: record_ok_def split: record_state.splits)

lemma record_ok_simps [simp]:
  "record_ok outs (started_record k)"
  "record_ok outs (completed_record k v) \<longleftrightarrow> (k, v) \<in> set outs"
  by (auto simp: record_ok_def started_record_def completed_record_def)

lemma record_simps [simp]:
  "jr_key (started_record k) = k" "jr_key (completed_record k v) = k"
  "jr_state (started_record k) = JStarted" "jr_state (completed_record k v) = JCompleted"
  "jr_result (started_record k) = None" "jr_result (completed_record k v) = Some v"
  by (auto simp: started_record_def completed_record_def)

lemma load_lines_get:
  "snd (load_lines ls m) \<Longrightarrow>
     map_get (fst (load_lines ls m)) k =
       (case last_record k ls of Some r \<Rightarrow> Some r | None \<Rightarrow> map_get m k)"
  by (induction ls m rule: load_lines.induct) (auto simp: js_simps split: option.splits)

lemma load_lines_from:
  "map_get (fst (load_lines ls m)) k = Some r \<Longrightarrow>
     map_get m k = Some r \<or> (Line r \<in> set ls \<and> jr_key r = k)"
  by (induction ls m rule: load_lines.induct) (auto simp: js_simps split: if_splits)

lemma journal_inv_init: "journal_inv journal_init"
  by (simp add: journal_inv_def journal_init_def key_ok_def flight_ok_def)

lemma journal_inv_load: "journal_inv st \<Longrightarrow> journal_inv (ensureLoaded st)"
proof (cases "jn_loaded st")
  case True
  then show "journal_inv st \<Longrightarrow> journal_inv (ensureLoaded st)" by (simp add: ensureLoaded_def)
next
  case False
  assume inv: "journal_inv st"
  obtain m l where ld: "load_lines (jn_log st) (jn_records st) = (m, l)"
    by (cases "load_lines (jn_log st) (jn_records st)")
  have idle: "jn_inFlight st = []" using inv False by (simp add: journal_inv_def)
  have "key_ok (st\<lparr>jn_records := m, jn_loaded := l\<rparr>) k" for k
  proof -
    have k: "key_ok st k" using inv by (simp add: journal_inv_def)
    have lines: "Line r \<in> set (jn_log st) \<Longrightarrow> record_ok (jn_outcomes st) r" for r
      using inv by (simp add: journal_inv_def)
    have from_log: "map_get m k = Some r \<Longrightarrow>
        jr_key r = k \<and> record_ok (jn_outcomes st) r \<and> last_record k (jn_log st) \<noteq> None" for r
      using load_lines_from [of "jn_log st" "jn_records st" k r] ld k lines last_record_ne [of r]
      by (auto simp: key_ok_def)
    have got: "l \<Longrightarrow> map_get m k =
        (case last_record k (jn_log st) of Some r \<Rightarrow> Some r | None \<Rightarrow> map_get (jn_records st) k)"
      using load_lines_get [of "jn_log st" "jn_records st" k] ld by simp
    show ?thesis
      using k from_log got idle unfolding key_ok_def flight_ok_def by (auto split: option.splits)
  qed
  then show "journal_inv (ensureLoaded st)"
    using inv False ld idle by (simp add: journal_inv_def ensureLoaded_def)
qed

text \<open>Every other action touches one key only.\<close>

lemma key_ok_frame:
  assumes "key_ok st k"
    and "map_get (jn_records st') k = map_get (jn_records st) k"
    and "map_get (jn_inFlight st') k = map_get (jn_inFlight st) k"
    and "jn_loaded st' = jn_loaded st"
    and "last_record k (jn_log st') = last_record k (jn_log st)"
    and "k \<in> set (jn_invoked st') \<longleftrightarrow> k \<in> set (jn_invoked st)"
    and "\<And>v. (k, v) \<in> set (jn_outcomes st') \<longleftrightarrow> (k, v) \<in> set (jn_outcomes st)"
  shows "key_ok st' k"
proof -
  have "k \<in> fst ` set (jn_outcomes st') \<longleftrightarrow> k \<in> fst ` set (jn_outcomes st)"
    using assms(7) by force
  then show ?thesis
    using assms unfolding key_ok_def flight_ok_def record_ok_def
    by (auto split: option.splits phase.splits record_state.splits)
qed

lemma journal_invI:
  assumes inv: "journal_inv st"
    and loaded: "jn_loaded st' = jn_loaded st" "jn_loaded st \<or> jn_inFlight st' = []"
    and invoked: "distinct (jn_invoked st')"
    and outs: "distinct (map fst (jn_outcomes st'))"
      "fst ` set (jn_outcomes st') \<subseteq> set (jn_invoked st')"
      "set (jn_outcomes st) \<subseteq> set (jn_outcomes st')"
    and log: "\<And>r. Line r \<in> set (jn_log st') \<Longrightarrow> Line r \<in> set (jn_log st) \<or> record_ok (jn_outcomes st') r"
    and key: "key_ok st' key"
    and other: "\<And>k. k \<noteq> key \<Longrightarrow> map_get (jn_records st') k = map_get (jn_records st) k"
      "\<And>k. k \<noteq> key \<Longrightarrow> map_get (jn_inFlight st') k = map_get (jn_inFlight st) k"
      "\<And>k. k \<noteq> key \<Longrightarrow> last_record k (jn_log st') = last_record k (jn_log st)"
      "\<And>k. k \<noteq> key \<Longrightarrow> k \<in> set (jn_invoked st') \<longleftrightarrow> k \<in> set (jn_invoked st)"
      "\<And>k v. k \<noteq> key \<Longrightarrow> (k, v) \<in> set (jn_outcomes st') \<longleftrightarrow> (k, v) \<in> set (jn_outcomes st)"
  shows "journal_inv st'"
proof -
  have mono: "record_ok (jn_outcomes st) r \<Longrightarrow> record_ok (jn_outcomes st') r" for r
    using outs(3) by (auto simp: record_ok_def split: record_state.splits)
  have "record_ok (jn_outcomes st') r" if "Line r \<in> set (jn_log st')" for r
    using log [OF that] inv mono by (meson journal_inv_def)
  moreover have "key_ok st' k" for k
  proof (cases "k = key")
    case False
    have "key_ok st k" using inv by (simp add: journal_inv_def)
    then show ?thesis by (rule key_ok_frame) (simp_all add: other False loaded(1))
  qed (simp add: key)
  ultimately show ?thesis using loaded invoked outs by (simp add: journal_inv_def)
qed

lemmas journal_unfold = set_phase_def end_flight_def js_simps last_record_append

lemma journal_invD:
  assumes "journal_inv st"
  shows "key_ok st k" and "flight_ok st k" and "distinct (jn_invoked st)"
    and "distinct (map fst (jn_outcomes st))"
    and "fst ` set (jn_outcomes st) \<subseteq> set (jn_invoked st)"
    and "jn_loaded st \<or> jn_inFlight st = []"
  using assms by (auto simp: journal_inv_def key_ok_def)

lemma in_flight_loaded:
  "journal_inv st \<Longrightarrow> map_get (jn_inFlight st) k = Some p \<Longrightarrow> jn_loaded st"
  using journal_invD(6) by fastforce

lemma journal_inv_end:
  assumes inv: "journal_inv st"
  shows "journal_inv (end_flight key st)"
proof (rule journal_invI [of st _ key, OF inv])
  show "key_ok (end_flight key st) key"
    using journal_invD(1) [OF inv, of key] by (simp add: key_ok_def flight_ok_def journal_unfold)
qed (use journal_invD [OF inv] in \<open>auto simp: journal_unfold\<close>)

lemma journal_inv_torn:
  assumes inv: "journal_inv st"
  shows "journal_inv (st\<lparr>jn_log := jn_log st @ [Torn]\<rparr>)"
proof (rule journal_invI [of st _ key, OF inv])
  show "key_ok (st\<lparr>jn_log := jn_log st @ [Torn]\<rparr>) key"
    using journal_invD(1) [OF inv, of key]
    by (simp add: key_ok_def flight_ok_def journal_unfold cong: phase.case_cong option.case_cong)
qed (use journal_invD [OF inv] in \<open>auto simp: journal_unfold\<close>)

lemma journal_inv_write_start:
  assumes inv: "journal_inv st" and p: "map_get (jn_inFlight st) key = Some Starting"
  shows "journal_inv
    (set_phase key StartWritten (st\<lparr>jn_log := jn_log st @ [Line (started_record key)]\<rparr>))" (is "journal_inv ?st'")
proof (rule journal_invI [of st _ key, OF inv])
  show "key_ok ?st' key"
    using journal_invD(1) [OF inv, of key] p by (simp add: key_ok_def flight_ok_def journal_unfold)
qed (use journal_invD [OF inv] in_flight_loaded [OF inv p] in \<open>auto simp: journal_unfold\<close>)

lemma journal_inv_write_finish:
  assumes inv: "journal_inv st" and p: "map_get (jn_inFlight st) key = Some (Finishing r)"
  shows "journal_inv
    (set_phase key (FinishWritten r) (st\<lparr>jn_log := jn_log st @ [Line (completed_record key r)]\<rparr>))"
    (is "journal_inv ?st'")
proof (rule journal_invI [of st _ key, OF inv])
  show "key_ok ?st' key"
    using journal_invD(1) [OF inv, of key] p by (simp add: key_ok_def flight_ok_def journal_unfold)
  have out: "(key, r) \<in> set (jn_outcomes st)"
    using journal_invD(2) [OF inv, of key] p by (simp add: flight_ok_def)
  show "Line s \<in> set (jn_log ?st') \<Longrightarrow> Line s \<in> set (jn_log st) \<or> record_ok (jn_outcomes ?st') s" for s
    using out by (auto simp: journal_unfold)
qed (use journal_invD [OF inv] in_flight_loaded [OF inv p] in \<open>auto simp: journal_unfold\<close>)

lemma journal_inv_ack_start:
  assumes inv: "journal_inv st" and p: "map_get (jn_inFlight st) key = Some StartWritten"
  shows "journal_inv (set_phase key Operating
            (st\<lparr>jn_records := map_set key (started_record key) (jn_records st),
                jn_invoked := jn_invoked st @ [key]\<rparr>))" (is "journal_inv ?st'")
proof (rule journal_invI [of st _ key, OF inv])
  have new: "key \<notin> set (jn_invoked st)"
    using journal_invD(2) [OF inv, of key] p by (simp add: flight_ok_def)
  then have "key \<notin> fst ` set (jn_outcomes st)" using journal_invD(5) [OF inv] by blast
  then show "key_ok ?st' key"
    using journal_invD(1) [OF inv, of key] p by (simp add: key_ok_def flight_ok_def journal_unfold)
  show "distinct (jn_invoked ?st')"
    using new journal_invD(3) [OF inv] by (simp add: journal_unfold)
qed (use journal_invD [OF inv] in_flight_loaded [OF inv p] in \<open>auto simp: journal_unfold\<close>)

lemma journal_inv_ack_finish:
  assumes inv: "journal_inv st" and p: "map_get (jn_inFlight st) key = Some (FinishWritten r)"
  shows "journal_inv
    (end_flight key (st\<lparr>jn_records := map_set key (completed_record key r) (jn_records st)\<rparr>))"
    (is "journal_inv ?st'")
proof (rule journal_invI [of st _ key, OF inv])
  show "key_ok ?st' key"
    using journal_invD(1) [OF inv, of key] p by (simp add: key_ok_def flight_ok_def journal_unfold)
qed (use journal_invD [OF inv] in_flight_loaded [OF inv p] in \<open>auto simp: journal_unfold\<close>)

lemma journal_inv_outcome:
  assumes inv: "journal_inv st" and p: "map_get (jn_inFlight st) key = Some Operating"
  shows "journal_inv (set_phase key (Finishing r) (st\<lparr>jn_outcomes := jn_outcomes st @ [(key, r)]\<rparr>))"
    (is "journal_inv ?st'")
proof (rule journal_invI [of st _ key, OF inv])
  have flight: "key \<in> set (jn_invoked st)" "key \<notin> fst ` set (jn_outcomes st)"
    using journal_invD(2) [OF inv, of key] p by (simp_all add: flight_ok_def)
  show "key_ok ?st' key"
    using journal_invD(1) [OF inv, of key] p
    by (auto simp: key_ok_def flight_ok_def journal_unfold record_ok_mono)
  show "distinct (map fst (jn_outcomes ?st'))" "fst ` set (jn_outcomes ?st') \<subseteq> set (jn_invoked ?st')"
    using flight journal_invD [OF inv] by (auto simp: journal_unfold)
qed (use journal_invD [OF inv] in_flight_loaded [OF inv p] in \<open>auto simp: journal_unfold\<close>)

lemma journal_inv_crash:
  "journal_inv st \<Longrightarrow> journal_inv (st\<lparr>jn_records := [], jn_inFlight := [], jn_loaded := False\<rparr>)"
  by (auto simp: journal_inv_def key_ok_def flight_ok_def)

section \<open>The contract of a decision\<close>

text \<open>Both journals join an execution in flight unless a result is recorded, answer a recorded
  result, report an unknown outcome for a started record, and start only what has no record.\<close>

locale write_ahead =
  fixes decide :: "'r journal_record option \<Rightarrow> bool \<Rightarrow> 'r reply"
    and on_throw :: "'e \<Rightarrow> 'r option"
  assumes fresh: "decide current active = Fresh \<Longrightarrow>
      \<not> active \<and> (\<forall>r. current = Some r \<longrightarrow> jr_state r = JCompleted \<and> jr_result r = None)"
    and cached: "decide current active = Cached v \<Longrightarrow>
      \<exists>r. current = Some r \<and> jr_state r = JCompleted \<and> jr_result r = Some v"
    and completed: "jr_state r = JCompleted \<Longrightarrow> jr_result r = Some v \<Longrightarrow>
      decide (Some r) False = Cached v"
    and started: "jr_state r = JStarted \<Longrightarrow> decide (Some r) False = OutcomeUncertain"
begin

lemma fresh_new:
  assumes "journal_inv st" "decide (map_get (jn_records st) key) (map_has (jn_inFlight st) key) = Fresh"
  shows "map_get (jn_inFlight st) key = None" and "map_get (jn_records st) key = None"
proof -
  show "map_get (jn_inFlight st) key = None" using fresh [OF assms(2)] by simp
  have "record_ok (jn_outcomes st) r" if "map_get (jn_records st) key = Some r" for r
    using journal_invD(1) [OF assms(1), of key] that by (simp add: key_ok_def)
  then show "map_get (jn_records st) key = None"
    using fresh [OF assms(2)] by (cases "map_get (jn_records st) key") (auto simp: record_ok_def)
qed

lemma inv_call:
  assumes inv: "journal_inv st" and loaded: "jn_loaded st"
  shows "journal_inv (snd (journal_call decide key st))"
proof (cases "decide (map_get (jn_records st) key) (map_has (jn_inFlight st) key) = Fresh")
  case True
  let ?st' = "st\<lparr>jn_inFlight := map_set key Starting (jn_inFlight st)\<rparr>"
  have "journal_inv ?st'"
  proof (rule journal_invI [of st _ key, OF inv])
    show "key_ok ?st' key"
      using journal_invD(1) [OF inv, of key] fresh_new [OF inv True] loaded
      by (auto simp: key_ok_def flight_ok_def journal_unfold)
  qed (use journal_invD [OF inv] loaded in \<open>auto simp: journal_unfold\<close>)
  with True show ?thesis by (simp add: journal_call_def Let_def)
qed (use inv in \<open>simp add: journal_call_def Let_def\<close>)

lemma inv_step: "journal_inv st \<Longrightarrow> journal_inv (journal_step decide on_throw act st)"
proof (cases act)
  case (AppendWrites k)
  then show "journal_inv st \<Longrightarrow> ?thesis"
    by (auto split: option.split phase.split intro: journal_inv_write_start journal_inv_write_finish)
next
  case (AppendAcks k)
  then show "journal_inv st \<Longrightarrow> ?thesis"
    by (auto split: option.split phase.split intro: journal_inv_ack_start journal_inv_ack_finish)
next
  case (AppendTears k)
  then show "journal_inv st \<Longrightarrow> ?thesis"
    by (auto split: option.split phase.split intro: journal_inv_end journal_inv_torn)
next
  case (AppendFails k)
  then show "journal_inv st \<Longrightarrow> ?thesis"
    by (auto split: option.split phase.split intro: journal_inv_end)
next
  case (Throws k e)
  then show "journal_inv st \<Longrightarrow> ?thesis"
    by (auto split: option.split intro: journal_inv_end journal_inv_outcome)
qed (auto intro: journal_inv_load inv_call journal_inv_outcome journal_inv_crash)

lemma inv_run: "journal_inv st \<Longrightarrow> journal_inv (journal_run decide on_throw acts st)"
  unfolding journal_run_def by (induction acts arbitrary: st) (simp_all add: inv_step)

lemma at_most_once: "distinct (jn_invoked (journal_run decide on_throw acts journal_init))"
  by (rule journal_invD(3) [OF inv_run [OF journal_inv_init]])

text \<open>An answered result is the outcome of the key's only execution.\<close>

lemma answer_outcome:
  assumes "journal_inv st" and "fst (journal_call decide key st) = Cached v"
  shows "(key, v) \<in> set (jn_outcomes st)"
proof -
  from assms(2) obtain r where r: "map_get (jn_records st) key = Some r" "jr_state r = JCompleted" "jr_result r = Some v"
    by (auto simp: journal_call_def Let_def dest!: cached)
  have "jr_key r = key \<and> record_ok (jn_outcomes st) r"
    using journal_invD(1) [OF assms(1), of key] r by (simp add: key_ok_def)
  then show ?thesis using r by (auto simp: record_ok_def)
qed

lemma outcomes_grow:
  "set (jn_outcomes st) \<subseteq> set (jn_outcomes (journal_step decide on_throw act st))"
  by (cases act)
    (auto simp: ensureLoaded_def journal_call_def set_phase_def end_flight_def Let_def
      split: option.split phase.split prod.split)

lemma outcomes_grow_run:
  "set (jn_outcomes st) \<subseteq> set (jn_outcomes (journal_run decide on_throw acts st))"
  unfolding journal_run_def
proof (induction acts arbitrary: st)
  case (Cons a acts)
  then show ?case using outcomes_grow [of st a] by force
qed simp

lemma same_answer:
  assumes "journal_inv st" and "st' = journal_run decide on_throw acts st"
    and "fst (journal_call decide key st) = Cached v" and "fst (journal_call decide key st') = Cached w"
  shows "v = w"
proof -
  have "(key, v) \<in> set (jn_outcomes st')"
    using answer_outcome [OF assms(1,3)] outcomes_grow_run assms(2) by blast
  moreover have inv': "journal_inv st'" using inv_run [OF assms(1)] assms(2) by simp
  then have "(key, w) \<in> set (jn_outcomes st')" using answer_outcome assms(4) by blast
  ultimately show ?thesis using journal_invD(4) [OF inv'] by (simp add: eq_key_imp_eq_value)
qed

end

section \<open>Settled keys\<close>

text \<open>The outcome of \<open>key\<close> is on disk, and in memory once the file is loaded.\<close>

definition settled :: "string \<Rightarrow> 'r \<Rightarrow> 'r journal \<Rightarrow> bool" where
  "settled key v st \<longleftrightarrow> journal_inv st
     \<and> last_record key (jn_log st) = Some (completed_record key v)
     \<and> (jn_loaded st \<longrightarrow> map_get (jn_records st) key = Some (completed_record key v))"

lemma settled_idle:
  assumes "settled key v st"
  shows "map_get (jn_inFlight st) key = None"
proof (rule ccontr)
  assume "map_get (jn_inFlight st) key \<noteq> None"
  then obtain p where p: "map_get (jn_inFlight st) key = Some p" by blast
  then have "jn_loaded st" using assms in_flight_loaded by (auto simp: settled_def)
  then have "map_get (jn_records st) key = Some (completed_record key v)"
    using assms by (simp add: settled_def)
  moreover have "flight_ok st key" using assms journal_invD(2) by (auto simp: settled_def)
  ultimately show False using p
    by (auto simp: flight_ok_def started_record_def completed_record_def split: phase.splits)
qed

lemma settled_load: "settled key v st \<Longrightarrow> settled key v (ensureLoaded st)"
proof -
  assume s: "settled key v st"
  obtain m l where ld: "load_lines (jn_log st) (jn_records st) = (m, l)"
    by (cases "load_lines (jn_log st) (jn_records st)")
  have "journal_inv (ensureLoaded st)" using s journal_inv_load by (auto simp: settled_def)
  moreover have "l \<Longrightarrow> map_get m key = Some (completed_record key v)"
    using s load_lines_get [of "jn_log st" "jn_records st" key] ld by (simp add: settled_def)
  ultimately show ?thesis using s ld by (auto simp: settled_def ensureLoaded_def)
qed

context write_ahead begin

lemma settled_call:
  assumes s: "settled key v st" and l: "jn_loaded st"
  shows "settled key v (snd (journal_call decide k st))"
  using s inv_call [of st k] l by (auto simp: settled_def journal_call_def Let_def split: if_splits)

lemma settled_step: "settled key v st \<Longrightarrow> settled key v (journal_step decide on_throw act st)"
proof -
  assume s: "settled key v st"
  have inv: "journal_inv (journal_step decide on_throw act st)"
    using s inv_step by (auto simp: settled_def)
  have idle: "map_get (jn_inFlight st) key = None" using s by (rule settled_idle)
  show ?thesis
  proof (cases act)
    case (AppendWrites k)
    with s idle inv show ?thesis
      by (cases "k = key") (auto simp: settled_def journal_unfold split: option.splits phase.splits)
  next
    case (AppendAcks k)
    with s idle inv show ?thesis
      by (cases "k = key") (auto simp: settled_def journal_unfold split: option.splits phase.splits)
  next
    case (AppendTears k)
    with s idle inv show ?thesis
      by (cases "k = key") (auto simp: settled_def journal_unfold split: option.splits phase.splits)
  next
    case (AppendFails k)
    with s idle inv show ?thesis
      by (cases "k = key") (auto simp: settled_def journal_unfold split: option.splits phase.splits)
  next
    case (Throws k e)
    with s idle inv show ?thesis
      by (cases "k = key") (auto simp: settled_def journal_unfold split: option.splits)
  next
    case (Call k)
    with s show ?thesis by (auto intro: settled_call)
  next
    case Load
    with s show ?thesis by (simp add: settled_load)
  qed (use s inv in \<open>auto simp: settled_def journal_unfold split: if_splits\<close>)
qed

lemma settled_run: "settled key v st \<Longrightarrow> settled key v (journal_run decide on_throw acts st)"
  unfolding journal_run_def by (induction acts arbitrary: st) (simp_all add: settled_step)

lemma answered_settled:
  assumes "journal_inv st" and "jn_loaded st" and "fst (journal_call decide key st) = Cached v"
  shows "settled key v st"
proof -
  from assms(3) obtain r where r: "map_get (jn_records st) key = Some r" "jr_state r = JCompleted" "jr_result r = Some v"
    by (auto simp: journal_call_def Let_def dest!: cached)
  have "jr_key r = key" "last_record key (jn_log st) = Some r"
    using journal_invD(1) [OF assms(1), of key] r assms(2) by (simp_all add: key_ok_def)
  moreover have "r = completed_record key v"
    using r \<open>jr_key r = key\<close> by (simp add: completed_record_def)
  ultimately show ?thesis using r assms by (simp add: settled_def)
qed

lemma settled_answer:
  "settled key v st \<Longrightarrow> jn_loaded st \<Longrightarrow> fst (journal_call decide key st) = Cached v"
  using completed settled_idle [of key v st] by (simp add: settled_def journal_call_def Let_def)

lemma durable_answer:
  assumes "st = journal_run decide on_throw acts journal_init" and "jn_loaded st"
    and "fst (journal_call decide key st) = Cached v"
    and "st' = journal_run decide on_throw acts' st" and "jn_loaded st'"
  shows "fst (journal_call decide key st') = Cached v"
  using assms answered_settled settled_run settled_answer inv_run [OF journal_inv_init]
  by metis

text \<open>After a throw that no result stands for, the key is blocked.\<close>

lemma throw_blocks:
  assumes "st = journal_run decide on_throw acts journal_init" and "on_throw e = None"
    and "map_get (jn_inFlight st) key = Some Operating"
  shows "fst (journal_call decide key (journal_step decide on_throw (Throws key e) st)) = OutcomeUncertain"
proof -
  have "flight_ok st key" using assms(1) inv_run [OF journal_inv_init] journal_invD(2) by blast
  then have "map_get (jn_records st) key = Some (started_record key)"
    using assms(3) by (simp add: flight_ok_def)
  then show ?thesis
    using assms(2,3) started [of "started_record key"]
    by (simp add: journal_call_def Let_def end_flight_def js_simps)
qed

end

interpretation cj: write_ahead command_decide command_on_throw
  by unfold_locales
    (auto simp: command_decide_def split: option.splits record_state.splits if_splits)

interpretation ej: write_ahead effect_decide effect_on_throw
  by unfold_locales
    (auto simp: effect_decide_def split: option.splits record_state.splits if_splits)

section \<open>Properties\<close>

text \<open>C1. Whatever the order of calls, appends that fail or tear and crashes of the process, neither
  journal calls the operation of a key twice: no command and no effect is ever replayed.\<close>

theorem journals_at_most_once:
  "distinct (jn_invoked (journal_run command_decide command_on_throw cacts journal_init))
   \<and> distinct (jn_invoked (journal_run effect_decide effect_on_throw eacts journal_init))"
  using cj.at_most_once ej.at_most_once by blast

text \<open>C2. Once a command has been answered with a recorded result, every later call with its key gets
  the same result, across any interleaving, failed append and restart.\<close>

theorem command_result_durable:
  assumes "st = journal_run command_decide command_on_throw acts journal_init" and "jn_loaded st"
    and "fst (journal_call command_decide (command_key c) st) = Cached v"
    and "st' = journal_run command_decide command_on_throw acts' st" and "jn_loaded st'"
  shows "command_answer c (fst (journal_call command_decide (command_key c) st')) = Some v"
proof -
  have "fst (journal_call command_decide (command_key c) st') = Cached v"
    using cj.durable_answer [OF assms] .
  then show ?thesis by (simp add: command_answer_def)
qed

definition demo_command :: command_envelope where
  "demo_command = \<lparr>cmd_commandId = ''c'', cmd_clientId = ''w'', cmd_tenantId = ''t'',
     cmd_sessionId = ''s'', cmd_expectedGeneration = None, cmd_kind = SessionPrompt, cmd_source = SrcWeb,
     cmd_issuedAt = 0, cmd_payload = JNull\<rparr>"

definition demo_result :: command_result where
  "demo_result = \<lparr>res_commandId = ''c'', res_status = CmdCompleted, res_result = None, res_error = None\<rparr>"

definition demo_run :: "(id \<times> string, command_result) journal_action list" where
  "demo_run = (let k = ''t:w:c'' in
     [Load, Call k, AppendWrites k, AppendAcks k, Returns k demo_result, AppendWrites k, AppendAcks k])"

lemma command_result_durable_witness:
  "command_answer demo_command
     (fst (journal_call command_decide (command_key demo_command)
        (journal_run command_decide command_on_throw [Crash, Load]
          (journal_run command_decide command_on_throw demo_run journal_init)))) = Some demo_result"
  by (rule command_result_durable [OF refl _ _ refl])
    (simp_all add: demo_run_def demo_command_def demo_result_def command_key_def journal_run_def
      journal_init_def ensureLoaded_def journal_call_def command_decide_def command_answer_def
      command_uncertain_def set_phase_def end_flight_def started_record_def completed_record_def Let_def)

text \<open>An effect whose operation throws is blocked at once, in the same process: the next call is told
  that the outcome is unknown, while a command in the same position is journalled as rejected.\<close>

theorem effect_throw_blocks:
  assumes "st = journal_run effect_decide effect_on_throw acts journal_init"
    and "map_get (jn_inFlight st) key = Some Operating"
  shows "effect_answer key
      (fst (journal_call effect_decide key (journal_step effect_decide effect_on_throw (Throws key e) st)))
    = Some (throw (EffectOutcomeUncertain key))"
  using ej.throw_blocks [OF assms(1) _ assms(2)] by (simp add: effect_answer_def effect_on_throw_def)

lemma effect_throw_blocks_witness:
  "effect_answer ''k''
      (fst (journal_call effect_decide ''k''
        (journal_step effect_decide effect_on_throw (Throws ''k'' ''boom'')
          (journal_run effect_decide effect_on_throw
            [Load, Call ''k'', AppendWrites ''k'', AppendAcks ''k''] journal_init))))
    = Some (throw (EffectOutcomeUncertain ''k''))"
  by (rule effect_throw_blocks [OF refl])
    (simp add: journal_run_def journal_init_def ensureLoaded_def journal_call_def effect_decide_def
      set_phase_def end_flight_def started_record_def Let_def)

lemma colon_split:
  "CHR '':'' \<notin> set a \<Longrightarrow> CHR '':'' \<notin> set b \<Longrightarrow> a @ '':'' @ x = b @ '':'' @ y \<longleftrightarrow> a = b \<and> x = y"
proof (induction a arbitrary: b)
  case Nil
  then show ?case by (cases b) auto
next
  case (Cons c a)
  then show ?case by (cases b) auto
qed

text \<open>The key of a command tells tenant, client and command apart when the tenant and client ids
  have no colon; in general it does not: the same key stands for commands of different tenants and
  clients, which are then answered with each other's results.\<close>

theorem command_key_identity:
  assumes "list_all (\<lambda>s. CHR '':'' \<notin> set s)
      [cmd_tenantId c, cmd_clientId c, cmd_tenantId c', cmd_clientId c']"
  shows "(command_key c = command_key c' \<longleftrightarrow>
       cmd_tenantId c = cmd_tenantId c' \<and> cmd_clientId c = cmd_clientId c' \<and> cmd_commandId c = cmd_commandId c')
     \<and> command_key (d\<lparr>cmd_tenantId := t, cmd_clientId := u @ '':'' @ w\<rparr>)
         = command_key (d\<lparr>cmd_tenantId := t @ '':'' @ u, cmd_clientId := w\<rparr>)"
  using assms by (simp add: command_key_def colon_split del: append.simps)

lemma command_key_identity_witness:
  "command_key demo_command = command_key (demo_command\<lparr>cmd_commandId := ''d''\<rparr>) \<longleftrightarrow> False"
  using command_key_identity [where c = demo_command and c' = "demo_command\<lparr>cmd_commandId := ''d''\<rparr>"]
  by (simp add: demo_command_def)

end
