(* ===== verification/EventStore.thy ===== *)
theory EventStore
  imports Types
begin

text \<open>
  The event logs of the sessions, \<^verbatim>\<open>persistence/event-store.ts\<close>: \<^verbatim>\<open>FileEventStore\<close>, one JSON-lines
  file per session behind a cache, and \<^verbatim>\<open>MemoryEventStore\<close>. The listeners are told after the append
  and cannot fail it (file store); they are not modelled. The locale is the contract both stores
  give the session actor.
\<close>

section \<open>The file store\<close>

record file_store =
  fs_files :: "id \<Rightarrow> event_envelope list option"
  fs_cache :: "id \<Rightarrow> event_envelope list option"

datatype store_failure = NonContiguous id nat nat | StaleGeneration nat nat | IoFailed

definition file_store_init :: file_store where
  "file_store_init = \<lparr>fs_files = (\<lambda>_. None), fs_cache = (\<lambda>_. None)\<rparr>"

text \<open>\<^verbatim>\<open>load\<close>: the cached list, or the lines of the file sorted by sequence; a missing file is empty.\<close>

definition fs_load :: "id \<Rightarrow> file_store \<Rightarrow> event_envelope list \<times> file_store" where
  "fs_load s st =
     (case fs_cache st s of
        Some cached \<Rightarrow> (cached, st)
      | None \<Rightarrow>
          (let events = (case fs_files st s of None \<Rightarrow> [] | Some ls \<Rightarrow> sort_key ev_sequence ls)
           in (events, st\<lparr>fs_cache := (fs_cache st)(s \<mapsto> events)\<rparr>)))"

text \<open>\<^verbatim>\<open>append\<close>, for a file system that accepts the line (\<open>io\<close>) or rejects it.\<close>

definition fs_append ::
    "bool \<Rightarrow> event_envelope \<Rightarrow> file_store \<Rightarrow> (store_failure, unit) result \<times> file_store" where
  "fs_append io e st =
     (let s = ev_sessionId e; (events, st1) = fs_load s st; previous = last_opt events in
      if case previous of None \<Rightarrow> False
         | Some p \<Rightarrow> ev_generation e = ev_generation p \<and> ev_sequence e \<noteq> ev_sequence p + 1
      then (throw (NonContiguous s (ev_sequence (the previous) + 1) (ev_sequence e)), st1)
      else if case previous of None \<Rightarrow> False | Some p \<Rightarrow> ev_generation e < ev_generation p
      then (throw (StaleGeneration (ev_generation e) (ev_generation (the previous))), st1)
      else if \<not> io then (throw IoFailed, st1)
      else (ok (), st1\<lparr>
            fs_files := (fs_files st1)(s \<mapsto> (case fs_files st1 s of None \<Rightarrow> [] | Some ls \<Rightarrow> ls) @ [e]),
            fs_cache := (fs_cache st1)(s \<mapsto> events @ [e])\<rparr>))"

definition fs_read :: "id \<Rightarrow> nat \<Rightarrow> int \<Rightarrow> file_store \<Rightarrow> event_envelope list" where
  "fs_read s afterSequence limit st =
     take (nat (max 0 limit)) (filter (\<lambda>e. ev_sequence e > afterSequence) (fst (fs_load s st)))"

definition fs_lastSequence :: "id \<Rightarrow> file_store \<Rightarrow> nat" where
  "fs_lastSequence s st = (case last_opt (fst (fs_load s st)) of None \<Rightarrow> 0 | Some e \<Rightarrow> ev_sequence e)"

definition fs_restart :: "file_store \<Rightarrow> file_store" where
  "fs_restart st = st\<lparr>fs_cache := (\<lambda>_. None)\<rparr>"

section \<open>The memory store\<close>

type_synonym memory_store = "id \<Rightarrow> event_envelope list option"

definition ms_append ::
    "event_envelope \<Rightarrow> memory_store \<Rightarrow> (store_failure, unit) result \<times> memory_store" where
  "ms_append e st =
     (let s = ev_sessionId e; events = (case st s of None \<Rightarrow> [] | Some es \<Rightarrow> es); previous = last_opt events in
      if case previous of None \<Rightarrow> False
         | Some l \<Rightarrow> ev_generation l = ev_generation e \<and> ev_sequence e \<noteq> ev_sequence l + 1
      then (throw (NonContiguous s (ev_sequence (the previous) + 1) (ev_sequence e)), st)
      else (ok (), st(s \<mapsto> events @ [e])))"

text \<open>\<^verbatim>\<open>slice(0, limit)\<close>: a negative limit counts from the end.\<close>

definition slice0 :: "int \<Rightarrow> 'a list \<Rightarrow> 'a list" where
  "slice0 limit xs = (if limit < 0 then take (nat (int (length xs) + limit)) xs else take (nat limit) xs)"

definition ms_read :: "id \<Rightarrow> nat \<Rightarrow> int \<Rightarrow> memory_store \<Rightarrow> event_envelope list" where
  "ms_read s afterSequence limit st =
     slice0 limit (filter (\<lambda>e. ev_sequence e > afterSequence) (case st s of None \<Rightarrow> [] | Some es \<Rightarrow> es))"

definition ms_lastSequence :: "id \<Rightarrow> memory_store \<Rightarrow> nat" where
  "ms_lastSequence s st =
     (case st s of None \<Rightarrow> 0 | Some es \<Rightarrow> (case last_opt es of None \<Rightarrow> 0 | Some e \<Rightarrow> ev_sequence e))"

section \<open>The contract of an event log\<close>

text \<open>The sequence numbers of one generation are consecutive.\<close>

definition follows :: "event_envelope \<Rightarrow> event_envelope \<Rightarrow> bool" where
  "follows a b \<longleftrightarrow> (ev_generation b = ev_generation a \<longrightarrow> ev_sequence b = ev_sequence a + 1)"

definition contiguous :: "event_envelope list \<Rightarrow> bool" where
  "contiguous es = successively follows es"

definition ascending :: "event_envelope list \<Rightarrow> bool" where
  "ascending es = sorted_wrt (\<lambda>a b. ev_sequence a < ev_sequence b) es"

lemma contiguous_snoc:
  "contiguous (es @ [e]) \<longleftrightarrow> contiguous es \<and> (es = [] \<or> follows (last es) e)"
  by (auto simp: contiguous_def successively_append_iff)

lemma ascending_snoc:
  "ascending (es @ [e]) \<longleftrightarrow> ascending es \<and> (\<forall>a \<in> set es. ev_sequence a < ev_sequence e)"
  by (simp add: ascending_def sorted_wrt_append)

lemma ascending_last: "ascending es \<Longrightarrow> a \<in> set es \<Longrightarrow> ev_sequence a \<le> ev_sequence (last es)"
proof (induction es rule: rev_induct)
  case (snoc x xs)
  then show ?case by (auto simp: ascending_snoc)
qed simp

lemma ascending_sorted: "ascending es \<Longrightarrow> sort_key ev_sequence es = es"
  unfolding ascending_def
  by (rule sort_key_id_if_sorted) (auto simp: sorted_wrt_map intro: sorted_wrt_mono_rel [rotated])

locale event_log =
  fixes append :: "event_envelope \<Rightarrow> 'st \<Rightarrow> (store_failure, unit) result \<times> 'st"
    and log :: "'st \<Rightarrow> id \<Rightarrow> event_envelope list"
  assumes accepted: "append e st = (Inr u, st') \<Longrightarrow>
      log st' = (log st)(ev_sessionId e := log st (ev_sessionId e) @ [e])"
    and checked: "append e st = (Inr u, st') \<Longrightarrow> log st (ev_sessionId e) = es \<Longrightarrow> es \<noteq> [] \<Longrightarrow>
      follows (last es) e"
    and refused: "append e st = (Inl err, st') \<Longrightarrow> log st' = log st"
begin

lemma contiguous_append:
  assumes "\<And>s. contiguous (log st s)"
  shows "contiguous (log (snd (append e st)) s)"
proof (cases "append e st")
  case (Pair r st')
  show ?thesis
  proof (cases r)
    case (Inl err)
    with Pair assms show ?thesis by (simp add: refused)
  next
    case (Inr u)
    with Pair accepted checked have
      "log st' = (log st)(ev_sessionId e := log st (ev_sessionId e) @ [e])"
      "log st (ev_sessionId e) \<noteq> [] \<Longrightarrow> follows (last (log st (ev_sessionId e))) e" by blast+
    with Pair assms show ?thesis by (auto simp: contiguous_snoc)
  qed
qed

lemma contiguous_appends:
  assumes "\<And>s. log st s = []"
  shows "contiguous (log (fold (\<lambda>e st. snd (append e st)) es st) s)"
proof -
  have "(\<And>s. contiguous (log st s)) \<Longrightarrow> contiguous (log (fold (\<lambda>e st. snd (append e st)) es st) s)"
    for st s by (induction es arbitrary: st) (auto simp: contiguous_append)
  moreover have "contiguous (log st s)" for s by (simp add: assms contiguous_def)
  ultimately show ?thesis by blast
qed

end

definition fs_log :: "file_store \<Rightarrow> id \<Rightarrow> event_envelope list" where
  "fs_log st s = fst (fs_load s st)"

definition ms_log :: "memory_store \<Rightarrow> id \<Rightarrow> event_envelope list" where
  "ms_log st s = (case st s of None \<Rightarrow> [] | Some es \<Rightarrow> es)"

lemma fs_load_log [simp]: "fs_log (snd (fs_load s st)) = fs_log st"
  by (auto simp: fs_log_def fs_load_def fun_eq_iff Let_def split: option.splits)

lemma fs_load_cached: "fs_cache (snd (fs_load s st)) s = Some (fs_log st s)"
  by (auto simp: fs_log_def fs_load_def Let_def split: option.splits)

lemma previous_refused:
  "(case last_opt es of None \<Rightarrow> False
     | Some p \<Rightarrow> ev_generation e = ev_generation p \<and> ev_sequence e \<noteq> ev_sequence p + 1)
   \<longleftrightarrow> es \<noteq> [] \<and> \<not> follows (last es) e"
  by (auto simp: last_opt_def follows_def)

lemma fs_append_accepted:
  assumes "fs_append io e st = (Inr u, st')"
  shows "fs_log st' = (fs_log st)(ev_sessionId e := fs_log st (ev_sessionId e) @ [e])"
    and "fs_log st (ev_sessionId e) \<noteq> [] \<Longrightarrow> follows (last (fs_log st (ev_sessionId e))) e"
    and "io" and "fs_log st (ev_sessionId e) \<noteq> [] \<Longrightarrow>
      ev_generation (last (fs_log st (ev_sessionId e))) \<le> ev_generation e"
    and "fs_files st' = (fs_files st)(ev_sessionId e \<mapsto>
      (case fs_files st (ev_sessionId e) of None \<Rightarrow> [] | Some ls \<Rightarrow> ls) @ [e])"
proof -
  obtain es st1 where ld: "fs_load (ev_sessionId e) st = (es, st1)" by force
  have es: "es = fs_log st (ev_sessionId e)" using ld by (simp add: fs_log_def)
  have log1: "fs_log st1 = fs_log st" using ld fs_load_log by (metis snd_conv)
  have files1: "fs_files st1 = fs_files st"
    using ld by (auto simp: fs_load_def Let_def split: option.splits)
  have st': "st' = st1\<lparr>
      fs_files := (fs_files st1)(ev_sessionId e \<mapsto>
        (case fs_files st1 (ev_sessionId e) of None \<Rightarrow> [] | Some ls \<Rightarrow> ls) @ [e]),
      fs_cache := (fs_cache st1)(ev_sessionId e \<mapsto> es @ [e])\<rparr>"
    and ok: "es \<noteq> [] \<longrightarrow> follows (last es) e" "io" "es \<noteq> [] \<longrightarrow> ev_generation (last es) \<le> ev_generation e"
    using assms ld
    by (auto simp: fs_append_def Let_def last_opt_def follows_def split: if_splits)
  show "io" by (rule ok)
  show "fs_log st (ev_sessionId e) \<noteq> [] \<Longrightarrow> follows (last (fs_log st (ev_sessionId e))) e"
    "fs_log st (ev_sessionId e) \<noteq> [] \<Longrightarrow>
      ev_generation (last (fs_log st (ev_sessionId e))) \<le> ev_generation e"
    using ok es by auto
  show "fs_files st' = (fs_files st)(ev_sessionId e \<mapsto>
      (case fs_files st (ev_sessionId e) of None \<Rightarrow> [] | Some ls \<Rightarrow> ls) @ [e])"
    using st' files1 by simp
  have "fs_log st' s = (if s = ev_sessionId e then es @ [e] else fs_log st1 s)" for s
    unfolding st' by (auto simp: fs_log_def fs_load_def Let_def split: option.splits)
  then show "fs_log st' = (fs_log st)(ev_sessionId e := fs_log st (ev_sessionId e) @ [e])"
    by (auto simp: fun_eq_iff log1 es)
qed

lemma fs_append_refused:
  assumes "fs_append io e st = (Inl err, st')"
  shows "st' = snd (fs_load (ev_sessionId e) st)"
  using assms by (auto simp: fs_append_def Let_def split: if_splits prod.splits)

lemma ms_append_cases:
  "ms_append e st =
     (if ms_log st (ev_sessionId e) \<noteq> [] \<and> \<not> follows (last (ms_log st (ev_sessionId e))) e
      then (throw (NonContiguous (ev_sessionId e) (ev_sequence (last (ms_log st (ev_sessionId e))) + 1)
              (ev_sequence e)), st)
      else (ok (), st(ev_sessionId e \<mapsto> ms_log st (ev_sessionId e) @ [e])))"
  unfolding ms_append_def ms_log_def [symmetric] Let_def
  by (simp add: last_opt_def follows_def eq_commute)

lemma ms_log_upd: "ms_log (st(s \<mapsto> es)) = (ms_log st)(s := es)"
  by (simp add: ms_log_def fun_eq_iff)

interpretation fse: event_log "fs_append io" fs_log for io
proof
  show "fs_append io e st = (Inl err, st') \<Longrightarrow> fs_log st' = fs_log st" for e st err st'
    by (drule fs_append_refused) simp
qed (use fs_append_accepted in blast)+

interpretation mse: event_log ms_append ms_log
  by unfold_locales (auto simp: ms_append_cases ms_log_upd split: if_splits)

section \<open>Runs of the file store\<close>

datatype store_action = EsAppend bool event_envelope | EsRead id | EsRestart

fun fs_step :: "store_action \<Rightarrow> file_store \<Rightarrow> file_store" where
  "fs_step (EsAppend io e) st = snd (fs_append io e st)"
| "fs_step (EsRead s) st = snd (fs_load s st)"
| "fs_step EsRestart st = fs_restart st"

definition fs_run :: "store_action list \<Rightarrow> file_store \<Rightarrow> file_store" where
  "fs_run acts st = fold fs_step acts st"

text \<open>What \<^verbatim>\<open>SessionActor.emit\<close> keeps: the sequence number of an event is above the last one of its
  session, also when the generation changes.\<close>

fun fs_ascends :: "store_action list \<Rightarrow> file_store \<Rightarrow> bool" where
  "fs_ascends [] st = True"
| "fs_ascends (a # acts) st =
     ((case a of EsAppend io e \<Rightarrow> fs_lastSequence (ev_sessionId e) st < ev_sequence e | _ \<Rightarrow> True)
      \<and> fs_ascends acts (fs_step a st))"

definition fs_file :: "file_store \<Rightarrow> id \<Rightarrow> event_envelope list" where
  "fs_file st s = (case fs_files st s of None \<Rightarrow> [] | Some ls \<Rightarrow> ls)"

definition fs_inv :: "file_store \<Rightarrow> bool" where
  "fs_inv st \<longleftrightarrow> (\<forall>s. ascending (fs_file st s) \<and> contiguous (fs_file st s)
     \<and> (\<forall>es. fs_cache st s = Some es \<longrightarrow> es = fs_file st s))"

lemma fs_invD:
  assumes "fs_inv st"
  shows "ascending (fs_file st s)" and "contiguous (fs_file st s)"
    and "fs_cache st s = Some es \<Longrightarrow> es = fs_file st s"
  using assms by (auto simp: fs_inv_def)

lemma fs_inv_log: "fs_inv st \<Longrightarrow> fs_log st s = fs_file st s"
  using fs_invD [of st s] ascending_sorted [of "fs_file st s"]
  by (cases "fs_cache st s"; cases "fs_files st s") (simp_all add: fs_log_def fs_load_def fs_file_def)

lemma fs_load_files [simp]: "fs_file (snd (fs_load s st)) = fs_file st"
  by (auto simp: fs_load_def fs_file_def fun_eq_iff Let_def split: option.splits)

lemma fs_inv_load: "fs_inv st \<Longrightarrow> fs_inv (snd (fs_load s st))"
proof -
  assume inv: "fs_inv st"
  have "es = fs_file st t" if "fs_cache (snd (fs_load s st)) t = Some es" for t es
    using that fs_inv_log [OF inv, of s] fs_invD(3) [OF inv]
    by (auto simp: fs_load_def fs_log_def Let_def split: option.splits if_splits)
  with inv show ?thesis by (simp add: fs_inv_def)
qed

lemma fs_inv_restart: "fs_inv st \<Longrightarrow> fs_inv (fs_restart st)"
  by (simp add: fs_inv_def fs_restart_def fs_file_def)

lemma fs_lastSequence_above:
  assumes inv: "fs_inv st" and asc: "fs_lastSequence s st < n" and a: "a \<in> set (fs_file st s)"
  shows "ev_sequence a < n"
proof -
  have "fs_lastSequence s st = ev_sequence (last (fs_file st s))"
    using a fs_inv_log [OF inv, of s] by (auto simp: fs_lastSequence_def fs_log_def last_opt_def)
  moreover have "ev_sequence a \<le> ev_sequence (last (fs_file st s))"
    using ascending_last [OF fs_invD(1) [OF inv] a] .
  ultimately show ?thesis using asc by simp
qed

lemma fs_inv_append:
  assumes inv: "fs_inv st" and asc: "fs_lastSequence (ev_sessionId e) st < ev_sequence e"
  shows "fs_inv (snd (fs_append io e st))"
proof (cases "fs_append io e st")
  case (Pair r st')
  show ?thesis
  proof (cases r)
    case (Inl err)
    with Pair inv show ?thesis using fs_append_refused fs_inv_load by (metis snd_conv)
  next
    case (Inr u)
    note acc = fs_append_accepted [OF Pair [unfolded Inr]]
    have fil: "fs_file st' = (fs_file st)(ev_sessionId e := fs_file st (ev_sessionId e) @ [e])"
      using acc(5) by (simp add: fs_file_def fun_eq_iff)
    have cache: "es = fs_file st' s" if "fs_cache st' s = Some es" for s es
    proof -
      have "es = fs_log st' s" using that by (simp add: fs_log_def fs_load_def)
      then show ?thesis using acc(1) fil by (simp add: fs_inv_log [OF inv])
    qed
    have "ascending (fs_file st (ev_sessionId e) @ [e])" "contiguous (fs_file st (ev_sessionId e) @ [e])"
      using fs_lastSequence_above [OF inv asc] acc(2) fs_invD [OF inv]
      by (auto simp: ascending_snoc contiguous_snoc fs_inv_log [OF inv])
    then have "fs_inv st'" using inv fil cache by (auto simp: fs_inv_def)
    with Pair show ?thesis by simp
  qed
qed

lemma fs_inv_run: "fs_inv st \<Longrightarrow> fs_ascends acts st \<Longrightarrow> fs_inv (fs_run acts st)"
  unfolding fs_run_def
proof (induction acts arbitrary: st)
  case (Cons a acts)
  have "fs_inv (fs_step a st)"
    using Cons.prems by (cases a) (simp_all add: fs_inv_append fs_inv_load fs_inv_restart)
  with Cons show ?case by simp
qed simp

lemma fs_inv_init: "fs_inv file_store_init"
  by (simp add: fs_inv_def fs_file_def file_store_init_def ascending_def contiguous_def)

text \<open>Reading on from the last event of a page.\<close>

lemma ascending_paging:
  "ascending es \<Longrightarrow> page = take n (filter (\<lambda>e. ev_sequence e > a) es) \<Longrightarrow> page \<noteq> [] \<Longrightarrow>
   filter (\<lambda>e. ev_sequence e > ev_sequence (last page)) es = drop n (filter (\<lambda>e. ev_sequence e > a) es)"
proof -
  assume asc: "ascending es" and page: "page = take n (filter (\<lambda>e. ev_sequence e > a) es)"
    and ne: "page \<noteq> []"
  let ?fs = "filter (\<lambda>e. ev_sequence e > a) es"
  have split: "?fs = page @ drop n ?fs" by (simp add: page)
  have ascf: "ascending ?fs" using asc unfolding ascending_def by (rule sorted_wrt_filter)
  have ascp: "ascending page" and up: "\<forall>x \<in> set page. \<forall>y \<in> set (drop n ?fs). ev_sequence x < ev_sequence y"
    using ascf by (subst (asm) split, simp add: ascending_def sorted_wrt_append)+
  have lastin: "last page \<in> set page" using ne by simp
  have gt: "a < ev_sequence (last page)" using lastin by (auto simp: page dest: in_set_takeD)
  have "filter (\<lambda>e. ev_sequence e > ev_sequence (last page)) es
      = filter (\<lambda>e. ev_sequence e > ev_sequence (last page)) ?fs"
    using gt by (auto intro!: filter_cong)
  also have "\<dots> = filter (\<lambda>e. ev_sequence e > ev_sequence (last page)) (page @ drop n ?fs)"
    using split by simp
  also have "\<dots> = drop n ?fs"
    using ascending_last [OF ascp] up lastin
    by (auto simp: filter_empty_conv filter_id_conv not_less)
  finally show ?thesis .
qed

section \<open>Properties\<close>


definition demo_event :: "nat \<Rightarrow> nat \<Rightarrow> event_envelope" where
  "demo_event g n = \<lparr>ev_eventId = ''e'', ev_tenantId = ''t'', ev_sessionId = ''s'', ev_familyId = ''f'',
     ev_generation = g, ev_sequence = n, ev_turnId = None, ev_traceId = ''x'', ev_type = ''session.created'',
     ev_timestamp = 0, ev_visibility = VisUser, ev_redactionClass = RedactNone, ev_payload = JNull\<rparr>"

definition demo_events :: "store_action list" where
  "demo_events = [EsAppend True (demo_event 1 1), EsAppend False (demo_event 1 2),
     EsAppend True (demo_event 1 2), EsRestart, EsAppend True (demo_event 2 3)]"

lemmas event_eval = demo_events_def demo_event_def file_store_init_def fs_run_def fs_append_def
  fs_load_def fs_restart_def fs_lastSequence_def last_opt_def Let_def


text \<open>A client that reads in pages, each from the last sequence number it has seen, reads every event
  once: a page followed by the next one is what a single longer read returns.\<close>

theorem event_pages_complete:
  assumes "fs_ascends acts file_store_init" and "st = fs_run acts file_store_init"
    and "page = fs_read s a (int n) st" and "page \<noteq> []"
  shows "page @ fs_read s (ev_sequence (last page)) (int m) st = fs_read s a (int (n + m)) st"
proof -
  have inv: "fs_inv st" using fs_inv_run [OF fs_inv_init assms(1)] assms(2) by simp
  then have "ascending (fs_log st s)" by (simp add: fs_inv_log fs_invD)
  from ascending_paging [OF this, of page n a] assms(3,4) show ?thesis
    by (simp add: fs_read_def fs_log_def take_add nat_int_add)
qed

lemma event_pages_complete_witness:
  "fs_read ''s'' 0 2 (fs_run demo_events file_store_init)
     @ fs_read ''s'' 2 5 (fs_run demo_events file_store_init)
   = fs_read ''s'' 0 7 (fs_run demo_events file_store_init)"
  using event_pages_complete [OF _ refl refl, of demo_events "''s''" 0 2 5]
  by (simp add: event_eval fs_read_def)

end
