(* ===== verification/SessionTree.thy ===== *)
theory SessionTree
  imports Types
begin

text \<open>
  The conversation tree of a session, \<^verbatim>\<open>runtime/session-tree.ts\<close>: an append-only map of entries
  with parent links and an active leaf. The messages the model sees are the path from the leaf up to
  the root or to the nearest context reset.
\<close>

record session_tree =
  tr_entries :: "(id, session_tree_entry) js_map"
  tr_activeLeafId :: "id option"

datatype tree_error =
    DuplicateMessage id
  | NoParent id
  | NoEntry id
  | TreeCycle

text \<open>An optional id used as a condition: absent and empty are both false.\<close>

definition truthy :: "id option \<Rightarrow> id option" where
  "truthy x = (case x of Some [] \<Rightarrow> None | _ \<Rightarrow> x)"

definition tree_state :: "session_tree \<Rightarrow> session_tree_state" where
  "tree_state t = \<lparr>ts_entries = map snd (tr_entries t), ts_activeLeafId = truthy (tr_activeLeafId t)\<rparr>"

definition tree_append ::
    "msec \<Rightarrow> agent_message \<Rightarrow> id option \<Rightarrow> bool \<Rightarrow> session_tree \<Rightarrow> (tree_error, session_tree_entry) result \<times> session_tree" where
  "tree_append now message optParent contextReset t =
     (if map_has (tr_entries t) (msg_id message) then (throw (DuplicateMessage (msg_id message)), t)
      else
        let parentId = (case optParent of Some p \<Rightarrow> Some p | None \<Rightarrow> tr_activeLeafId t)
        in case truthy parentId of
             Some p \<Rightarrow>
               if \<not> map_has (tr_entries t) p then (throw (NoParent p), t)
               else let entry = \<lparr>te_id = msg_id message, te_parentId = Some p, te_message = message,
                      te_labels = [], te_contextReset = contextReset, te_createdAt = now\<rparr>
                    in (ok entry, \<lparr>tr_entries = map_set (te_id entry) entry (tr_entries t),
                          tr_activeLeafId = Some (te_id entry)\<rparr>)
           | None \<Rightarrow>
               let entry = \<lparr>te_id = msg_id message, te_parentId = None, te_message = message,
                      te_labels = [], te_contextReset = contextReset, te_createdAt = now\<rparr>
               in (ok entry, \<lparr>tr_entries = map_set (te_id entry) entry (tr_entries t),
                     tr_activeLeafId = Some (te_id entry)\<rparr>))"

text \<open>The loop of \<^verbatim>\<open>activeMessages\<close>: \<open>seen\<close> is the set of visited ids, \<open>acc\<close> the messages gathered so
  far, which the source collects backwards and reverses at the end.\<close>

function walk ::
    "(id, session_tree_entry) js_map \<Rightarrow> id list \<Rightarrow> id option \<Rightarrow> agent_message list
       \<Rightarrow> (tree_error, agent_message list) result" where
  "walk m seen current acc =
     (case current of
        None \<Rightarrow> ok acc
      | Some k \<Rightarrow>
          (case map_get m k of
             None \<Rightarrow> ok acc
           | Some entry \<Rightarrow>
               if te_id entry \<in> set seen then throw TreeCycle
               else if te_contextReset entry then ok (te_message entry # acc)
               else walk m (te_id entry # seen) (truthy (te_parentId entry)) (te_message entry # acc)))"
  by pat_completeness auto

lemma seen_decreases:
  assumes "map_get m k = Some entry" and "te_id entry \<notin> set seen"
  shows "card (te_id ` snd ` set m - set (te_id entry # seen)) < card (te_id ` snd ` set m - set seen)"
proof (rule psubset_card_mono)
  have "te_id entry \<in> te_id ` snd ` set m"
    using assms(1) by (metis image_eqI map_of_SomeD snd_conv)
  then show "te_id ` snd ` set m - set (te_id entry # seen) \<subset> te_id ` snd ` set m - set seen"
    using assms(2) by auto
qed simp

termination walk
  by (relation "measure (\<lambda>(m, seen, current, acc). card (te_id ` snd ` set m - set seen))")
    (use seen_decreases in auto)

declare walk.simps [simp del]

definition activeMessages :: "session_tree \<Rightarrow> (tree_error, agent_message list) result" where
  "activeMessages t = walk (tr_entries t) [] (truthy (tr_activeLeafId t)) []"

definition tree_branch ::
    "id \<Rightarrow> session_tree \<Rightarrow> (tree_error, agent_message list) result \<times> session_tree" where
  "tree_branch entryId t =
     (if \<not> map_has (tr_entries t) entryId then (throw (NoEntry entryId), t)
      else let t' = t\<lparr>tr_activeLeafId := Some entryId\<rparr> in (activeMessages t', t'))"

definition tree_label ::
    "id \<Rightarrow> string option \<Rightarrow> session_tree \<Rightarrow> (tree_error, session_tree_entry) result \<times> session_tree" where
  "tree_label entryId label t =
     (case map_get (tr_entries t) entryId of
        None \<Rightarrow> (throw (NoEntry entryId), t)
      | Some entry \<Rightarrow>
          let labels =
            (case label of
               None \<Rightarrow> []
             | Some l \<Rightarrow>
                 if js_blank l then []
                 else let normalized = take 100 (js_trim l)
                      in take_last 10 (if normalized \<in> set (te_labels entry) then te_labels entry
                                       else te_labels entry @ [normalized]));
            entry' = entry\<lparr>te_labels := labels\<rparr>
          in (ok entry', t\<lparr>tr_entries := map_set entryId entry' (tr_entries t)\<rparr>))"

text \<open>The constructor: the entries of a stored state, or the legacy messages appended one by one.\<close>

fun tree_appends :: "msec \<Rightarrow> agent_message list \<Rightarrow> session_tree \<Rightarrow> (tree_error, session_tree) result" where
  "tree_appends now [] t = ok t"
| "tree_appends now (x # xs) t =
     (case tree_append now x None False t of
        (Inl e, _) \<Rightarrow> throw e
      | (Inr _, t') \<Rightarrow> tree_appends now xs t')"

definition tree_new ::
    "msec \<Rightarrow> session_tree_state option \<Rightarrow> agent_message list \<Rightarrow> (tree_error, session_tree) result" where
  "tree_new now state legacyMessages =
     (case state of
        Some s \<Rightarrow>
          if ts_entries s \<noteq> []
          then ok \<lparr>tr_entries = fold (\<lambda>e m. map_set (te_id e) e m) (ts_entries s) [],
                   tr_activeLeafId = ts_activeLeafId s\<rparr>
          else tree_appends now legacyMessages \<lparr>tr_entries = [], tr_activeLeafId = None\<rparr>
      | None \<Rightarrow> tree_appends now legacyMessages \<lparr>tr_entries = [], tr_activeLeafId = None\<rparr>)"

text \<open>\<^verbatim>\<open>view\<close>: the ids on a path of parents, the children of an entry, its depth.\<close>

function path_ids :: "(id, session_tree_entry) js_map \<Rightarrow> id list \<Rightarrow> id option \<Rightarrow> id list" where
  "path_ids m seen current =
     (case current of
        None \<Rightarrow> seen
      | Some k \<Rightarrow>
          (case map_get m k of
             None \<Rightarrow> seen
           | Some entry \<Rightarrow>
               if te_id entry \<in> set seen then seen
               else path_ids m (te_id entry # seen) (truthy (te_parentId entry))))"
  by pat_completeness auto

termination path_ids
  by (relation "measure (\<lambda>(m, seen, current). card (te_id ` snd ` set m - set seen))")
    (use seen_decreases in auto)

declare path_ids.simps [simp del]

record tree_view_entry =
  tv_entry :: session_tree_entry
  tv_active :: bool
  tv_childIds :: "id list"
  tv_depth :: nat

definition tree_children :: "session_tree \<Rightarrow> (id, id list) js_map" where
  "tree_children t =
     fold (\<lambda>(_, entry) children.
       case truthy (te_parentId entry) of
         None \<Rightarrow> children
       | Some p \<Rightarrow>
           map_set p ((case map_get children p of None \<Rightarrow> [] | Some l \<Rightarrow> l) @ [te_id entry]) children)
     (tr_entries t) []"

definition tree_view :: "session_tree \<Rightarrow> tree_view_entry list" where
  "tree_view t =
     (let children = tree_children t;
          activePath = path_ids (tr_entries t) [] (truthy (tr_activeLeafId t))
      in map (\<lambda>(_, entry).
           \<lparr>tv_entry = entry,
            tv_active = (te_id entry \<in> set activePath),
            tv_childIds = (case map_get children (te_id entry) of None \<Rightarrow> [] | Some l \<Rightarrow> l),
            tv_depth = length (path_ids (tr_entries t) [] (truthy (te_parentId entry)))\<rparr>)
         (tr_entries t))"

section \<open>Well-formed trees\<close>

text \<open>Keys are the ids of their entries, ids are distinct and not empty, and a parent stands before its
  children in the map.\<close>

inductive entries_wf :: "(id, session_tree_entry) js_map \<Rightarrow> bool" where
  nil: "entries_wf []"
| snoc: "entries_wf m \<Longrightarrow> k \<notin> fst ` set m \<Longrightarrow> k \<noteq> [] \<Longrightarrow> te_id e = k \<Longrightarrow>
    (case truthy (te_parentId e) of None \<Rightarrow> True | Some p \<Rightarrow> p \<in> fst ` set m) \<Longrightarrow> entries_wf (m @ [(k, e)])"

definition tree_wf :: "session_tree \<Rightarrow> bool" where
  "tree_wf t \<longleftrightarrow> entries_wf (tr_entries t)
     \<and> (case truthy (tr_activeLeafId t) of None \<Rightarrow> True | Some k \<Rightarrow> map_has (tr_entries t) k)"

lemma map_get_snoc:
  "map_get (m @ [(k, e)]) j =
     (case map_get m j of Some v \<Rightarrow> Some v | None \<Rightarrow> if j = k then Some e else None)"
  by (simp add: map_add_def split: option.split)

lemma entries_wf_get: "entries_wf m \<Longrightarrow> map_get m k = Some e \<Longrightarrow> te_id e = k \<and> k \<noteq> []"
  by (induction rule: entries_wf.induct)
    (auto simp: map_get_snoc simp del: map_of_append split: option.splits if_splits)

lemma entries_wf_parent:
  "entries_wf m \<Longrightarrow> map_get m k = Some e \<Longrightarrow> truthy (te_parentId e) = Some p \<Longrightarrow> map_has m p"
proof (induction rule: entries_wf.induct)
  case (snoc m k' e')
  have "map_has m p"
  proof (cases "map_get m k")
    case None
    then have "e = e'" using snoc.prems(1) by (simp add: map_get_snoc del: map_of_append split: if_splits)
    then show ?thesis using snoc.hyps(5) snoc.prems(2) by (simp add: map_of_eq_None_iff)
  next
    case (Some a)
    then show ?thesis using snoc by (simp add: map_get_snoc del: map_of_append)
  qed
  then show ?case by (auto simp: map_get_snoc simp del: map_of_append)
qed simp

lemma entries_wf_distinct: "entries_wf m \<Longrightarrow> distinct (map fst m)"
  by (induction rule: entries_wf.induct) auto

lemma map_set_new: "k \<notin> fst ` set m \<Longrightarrow> map_set k v m = m @ [(k, v)]"
  by (induction m) auto

text \<open>A path from an old entry never meets the new one.\<close>

lemma walk_frame:
  assumes wf: "entries_wf m"
  shows "(\<forall>j. current = Some j \<longrightarrow> map_has m j) \<Longrightarrow>
    walk (m @ [(k, e)]) seen current acc = walk m seen current acc"
  using wf
proof (induction m seen current acc rule: walk.induct)
  case (1 m seen current acc)
  show ?case
  proof (cases current)
    case None
    then show ?thesis by (simp add: walk.simps)
  next
    case (Some j)
    then obtain c where c: "map_get m j = Some c" using "1.prems"(1) by auto
    then have c': "map_get (m @ [(k, e)]) j = Some c" by (simp add: map_get_snoc del: map_of_append)
    have "walk (m @ [(k, e)]) (te_id c # seen) (truthy (te_parentId c)) (te_message c # acc)
        = walk m (te_id c # seen) (truthy (te_parentId c)) (te_message c # acc)"
      if "te_id c \<notin> set seen" "\<not> te_contextReset c"
      using "1.IH" [OF Some c] that "1.prems"(2) entries_wf_parent [OF "1.prems"(2) c] by blast
    then show ?thesis
      using Some c c' by (subst (1 2) walk.simps) (simp del: map_of_append)
  qed
qed

text \<open>From an entry of a well-formed tree the walk ends, without meeting a cycle, and what it finds
  does not depend on the ids seen before.\<close>

lemma walk_total:
  "entries_wf m \<Longrightarrow> map_has m j \<Longrightarrow>
   \<exists>ms. \<forall>seen acc. (\<forall>s \<in> set seen. \<not> map_has m s) \<longrightarrow> walk m seen (Some j) acc = ok (ms @ acc)"
proof (induction arbitrary: j rule: entries_wf.induct)
  case nil
  then show ?case by simp
next
  case (snoc m k e)
  let ?m = "m @ [(k, e)]"
  have has: "map_has ?m s \<longleftrightarrow> map_has m s \<or> s = k" for s
    by (auto simp: map_get_snoc simp del: map_of_append split: option.splits)
  show ?case
  proof (cases "map_has m j")
    case True
    from snoc.IH [OF True] obtain ms where
      ms: "\<forall>seen acc. (\<forall>s \<in> set seen. \<not> map_has m s) \<longrightarrow> walk m seen (Some j) acc = ok (ms @ acc)" by blast
    have "walk ?m seen (Some j) acc = ok (ms @ acc)" if "\<forall>s \<in> set seen. \<not> map_has ?m s" for seen acc
    proof -
      have "walk ?m seen (Some j) acc = walk m seen (Some j) acc"
        using snoc.hyps(1) True by (intro walk_frame) auto
      moreover have "\<forall>s \<in> set seen. \<not> map_has m s" using that has by blast
      ultimately show ?thesis using ms by simp
    qed
    then show ?thesis by blast
  next
    case False
    then have j: "j = k" using snoc.prems has by blast
    have get: "map_get ?m k = Some e"
      using snoc.hyps(2) by (simp add: map_get_snoc map_of_eq_None_iff [THEN iffD2] del: map_of_append)
    obtain ms where ms: "\<And>seen acc. \<forall>s \<in> set seen. \<not> map_has m s \<Longrightarrow>
        walk ?m seen (truthy (te_parentId e)) acc = ok (ms @ acc)"
    proof (cases "truthy (te_parentId e)")
      case None
      then show ?thesis using that [of "[]"] by (simp add: walk.simps)
    next
      case (Some p)
      then have p: "map_has m p" using snoc.hyps(5) by (simp add: map_of_eq_None_iff)
      from snoc.IH [OF p] obtain ms where
        "\<forall>seen acc. (\<forall>s \<in> set seen. \<not> map_has m s) \<longrightarrow> walk m seen (Some p) acc = ok (ms @ acc)" by blast
      moreover have "walk ?m seen (Some p) acc = walk m seen (Some p) acc" for seen acc
        using snoc.hyps(1) p by (intro walk_frame) auto
      ultimately show ?thesis using that [of ms] Some by simp
    qed
    let ?ms = "if te_contextReset e then [te_message e] else ms @ [te_message e]"
    have "walk ?m seen (Some k) acc = ok (?ms @ acc)" if "\<forall>s \<in> set seen. \<not> map_has ?m s" for seen acc
    proof -
      have "k \<notin> set seen" using that has by blast
      moreover have "\<forall>s \<in> set (k # seen). \<not> map_has m s"
        using that has snoc.hyps(2) by (auto simp: map_of_eq_None_iff)
      ultimately show ?thesis
        using get snoc.hyps(4) ms [of "k # seen"] by (subst walk.simps) (simp del: map_of_append)
    qed
    then show ?thesis using j by blast
  qed
qed

lemma active_total:
  assumes "tree_wf t"
  shows "\<exists>ms. activeMessages t = ok ms"
proof (cases "truthy (tr_activeLeafId t)")
  case None
  then show ?thesis by (simp add: activeMessages_def walk.simps)
next
  case (Some k)
  then have "map_has (tr_entries t) k" "entries_wf (tr_entries t)" using assms by (auto simp: tree_wf_def)
  from walk_total [OF this(2,1)] obtain ms where
    "walk (tr_entries t) [] (Some k) [] = ok (ms @ [])" by fastforce
  then show ?thesis by (simp add: activeMessages_def Some)
qed

section \<open>Operations keep trees well formed\<close>

text \<open>An accepted append puts one entry behind the others and makes it the leaf.\<close>

lemma tree_append_ok:
  assumes "tree_append now message opt reset t = (Inr entry, t')"
  shows "tr_entries t' = tr_entries t @ [(msg_id message, entry)]"
    and "msg_id message \<notin> fst ` set (tr_entries t)"
    and "tr_activeLeafId t' = Some (msg_id message)"
    and "te_id entry = msg_id message" and "te_message entry = message" and "te_contextReset entry = reset"
    and "truthy (te_parentId entry)
      = truthy (case opt of Some p \<Rightarrow> Some p | None \<Rightarrow> tr_activeLeafId t)"
    and "\<forall>p. truthy (te_parentId entry) = Some p \<longrightarrow> map_has (tr_entries t) p"
proof -
  have truthy2: "truthy x = Some p \<Longrightarrow> truthy (Some p) = Some p" for x p
    by (auto simp: truthy_def split: option.splits list.splits)
  have new: "msg_id message \<notin> fst ` set (tr_entries t)"
    using assms by (auto simp: tree_append_def map_of_eq_None_iff split: if_splits)
  then show "msg_id message \<notin> fst ` set (tr_entries t)" .
  show "tr_entries t' = tr_entries t @ [(msg_id message, entry)]"
    using assms new
    by (auto simp: tree_append_def Let_def map_set_new split: if_splits option.splits)
  show "tr_activeLeafId t' = Some (msg_id message)" "te_id entry = msg_id message"
    "te_message entry = message" "te_contextReset entry = reset"
    using assms by (auto simp: tree_append_def Let_def split: if_splits option.splits)
  show "truthy (te_parentId entry) = truthy (case opt of Some p \<Rightarrow> Some p | None \<Rightarrow> tr_activeLeafId t)"
    using assms truthy2 by (auto simp: tree_append_def Let_def truthy_def split: if_splits option.splits list.splits)
  show "\<forall>p. truthy (te_parentId entry) = Some p \<longrightarrow> map_has (tr_entries t) p"
    using assms truthy2 by (auto simp: tree_append_def Let_def truthy_def split: if_splits option.splits list.splits)
qed

lemma tree_append_wf [inv_intros]:
  assumes wf: "tree_wf t" and ne: "msg_id message \<noteq> []"
    and app: "tree_append now message opt reset t = (Inr entry, t')"
  shows "tree_wf t'"
proof -
  note ok = tree_append_ok [OF app]
  have parent: "truthy (te_parentId entry) = Some p \<Longrightarrow> p \<in> fst ` set (tr_entries t)" for p
    using ok(8) by (metis map_of_eq_None_iff)
  have "entries_wf (tr_entries t @ [(msg_id message, entry)])"
    using wf ne ok(2,4) parent
    by (intro entries_wf.snoc) (auto simp: tree_wf_def split: option.split)
  then show ?thesis
    using ne ok(1,3) by (simp add: tree_wf_def truthy_def map_get_snoc del: map_of_append split: list.split option.split)
qed

lemma tree_append_refused: "tree_append now message opt reset t = (Inl e, t') \<Longrightarrow> t' = t"
  by (auto simp: tree_append_def Let_def split: if_splits option.splits)

lemma tree_branch_wf [inv_intros]: "tree_wf t \<Longrightarrow> tree_wf (snd (tree_branch k t))"
  by (auto simp: tree_branch_def tree_wf_def truthy_def Let_def split: option.split list.split)

lemma entries_wf_relabel:
  "entries_wf m \<Longrightarrow> map_get m k = Some e \<Longrightarrow> te_id e' = te_id e \<Longrightarrow> te_parentId e' = te_parentId e \<Longrightarrow>
   entries_wf (map_set k e' m)"
proof (induction rule: entries_wf.induct)
  case (snoc m k0 e0)
  show ?case
  proof (cases "map_has m k")
    case True
    then have "map_set k e' (m @ [(k0, e0)]) = map_set k e' m @ [(k0, e0)]"
      by (induction m) (auto split: if_splits)
    moreover have keys: "fst ` set (map_set k e' m) = fst ` set m"
      using True by (auto simp: dom_update map_of_eq_None_iff)
    have "entries_wf (map_set k e' m)"
      using snoc True by (auto simp: map_get_snoc simp del: map_of_append)
    then have "entries_wf (map_set k e' m @ [(k0, e0)])"
      by (rule entries_wf.snoc) (simp_all only: keys snoc.hyps simp_thms)
    ultimately show ?thesis by simp
  next
    case False
    then have k: "k = k0" and e: "e = e0"
      using snoc.prems(1) by (auto simp: map_get_snoc simp del: map_of_append split: if_splits)
    have "map_set k e' (m @ [(k0, e0)]) = m @ [(k0, e')]"
      using snoc.hyps(2) k by (induction m) auto
    then show ?thesis using snoc k e by (auto intro!: entries_wf.snoc)
  qed
qed simp

lemma tree_label_wf [inv_intros]:
  assumes wf: "tree_wf t"
  shows "tree_wf (snd (tree_label k l t))"
proof (cases "map_get (tr_entries t) k")
  case (Some e)
  then obtain ls where "snd (tree_label k l t)
      = t\<lparr>tr_entries := map_set k (e\<lparr>te_labels := ls\<rparr>) (tr_entries t)\<rparr>"
    by (simp add: tree_label_def Let_def)
  moreover have "entries_wf (map_set k (e\<lparr>te_labels := ls\<rparr>) (tr_entries t))" for ls
    using wf Some by (intro entries_wf_relabel) (auto simp: tree_wf_def)
  ultimately show ?thesis using wf Some
    by (auto simp: tree_wf_def js_simps split: option.split)
qed (simp add: wf tree_label_def)

text \<open>Labels do not matter to the walk.\<close>

definition same_path :: "session_tree_entry \<Rightarrow> session_tree_entry \<Rightarrow> bool" where
  "same_path e f \<longleftrightarrow> te_id e = te_id f \<and> te_parentId e = te_parentId f \<and> te_message e = te_message f
     \<and> te_contextReset e = te_contextReset f"

lemma walk_relabel:
  "(\<And>j. rel_option same_path (map_get m j) (map_get m' j)) \<Longrightarrow> walk m seen cur acc = walk m' seen cur acc"
proof (induction m seen cur acc rule: walk.induct)
  case (1 m seen cur acc)
  show ?case
  proof (cases cur)
    case (Some k)
    show ?thesis
    proof (cases "map_get m k")
      case None
      then have "map_get m' k = None" using "1.prems" [of k] by (cases "map_get m' k") auto
      with None Some show ?thesis by (simp add: walk.simps)
    next
      case e: (Some e)
      then obtain f where f: "map_get m' k = Some f" "same_path e f"
        using "1.prems" [of k] by (cases "map_get m' k") auto
      have "walk m (te_id e # seen) (truthy (te_parentId e)) (te_message e # acc)
          = walk m' (te_id e # seen) (truthy (te_parentId e)) (te_message e # acc)"
        if "te_id e \<notin> set seen" "\<not> te_contextReset e"
        using "1.IH" [OF Some e that "1.prems"] .
      then show ?thesis using Some e f by (subst (1 2) walk.simps) (simp add: same_path_def)
    qed
  qed (simp add: walk.simps)
qed

lemma tree_label_messages:
  "tree_label k l t = (Inr e, t') \<Longrightarrow> activeMessages t' = activeMessages t \<and> tr_activeLeafId t' = tr_activeLeafId t"
proof -
  assume l: "tree_label k l t = (Inr e, t')"
  then obtain e0 where e0: "map_get (tr_entries t) k = Some e0"
    by (auto simp: tree_label_def split: option.splits)
  then have t': "t' = t\<lparr>tr_entries := map_set k e (tr_entries t)\<rparr>" and e: "same_path e e0"
    using l by (auto simp: tree_label_def Let_def same_path_def)
  have "same_path x x" for x by (simp add: same_path_def)
  then have "rel_option same_path (map_get (tr_entries t') j) (map_get (tr_entries t) j)" for j
    using e0 e t' by (cases "map_get (tr_entries t) j") (auto simp: js_simps)
  then have "walk (tr_entries t') [] c [] = walk (tr_entries t) [] c []" for c by (rule walk_relabel)
  then show ?thesis by (simp add: t' activeMessages_def)
qed

lemma tree_appends_wf:
  "tree_wf t \<Longrightarrow> \<forall>x \<in> set xs. msg_id x \<noteq> [] \<Longrightarrow> tree_appends now xs t = Inr t' \<Longrightarrow> tree_wf t'"
proof (induction now xs t rule: tree_appends.induct)
  case (2 now x xs t)
  then show ?case using tree_append_wf
    by (fastforce split: prod.splits sum.splits)
qed simp

lemma walk_acc:
  assumes "entries_wf m" and "map_has m j" and "\<forall>s \<in> set seen. \<not> map_has m s"
    and "walk m [] (Some j) [] = ok ms"
  shows "walk m seen (Some j) acc = ok (ms @ acc)"
proof -
  from walk_total [OF assms(1,2)] obtain ns where
    ns: "\<forall>seen acc. (\<forall>s \<in> set seen. \<not> map_has m s) \<longrightarrow> walk m seen (Some j) acc = ok (ns @ acc)" by blast
  then have "walk m [] (Some j) [] = ok ns" by fastforce
  then show ?thesis using ns assms(3,4) by simp
qed

lemma tree_append_step:
  assumes wf: "tree_wf t" and ne: "msg_id message \<noteq> []"
    and app: "tree_append now message None reset t = (Inr entry, t')"
  shows "tree_wf t' \<and> (\<exists>ms. activeMessages t = ok ms
    \<and> activeMessages t' = ok (if reset then [message] else ms @ [message]))"
proof -
  note ok = tree_append_ok [OF app]
  have wf': "entries_wf (tr_entries t)" using wf by (simp add: tree_wf_def)
  obtain ms where ms: "activeMessages t = ok ms" using active_total [OF wf] by blast
  have get: "map_get (tr_entries t') (msg_id message) = Some entry"
    using ok(1,2) map_of_eq_None_iff [of "tr_entries t" "msg_id message"]
    by (simp add: map_get_snoc del: map_of_append)
  have leaf: "truthy (tr_activeLeafId t') = Some (msg_id message)"
    using ok(3) ne by (simp add: truthy_def split: list.split)
  have rest: "walk (tr_entries t') [msg_id message] (truthy (tr_activeLeafId t)) [message] = ok (ms @ [message])"
  proof (cases "truthy (tr_activeLeafId t)")
    case None
    then show ?thesis using ms by (simp add: activeMessages_def walk.simps)
  next
    case (Some p)
    then have p: "map_has (tr_entries t) p" using wf by (simp add: tree_wf_def)
    have "walk (tr_entries t') [msg_id message] (Some p) [message]
        = walk (tr_entries t) [msg_id message] (Some p) [message]"
      unfolding ok(1) using wf' p by (intro walk_frame) auto
    also have "\<dots> = ok (ms @ [message])"
      using wf' p ok(2) ms Some
      by (intro walk_acc) (auto simp: activeMessages_def map_of_eq_None_iff)
    finally show ?thesis by (simp add: Some)
  qed
  have parent: "truthy (te_parentId entry) = truthy (tr_activeLeafId t)" using ok(7) by simp
  have "activeMessages t' = ok (if reset then [message] else ms @ [message])"
    unfolding activeMessages_def leaf
    using get ok(4,5,6) rest parent by (subst walk.simps) simp
  with ms tree_append_wf [OF wf ne app] show ?thesis by blast
qed

section \<open>Properties\<close>

text \<open>On a well-formed tree an accepted append keeps the tree well formed and makes the model see the
  messages it saw before followed by the new one, or only the new one when it resets the context; the
  walk along the parents never throws.\<close>

theorem tree_append_active:
  assumes wf: "tree_wf t" and ne: "msg_id message \<noteq> []"
    and app: "tree_append now message None reset t = (Inr entry, t')"
  shows "tree_wf t' \<and> (\<exists>ms. activeMessages t = ok ms
    \<and> activeMessages t' = ok (if reset then [message] else ms @ [message]))"
  using tree_append_step [OF wf ne app] .

definition demo_message :: "id \<Rightarrow> agent_message" where
  "demo_message i = \<lparr>msg_id = i, msg_role = RoleUser, msg_content = [TextContent i], msg_timestamp = 0,
     msg_source = None, msg_usage = None, msg_hidden = False\<rparr>"

definition demo_tree :: session_tree where
  "demo_tree = snd (tree_append 0 (demo_message ''b'') None False
     (snd (tree_append 0 (demo_message ''a'') None False \<lparr>tr_entries = [], tr_activeLeafId = None\<rparr>)))"

lemma demo_tree_eq:
  "tr_entries demo_tree =
     [(''a'', \<lparr>te_id = ''a'', te_parentId = None, te_message = demo_message ''a'', te_labels = [],
        te_contextReset = False, te_createdAt = 0\<rparr>),
      (''b'', \<lparr>te_id = ''b'', te_parentId = Some ''a'', te_message = demo_message ''b'', te_labels = [],
        te_contextReset = False, te_createdAt = 0\<rparr>)]"
  "tr_activeLeafId demo_tree = Some ''b''"
  by (simp_all add: demo_tree_def tree_append_def demo_message_def truthy_def Let_def)

lemma demo_tree_wf: "tree_wf demo_tree"
proof -
  let ?e = "\<lambda>i p. \<lparr>te_id = i, te_parentId = p, te_message = demo_message i, te_labels = [],
        te_contextReset = False, te_createdAt = 0\<rparr> :: session_tree_entry"
  have "entries_wf ([] @ [(''a'', ?e ''a'' None)])"
    by (rule entries_wf.snoc) (auto simp: truthy_def intro: entries_wf.nil)
  then have "entries_wf (([] @ [(''a'', ?e ''a'' None)]) @ [(''b'', ?e ''b'' (Some ''a''))])"
    by (rule entries_wf.snoc) (auto simp: truthy_def)
  then show ?thesis by (simp add: tree_wf_def demo_tree_eq truthy_def)
qed

lemma tree_append_active_witness:
  "\<exists>ms. activeMessages demo_tree = ok ms
    \<and> activeMessages (snd (tree_append 5 (demo_message ''c'') None False demo_tree)) = ok (ms @ [demo_message ''c''])"
  using tree_append_active [OF demo_tree_wf, of "demo_message ''c''" 5 False
      "\<lparr>te_id = ''c'', te_parentId = Some ''b'', te_message = demo_message ''c'', te_labels = [],
        te_contextReset = False, te_createdAt = 5\<rparr>" "snd (tree_append 5 (demo_message ''c'') None False demo_tree)"]
  by (simp add: tree_append_def demo_tree_eq demo_message_def truthy_def Let_def)

text \<open>Branching is a read of the past: whatever is appended later, branching back to an entry shows
  the messages that branching to it showed before.\<close>

theorem tree_branch_stable:
  assumes wf: "tree_wf t" and k: "map_has (tr_entries t) k" and "msg_id message \<noteq> []"
    and app: "tree_append now message opt reset t = (Inr entry, t')"
  shows "\<exists>ms. fst (tree_branch k t) = ok ms \<and> fst (tree_branch k t') = ok ms"
proof -
  note ok = tree_append_ok [OF app]
  have wf': "entries_wf (tr_entries t)" using wf by (simp add: tree_wf_def)
  have kne: "k \<noteq> []" using k entries_wf_get [OF wf'] by auto
  have has': "map_has (tr_entries t') k"
    using k by (auto simp: ok(1) map_get_snoc simp del: map_of_append)
  have tk: "truthy (Some k) = Some k" using kne by (simp add: truthy_def split: list.split)
  have "walk (tr_entries t') [] (Some k) [] = walk (tr_entries t) [] (Some k) []"
    unfolding ok(1) using wf' k by (intro walk_frame) auto
  moreover obtain ms where "walk (tr_entries t) [] (Some k) [] = ok ms"
    using walk_total [OF wf' k] by force
  ultimately show ?thesis
    using k has' tk by (simp add: tree_branch_def activeMessages_def Let_def)
qed

lemma tree_branch_stable_witness:
  "\<exists>ms. fst (tree_branch ''a'' demo_tree) = ok ms
    \<and> fst (tree_branch ''a'' (snd (tree_append 5 (demo_message ''c'') None True demo_tree))) = ok ms"
  using tree_branch_stable [OF demo_tree_wf, of "''a''" "demo_message ''c''" 5 None True
      "\<lparr>te_id = ''c'', te_parentId = Some ''b'', te_message = demo_message ''c'', te_labels = [],
        te_contextReset = True, te_createdAt = 5\<rparr>" "snd (tree_append 5 (demo_message ''c'') None True demo_tree)"]
  by (simp add: tree_append_def demo_tree_eq demo_message_def truthy_def Let_def)

end
