(* ===== verification/Dfs.thy ===== *)
theory Dfs
  imports Prelude
begin

text \<open>
  The marking depth-first search the engine uses to find cycles: \<^verbatim>\<open>taskGraphHasCycle\<close> of
  \<^verbatim>\<open>runtime/session-actor.ts\<close> as a function of the successor lists. The recursion of \<^verbatim>\<open>visit\<close> is
  bounded by fuel; the lemmas show that one more than the number of reachable nodes is enough, and
  that the answer is whether the graph has a cycle.
\<close>

datatype mark = Visiting | Finished

text \<open>\<open>dfs_visit\<close> is the inner function, \<open>dfs_visit_all\<close> its loop over the dependencies, which stops at
  the first cycle. \<open>None\<close>: the fuel has run out.\<close>

fun dfs_visit :: "('a \<Rightarrow> 'a list) \<Rightarrow> nat \<Rightarrow> 'a \<Rightarrow> ('a, mark) js_map \<Rightarrow> (bool \<times> ('a, mark) js_map) option"
  and dfs_visit_all :: "('a \<Rightarrow> 'a list) \<Rightarrow> nat \<Rightarrow> 'a list \<Rightarrow> ('a, mark) js_map \<Rightarrow> (bool \<times> ('a, mark) js_map) option"
where
  "dfs_visit succs 0 x marks = None"
| "dfs_visit succs (Suc n) x marks =
     (case map_get marks x of
        Some Visiting \<Rightarrow> Some (True, marks)
      | Some Finished \<Rightarrow> Some (False, marks)
      | None \<Rightarrow>
          (case dfs_visit_all succs n (succs x) (map_set x Visiting marks) of
             None \<Rightarrow> None
           | Some (True, marks') \<Rightarrow> Some (True, marks')
           | Some (False, marks') \<Rightarrow> Some (False, map_set x Finished marks')))"
| "dfs_visit_all succs n [] marks = Some (False, marks)"
| "dfs_visit_all succs n (x # xs) marks =
     (case dfs_visit succs n x marks of
        None \<Rightarrow> None
      | Some (True, marks') \<Rightarrow> Some (True, marks')
      | Some (False, marks') \<Rightarrow> dfs_visit_all succs n xs marks')"

definition edges :: "('a \<Rightarrow> 'a list) \<Rightarrow> ('a \<times> 'a) set" where
  "edges succs = {(x, y). y \<in> set (succs x)}"

definition visiting :: "('a, mark) js_map \<Rightarrow> 'a set" where
  "visiting marks = {x. map_get marks x = Some Visiting}"

definition finished :: "('a, mark) js_map \<Rightarrow> 'a set" where
  "finished marks = {x. map_get marks x = Some Finished}"

lemma marks_set [simp]:
  "visiting (map_set x Visiting m) = insert x (visiting m)"
  "finished (map_set x Finished m) = insert x (finished m)"
  "visiting (map_set x Finished m) = visiting m - {x}"
  "finished (map_set x Visiting m) = finished m - {x}"
  by (auto simp: visiting_def finished_def js_simps)

text \<open>The finished nodes are closed under successors and none of them is on a cycle.\<close>

definition sound :: "('a \<Rightarrow> 'a list) \<Rightarrow> 'a set \<Rightarrow> bool" where
  "sound succs D \<longleftrightarrow> (\<forall>x \<in> D. set (succs x) \<subseteq> D \<and> (x, x) \<notin> (edges succs)\<^sup>+)"

lemma sound_reach: "sound succs D \<Longrightarrow> x \<in> D \<Longrightarrow> (x, y) \<in> (edges succs)\<^sup>* \<Longrightarrow> y \<in> D"
  by (rotate_tac 2, induction rule: rtrancl_induct) (auto simp: sound_def edges_def)

lemma sound_insert:
  assumes D: "sound succs D" and x: "x \<notin> D" and succs: "set (succs x) \<subseteq> D"
  shows "sound succs (insert x D)"
proof -
  have "(x, x) \<notin> (edges succs)\<^sup>+"
  proof
    assume "(x, x) \<in> (edges succs)\<^sup>+"
    then obtain y where "y \<in> set (succs x)" "(y, x) \<in> (edges succs)\<^sup>*"
      by (metis (mono_tags, lifting) case_prodD edges_def mem_Collect_eq tranclD)
    then show False using sound_reach [OF D] succs x by blast
  qed
  then show ?thesis using D succs by (auto simp: sound_def)
qed

text \<open>What a search from \<open>xs\<close> returns, with every node being visited above them.\<close>

definition dfs_post ::
    "('a \<Rightarrow> 'a list) \<Rightarrow> 'a set \<Rightarrow> ('a, mark) js_map \<Rightarrow> (bool \<times> ('a, mark) js_map) option \<Rightarrow> bool" where
  "dfs_post succs X marks r \<longleftrightarrow>
     (\<exists>marks'. r = Some (True, marks') \<and> (\<exists>x. (x, x) \<in> (edges succs)\<^sup>+))
     \<or> (\<exists>marks'. r = Some (False, marks') \<and> visiting marks' = visiting marks
          \<and> finished marks \<subseteq> finished marks' \<and> X \<subseteq> finished marks' \<and> sound succs (finished marks'))"

definition dfs_pre ::
    "('a \<Rightarrow> 'a list) \<Rightarrow> 'a set \<Rightarrow> nat \<Rightarrow> 'a set \<Rightarrow> ('a, mark) js_map \<Rightarrow> bool" where
  "dfs_pre succs S n X marks \<longleftrightarrow>
     finite S \<and> X \<subseteq> S \<and> (\<forall>x \<in> S. set (succs x) \<subseteq> S) \<and> card (S - visiting marks) < n
     \<and> sound succs (finished marks) \<and> (\<forall>v \<in> visiting marks. \<forall>x \<in> X. (v, x) \<in> (edges succs)\<^sup>+)"

lemma dfs_disjoint: "x \<in> visiting m \<Longrightarrow> x \<notin> finished m"
  by (auto simp: visiting_def finished_def)

lemma dfs_pre_enter:
  assumes pre: "dfs_pre succs S (Suc n) {x} marks" and new: "map_get marks x = None"
  shows "dfs_pre succs S n (set (succs x)) (map_set x Visiting marks)"
proof -
  have x: "x \<in> S" "x \<notin> visiting marks" "x \<notin> finished marks"
    using pre new by (auto simp: dfs_pre_def visiting_def finished_def)
  have "card (S - insert x (visiting marks)) < card (S - visiting marks)"
    using pre x by (intro psubset_card_mono) (auto simp: dfs_pre_def)
  moreover have "(v, y) \<in> (edges succs)\<^sup>+"
    if "v \<in> insert x (visiting marks)" "y \<in> set (succs x)" for v y
  proof -
    have "(x, y) \<in> edges succs" using that by (simp add: edges_def)
    moreover have "v = x \<or> (v, x) \<in> (edges succs)\<^sup>+" using pre that by (auto simp: dfs_pre_def)
    ultimately show ?thesis by (metis r_into_trancl' trancl.trancl_into_trancl)
  qed
  ultimately show ?thesis using pre x by (auto simp: dfs_pre_def)
qed

lemma dfs_correct:
  "dfs_pre succs S n {x} marks \<Longrightarrow> dfs_post succs {x} marks (dfs_visit succs n x marks)"
  "dfs_pre succs S n (set xs) marks \<Longrightarrow> dfs_post succs (set xs) marks (dfs_visit_all succs n xs marks)"
proof (induction succs n x marks and succs n xs marks rule: dfs_visit_dfs_visit_all.induct)
  case (1 succs x marks)
  then show ?case by (simp add: dfs_pre_def)
next
  case (2 succs n x marks)
  show ?case
  proof (cases "map_get marks x")
    case None
    have pre: "dfs_pre succs S n (set (succs x)) (map_set x Visiting marks)"
      using dfs_pre_enter [OF "2.prems" None] .
    from "2.IH" [OF None pre] consider
        (cycle) m' where "dfs_visit_all succs n (succs x) (map_set x Visiting marks) = Some (True, m')"
          "\<exists>y. (y, y) \<in> (edges succs)\<^sup>+"
      | (none) m' where "dfs_visit_all succs n (succs x) (map_set x Visiting marks) = Some (False, m')"
          "visiting m' = insert x (visiting marks)" "finished marks - {x} \<subseteq> finished m'"
          "set (succs x) \<subseteq> finished m'" "sound succs (finished m')"
      by (auto simp: dfs_post_def)
    then show ?thesis
    proof cases
      case cycle
      with None show ?thesis by (simp add: dfs_post_def)
    next
      case none
      have "x \<notin> finished m'" using none(2) dfs_disjoint by (metis insertI1)
      then have "sound succs (insert x (finished m'))" using sound_insert none(4,5) by metis
      moreover have "x \<notin> visiting marks" using None by (simp add: visiting_def)
      moreover have "x \<notin> finished marks" using None by (simp add: finished_def)
      ultimately show ?thesis using None none by (auto simp: dfs_post_def)
    qed
  next
    case (Some k)
    then show ?thesis using "2.prems"
      by (cases k) (auto simp: dfs_post_def dfs_pre_def visiting_def finished_def)
  qed
next
  case (3 succs n marks)
  then show ?case by (simp add: dfs_post_def dfs_pre_def)
next
  case (4 succs n x xs marks)
  have "dfs_pre succs S n {x} marks" using "4.prems" by (auto simp: dfs_pre_def)
  from "4.IH"(1) [OF this] consider
      (cycle) m' where "dfs_visit succs n x marks = Some (True, m')" "\<exists>y. (y, y) \<in> (edges succs)\<^sup>+"
    | (none) m' where "dfs_visit succs n x marks = Some (False, m')"
        "visiting m' = visiting marks" "finished marks \<subseteq> finished m'" "x \<in> finished m'"
        "sound succs (finished m')"
    by (auto simp: dfs_post_def)
  then show ?case
  proof cases
    case cycle
    then show ?thesis by (simp add: dfs_post_def)
  next
    case none
    have "dfs_pre succs S n (set xs) m'" using "4.prems" none by (auto simp: dfs_pre_def)
    from "4.IH"(2) [OF none(1) refl refl this]
    show ?thesis using none unfolding dfs_post_def by (elim disjE exE conjE) (simp, blast)+
  qed
qed

text \<open>The whole search, from every node that has successors.\<close>

definition dfs_cyclic :: "('a \<Rightarrow> 'a list) \<Rightarrow> nat \<Rightarrow> 'a list \<Rightarrow> bool" where
  "dfs_cyclic succs fuel xs =
     (case dfs_visit_all succs fuel xs [] of None \<Rightarrow> True | Some (cyclic, _) \<Rightarrow> cyclic)"

lemma dfs_cyclic_iff:
  assumes fin: "finite S" "set xs \<subseteq> S" "\<And>x. x \<in> S \<Longrightarrow> set (succs x) \<subseteq> S" "card S < fuel"
    and all: "\<And>x. succs x \<noteq> [] \<Longrightarrow> x \<in> set xs"
  shows "dfs_visit_all succs fuel xs [] \<noteq> None"
    and "dfs_cyclic succs fuel xs \<longleftrightarrow> \<not> acyclic (edges succs)"
proof -
  have "dfs_pre succs S fuel (set xs) []"
    using fin by (auto simp: dfs_pre_def visiting_def finished_def sound_def)
  then have post: "dfs_post succs (set xs) [] (dfs_visit_all succs fuel xs [])" by (rule dfs_correct(2))
  then show "dfs_visit_all succs fuel xs [] \<noteq> None" by (auto simp: dfs_post_def)
  have "acyclic (edges succs)" if "sound succs D" "set xs \<subseteq> D" for D
  proof (rule acyclicI, rule allI)
    fix x
    show "(x, x) \<notin> (edges succs)\<^sup>+"
    proof
      assume c: "(x, x) \<in> (edges succs)\<^sup>+"
      then have "succs x \<noteq> []" by (metis (mono_tags, lifting) case_prodD edges_def empty_iff empty_set mem_Collect_eq tranclD)
      then have "x \<in> D" using all that by blast
      then show False using c that by (simp add: sound_def)
    qed
  qed
  with post show "dfs_cyclic succs fuel xs \<longleftrightarrow> \<not> acyclic (edges succs)"
    by (auto simp: dfs_post_def dfs_cyclic_def acyclic_def)
qed

end
