(* ===== verification/TaskBoard.thy ===== *)
theory TaskBoard
  imports Types Dfs "HOL-Library.Product_Lexorder"
begin

text \<open>
  The task board of a session: \<^verbatim>\<open>applyTaskAction\<close> of \<^verbatim>\<open>runtime/session-actor.ts\<close> and its helpers.
  An update changes the task in place field by field, and a field that is refused throws with the
  fields before it already changed; the model keeps that order.
\<close>

type_synonym payload = "(string \<times> json) list"

datatype task_error =
    TooManyTasks | BadTitle | DescriptionType | DescriptionTooLong | BadPriority | BadStatus
  | BadDependsOn | DependsOnItself | NoDependency id | WouldCycle | AssigneeType | AssigneeNotAllowed
  | NoTask id | UnknownTaskAction string

section \<open>Helpers\<close>

definition TASK_STATUSES :: "(string \<times> task_status) list" where
  "TASK_STATUSES = [(''backlog'', Backlog), (''ready'', TaskReady), (''in_progress'', InProgress),
     (''blocked'', Blocked), (''review'', Review), (''done'', Done), (''cancelled'', Cancelled)]"

definition TASK_PRIORITIES :: "(string \<times> task_priority) list" where
  "TASK_PRIORITIES = [(''low'', PrioLow), (''normal'', PrioNormal), (''high'', PrioHigh), (''critical'', PrioCritical)]"

fun TASK_PRIORITY_ORDER :: "task_priority \<Rightarrow> nat" where
  "TASK_PRIORITY_ORDER PrioCritical = 0"
| "TASK_PRIORITY_ORDER PrioHigh = 1"
| "TASK_PRIORITY_ORDER PrioNormal = 2"
| "TASK_PRIORITY_ORDER PrioLow = 3"

definition status_of :: "json option \<Rightarrow> task_status option" where
  "status_of v = (case v of Some (JStr s) \<Rightarrow> map_of TASK_STATUSES s | _ \<Rightarrow> None)"

definition priority_of :: "json option \<Rightarrow> task_priority option" where
  "priority_of v = (case v of Some (JStr s) \<Rightarrow> map_of TASK_PRIORITIES s | _ \<Rightarrow> None)"

definition trimmed :: "json option \<Rightarrow> string" where
  "trimmed v = (case v of Some (JStr s) \<Rightarrow> js_trim s | _ \<Rightarrow> [])"

definition sortTasks :: "task_item list \<Rightarrow> task_item list" where
  "sortTasks tasks = sort_key (\<lambda>t. (TASK_PRIORITY_ORDER (priority t), createdAt t)) tasks"

definition find_task :: "id \<Rightarrow> task_item list \<Rightarrow> task_item option" where
  "find_task i tasks = List.find (\<lambda>t. task_id t = i) tasks"

definition update_task :: "id \<Rightarrow> (task_item \<Rightarrow> task_item) \<Rightarrow> task_item list \<Rightarrow> task_item list" where
  "update_task i f tasks = update_first (\<lambda>t. task_id t = i) f tasks"

definition taskDependencies ::
    "json option \<Rightarrow> task_item list \<Rightarrow> id option \<Rightarrow> (task_error, id list) result" where
  "taskDependencies v tasks currentTaskId =
     (case v of
        None \<Rightarrow> ok []
      | Some (JArr xs) \<Rightarrow>
          if length xs > 50 \<or> list_ex (\<lambda>x. case x of JStr _ \<Rightarrow> False | _ \<Rightarrow> True) xs then throw BadDependsOn
          else
            let dependencies = dedupe (map (\<lambda>x. case x of JStr s \<Rightarrow> s | _ \<Rightarrow> []) xs)
            in if (case currentTaskId of None \<Rightarrow> False | Some i \<Rightarrow> i \<noteq> [] \<and> i \<in> set dependencies)
               then throw DependsOnItself
               else (case List.find (\<lambda>d. find_task d tasks = None) dependencies of
                       Some d \<Rightarrow> throw (NoDependency d)
                     | None \<Rightarrow> ok dependencies)
      | Some _ \<Rightarrow> throw BadDependsOn)"

text \<open>The successors of an id in \<^verbatim>\<open>taskGraphHasCycle\<close>: \<^verbatim>\<open>task?.dependsOn ?? []\<close>.\<close>

definition task_succs :: "task_item list \<Rightarrow> id \<Rightarrow> id list" where
  "task_succs tasks i = (case find_task i tasks of None \<Rightarrow> [] | Some t \<Rightarrow> dependsOn t)"

definition task_fuel :: "task_item list \<Rightarrow> nat" where
  "task_fuel tasks = Suc (length (map task_id tasks @ concat (map dependsOn tasks)))"

definition taskGraphHasCycle :: "task_item list \<Rightarrow> bool" where
  "taskGraphHasCycle tasks = dfs_cyclic (task_succs tasks) (task_fuel tasks) (map task_id tasks)"

definition dependenciesDone :: "id list \<Rightarrow> task_item list \<Rightarrow> bool" where
  "dependenciesDone ids tasks =
     list_all (\<lambda>i. case find_task i tasks of None \<Rightarrow> False | Some t \<Rightarrow> task_status t = Done) ids"

definition requiresFinishedDependencies :: "task_status \<Rightarrow> bool" where
  "requiresFinishedDependencies s \<longleftrightarrow> s = TaskReady \<or> s = InProgress \<or> s = Review \<or> s = Done"

definition taskAssignee :: "json option \<Rightarrow> id \<Rightarrow> id list \<Rightarrow> (task_error, id option) result" where
  "taskAssignee v sessionId childSessionIds =
     (case v of
        None \<Rightarrow> ok None
      | Some JNull \<Rightarrow> ok None
      | Some (JStr s) \<Rightarrow>
          if s = [] then ok None
          else if s \<noteq> sessionId \<and> s \<notin> set childSessionIds then throw AssigneeNotAllowed
          else ok (Some s)
      | Some _ \<Rightarrow> throw AssigneeType)"

section \<open>Create\<close>

text \<open>The object literal of a new task.\<close>

definition new_task ::
    "msec \<Rightarrow> id \<Rightarrow> string \<Rightarrow> string \<Rightarrow> task_status \<Rightarrow> task_priority \<Rightarrow> id list \<Rightarrow> id option \<Rightarrow> task_item" where
  "new_task now newId ti d s prio deps a =
     \<lparr>task_id = newId, title = ti, description = (if d = [] then None else Some d),
      task_status = s, priority = prio, dependsOn = deps, assignee = a,
      createdAt = now, updatedAt = now,
      completedAt = (if s = Done then Some now else None)\<rparr>"

definition task_create ::
    "msec \<Rightarrow> id \<Rightarrow> id \<Rightarrow> id list \<Rightarrow> payload \<Rightarrow> task_item list
       \<Rightarrow> (task_error, id) result \<times> task_item list" where
  "task_create now newId sessionId childSessionIds payload tasks =
     (if length tasks \<ge> 500 then (throw TooManyTasks, tasks)
      else let ti = trimmed (map_of payload ''title'') in
      if ti = [] \<or> length ti > 300 then (throw BadTitle, tasks)
      else let d = trimmed (map_of payload ''description'') in
      if length d > 20000 then (throw DescriptionTooLong, tasks)
      else
        let prio = (case priority_of (map_of payload ''priority'') of Some p \<Rightarrow> p | None \<Rightarrow> PrioNormal) in
        case taskDependencies (map_of payload ''dependsOn'') tasks None of
          Inl e \<Rightarrow> (throw e, tasks)
        | Inr deps \<Rightarrow>
            let requestedStatus = (case status_of (map_of payload ''status'') of Some s \<Rightarrow> s | None \<Rightarrow> Backlog);
                s = (if requiresFinishedDependencies requestedStatus \<and> \<not> dependenciesDone deps tasks
                     then Blocked else requestedStatus)
            in case taskAssignee (map_of payload ''assigneeSessionId'') sessionId childSessionIds of
                 Inl e \<Rightarrow> (throw e, tasks)
               | Inr a \<Rightarrow>
                   (ok newId,
                    tasks @ [new_task now newId ti d s prio deps a]))"

section \<open>Update, field by field\<close>

type_synonym task_step = "task_item list \<Rightarrow> (task_error, unit) result \<times> task_item list"

definition update_title :: "json option \<Rightarrow> id \<Rightarrow> task_step" where
  "update_title v i tasks =
     (if v = None then (ok (), tasks)
      else let ti = trimmed v in
      if ti = [] \<or> length ti > 300 then (throw BadTitle, tasks)
      else (ok (), update_task i (\<lambda>t. t\<lparr>title := ti\<rparr>) tasks))"

definition update_description :: "json option \<Rightarrow> id \<Rightarrow> task_step" where
  "update_description v i tasks =
     (case v of
        None \<Rightarrow> (ok (), tasks)
      | Some j \<Rightarrow>
          if j \<noteq> JNull \<and> (case j of JStr _ \<Rightarrow> False | _ \<Rightarrow> True) then (throw DescriptionType, tasks)
          else let d = trimmed v in
          if length d > 20000 then (throw DescriptionTooLong, tasks)
          else (ok (), update_task i (\<lambda>t. t\<lparr>description := (if d = [] then None else Some d)\<rparr>) tasks))"

definition update_priority :: "json option \<Rightarrow> id \<Rightarrow> task_step" where
  "update_priority v i tasks =
     (if v = None then (ok (), tasks)
      else case priority_of v of
        None \<Rightarrow> (throw BadPriority, tasks)
      | Some p \<Rightarrow> (ok (), update_task i (\<lambda>t. t\<lparr>priority := p\<rparr>) tasks))"

definition update_dependsOn :: "json option \<Rightarrow> id \<Rightarrow> task_step" where
  "update_dependsOn v i tasks =
     (if v = None then (ok (), tasks)
      else case taskDependencies v tasks (Some i) of
        Inl e \<Rightarrow> (throw e, tasks)
      | Inr deps \<Rightarrow>
          let tasks' = update_task i (\<lambda>t. t\<lparr>dependsOn := deps\<rparr>) tasks
          in if taskGraphHasCycle tasks' then (throw WouldCycle, tasks) else (ok (), tasks'))"

definition update_assignee :: "id \<Rightarrow> id list \<Rightarrow> json option \<Rightarrow> id \<Rightarrow> task_step" where
  "update_assignee sessionId childSessionIds v i tasks =
     (if v = None then (ok (), tasks)
      else case taskAssignee v sessionId childSessionIds of
        Inl e \<Rightarrow> (throw e, tasks)
      | Inr a \<Rightarrow> (ok (), update_task i (\<lambda>t. t\<lparr>assignee := a\<rparr>) tasks))"

definition update_status :: "json option \<Rightarrow> id \<Rightarrow> task_step" where
  "update_status v i tasks =
     (if v \<noteq> None
      then case status_of v of
        None \<Rightarrow> (throw BadStatus, tasks)
      | Some requested \<Rightarrow>
          (ok (), update_task i (\<lambda>t. t\<lparr>task_status :=
             (if requiresFinishedDependencies requested \<and> \<not> dependenciesDone (dependsOn t) tasks
              then Blocked else requested)\<rparr>) tasks)
      else (ok (), update_task i (\<lambda>t.
             if requiresFinishedDependencies (task_status t) \<and> \<not> dependenciesDone (dependsOn t) tasks
             then t\<lparr>task_status := Blocked\<rparr> else t) tasks))"

definition update_stamp :: "msec \<Rightarrow> id \<Rightarrow> task_step" where
  "update_stamp now i tasks =
     (ok (), update_task i (\<lambda>t. t\<lparr>updatedAt := now,
        completedAt := (if task_status t = Done
          then (case completedAt t of None \<Rightarrow> Some now | Some c \<Rightarrow> Some c) else None)\<rparr>) tasks)"

definition update_steps :: "msec \<Rightarrow> id \<Rightarrow> id list \<Rightarrow> payload \<Rightarrow> id \<Rightarrow> task_step list" where
  "update_steps now sessionId childSessionIds payload i =
     [update_title (map_of payload ''title'') i,
      update_description (map_of payload ''description'') i,
      update_priority (map_of payload ''priority'') i,
      update_dependsOn (map_of payload ''dependsOn'') i,
      update_assignee sessionId childSessionIds (map_of payload ''assigneeSessionId'') i,
      update_status (map_of payload ''status'') i,
      update_stamp now i]"

definition payload_id :: "payload \<Rightarrow> id" where
  "payload_id payload = (case map_of payload ''id'' of Some (JStr s) \<Rightarrow> s | _ \<Rightarrow> [])"

definition task_update ::
    "msec \<Rightarrow> id \<Rightarrow> id list \<Rightarrow> payload \<Rightarrow> task_item list \<Rightarrow> (task_error, id) result \<times> task_item list" where
  "task_update now sessionId childSessionIds payload tasks =
     (let i = payload_id payload in
      case find_task i tasks of
        None \<Rightarrow> (throw (NoTask i), tasks)
      | Some _ \<Rightarrow>
          (case run_steps (update_steps now sessionId childSessionIds payload i) tasks of
             (Inl e, tasks') \<Rightarrow> (throw e, tasks')
           | (Inr _, tasks') \<Rightarrow> (ok i, tasks')))"

section \<open>The action\<close>

text \<open>The loop that unblocks: each candidate is looked at once, in board order, over the tasks as the
  loop has left them.\<close>

definition stuck :: "task_item list \<Rightarrow> task_item \<Rightarrow> bool" where
  "stuck tasks t \<longleftrightarrow> task_status t = Blocked \<and> dependsOn t \<noteq> [] \<and> dependenciesDone (dependsOn t) tasks"

definition unblock_at :: "msec \<Rightarrow> nat \<Rightarrow> id list \<times> task_item list \<Rightarrow> id list \<times> task_item list" where
  "unblock_at now n = (\<lambda>(unblocked, tasks).
     if stuck tasks (tasks ! n)
     then (unblocked @ [task_id (tasks ! n)],
           tasks[n := (tasks ! n)\<lparr>task_status := TaskReady, updatedAt := now\<rparr>])
     else (unblocked, tasks))"

definition unblock :: "msec \<Rightarrow> task_item list \<Rightarrow> id list \<times> task_item list" where
  "unblock now tasks = fold (unblock_at now) [0..<length tasks] ([], tasks)"

datatype task_outcome =
    TaskListing "task_item list"
  | TaskChanged id "id list" "task_item list"

definition task_change ::
    "msec \<Rightarrow> id \<Rightarrow> id \<Rightarrow> id list \<Rightarrow> string \<Rightarrow> payload \<Rightarrow> task_item list
       \<Rightarrow> (task_error, id) result \<times> task_item list" where
  "task_change now newId sessionId childSessionIds action payload tasks =
     (if action = ''create'' then task_create now newId sessionId childSessionIds payload tasks
      else if action = ''update'' then task_update now sessionId childSessionIds payload tasks
      else (throw (UnknownTaskAction action), tasks))"

definition applyTaskAction ::
    "msec \<Rightarrow> id \<Rightarrow> id \<Rightarrow> id list \<Rightarrow> string \<Rightarrow> payload \<Rightarrow> task_item list
       \<Rightarrow> (task_error, task_outcome) result \<times> task_item list" where
  "applyTaskAction now newId sessionId childSessionIds action payload tasks =
     (if action = ''list''
      then (ok (TaskListing (sortTasks
             (case status_of (map_of payload ''status'') of
                None \<Rightarrow> tasks | Some s \<Rightarrow> filter (\<lambda>t. task_status t = s) tasks))), tasks)
      else
        (case task_change now newId sessionId childSessionIds action payload tasks of
           (Inl e, tasks') \<Rightarrow> (throw e, tasks')
         | (Inr i, tasks') \<Rightarrow>
             let (unblocked, tasks'') = unblock now tasks'
             in (ok (TaskChanged i unblocked (sortTasks tasks'')), tasks'')))"

section \<open>The cycle test\<close>

lemma find_task_mem: "find_task i tasks = Some t \<Longrightarrow> t \<in> set tasks \<and> task_id t = i"
  by (auto simp: find_task_def dest: find_Some_mem)

lemma find_task_None: "find_task i tasks = None \<longleftrightarrow> i \<notin> set (map task_id tasks)"
  by (auto simp: find_task_def find_None_iff)

lemma task_succs_mem: "task_succs tasks i \<noteq> [] \<Longrightarrow> i \<in> set (map task_id tasks)"
  by (auto simp: task_succs_def dest: find_task_mem split: option.splits)

lemma task_graph_dfs:
  shows "dfs_visit_all (task_succs tasks) (task_fuel tasks) (map task_id tasks) [] \<noteq> None"
    and "taskGraphHasCycle tasks \<longleftrightarrow> \<not> acyclic (edges (task_succs tasks))"
proof -
  let ?S = "set (map task_id tasks @ concat (map dependsOn tasks))"
  have "card ?S < task_fuel tasks" unfolding task_fuel_def by (rule le_imp_less_Suc) (rule card_length)
  moreover have "set (task_succs tasks x) \<subseteq> ?S" for x
    by (cases "find_task x tasks") (auto simp: task_succs_def dest: find_task_mem)
  ultimately show "dfs_visit_all (task_succs tasks) (task_fuel tasks) (map task_id tasks) [] \<noteq> None"
    "taskGraphHasCycle tasks \<longleftrightarrow> \<not> acyclic (edges (task_succs tasks))"
    unfolding taskGraphHasCycle_def
    using dfs_cyclic_iff [of ?S "map task_id tasks" "task_succs tasks" "task_fuel tasks"] task_succs_mem
    by auto
qed

section \<open>The invariant of a board\<close>

definition task_ok :: "task_item list \<Rightarrow> task_item \<Rightarrow> bool" where
  "task_ok tasks t \<longleftrightarrow> set (dependsOn t) \<subseteq> set (map task_id tasks)
     \<and> (completedAt t \<noteq> None \<longleftrightarrow> task_status t = Done)"

definition board_ok :: "task_item list \<Rightarrow> bool" where
  "board_ok tasks \<longleftrightarrow> distinct (map task_id tasks) \<and> length tasks \<le> 500
     \<and> \<not> taskGraphHasCycle tasks \<and> list_all (task_ok tasks) tasks"

lemma task_succs_cong: "map (\<lambda>t. (task_id t, dependsOn t)) ts = map (\<lambda>t. (task_id t, dependsOn t)) us \<Longrightarrow>
   task_succs ts = task_succs us"
proof (induction ts arbitrary: us)
  case (Cons t ts)
  then obtain u us' where us: "us = u # us'" by auto
  then show ?case using Cons.IH [of us'] Cons.prems
    by (auto simp: task_succs_def find_task_def fun_eq_iff)
qed simp

text \<open>A change of one task that keeps its id and dependencies, and agrees on completion.\<close>

lemma board_ok_update:
  assumes ok: "board_ok tasks"
    and same: "\<And>t. task_id (f t) = task_id t" "\<And>t. dependsOn (f t) = dependsOn t"
    and fin: "\<And>t. t \<in> set tasks \<Longrightarrow> completedAt (f t) \<noteq> None \<longleftrightarrow> task_status (f t) = Done"
  shows "board_ok (update_task i f tasks)"
proof -
  let ?ts = "update_task i f tasks"
  have ids: "map task_id ?ts = map task_id tasks"
    by (simp add: update_task_def map_update_first same)
  have "map (\<lambda>t. (task_id t, dependsOn t)) ?ts = map (\<lambda>t. (task_id t, dependsOn t)) tasks"
    by (simp add: update_task_def map_update_first same)
  then have "task_succs ?ts = task_succs tasks" by (rule task_succs_cong)
  then have "taskGraphHasCycle ?ts = taskGraphHasCycle tasks" by (simp add: task_graph_dfs)
  moreover have "task_ok ?ts t" if "t \<in> set ?ts" for t
  proof -
    from that update_first_mem consider "t \<in> set tasks" | u where "u \<in> set tasks" "t = f u"
      unfolding update_task_def by fastforce
    then show ?thesis
      using ok ids same fin
      by cases (simp_all add: board_ok_def list_all_iff task_ok_def del: set_map not_None_eq)
  qed
  ultimately show ?thesis
    using ok ids by (simp add: board_ok_def list_all_iff update_task_def)
qed

lemma board_ok_depends:
  assumes ok: "board_ok tasks" and deps: "set deps \<subseteq> set (map task_id tasks)"
    and acyc: "\<not> taskGraphHasCycle (update_task i (\<lambda>t. t\<lparr>dependsOn := deps\<rparr>) tasks)"
  shows "board_ok (update_task i (\<lambda>t. t\<lparr>dependsOn := deps\<rparr>) tasks)"
proof -
  let ?ts = "update_task i (\<lambda>t. t\<lparr>dependsOn := deps\<rparr>) tasks"
  have ids: "map task_id ?ts = map task_id tasks"
    by (simp add: update_task_def map_update_first)
  have "task_ok ?ts t" if "t \<in> set ?ts" for t
  proof -
    from that update_first_mem consider "t \<in> set tasks" | u where "u \<in> set tasks" "t = u\<lparr>dependsOn := deps\<rparr>"
      unfolding update_task_def by fastforce
    then show ?thesis
      using ok ids deps
      by cases (simp_all add: board_ok_def list_all_iff task_ok_def del: set_map not_None_eq)
  qed
  then show ?thesis using ok ids acyc by (simp add: board_ok_def list_all_iff update_task_def)
qed

lemma taskDependencies_ok:
  assumes "taskDependencies v tasks cur = Inr deps"
  shows "set deps \<subseteq> set (map task_id tasks)" and "\<And>i. cur = Some i \<Longrightarrow> i \<noteq> [] \<Longrightarrow> i \<notin> set deps"
proof -
  have "set deps \<subseteq> set (map task_id tasks) \<and> (\<forall>i. cur = Some i \<longrightarrow> i \<noteq> [] \<longrightarrow> i \<notin> set deps)"
  proof (cases v)
    case None
    then show ?thesis using assms by (simp add: taskDependencies_def)
  next
    case (Some j)
    show ?thesis
    proof (cases j)
      case (JArr xs)
      define ds where "ds = dedupe (map (\<lambda>x. case x of JStr s \<Rightarrow> s | _ \<Rightarrow> []) xs)"
      have "deps = ds" and none: "List.find (\<lambda>d. find_task d tasks = None) ds = None"
        and self: "\<not> (case cur of None \<Rightarrow> False | Some i \<Rightarrow> i \<noteq> [] \<and> i \<in> set ds)"
        using assms Some JArr unfolding taskDependencies_def ds_def Let_def
        by (simp_all del: not_None_eq set_dedupe split: if_splits option.splits)
      then show ?thesis using none self by (auto simp: find_None_iff find_task_None)
    qed (use assms Some in \<open>simp_all add: taskDependencies_def\<close>)
  qed
  then show "set deps \<subseteq> set (map task_id tasks)" "\<And>i. cur = Some i \<Longrightarrow> i \<noteq> [] \<Longrightarrow> i \<notin> set deps"
    by blast+
qed

lemma board_ok_field:
  assumes "board_ok tasks"
    and "\<And>t. task_id (f t) = task_id t" "\<And>t. dependsOn (f t) = dependsOn t"
      "\<And>t. completedAt (f t) = completedAt t" "\<And>t. task_status (f t) = task_status t"
  shows "board_ok (update_task i f tasks)"
  using assms by (intro board_ok_update) (auto simp: board_ok_def list_all_iff task_ok_def)

lemma update_title_ok [inv_intros]: "board_ok tasks \<Longrightarrow> board_ok (snd (update_title v i tasks))"
  by (simp add: update_title_def Let_def board_ok_field)

lemma update_description_ok [inv_intros]:
  "board_ok tasks \<Longrightarrow> board_ok (snd (update_description v i tasks))"
  by (simp add: update_description_def Let_def board_ok_field split: option.split)

lemma update_priority_ok [inv_intros]: "board_ok tasks \<Longrightarrow> board_ok (snd (update_priority v i tasks))"
  by (simp add: update_priority_def board_ok_field split: option.split)

lemma update_assignee_ok [inv_intros]:
  "board_ok tasks \<Longrightarrow> board_ok (snd (update_assignee s cs v i tasks))"
  by (simp add: update_assignee_def board_ok_field split: sum.split)

lemma update_dependsOn_ok [inv_intros]:
  "board_ok tasks \<Longrightarrow> board_ok (snd (update_dependsOn v i tasks))"
  by (simp add: update_dependsOn_def Let_def board_ok_depends taskDependencies_ok(1) [simplified] split: sum.split)

text \<open>The status and the stamp are one change: the status step alone breaks the agreement of
  \<^verbatim>\<open>completedAt\<close> with the status, and the stamp restores it.\<close>

definition new_status :: "json option \<Rightarrow> task_item list \<Rightarrow> task_item \<Rightarrow> task_status" where
  "new_status v tasks t =
     (let requested = (case status_of v of Some s \<Rightarrow> s | None \<Rightarrow> task_status t) in
      if requiresFinishedDependencies requested \<and> \<not> dependenciesDone (dependsOn t) tasks
      then Blocked else requested)"

definition stamped :: "msec \<Rightarrow> task_item \<Rightarrow> task_item" where
  "stamped now t = t\<lparr>updatedAt := now,
     completedAt := (if task_status t = Done
       then (case completedAt t of None \<Rightarrow> Some now | Some c \<Rightarrow> Some c) else None)\<rparr>"

lemma update_task_twice:
  "(\<And>t. task_id (f t) = task_id t) \<Longrightarrow> update_task i g (update_task i f tasks) = update_task i (g \<circ> f) tasks"
  unfolding update_task_def by (induction tasks) auto

lemma update_task_cong: "(\<And>t. f t = g t) \<Longrightarrow> update_task i f tasks = update_task i g tasks"
  by (rule arg_cong [where f = "\<lambda>h. update_task i h tasks"]) (rule ext)

lemma update_tail:
  "run_steps [update_status v i, update_stamp now i] tasks =
     (if v \<noteq> None \<and> status_of v = None then (throw BadStatus, tasks)
      else (ok (), update_task i (\<lambda>t. stamped now (t\<lparr>task_status := new_status v tasks t\<rparr>)) tasks))"
proof -
  have keep: "(if requiresFinishedDependencies (task_status t) \<and> \<not> dependenciesDone (dependsOn t) tasks
      then t\<lparr>task_status := Blocked\<rparr> else t) = t\<lparr>task_status := new_status None tasks t\<rparr>" for t
    by (cases t) (simp add: new_status_def status_of_def Let_def)
  have stamp: "update_stamp now i ts = (ok (), update_task i (stamped now) ts)" for ts
    unfolding update_stamp_def stamped_def by (rule refl)
  show ?thesis
    by (auto simp: update_status_def keep stamp update_task_twice comp_def new_status_def
        split: option.split)
qed

lemma stamped_ok: "board_ok tasks \<Longrightarrow>
    board_ok (update_task i (\<lambda>t. stamped now (t\<lparr>task_status := s t\<rparr>)) tasks)"
  by (rule board_ok_update) (auto simp: stamped_def split: option.split)

lemma update_steps_ok:
  assumes ok: "board_ok tasks"
  shows "board_ok (snd (run_steps (update_steps now s cs payload i) tasks))"
proof -
  let ?head = "[update_title (map_of payload ''title'') i,
              update_description (map_of payload ''description'') i,
              update_priority (map_of payload ''priority'') i,
              update_dependsOn (map_of payload ''dependsOn'') i,
              update_assignee s cs (map_of payload ''assigneeSessionId'') i]"
  let ?tail = "[update_status (map_of payload ''status'') i, update_stamp now i]"
  have "board_ok (snd (run_steps (?head @ ?tail) tasks))"
  proof (rule run_steps_inv_append)
    show "board_ok (snd (run_steps ?head tasks))"
      using ok by (rule run_steps_inv [rotated]) (auto simp: inv_intros)
    show "board_ok ts \<Longrightarrow> board_ok (snd (run_steps ?tail ts))" for ts
      by (simp add: update_tail stamped_ok del: run_steps.simps)
  qed
  then show ?thesis by (simp add: update_steps_def)
qed

lemma task_update_ok [inv_intros]: "board_ok tasks \<Longrightarrow> board_ok (snd (task_update now s cs payload tasks))"
  using update_steps_ok [of tasks now s cs payload "payload_id payload"]
  by (auto simp: task_update_def Let_def split: option.split prod.splits sum.splits)

section \<open>Create and unblock\<close>

lemma find_task_append:
  "find_task i (ts @ us) = (case find_task i ts of Some t \<Rightarrow> Some t | None \<Rightarrow> find_task i us)"
  by (induction ts) (auto simp: find_task_def)

lemma find_task_snoc:
  "find_task i (ts @ [t]) =
     (case find_task i ts of Some u \<Rightarrow> Some u | None \<Rightarrow> if task_id t = i then Some t else None)"
  by (induction ts) (auto simp: find_task_def)

lemma task_succs_ids: "board_ok tasks \<Longrightarrow> set (task_succs tasks x) \<subseteq> set (map task_id tasks)"
  by (cases "find_task x tasks")
    (auto simp: task_succs_def board_ok_def list_all_iff task_ok_def simp del: set_map dest: find_task_mem)

lemma board_ok_snoc:
  assumes ok: "board_ok tasks" and new: "task_id t \<notin> set (map task_id tasks)"
    and deps: "set (dependsOn t) \<subseteq> set (map task_id tasks)"
    and fin: "completedAt t \<noteq> None \<longleftrightarrow> task_status t = Done" and len: "length tasks < 500"
  shows "board_ok (tasks @ [t])"
proof -
  let ?ts = "tasks @ [t]"
  have "find_task (task_id t) tasks = None" using new find_task_None by blast
  then have old: "task_succs ?ts x = (if x = task_id t then dependsOn t else task_succs tasks x)" for x
    by (simp add: task_succs_def find_task_snoc split: option.split)
  have into: "(x, y) \<in> edges (task_succs ?ts) \<Longrightarrow> y \<in> set (map task_id tasks)" for x y
    using deps task_succs_ids [OF ok, of x] by (auto simp: edges_def old simp del: set_map split: if_splits)
  have inv: "(x, y) \<in> edges (task_succs ?ts) \<Longrightarrow> x \<in> set (map task_id tasks)
      \<Longrightarrow> (x, y) \<in> edges (task_succs tasks)" for x y
    using new by (auto simp: edges_def old simp del: set_map split: if_splits)
  have "acyclic (edges (task_succs ?ts))"
  proof (rule acyclicI, rule allI, rule notI)
    fix x assume cyc: "(x, x) \<in> (edges (task_succs ?ts))\<^sup>+"
    have "(x, y) \<in> (edges (task_succs ?ts))\<^sup>+ \<Longrightarrow> x \<in> set (map task_id tasks)
        \<Longrightarrow> (x, y) \<in> (edges (task_succs tasks))\<^sup>+ \<and> y \<in> set (map task_id tasks)" for y
    proof (induction rule: trancl_induct)
      case (base y)
      then show ?case using into inv by blast
    next
      case (step y z)
      then show ?case using into inv by (meson trancl.trancl_into_trancl)
    qed
    moreover have "x \<in> set (map task_id tasks)" using cyc into by (metis tranclD2)
    ultimately have "(x, x) \<in> (edges (task_succs tasks))\<^sup>+" using cyc by blast
    then show False using ok by (simp add: board_ok_def task_graph_dfs acyclic_def)
  qed
  moreover have "task_ok ?ts u" if "u \<in> set ?ts" for u
    using that ok deps fin by (auto simp: task_ok_def board_ok_def list_all_iff simp del: not_None_eq)
  ultimately show ?thesis
    using ok new len by (simp add: board_ok_def task_graph_dfs list_all_iff)
qed

text \<open>An accepted create puts one new task at the end of the board.\<close>

lemma task_create_cases:
  assumes "task_create now newId s cs payload tasks = (r, ts)"
  obtains (refused) e where "r = Inl e" "ts = tasks"
  | (created) t where "r = Inr newId" "ts = tasks @ [t]" "task_id t = newId" "length tasks < 500"
      "taskDependencies (map_of payload ''dependsOn'') tasks None = Inr (dependsOn t)"
      "completedAt t \<noteq> None \<longleftrightarrow> task_status t = Done"
      "requiresFinishedDependencies (task_status t) \<Longrightarrow> dependenciesDone (dependsOn t) tasks"
proof (cases r)
  case (Inl e)
  then have "ts = tasks" using assms
    by (auto simp: task_create_def Let_def split: if_splits sum.splits)
  with Inl show ?thesis by (rule refused)
next
  case (Inr i)
  let ?ti = "trimmed (map_of payload ''title'')"
  let ?d = "trimmed (map_of payload ''description'')"
  have c: "\<not> length tasks \<ge> 500" "\<not> (?ti = [] \<or> length ?ti > 300)" "\<not> length ?d > 20000"
    using assms Inr by (auto simp only: task_create_def Let_def prod.inject sum.distinct split: if_splits)
  note eq = assms [unfolded task_create_def Let_def if_not_P [OF c(1)] if_not_P [OF c(2)] if_not_P [OF c(3)]]
  obtain deps where deps: "taskDependencies (map_of payload ''dependsOn'') tasks None = Inr deps"
    using eq Inr by (auto split: sum.splits)
  obtain a where a: "taskAssignee (map_of payload ''assigneeSessionId'') s cs = Inr a"
    using eq Inr by (auto simp: deps split: sum.splits)
  define S where "S = (if requiresFinishedDependencies
      (case status_of (map_of payload ''status'') of Some s \<Rightarrow> s | None \<Rightarrow> Backlog)
      \<and> \<not> dependenciesDone deps tasks then Blocked
    else (case status_of (map_of payload ''status'') of Some s \<Rightarrow> s | None \<Rightarrow> Backlog))"
  define t where "t = new_task now newId ?ti ?d S
    (case priority_of (map_of payload ''priority'') of Some p \<Rightarrow> p | None \<Rightarrow> PrioNormal) deps a"
  have "r = Inr newId" "ts = tasks @ [t]"
    using eq unfolding deps a sum.case S_def t_def by simp_all
  moreover have "task_id t = newId" "dependsOn t = deps" "task_status t = S"
      "completedAt t = (if S = Done then Some now else None)"
    by (simp_all add: t_def new_task_def)
  moreover have "requiresFinishedDependencies S \<Longrightarrow> dependenciesDone deps tasks"
    by (simp add: S_def requiresFinishedDependencies_def split: if_splits)
  ultimately show ?thesis using c(1) deps by (intro created [of t]) simp_all
qed

lemma task_create_ok:
  assumes ok: "board_ok tasks" and new: "newId \<notin> set (map task_id tasks)"
  shows "board_ok (snd (task_create now newId s cs payload tasks))"
proof (cases "task_create now newId s cs payload tasks")
  case (Pair r ts)
  then show ?thesis
  proof (cases rule: task_create_cases)
    case (created t)
    then show ?thesis using board_ok_snoc [OF ok, of t] new taskDependencies_ok(1) Pair by simp
  qed (use ok Pair in simp)
qed

text \<open>What the unblocking loop may change of a task.\<close>

definition unblocked_from :: "(id list \<Rightarrow> bool) \<Rightarrow> task_item \<Rightarrow> task_item \<Rightarrow> bool" where
  "unblocked_from D t u \<longleftrightarrow> task_id u = task_id t \<and> dependsOn u = dependsOn t \<and> completedAt u = completedAt t
     \<and> (task_status u = task_status t \<or> task_status t = Blocked \<and> task_status u = TaskReady \<and> D (dependsOn t))"

lemma unblocked_find:
  "list_all2 (unblocked_from D) ts us \<Longrightarrow>
     (case find_task i us of None \<Rightarrow> False | Some u \<Rightarrow> task_status u = Done)
       = (case find_task i ts of None \<Rightarrow> False | Some t \<Rightarrow> task_status t = Done)"
  by (induction rule: list_all2_induct) (auto simp: find_task_def unblocked_from_def)

lemma unblocked_done: "list_all2 (unblocked_from D) ts us \<Longrightarrow> dependenciesDone ids us = dependenciesDone ids ts"
  unfolding dependenciesDone_def list_all_iff by (simp add: unblocked_find)

lemma unblock_spec:
  assumes "n \<le> length tasks"
  shows "list_all2 (unblocked_from (\<lambda>ids. dependenciesDone ids tasks)) tasks (snd (fold (unblock_at now) [0..<n] ([], tasks)))
    \<and> (\<forall>k < n. \<not> stuck tasks (snd (fold (unblock_at now) [0..<n] ([], tasks)) ! k))"
  using assms
proof (induction n)
  case 0
  show ?case by (simp add: unblocked_from_def list_all2_refl)
next
  case (Suc n)
  obtain un ts where f: "fold (unblock_at now) [0..<n] ([], tasks) = (un, ts)" by fastforce
  have IH: "list_all2 (unblocked_from (\<lambda>ids. dependenciesDone ids tasks)) tasks ts" "\<forall>k < n. \<not> stuck tasks (ts ! k)"
    using Suc f by simp_all
  have len: "length ts = length tasks" using list_all2_lengthD [OF IH(1)] by simp
  have stuck: "stuck ts t = stuck tasks t" for t
    using unblocked_done [OF IH(1)] by (simp add: stuck_def)
  have step: "fold (unblock_at now) [0..<Suc n] ([], tasks) = unblock_at now n (un, ts)" by (simp add: f)
  have rel: "unblocked_from (\<lambda>ids. dependenciesDone ids tasks) (tasks ! n) (ts ! n)"
    using IH(1) Suc.prems by (simp add: list_all2_conv_all_nth)
  show ?case
  proof (cases "stuck tasks (ts ! n)")
    case True
    let ?t = "(ts ! n)\<lparr>task_status := TaskReady, updatedAt := now\<rparr>"
    have "unblocked_from (\<lambda>ids. dependenciesDone ids tasks) (tasks ! n) ?t" using rel True by (auto simp: unblocked_from_def stuck_def)
    then have "list_all2 (unblocked_from (\<lambda>ids. dependenciesDone ids tasks)) (tasks[n := tasks ! n]) (ts[n := ?t])"
      using IH(1) by (rule list_all2_update_cong [rotated])
    moreover have "\<not> stuck tasks ?t" by (simp add: stuck_def)
    ultimately show ?thesis
      using IH Suc.prems len True unfolding step
      by (auto simp: unblock_at_def stuck less_Suc_eq nth_list_update)
  next
    case False
    then show ?thesis using IH unfolding step by (auto simp: unblock_at_def stuck less_Suc_eq)
  qed
qed

lemma unblock_all:
  assumes "unblock now tasks = (un, ts)"
  shows "list_all2 (unblocked_from (\<lambda>ids. dependenciesDone ids tasks)) tasks ts" and "t \<in> set ts \<Longrightarrow> \<not> stuck ts t"
proof -
  have s: "list_all2 (unblocked_from (\<lambda>ids. dependenciesDone ids tasks)) tasks ts" "\<forall>k < length tasks. \<not> stuck tasks (ts ! k)"
    using unblock_spec [of "length tasks" tasks now] assms by (simp_all add: unblock_def)
  then show "list_all2 (unblocked_from (\<lambda>ids. dependenciesDone ids tasks)) tasks ts" by simp
  show "t \<in> set ts \<Longrightarrow> \<not> stuck ts t"
    using s unblocked_done [OF s(1)] list_all2_lengthD [OF s(1)]
    by (auto simp: stuck_def in_set_conv_nth)
qed

lemma board_ok_unblocked:
  assumes ok: "board_ok ts" and rel: "list_all2 (unblocked_from D) ts us"
  shows "board_ok us"
proof -
  have "map (\<lambda>t. (task_id t, dependsOn t)) us = map (\<lambda>t. (task_id t, dependsOn t)) ts"
    using rel by (induction rule: list_all2_induct) (auto simp: unblocked_from_def)
  then have "task_succs us = task_succs ts" by (rule task_succs_cong)
  then have cyc: "taskGraphHasCycle us = taskGraphHasCycle ts" by (simp add: task_graph_dfs)
  have ids: "map task_id us = map task_id ts"
    using rel by (induction rule: list_all2_induct) (auto simp: unblocked_from_def)
  have "task_ok us u" if "u \<in> set us" for u
  proof -
    obtain i where "i < length us" "us ! i = u" using \<open>u \<in> set us\<close> by (auto simp: in_set_conv_nth)
    then have "ts ! i \<in> set ts" "unblocked_from D (ts ! i) u" using rel by (auto simp: list_all2_conv_all_nth)
    then obtain t where t: "t \<in> set ts" "unblocked_from D t u" by blast
    then have "task_ok ts t" using ok by (simp add: board_ok_def list_all_iff)
    with t(2) show ?thesis unfolding task_ok_def unblocked_from_def ids
      by (elim conjE disjE) (simp_all del: set_map not_None_eq)
  qed
  then show ?thesis using ok cyc ids list_all2_lengthD [OF rel]
    by (simp add: board_ok_def list_all_iff)
qed

section \<open>Properties\<close>

text \<open>C4. A board stays well formed under every action, accepted or refused: task ids are distinct, the
  board holds at most 500 tasks, dependencies name tasks of the board and form no cycle, and a task
  has a completion time exactly when it is done.\<close>

theorem task_board_invariant:
  assumes "board_ok tasks" and "newId \<notin> set (map task_id tasks)"
  shows "board_ok (snd (applyTaskAction now newId s cs action payload tasks))"
proof -
  obtain r ts where ch: "task_change now newId s cs action payload tasks = (r, ts)" by fastforce
  have "board_ok (snd (task_change now newId s cs action payload tasks))"
    using task_create_ok assms task_update_ok by (simp add: task_change_def)
  then have ts: "board_ok ts" using ch by simp
  obtain un us where un: "unblock now ts = (un, us)" by fastforce
  have "board_ok us" using board_ok_unblocked [OF ts] unblock_all(1) [OF un] .
  with ts assms(1) ch un show ?thesis by (cases r) (simp_all add: applyTaskAction_def)
qed

definition demo_board :: "task_item list" where
  "demo_board =
     [new_task 1 ''a'' ''A'' [] Backlog PrioNormal [] None,
      new_task 2 ''b'' ''B'' [] Blocked PrioHigh [''a''] None]"

lemma demo_board_ok: "board_ok demo_board"
  by (simp add: demo_board_def board_ok_def task_ok_def new_task_def taskGraphHasCycle_def dfs_cyclic_def
      task_fuel_def task_succs_def find_task_def eval_nat_numeral)

lemma task_board_invariant_witness:
  "board_ok (snd (applyTaskAction 5 ''c'' ''s'' [] ''create''
     [(''title'', JStr ''C''), (''dependsOn'', JArr [JStr ''b'']), (''status'', JStr ''ready'')] demo_board))"
  by (rule task_board_invariant [OF demo_board_ok]) (simp add: demo_board_def new_task_def)

text \<open>C9. The cycle test of the board always finishes and is exact: it reports a cycle just when the
  dependency relation has one.\<close>

theorem task_cycle_exact:
  "dfs_visit_all (task_succs tasks) (task_fuel tasks) (map task_id tasks) [] \<noteq> None
   \<and> (taskGraphHasCycle tasks \<longleftrightarrow> \<not> acyclic {(x, y). y \<in> set (task_succs tasks x)})"
  using task_graph_dfs unfolding edges_def by blast

lemma update_task_find:
  "(\<And>t. task_id (f t) = task_id t) \<Longrightarrow>
   find_task j (update_task i f tasks) = (if j = i then map_option f (find_task i tasks) else find_task j tasks)"
  unfolding update_task_def find_task_def by (induction tasks) auto

lemma stamped_simps [simp]:
  "task_id (stamped now t) = task_id t" "task_status (stamped now t) = task_status t"
  "dependsOn (stamped now t) = dependsOn t"
  by (simp_all add: stamped_def)

text \<open>The dependencies of a task do not include the task, so giving it a status does not change whether
  they are done.\<close>

lemma dependenciesDone_other:
  assumes "i \<notin> set ids" and "\<And>t. task_id (f t) = task_id t"
  shows "dependenciesDone ids (update_task i f tasks) = dependenciesDone ids tasks"
proof -
  have "j \<in> set ids \<Longrightarrow> find_task j (update_task i f tasks) = find_task j tasks" for j
    using assms by (auto simp: update_task_find)
  then show ?thesis unfolding dependenciesDone_def list_all_iff by auto
qed

lemma unblocked_find_some:
  "list_all2 (unblocked_from D) ts us \<Longrightarrow> find_task i ts = Some t \<Longrightarrow>
   \<exists>u. find_task i us = Some u \<and> unblocked_from D t u"
  by (induction rule: list_all2_induct) (auto simp: find_task_def unblocked_from_def split: if_splits)

definition task_startable :: "task_item list \<Rightarrow> id \<Rightarrow> bool" where
  "task_startable tasks i =
     (case find_task i tasks of None \<Rightarrow> False
      | Some t \<Rightarrow> requiresFinishedDependencies (task_status t) \<longrightarrow> dependenciesDone (dependsOn t) tasks)"

lemma startable_unblock:
  assumes un: "unblock now ts = (un, us)" and st: "task_startable ts i"
  shows "task_startable us i"
proof -
  note rel = unblock_all(1) [OF un]
  obtain t where t: "find_task i ts = Some t" using st by (auto simp: task_startable_def split: option.splits)
  then obtain u where u: "find_task i us = Some u"
      "unblocked_from (\<lambda>ids. dependenciesDone ids ts) t u"
    using unblocked_find_some [OF rel] by blast
  have "requiresFinishedDependencies (task_status u) \<Longrightarrow> dependenciesDone (dependsOn u) ts"
    using u(2) st t by (auto simp: unblocked_from_def task_startable_def)
  then show ?thesis using u(1) unblocked_done [OF rel] by (simp add: task_startable_def)
qed

lemma board_no_self: "board_ok tasks \<Longrightarrow> find_task i tasks = Some t \<Longrightarrow> i \<notin> set (dependsOn t)"
proof
  assume "board_ok tasks" "find_task i tasks = Some t" "i \<in> set (dependsOn t)"
  then have "(i, i) \<in> edges (task_succs tasks)" "acyclic (edges (task_succs tasks))"
    by (simp_all add: edges_def task_succs_def board_ok_def task_graph_dfs)
  then show False by (auto simp: acyclic_def)
qed

lemma startable_tail:
  assumes ok: "board_ok ts" and found: "find_task i ts = Some t"
  shows "task_startable (update_task i (\<lambda>t. stamped now (t\<lparr>task_status := new_status v ts t\<rparr>)) ts) i"
proof -
  have "dependenciesDone (dependsOn t) (update_task i (\<lambda>t. stamped now (t\<lparr>task_status := new_status v ts t\<rparr>)) ts)
      = dependenciesDone (dependsOn t) ts"
    using board_no_self [OF ok found] by (intro dependenciesDone_other) simp_all
  moreover have "requiresFinishedDependencies (new_status v ts t) \<Longrightarrow> dependenciesDone (dependsOn t) ts"
    by (auto simp: new_status_def Let_def requiresFinishedDependencies_def split: if_splits)
  ultimately show ?thesis using found by (simp add: task_startable_def update_task_find)
qed

lemma update_task_keeps:
  "(\<And>t. task_id (g t) = task_id t) \<Longrightarrow> find_task j ts \<noteq> None \<Longrightarrow> find_task j (update_task i g ts) \<noteq> None"
  by (auto simp: update_task_find)

lemma steps_keep_task:
  assumes "find_task j ts \<noteq> None"
  shows "find_task j (snd (update_title v i ts)) \<noteq> None"
    and "find_task j (snd (update_description v i ts)) \<noteq> None"
    and "find_task j (snd (update_priority v i ts)) \<noteq> None"
    and "find_task j (snd (update_dependsOn v i ts)) \<noteq> None"
    and "find_task j (snd (update_assignee s cs v i ts)) \<noteq> None"
  using assms update_task_keeps [OF _ assms, of _ i]
  by (simp_all add: update_title_def update_description_def update_priority_def update_dependsOn_def
        update_assignee_def Let_def del: not_None_eq split: option.split sum.split)

lemma update_steps_startable:
  assumes ok: "board_ok tasks" and found: "find_task i tasks \<noteq> None"
    and run: "run_steps (update_steps now s cs payload i) tasks = (Inr u, ts)"
  shows "task_startable ts i"
proof -
  let ?head = "[update_title (map_of payload ''title'') i,
              update_description (map_of payload ''description'') i,
              update_priority (map_of payload ''priority'') i,
              update_dependsOn (map_of payload ''dependsOn'') i,
              update_assignee s cs (map_of payload ''assigneeSessionId'') i]"
  let ?tail = "[update_status (map_of payload ''status'') i, update_stamp now i]"
  let ?P = "\<lambda>ts. board_ok ts \<and> find_task i ts \<noteq> None"
  have split: "update_steps now s cs payload i = ?head @ ?tail" by (simp add: update_steps_def)
  obtain r mid where head: "run_steps ?head tasks = (r, mid)" by fastforce
  have "?P (snd (run_steps ?head tasks))"
    using ok found
    by (rule_tac run_steps_inv [rotated]) (auto simp: inv_intros steps_keep_task [simplified])
  then have mid: "board_ok mid" "find_task i mid \<noteq> None" using head by simp_all
  from run have "run_steps ?tail mid = (Inr u, ts)"
    unfolding split run_steps_append head by (simp del: run_steps.simps split: sum.splits)
  then have "ts = update_task i (\<lambda>t. stamped now (t\<lparr>task_status := new_status (map_of payload ''status'') mid t\<rparr>)) mid"
    unfolding update_tail by (simp split: if_splits)
  then show ?thesis using startable_tail mid by blast
qed

lemma task_change_startable:
  assumes ok: "board_ok tasks" and new: "newId \<notin> set (map task_id tasks)"
    and ch: "task_change now newId s cs action payload tasks = (Inr i, ts)"
  shows "task_startable ts i"
proof (cases "action = ''create''")
  case True
  then have "task_create now newId s cs payload tasks = (Inr i, ts)" using ch by (simp add: task_change_def)
  then show ?thesis
  proof (cases rule: task_create_cases)
    case (created t)
    have none: "find_task newId tasks = None" using new find_task_None by blast
    have "j \<in> set (dependsOn t) \<Longrightarrow> find_task j (tasks @ [t]) = find_task j tasks" for j
      using taskDependencies_ok(1) [OF created(5)] none find_task_None [of j tasks]
      by (auto simp: find_task_snoc simp del: set_map split: option.split)
    then have "dependenciesDone (dependsOn t) (tasks @ [t]) = dependenciesDone (dependsOn t) tasks"
      unfolding dependenciesDone_def list_all_iff by auto
    then show ?thesis using created none by (simp add: task_startable_def find_task_snoc)
  qed simp
next
  case False
  then have "task_update now s cs payload tasks = (Inr i, ts)"
    using ch by (simp add: task_change_def split: if_splits)
  then have "i = payload_id payload" "find_task i tasks \<noteq> None"
    "run_steps (update_steps now s cs payload i) tasks = (Inr (), ts)"
    by (auto simp: task_update_def Let_def split: option.splits prod.splits sum.splits)
  then show ?thesis using update_steps_startable [OF ok] by blast
qed

text \<open>After an accepted create or update, the changed task is only ready, in progress, in review or done
  when all its dependencies are done, and no task of the board is left blocked with every dependency
  done.\<close>

theorem task_change_unblocks:
  assumes "board_ok tasks" and "newId \<notin> set (map task_id tasks)"
    and "applyTaskAction now newId s cs action payload tasks = (Inr (TaskChanged i un listing), tasks')"
  shows "task_startable tasks' i \<and> list_all (\<lambda>t. \<not> stuck tasks' t) tasks'"
proof -
  obtain r ts where ch: "task_change now newId s cs action payload tasks = (r, ts)" by fastforce
  obtain un' us where un: "unblock now ts = (un', us)" by fastforce
  from assms(3) ch un have "r = Inr i" "tasks' = us"
    by (auto simp: applyTaskAction_def split: if_splits sum.splits)
  then show ?thesis
    using startable_unblock [OF un] task_change_startable [OF assms(1,2)] ch unblock_all(2) [OF un]
    by (auto simp: list_all_iff)
qed

lemma task_change_unblocks_witness:
  "\<exists>un listing tasks'. applyTaskAction 5 ''c'' ''s'' [] ''update''
      [(''id'', JStr ''a''), (''status'', JStr ''done'')] demo_board = (Inr (TaskChanged ''a'' un listing), tasks')
    \<and> un = [''b''] \<and> task_startable tasks' ''a'' \<and> list_all (\<lambda>t. \<not> stuck tasks' t) tasks'"
proof -
  let ?r = "applyTaskAction 5 ''c'' ''s'' [] ''update''
      [(''id'', JStr ''a''), (''status'', JStr ''done'')] demo_board"
  have "fst ?r = Inr (TaskChanged ''a'' [''b''] (sortTasks (snd ?r)))"
    by (simp add: demo_board_def new_task_def applyTaskAction_def task_change_def task_update_def payload_id_def
        update_steps_def update_title_def update_description_def update_priority_def update_dependsOn_def
        update_assignee_def update_status_def update_stamp_def update_task_def find_task_def status_of_def
        TASK_STATUSES_def requiresFinishedDependencies_def dependenciesDone_def unblock_def unblock_at_def
        stuck_def upt_rec Let_def)
  then have r: "?r = (Inr (TaskChanged ''a'' [''b''] (sortTasks (snd ?r))), snd ?r)" by (metis prod.collapse)
  from task_change_unblocks [OF demo_board_ok _ r] r show ?thesis
    by (auto simp: demo_board_def new_task_def)
qed

text \<open>A refused update is not undone: the fields before the one that is refused keep their new values.
  Here a valid title is followed by an unknown status; the call throws, and the board it leaves, which
  the session then saves, has the new title.\<close>

theorem task_update_refused_keeps_fields:
  assumes "find_task (payload_id payload) tasks \<noteq> None"
    and "map_of payload ''title'' = Some (JStr s)" and "js_trim s \<noteq> []" and "length (js_trim s) \<le> 300"
    and "map_of payload ''description'' = None" and "map_of payload ''priority'' = None"
    and "map_of payload ''dependsOn'' = None" and "map_of payload ''assigneeSessionId'' = None"
    and "map_of payload ''status'' = Some v" and "status_of (Some v) = None"
  shows "applyTaskAction now newId sid cs ''update'' payload tasks
    = (throw BadStatus, update_task (payload_id payload) (\<lambda>t. t\<lparr>title := js_trim s\<rparr>) tasks)"
proof -
  have "run_steps (update_steps now sid cs payload (payload_id payload)) tasks
      = (throw BadStatus, update_task (payload_id payload) (\<lambda>t. t\<lparr>title := js_trim s\<rparr>) tasks)"
    using assms(2-)
    by (simp add: update_steps_def update_title_def update_description_def update_priority_def
        update_dependsOn_def update_assignee_def update_status_def trimmed_def Let_def)
  then have "task_update now sid cs payload tasks
      = (throw BadStatus, update_task (payload_id payload) (\<lambda>t. t\<lparr>title := js_trim s\<rparr>) tasks)"
    using assms(1) by (auto simp: task_update_def Let_def)
  then show ?thesis by (simp add: applyTaskAction_def task_change_def)
qed

lemma task_update_refused_keeps_fields_witness:
  "applyTaskAction 5 ''c'' ''s'' [] ''update''
     [(''id'', JStr ''a''), (''title'', JStr ''X''), (''status'', JStr ''nope'')] demo_board
   = (throw BadStatus, update_task ''a'' (\<lambda>t. t\<lparr>title := ''X''\<rparr>) demo_board)"
  by (subst task_update_refused_keeps_fields [where s = "''X''" and v = "JStr ''nope''"])
    (simp_all add: payload_id_def demo_board_def new_task_def find_task_def js_trim_def js_ws_def
      status_of_def TASK_STATUSES_def)

end
