(* ===== verification/Continuation.thy ===== *)
theory Continuation
  imports Types JsText
begin

text \<open>
  Whether a session goes on by itself after a turn, \<^verbatim>\<open>runtime/continuation-policy.ts\<close>. The shell
  gates and the workspace fingerprint are run by the capability broker: they are parameters,
  \<open>run_gate\<close> and \<open>fingerprint\<close>, \<open>None\<close> when the capability throws.
\<close>

datatype continuation_reason =
    Disabled | GoalIsActive | AutonomousNoGate | GateFailed | GatesPassed | LimitReached | GoalIsCompleted

record continuation_decision =
  continues :: bool
  reason :: continuation_reason
  prompt :: "string option"
  limit :: "string option"

definition stop_with :: "continuation_reason \<Rightarrow> string option \<Rightarrow> continuation_decision" where
  "stop_with r l = \<lparr>continues = False, reason = r, prompt = None, limit = l\<rparr>"

definition go_on :: "continuation_reason \<Rightarrow> string \<Rightarrow> continuation_decision" where
  "go_on r p = \<lparr>continues = True, reason = r, prompt = Some p, limit = None\<rparr>"

definition autonomousLimit :: "autonomous_state \<Rightarrow> msec \<Rightarrow> string option" where
  "autonomousLimit state now =
     (if continuationsUsed state \<ge> maxContinuations state then Some ''max_continuations''
      else if turnsUsed state \<ge> maxTurns state then Some ''max_turns''
      else if tokensUsed state \<ge> maxTokens state then Some ''max_tokens''
      else if (case startedAt state of None \<Rightarrow> False | Some t \<Rightarrow> now - t \<ge> timeoutMs state) then Some ''timeout''
      else None)"

definition goalLimit :: "goal_state \<Rightarrow> string option" where
  "goalLimit goal =
     (if (case goal_tokenBudget goal of None \<Rightarrow> False | Some b \<Rightarrow> goal_tokensUsed goal \<ge> b)
      then Some ''goal_token_budget''
      else if goal_continuationCount goal \<ge> goal_maxContinuations goal then Some ''goal_max_continuations''
      else None)"

definition goal_is :: "goal_status \<Rightarrow> goal_state option \<Rightarrow> bool" where
  "goal_is s goal = (case goal of None \<Rightarrow> False | Some g \<Rightarrow> goal_status g = s)"

definition attempts_of :: "autonomous_state \<Rightarrow> string \<Rightarrow> int" where
  "attempts_of a command = (case map_get (gateAttempts a) command of None \<Rightarrow> 0 | Some n \<Rightarrow> n)"

definition unchanged_since_failure :: "string \<Rightarrow> string \<Rightarrow> autonomous_state \<Rightarrow> bool" where
  "unchanged_since_failure fingerprint command a \<longleftrightarrow>
     (case lastGateFailure a of None \<Rightarrow> False | Some f \<Rightarrow> gate_command f = command)
     \<and> lastGateFingerprint a = Some fingerprint"

definition last_output :: "autonomous_state \<Rightarrow> string" where
  "last_output a = (case lastGateFailure a of None \<Rightarrow> [] | Some f \<Rightarrow> gate_output f)"

text \<open>The loop over the gates: \<open>None\<close> as a decision is a gate that throws out of it; the counters
  already changed stay changed.\<close>

fun run_gates ::
    "(string \<Rightarrow> int \<Rightarrow> gate_result option) \<Rightarrow> string \<Rightarrow> string list \<Rightarrow> autonomous_state
       \<Rightarrow> continuation_decision option \<times> autonomous_state" where
  "run_gates run_gate fingerprint [] a =
     (Some (stop_with GatesPassed None), a\<lparr>lastGateFailure := None, lastGateFingerprint := None\<rparr>)"
| "run_gates run_gate fingerprint (command # rest) a =
     (let attempts = attempts_of a command in
      if attempts \<ge> gateMaxRetries a then (Some (stop_with LimitReached (Some (''gate_retries:'' @ command))), a)
      else if unchanged_since_failure fingerprint command a then
        (let a' = a\<lparr>gateAttempts := map_set command (attempts + 1) (gateAttempts a)\<rparr> in
         if attempts + 1 \<ge> gateMaxRetries a
         then (Some (stop_with LimitReached (Some (''unchanged_workspace:'' @ command))), a')
         else (Some (go_on GateFailed (''The quality gate '' @ json_quote command
             @ '' was not rerun because the workspace is unchanged since its failure. Change the implementation before retrying. Previous output:''
             @ newline @ last_output a)), a'))
      else
        (case run_gate command (gateTimeoutMs a) of
           None \<Rightarrow> (None, a)
         | Some result \<Rightarrow>
             if gate_exitCode result \<noteq> Some 0 then
               (Some (go_on GateFailed (''Quality gate '' @ json_quote command @ '' failed with exit code ''
                   @ (case gate_exitCode result of None \<Rightarrow> ''null'' | Some n \<Rightarrow> show_int n)
                   @ ''. Fix the failure and verify again. Bounded output:'' @ newline @ gate_output result)),
                a\<lparr>gateAttempts := map_set command (attempts + 1) (gateAttempts a),
                  lastGateFailure := Some result, lastGateFingerprint := Some fingerprint\<rparr>)
             else run_gates run_gate fingerprint rest
                    (a\<lparr>gateAttempts := map_set command 0 (gateAttempts a)\<rparr>)))"

text \<open>\<^verbatim>\<open>evaluateContinuation\<close> with the state it may change, the autonomous state.\<close>

definition evaluateContinuation ::
    "msec \<Rightarrow> (string \<Rightarrow> int \<Rightarrow> gate_result option) \<Rightarrow> string option \<Rightarrow> goal_state option
       \<Rightarrow> autonomous_state option \<Rightarrow> continuation_decision option \<times> autonomous_state option" where
  "evaluateContinuation now run_gate workspaceFingerprint goal autonomous =
     (if goal_is GoalCompleted goal then (Some (stop_with GoalIsCompleted None), autonomous)
      else
        let goalLimitReason = (case goal of None \<Rightarrow> None
              | Some g \<Rightarrow> if goal_status g = GoalActive then goalLimit g else None)
        in if goalLimitReason \<noteq> None then (Some (stop_with LimitReached goalLimitReason), autonomous)
        else
          (case autonomous of
             None \<Rightarrow> (Some (if goal_is GoalActive goal
                       then go_on GoalIsActive (''Continue working on the persistent goal: '' @ goal_objective (the goal)
                         @ ''. Mark it complete only with goal.complete and include verifiable evidence.'')
                       else stop_with Disabled None), None)
           | Some a \<Rightarrow>
               if \<not> enabled a
               then (Some (if goal_is GoalActive goal
                       then go_on GoalIsActive (''Continue working on the persistent goal: '' @ goal_objective (the goal)
                         @ ''. Mark it complete only with goal.complete and include verifiable evidence.'')
                       else stop_with Disabled None), Some a)
               else if autonomousLimit a now \<noteq> None
               then (Some (stop_with LimitReached (autonomousLimit a now)), Some a)
               else if gates a = []
               then (Some (go_on AutonomousNoGate (continuationPrompt a)), Some a)
               else
                 (case workspaceFingerprint of
                    None \<Rightarrow> (None, Some a)
                  | Some fingerprint \<Rightarrow>
                      (case run_gates run_gate fingerprint (gates a) a of
                         (d, a') \<Rightarrow> (d, Some a')))))"

section \<open>Gates\<close>

lemma decision_simps [simp]:
  "continues (stop_with r l) = False" "reason (stop_with r l) = r" "limit (stop_with r l) = l"
  "continues (go_on r p) = True" "reason (go_on r p) = r" "prompt (go_on r p) = Some p"
  by (simp_all add: stop_with_def go_on_def)

text \<open>The loop changes only the gate counters and the memory of the last failure.\<close>

lemma run_gates_frame:
  assumes "run_gates rg fp cs a = (d, a')"
  shows "enabled a' = enabled a \<and> maxContinuations a' = maxContinuations a
    \<and> continuationsUsed a' = continuationsUsed a \<and> turnsUsed a' = turnsUsed a \<and> tokensUsed a' = tokensUsed a
    \<and> maxTurns a' = maxTurns a \<and> maxTokens a' = maxTokens a \<and> gates a' = gates a
    \<and> gateMaxRetries a' = gateMaxRetries a"
  using assms
  by (induction rg fp cs a rule: run_gates.induct)
    (force simp: Let_def split: if_splits option.splits)+

lemma run_gates_passed:
  "run_gates rg fp cs a = (Some d, a') \<Longrightarrow> reason d = GatesPassed \<Longrightarrow>
   list_all (\<lambda>c. \<exists>r. rg c (gateTimeoutMs a) = Some r \<and> gate_exitCode r = Some 0) cs
   \<and> lastGateFailure a' = None"
  by (induction rg fp cs a rule: run_gates.induct)
    (force simp: Let_def split: if_splits option.splits)+

section \<open>The loop of a turn\<close>

text \<open>What \<^verbatim>\<open>runPrompt\<close> counts when it goes on (\<^verbatim>\<open>runtime/session-actor.ts\<close>).\<close>

definition count_autonomous :: "autonomous_state option \<Rightarrow> autonomous_state option" where
  "count_autonomous = map_option (\<lambda>a. if enabled a then a\<lparr>continuationsUsed := continuationsUsed a + 1\<rparr> else a)"

definition count_goal :: "goal_state option \<Rightarrow> goal_state option" where
  "count_goal = map_option (\<lambda>g. if goal_status g = GoalActive
     then g\<lparr>goal_continuationCount := goal_continuationCount g + 1\<rparr> else g)"

text \<open>How often a turn goes on by itself: each element of the list is the environment of one
  evaluation (time, gates, fingerprint).\<close>

fun continuation_rounds ::
    "(msec \<times> (string \<Rightarrow> int \<Rightarrow> gate_result option) \<times> string option) list \<Rightarrow> goal_state option
       \<Rightarrow> autonomous_state option \<Rightarrow> nat" where
  "continuation_rounds [] goal autonomous = 0"
| "continuation_rounds ((now, run_gate, fp) # es) goal autonomous =
     (case evaluateContinuation now run_gate fp goal autonomous of
        (None, _) \<Rightarrow> 0
      | (Some d, autonomous') \<Rightarrow>
          if continues d \<and> prompt d \<noteq> None
          then Suc (continuation_rounds es (count_goal goal) (count_autonomous autonomous')) else 0)"

lemma evaluate_continues:
  assumes "evaluateContinuation now rg fp goal autonomous = (Some d, autonomous')" and "continues d"
  shows "\<not> goal_is GoalCompleted goal"
    and "\<And>g. goal = Some g \<Longrightarrow> goal_status g = GoalActive \<Longrightarrow> goalLimit g = None"
    and "\<And>a. autonomous = Some a \<Longrightarrow> enabled a \<Longrightarrow> autonomousLimit a now = None
      \<and> (\<exists>a'. autonomous' = Some a' \<and> enabled a' \<and> maxContinuations a' = maxContinuations a
           \<and> continuationsUsed a' = continuationsUsed a)"
    and "\<not> (\<exists>a. autonomous = Some a \<and> enabled a) \<Longrightarrow> goal_is GoalActive goal \<and> autonomous' = autonomous"
proof -
  show "\<not> goal_is GoalCompleted goal"
    using assms by (auto simp: evaluateContinuation_def)
  show "goal = Some g \<Longrightarrow> goal_status g = GoalActive \<Longrightarrow> goalLimit g = None" for g
    using assms by (auto simp: evaluateContinuation_def Let_def split: if_splits)
  show "autonomous = Some a \<Longrightarrow> enabled a \<Longrightarrow> autonomousLimit a now = None
      \<and> (\<exists>a'. autonomous' = Some a' \<and> enabled a' \<and> maxContinuations a' = maxContinuations a
           \<and> continuationsUsed a' = continuationsUsed a)" for a
    using assms run_gates_frame
    by (fastforce simp: evaluateContinuation_def Let_def split: if_splits option.splits prod.splits)
  show "\<not> (\<exists>a. autonomous = Some a \<and> enabled a) \<Longrightarrow> goal_is GoalActive goal \<and> autonomous' = autonomous"
    using assms
    by (cases autonomous) (auto simp: evaluateContinuation_def Let_def split: if_splits)
qed

lemma goalLimit_room: "goalLimit g = None \<Longrightarrow> goal_continuationCount g < goal_maxContinuations g"
  by (auto simp: goalLimit_def split: if_splits)

lemma autonomousLimit_room:
  "autonomousLimit a now = None \<Longrightarrow> continuationsUsed a < maxContinuations a \<and> turnsUsed a < maxTurns a
     \<and> tokensUsed a < maxTokens a \<and> (\<forall>t. startedAt a = Some t \<longrightarrow> now - t < timeoutMs a)"
  by (auto simp: autonomousLimit_def split: if_splits option.splits)

lemma nat_room: "r \<le> nat (m - (c + 1)) \<Longrightarrow> c < m \<Longrightarrow> Suc r \<le> nat (m - c)" for c m :: int
  by linarith

lemma rounds_autonomous:
  "enabled a \<Longrightarrow> continuation_rounds es goal (Some a) \<le> nat (maxContinuations a - continuationsUsed a)"
proof (induction es arbitrary: goal a)
  case (Cons e es)
  obtain now rg fp where e: "e = (now, rg, fp)" by (cases e)
  obtain d a1 where ev: "evaluateContinuation now rg fp goal (Some a) = (d, a1)" by fastforce
  show ?case
  proof (cases "\<exists>d'. d = Some d' \<and> continues d' \<and> prompt d' \<noteq> None")
    case True
    then obtain d' where d: "d = Some d'" "continues d'" "prompt d' \<noteq> None" by blast
    from evaluate_continues(3) [OF ev [unfolded d(1)] d(2) refl Cons.prems] obtain a' where
      room: "autonomousLimit a now = None" and a': "a1 = Some a'" "enabled a'"
        "maxContinuations a' = maxContinuations a" "continuationsUsed a' = continuationsUsed a" by blast
    have "continuation_rounds es (count_goal goal) (count_autonomous a1)
        \<le> nat (maxContinuations a - (continuationsUsed a + 1))"
      using Cons.IH [of "a'\<lparr>continuationsUsed := continuationsUsed a' + 1\<rparr>" "count_goal goal"] a'
      by (simp add: count_autonomous_def)
    then show ?thesis using e ev d autonomousLimit_room [OF room] nat_room by simp
  next
    case False
    then show ?thesis using e ev by (auto split: option.split)
  qed
qed simp

lemma rounds_goal:
  "goal_status g = GoalActive \<Longrightarrow>
   continuation_rounds es (Some g) autonomous \<le> nat (goal_maxContinuations g - goal_continuationCount g)"
proof (induction es arbitrary: g autonomous)
  case (Cons e es)
  obtain now rg fp where e: "e = (now, rg, fp)" by (cases e)
  obtain d a1 where ev: "evaluateContinuation now rg fp (Some g) autonomous = (d, a1)" by fastforce
  show ?case
  proof (cases "\<exists>d'. d = Some d' \<and> continues d' \<and> prompt d' \<noteq> None")
    case True
    then obtain d' where d: "d = Some d'" "continues d'" "prompt d' \<noteq> None" by blast
    have room: "goalLimit g = None"
      using evaluate_continues(2) [OF ev [unfolded d(1)] d(2) refl Cons.prems] .
    have "continuation_rounds es (count_goal (Some g)) (count_autonomous a1)
        \<le> nat (goal_maxContinuations g - (goal_continuationCount g + 1))"
      using Cons.IH [of "g\<lparr>goal_continuationCount := goal_continuationCount g + 1\<rparr>" "count_autonomous a1"] Cons.prems
      by (simp add: count_goal_def)
    then show ?thesis using e ev d goalLimit_room [OF room] by simp
  next
    case False
    then show ?thesis using e ev by (auto split: option.split)
  qed
qed simp

section \<open>Properties\<close>


definition demo_autonomous :: autonomous_state where
  "demo_autonomous = \<lparr>enabled = True, maxContinuations = 1, maxTurns = 12, maxTokens = 80000, timeoutMs = 1000,
     continuationPrompt = ''go'', gates = [''make test''], gateTimeoutMs = 10, gateMaxRetries = 3,
     continuationsUsed = 0, turnsUsed = 0, tokensUsed = 0, startedAt = Some 0, gateAttempts = [],
     lastGateFingerprint = None, lastGateFailure = None\<rparr>"

definition demo_gate :: "int \<Rightarrow> string \<Rightarrow> int \<Rightarrow> gate_result option" where
  "demo_gate code = (\<lambda>c t. Some \<lparr>gate_command = c, gate_exitCode = Some code, gate_output = ''out''\<rparr>)"


text \<open>The gates count as passed only when every one of them was run in this evaluation and exited with
  code 0, none being skipped for an unchanged workspace; and then the memory of a failure is cleared.\<close>

theorem gates_passed_sound:
  assumes "evaluateContinuation now rg fp goal (Some a) = (Some d, a')" and "reason d = GatesPassed"
  shows "list_all (\<lambda>c. \<exists>r. rg c (gateTimeoutMs a) = Some r \<and> gate_exitCode r = Some 0) (gates a)
    \<and> gates a \<noteq> [] \<and> map_option lastGateFailure a' = Some None"
proof -
  obtain f where f: "fp = Some f" "gates a \<noteq> []" "run_gates rg f (gates a) a = (Some d, the a')" "a' \<noteq> None"
    using assms by (auto simp: evaluateContinuation_def Let_def split: if_splits option.splits prod.splits)
  then show ?thesis using run_gates_passed [OF f(3) assms(2)] by auto
qed

lemma gates_passed_sound_witness:
  "\<exists>d a'. evaluateContinuation 1 (demo_gate 0) (Some ''f'') None (Some demo_autonomous) = (Some d, a')
    \<and> reason d = GatesPassed \<and> map_option lastGateFailure a' = Some None"
proof -
  let ?a = "demo_autonomous\<lparr>gateAttempts := [(''make test'', 0)]\<rparr>"
  have ev: "evaluateContinuation 1 (demo_gate 0) (Some ''f'') None (Some demo_autonomous)
      = (Some (stop_with GatesPassed None), Some ?a)"
    by (simp add: demo_autonomous_def demo_gate_def evaluateContinuation_def goal_is_def autonomousLimit_def
        attempts_of_def unchanged_since_failure_def Let_def)
  from gates_passed_sound [OF ev] ev show ?thesis by simp
qed

end
