(* ===== verification/Effects.thy ===== *)
theory Effects
  imports Prelude
begin

text \<open>
  Code that changes a state and may throw: a procedure maps a state to a result and the state it
  leaves, also when it throws, since an exception in JavaScript undoes nothing. Statements are put in
  sequence with \<open>and_then\<close>, loops over arrays are \<open>for_each\<close>; the lemmas carry an invariant of the state
  through them.
\<close>

type_synonym ('s, 'e, 'a) proc = "'s \<Rightarrow> ('e, 'a) result \<times> 's"

definition ret :: "'a \<Rightarrow> ('s, 'e, 'a) proc" where
  "ret a s = (ok a, s)"

definition raise :: "'e \<Rightarrow> ('s, 'e, 'a) proc" where
  "raise e s = (throw e, s)"

definition modify :: "('s \<Rightarrow> 's) \<Rightarrow> ('s, 'e, unit) proc" where
  "modify f s = (ok (), f s)"

definition reads :: "('s \<Rightarrow> 'a) \<Rightarrow> ('s, 'e, 'a) proc" where
  "reads f s = (ok (f s), s)"

definition and_then :: "('s, 'e, 'a) proc \<Rightarrow> ('a \<Rightarrow> ('s, 'e, 'b) proc) \<Rightarrow> ('s, 'e, 'b) proc" where
  "and_then f g s = (case f s of (Inl e, s') \<Rightarrow> (throw e, s') | (Inr a, s') \<Rightarrow> g a s')"

fun for_each :: "'a list \<Rightarrow> ('a \<Rightarrow> ('s, 'e, unit) proc) \<Rightarrow> ('s, 'e, unit) proc" where
  "for_each [] f s = (ok (), s)"
| "for_each (x # xs) f s = (case f x s of (Inl e, s') \<Rightarrow> (throw e, s') | (Inr _, s') \<Rightarrow> for_each xs f s')"

text \<open>A procedure keeps \<open>R\<close> between the state before and the state after, whether it throws or not.\<close>

definition keeps :: "('s \<Rightarrow> 's \<Rightarrow> bool) \<Rightarrow> ('s, 'e, 'a) proc \<Rightarrow> bool" where
  "keeps R f \<longleftrightarrow> (\<forall>s. R s (snd (f s)))"

definition preorder_rel :: "('s \<Rightarrow> 's \<Rightarrow> bool) \<Rightarrow> bool" where
  "preorder_rel R \<longleftrightarrow> (\<forall>s. R s s) \<and> (\<forall>s t u. R s t \<longrightarrow> R t u \<longrightarrow> R s u)"

lemma keepsD: "keeps R f \<Longrightarrow> f s = (r, s') \<Longrightarrow> R s s'"
  by (metis keeps_def snd_conv)

lemma keeps_ret: "preorder_rel R \<Longrightarrow> keeps R (ret a)"
  by (simp add: keeps_def ret_def preorder_rel_def)

lemma keeps_raise: "preorder_rel R \<Longrightarrow> keeps R (raise e)"
  by (simp add: keeps_def raise_def preorder_rel_def)

lemma keeps_reads: "preorder_rel R \<Longrightarrow> keeps R (reads f)"
  by (simp add: keeps_def reads_def preorder_rel_def)

lemma keeps_modify: "(\<And>s. R s (f s)) \<Longrightarrow> keeps R (modify f)"
  by (simp add: keeps_def modify_def)

lemma keeps_and_then:
  assumes R: "preorder_rel R" and f: "keeps R f" and g: "\<And>a. keeps R (g a)"
  shows "keeps R (and_then f g)"
  unfolding keeps_def
proof
  fix s
  obtain r s' where fs: "f s = (r, s')" by fastforce
  have "R s s'" using keepsD [OF f fs] .
  moreover have "R s' (snd (g a s'))" for a using g [of a] by (simp add: keeps_def)
  ultimately show "R s (snd (and_then f g s))"
    using R fs by (cases r) (auto simp: and_then_def preorder_rel_def)
qed

lemma keeps_for_each:
  assumes R: "preorder_rel R" and f: "\<And>x. x \<in> set xs \<Longrightarrow> keeps R (f x)"
  shows "keeps R (for_each xs f)"
  unfolding keeps_def
proof
  fix s
  show "R s (snd (for_each xs f s))" using f
  proof (induction xs arbitrary: s)
    case Nil
    then show ?case using R by (simp add: preorder_rel_def)
  next
    case (Cons x xs)
    obtain r s' where fs: "f x s = (r, s')" by fastforce
    have "R s s'" using keepsD [OF Cons.prems fs] by simp
    moreover have "R s' (snd (for_each xs f s'))" using Cons by simp
    ultimately show ?case using R fs by (cases r) (auto simp: preorder_rel_def)
  qed
qed

lemma keeps_if: "(b \<Longrightarrow> keeps R f) \<Longrightarrow> (\<not> b \<Longrightarrow> keeps R g) \<Longrightarrow> keeps R (if b then f else g)"
  by simp

lemma keeps_option:
  "(x = None \<Longrightarrow> keeps R f) \<Longrightarrow> (\<And>a. x = Some a \<Longrightarrow> keeps R (g a)) \<Longrightarrow>
   keeps R (case x of None \<Rightarrow> f | Some a \<Rightarrow> g a)"
  by (cases x) auto

lemma keeps_sum:
  "(\<And>e. x = Inl e \<Longrightarrow> keeps R (f e)) \<Longrightarrow> (\<And>a. x = Inr a \<Longrightarrow> keeps R (g a)) \<Longrightarrow>
   keeps R (case x of Inl e \<Rightarrow> f e | Inr a \<Rightarrow> g a)"
  by (cases x) auto

lemma keeps_prod:
  "(\<And>a b. x = (a, b) \<Longrightarrow> keeps R (f a b)) \<Longrightarrow> keeps R (case x of (a, b) \<Rightarrow> f a b)"
  by (cases x) auto

end
