(* ===== verification/SessionActor.thy ===== *)
theory SessionActor
  imports SessionTree TaskBoard Continuation Effects Journals
begin

text \<open>
  The actor of a session, \<^verbatim>\<open>runtime/session-actor.ts\<close>: it owns the snapshot and the conversation
  tree, handles one command at a time under its mutex, and emits numbered events. The event store
  and the snapshot store accept what they are given here (a store that fails makes the command throw to
  the journal, see Journals); an event is recorded without its payload, which is a bounded JSON copy
  of what the operation returns. The model provider, the capabilities, the inbox and the clock are
  given per command, as the environment of the turn.
\<close>

record actor_event =
  ae_type :: string
  ae_generation :: nat
  ae_sequence :: nat
  ae_turnId :: "id option"
  ae_visibility :: event_visibility
  ae_redactionClass :: redaction_class

record actor =
  ac_snapshot :: session_snapshot
  ac_tree :: session_tree
  ac_events :: "actor_event list"
  ac_saved :: "session_snapshot option"
  ac_delivered :: "id list"
  ac_activeAbort :: "bool option"
  ac_ids :: nat

text \<open>\<open>ac_ids\<close> counts the ids drawn from \<^verbatim>\<open>randomUUID\<close>, a parameter \<open>env_uuid\<close>; \<open>ac_delivered\<close> are the inbox
  messages reported as delivered; \<open>ac_activeAbort\<close> is the abort controller of the turn in progress, with its
  signal.\<close>

record actor_env =
  env_now :: msec
  env_uuid :: "nat \<Rightarrow> id"
  env_modelName :: "string option"
  env_modelFallbacks :: "string list option"

datatype actor_error =
    TreeFailed tree_error
  | TaskFailed task_error
  | PayloadNull
  | PromptRequired
  | BadAttachments
  | BadAttachment
  | AttachmentPath
  | AttachmentSha
  | NoEntryId
  | LabelNoEntryId
  | ObjectiveRequired
  | NoGoal
  | UnknownGoalAction string
  | ModelFormat
  | FallbackFormat
  | SessionIs session_status
  | TurnAborted
  | StreamFailed string
  | GateThrew

type_synonym 'a actor_proc = "(actor, actor_error, 'a) proc"

section \<open>Events, status, snapshots\<close>

definition upd_snapshot :: "(session_snapshot \<Rightarrow> session_snapshot) \<Rightarrow> actor \<Rightarrow> actor" where
  "upd_snapshot f a = a\<lparr>ac_snapshot := f (ac_snapshot a)\<rparr>"

definition emit ::
    "string \<Rightarrow> event_visibility \<Rightarrow> redaction_class \<Rightarrow> id option \<Rightarrow> unit actor_proc" where
  "emit ty visibility redaction turnId a =
     (let sn = ac_snapshot a; n = sn_lastSequence sn + 1 in
      (ok (), a\<lparr>ac_snapshot := sn\<lparr>sn_lastSequence := n\<rparr>,
                ac_events := ac_events a @ [\<lparr>ae_type = ty, ae_generation = sn_generation sn, ae_sequence = n,
                   ae_turnId = turnId, ae_visibility = visibility, ae_redactionClass = redaction\<rparr>]\<rparr>))"

definition setStatus :: "actor_env \<Rightarrow> session_status \<Rightarrow> id option \<Rightarrow> unit actor_proc" where
  "setStatus env status turnId a =
     (if sn_status (ac_snapshot a) = status then (ok (), a)
      else emit ''session.status.changed'' VisUser MetadataOnly turnId
             (upd_snapshot (\<lambda>s. s\<lparr>sn_status := status, sn_updatedAt := env_now env\<rparr>) a))"

definition persistSnapshot :: "actor_env \<Rightarrow> unit actor_proc" where
  "persistSnapshot env a =
     (let sn = (ac_snapshot a)\<lparr>sn_updatedAt := env_now env\<rparr>
      in (ok (), a\<lparr>ac_snapshot := sn, ac_saved := Some sn\<rparr>))"

definition newId :: "actor_env \<Rightarrow> id actor_proc" where
  "newId env a = (ok (env_uuid env (ac_ids a)), a\<lparr>ac_ids := ac_ids a + 1\<rparr>)"

text \<open>\<^verbatim>\<open>appendMessage\<close>: the tree, and the snapshot's projection of it.\<close>

definition appendMessage :: "actor_env \<Rightarrow> agent_message \<Rightarrow> bool \<Rightarrow> unit actor_proc" where
  "appendMessage env message contextReset a =
     (case tree_append (env_now env) message None contextReset (ac_tree a) of
        (Inl e, _) \<Rightarrow> (throw (TreeFailed e), a)
      | (Inr _, t) \<Rightarrow>
          let a1 = upd_snapshot (\<lambda>s. s\<lparr>sn_tree := Some (tree_state t)\<rparr>) (a\<lparr>ac_tree := t\<rparr>) in
          (case activeMessages t of
             Inl e \<Rightarrow> (throw (TreeFailed e), a1)
           | Inr ms \<Rightarrow> (ok (), upd_snapshot (\<lambda>s. s\<lparr>sn_messages := ms\<rparr>) a1)))"

section \<open>Goals and the autonomous mode\<close>

definition positive :: "json option \<Rightarrow> rat option" where
  "positive v = (case v of Some (JNum x) \<Rightarrow> if x > 0 then Some x else None | _ \<Rightarrow> None)"

definition applyGoalAction ::
    "actor_env \<Rightarrow> string \<Rightarrow> payload option \<Rightarrow> id option \<Rightarrow> goal_state option actor_proc" where
  "applyGoalAction env action payload turnId =
     and_then
       (if action = ''set'' then
          (case payload of
             None \<Rightarrow> raise PayloadNull
           | Some p \<Rightarrow>
               let objective = trimmed (map_of p ''objective'') in
               if objective = [] then raise ObjectiveRequired
               else
                 let budget = (case positive (map_of p ''tokenBudget'') of None \<Rightarrow> 0 | Some x \<Rightarrow> \<lfloor>x\<rfloor>);
                     most = (case positive (map_of p ''maxContinuations'') of None \<Rightarrow> 3 | Some x \<Rightarrow> min 100 \<lfloor>x\<rfloor>)
                 in modify (upd_snapshot (\<lambda>s. s\<lparr>sn_goal := Some
                      \<lparr>goal_objective = objective, goal_status = GoalActive,
                       goal_tokenBudget = (if budget = 0 then None else Some budget),
                       goal_maxContinuations = most, goal_tokensUsed = 0, goal_continuationCount = 0,
                       goal_createdAt = env_now env, goal_updatedAt = env_now env,
                       goal_completedAt = None\<rparr>\<rparr>)))
        else if action = ''clear'' then modify (upd_snapshot (\<lambda>s. s\<lparr>sn_goal := None\<rparr>))
        else
          and_then (reads (\<lambda>a. sn_goal (ac_snapshot a))) (\<lambda>goal.
            case goal of
              None \<Rightarrow> raise NoGoal
            | Some g \<Rightarrow>
                if action = ''pause'' then
                  modify (upd_snapshot (\<lambda>s. s\<lparr>sn_goal := Some (g\<lparr>goal_status := GoalPaused, goal_updatedAt := env_now env\<rparr>)\<rparr>))
                else if action = ''resume'' then
                  modify (upd_snapshot (\<lambda>s. s\<lparr>sn_goal := Some (g\<lparr>goal_status := GoalActive, goal_updatedAt := env_now env\<rparr>)\<rparr>))
                else if action = ''complete'' then
                  modify (upd_snapshot (\<lambda>s. s\<lparr>sn_goal := Some (g\<lparr>goal_status := GoalCompleted,
                    goal_completedAt := Some (env_now env), goal_updatedAt := env_now env\<rparr>)\<rparr>))
                else raise (UnknownGoalAction action)))
       (\<lambda>_. and_then (emit (''goal.'' @ action) VisUser MetadataOnly turnId)
         (\<lambda>_. reads (\<lambda>a. sn_goal (ac_snapshot a))))"

definition positiveInt :: "json option \<Rightarrow> int \<Rightarrow> int \<Rightarrow> int" where
  "positiveInt v fallback mx = (case positive v of Some x \<Rightarrow> min mx \<lfloor>x\<rfloor> | None \<Rightarrow> fallback)"

definition gate_strings :: "json list \<Rightarrow> string list" where
  "gate_strings xs = take 20 (concat (map (\<lambda>x. case x of JStr s \<Rightarrow> if js_trim s \<noteq> [] then [s] else [] | _ \<Rightarrow> []) xs))"

definition configured :: "actor_env \<Rightarrow> payload \<Rightarrow> autonomous_state option \<Rightarrow> autonomous_state" where
  "configured env p previous =
     (let on = (map_of p ''enabled'' = Some (JBool True));
          was = (case previous of None \<Rightarrow> False | Some a \<Rightarrow> enabled a);
          fresh = (on \<and> \<not> was);
          old = (\<lambda>f d. case previous of None \<Rightarrow> d | Some a \<Rightarrow> f a)
      in \<lparr>enabled = on,
          maxContinuations = positiveInt (map_of p ''maxContinuations'') (old maxContinuations 3) 100,
          maxTurns = positiveInt (map_of p ''maxTurns'') (old maxTurns 12) 1000,
          maxTokens = positiveInt (map_of p ''maxTokens'') (old maxTokens 80000) 10000000,
          timeoutMs = positiveInt (map_of p ''timeoutMs'') (old timeoutMs (30 * 60000)) (24 * 60 * 60000),
          continuationPrompt =
            (if trimmed (map_of p ''continuationPrompt'') \<noteq> [] then trimmed (map_of p ''continuationPrompt'')
             else (case previous of Some a \<Rightarrow> continuationPrompt a | None \<Rightarrow>
               ''Continue autonomously. Make a safe assumption when needed and verify progress with evidence.'')),
          gates = (case map_of p ''gates'' of Some (JArr xs) \<Rightarrow> gate_strings xs
                   | _ \<Rightarrow> (case previous of None \<Rightarrow> [] | Some a \<Rightarrow> gates a)),
          gateTimeoutMs = positiveInt (map_of p ''gateTimeoutMs'') (old gateTimeoutMs (5 * 60000)) (30 * 60000),
          gateMaxRetries = positiveInt (map_of p ''gateMaxRetries'') (old gateMaxRetries 3) 20,
          continuationsUsed = (if fresh then 0 else old continuationsUsed 0),
          turnsUsed = (if fresh then 0 else old turnsUsed 0),
          tokensUsed = (if fresh then 0 else old tokensUsed 0),
          startedAt = (if on then
              (case previous of Some a \<Rightarrow> if enabled a \<and> startedAt a \<noteq> None then startedAt a else Some (env_now env)
               | None \<Rightarrow> Some (env_now env)) else None),
          gateAttempts = (if fresh then [] else (case previous of None \<Rightarrow> [] | Some a \<Rightarrow> gateAttempts a)),
          lastGateFingerprint = (case previous of None \<Rightarrow> None | Some a \<Rightarrow> truthy (lastGateFingerprint a)),
          lastGateFailure = (case previous of None \<Rightarrow> None | Some a \<Rightarrow> lastGateFailure a)\<rparr>)"

definition configureAutonomous :: "actor_env \<Rightarrow> payload \<Rightarrow> unit actor_proc" where
  "configureAutonomous env p =
     and_then (modify (upd_snapshot (\<lambda>s. s\<lparr>sn_autonomous := Some (configured env p (sn_autonomous s))\<rparr>)))
       (\<lambda>_. emit ''autonomous.configured'' VisUser MetadataOnly None)"

text \<open>\<^verbatim>\<open>addUsage\<close>.\<close>

definition addUsage :: "actor_env \<Rightarrow> model_usage \<Rightarrow> session_snapshot \<Rightarrow> session_snapshot" where
  "addUsage env u s =
     (let budgetTokens = inputTokens u + outputTokens u + cacheWriteTokens u; total = sn_totalUsage s in
      s\<lparr>sn_goal := map_option (\<lambda>g. if goal_status g = GoalActive
           then g\<lparr>goal_tokensUsed := goal_tokensUsed g + budgetTokens, goal_updatedAt := env_now env\<rparr> else g) (sn_goal s),
        sn_autonomous := map_option (\<lambda>a. if enabled a
           then a\<lparr>tokensUsed := tokensUsed a + budgetTokens\<rparr> else a) (sn_autonomous s),
        sn_totalUsage := \<lparr>inputTokens = inputTokens total + inputTokens u,
           outputTokens = outputTokens total + outputTokens u,
           cacheReadTokens = cacheReadTokens total + cacheReadTokens u,
           cacheWriteTokens = cacheWriteTokens total + cacheWriteTokens u,
           costUsd = Some ((case costUsd total of None \<Rightarrow> 0 | Some c \<Rightarrow> c) + (case costUsd u of None \<Rightarrow> 0 | Some c \<Rightarrow> c))\<rparr>\<rparr>)"

section \<open>Compaction\<close>

definition role_text :: "message_role \<Rightarrow> string" where
  "role_text r = (case r of RoleSystem \<Rightarrow> ''system'' | RoleUser \<Rightarrow> ''user''
     | RoleAssistant \<Rightarrow> ''assistant'' | RoleTool \<Rightarrow> ''tool'')"

definition message_text :: "agent_message \<Rightarrow> string" where
  "message_text m = join '' '' (concat (map (\<lambda>c. case c of TextContent t \<Rightarrow> [t] | _ \<Rightarrow> []) (msg_content m)))"

definition summaryLines :: "agent_message list \<Rightarrow> string list" where
  "summaryLines removed =
     map (\<lambda>m. ''- '' @ role_text (msg_role m) @ '': '' @ take 500 (message_text m))
       (take_last 20 (filter (\<lambda>m. msg_role m = RoleUser \<or> msg_role m = RoleAssistant) removed))"

definition summary_message :: "actor_env \<Rightarrow> id \<Rightarrow> agent_message list \<Rightarrow> agent_message" where
  "summary_message env i removed =
     \<lparr>msg_id = i, msg_role = RoleSystem,
      msg_content = [TextContent (''<COMPACTION_SUMMARY>'' @ newline @ join newline (summaryLines removed)
        @ newline @ ''</COMPACTION_SUMMARY>'')],
      msg_timestamp = env_now env, msg_source = None, msg_usage = None, msg_hidden = False\<rparr>"

definition retain_copy :: "actor_env \<Rightarrow> agent_message \<Rightarrow> unit actor_proc" where
  "retain_copy env m = and_then (newId env)
     (\<lambda>i. appendMessage env (m\<lparr>msg_id := i, msg_timestamp := env_now env\<rparr>) False)"

text \<open>\<^verbatim>\<open>compact\<close>: whether it compacted, and how many messages it removed and retained.\<close>

definition compact_session :: "actor_env \<Rightarrow> (bool \<times> nat \<times> nat) actor_proc" where
  "compact_session env =
     and_then (setStatus env Compacting None) (\<lambda>_.
     and_then (reads (\<lambda>a. sn_messages (ac_snapshot a))) (\<lambda>messages.
       if length messages \<le> 12
       then and_then (setStatus env Idle None) (\<lambda>_. ret (False, 0, length messages))
       else
         let removed = take (length messages - 12) messages; retained = take_last 12 messages in
         and_then (newId env) (\<lambda>i.
         and_then (appendMessage env (summary_message env i removed) True) (\<lambda>_.
         and_then (for_each retained (retain_copy env)) (\<lambda>_.
         and_then (emit ''session.compacted'' VisUser ModelContent None) (\<lambda>_.
         and_then (setStatus env Idle None) (\<lambda>_. ret (True, length removed, length retained))))))))"

section \<open>A turn\<close>

definition image_mimes :: "string list" where
  "image_mimes = [''image/png'', ''image/jpeg'', ''image/webp'', ''image/gif'']"

definition hex_char :: "char \<Rightarrow> bool" where
  "hex_char c = (let n = (of_char c :: nat) in
     (48 \<le> n \<and> n \<le> 57) \<or> (65 \<le> n \<and> n \<le> 70) \<or> (97 \<le> n \<and> n \<le> 102))"

definition ascii_lower :: "string \<Rightarrow> string" where
  "ascii_lower s = map (\<lambda>c. let n = (of_char c :: nat) in if 65 \<le> n \<and> n \<le> 90 then char_of (n + 32) else c) s"

definition image_attachment :: "json \<Rightarrow> (actor_error, message_content) result" where
  "image_attachment raw =
     (case raw of
        JObj item \<Rightarrow>
          (case map_of item ''path'' of
             Some (JStr path) \<Rightarrow>
               if js_blank path \<or> js_String (map_of item ''mimeType'') \<notin> set image_mimes then throw AttachmentPath
               else
                 (case map_of item ''sha256'' of
                    None \<Rightarrow> ok (ImageContent path (js_String (map_of item ''mimeType'')) None
                      (case map_of item ''alt'' of Some (JStr t) \<Rightarrow> Some (take 1000 t) | _ \<Rightarrow> None))
                  | Some (JStr h) \<Rightarrow>
                      if length h = 64 \<and> list_all hex_char h
                      then ok (ImageContent path (js_String (map_of item ''mimeType'')) (Some (ascii_lower h))
                        (case map_of item ''alt'' of Some (JStr t) \<Rightarrow> Some (take 1000 t) | _ \<Rightarrow> None))
                      else throw AttachmentSha
                  | Some _ \<Rightarrow> throw AttachmentSha)
           | _ \<Rightarrow> throw AttachmentPath)
      | _ \<Rightarrow> throw BadAttachment)"

fun map_result :: "('a \<Rightarrow> ('e, 'b) result) \<Rightarrow> 'a list \<Rightarrow> ('e, 'b list) result" where
  "map_result f [] = ok []"
| "map_result f (x # xs) =
     (case f x of Inl e \<Rightarrow> throw e
      | Inr y \<Rightarrow> (case map_result f xs of Inl e \<Rightarrow> throw e | Inr ys \<Rightarrow> ok (y # ys)))"

definition validateImageAttachments :: "json option \<Rightarrow> (actor_error, message_content list) result" where
  "validateImageAttachments v =
     (case v of
        None \<Rightarrow> ok []
      | Some (JArr xs) \<Rightarrow> if length xs > 8 then throw BadAttachments else map_result image_attachment xs
      | Some _ \<Rightarrow> throw BadAttachments)"

datatype stream_event =
    TextDelta string
  | ReasoningDelta string
  | ToolCall id string json
  | UsageReport model_usage
  | RouteSelected
  | RouteFailed
  | StreamDone string

text \<open>What one iteration of the loop meets: whether the turn was cancelled before it, the steering
  messages claimed before and after the model call, the events of the model stream and the error it
  ends with (with the signal then), the gates, and what each tool call returns.\<close>

record turn_step =
  it_aborted :: bool
  it_steerBefore :: "inbox_message list"
  it_stream :: "stream_event list"
  it_streamError :: "(string \<times> bool) option"
  it_steerAfter :: "inbox_message list"
  it_gate :: "string \<Rightarrow> int \<Rightarrow> gate_result option"
  it_fingerprint :: "string option"
  it_tool :: "id \<Rightarrow> (string, json) result"

definition relationship_text :: "relationship \<Rightarrow> string" where
  "relationship_text r = (case r of RelParent \<Rightarrow> ''parent'' | RelSibling \<Rightarrow> ''sibling''
     | RelChild \<Rightarrow> ''child'' | RelExternal \<Rightarrow> ''external'')"

definition steering_message :: "actor_env \<Rightarrow> id \<Rightarrow> inbox_message \<Rightarrow> agent_message" where
  "steering_message env i pending =
     \<lparr>msg_id = i, msg_role = RoleUser,
      msg_content = [TextContent (join newline
        [''Agent-to-agent message received.'',
         ''From '' @ relationship_text (in_relationship pending) @ '' agent '' @ json_quote (in_senderName pending)
           @ '' ('' @ in_senderSessionId pending @ ''):'',
         in_text pending])],
      msg_timestamp = env_now env, msg_source = Some SrcAgent, msg_usage = None, msg_hidden = False\<rparr>"

definition append_steering :: "actor_env \<Rightarrow> id \<Rightarrow> inbox_message \<Rightarrow> unit actor_proc" where
  "append_steering env turnId pending =
     and_then (newId env) (\<lambda>i.
     and_then (appendMessage env (steering_message env i pending) False) (\<lambda>_.
       emit ''message.created'' VisUser UserContent (Some turnId)))"

definition mark_delivered :: "id \<Rightarrow> inbox_message \<Rightarrow> unit actor_proc" where
  "mark_delivered turnId pending =
     and_then (modify (\<lambda>a. a\<lparr>ac_delivered := ac_delivered a @ [in_id pending]\<rparr>)) (\<lambda>_.
       emit ''agent.message.delivered'' VisAudit MetadataOnly (Some turnId))"

definition appendSteeringMessages :: "actor_env \<Rightarrow> id \<Rightarrow> inbox_message list \<Rightarrow> nat actor_proc" where
  "appendSteeringMessages env turnId claimed =
     (if claimed = [] then ret 0
      else
        and_then (for_each claimed (append_steering env turnId)) (\<lambda>_.
        and_then (persistSnapshot env) (\<lambda>_.
        and_then (for_each claimed (mark_delivered turnId)) (\<lambda>_. ret (length claimed)))))"

text \<open>The events of the stream that act on the session; the text, the calls and the last usage are read
  off the list.\<close>

definition stream_event :: "actor_env \<Rightarrow> bool \<Rightarrow> id \<Rightarrow> stream_event \<Rightarrow> unit actor_proc" where
  "stream_event env hidden turnId e =
     (case e of
        TextDelta d \<Rightarrow> emit ''model.text.delta'' (if hidden then VisInternal else VisUser) ModelContent (Some turnId)
      | ReasoningDelta d \<Rightarrow> emit ''model.reasoning.delta'' VisInternal ModelContent (Some turnId)
      | ToolCall _ _ _ \<Rightarrow> ret ()
      | UsageReport u \<Rightarrow> modify (upd_snapshot (addUsage env u))
      | RouteSelected \<Rightarrow> emit ''model.route.selected'' VisAudit MetadataOnly (Some turnId)
      | RouteFailed \<Rightarrow> emit ''model.route.failed'' VisAudit MetadataOnly (Some turnId)
      | StreamDone _ \<Rightarrow> ret ())"

definition stream_text :: "stream_event list \<Rightarrow> string" where
  "stream_text es = concat (map (\<lambda>e. case e of TextDelta d \<Rightarrow> d | _ \<Rightarrow> []) es)"

definition stream_calls :: "stream_event list \<Rightarrow> (id \<times> string \<times> json) list" where
  "stream_calls es = concat (map (\<lambda>e. case e of ToolCall i n j \<Rightarrow> [(i, n, j)] | _ \<Rightarrow> []) es)"

definition stream_usage :: "stream_event list \<Rightarrow> model_usage option" where
  "stream_usage es = last_opt (concat (map (\<lambda>e. case e of UsageReport u \<Rightarrow> [u] | _ \<Rightarrow> []) es))"

definition assistant_message ::
    "actor_env \<Rightarrow> id \<Rightarrow> bool \<Rightarrow> stream_event list \<Rightarrow> agent_message" where
  "assistant_message env i hidden es =
     \<lparr>msg_id = i, msg_role = RoleAssistant,
      msg_content = (if stream_text es = [] then [] else [TextContent (stream_text es)])
        @ map (\<lambda>(c, n, j). ToolCallContent c n j) (stream_calls es),
      msg_timestamp = env_now env, msg_source = None, msg_usage = stream_usage es, msg_hidden = hidden\<rparr>"

definition count_turn :: "session_snapshot \<Rightarrow> session_snapshot" where
  "count_turn s = s\<lparr>sn_autonomous := map_option (\<lambda>a. if enabled a then a\<lparr>turnsUsed := turnsUsed a + 1\<rparr> else a)
     (sn_autonomous s)\<rparr>"

definition count_continuation :: "session_snapshot \<Rightarrow> session_snapshot" where
  "count_continuation s = s\<lparr>sn_autonomous := count_autonomous (sn_autonomous s), sn_goal := count_goal (sn_goal s)\<rparr>"

definition plain_message ::
    "actor_env \<Rightarrow> id \<Rightarrow> message_role \<Rightarrow> message_content list \<Rightarrow> input_source option \<Rightarrow> bool \<Rightarrow> agent_message" where
  "plain_message env i role content source hidden =
     \<lparr>msg_id = i, msg_role = role, msg_content = content, msg_timestamp = env_now env, msg_source = source,
      msg_usage = None, msg_hidden = hidden\<rparr>"

text \<open>One tool call: a name outside the profile's capabilities is answered with an error, as is a call
  that throws.\<close>

definition tool_call ::
    "actor_env \<Rightarrow> bool \<Rightarrow> id \<Rightarrow> string list \<Rightarrow> (id \<Rightarrow> (string, json) result)
       \<Rightarrow> id \<times> string \<times> json \<Rightarrow> unit actor_proc" where
  "tool_call env hidden turnId available run call =
     (case call of (callId, name, arguments) \<Rightarrow>
        let (result, isError) =
          (if name \<notin> set available
           then (JObj [(''error'', JStr (''Capability '' @ name @ '' is not available to this session's agent profile.''))], True)
           else (case run callId of
                   Inl message \<Rightarrow> (JObj [(''error'', JStr message)], True)
                 | Inr value \<Rightarrow> (value, False)))
        in and_then (newId env) (\<lambda>i.
           and_then (appendMessage env
             (plain_message env i RoleTool [ToolResultContent callId name result isError] None hidden) False) (\<lambda>_.
           emit ''message.created'' (if hidden then VisInternal else VisUser) ToolResultSanitized (Some turnId))))"

text \<open>The gate evaluation at the end of an iteration without tool calls: whether the loop goes on.\<close>

definition continue_turn :: "actor_env \<Rightarrow> bool \<Rightarrow> id \<Rightarrow> turn_step \<Rightarrow> bool actor_proc" where
  "continue_turn env hidden turnId step a =
     (case evaluateContinuation (env_now env) (it_gate step) (it_fingerprint step)
             (sn_goal (ac_snapshot a)) (sn_autonomous (ac_snapshot a)) of
        (None, autonomous) \<Rightarrow> (throw GateThrew, upd_snapshot (\<lambda>s. s\<lparr>sn_autonomous := autonomous\<rparr>) a)
      | (Some d, autonomous) \<Rightarrow>
          and_then (emit ''continuation.evaluated'' VisUser MetadataOnly (Some turnId)) (\<lambda>_.
            case (if continues d then prompt d else None) of
              Some p \<Rightarrow>
                and_then (modify (upd_snapshot count_continuation)) (\<lambda>_.
                and_then (newId env) (\<lambda>i.
                and_then (appendMessage env
                  (plain_message env i RoleUser [TextContent p] (Some SrcAgent) hidden) False) (\<lambda>_.
                and_then (emit ''message.created'' (if hidden then VisInternal else VisUser) MetadataOnly (Some turnId))
                  (\<lambda>_. ret True))))
            | None \<Rightarrow>
                and_then (if reason d = LimitReached
                    then emit ''continuation.limit_reached'' VisUser MetadataOnly (Some turnId) else ret ())
                  (\<lambda>_. ret False))
            (upd_snapshot (\<lambda>s. s\<lparr>sn_autonomous := autonomous\<rparr>) a))"

text \<open>One iteration of the loop up to the decision: \<open>(text, goes on)\<close>.\<close>

definition availableCapabilities :: "string list \<Rightarrow> session_snapshot \<Rightarrow> string list" where
  "availableCapabilities all s =
     (case sn_agentProfile s of None \<Rightarrow> all
      | Some p \<Rightarrow> (case ap_allowedCapabilityIds p of None \<Rightarrow> all
          | Some allowed \<Rightarrow> filter (\<lambda>c. c \<in> set allowed) all))"

definition turn_iteration ::
    "actor_env \<Rightarrow> string list \<Rightarrow> bool \<Rightarrow> id \<Rightarrow> turn_step \<Rightarrow> (string \<times> bool) actor_proc" where
  "turn_iteration env capabilities hidden turnId step =
     and_then (if it_aborted step
         then and_then (modify (\<lambda>a. a\<lparr>ac_activeAbort := Some True\<rparr>)) (\<lambda>_. raise TurnAborted) else ret ()) (\<lambda>_.
     and_then (appendSteeringMessages env turnId (it_steerBefore step)) (\<lambda>_.
     and_then (reads (\<lambda>a. availableCapabilities capabilities (ac_snapshot a))) (\<lambda>available.
     and_then (emit ''model.request.started'' VisAudit MetadataOnly (Some turnId)) (\<lambda>_.
     and_then (for_each (it_stream step) (stream_event env hidden turnId)) (\<lambda>_.
     and_then (case it_streamError step of
           None \<Rightarrow> ret ()
         | Some (message, aborted) \<Rightarrow>
             and_then (modify (\<lambda>a. a\<lparr>ac_activeAbort := Some aborted\<rparr>)) (\<lambda>_. raise (StreamFailed message))) (\<lambda>_.
     and_then (newId env) (\<lambda>i.
     and_then (appendMessage env (assistant_message env i hidden (it_stream step)) False) (\<lambda>_.
     and_then (emit ''message.created'' (if hidden then VisInternal else VisUser) ModelContent (Some turnId)) (\<lambda>_.
     and_then (emit ''model.request.finished'' VisAudit MetadataOnly (Some turnId)) (\<lambda>_.
     and_then (modify (upd_snapshot count_turn)) (\<lambda>_.
       if stream_calls (it_stream step) = []
       then and_then (appendSteeringMessages env turnId (it_steerAfter step)) (\<lambda>steered.
              if steered > 0 then ret (stream_text (it_stream step), True)
              else and_then (continue_turn env hidden turnId step) (\<lambda>go. ret (stream_text (it_stream step), go)))
       else and_then (for_each (stream_calls (it_stream step))
                (tool_call env hidden turnId available (it_tool step)))
              (\<lambda>_. ret (stream_text (it_stream step), True)))))))))))))"

text \<open>The loop: at most one iteration per step given, \<open>(exhausted, finalText)\<close>.\<close>

fun turn_loop ::
    "actor_env \<Rightarrow> string list \<Rightarrow> bool \<Rightarrow> id \<Rightarrow> turn_step list \<Rightarrow> string \<Rightarrow> (bool \<times> string) actor_proc" where
  "turn_loop env capabilities hidden turnId [] finalText = ret (True, finalText)"
| "turn_loop env capabilities hidden turnId (step # steps) finalText =
     and_then (turn_iteration env capabilities hidden turnId step) (\<lambda>(text, go).
       if go then turn_loop env capabilities hidden turnId steps (finalText @ text)
       else ret (False, finalText @ text))"

text \<open>\<^verbatim>\<open>runPrompt\<close>; \<open>steps\<close> is what the iterations meet, of which the loop uses at most \<open>ceil\<close>.\<close>

definition runPrompt ::
    "actor_env \<Rightarrow> string list \<Rightarrow> nat \<Rightarrow> turn_step list \<Rightarrow> string \<Rightarrow> input_source \<Rightarrow> message_content list \<Rightarrow> bool
       \<Rightarrow> (id \<times> string) actor_proc" where
  "runPrompt env capabilities ceil steps text source attachments hidden =
     and_then (reads (\<lambda>a. sn_status (ac_snapshot a))) (\<lambda>status.
     if status = Paused \<or> status = Closed then raise (SessionIs status) else
     and_then (newId env) (\<lambda>turnId.
     and_then (modify (\<lambda>a. upd_snapshot (\<lambda>s. s\<lparr>sn_activeTurnId := Some turnId\<rparr>) (a\<lparr>ac_activeAbort := Some False\<rparr>))) (\<lambda>_.
     and_then (setStatus env Running (Some turnId)) (\<lambda>_.
     and_then (newId env) (\<lambda>i.
     and_then (appendMessage env
       (plain_message env i RoleUser (TextContent text # attachments) (Some source) hidden) False) (\<lambda>_.
     and_then (emit ''message.created'' (if hidden then VisInternal else VisUser) UserContent (Some turnId)) (\<lambda>_.
     and_then (persistSnapshot env) (\<lambda>_.
     and_then (turn_loop env capabilities hidden turnId (take ceil steps) []) (\<lambda>(exhausted, finalText).
     and_then (if exhausted then emit ''guardrail.tool_loop_limit'' VisUser MetadataOnly (Some turnId) else ret ()) (\<lambda>_.
     and_then (modify (\<lambda>a. upd_snapshot (\<lambda>s. s\<lparr>sn_activeTurnId := None\<rparr>) (a\<lparr>ac_activeAbort := None\<rparr>))) (\<lambda>_.
     and_then (setStatus env Idle (Some turnId)) (\<lambda>_.
     and_then (emit ''memory.external.sync'' VisAudit MetadataOnly (Some turnId)) (\<lambda>_.
       ret (turnId, finalText))))))))))))))"

section \<open>Commands\<close>

definition alnum_or :: "char set \<Rightarrow> char \<Rightarrow> bool" where
  "alnum_or extra c \<longleftrightarrow> (let n = (of_char c :: nat) in
     (48 \<le> n \<and> n \<le> 57) \<or> (65 \<le> n \<and> n \<le> 90) \<or> (97 \<le> n \<and> n \<le> 122) \<or> c \<in> extra)"

definition isModelRoute :: "string \<Rightarrow> bool" where
  "isModelRoute value =
     (let provider = takeWhile (\<lambda>c. c \<noteq> CHR '':'') value; separator = length provider in
      separator < length value \<and> 0 < separator \<and> separator < length value - 1
      \<and> alnum_or {} (hd provider) \<and> list_all (alnum_or {CHR ''-''}) (tl provider) \<and> length value \<le> 300)"

datatype actor_value =
    PromptDone id string
  | StatusNow session_status
  | CompactDone bool nat nat
  | TreeViewed "id option" "tree_view_entry list"
  | BranchedTo id nat
  | LabeledWith id "string list"
  | GoalValue "goal_state option"
  | AutonomousValue "autonomous_state option"
  | ModelSelected string "string list"
  | TaskValue task_outcome

definition fields :: "json \<Rightarrow> payload option" where
  "fields j = (case j of JObj fs \<Rightarrow> Some fs | JNull \<Rightarrow> None | _ \<Rightarrow> Some [])"

definition with_fields :: "json \<Rightarrow> (payload \<Rightarrow> 'a actor_proc) \<Rightarrow> 'a actor_proc" where
  "with_fields j f = (case fields j of None \<Rightarrow> raise PayloadNull | Some p \<Rightarrow> f p)"

definition do_branch :: "payload \<Rightarrow> actor_value actor_proc" where
  "do_branch p a =
     (let entryId = (case map_of p ''entryId'' of Some (JStr s) \<Rightarrow> s | _ \<Rightarrow> []) in
      if entryId = [] then (throw NoEntryId, a)
      else
        (case tree_branch entryId (ac_tree a) of
           (Inl e, t) \<Rightarrow> (throw (TreeFailed e), a\<lparr>ac_tree := t\<rparr>)
         | (Inr ms, t) \<Rightarrow>
             and_then (emit ''session.tree.branched'' VisUser MetadataOnly None)
               (\<lambda>_. ret (BranchedTo entryId (length ms)))
               (upd_snapshot (\<lambda>s. s\<lparr>sn_messages := ms, sn_tree := Some (tree_state t)\<rparr>) (a\<lparr>ac_tree := t\<rparr>))))"

definition do_label :: "payload \<Rightarrow> actor_value actor_proc" where
  "do_label p a =
     (let entryId = (case map_of p ''entryId'' of Some (JStr s) \<Rightarrow> s | _ \<Rightarrow> []);
          label = (case map_of p ''label'' of Some (JStr s) \<Rightarrow> Some s | _ \<Rightarrow> None) in
      if entryId = [] then (throw LabelNoEntryId, a)
      else
        (case tree_label entryId label (ac_tree a) of
           (Inl e, t) \<Rightarrow> (throw (TreeFailed e), a)
         | (Inr entry, t) \<Rightarrow>
             and_then (emit ''session.tree.labeled'' VisUser MetadataOnly None)
               (\<lambda>_. ret (LabeledWith entryId (te_labels entry)))
               (upd_snapshot (\<lambda>s. s\<lparr>sn_tree := Some (tree_state t)\<rparr>) (a\<lparr>ac_tree := t\<rparr>))))"

definition do_select :: "actor_env \<Rightarrow> payload \<Rightarrow> actor_value actor_proc" where
  "do_select env p =
     (let modelName = trimmed (map_of p ''model'') in
      if \<not> isModelRoute modelName then raise ModelFormat
      else
        and_then (reads (\<lambda>a.
          case map_of p ''fallbackModels'' of
            Some (JArr xs) \<Rightarrow> filter (\<lambda>r. r \<noteq> []) (map (\<lambda>x. trimmed (Some x)) xs)
          | _ \<Rightarrow> (case sn_modelFallbacks (ac_snapshot a) of Some fs \<Rightarrow> fs
                  | None \<Rightarrow> (case env_modelFallbacks env of Some fs \<Rightarrow> fs | None \<Rightarrow> [])))) (\<lambda>fallbackModels.
        if length fallbackModels > 8 \<or> list_ex (\<lambda>r. \<not> isModelRoute r) fallbackModels then raise FallbackFormat
        else
          let chosen = dedupe (filter (\<lambda>r. r \<noteq> modelName) fallbackModels) in
          and_then (modify (upd_snapshot (\<lambda>s. s\<lparr>sn_modelName := Some modelName, sn_modelFallbacks := Some chosen\<rparr>))) (\<lambda>_.
          and_then (emit ''model.selected'' VisUser MetadataOnly None) (\<lambda>_. ret (ModelSelected modelName chosen)))))"

definition do_task :: "actor_env \<Rightarrow> string \<Rightarrow> payload \<Rightarrow> actor_value actor_proc" where
  "do_task env action p a =
     (let sn = ac_snapshot a in
      case applyTaskAction (env_now env) (env_uuid env (ac_ids a)) (sn_sessionId sn) (sn_childSessionIds sn)
             action p (sn_tasks sn) of
        (Inl e, tasks) \<Rightarrow> (throw (TaskFailed e), upd_snapshot (\<lambda>s. s\<lparr>sn_tasks := tasks\<rparr>) (a\<lparr>ac_ids := ac_ids a + 1\<rparr>))
      | (Inr (TaskListing ts), tasks) \<Rightarrow> (ok (TaskValue (TaskListing ts)), a)
      | (Inr v, tasks) \<Rightarrow>
          and_then (emit (''task.'' @ action) VisUser MetadataOnly None) (\<lambda>_. ret (TaskValue v))
            (upd_snapshot (\<lambda>s. s\<lparr>sn_tasks := tasks\<rparr>) (a\<lparr>ac_ids := ac_ids a + 1\<rparr>)))"

definition do_prompt ::
    "actor_env \<Rightarrow> string list \<Rightarrow> nat \<Rightarrow> turn_step list \<Rightarrow> command_envelope \<Rightarrow> payload \<Rightarrow> actor_value actor_proc" where
  "do_prompt env capabilities ceil steps command p =
     (case map_of p ''text'' of
        Some (JStr text) \<Rightarrow>
          if js_blank text then raise PromptRequired
          else (case validateImageAttachments (map_of p ''attachments'') of
                  Inl e \<Rightarrow> raise e
                | Inr attachments \<Rightarrow>
                    and_then (runPrompt env capabilities ceil steps text (cmd_source command) attachments
                        (cmd_kind command = ArtifactInteraction))
                      (\<lambda>(turnId, finalText). ret (PromptDone turnId finalText)))
      | _ \<Rightarrow> raise PromptRequired)"

definition handle ::
    "actor_env \<Rightarrow> string list \<Rightarrow> nat \<Rightarrow> turn_step list \<Rightarrow> command_envelope \<Rightarrow> actor_value actor_proc" where
  "handle env capabilities ceil steps command =
     (let payload = cmd_payload command;
          goal = (\<lambda>action. and_then (applyGoalAction env action (fields payload) None) (\<lambda>g. ret (GoalValue g))) in
      case cmd_kind command of
        SessionPrompt \<Rightarrow> with_fields payload (do_prompt env capabilities ceil steps command)
      | ArtifactInteraction \<Rightarrow> with_fields payload (do_prompt env capabilities ceil steps command)
      | AgentMessageCmd \<Rightarrow> with_fields payload (do_prompt env capabilities ceil steps command)
      | SessionPause \<Rightarrow> and_then (setStatus env Paused None) (\<lambda>_. ret (StatusNow Paused))
      | SessionResume \<Rightarrow> and_then (setStatus env Idle None) (\<lambda>_. ret (StatusNow Idle))
      | SessionCompact \<Rightarrow> and_then (compact_session env) (\<lambda>(c, removed, kept). ret (CompactDone c removed kept))
      | TreeGet \<Rightarrow> reads (\<lambda>a. TreeViewed (tr_activeLeafId (ac_tree a)) (tree_view (ac_tree a)))
      | TreeBranch \<Rightarrow> with_fields payload do_branch
      | TreeLabel \<Rightarrow> with_fields payload do_label
      | GoalSet \<Rightarrow> goal ''set''
      | GoalPause \<Rightarrow> goal ''pause''
      | GoalResume \<Rightarrow> goal ''resume''
      | GoalComplete \<Rightarrow> goal ''complete''
      | GoalClear \<Rightarrow> goal ''clear''
      | AutonomousConfigure \<Rightarrow> with_fields payload (\<lambda>p.
          and_then (configureAutonomous env p) (\<lambda>_. reads (\<lambda>a. AutonomousValue (sn_autonomous (ac_snapshot a)))))
      | ModelSelect \<Rightarrow> with_fields payload (do_select env)
      | TaskList \<Rightarrow> with_fields payload (do_task env ''list'')
      | TaskCreate \<Rightarrow> with_fields payload (do_task env ''create'')
      | TaskUpdate \<Rightarrow> with_fields payload (do_task env ''update'')
      | SessionClose \<Rightarrow> and_then (setStatus env Closed None) (\<lambda>_. ret (StatusNow Closed))
      | SessionCancel \<Rightarrow> reads (\<lambda>a. StatusNow (sn_status (ac_snapshot a))))"

datatype dispatch_result =
    CancelSent bool
  | StaleGenerationRejected nat nat
  | Completed actor_value
  | CommandFailed actor_error

text \<open>The catch of \<^verbatim>\<open>dispatch\<close>: the turn is over, the failure is an event, and the session is idle again
  unless it was closed or paused.\<close>

definition recover :: "actor_env \<Rightarrow> unit actor_proc" where
  "recover env =
     and_then (reads (\<lambda>a. ac_activeAbort a = Some True)) (\<lambda>wasCancelled.
     and_then (modify (\<lambda>a. upd_snapshot (\<lambda>s. s\<lparr>sn_activeTurnId := None\<rparr>) (a\<lparr>ac_activeAbort := None\<rparr>))) (\<lambda>_.
     and_then (emit (if wasCancelled then ''turn.cancelled'' else ''command.failed'') VisUser MetadataOnly None) (\<lambda>_.
     and_then (reads (\<lambda>a. sn_status (ac_snapshot a))) (\<lambda>status.
     and_then (if status \<noteq> Closed \<and> status \<noteq> Paused then setStatus env Idle None else ret ())
       (\<lambda>_. persistSnapshot env)))))"

definition dispatch ::
    "actor_env \<Rightarrow> string list \<Rightarrow> nat \<Rightarrow> turn_step list \<Rightarrow> command_envelope \<Rightarrow> actor \<Rightarrow> dispatch_result \<times> actor" where
  "dispatch env capabilities ceil steps command a =
     (if cmd_kind command = SessionCancel then
        (CancelSent (ac_activeAbort a \<noteq> None), a\<lparr>ac_activeAbort := map_option (\<lambda>_. True) (ac_activeAbort a)\<rparr>)
      else
        (case cmd_expectedGeneration command of
           Some g \<Rightarrow>
             if g \<noteq> sn_generation (ac_snapshot a)
             then (StaleGenerationRejected g (sn_generation (ac_snapshot a)), a)
             else (case handle env capabilities ceil steps command a of
                     (Inr v, a') \<Rightarrow> (Completed v, snd (persistSnapshot env a'))
                   | (Inl e, a') \<Rightarrow> (CommandFailed e, snd (recover env a')))
         | None \<Rightarrow> (case handle env capabilities ceil steps command a of
                     (Inr v, a') \<Rightarrow> (Completed v, snd (persistSnapshot env a'))
                   | (Inl e, a') \<Rightarrow> (CommandFailed e, snd (recover env a')))))"

text \<open>The constructor, \<^verbatim>\<open>initialize\<close> and \<^verbatim>\<open>createInitialSnapshot\<close>.\<close>

definition new_actor :: "actor_env \<Rightarrow> nat \<Rightarrow> session_snapshot \<Rightarrow> (tree_error, actor) result" where
  "new_actor env ids snapshot =
     (case tree_new (env_now env) (sn_tree snapshot) (sn_messages snapshot) of
        Inl e \<Rightarrow> throw e
      | Inr t \<Rightarrow>
          (case activeMessages t of
             Inl e \<Rightarrow> throw e
           | Inr ms \<Rightarrow> ok \<lparr>ac_snapshot = snapshot\<lparr>sn_tree := Some (tree_state t), sn_messages := ms\<rparr>, ac_tree = t,
               ac_events = [], ac_saved = None, ac_delivered = [], ac_activeAbort = None, ac_ids = ids\<rparr>))"

definition initialize :: "actor_env \<Rightarrow> bool \<Rightarrow> unit actor_proc" where
  "initialize env recovered =
     and_then (emit (if recovered then ''session.recovered'' else ''session.created'') VisUser MetadataOnly None) (\<lambda>_.
     and_then (setStatus env Idle None) (\<lambda>_. persistSnapshot env))"

definition applyChildLink :: "actor_env \<Rightarrow> id \<Rightarrow> unit actor_proc" where
  "applyChildLink env child =
     and_then (reads (\<lambda>a. sn_childSessionIds (ac_snapshot a))) (\<lambda>children.
       if child \<in> set children then ret ()
       else and_then (modify (upd_snapshot (\<lambda>s. s\<lparr>sn_childSessionIds := sn_childSessionIds s @ [child]\<rparr>))) (\<lambda>_.
            and_then (emit ''subagent.linked'' VisUser MetadataOnly None) (\<lambda>_. persistSnapshot env)))"

definition recordFork :: "actor_env \<Rightarrow> unit actor_proc" where
  "recordFork env = and_then (emit ''session.fork.created'' VisUser MetadataOnly None) (\<lambda>_. persistSnapshot env)"

definition ZERO_USAGE :: model_usage where
  "ZERO_USAGE = \<lparr>inputTokens = 0, outputTokens = 0, cacheReadTokens = 0, cacheWriteTokens = 0, costUsd = Some 0\<rparr>"

definition createInitialSnapshot ::
    "actor_env \<Rightarrow> id \<Rightarrow> id option \<Rightarrow> id option \<Rightarrow> string \<Rightarrow> string \<Rightarrow> agent_message list option
       \<Rightarrow> string list option \<Rightarrow> agent_profile option \<Rightarrow> session_snapshot" where
  "createInitialSnapshot env sessionId familyId parentSessionId tenantId nam initialMessages modelFallbacks agentProfile =
     \<lparr>sn_sessionId = sessionId,
      sn_familyId = (case familyId of Some f \<Rightarrow> f | None \<Rightarrow> sessionId),
      sn_parentSessionId = truthy parentSessionId,
      sn_tenantId = tenantId, sn_generation = 1, sn_lastSequence = 0, sn_status = Ready, sn_name = nam,
      sn_createdAt = env_now env, sn_updatedAt = env_now env,
      sn_messages = (case initialMessages of None \<Rightarrow> [] | Some ms \<Rightarrow> ms),
      sn_tree = None, sn_childSessionIds = [], sn_activeTurnId = None,
      sn_modelName = (case agentProfile of None \<Rightarrow> None | Some p \<Rightarrow> truthy (ap_modelRoute p)),
      sn_modelFallbacks =
        (case agentProfile of
           Some p \<Rightarrow> if ap_fallbackModels p \<noteq> [] then Some (ap_fallbackModels p)
                      else (case modelFallbacks of Some (f # fs) \<Rightarrow> Some (f # fs) | _ \<Rightarrow> None)
         | None \<Rightarrow> (case modelFallbacks of Some (f # fs) \<Rightarrow> Some (f # fs) | _ \<Rightarrow> None)),
      sn_agentProfile = agentProfile, sn_tasks = [], sn_goal = None, sn_autonomous = None,
      sn_totalUsage = ZERO_USAGE\<rparr>"

section \<open>Event numbers\<close>

text \<open>An operation appends events numbered from the last sequence number on, in one generation, and
  leaves the last number in the snapshot.\<close>

definition numbered :: "nat \<Rightarrow> nat \<Rightarrow> actor_event list \<Rightarrow> bool" where
  "numbered g n es \<longleftrightarrow> map ae_sequence es = [n + 1..<n + 1 + length es] \<and> (\<forall>e \<in> set es. ae_generation e = g)"

definition logs :: "actor \<Rightarrow> actor \<Rightarrow> bool" where
  "logs a b \<longleftrightarrow> sn_generation (ac_snapshot b) = sn_generation (ac_snapshot a)
     \<and> sn_sessionId (ac_snapshot b) = sn_sessionId (ac_snapshot a)
     \<and> sn_tenantId (ac_snapshot b) = sn_tenantId (ac_snapshot a)
     \<and> (\<exists>es. ac_events b = ac_events a @ es
          \<and> numbered (sn_generation (ac_snapshot a)) (sn_lastSequence (ac_snapshot a)) es
          \<and> sn_lastSequence (ac_snapshot b) = sn_lastSequence (ac_snapshot a) + length es)"

text \<open>The projection of the tree in the snapshot, and the tree itself, stay sound.\<close>

definition projected :: "actor \<Rightarrow> bool" where
  "projected a \<longleftrightarrow> tree_wf (ac_tree a) \<and> sn_tree (ac_snapshot a) = Some (tree_state (ac_tree a))
     \<and> activeMessages (ac_tree a) = ok (sn_messages (ac_snapshot a))"

definition steady :: "actor \<Rightarrow> actor \<Rightarrow> bool" where
  "steady a b \<longleftrightarrow> logs a b \<and> (projected a \<longrightarrow> projected b)"

lemma numbered_append:
  assumes "numbered g n es" and "numbered g (n + length es) es'"
  shows "numbered g n (es @ es')"
proof -
  have "[n + 1..<n + 1 + length es + length es']
      = [n + 1..<n + 1 + length es] @ [n + 1 + length es..<n + 1 + length es + length es']"
    by (rule upt_add_eq_append) simp
  then show ?thesis using assms by (auto simp: numbered_def add_ac)
qed

lemma logs_refl [simp]: "logs a a"
  by (simp add: logs_def numbered_def)

lemma logs_trans: "logs a b \<Longrightarrow> logs b c \<Longrightarrow> logs a c"
  unfolding logs_def by (auto intro!: numbered_append)

lemma steady_pre: "preorder_rel steady"
  using logs_trans by (auto simp: preorder_rel_def steady_def)

lemma steady_refl: "steady a a" and steady_trans: "steady a b \<Longrightarrow> steady b c \<Longrightarrow> steady a c"
  using steady_pre unfolding preorder_rel_def by blast+

text \<open>A change of the snapshot that leaves alone identity, generation, numbers and the projection.\<close>

lemma steady_upd:
  assumes "\<And>s. sn_generation (f s) = sn_generation s" "\<And>s. sn_sessionId (f s) = sn_sessionId s"
    "\<And>s. sn_tenantId (f s) = sn_tenantId s" "\<And>s. sn_lastSequence (f s) = sn_lastSequence s"
    "\<And>s. sn_tree (f s) = sn_tree s" "\<And>s. sn_messages (f s) = sn_messages s"
  shows "steady a (upd_snapshot f a)"
  using assms by (simp add: steady_def logs_def numbered_def projected_def upd_snapshot_def)

lemma keeps_upd:
  assumes "\<And>s. sn_generation (f s) = sn_generation s" "\<And>s. sn_sessionId (f s) = sn_sessionId s"
    "\<And>s. sn_tenantId (f s) = sn_tenantId s" "\<And>s. sn_lastSequence (f s) = sn_lastSequence s"
    "\<And>s. sn_tree (f s) = sn_tree s" "\<And>s. sn_messages (f s) = sn_messages s"
  shows "keeps steady (modify (upd_snapshot f))"
  by (rule keeps_modify) (rule steady_upd [OF assms])

lemma keeps_emit: "keeps steady (emit ty v r t)"
  by (auto simp: keeps_def emit_def Let_def steady_def logs_def numbered_def projected_def)

lemma keeps_setStatus: "keeps steady (setStatus env st t)"
  unfolding keeps_def
proof
  fix a :: actor
  let ?a = "upd_snapshot (\<lambda>s. s\<lparr>sn_status := st, sn_updatedAt := env_now env\<rparr>) a"
  have "steady a ?a" by (rule steady_upd) simp_all
  moreover have "steady ?a (snd (emit ''session.status.changed'' VisUser MetadataOnly t ?a))"
    using keeps_emit by (simp add: keeps_def)
  ultimately have "steady a (snd (emit ''session.status.changed'' VisUser MetadataOnly t ?a))"
    by (rule steady_trans)
  then show "steady a (snd (setStatus env st t a))" by (simp add: setStatus_def steady_refl)
qed

lemma keeps_persist: "keeps steady (persistSnapshot env)"
  by (simp add: keeps_def persistSnapshot_def Let_def steady_def logs_def numbered_def projected_def)

lemma keeps_newId:
  assumes "\<And>n. keeps steady (g (env_uuid env n))"
  shows "keeps steady (and_then (newId env) g)"
  unfolding keeps_def
proof
  fix a :: actor
  let ?a = "a\<lparr>ac_ids := ac_ids a + 1\<rparr>"
  have "steady a ?a"
    by (simp add: steady_def logs_def numbered_def projected_def)
  moreover have "steady ?a (snd (g (env_uuid env (ac_ids a)) ?a))"
    using assms by (simp add: keeps_def)
  ultimately have "steady a (snd (g (env_uuid env (ac_ids a)) ?a))" by (rule steady_trans)
  then show "steady a (snd (and_then (newId env) g a))" by (simp add: and_then_def newId_def)
qed

lemma appendMessage_ok:
  assumes proj: "projected a" and ne: "msg_id message \<noteq> []"
    and app: "tree_append (env_now env) message None reset (ac_tree a) = (Inr entry, t)"
  shows "fst (appendMessage env message reset a) = Inr ()"
    and "projected (snd (appendMessage env message reset a))"
    and "sn_messages (ac_snapshot (snd (appendMessage env message reset a)))
      = (if reset then [message] else sn_messages (ac_snapshot a) @ [message])"
    and "ac_tree (snd (appendMessage env message reset a)) = t"
proof -
  have "tree_wf (ac_tree a)" using proj by (simp add: projected_def)
  from tree_append_step [OF this ne app] obtain ms where wf: "tree_wf t" and ms: "activeMessages (ac_tree a) = ok ms"
      "activeMessages t = ok (if reset then [message] else ms @ [message])" by blast
  have ms': "ms = sn_messages (ac_snapshot a)" using ms(1) proj by (simp add: projected_def)
  have eq: "appendMessage env message reset a = (ok (),
      upd_snapshot (\<lambda>s. s\<lparr>sn_messages := if reset then [message] else ms @ [message]\<rparr>)
        (upd_snapshot (\<lambda>s. s\<lparr>sn_tree := Some (tree_state t)\<rparr>) (a\<lparr>ac_tree := t\<rparr>)))"
    by (simp add: appendMessage_def app ms(2) Let_def)
  show "fst (appendMessage env message reset a) = Inr ()"
    "projected (snd (appendMessage env message reset a))"
    "sn_messages (ac_snapshot (snd (appendMessage env message reset a)))
      = (if reset then [message] else sn_messages (ac_snapshot a) @ [message])"
    "ac_tree (snd (appendMessage env message reset a)) = t"
    unfolding eq using wf ms(2) ms' by (simp_all add: projected_def upd_snapshot_def)
qed

lemma keeps_append:
  assumes "msg_id message \<noteq> []"
  shows "keeps steady (appendMessage env message reset)"
  unfolding keeps_def
proof
  fix a :: actor
  have logs: "logs a (snd (appendMessage env message reset a))"
    by (auto simp: appendMessage_def logs_def numbered_def upd_snapshot_def Let_def split: sum.split prod.split)
  have "projected (snd (appendMessage env message reset a))" if "projected a"
  proof (cases "tree_append (env_now env) message None reset (ac_tree a)")
    case (Pair r t)
    then show ?thesis
      using appendMessage_ok(2) [OF that assms] that by (cases r) (auto simp: appendMessage_def)
  qed
  with logs show "steady a (snd (appendMessage env message reset a))" by (simp add: steady_def)
qed

lemmas keep = keeps_newId keeps_and_then [OF steady_pre] keeps_ret [OF steady_pre] keeps_raise [OF steady_pre]
  keeps_reads [OF steady_pre] keeps_for_each [OF steady_pre] keeps_emit keeps_setStatus keeps_persist
  keeps_append keeps_if keeps_option keeps_sum keeps_prod

section \<open>Every operation keeps the log and the projection\<close>

text \<open>What is relied on of \<^verbatim>\<open>randomUUID\<close> for the tree: an id is not empty.\<close>

definition ids_ok :: "actor_env \<Rightarrow> bool" where
  "ids_ok env \<longleftrightarrow> (\<forall>n. env_uuid env n \<noteq> [])"

lemma keeps_goal: "keeps steady (applyGoalAction env action payload t)"
  unfolding applyGoalAction_def Let_def
  by (intro keep keeps_upd) simp_all

lemma keeps_configure: "keeps steady (configureAutonomous env p)"
  unfolding configureAutonomous_def by (intro keep keeps_upd) simp_all

lemma keeps_compact:
  assumes "ids_ok env"
  shows "keeps steady (compact_session env)"
  unfolding compact_session_def Let_def retain_copy_def
  by (intro keep) (use assms in \<open>simp_all add: ids_ok_def summary_message_def\<close>)

lemma keeps_modify_delivered: "keeps steady (modify (\<lambda>a. a\<lparr>ac_delivered := f a\<rparr>))"
  "keeps steady (modify (\<lambda>a. a\<lparr>ac_activeAbort := x\<rparr>))"
  by (rule keeps_modify, simp add: steady_def logs_def numbered_def projected_def)+

lemma keeps_modify_turn: "keeps steady (modify (\<lambda>a. upd_snapshot (\<lambda>s. s\<lparr>sn_activeTurnId := t\<rparr>) (a\<lparr>ac_activeAbort := x\<rparr>)))"
  by (rule keeps_modify) (simp add: steady_def logs_def numbered_def projected_def upd_snapshot_def)

lemma keeps_steering:
  assumes "ids_ok env"
  shows "keeps steady (appendSteeringMessages env t claimed)"
  unfolding appendSteeringMessages_def append_steering_def mark_delivered_def
  by (intro keep keeps_modify_delivered) (use assms in \<open>simp_all add: ids_ok_def steering_message_def\<close>)

lemma keeps_stream: "keeps steady (stream_event env hidden t e)"
  unfolding stream_event_def
  by (cases e) (auto intro!: keep keeps_upd simp: addUsage_def Let_def)

lemma keeps_tool:
  assumes "ids_ok env"
  shows "keeps steady (tool_call env hidden t available run call)"
  unfolding tool_call_def Let_def
  by (intro keep) (use assms in \<open>simp_all add: ids_ok_def plain_message_def\<close>)

lemma keeps_continue:
  assumes "ids_ok env"
  shows "keeps steady (continue_turn env hidden t step)"
  unfolding keeps_def
proof
  fix a :: actor
  obtain d autonomous where ev: "evaluateContinuation (env_now env) (it_gate step) (it_fingerprint step)
      (sn_goal (ac_snapshot a)) (sn_autonomous (ac_snapshot a)) = (d, autonomous)" by fastforce
  let ?a = "upd_snapshot (\<lambda>s. s\<lparr>sn_autonomous := autonomous\<rparr>) a"
  have step: "steady a ?a" by (rule steady_upd) simp_all
  show "steady a (snd (continue_turn env hidden t step a))"
  proof (cases d)
    case None
    then show ?thesis using step ev by (simp add: continue_turn_def)
  next
    case (Some d)
    let ?f = "and_then (emit ''continuation.evaluated'' VisUser MetadataOnly (Some t)) (\<lambda>_.
            case (if continues d then prompt d else None) of
              Some p \<Rightarrow>
                and_then (modify (upd_snapshot count_continuation)) (\<lambda>_.
                and_then (newId env) (\<lambda>i.
                and_then (appendMessage env
                  (plain_message env i RoleUser [TextContent p] (Some SrcAgent) hidden) False) (\<lambda>_.
                and_then (emit ''message.created'' (if hidden then VisInternal else VisUser) MetadataOnly (Some t))
                  (\<lambda>_. ret True))))
            | None \<Rightarrow>
                and_then (if reason d = LimitReached
                    then emit ''continuation.limit_reached'' VisUser MetadataOnly (Some t) else ret ())
                  (\<lambda>_. ret False))"
    have "keeps steady ?f"
      by (intro keep keeps_upd) (use assms in \<open>simp_all add: ids_ok_def plain_message_def count_continuation_def\<close>)
    then have "steady ?a (snd (?f ?a))" by (simp only: keeps_def)
    then have "steady a (snd (?f ?a))" by (rule steady_trans [OF step])
    then show ?thesis using ev Some by (simp add: continue_turn_def)
  qed
qed

lemma keeps_iteration:
  assumes "ids_ok env"
  shows "keeps steady (turn_iteration env caps hidden t step)"
  unfolding turn_iteration_def
  by (intro keep keeps_modify_delivered keeps_steering keeps_stream keeps_continue keeps_tool assms keeps_upd)
    (use assms in \<open>simp_all add: ids_ok_def assistant_message_def count_turn_def\<close>)

lemma keeps_loop:
  assumes "ids_ok env"
  shows "keeps steady (turn_loop env caps hidden t steps acc)"
proof (induction steps arbitrary: acc)
  case Nil
  show ?case by (simp add: keep)
next
  case (Cons step steps)
  show ?case unfolding turn_loop.simps
    by (intro keep keeps_iteration assms Cons.IH)
qed

lemma keeps_runPrompt:
  assumes "ids_ok env"
  shows "keeps steady (runPrompt env caps n steps text source atts hidden)"
  unfolding runPrompt_def
  by (intro keep keeps_loop keeps_modify_turn assms)
    (use assms in \<open>simp_all add: ids_ok_def plain_message_def\<close>)

lemma keeps_do_branch: "keeps steady (do_branch p)"
  unfolding keeps_def
proof
  fix a :: actor
  let ?k = "case map_of p ''entryId'' of Some (JStr s) \<Rightarrow> s | _ \<Rightarrow> []"
  obtain r t where br: "tree_branch ?k (ac_tree a) = (r, t)" by fastforce
  show "steady a (snd (do_branch p a))"
  proof (cases "?k = []")
    case True
    then show ?thesis by (simp add: do_branch_def steady_refl)
  next
    case False
    show ?thesis
    proof (cases r)
      case (Inl e)
      have "tree_wf (ac_tree a) \<Longrightarrow> t = ac_tree a"
        using br Inl active_total tree_branch_wf [of "ac_tree a" ?k]
        by (auto simp: tree_branch_def Let_def split: if_splits) (metis Inl_Inr_False)
      then have "projected a \<Longrightarrow> t = ac_tree a" by (simp add: projected_def)
      then show ?thesis using False br Inl
        by (auto simp: do_branch_def Let_def steady_def logs_def numbered_def projected_def)
    next
      case (Inr ms)
      let ?a = "upd_snapshot (\<lambda>s. s\<lparr>sn_messages := ms, sn_tree := Some (tree_state t)\<rparr>) (a\<lparr>ac_tree := t\<rparr>)"
      have "projected a \<Longrightarrow> projected ?a"
        using br Inr tree_branch_wf [of "ac_tree a" ?k]
        by (auto simp: projected_def upd_snapshot_def tree_branch_def Let_def split: if_splits)
      then have "steady a ?a" by (simp add: steady_def logs_def numbered_def upd_snapshot_def)
      moreover have "steady ?a (snd (and_then (emit ''session.tree.branched'' VisUser MetadataOnly None)
          (\<lambda>_. ret (BranchedTo ?k (length ms))) ?a))"
      proof -
        have "keeps steady (and_then (emit ''session.tree.branched'' VisUser MetadataOnly None)
          (\<lambda>_. ret (BranchedTo ?k (length ms))))" by (intro keep)
        then show ?thesis by (simp only: keeps_def)
      qed
      ultimately have "steady a (snd (and_then (emit ''session.tree.branched'' VisUser MetadataOnly None)
          (\<lambda>_. ret (BranchedTo ?k (length ms))) ?a))" by (rule steady_trans)
      then show ?thesis using False br Inr by (simp add: do_branch_def Let_def)
    qed
  qed
qed

lemma keeps_emit_ret: "steady a b \<Longrightarrow> steady a (snd (and_then (emit ty v r t) (\<lambda>_. ret x) b))"
proof -
  assume ab: "steady a b"
  have "keeps steady (and_then (emit ty v r t) (\<lambda>_. ret x))" by (intro keep)
  then have "steady b (snd (and_then (emit ty v r t) (\<lambda>_. ret x) b))" by (simp only: keeps_def)
  with ab show ?thesis by (rule steady_trans)
qed

lemma keeps_do_label: "keeps steady (do_label p)"
  unfolding keeps_def
proof
  fix a :: actor
  let ?k = "case map_of p ''entryId'' of Some (JStr s) \<Rightarrow> s | _ \<Rightarrow> []"
  let ?l = "case map_of p ''label'' of Some (JStr s) \<Rightarrow> Some s | _ \<Rightarrow> None"
  obtain r t where lb: "tree_label ?k ?l (ac_tree a) = (r, t)" by fastforce
  show "steady a (snd (do_label p a))"
  proof (cases r)
    case (Inl e)
    then show ?thesis using lb by (auto simp: do_label_def Let_def steady_refl)
  next
    case (Inr e)
    let ?a = "upd_snapshot (\<lambda>s. s\<lparr>sn_tree := Some (tree_state t)\<rparr>) (a\<lparr>ac_tree := t\<rparr>)"
    have "projected a \<Longrightarrow> projected ?a"
      using tree_label_messages [OF lb [unfolded Inr]] tree_label_wf [of "ac_tree a" ?k ?l] lb
      by (simp add: projected_def upd_snapshot_def)
    then have "steady a ?a" by (simp add: steady_def logs_def numbered_def upd_snapshot_def)
    then have "steady a (snd (and_then (emit ''session.tree.labeled'' VisUser MetadataOnly None)
        (\<lambda>_. ret (LabeledWith ?k (te_labels e))) ?a))" by (rule keeps_emit_ret)
    then show ?thesis using lb Inr by (simp add: do_label_def Let_def steady_refl)
  qed
qed

lemma keeps_do_select: "keeps steady (do_select env p)"
  unfolding do_select_def Let_def by (intro keep keeps_upd) simp_all

lemma keeps_do_task: "keeps steady (do_task env action p)"
  unfolding keeps_def
proof
  fix a :: actor
  obtain r ts where t: "applyTaskAction (env_now env) (env_uuid env (ac_ids a)) (sn_sessionId (ac_snapshot a))
      (sn_childSessionIds (ac_snapshot a)) action p (sn_tasks (ac_snapshot a)) = (r, ts)" by fastforce
  let ?a = "upd_snapshot (\<lambda>s. s\<lparr>sn_tasks := ts\<rparr>) (a\<lparr>ac_ids := ac_ids a + 1\<rparr>)"
  have a: "steady a ?a"
    by (simp add: steady_def logs_def numbered_def projected_def upd_snapshot_def)
  show "steady a (snd (do_task env action p a))"
  proof (cases r)
    case (Inl e)
    then show ?thesis using t a by (simp add: do_task_def Let_def)
  next
    case (Inr v)
    then show ?thesis using t keeps_emit_ret [OF a]
      by (cases v) (simp_all add: do_task_def Let_def steady_refl)
  qed
qed

lemma keeps_do_prompt: "ids_ok env \<Longrightarrow> keeps steady (do_prompt env caps n steps command p)"
  unfolding do_prompt_def
  by (cases "map_of p ''text''"; cases "the (map_of p ''text'')") (auto intro!: keep keeps_runPrompt)

lemma keeps_fields: "(\<And>p. keeps steady (f p)) \<Longrightarrow> keeps steady (with_fields j f)"
  unfolding with_fields_def by (intro keep)

lemma keeps_handle:
  assumes "ids_ok env"
  shows "keeps steady (handle env caps n steps command)"
  unfolding handle_def Let_def
  by (cases "cmd_kind command")
    (auto intro!: keep keeps_fields keeps_do_prompt keeps_do_branch keeps_do_label keeps_do_select keeps_do_task
      keeps_goal keeps_configure keeps_compact assms)

lemma keeps_recover: "keeps steady (recover env)"
  unfolding recover_def by (intro keep keeps_modify_turn)

lemma keeps_initialize: "keeps steady (initialize env recovered)"
  unfolding initialize_def by (intro keep)

lemma dispatch_steady:
  assumes "ids_ok env"
  shows "steady a (snd (dispatch env caps n steps command a))"
proof -
  obtain r a' where h: "handle env caps n steps command a = (r, a')" by fastforce
  have step: "steady a a'" using keepsD [OF keeps_handle [OF assms] h] .
  have "steady a (snd (persistSnapshot env a'))" "steady a (snd (recover env a'))"
    using keeps_persist keeps_recover steady_trans [OF step] by (simp_all add: keeps_def)
  moreover have "steady a (a\<lparr>ac_activeAbort := x\<rparr>)" for x
    by (simp add: steady_def logs_def numbered_def projected_def)
  ultimately show ?thesis using h
    by (cases r) (auto simp: dispatch_def steady_refl split: option.split)
qed

text \<open>What a command leaves behind when it is over.\<close>

lemma persist_saved: "ac_saved (snd (persistSnapshot env a)) = Some (ac_snapshot (snd (persistSnapshot env a)))"
  by (simp add: persistSnapshot_def Let_def)

lemma persist_same:
  "sn_status (ac_snapshot (snd (persistSnapshot env a))) = sn_status (ac_snapshot a)"
  "sn_activeTurnId (ac_snapshot (snd (persistSnapshot env a))) = sn_activeTurnId (ac_snapshot a)"
  "ac_activeAbort (snd (persistSnapshot env a)) = ac_activeAbort a"
  by (simp_all add: persistSnapshot_def Let_def)

lemma recover_end:
  "ac_saved (snd (recover env a)) = Some (ac_snapshot (snd (recover env a)))
   \<and> sn_activeTurnId (ac_snapshot (snd (recover env a))) = None
   \<and> ac_activeAbort (snd (recover env a)) = None
   \<and> sn_status (ac_snapshot (snd (recover env a)))
       = (if sn_status (ac_snapshot a) \<in> {Closed, Paused} then sn_status (ac_snapshot a) else Idle)"
  by (auto simp: recover_def and_then_def reads_def modify_def emit_def setStatus_def ret_def persistSnapshot_def
      upd_snapshot_def Let_def)

section \<open>What compaction shows and keeps\<close>

text \<open>What is relied on of \<^verbatim>\<open>randomUUID\<close> here: it never returns an id twice, or one of the tree.\<close>

definition ids_fresh :: "actor_env \<Rightarrow> actor \<Rightarrow> bool" where
  "ids_fresh env a \<longleftrightarrow> inj (env_uuid env)
     \<and> (\<forall>n \<ge> ac_ids a. env_uuid env n \<notin> fst ` set (tr_entries (ac_tree a)))"

lemma fresh_append:
  assumes ids: "ids_ok env" and fresh: "ids_fresh env a" and proj: "projected a"
    and m: "\<And>i. msg_id (m i) = i"
  obtains b where "and_then (newId env) (\<lambda>i. appendMessage env (m i) reset) a = (Inr (), b)"
    and "projected b" and "ids_fresh env b"
    and "sn_messages (ac_snapshot b) = (if reset then [] else sn_messages (ac_snapshot a)) @ [m (env_uuid env (ac_ids a))]"
    and "\<exists>es. tr_entries (ac_tree b) = tr_entries (ac_tree a) @ es"
proof -
  let ?i = "env_uuid env (ac_ids a)" and ?a = "a\<lparr>ac_ids := ac_ids a + 1\<rparr>"
  have proj': "projected ?a" using proj by (simp add: projected_def)
  have new: "?i \<notin> fst ` set (tr_entries (ac_tree a))" using fresh by (simp add: ids_fresh_def)
  have leaf: "truthy (tr_activeLeafId (ac_tree a)) = Some p \<Longrightarrow> map_has (tr_entries (ac_tree a)) p" for p
    using proj by (simp add: projected_def tree_wf_def)
  obtain entry t where app: "tree_append (env_now env) (m ?i) None reset (ac_tree ?a) = (Inr entry, t)"
    using new leaf by (cases "truthy (tr_activeLeafId (ac_tree a))")
      (auto simp: tree_append_def m map_of_eq_None_iff Let_def)
  have ne: "msg_id (m ?i) \<noteq> []" using ids by (simp add: m ids_ok_def)
  note ok = appendMessage_ok [OF proj' ne app]
  let ?b = "snd (appendMessage env (m ?i) reset ?a)"
  have entries: "tr_entries (ac_tree ?b) = tr_entries (ac_tree a) @ [(?i, entry)]"
    using tree_append_ok(1) [OF app] ok(4) by (simp add: m)
  have "ac_ids ?b = ac_ids a + 1"
    by (auto simp: appendMessage_def upd_snapshot_def Let_def split: prod.split sum.split)
  then have "ids_fresh env ?b"
    using fresh entries by (auto simp: ids_fresh_def inj_eq)
  moreover have "and_then (newId env) (\<lambda>i. appendMessage env (m i) reset) a = (Inr (), ?b)"
    using ok(1) by (simp add: and_then_def newId_def) (metis prod.collapse)
  moreover have "sn_messages (ac_snapshot ?b) = (if reset then [] else sn_messages (ac_snapshot a)) @ [m ?i]"
    using ok(3) by simp
  ultimately show ?thesis using that ok(2) entries by blast
qed

lemma retain_all:
  assumes "ids_ok env" and "ids_fresh env a" and "projected a"
  shows "\<exists>b is. for_each ms (retain_copy env) a = (Inr (), b) \<and> projected b \<and> length is = length ms
    \<and> sn_messages (ac_snapshot b) = sn_messages (ac_snapshot a)
        @ map2 (\<lambda>m i. m\<lparr>msg_id := i, msg_timestamp := env_now env\<rparr>) ms is
    \<and> (\<exists>es. tr_entries (ac_tree b) = tr_entries (ac_tree a) @ es)"
  using assms(2,3)
proof (induction ms arbitrary: a)
  case Nil
  then show ?case by simp
next
  case (Cons m ms)
  obtain b where b: "retain_copy env m a = (Inr (), b)" "projected b" "ids_fresh env b"
      "sn_messages (ac_snapshot b) = sn_messages (ac_snapshot a)
         @ [m\<lparr>msg_id := env_uuid env (ac_ids a), msg_timestamp := env_now env\<rparr>]"
      "\<exists>es. tr_entries (ac_tree b) = tr_entries (ac_tree a) @ es"
    using fresh_append [OF assms(1) Cons.prems, of "\<lambda>i. m\<lparr>msg_id := i, msg_timestamp := env_now env\<rparr>" False]
    by (auto simp: retain_copy_def)
  from Cons.IH [OF b(3,2)] obtain c js where c: "for_each ms (retain_copy env) b = (Inr (), c)" "projected c"
      "length js = length ms" "sn_messages (ac_snapshot c) = sn_messages (ac_snapshot b)
        @ map2 (\<lambda>m i. m\<lparr>msg_id := i, msg_timestamp := env_now env\<rparr>) ms js"
      "\<exists>es. tr_entries (ac_tree c) = tr_entries (ac_tree b) @ es" by blast
  show ?case
    by (rule exI [of _ c], rule exI [of _ "env_uuid env (ac_ids a) # js"]) (use b c in auto)
qed

lemma emit_simps [simp]:
  "fst (emit ty v r t a) = Inr ()" "ac_tree (snd (emit ty v r t a)) = ac_tree a"
  "sn_messages (ac_snapshot (snd (emit ty v r t a))) = sn_messages (ac_snapshot a)"
  "ac_ids (snd (emit ty v r t a)) = ac_ids a"
  by (simp_all add: emit_def Let_def)

lemma setStatus_simps [simp]:
  "fst (setStatus env st t a) = Inr ()" "ac_tree (snd (setStatus env st t a)) = ac_tree a"
  "sn_messages (ac_snapshot (snd (setStatus env st t a))) = sn_messages (ac_snapshot a)"
  "ac_ids (snd (setStatus env st t a)) = ac_ids a"
  by (simp_all add: setStatus_def upd_snapshot_def)

lemma and_then_Inr: "fst (f s) = Inr x \<Longrightarrow> and_then f g s = g x (snd (f s))"
  by (cases "f s") (simp add: and_then_def)

lemma and_then_assoc: "and_then (and_then f g) h = and_then f (\<lambda>x. and_then (g x) h)"
  by (rule ext) (simp add: and_then_def split: prod.split sum.split)

lemma compact_long:
  assumes ids: "ids_ok env" and fresh: "ids_fresh env a" and proj: "projected a"
    and long: "length (sn_messages (ac_snapshot a)) > 12"
  shows "\<exists>b i is. compact_session env a = (Inr (True, length (sn_messages (ac_snapshot a)) - 12, 12), b)
    \<and> length is = 12
    \<and> sn_messages (ac_snapshot b) =
        summary_message env i (take (length (sn_messages (ac_snapshot a)) - 12) (sn_messages (ac_snapshot a)))
        # map2 (\<lambda>m i. m\<lparr>msg_id := i, msg_timestamp := env_now env\<rparr>) (take_last 12 (sn_messages (ac_snapshot a))) is
    \<and> (\<exists>es. tr_entries (ac_tree b) = tr_entries (ac_tree a) @ es)"
proof -
  let ?ms = "sn_messages (ac_snapshot a)"
  let ?removed = "take (length ?ms - 12) ?ms"
  define a1 where "a1 = snd (setStatus env Compacting None a)"
  have "steady a a1" using keeps_setStatus by (simp add: a1_def keeps_def)
  then have proj1: "projected a1" using proj by (simp add: steady_def)
  have fresh1: "ids_fresh env a1" using fresh by (simp add: ids_fresh_def a1_def)
  have m: "msg_id (summary_message env i ?removed) = i" for i by (simp add: summary_message_def)
  obtain a2 where a2: "and_then (newId env) (\<lambda>i. appendMessage env (summary_message env i ?removed) True) a1 = (Inr (), a2)"
      "projected a2" "ids_fresh env a2"
      "sn_messages (ac_snapshot a2) = [summary_message env (env_uuid env (ac_ids a1)) ?removed]"
      "\<exists>es. tr_entries (ac_tree a2) = tr_entries (ac_tree a) @ es"
    using fresh_append [OF ids fresh1 proj1, of "\<lambda>i. summary_message env i ?removed" True, OF m]
    by (auto simp: a1_def)
  obtain a3 js where a3: "for_each (take_last 12 ?ms) (retain_copy env) a2 = (Inr (), a3)" "length js = 12"
      "sn_messages (ac_snapshot a3) = sn_messages (ac_snapshot a2)
        @ map2 (\<lambda>m i. m\<lparr>msg_id := i, msg_timestamp := env_now env\<rparr>) (take_last 12 ?ms) js"
      "\<exists>es. tr_entries (ac_tree a3) = tr_entries (ac_tree a2) @ es"
    using retain_all [OF ids a2(3,2), of "take_last 12 ?ms"] long by auto
  obtain a4 where a4: "emit ''session.compacted'' VisUser ModelContent None a3 = (Inr (), a4)"
    using emit_simps(1) by (metis prod.collapse)
  obtain b where b: "setStatus env Idle None a4 = (Inr (), b)"
    using setStatus_simps(1) by (metis prod.collapse)
  have same: "ac_tree b = ac_tree a3" "sn_messages (ac_snapshot b) = sn_messages (ac_snapshot a3)"
    using emit_simps(2,3) [of _ _ _ _ a3] setStatus_simps(2,3) [of env Idle None a4] a4 b by (metis snd_conv)+
  have "compact_session env a = (Inr (True, length ?ms - 12, 12), b)"
    using long a2(1) a3(1) a4 b
    by (simp add: compact_session_def and_then_Inr a1_def [symmetric] reads_def Let_def)
      (simp add: and_then_assoc [symmetric] and_then_Inr ret_def, simp add: a1_def and_then_def ret_def)
  moreover have "\<exists>es. tr_entries (ac_tree b) = tr_entries (ac_tree a) @ es" using a2(5) a3(4) same(1) by auto
  moreover have "sn_messages (ac_snapshot b) = summary_message env (env_uuid env (ac_ids a1)) ?removed
      # map2 (\<lambda>m i. m\<lparr>msg_id := i, msg_timestamp := env_now env\<rparr>) (take_last 12 ?ms) js"
    using same(2) a3(3) a2(4) by simp
  ultimately show ?thesis using a3(2) by blast
qed

section \<open>Properties\<close>


definition demo_env :: actor_env where
  "demo_env = \<lparr>env_now = 7, env_uuid = (\<lambda>n. replicate (Suc n) CHR ''u''), env_modelName = None, env_modelFallbacks = None\<rparr>"

lemma demo_env_ok: "ids_ok demo_env"
  by (simp add: ids_ok_def demo_env_def)

definition demo_actor :: actor where
  "demo_actor =
     \<lparr>ac_snapshot = (createInitialSnapshot demo_env ''s'' None None ''t'' ''n'' None None None)
        \<lparr>sn_tree := Some \<lparr>ts_entries = [], ts_activeLeafId = None\<rparr>, sn_lastSequence := 4, sn_status := Idle\<rparr>,
      ac_tree = \<lparr>tr_entries = [], tr_activeLeafId = None\<rparr>, ac_events = [], ac_saved = None, ac_delivered = [],
      ac_activeAbort = None, ac_ids = 0\<rparr>"

lemma demo_actor_projected: "projected demo_actor"
  by (simp add: projected_def demo_actor_def tree_wf_def tree_state_def truthy_def activeMessages_def walk.simps
      createInitialSnapshot_def entries_wf.nil)


text \<open>C5. The snapshot's messages are the active path of the conversation tree and its tree is the tree's
  state, after every command, also one that fails half way.\<close>

theorem dispatch_projection:
  assumes "ids_ok env" and "projected a"
  shows "projected (snd (dispatch env caps n steps command a))"
  using dispatch_steady [OF assms(1)] assms(2) by (simp add: steady_def)

lemma dispatch_projection_witness:
  "projected (snd (dispatch demo_env [] 3 [] (demo_command\<lparr>cmd_payload := JObj [(''text'', JStr ''hi'')]\<rparr>) demo_actor))"
  by (rule dispatch_projection [OF demo_env_ok demo_actor_projected])



text \<open>Compaction of a long conversation always succeeds; the model then sees a summary followed by the last
  twelve messages with their content unchanged, and no entry of the tree is lost: the old conversation
  can still be branched to.\<close>

theorem compaction_keeps_tail:
  assumes "ids_ok env" and "ids_fresh env a" and "projected a" and "length (sn_messages (ac_snapshot a)) > 12"
  shows "\<exists>b. compact_session env a = (Inr (True, length (sn_messages (ac_snapshot a)) - 12, 12), b)
    \<and> length (sn_messages (ac_snapshot b)) = 13
    \<and> msg_role (hd (sn_messages (ac_snapshot b))) = RoleSystem
    \<and> map msg_content (tl (sn_messages (ac_snapshot b))) = map msg_content (take_last 12 (sn_messages (ac_snapshot a)))
    \<and> (\<exists>es. tr_entries (ac_tree b) = tr_entries (ac_tree a) @ es)"
proof -
  from compact_long [OF assms] obtain b i js where b:
    "compact_session env a = (Inr (True, length (sn_messages (ac_snapshot a)) - 12, 12), b)" "length js = 12"
    "sn_messages (ac_snapshot b) =
        summary_message env i (take (length (sn_messages (ac_snapshot a)) - 12) (sn_messages (ac_snapshot a)))
        # map2 (\<lambda>m i. m\<lparr>msg_id := i, msg_timestamp := env_now env\<rparr>) (take_last 12 (sn_messages (ac_snapshot a))) js"
    "\<exists>es. tr_entries (ac_tree b) = tr_entries (ac_tree a) @ es" by blast
  have "length ms = length js \<Longrightarrow> map msg_content
      (map2 (\<lambda>m i. m\<lparr>msg_id := i, msg_timestamp := env_now env\<rparr>) ms js) = map msg_content ms" for ms
    by (induction ms js rule: list_induct2) simp_all
  from this [of "take_last 12 (sn_messages (ac_snapshot a))"]
  show ?thesis using b assms(4) by (simp add: summary_message_def del: append.simps)
qed

definition long_messages :: "agent_message list" where
  "long_messages = map (\<lambda>n. demo_message (replicate (Suc n) CHR ''m'')) [0..<13]"

definition long_actor :: "actor option" where
  "long_actor = (case new_actor demo_env 0
     ((createInitialSnapshot demo_env ''s'' None None ''t'' ''n'' (Some long_messages) None None)) of
       Inl _ \<Rightarrow> None | Inr a \<Rightarrow> Some a)"

lemma tree_appends_messages:
  "tree_wf t \<Longrightarrow> \<forall>x \<in> set xs. msg_id x \<noteq> [] \<Longrightarrow> activeMessages t = ok ms \<Longrightarrow>
   distinct (map msg_id xs) \<Longrightarrow> \<forall>x \<in> set xs. msg_id x \<notin> fst ` set (tr_entries t) \<Longrightarrow>
   \<exists>t'. tree_appends now xs t = Inr t' \<and> tree_wf t' \<and> activeMessages t' = ok (ms @ xs)
     \<and> fst ` set (tr_entries t') = fst ` set (tr_entries t) \<union> msg_id ` set xs"
proof (induction xs arbitrary: t ms)
  case (Cons x xs)
  have leaf: "truthy (tr_activeLeafId t) = Some p \<Longrightarrow> map_has (tr_entries t) p" for p
    using Cons.prems(1) by (simp add: tree_wf_def)
  obtain entry u where app: "tree_append now x None False t = (Inr entry, u)"
    using Cons.prems(5) leaf by (cases "truthy (tr_activeLeafId t)")
      (auto simp: tree_append_def map_of_eq_None_iff Let_def)
  have ne: "msg_id x \<noteq> []" using Cons.prems(2) by simp
  from tree_append_step [OF Cons.prems(1) ne app] Cons.prems(3)
  have u: "tree_wf u" "activeMessages u = ok (ms @ [x])" by auto
  have keys: "fst ` set (tr_entries u) = insert (msg_id x) (fst ` set (tr_entries t))"
    using tree_append_ok(1) [OF app] by simp
  have "\<forall>y \<in> set xs. msg_id y \<notin> fst ` set (tr_entries u)"
    using Cons.prems(4,5) keys by (auto simp: image_iff)
  from Cons.IH [OF u(1) _ u(2) _ this] Cons.prems(2,4) keys show ?case using app by auto
qed simp

lemma long_actor_ok:
  obtains a where "long_actor = Some a" "projected a" "sn_messages (ac_snapshot a) = long_messages" "ids_fresh demo_env a"
proof -
  let ?t0 = "\<lparr>tr_entries = [], tr_activeLeafId = None\<rparr> :: session_tree"
  have "tree_wf ?t0" "activeMessages ?t0 = ok []"
    by (simp_all add: tree_wf_def truthy_def activeMessages_def walk.simps entries_wf.nil)
  moreover have "distinct (map msg_id long_messages)"
    by (simp add: long_messages_def demo_message_def comp_def distinct_map inj_on_def) 
  ultimately obtain t where t: "tree_appends 7 long_messages ?t0 = Inr t" "tree_wf t"
      "activeMessages t = ok long_messages" "fst ` set (tr_entries t) = msg_id ` set long_messages"
    using tree_appends_messages [of ?t0 long_messages "[]" 7]
    by (auto simp: long_messages_def demo_message_def)
  let ?s = "createInitialSnapshot demo_env ''s'' None None ''t'' ''n'' (Some long_messages) None None"
  let ?a = "\<lparr>ac_snapshot = ?s\<lparr>sn_tree := Some (tree_state t), sn_messages := long_messages\<rparr>, ac_tree = t,
               ac_events = [], ac_saved = None, ac_delivered = [], ac_activeAbort = None, ac_ids = 0\<rparr> :: actor"
  have "long_actor = Some ?a"
    using t by (simp add: long_actor_def new_actor_def tree_new_def demo_env_def createInitialSnapshot_def)
  moreover have "projected ?a" using t by (simp add: projected_def)
  moreover have "ids_fresh demo_env ?a"
    using t(4) by (auto simp: ids_fresh_def demo_env_def inj_on_def long_messages_def demo_message_def)
  ultimately show ?thesis using that by simp
qed

lemma compaction_keeps_tail_witness:
  "\<exists>a b. long_actor = Some a \<and> compact_session demo_env a = (Inr (True, 1, 12), b)
    \<and> length (sn_messages (ac_snapshot b)) = 13
    \<and> map msg_content (tl (sn_messages (ac_snapshot b))) = map msg_content (take_last 12 long_messages)"
proof -
  obtain a where a: "long_actor = Some a" "projected a" "sn_messages (ac_snapshot a) = long_messages" "ids_fresh demo_env a"
    by (rule long_actor_ok)
  have len: "length long_messages = 13" by (simp add: long_messages_def)
  from compaction_keeps_tail [OF demo_env_ok a(4,2)] a len show ?thesis by auto
qed

end
