(* ===== verification/AgentInbox.thy ===== *)
theory AgentInbox
  imports Types
begin

text \<open>
  The inbox of an agent, \<^verbatim>\<open>FileAgentInboxStore\<close> of \<^verbatim>\<open>runtime/agent-inbox.ts\<close>: one JSON array per
  target session. Every operation runs under the lock of the target, loads the array, works on it and
  writes it back atomically, so an operation is a function on the array; a load or a write that fails
  throws and leaves the file as it was. The wake-up listeners and the Postgres store are not modelled.
\<close>

type_synonym inbox = "inbox_message list"

definition recover_claim :: "msec \<Rightarrow> int \<Rightarrow> inbox_message \<Rightarrow> inbox_message" where
  "recover_claim now claimTimeoutMs m =
     (if in_state m = InClaimed \<and> in_updatedAt m \<le> now - claimTimeoutMs
      then m\<lparr>in_state := InUncertain,
             in_uncertainReason := Some ''claim_owner_lost_before_delivery_confirmation'',
             in_updatedAt := now, in_ownerId := None\<rparr>
      else m)"

definition recoverStaleClaims :: "msec \<Rightarrow> int \<Rightarrow> inbox \<Rightarrow> inbox" where
  "recoverStaleClaims now claimTimeoutMs messages = map (recover_claim now claimTimeoutMs) messages"

text \<open>\<^verbatim>\<open>enqueue\<close>: a message whose id or command id is there already is dropped, and then nothing is saved.\<close>

definition inbox_enqueue :: "msec \<Rightarrow> int \<Rightarrow> inbox_message \<Rightarrow> inbox \<Rightarrow> bool \<times> inbox" where
  "inbox_enqueue now tmo message stored =
     (let messages = recoverStaleClaims now tmo stored in
      if list_ex (\<lambda>item. in_id item = in_id message \<or> in_commandId item = in_commandId message) messages
      then (False, stored) else (True, messages @ [message]))"

definition inbox_pendingCount :: "msec \<Rightarrow> int \<Rightarrow> inbox \<Rightarrow> nat \<times> inbox" where
  "inbox_pendingCount now tmo stored =
     (let messages = recoverStaleClaims now tmo stored in
      (length (filter (\<lambda>m. in_state m = InPending \<or> in_state m = InClaimed) messages), messages))"

definition inbox_claimNext ::
    "msec \<Rightarrow> int \<Rightarrow> effective_mode list \<Rightarrow> id \<Rightarrow> inbox \<Rightarrow> inbox_message option \<times> inbox" where
  "inbox_claimNext now tmo effectiveModes ownerId stored =
     (let messages = recoverStaleClaims now tmo stored;
          waiting = sort_key in_createdAt
            (filter (\<lambda>m. in_state m = InPending \<and> in_effectiveMode m \<in> set effectiveModes) messages)
      in case waiting of
           [] \<Rightarrow> (None, messages)
         | next # _ \<Rightarrow>
             let claimed = next\<lparr>in_state := InClaimed, in_ownerId := Some ownerId, in_updatedAt := now\<rparr>
             in (Some claimed, update_first (\<lambda>m. m = next) (\<lambda>_. claimed) messages))"

datatype inbox_error = NoInboxMessage id | NotOwned id

text \<open>\<^verbatim>\<open>transition\<close>: does not recover stale claims first; a repeated transition returns the message.\<close>

definition inbox_transition ::
    "msec \<Rightarrow> id \<Rightarrow> id \<Rightarrow> bool \<Rightarrow> msec option \<Rightarrow> string option \<Rightarrow> inbox
       \<Rightarrow> (inbox_error, inbox_message) result \<times> inbox" where
  "inbox_transition now i ownerId delivered deliveredAt details messages =
     (case List.find (\<lambda>m. in_id m = i) messages of
        None \<Rightarrow> (throw (NoInboxMessage i), messages)
      | Some m \<Rightarrow>
          if in_state m = (if delivered then InDelivered else InUncertain) then (ok m, messages)
          else if in_state m \<noteq> InClaimed \<or> in_ownerId m \<noteq> Some ownerId then (throw (NotOwned i), messages)
          else
            let m' = (if delivered
              then m\<lparr>in_state := InDelivered, in_updatedAt := now, in_ownerId := None,
                     in_deliveredAt := Some (case deliveredAt of Some t \<Rightarrow> t | None \<Rightarrow> now),
                     in_uncertainReason := None\<rparr>
              else m\<lparr>in_state := InUncertain, in_updatedAt := now, in_ownerId := None,
                     in_uncertainReason := Some (case details of Some r \<Rightarrow> r | None \<Rightarrow> ''delivery_outcome_uncertain'')\<rparr>)
            in (ok m', update_first (\<lambda>x. in_id x = i) (\<lambda>_. m') messages))"

definition inbox_list :: "msec \<Rightarrow> int \<Rightarrow> inbox_state list option \<Rightarrow> inbox \<Rightarrow> inbox_message list \<times> inbox" where
  "inbox_list now tmo states stored =
     (let messages = recoverStaleClaims now tmo stored in
      (sort_key in_createdAt (filter (\<lambda>m. case states of None \<Rightarrow> True | Some ss \<Rightarrow> in_state m \<in> set ss) messages),
       messages))"

section \<open>Runs\<close>

datatype inbox_action =
    Enqueue msec inbox_message
  | CountPending msec
  | ClaimNext msec "effective_mode list" id
  | MarkDelivered msec id id "msec option"
  | MarkUncertain msec id id "string option"
  | ListInbox msec

text \<open>The messages handed to a deliverer, in order, are the second component.\<close>

fun inbox_step :: "int \<Rightarrow> inbox_action \<Rightarrow> inbox \<times> id list \<Rightarrow> inbox \<times> id list" where
  "inbox_step tmo (Enqueue now m) (box, claims) = (snd (inbox_enqueue now tmo m box), claims)"
| "inbox_step tmo (CountPending now) (box, claims) = (snd (inbox_pendingCount now tmo box), claims)"
| "inbox_step tmo (ClaimNext now modes owner) (box, claims) =
     (case inbox_claimNext now tmo modes owner box of
        (None, box') \<Rightarrow> (box', claims)
      | (Some m, box') \<Rightarrow> (box', claims @ [in_id m]))"
| "inbox_step tmo (MarkDelivered now i owner dt) (box, claims) =
     (snd (inbox_transition now i owner True dt None box), claims)"
| "inbox_step tmo (MarkUncertain now i owner r) (box, claims) =
     (snd (inbox_transition now i owner False None r box), claims)"
| "inbox_step tmo (ListInbox now) (box, claims) = (snd (inbox_list now tmo None box), claims)"

definition inbox_run :: "int \<Rightarrow> inbox_action list \<Rightarrow> inbox \<times> id list" where
  "inbox_run tmo acts = fold (inbox_step tmo) acts ([], [])"

text \<open>Enqueued messages are new: \<^verbatim>\<open>newAgentInboxMessage\<close> makes them pending.\<close>

definition enqueues_pending :: "inbox_action list \<Rightarrow> bool" where
  "enqueues_pending acts = list_all (\<lambda>a. case a of Enqueue _ m \<Rightarrow> in_state m = InPending | _ \<Rightarrow> True) acts"

section \<open>Invariant\<close>

text \<open>Ids are distinct, a message handed out is in the box and no longer pending, and only those are.\<close>

definition inbox_inv :: "inbox \<times> id list \<Rightarrow> bool" where
  "inbox_inv = (\<lambda>(box, claims). distinct (map in_id box) \<and> distinct (map in_commandId box) \<and> distinct claims
     \<and> (\<forall>m \<in> set box. in_state m = InPending \<longleftrightarrow> in_id m \<notin> set claims)
     \<and> set claims \<subseteq> set (map in_id box))"

lemma recover_simps [simp]:
  "in_id (recover_claim now tmo m) = in_id m" "in_commandId (recover_claim now tmo m) = in_commandId m"
  "in_state (recover_claim now tmo m) = InPending \<longleftrightarrow> in_state m = InPending"
  "in_createdAt (recover_claim now tmo m) = in_createdAt m"
  by (auto simp: recover_claim_def)

lemma recover_maps [simp]:
  "map in_id (recoverStaleClaims now tmo box) = map in_id box"
  "map in_commandId (recoverStaleClaims now tmo box) = map in_commandId box"
  by (simp_all add: recoverStaleClaims_def)

lemma recover_sets [simp]:
  "in_id ` set (recoverStaleClaims now tmo box) = in_id ` set box"
  "in_commandId ` set (recoverStaleClaims now tmo box) = in_commandId ` set box"
  by (simp_all add: recoverStaleClaims_def image_image)

lemma update_first_cong:
  "(\<And>y. y \<in> set xs \<Longrightarrow> p y \<longleftrightarrow> q y) \<Longrightarrow> update_first p f xs = update_first q f xs"
  by (induction xs) auto

lemma inbox_inv_recover: "inbox_inv (box, claims) \<Longrightarrow> inbox_inv (recoverStaleClaims now tmo box, claims)"
  by (auto simp: inbox_inv_def recoverStaleClaims_def comp_def image_image)

lemma update_first_unique:
  assumes "distinct (map key xs)" and "x \<in> set xs" and "\<And>y. p y \<longleftrightarrow> key y = key x"
  shows "set (update_first p (\<lambda>_. z) xs) = insert z (set xs - {x})"
  using assms
proof (induction xs)
  case (Cons y ys)
  show ?case
  proof (cases "p y")
    case True
    then have "key y = key x" using Cons.prems by simp
    then have "y = x" "x \<notin> set ys" using Cons.prems by auto
    then show ?thesis using True by simp
  next
    case False
    then have "x \<in> set ys" "y \<noteq> x" using Cons.prems by auto
    then show ?thesis using False Cons by auto
  qed
qed simp

lemma map_update_first_unique:
  assumes "distinct (map key xs)" and "x \<in> set xs" and "\<And>y. p y \<longleftrightarrow> key y = key x" and "f z = f x"
  shows "map f (update_first p (\<lambda>_. z) xs) = map f xs"
  using assms
proof (induction xs)
  case (Cons y ys)
  show ?case
  proof (cases "p y")
    case True
    then have "key y = key x" using Cons.prems by simp
    then have "y = x" using Cons.prems by auto
    then show ?thesis using True Cons.prems by simp
  next
    case False
    then have "x \<in> set ys" using Cons.prems by auto
    then show ?thesis using False Cons by simp
  qed
qed simp

text \<open>A claim or a transition replaces one message by one with the same ids.\<close>

lemma inbox_inv_replace:
  assumes inv: "inbox_inv (box, claims)" and x: "x \<in> set box" and p: "\<And>y. y \<in> set box \<Longrightarrow> p y \<longleftrightarrow> in_id y = in_id x"
    and z: "in_id z = in_id x" "in_commandId z = in_commandId x"
    and claims': "distinct claims'" "set claims' = insert (in_id x) (set claims)" "in_state z \<noteq> InPending"
  shows "inbox_inv (update_first p (\<lambda>_. z) box, claims')"
proof -
  have "update_first p (\<lambda>_. z) box = update_first (\<lambda>y. in_id y = in_id x) (\<lambda>_. z) box"
    using p by (rule update_first_cong)
  moreover have set: "set (update_first (\<lambda>y. in_id y = in_id x) (\<lambda>_. z) box) = insert z (set box - {x})"
    using inv x by (intro update_first_unique [where key = in_id]) (auto simp: inbox_inv_def)
  moreover have "map f (update_first (\<lambda>y. in_id y = in_id x) (\<lambda>_. z) box) = map f box"
    if "f z = f x" for f :: "inbox_message \<Rightarrow> id"
    using inv x that by (intro map_update_first_unique [where key = in_id]) (auto simp: inbox_inv_def)
  moreover have "y \<in> set box \<Longrightarrow> y \<noteq> x \<Longrightarrow> in_id y \<noteq> in_id x" for y
    using inv x by (auto simp: inbox_inv_def dest: distinct_map [THEN iffD1] inj_onD)
  moreover have "in_id x \<in> set (map in_id box)" using x by simp
  ultimately show ?thesis
    using inv x z claims' unfolding inbox_inv_def by (auto simp del: set_map simp: set_map [symmetric])
qed

lemma claimNext_cases:
  assumes "inbox_claimNext now tmo modes owner box = (r, box')"
  obtains (none) "r = None" "box' = recoverStaleClaims now tmo box"
      "filter (\<lambda>m. in_state m = InPending \<and> in_effectiveMode m \<in> set modes) box' = []"
  | (some) m where "m \<in> set (recoverStaleClaims now tmo box)" "in_state m = InPending" "in_effectiveMode m \<in> set modes"
      "\<forall>x \<in> set (recoverStaleClaims now tmo box). in_state x = InPending \<and> in_effectiveMode x \<in> set modes
         \<longrightarrow> in_createdAt m \<le> in_createdAt x"
      "r = Some (m\<lparr>in_state := InClaimed, in_ownerId := Some owner, in_updatedAt := now\<rparr>)"
      "box' = update_first (\<lambda>x. x = m) (\<lambda>_. m\<lparr>in_state := InClaimed, in_ownerId := Some owner, in_updatedAt := now\<rparr>)
         (recoverStaleClaims now tmo box)"
proof -
  let ?ms = "recoverStaleClaims now tmo box"
  let ?w = "filter (\<lambda>m. in_state m = InPending \<and> in_effectiveMode m \<in> set modes) ?ms"
  show ?thesis
  proof (cases "sort_key in_createdAt ?w")
    case Nil
    then have "set ?w = {}" using set_sort [of in_createdAt ?w] by simp
    then have "?w = []" by simp
    then show ?thesis using Nil assms by (intro none) (auto simp: inbox_claimNext_def Let_def)
  next
    case (Cons m rest)
    have mem: "set ?w = insert m (set rest)" by (metis Cons list.simps(15) set_sort)
    have "sorted (map in_createdAt (m # rest))" using Cons sorted_sort_key by metis
    then have "\<forall>x \<in> set ?w. in_createdAt m \<le> in_createdAt x" unfolding mem by auto
    then show ?thesis using mem Cons assms by (intro some [of m]) (auto simp: inbox_claimNext_def Let_def)
  qed
qed

lemma transition_cases:
  assumes "inbox_transition now i owner delivered dt r box = (res, box')"
  obtains (same) "box' = box"
  | (moved) m m' where "List.find (\<lambda>m. in_id m = i) box = Some m" "in_state m = InClaimed" "in_ownerId m = Some owner"
      "in_state m' = (if delivered then InDelivered else InUncertain)" "in_id m' = in_id m" "in_commandId m' = in_commandId m"
      "res = Inr m'" "box' = update_first (\<lambda>x. in_id x = i) (\<lambda>_. m') box"
proof (cases "List.find (\<lambda>m. in_id m = i) box")
  case None
  then show ?thesis using assms by (intro same) (simp add: inbox_transition_def)
next
  case (Some m)
  consider "in_state m = (if delivered then InDelivered else InUncertain)"
    | "in_state m \<noteq> (if delivered then InDelivered else InUncertain)" "in_state m \<noteq> InClaimed \<or> in_ownerId m \<noteq> Some owner"
    | "in_state m \<noteq> (if delivered then InDelivered else InUncertain)" "in_state m = InClaimed" "in_ownerId m = Some owner"
    by blast
  then show ?thesis
  proof cases
    case 3
    define m' where "m' = (if delivered
        then m\<lparr>in_state := InDelivered, in_updatedAt := now, in_ownerId := None,
               in_deliveredAt := Some (case dt of Some t \<Rightarrow> t | None \<Rightarrow> now), in_uncertainReason := None\<rparr>
        else m\<lparr>in_state := InUncertain, in_updatedAt := now, in_ownerId := None,
               in_uncertainReason := Some (case r of Some r \<Rightarrow> r | None \<Rightarrow> ''delivery_outcome_uncertain'')\<rparr>)"
    have "res = Inr m'" "box' = update_first (\<lambda>x. in_id x = i) (\<lambda>_. m') box"
      using 3 Some assms by (auto simp: inbox_transition_def Let_def m'_def split: if_splits)
    then show ?thesis using Some 3 by (intro moved [of m m']) (auto simp: m'_def)
  qed (use Some assms in \<open>auto simp: inbox_transition_def intro: same\<close>)
qed

lemma inbox_inv_transition:
  assumes inv: "inbox_inv (box, claims)"
  shows "inbox_inv (snd (inbox_transition now i owner delivered dt r box), claims)"
proof -
  obtain res box' where t: "inbox_transition now i owner delivered dt r box = (res, box')" by fastforce
  from t have "inbox_inv (box', claims)"
  proof (cases rule: transition_cases)
    case (moved m m')
    have m: "m \<in> set box" "in_id m = i" using moved(1) find_Some_mem by fastforce+
    have c: "in_id m \<in> set claims" "distinct claims" using inv moved(2) m by (auto simp: inbox_inv_def)
    show ?thesis unfolding moved(8)
      by (rule inbox_inv_replace [OF inv m(1)]) (use m c moved(4,5,6) in \<open>auto split: if_splits\<close>)
  qed (use inv in simp)
  then show ?thesis using t by simp
qed

lemma inbox_inv_step:
  assumes inv: "inbox_inv (box, claims)" and new: "case a of Enqueue _ m \<Rightarrow> in_state m = InPending | _ \<Rightarrow> True"
  shows "inbox_inv (inbox_step tmo a (box, claims))"
proof (cases a)
  case (Enqueue now m)
  have rec: "inbox_inv (recoverStaleClaims now tmo box, claims)" using inbox_inv_recover [OF inv] .
  show ?thesis
  proof (cases "list_ex (\<lambda>item. in_id item = in_id m \<or> in_commandId item = in_commandId m) (recoverStaleClaims now tmo box)")
    case True
    then show ?thesis using inv Enqueue by (simp add: inbox_enqueue_def Let_def)
  next
    case False
    then have "in_id m \<notin> in_id ` set (recoverStaleClaims now tmo box)"
      "in_commandId m \<notin> in_commandId ` set (recoverStaleClaims now tmo box)"
      by (auto simp: list_ex_iff simp del: recover_sets)
    then have fresh: "in_id m \<notin> in_id ` set box" "in_commandId m \<notin> in_commandId ` set box" by simp_all
    then have "in_id m \<notin> set claims" using inv by (auto simp: inbox_inv_def)
    then have "inbox_inv (recoverStaleClaims now tmo box @ [m], claims)"
      using rec fresh new Enqueue unfolding inbox_inv_def by (simp add: subset_insertI2)
    then show ?thesis using False Enqueue by (simp add: inbox_enqueue_def Let_def)
  qed
next
  case (ClaimNext now modes owner)
  obtain r box' where c: "inbox_claimNext now tmo modes owner box = (r, box')" by fastforce
  have rec: "inbox_inv (recoverStaleClaims now tmo box, claims)" using inbox_inv_recover [OF inv] .
  from c show ?thesis
  proof (cases rule: claimNext_cases)
    case none
    then show ?thesis using rec c ClaimNext by simp
  next
    case (some m)
    have "in_id m \<notin> set claims" using rec some(1,2) by (auto simp: inbox_inv_def)
    moreover have "y \<in> set (recoverStaleClaims now tmo box) \<Longrightarrow> y = m \<longleftrightarrow> in_id y = in_id m" for y
      using rec some(1) unfolding inbox_inv_def by (auto simp: distinct_map inj_on_def simp del: recover_maps)
    ultimately have "inbox_inv (box', claims @ [in_id m])"
      unfolding some(6) using rec some(1)
      by (intro inbox_inv_replace) (auto simp: inbox_inv_def)
    then show ?thesis using c some(5) ClaimNext by simp
  qed
next
  case (MarkDelivered now i owner dt)
  then show ?thesis using inbox_inv_transition [OF inv, of now i owner True dt None] by simp
next
  case (MarkUncertain now i owner r)
  then show ?thesis using inbox_inv_transition [OF inv, of now i owner False None r] by simp
qed (use inv inbox_inv_recover in \<open>auto simp: inbox_pendingCount_def inbox_list_def Let_def\<close>)

lemma inbox_inv_run: "enqueues_pending acts \<Longrightarrow> inbox_inv (inbox_run tmo acts)"
proof -
  have "inbox_inv st \<Longrightarrow> enqueues_pending acts \<Longrightarrow> inbox_inv (fold (inbox_step tmo) acts st)" for st
  proof (induction acts arbitrary: st)
    case (Cons a acts)
    then show ?case using inbox_inv_step [of "fst st" "snd st" a tmo]
      by (simp add: enqueues_pending_def)
  qed simp
  moreover have "inbox_inv ([], [])" by (simp add: inbox_inv_def)
  ultimately show "enqueues_pending acts \<Longrightarrow> ?thesis" by (simp add: inbox_run_def)
qed

section \<open>Properties\<close>

text \<open>C10. No message is handed to a deliverer twice, whatever is enqueued again, claimed, confirmed, given up
  or timed out in between, and no two messages of an inbox have the same id or command id.\<close>

theorem inbox_delivers_once:
  assumes "enqueues_pending acts"
  shows "distinct (snd (inbox_run tmo acts)) \<and> distinct (map in_id (fst (inbox_run tmo acts)))
    \<and> distinct (map in_commandId (fst (inbox_run tmo acts)))"
  using inbox_inv_run [OF assms, of tmo] by (cases "inbox_run tmo acts") (simp add: inbox_inv_def)

definition demo_inbox_message :: "id \<Rightarrow> msec \<Rightarrow> effective_mode \<Rightarrow> inbox_message" where
  "demo_inbox_message i t mode = \<lparr>in_id = i, in_commandId = ''c'' @ i, in_tenantId = ''t'', in_familyId = ''f'',
     in_senderSessionId = ''a'', in_senderName = ''A'', in_targetSessionId = ''b'', in_targetName = ''B'',
     in_relationship = RelSibling, in_requestedMode = ModeAuto, in_effectiveMode = mode, in_text = ''hi'',
     in_state = InPending, in_createdAt = t, in_updatedAt = t, in_ownerId = None, in_deliveredAt = None,
     in_uncertainReason = None\<rparr>"

definition demo_inbox :: "inbox_action list" where
  "demo_inbox = [Enqueue 1 (demo_inbox_message ''m'' 1 Steer), ClaimNext 2 [Steer] ''o'', CountPending 1000,
     Enqueue 1001 (demo_inbox_message ''m'' 1 Steer), ClaimNext 1002 [Steer] ''o'']"

lemma inbox_delivers_once_witness:
  "distinct (snd (inbox_run 10 demo_inbox)) \<and> snd (inbox_run 10 demo_inbox) = [''m'']"
proof
  show "distinct (snd (inbox_run 10 demo_inbox))"
    using inbox_delivers_once [of demo_inbox 10] by (simp add: enqueues_pending_def demo_inbox_def demo_inbox_message_def)
  show "snd (inbox_run 10 demo_inbox) = [''m'']"
    by (simp add: inbox_run_def demo_inbox_def demo_inbox_message_def inbox_enqueue_def recoverStaleClaims_def
        recover_claim_def inbox_claimNext_def inbox_pendingCount_def Let_def)
qed

text \<open>A claim takes the oldest pending message of the modes asked for, gives it to the caller, and leaves
  every other message as it was apart from claims that have timed out.\<close>

theorem inbox_claims_oldest:
  assumes "distinct (map in_id box)" and "inbox_claimNext now tmo modes owner box = (Some m, box')"
  shows "in_state m = InClaimed \<and> in_ownerId m = Some owner \<and> in_effectiveMode m \<in> set modes
    \<and> list_all (\<lambda>x. \<not> (in_state x = InPending \<and> in_effectiveMode x \<in> set modes \<and> in_createdAt x < in_createdAt m)) box
    \<and> set box' = insert m (set (recoverStaleClaims now tmo box)
        - {x \<in> set (recoverStaleClaims now tmo box). in_id x = in_id m})"
  using assms(2)
proof (cases rule: claimNext_cases)
  case (some x)
  let ?ms = "recoverStaleClaims now tmo box"
  have dist: "distinct (map in_id ?ms)" using assms(1) by simp
  have x: "y \<in> set ?ms \<Longrightarrow> in_id y = in_id x \<Longrightarrow> y = x" for y
    using dist some(1) by (auto simp: distinct_map inj_on_def simp del: recover_maps)
  have "update_first (\<lambda>y. y = x) (\<lambda>_. m) ?ms = update_first (\<lambda>y. in_id y = in_id x) (\<lambda>_. m) ?ms"
    using x by (intro update_first_cong) blast
  then have "set box' = insert m (set ?ms - {x})"
    using some dist update_first_unique [of in_id ?ms x "\<lambda>y. in_id y = in_id x" m] by simp
  moreover have "{y \<in> set ?ms. in_id y = in_id x} = {x}" using x some(1) by blast
  moreover have "\<not> (in_state y = InPending \<and> in_effectiveMode y \<in> set modes \<and> in_createdAt y < in_createdAt x)"
    if "y \<in> set box" for y
  proof
    assume y: "in_state y = InPending \<and> in_effectiveMode y \<in> set modes \<and> in_createdAt y < in_createdAt x"
    then have "recover_claim now tmo y = y" by (simp add: recover_claim_def)
    then have "y \<in> set ?ms" using that by (metis image_eqI list.set_map recoverStaleClaims_def)
    then show False using some(4) y by force
  qed
  ultimately show ?thesis using some by (auto simp: list_all_iff)
qed simp

lemma inbox_claims_oldest_witness:
  "\<exists>m box'. inbox_claimNext 5 10 [FollowUp] ''o''
      [demo_inbox_message ''a'' 3 FollowUp, demo_inbox_message ''b'' 2 FollowUp] = (Some m, box')
    \<and> in_id m = ''b'' \<and> in_state m = InClaimed"
proof -
  let ?c = "inbox_claimNext 5 10 [FollowUp] ''o''
      [demo_inbox_message ''a'' 3 FollowUp, demo_inbox_message ''b'' 2 FollowUp]"
  have "map_option in_id (fst ?c) = Some ''b''"
    by (simp add: inbox_claimNext_def recoverStaleClaims_def recover_claim_def demo_inbox_message_def Let_def)
  then obtain m where m0: "fst ?c = Some m" and id: "in_id m = ''b''" unfolding map_option_eq_Some by (elim exE conjE)
  from m0 have m: "?c = (Some m, snd ?c)" by (subst prod.collapse [symmetric]) (simp only: m0)
  have "distinct (map in_id [demo_inbox_message ''a'' 3 FollowUp, demo_inbox_message ''b'' 2 FollowUp])"
    by (simp add: demo_inbox_message_def)
  from inbox_claims_oldest [OF this m(1)] have "in_state m = InClaimed" by (rule conjunct1)
  with m id show ?thesis by (intro exI conjI)
qed

end
