(* ===== verification/Supervisor.thy ===== *)
theory Supervisor
  imports SessionActor
begin

text \<open>
  The supervisor of \<^verbatim>\<open>runtime/supervisor.ts\<close>: the catalog of sessions, the actors resident in this
  process and the snapshot store behind them; creating, spawning, forking and closing sessions, and the
  fan-out limits. Files and git work trees, leases held by other processes and the interleaving of two
  calls are not modelled. A new id (\<^verbatim>\<open>randomUUID\<close>) is an argument, and so is the environment of a call.
\<close>

section \<open>State\<close>

record catalog_record =
  ct_sessionId :: id
  ct_tenantId :: string
  ct_familyId :: id
  ct_parent :: "id option"
  ct_forkedFrom :: "(id \<times> id option) option"
  ct_name :: string
  ct_createdAt :: msec

record fanout_limits =
  maxConcurrentChildren :: nat
  maxDepth :: nat
  maxLifetimeChildren :: nat

text \<open>\<^verbatim>\<open>DEFAULT_FANOUT\<close> and the normalisation the constructor does.\<close>

definition default_fanout :: fanout_limits where
  "default_fanout = \<lparr>maxConcurrentChildren = 20, maxDepth = 1, maxLifetimeChildren = 200\<rparr>"

definition new_fanout :: "rat option \<Rightarrow> rat option \<Rightarrow> rat option \<Rightarrow> fanout_limits" where
  "new_fanout concurrent depth lifetime =
     (let limit = (\<lambda>given default. case given of None \<Rightarrow> default | Some x \<Rightarrow> nat (max 0 \<lfloor>x\<rfloor>)) in
      \<lparr>maxConcurrentChildren = limit concurrent (maxConcurrentChildren default_fanout),
       maxDepth = limit depth (maxDepth default_fanout),
       maxLifetimeChildren = limit lifetime (maxLifetimeChildren default_fanout)\<rparr>)"

text \<open>\<open>sv_sequences\<close> is what \<^verbatim>\<open>eventStore.lastSequence\<close> answers; \<open>sv_snapshots\<close> is the snapshot store.\<close>

record supervisor =
  sv_catalog :: "catalog_record list"
  sv_actors :: "(id, actor) js_map"
  sv_snapshots :: "(id, session_snapshot) js_map"
  sv_sequences :: "(id, nat) js_map"

datatype fanout_reason = DepthLimit nat | ConcurrencyLimit nat | LifetimeLimit nat

datatype sup_error =
    SessionExists id
  | SiblingName string
  | NoSession id
  | NoSnapshot id
  | FanoutRefused fanout_reason
  | NoForkMessage id
  | TreeThrew tree_error
  | ActorThrew actor_error

type_synonym 'a sup_proc = "(supervisor, sup_error, 'a) proc"

section \<open>Actors\<close>

definition find_record :: "id \<Rightarrow> catalog_record list \<Rightarrow> catalog_record option" where
  "find_record sid catalog = List.find (\<lambda>c. ct_sessionId c = sid) catalog"

text \<open>An actor after an operation, with what it saved and the events it appended.\<close>

definition put_actor :: "id \<Rightarrow> actor \<Rightarrow> supervisor \<Rightarrow> supervisor" where
  "put_actor sid a sv = sv\<lparr>sv_actors := map_set sid a (sv_actors sv),
     sv_snapshots := (case ac_saved a of None \<Rightarrow> sv_snapshots sv | Some s \<Rightarrow> map_set sid s (sv_snapshots sv)),
     sv_sequences := map_set sid (sn_lastSequence (ac_snapshot a)) (sv_sequences sv)\<rparr>"

text \<open>\<^verbatim>\<open>getActor\<close>: the resident actor, or one rebuilt from the stored snapshot under the next generation.\<close>

definition recovered_snapshot :: "nat \<Rightarrow> session_snapshot \<Rightarrow> session_snapshot" where
  "recovered_snapshot lastSeq persisted = persisted\<lparr>sn_activeTurnId := None,
     sn_generation := sn_generation persisted + 1, sn_lastSequence := lastSeq, sn_status := Recovering\<rparr>"

definition getActor :: "actor_env \<Rightarrow> id \<Rightarrow> actor sup_proc" where
  "getActor env sid sv =
     (case map_get (sv_actors sv) sid of
        Some a \<Rightarrow> (ok a, sv)
      | None \<Rightarrow>
          (case find_record sid (sv_catalog sv) of
             None \<Rightarrow> (throw (NoSession sid), sv)
           | Some _ \<Rightarrow>
               (case map_get (sv_snapshots sv) sid of
                  None \<Rightarrow> (throw (NoSnapshot sid), sv)
                | Some persisted \<Rightarrow>
                    (case new_actor env 0 (recovered_snapshot
                        (case map_get (sv_sequences sv) sid of None \<Rightarrow> 0 | Some n \<Rightarrow> n) persisted) of
                       Inl e \<Rightarrow> (throw (TreeThrew e), sv)
                     | Inr a \<Rightarrow>
                         let a' = snd (initialize env True a) in (ok a', put_actor sid a' sv)))))"

text \<open>An operation of a session's actor: it may throw, and keeps what it had done.\<close>

definition with_actor :: "actor_env \<Rightarrow> id \<Rightarrow> 'a actor_proc \<Rightarrow> 'a sup_proc" where
  "with_actor env sid f = and_then (getActor env sid) (\<lambda>a sv.
     case f a of (Inl e, a') \<Rightarrow> (throw (ActorThrew e), put_actor sid a' sv)
       | (Inr r, a') \<Rightarrow> (ok r, put_actor sid a' sv))"

section \<open>Creating sessions\<close>

record create_input =
  ci_sessionId :: "id option"
  ci_tenantId :: string
  ci_name :: "string option"
  ci_familyId :: "id option"
  ci_parent :: "id option"
  ci_forkedFrom :: "(id \<times> id option) option"
  ci_initialMessages :: "agent_message list option"
  ci_agentProfile :: "agent_profile option"
  ci_skipParentLink :: bool

definition session_name :: "id \<Rightarrow> string option \<Rightarrow> string" where
  "session_name sid given =
     (case given of None \<Rightarrow> ''agent-'' @ take 8 sid
      | Some n \<Rightarrow> if js_blank n then ''agent-'' @ take 8 sid else js_trim n)"

definition catalog_entry :: "actor_env \<Rightarrow> id \<Rightarrow> create_input \<Rightarrow> catalog_record" where
  "catalog_entry env sid i = \<lparr>ct_sessionId = sid, ct_tenantId = ci_tenantId i,
     ct_familyId = (case ci_familyId i of None \<Rightarrow> sid | Some f \<Rightarrow> f), ct_parent = truthy (ci_parent i),
     ct_forkedFrom = ci_forkedFrom i, ct_name = session_name sid (ci_name i), ct_createdAt = env_now env\<rparr>"

text \<open>The refusals of \<^verbatim>\<open>createSession\<close>: a taken id, a name a sibling has.\<close>

definition create_refused :: "catalog_record list \<Rightarrow> catalog_record \<Rightarrow> sup_error option" where
  "create_refused catalog c =
     (if list_ex (\<lambda>item. ct_sessionId item = ct_sessionId c) catalog then Some (SessionExists (ct_sessionId c))
      else if ct_parent c \<noteq> None \<and> list_ex (\<lambda>item. ct_tenantId item = ct_tenantId c
                \<and> ct_parent item = ct_parent c \<and> ct_name item = ct_name c) catalog
           then Some (SiblingName (ct_name c)) else None)"

definition createSession :: "actor_env \<Rightarrow> id \<Rightarrow> create_input \<Rightarrow> session_snapshot sup_proc" where
  "createSession env freshId i sv =
     (let sid = (case ci_sessionId i of Some s \<Rightarrow> s | None \<Rightarrow> freshId);
          c = catalog_entry env sid i in
      case create_refused (sv_catalog sv) c of
        Some e \<Rightarrow> (throw e, sv)
      | None \<Rightarrow>
          let sv1 = sv\<lparr>sv_catalog := sv_catalog sv @ [c]\<rparr> in
          (case new_actor env 0 (createInitialSnapshot env sid (Some (ct_familyId c)) (ct_parent c) (ct_tenantId c)
              (ct_name c) (ci_initialMessages i) (env_modelFallbacks env) (ci_agentProfile i)) of
             Inl e \<Rightarrow> (throw (TreeThrew e), sv1)
           | Inr a \<Rightarrow>
               let a' = snd (initialize env False a) in
               and_then
                 (case ct_parent c of
                    Some p \<Rightarrow> if ci_skipParentLink i then ret () else with_actor env p (applyChildLink env sid)
                  | None \<Rightarrow> ret ())
                 (\<lambda>_. ret (ac_snapshot a')) (put_actor sid a' sv1)))"

section \<open>Depth and fan-out\<close>

lemma seen_shrinks:
  "find_record sid catalog = Some c \<Longrightarrow> sid \<notin> set seen \<Longrightarrow>
   card (ct_sessionId ` set catalog - insert sid (set seen)) < card (ct_sessionId ` set catalog - set seen)"
proof -
  assume c: "find_record sid catalog = Some c" and sid: "sid \<notin> set seen"
  have "sid \<in> ct_sessionId ` set catalog" using c unfolding find_record_def by (auto dest!: find_Some_mem)
  then have "ct_sessionId ` set catalog - insert sid (set seen) \<subset> ct_sessionId ` set catalog - set seen"
    using sid by auto
  then show ?thesis by (rule psubset_card_mono [rotated]) simp
qed

text \<open>The loop of \<^verbatim>\<open>depthOf\<close>; it ends because no session is visited twice.\<close>

function depth_walk :: "catalog_record list \<Rightarrow> id list \<Rightarrow> id \<Rightarrow> nat \<Rightarrow> nat" where
  "depth_walk catalog seen sid depth =
     (case find_record sid catalog of
        None \<Rightarrow> depth
      | Some c \<Rightarrow>
          (case truthy (ct_parent c) of
             None \<Rightarrow> depth
           | Some p \<Rightarrow> if sid \<in> set seen then depth
               else depth_walk catalog (sid # seen) p (depth + 1)))"
  by pat_completeness auto
termination
  by (relation "measure (\<lambda>(catalog, seen, sid, depth). card (ct_sessionId ` set catalog - set seen))")
    (auto simp: seen_shrinks)

declare depth_walk.simps [simp del]

definition depthOf :: "catalog_record list \<Rightarrow> id \<Rightarrow> nat" where
  "depthOf catalog sid = depth_walk catalog [] sid 0"

definition children_of :: "id \<Rightarrow> catalog_record list \<Rightarrow> catalog_record list" where
  "children_of sid catalog = filter (\<lambda>c. ct_parent c = Some sid) catalog"

definition known_state :: "supervisor \<Rightarrow> id \<Rightarrow> session_snapshot option" where
  "known_state sv sid =
     (case map_get (sv_actors sv) sid of Some a \<Rightarrow> Some (ac_snapshot a) | None \<Rightarrow> map_get (sv_snapshots sv) sid)"

definition child_live :: "supervisor \<Rightarrow> catalog_record \<Rightarrow> bool" where
  "child_live sv c =
     (case known_state sv (ct_sessionId c) of None \<Rightarrow> False | Some s \<Rightarrow> sn_status s \<noteq> Closed)"

record fanout_status =
  fo_depth :: nat
  fo_liveChildren :: nat
  fo_lifetimeChildren :: nat
  fo_reason :: "fanout_reason option"

text \<open>\<^verbatim>\<open>canSpawn\<close> is that there is no reason against it.\<close>

definition fanoutStatus :: "fanout_limits \<Rightarrow> id \<Rightarrow> fanout_status sup_proc" where
  "fanoutStatus limits sid sv =
     (if find_record sid (sv_catalog sv) = None then (throw (NoSession sid), sv)
      else
        let children = children_of sid (sv_catalog sv);
            live = length (filter (child_live sv) children);
            depth = depthOf (sv_catalog sv) sid
        in (ok \<lparr>fo_depth = depth, fo_liveChildren = live, fo_lifetimeChildren = length children,
               fo_reason =
                 (if depth \<ge> maxDepth limits then Some (DepthLimit depth)
                  else if live \<ge> maxConcurrentChildren limits then Some (ConcurrencyLimit live)
                  else if maxLifetimeChildren limits > 0 \<and> length children \<ge> maxLifetimeChildren limits
                       then Some (LifetimeLimit (length children)) else None)\<rparr>, sv))"

section \<open>Spawning and forking\<close>

datatype inherit = InheritNothing | InheritDefault | InheritLast rat

definition inherit_count :: "inherit \<Rightarrow> nat" where
  "inherit_count i = (case i of InheritNothing \<Rightarrow> 0 | InheritDefault \<Rightarrow> 40
     | InheritLast n \<Rightarrow> nat (min 200 (max 1 \<lfloor>n\<rfloor>)))"

definition inherited_messages :: "inherit \<Rightarrow> agent_message list \<Rightarrow> agent_message list" where
  "inherited_messages i messages =
     (if inherit_count i > 0 then take_last (inherit_count i) (filter (\<lambda>m. msg_role m \<noteq> RoleSystem) messages) else [])"

record spawn_input =
  si_parent :: id
  si_name :: "string option"
  si_insideParentTurn :: bool
  si_agentProfile :: "agent_profile option"
  si_inherit :: inherit

definition spawn_create :: "id \<Rightarrow> spawn_input \<Rightarrow> session_snapshot \<Rightarrow> create_input" where
  "spawn_create childId i parent =
     \<lparr>ci_sessionId = None, ci_tenantId = sn_tenantId parent,
      ci_name = Some (case si_name i of Some n \<Rightarrow> n | None \<Rightarrow> ''child-'' @ take 8 childId),
      ci_familyId = Some (sn_familyId parent), ci_parent = Some (sn_sessionId parent), ci_forkedFrom = None,
      ci_initialMessages = (case inherited_messages (si_inherit i) (sn_messages parent) of [] \<Rightarrow> None | ms \<Rightarrow> Some ms),
      ci_agentProfile = (case si_agentProfile i of Some p \<Rightarrow> Some p | None \<Rightarrow> sn_agentProfile parent),
      ci_skipParentLink = si_insideParentTurn i\<rparr>"

text \<open>\<^verbatim>\<open>spawnChild\<close>, up to the prompt it queues for the child. The child's session has a new id of its
  own: \<open>childId\<close> only names its directory.\<close>

definition spawnChild :: "actor_env \<Rightarrow> fanout_limits \<Rightarrow> id \<Rightarrow> id \<Rightarrow> spawn_input \<Rightarrow> session_snapshot sup_proc" where
  "spawnChild env limits childId freshId i =
     and_then (getActor env (si_parent i)) (\<lambda>parent.
     and_then (fanoutStatus limits (si_parent i)) (\<lambda>fanout.
     case fo_reason fanout of
       Some r \<Rightarrow> raise (FanoutRefused r)
     | None \<Rightarrow>
         and_then (createSession env freshId (spawn_create childId i (ac_snapshot parent))) (\<lambda>child.
         and_then (if si_insideParentTurn i then with_actor env (si_parent i) (applyChildLink env (sn_sessionId child))
                   else ret ()) (\<lambda>_. ret child))))"

text \<open>The messages a fork starts from: up to and with \<open>messageId\<close>, and on request a summary of the rest.\<close>

definition abandoned_line :: "agent_message \<Rightarrow> string" where
  "abandoned_line m = ''- '' @ role_text (msg_role m) @ '': '' @ take 400 (message_text m)"

definition abandoned_summary :: "actor_env \<Rightarrow> id \<Rightarrow> id \<Rightarrow> agent_message list \<Rightarrow> agent_message" where
  "abandoned_summary env freshId source abandoned =
     plain_message env freshId RoleSystem
       [TextContent (''<ABANDONED_BRANCH_SUMMARY source_session='' @ [char_of (34 :: nat)] @ source
          @ [char_of (34 :: nat)] @ ''>'' @ newline
          @ join newline (map abandoned_line
              (take 30 (filter (\<lambda>m. msg_role m \<in> {RoleUser, RoleAssistant}) abandoned)))
          @ newline @ ''</ABANDONED_BRANCH_SUMMARY>'')] None False"

fun index_of :: "('a \<Rightarrow> bool) \<Rightarrow> 'a list \<Rightarrow> nat option" where
  "index_of p [] = None"
| "index_of p (x # xs) = (if p x then Some 0 else map_option Suc (index_of p xs))"

definition fork_messages ::
    "actor_env \<Rightarrow> id \<Rightarrow> id option \<Rightarrow> bool \<Rightarrow> session_snapshot \<Rightarrow> (sup_error, agent_message list) result" where
  "fork_messages env freshId messageId summary source =
     (let ms = sn_messages source;
          cut = (case truthy messageId of
                   None \<Rightarrow> Some (length ms)
                 | Some m \<Rightarrow> map_option Suc (index_of (\<lambda>x. msg_id x = m) ms))
      in case cut of
           None \<Rightarrow> throw (NoForkMessage (the messageId))
         | Some n \<Rightarrow> ok (take n ms @
             (if summary \<and> drop n ms \<noteq> [] then [abandoned_summary env freshId (sn_sessionId source) (drop n ms)] else [])))"

definition forkSession ::
    "actor_env \<Rightarrow> id \<Rightarrow> id \<Rightarrow> id \<Rightarrow> id option \<Rightarrow> string option \<Rightarrow> bool \<Rightarrow> session_snapshot sup_proc" where
  "forkSession env freshId summaryId sourceId messageId given summary =
     and_then (getActor env sourceId) (\<lambda>a.
     let source = ac_snapshot a in
     case fork_messages env summaryId messageId summary source of
       Inl e \<Rightarrow> raise e
     | Inr selected \<Rightarrow>
         and_then (createSession env freshId
           \<lparr>ci_sessionId = None, ci_tenantId = sn_tenantId source,
            ci_name = Some (case given of Some n \<Rightarrow> n | None \<Rightarrow> sn_name source @ ''-fork''),
            ci_familyId = None, ci_parent = None,
            ci_forkedFrom = Some (sn_sessionId source, truthy messageId),
            ci_initialMessages = Some selected, ci_agentProfile = sn_agentProfile source,
            ci_skipParentLink = False\<rparr>) (\<lambda>forked.
         and_then (with_actor env sourceId (recordFork env)) (\<lambda>_. ret forked)))"

section \<open>Commands\<close>

datatype sup_result = TenantMismatch | Dispatched dispatch_result

text \<open>What \<^verbatim>\<open>dispatch\<close> runs inside the command journal. A session that closes drops its actor.\<close>

definition supervise ::
    "actor_env \<Rightarrow> string list \<Rightarrow> nat \<Rightarrow> turn_step list \<Rightarrow> command_envelope \<Rightarrow> sup_result sup_proc" where
  "supervise env capabilities ceil steps command =
     and_then (getActor env (cmd_sessionId command)) (\<lambda>a sv.
       if sn_tenantId (ac_snapshot a) \<noteq> cmd_tenantId command then (ok TenantMismatch, sv)
       else
         (case dispatch env capabilities ceil steps command a of
            (r, a') \<Rightarrow>
              let sv' = put_actor (cmd_sessionId command) a' sv in
              (ok (Dispatched r),
               (case r of
                  Completed _ \<Rightarrow>
                    if cmd_kind command = SessionClose
                    then sv'\<lparr>sv_actors := map_delete (cmd_sessionId command) (sv_actors sv')\<rparr> else sv'
                | _ \<Rightarrow> sv'))))"

text \<open>\<^verbatim>\<open>listSessions\<close> makes every session of the tenant resident; one that does not load is left out.\<close>

fun list_sessions :: "actor_env \<Rightarrow> catalog_record list \<Rightarrow> supervisor \<Rightarrow> session_snapshot list \<times> supervisor" where
  "list_sessions env [] sv = ([], sv)"
| "list_sessions env (c # cs) sv =
     (case getActor env (ct_sessionId c) sv of
        (Inl _, sv1) \<Rightarrow> list_sessions env cs sv1
      | (Inr a, sv1) \<Rightarrow> (case list_sessions env cs sv1 of (ss, sv2) \<Rightarrow> (ac_snapshot a # ss, sv2)))"

definition listSessions :: "actor_env \<Rightarrow> string option \<Rightarrow> supervisor \<Rightarrow> session_snapshot list \<times> supervisor" where
  "listSessions env tenantId sv =
     (case list_sessions env (filter (\<lambda>c. case truthy tenantId of None \<Rightarrow> True | Some t \<Rightarrow> ct_tenantId c = t) (sv_catalog sv)) sv of
        (ss, sv') \<Rightarrow> (sort_key (\<lambda>s. - sn_updatedAt s) ss, sv'))"

section \<open>Depth of a catalog whose parents exist\<close>

text \<open>The catalogs the supervisor builds: ids are distinct, and a parent is in the catalog.\<close>

definition catalog_closed :: "catalog_record list \<Rightarrow> bool" where
  "catalog_closed catalog \<longleftrightarrow> distinct (map ct_sessionId catalog)
     \<and> (\<forall>c \<in> set catalog. \<forall>p. truthy (ct_parent c) = Some p \<longrightarrow> p \<in> ct_sessionId ` set catalog)"

lemma truthy_Some: "truthy x = Some p \<longleftrightarrow> x = Some p \<and> p \<noteq> []"
  by (auto simp: truthy_def split: option.splits list.splits)

lemma find_record_mem: "find_record sid catalog = Some c \<Longrightarrow> c \<in> set catalog \<and> ct_sessionId c = sid"
  by (auto simp: find_record_def dest!: find_Some_mem)

lemma find_record_None: "find_record sid catalog = None \<longleftrightarrow> sid \<notin> ct_sessionId ` set catalog"
  by (auto simp: find_record_def find_None_iff)

lemma find_record_append:
  "find_record sid (catalog @ [c]) =
     (case find_record sid catalog of Some x \<Rightarrow> Some x | None \<Rightarrow> if ct_sessionId c = sid then Some c else None)"
  unfolding find_record_def by (induction catalog) auto

lemma depth_walk_Suc: "depth_walk catalog seen sid (Suc d) = Suc (depth_walk catalog seen sid d)"
proof (induction catalog seen sid d rule: depth_walk.induct)
  case (1 catalog seen sid d)
  show ?case
  proof (cases "find_record sid catalog")
    case None
    then show ?thesis by (simp add: depth_walk.simps [of catalog seen sid])
  next
    case (Some c)
    show ?thesis
    proof (cases "truthy (ct_parent c)")
      case None
      then show ?thesis using Some by (simp add: depth_walk.simps [of catalog seen sid])
    next
      case (Some p)
      then show ?thesis using 1 [OF \<open>find_record sid catalog = Some c\<close> Some] \<open>find_record sid catalog = Some c\<close>
        by (simp add: depth_walk.simps [of catalog seen sid])
    qed
  qed
qed

text \<open>A new record changes no depth, and seeing it beforehand does not either.\<close>

lemma depth_walk_append:
  assumes "catalog_closed catalog" and "ct_sessionId c \<notin> ct_sessionId ` set catalog" and "sid \<in> ct_sessionId ` set catalog"
    and "set extra \<subseteq> {ct_sessionId c}"
  shows "depth_walk (catalog @ [c]) (seen @ extra) sid d = depth_walk catalog seen sid d"
  using assms
proof (induction catalog seen sid d rule: depth_walk.induct)
  case (1 catalog seen sid d)
  then obtain x where x: "find_record sid catalog = Some x" by (metis find_record_None option.exhaust)
  then have x': "find_record sid (catalog @ [c]) = Some x" by (simp add: find_record_append)
  have notin: "sid \<notin> set extra" using "1.prems"(2,3,4) by (metis singletonD subsetD)
  show ?case
  proof (cases "truthy (ct_parent x)")
    case None
    then show ?thesis using x x' by (simp add: depth_walk.simps [of _ _ sid])
  next
    case (Some p)
    have "p \<in> ct_sessionId ` set catalog"
      using Some find_record_mem [OF x] 1 by (auto simp: catalog_closed_def)
    then show ?thesis
      using "1.IH" [OF x Some] "1.prems" x x' Some notin by (simp add: depth_walk.simps [of _ _ sid])
  qed
qed

lemma depthOf_append_old:
  assumes "catalog_closed catalog" and "ct_sessionId c \<notin> ct_sessionId ` set catalog" and "sid \<in> ct_sessionId ` set catalog"
  shows "depthOf (catalog @ [c]) sid = depthOf catalog sid"
  using depth_walk_append [OF assms, of "[]" "[]"] by (simp add: depthOf_def)

lemma depthOf_append_new:
  assumes "catalog_closed catalog" and "ct_sessionId c \<notin> ct_sessionId ` set catalog"
    and "\<And>p. truthy (ct_parent c) = Some p \<Longrightarrow> p \<in> ct_sessionId ` set catalog"
  shows "depthOf (catalog @ [c]) (ct_sessionId c) =
    (case truthy (ct_parent c) of None \<Rightarrow> 0 | Some p \<Rightarrow> depthOf catalog p + 1)"
proof -
  have "find_record (ct_sessionId c) (catalog @ [c]) = Some c"
    using assms(2) find_record_None [of "ct_sessionId c" catalog] by (simp add: find_record_append)
  then show ?thesis
    using depth_walk_append [OF assms(1,2), of _ "[ct_sessionId c]" "[]"] assms(3)
    by (auto simp: depthOf_def depth_walk.simps [of _ _ "ct_sessionId c"] depth_walk_Suc split: option.splits)
qed

text \<open>\<open>good_catalog\<close>: closed, and every session within the depth and the lifetime limit.\<close>

definition good_catalog :: "fanout_limits \<Rightarrow> catalog_record list \<Rightarrow> bool" where
  "good_catalog limits catalog \<longleftrightarrow> catalog_closed catalog
     \<and> (\<forall>c \<in> set catalog. depthOf catalog (ct_sessionId c) \<le> maxDepth limits)
     \<and> (maxLifetimeChildren limits > 0 \<longrightarrow>
          (\<forall>sid. length (children_of sid catalog) \<le> maxLifetimeChildren limits))"

lemma good_catalog_append:
  assumes good: "good_catalog limits catalog" and new: "ct_sessionId c \<notin> ct_sessionId ` set catalog"
    and parent: "\<And>p. ct_parent c = Some p \<Longrightarrow> p \<noteq> [] \<and> p \<in> ct_sessionId ` set catalog \<and> depthOf catalog p < maxDepth limits
      \<and> (maxLifetimeChildren limits > 0 \<longrightarrow> length (children_of p catalog) < maxLifetimeChildren limits)"
  shows "good_catalog limits (catalog @ [c])"
proof -
  have closed: "catalog_closed catalog" using good by (simp add: good_catalog_def)
  have par: "truthy (ct_parent c) = Some p \<Longrightarrow> p \<in> ct_sessionId ` set catalog \<and> depthOf catalog p < maxDepth limits" for p
    using parent by (auto simp: truthy_Some)
  have "catalog_closed (catalog @ [c])"
    using closed new par unfolding catalog_closed_def by auto
  moreover have "depthOf (catalog @ [c]) (ct_sessionId x) \<le> maxDepth limits" if "x \<in> set catalog" for x
    using depthOf_append_old [OF closed new] good that by (auto simp: good_catalog_def)
  moreover have "depthOf (catalog @ [c]) (ct_sessionId c) \<le> maxDepth limits"
    using depthOf_append_new [OF closed new] par by (force split: option.splits)
  moreover have "maxLifetimeChildren limits > 0 \<longrightarrow> length (children_of sid (catalog @ [c])) \<le> maxLifetimeChildren limits" for sid
    using good parent by (auto simp: good_catalog_def children_of_def)
  ultimately show ?thesis by (auto simp: good_catalog_def)
qed

section \<open>Runs of the supervisor\<close>

text \<open>What the rest of the engine calls: sessions without a parent, children through \<^verbatim>\<open>spawnChild\<close>, forks,
  commands, reads.\<close>

datatype sup_action =
    CreateRoot id create_input
  | Spawn id id spawn_input
  | Fork id id id "id option" "string option" bool
  | Command "string list" nat "turn_step list" command_envelope
  | Read id
  | ListAll "string option"

definition sup_step :: "fanout_limits \<Rightarrow> actor_env \<Rightarrow> sup_action \<Rightarrow> supervisor \<Rightarrow> supervisor" where
  "sup_step limits env act sv =
     (case act of
        CreateRoot i input \<Rightarrow> snd (createSession env i (input\<lparr>ci_parent := None\<rparr>) sv)
      | Spawn d i input \<Rightarrow> snd (spawnChild env limits d i input sv)
      | Fork i j src m nm s \<Rightarrow> snd (forkSession env i j src m nm s sv)
      | Command caps n steps c \<Rightarrow> snd (supervise env caps n steps c sv)
      | Read i \<Rightarrow> snd (getActor env i sv)
      | ListAll t \<Rightarrow> snd (listSessions env t sv))"

definition empty_supervisor :: supervisor where
  "empty_supervisor = \<lparr>sv_catalog = [], sv_actors = [], sv_snapshots = [], sv_sequences = []\<rparr>"

definition sup_run :: "fanout_limits \<Rightarrow> (actor_env \<times> sup_action) list \<Rightarrow> supervisor" where
  "sup_run limits acts = fold (\<lambda>(env, act). sup_step limits env act) acts empty_supervisor"

lemma put_actor_catalog [simp]: "sv_catalog (put_actor sid a sv) = sv_catalog sv"
  by (simp add: put_actor_def)

lemma getActor_catalog: "getActor env sid sv = (r, sv') \<Longrightarrow> sv_catalog sv' = sv_catalog sv"
  by (auto simp: getActor_def Let_def split: option.splits sum.splits)

lemma with_actor_catalog: "with_actor env sid f sv = (r, sv') \<Longrightarrow> sv_catalog sv' = sv_catalog sv"
  by (auto simp: with_actor_def and_then_def dest!: getActor_catalog split: prod.splits sum.splits)

lemma list_sessions_catalog: "list_sessions env cs sv = (ss, sv') \<Longrightarrow> sv_catalog sv' = sv_catalog sv"
  by (induction cs arbitrary: sv ss) (auto dest: getActor_catalog split: prod.splits sum.splits)

lemma supervise_catalog: "sv_catalog (snd (supervise env caps n steps c sv)) = sv_catalog sv"
  by (auto simp: supervise_def and_then_def Let_def dest!: getActor_catalog
      split: prod.splits sum.splits dispatch_result.splits)

lemma createSession_catalog:
  "createSession env i input sv = (r, sv') \<Longrightarrow>
     sv_catalog sv' = sv_catalog sv \<or>
     (\<exists>c. sv_catalog sv' = sv_catalog sv @ [c] \<and> ct_parent c = truthy (ci_parent input)
        \<and> ct_sessionId c \<notin> ct_sessionId ` set (sv_catalog sv))"
  by (auto simp: createSession_def Let_def and_then_def ret_def create_refused_def catalog_entry_def list_ex_iff
      dest!: with_actor_catalog split: option.splits sum.splits prod.splits if_splits)

lemma createSession_ok:
  "createSession env i input sv = (Inr s, sv') \<Longrightarrow> sv_catalog sv' = sv_catalog sv @
     [catalog_entry env (case ci_sessionId input of Some s \<Rightarrow> s | None \<Rightarrow> i) input]"
  by (auto simp: createSession_def Let_def and_then_def ret_def
      dest!: with_actor_catalog split: option.splits sum.splits prod.splits if_splits)

section \<open>Actors are filed under their session\<close>

definition actor_keyed :: "id \<Rightarrow> actor \<Rightarrow> bool" where
  "actor_keyed k a \<longleftrightarrow> sn_sessionId (ac_snapshot a) = k \<and> (\<forall>s. ac_saved a = Some s \<longrightarrow> sn_sessionId s = k)"

definition keyed :: "supervisor \<Rightarrow> bool" where
  "keyed sv \<longleftrightarrow> (\<forall>k a. map_get (sv_actors sv) k = Some a \<longrightarrow> actor_keyed k a)
     \<and> (\<forall>k s. map_get (sv_snapshots sv) k = Some s \<longrightarrow> sn_sessionId s = k)"

lemma keyed_catalog [simp]: "keyed (sv\<lparr>sv_catalog := c\<rparr>) = keyed sv"
  by (simp add: keyed_def)

lemma keyed_put: "keyed sv \<Longrightarrow> actor_keyed k a \<Longrightarrow> keyed (put_actor k a sv)"
  by (auto simp: keyed_def put_actor_def actor_keyed_def js_simps split: option.splits)

lemma keyed_delete: "keyed sv \<Longrightarrow> keyed (sv\<lparr>sv_actors := map_delete k (sv_actors sv)\<rparr>)"
  by (simp add: keyed_def js_simps)

lemma steady_session: "steady a b \<Longrightarrow> sn_sessionId (ac_snapshot b) = sn_sessionId (ac_snapshot a)"
  by (simp add: steady_def logs_def)

lemma new_actor_keyed:
  "new_actor env n s = Inr a \<Longrightarrow> sn_sessionId (ac_snapshot a) = sn_sessionId s \<and> ac_saved a = None"
  by (auto simp: new_actor_def split: sum.splits)

lemma initialize_saved: "ac_saved (snd (initialize env b a)) = Some (ac_snapshot (snd (initialize env b a)))"
  by (auto simp: initialize_def and_then_def emit_def setStatus_def Let_def persist_saved split: prod.splits sum.splits)

lemma initialize_keyed: "sn_sessionId (ac_snapshot a) = k \<Longrightarrow> actor_keyed k (snd (initialize env b a))"
  using keeps_initialize [of env b] steady_session [of a "snd (initialize env b a)"]
  by (auto simp: actor_keyed_def initialize_saved keeps_def)

lemma applyChildLink_keyed: "actor_keyed k a \<Longrightarrow> actor_keyed k (snd (applyChildLink env c a))"
  by (auto simp: applyChildLink_def actor_keyed_def and_then_def reads_def ret_def modify_def upd_snapshot_def
      emit_def persistSnapshot_def Let_def)

lemma recordFork_keyed: "actor_keyed k a \<Longrightarrow> actor_keyed k (snd (recordFork env a))"
  by (auto simp: recordFork_def actor_keyed_def and_then_def emit_def persistSnapshot_def Let_def)

lemma dispatch_shape:
  obtains b where "snd (dispatch env caps n steps c a) \<in> {a, a\<lparr>ac_activeAbort := map_option (\<lambda>_. True) (ac_activeAbort a)\<rparr>,
    snd (persistSnapshot env b), snd (recover env b)}"
proof -
  obtain r b where h: "handle env caps n steps c a = (r, b)" by fastforce
  show ?thesis by (rule that [of b], cases r) (auto simp: dispatch_def h split: option.split)
qed

lemma dispatch_keyed:
  assumes "ids_ok env" and a: "actor_keyed k a"
  shows "actor_keyed k (snd (dispatch env caps n steps c a))"
proof -
  let ?d = "dispatch env caps n steps c a"
  have id: "sn_sessionId (ac_snapshot (snd ?d)) = k"
    using steady_session [OF dispatch_steady [OF assms(1)]] a by (simp add: actor_keyed_def)
  obtain b where "snd ?d \<in> {a, a\<lparr>ac_activeAbort := map_option (\<lambda>_. True) (ac_activeAbort a)\<rparr>,
    snd (persistSnapshot env b), snd (recover env b)}" by (rule dispatch_shape)
  then consider "ac_saved (snd ?d) = ac_saved a" | "snd ?d = snd (persistSnapshot env b)" | "snd ?d = snd (recover env b)"
    by auto
  then show ?thesis
  proof cases
    case 1
    then show ?thesis using id a by (simp add: actor_keyed_def)
  next
    case 2
    then show ?thesis using id by (simp only: actor_keyed_def persist_saved option.inject) simp
  next
    case 3
    then show ?thesis using id by (simp only: actor_keyed_def conjunct1 [OF recover_end] option.inject) simp
  qed
qed

lemma getActor_keyed:
  assumes "keyed sv" and "getActor env sid sv = (r, sv')"
  shows "keyed sv'" and "r = Inr a \<Longrightarrow> actor_keyed sid a"
proof -
  have "keyed sv' \<and> (\<forall>a. r = Inr a \<longrightarrow> actor_keyed sid a)"
  proof (cases "map_get (sv_actors sv) sid")
    case (Some a)
    then show ?thesis using assms by (auto simp: getActor_def keyed_def)
  next
    case None
    show ?thesis
    proof (cases r)
      case (Inl e)
      then have "sv' = sv" using assms(2) None by (auto simp: getActor_def Let_def split: option.splits sum.splits)
      then show ?thesis using assms(1) Inl by simp
    next
      case (Inr a)
      then obtain p n b where p: "map_get (sv_snapshots sv) sid = Some p"
        "new_actor env 0 (recovered_snapshot n p) = Inr b" "a = snd (initialize env True b)" "sv' = put_actor sid a sv"
        using assms(2) None by (auto simp: getActor_def Let_def split: option.splits sum.splits)
      then have "sn_sessionId (ac_snapshot b) = sid"
        using assms(1) new_actor_keyed [OF p(2)] by (simp add: keyed_def recovered_snapshot_def)
      then show ?thesis using p Inr initialize_keyed keyed_put [OF assms(1)] by auto
    qed
  qed
  then show "keyed sv'" "r = Inr a \<Longrightarrow> actor_keyed sid a" by auto
qed

lemma with_actor_keyed:
  assumes "keyed sv" and "with_actor env sid f sv = (r, sv')" and f: "\<And>a. actor_keyed sid a \<Longrightarrow> actor_keyed sid (snd (f a))"
  shows "keyed sv'"
proof -
  obtain r1 sv1 where g: "getActor env sid sv = (r1, sv1)" by fastforce
  show ?thesis
  proof (cases r1)
    case (Inl e)
    then show ?thesis using g assms(2) getActor_keyed [OF assms(1) g] by (auto simp: with_actor_def and_then_def)
  next
    case (Inr a)
    have "actor_keyed sid (snd (f a))" using f getActor_keyed(2) [OF assms(1) g Inr] .
    then have "keyed (put_actor sid (snd (f a)) sv1)" by (intro keyed_put getActor_keyed(1) [OF assms(1) g])
    then show ?thesis using g Inr assms(2) by (auto simp: with_actor_def and_then_def split: prod.splits sum.splits)
  qed
qed

lemma createSession_keyed:
  assumes "keyed sv" and "createSession env i input sv = (r, sv')"
  shows "keyed sv'"
proof -
  define sid where "sid = (case ci_sessionId input of Some s \<Rightarrow> s | None \<Rightarrow> i)"
  define c where "c = catalog_entry env sid input"
  let ?new = "new_actor env 0 (createInitialSnapshot env sid (Some (ct_familyId c)) (ct_parent c) (ct_tenantId c)
              (ct_name c) (ci_initialMessages input) (env_modelFallbacks env) (ci_agentProfile input))"
  let ?sv1 = "sv\<lparr>sv_catalog := sv_catalog sv @ [c]\<rparr>"
  show ?thesis
  proof (cases "create_refused (sv_catalog sv) c = None")
    case False
    then show ?thesis using assms by (auto simp: createSession_def Let_def simp flip: sid_def c_def)
  next
    case ok: True
    show ?thesis
    proof (cases ?new)
      case (Inl e)
      then show ?thesis using assms ok by (auto simp: createSession_def Let_def simp flip: sid_def c_def)
    next
      case (Inr a)
      have "sn_sessionId (ac_snapshot a) = sid" using new_actor_keyed [OF Inr] by (simp add: createInitialSnapshot_def)
      then have k: "keyed (put_actor sid (snd (initialize env False a)) ?sv1)"
        using assms(1) by (intro keyed_put initialize_keyed) auto
      show ?thesis
      proof (cases "ct_parent c = None \<or> ci_skipParentLink input")
        case True
        then show ?thesis using assms(2) ok Inr k
          by (auto simp: createSession_def Let_def and_then_def ret_def split: option.splits simp flip: sid_def c_def)
      next
        case False
        then obtain p where p: "ct_parent c = Some p" "\<not> ci_skipParentLink input" by auto
        obtain r1 sv1 where w: "with_actor env p (applyChildLink env sid) (put_actor sid (snd (initialize env False a)) ?sv1) = (r1, sv1)"
          by fastforce
        have "keyed sv1" using with_actor_keyed [OF k w applyChildLink_keyed] .
        then show ?thesis using assms(2) ok Inr p w
          by (auto simp: createSession_def Let_def and_then_def ret_def split: sum.splits simp flip: sid_def c_def)
      qed
    qed
  qed
qed

definition sup_good :: "fanout_limits \<Rightarrow> supervisor \<Rightarrow> bool" where
  "sup_good limits sv \<longleftrightarrow> keyed sv \<and> good_catalog limits (sv_catalog sv)"

text \<open>The session that would be the parent may have one more child.\<close>

definition may_spawn :: "fanout_limits \<Rightarrow> id \<Rightarrow> catalog_record list \<Rightarrow> bool" where
  "may_spawn limits p catalog \<longleftrightarrow> p \<in> ct_sessionId ` set catalog \<and> depthOf catalog p < maxDepth limits
     \<and> (maxLifetimeChildren limits > 0 \<longrightarrow> length (children_of p catalog) < maxLifetimeChildren limits)"

lemma createSession_good:
  assumes good: "sup_good limits sv" and c: "createSession env i input sv = (r, sv')"
    and p: "\<And>p. truthy (ci_parent input) = Some p \<Longrightarrow> may_spawn limits p (sv_catalog sv)"
  shows "sup_good limits sv'"
  using createSession_catalog [OF c]
proof
  assume "sv_catalog sv' = sv_catalog sv"
  then show ?thesis using good createSession_keyed [OF _ c] by (simp add: sup_good_def)
next
  assume "\<exists>x. sv_catalog sv' = sv_catalog sv @ [x] \<and> ct_parent x = truthy (ci_parent input)
    \<and> ct_sessionId x \<notin> ct_sessionId ` set (sv_catalog sv)"
  then obtain x where x: "sv_catalog sv' = sv_catalog sv @ [x]" "ct_parent x = truthy (ci_parent input)"
    "ct_sessionId x \<notin> ct_sessionId ` set (sv_catalog sv)" by blast
  have "ct_parent x = Some q \<Longrightarrow> q \<noteq> [] \<and> may_spawn limits q (sv_catalog sv)" for q
    using x(2) p truthy_Some by metis
  then have "good_catalog limits (sv_catalog sv @ [x])"
    using good x(3) by (intro good_catalog_append) (auto simp: sup_good_def may_spawn_def)
  then show ?thesis using x(1) good createSession_keyed [OF _ c] by (simp add: sup_good_def)
qed

lemma getActor_good:
  assumes "sup_good limits sv" and "getActor env sid sv = (r, sv')"
  shows "sup_good limits sv'"
  using assms getActor_keyed(1) getActor_catalog by (metis sup_good_def)

lemma with_actor_good:
  assumes "sup_good limits sv" and "with_actor env sid f sv = (r, sv')"
    and "\<And>a. actor_keyed sid a \<Longrightarrow> actor_keyed sid (snd (f a))"
  shows "sup_good limits sv'"
  using assms with_actor_keyed with_actor_catalog by (metis sup_good_def)

lemma fanout_allows:
  assumes "fanoutStatus limits sid sv = (Inr f, sv')" and "fo_reason f = None"
  shows "sv' = sv \<and> may_spawn limits sid (sv_catalog sv)
    \<and> length (filter (child_live sv) (children_of sid (sv_catalog sv))) < maxConcurrentChildren limits"
  using assms find_record_None [of sid "sv_catalog sv"]
  by (auto simp: fanoutStatus_def Let_def may_spawn_def split: if_splits)

lemma fanout_same: "fanoutStatus limits sid sv = (r, sv') \<Longrightarrow> sv' = sv"
  by (auto simp: fanoutStatus_def Let_def split: if_splits)

lemma and_then_good:
  assumes "sup_good limits sv" and "\<And>r sv'. f sv = (r, sv') \<Longrightarrow> sup_good limits sv'"
    and "\<And>a sv'. f sv = (Inr a, sv') \<Longrightarrow> sup_good limits sv' \<Longrightarrow> sup_good limits (snd (g a sv'))"
  shows "sup_good limits (snd (and_then f g sv))"
proof -
  obtain r sv' where f: "f sv = (r, sv')" by fastforce
  then show ?thesis using assms(2) [OF f] assms(3) by (cases r) (auto simp: and_then_def)
qed

lemma spawnChild_good:
  assumes good: "sup_good limits sv"
  shows "sup_good limits (snd (spawnChild env limits d i input sv))"
  unfolding spawnChild_def
proof (rule and_then_good [OF good])
  fix parent sv1
  assume g: "getActor env (si_parent input) sv = (Inr parent, sv1)" and good1: "sup_good limits sv1"
  have k: "sn_sessionId (ac_snapshot parent) = si_parent input"
    using getActor_keyed(2) [OF _ g] good by (simp add: sup_good_def actor_keyed_def)
  show "sup_good limits (snd (and_then (fanoutStatus limits (si_parent input)) (\<lambda>fanout.
     case fo_reason fanout of
       Some r \<Rightarrow> raise (FanoutRefused r)
     | None \<Rightarrow>
         and_then (createSession env i (spawn_create d input (ac_snapshot parent))) (\<lambda>child.
         and_then (if si_insideParentTurn input then with_actor env (si_parent input) (applyChildLink env (sn_sessionId child))
                   else ret ()) (\<lambda>_. ret child))) sv1))"
  proof (rule and_then_good [OF good1])
    fix fanout sv2
    assume f: "fanoutStatus limits (si_parent input) sv1 = (Inr fanout, sv2)" and good2: "sup_good limits sv2"
    show "sup_good limits (snd ((case fo_reason fanout of
       Some r \<Rightarrow> raise (FanoutRefused r)
     | None \<Rightarrow>
         and_then (createSession env i (spawn_create d input (ac_snapshot parent))) (\<lambda>child.
         and_then (if si_insideParentTurn input then with_actor env (si_parent input) (applyChildLink env (sn_sessionId child))
                   else ret ()) (\<lambda>_. ret child))) sv2))"
    proof (cases "fo_reason fanout")
      case None
      have may: "may_spawn limits (si_parent input) (sv_catalog sv2)" using fanout_allows [OF f None] by simp
      show ?thesis unfolding None option.case
      proof (rule and_then_good [OF good2])
        fix r sv3 assume "createSession env i (spawn_create d input (ac_snapshot parent)) sv2 = (r, sv3)"
        then show "sup_good limits sv3"
          using may k by (intro createSession_good [OF good2]) (auto simp: spawn_create_def truthy_Some)
      next
        fix child sv3 assume good3: "sup_good limits sv3"
        show "sup_good limits (snd (and_then (if si_insideParentTurn input
            then with_actor env (si_parent input) (applyChildLink env (sn_sessionId child)) else ret ()) (\<lambda>_. ret child) sv3))"
          by (rule and_then_good [OF good3])
            (use good3 with_actor_good [OF good3 _ applyChildLink_keyed] in \<open>auto simp: ret_def split: if_splits\<close>)
      qed
    qed (use good2 in \<open>simp add: raise_def\<close>)
  qed (use good1 fanout_same in blast)
qed (use getActor_good [OF good] in blast)

lemma forkSession_good:
  assumes good: "sup_good limits sv"
  shows "sup_good limits (snd (forkSession env i j src m nm s sv))"
  unfolding forkSession_def
proof (rule and_then_good [OF good])
  fix a sv1 assume good1: "sup_good limits sv1"
  let ?in = "\<lambda>selected. \<lparr>ci_sessionId = None, ci_tenantId = sn_tenantId (ac_snapshot a),
            ci_name = Some (case nm of Some n \<Rightarrow> n | None \<Rightarrow> sn_name (ac_snapshot a) @ ''-fork''),
            ci_familyId = None, ci_parent = None, ci_forkedFrom = Some (sn_sessionId (ac_snapshot a), truthy m),
            ci_initialMessages = Some selected, ci_agentProfile = sn_agentProfile (ac_snapshot a),
            ci_skipParentLink = False\<rparr>"
  have "sup_good limits (snd (and_then (createSession env i (?in selected)) (\<lambda>forked.
         and_then (with_actor env src (recordFork env)) (\<lambda>_. ret forked)) sv1))" for selected
  proof (rule and_then_good [OF good1])
    fix r sv2 assume "createSession env i (?in selected) sv1 = (r, sv2)"
    then show "sup_good limits sv2" by (rule createSession_good [OF good1]) (simp add: truthy_def)
  next
    fix forked sv2 assume good2: "sup_good limits sv2"
    show "sup_good limits (snd (and_then (with_actor env src (recordFork env)) (\<lambda>_. ret forked) sv2))"
      by (rule and_then_good [OF good2]) (use with_actor_good [OF good2 _ recordFork_keyed] in \<open>auto simp: ret_def\<close>)
  qed
  then show "sup_good limits (snd ((let source = ac_snapshot a in
     case fork_messages env j m s source of
       Inl e \<Rightarrow> raise e
     | Inr selected \<Rightarrow>
         and_then (createSession env i
           \<lparr>ci_sessionId = None, ci_tenantId = sn_tenantId source,
            ci_name = Some (case nm of Some n \<Rightarrow> n | None \<Rightarrow> sn_name source @ ''-fork''),
            ci_familyId = None, ci_parent = None,
            ci_forkedFrom = Some (sn_sessionId source, truthy m),
            ci_initialMessages = Some selected, ci_agentProfile = sn_agentProfile source,
            ci_skipParentLink = False\<rparr>) (\<lambda>forked.
         and_then (with_actor env src (recordFork env)) (\<lambda>_. ret forked))) sv1))"
    using good1 by (simp add: Let_def raise_def split: sum.split)
qed (use getActor_good [OF good] in blast)

lemma supervise_keyed:
  assumes "ids_ok env" and k: "keyed sv"
  shows "keyed (snd (supervise env caps n steps c sv))"
proof -
  obtain r sv1 where g: "getActor env (cmd_sessionId c) sv = (r, sv1)" by fastforce
  have k1: "keyed sv1" using getActor_keyed(1) [OF k g] .
  show ?thesis
  proof (cases r)
    case (Inl e)
    then show ?thesis using g k1 by (simp add: supervise_def and_then_def)
  next
    case (Inr a)
    obtain d b where d: "dispatch env caps n steps c a = (d, b)" by fastforce
    have "actor_keyed (cmd_sessionId c) b"
      using dispatch_keyed [OF assms(1) getActor_keyed(2) [OF k g Inr], of caps n steps c] d by simp
    then have "keyed (put_actor (cmd_sessionId c) b sv1)" by (rule keyed_put [OF k1])
    then show ?thesis using g Inr d k1 keyed_delete
      by (auto simp: supervise_def and_then_def Let_def split: dispatch_result.split)
  qed
qed

lemma list_sessions_keyed: "keyed sv \<Longrightarrow> list_sessions env cs sv = (ss, sv') \<Longrightarrow> keyed sv'"
  by (induction cs arbitrary: sv ss) (auto dest: getActor_keyed(1) split: prod.splits sum.splits)

lemma sup_step_good:
  assumes env: "ids_ok env" and good: "sup_good limits sv"
  shows "sup_good limits (sup_step limits env act sv)"
proof (cases act)
  case (CreateRoot i input)
  obtain r sv' where "createSession env i (input\<lparr>ci_parent := None\<rparr>) sv = (r, sv')" by fastforce
  then show ?thesis using CreateRoot createSession_good [OF good, of env i "input\<lparr>ci_parent := None\<rparr>"]
    by (simp add: sup_step_def truthy_def)
next
  case (Command caps n steps c)
  then show ?thesis using good supervise_keyed [OF env] supervise_catalog by (simp add: sup_step_def sup_good_def)
next
  case (Read i)
  then show ?thesis using getActor_good [OF good] by (simp add: sup_step_def) (metis prod.collapse)
next
  case (ListAll t)
  obtain ss sv' where l: "list_sessions env (filter (\<lambda>c. case truthy t of None \<Rightarrow> True | Some t \<Rightarrow> ct_tenantId c = t)
      (sv_catalog sv)) sv = (ss, sv')" by fastforce
  then show ?thesis using ListAll good list_sessions_keyed [OF _ l] list_sessions_catalog [OF l]
    by (simp add: sup_step_def sup_good_def listSessions_def)
qed (use spawnChild_good [OF good] forkSession_good [OF good] in \<open>simp_all add: sup_step_def\<close>)

lemma sup_run_good:
  assumes "list_all (\<lambda>(env, act). ids_ok env) acts"
  shows "sup_good limits (sup_run limits acts)"
proof -
  have "sup_good limits sv \<Longrightarrow> list_all (\<lambda>(env, act). ids_ok env) acts \<Longrightarrow>
    sup_good limits (fold (\<lambda>(env, act). sup_step limits env act) acts sv)" for sv
    by (induction acts arbitrary: sv) (auto simp: sup_step_good)
  moreover have "sup_good limits empty_supervisor"
    by (simp add: sup_good_def empty_supervisor_def keyed_def good_catalog_def catalog_closed_def children_of_def)
  ultimately show ?thesis using assms by (simp add: sup_run_def)
qed

lemma close_dispatch:
  assumes "cmd_kind c = SessionClose" and "dispatch env caps n steps c a = (Completed v, b)"
  shows "ac_saved b = Some (ac_snapshot b) \<and> sn_status (ac_snapshot b) = Closed"
proof -
  have h: "handle env caps n steps c a = (Inr (StatusNow Closed), snd (setStatus env Closed None a))"
    using assms(1) by (simp add: handle_def Let_def and_then_def setStatus_def emit_def ret_def)
  have st: "sn_status (ac_snapshot (snd (setStatus env Closed None a))) = Closed"
    by (simp add: setStatus_def emit_def Let_def upd_snapshot_def)
  have "b = snd (persistSnapshot env (snd (setStatus env Closed None a)))"
    using assms by (auto simp: dispatch_def h split: option.splits if_splits)
  then show ?thesis using st persist_saved by (simp add: persist_same(1))
qed

section \<open>Properties\<close>


definition demo_root :: create_input where
  "demo_root = \<lparr>ci_sessionId = Some ''r'', ci_tenantId = ''t'', ci_name = Some ''root'', ci_familyId = None,
     ci_parent = None, ci_forkedFrom = None, ci_initialMessages = None, ci_agentProfile = None, ci_skipParentLink = False\<rparr>"

definition demo_spawn :: "id \<Rightarrow> string \<Rightarrow> spawn_input" where
  "demo_spawn p n = \<lparr>si_parent = p, si_name = Some n, si_insideParentTurn = False, si_agentProfile = None,
     si_inherit = InheritNothing\<rparr>"

definition demo_sup_acts :: "(actor_env \<times> sup_action) list" where
  "demo_sup_acts = [(demo_env, CreateRoot ''x'' demo_root), (demo_env, Spawn ''d'' ''c'' (demo_spawn ''r'' ''a'')),
     (demo_env, Spawn ''d'' ''g'' (demo_spawn ''c'' ''b''))]"


text \<open>A child is only made under a parent that exists, is above the depth limit, has fewer live children
  than the concurrency limit and has spawned fewer than the lifetime limit; it is filed under that
  parent, in the parent's tenant and family.\<close>

theorem spawn_needs_room:
  assumes "sup_good limits sv" and "spawnChild env limits d i input sv = (Inr child, sv')"
  shows "\<exists>parent sv1 c. getActor env (si_parent input) sv = (Inr parent, sv1)
    \<and> depthOf (sv_catalog sv) (si_parent input) < maxDepth limits
    \<and> (maxLifetimeChildren limits = 0
       \<or> length (children_of (si_parent input) (sv_catalog sv)) < maxLifetimeChildren limits)
    \<and> length (filter (child_live sv1) (children_of (si_parent input) (sv_catalog sv))) < maxConcurrentChildren limits
    \<and> sv_catalog sv' = sv_catalog sv @ [c] \<and> ct_parent c = truthy (Some (si_parent input))
    \<and> ct_tenantId c = sn_tenantId (ac_snapshot parent) \<and> ct_familyId c = sn_familyId (ac_snapshot parent)"
proof -
  obtain parent sv1 where g: "getActor env (si_parent input) sv = (Inr parent, sv1)"
    using assms(2) by (auto simp: spawnChild_def and_then_def split: prod.splits sum.splits)
  have k: "sn_sessionId (ac_snapshot parent) = si_parent input"
    using getActor_keyed(2) [OF _ g] assms(1) by (simp add: sup_good_def actor_keyed_def)
  obtain fo where f: "fanoutStatus limits (si_parent input) sv1 = (Inr fo, sv1)"
    using assms(2) g fanout_same by (auto simp: spawnChild_def and_then_def split: prod.splits sum.splits)
  have n: "fo_reason fo = None"
    using assms(2) g f by (auto simp: spawnChild_def and_then_def raise_def split: option.splits)
  obtain child' sv2 where c: "createSession env i (spawn_create d input (ac_snapshot parent)) sv1 = (Inr child', sv2)"
    and rest: "sv_catalog sv' = sv_catalog sv2"
    using assms(2) g f n
    by (auto simp: spawnChild_def and_then_def ret_def dest: with_actor_catalog split: prod.splits sum.splits if_splits)
  show ?thesis
    using g createSession_ok [OF c] rest getActor_catalog [OF g] fanout_allows [OF f n] k
    by (auto simp: may_spawn_def catalog_entry_def spawn_create_def)
qed

definition demo_sup :: supervisor where
  "demo_sup = sup_run default_fanout [(demo_env, CreateRoot ''x'' demo_root)]"

lemma demo_sup_good: "sup_good default_fanout demo_sup"
  unfolding demo_sup_def by (rule sup_run_good) (simp add: demo_env_ok)

lemma spawn_needs_room_witness:
  "\<exists>parent sv1. getActor demo_env ''r'' demo_sup = (Inr parent, sv1)
    \<and> depthOf (sv_catalog demo_sup) ''r'' < maxDepth default_fanout"
proof -
  let ?s = "spawnChild demo_env default_fanout ''d'' ''c'' (demo_spawn ''r'' ''a'') demo_sup"
  have "\<not> isl (fst ?s)" by code_simp
  then obtain child where "?s = (Inr child, snd ?s)" by (metis prod.collapse sum.collapse(2))
  from spawn_needs_room [OF demo_sup_good this] show ?thesis by (auto simp: demo_spawn_def)
qed

text \<open>Closing a session does not last: its actor is dropped and a closed snapshot is stored, and the next
  call that needs the session (a read, a listing, the inbox drain that follows the very command that
  closed it) brings it back idle under the next generation, so the refusal of closed senders never sees one.\<close>

theorem closed_session_reopens:
  assumes "sup_good limits sv" and "ids_ok env" and "cmd_kind c = SessionClose"
    and "supervise env caps n steps c sv = (Inr (Dispatched (Completed v)), sv')"
    and "getActor env' (cmd_sessionId c) sv' = (Inr a, sv'')"
  shows "\<exists>s. map_get (sv_snapshots sv') (cmd_sessionId c) = Some s \<and> sn_status s = Closed
    \<and> sn_status (ac_snapshot a) = Idle \<and> sn_generation (ac_snapshot a) = sn_generation s + 1"
proof -
  let ?k = "cmd_sessionId c"
  obtain b sv1 where g: "getActor env ?k sv = (Inr b, sv1)"
    using assms(4) by (auto simp: supervise_def and_then_def split: prod.splits sum.splits)
  obtain d where d: "dispatch env caps n steps c b = (Completed v, d)"
    and sv': "sv' = (put_actor ?k d sv1)\<lparr>sv_actors := map_delete ?k (sv_actors (put_actor ?k d sv1))\<rparr>"
    using assms(3,4) g
    by (auto simp: supervise_def and_then_def Let_def split: prod.splits if_splits dispatch_result.splits)
  have saved: "ac_saved d = Some (ac_snapshot d)" "sn_status (ac_snapshot d) = Closed"
    using close_dispatch [OF assms(3) d] by simp_all
  then have stored: "map_get (sv_snapshots sv') ?k = Some (ac_snapshot d)" "map_get (sv_actors sv') ?k = None"
    by (simp_all add: sv' put_actor_def js_simps)
  obtain m e where a: "new_actor env' 0 (recovered_snapshot m (ac_snapshot d)) = Inr e" "a = snd (initialize env' True e)"
    using assms(5) stored by (auto simp: getActor_def Let_def split: option.splits sum.splits)
  have e: "sn_status (ac_snapshot e) = Recovering" "sn_generation (ac_snapshot e) = sn_generation (ac_snapshot d) + 1"
    using a(1) by (auto simp: new_actor_def recovered_snapshot_def split: sum.splits)
  have "sn_status (ac_snapshot a) = Idle \<and> sn_generation (ac_snapshot a) = sn_generation (ac_snapshot e)"
    unfolding a(2) by (auto simp: initialize_def and_then_def emit_def setStatus_def upd_snapshot_def persistSnapshot_def Let_def)
  then show ?thesis using stored saved e by auto
qed

definition demo_close :: command_envelope where
  "demo_close = demo_command\<lparr>cmd_kind := SessionClose, cmd_sessionId := ''r'', cmd_expectedGeneration := None, cmd_tenantId := ''t''\<rparr>"

lemma closed_session_reopens_witness:
  "\<exists>a. fst (getActor demo_env ''r'' (snd (supervise demo_env [] 3 [] demo_close demo_sup))) = Inr a
    \<and> sn_status (ac_snapshot a) = Idle"
proof -
  let ?c = "supervise demo_env [] 3 [] demo_close demo_sup"
  let ?g = "getActor demo_env ''r'' (snd ?c)"
  have "fst ?c = Inr (Dispatched (Completed (StatusNow Closed)))" by code_simp
  then have c: "?c = (Inr (Dispatched (Completed (StatusNow Closed))), snd ?c)" by (metis prod.collapse)
  have "\<not> isl (fst ?g)" by code_simp
  then obtain a where f: "fst ?g = Inr a" by (metis sum.collapse(2))
  then have a: "?g = (Inr a, snd ?g)" by (metis prod.collapse)
  have k: "cmd_kind demo_close = SessionClose" "cmd_sessionId demo_close = ''r''" by (simp_all add: demo_close_def)
  from closed_session_reopens [OF demo_sup_good demo_env_ok k(1) c, unfolded k(2), OF a] f
  show ?thesis by blast
qed

end
