(* ===== verification/AgentMessages.thy ===== *)
theory AgentMessages
  imports Supervisor AgentInbox AuroraState
begin

text \<open>
  Messages between agents, the second half of \<^verbatim>\<open>runtime/supervisor.ts\<close>: the family roster and the
  tenant directory, resolving the receivers, the token bucket of a sender, queueing into the inboxes of the
  receivers, and the drain that hands queued messages to an idle session. The collation order of
  \<^verbatim>\<open>localeCompare\<close> is a parameter \<open>rank\<close>; the wait of at most half a second for confirmations is
  not modelled, a receipt is taken right after queueing.
\<close>

section \<open>State\<close>

record rate_bucket =
  rb_tokens :: rat
  rb_updatedAt :: msec

record messaging =
  mg_sup :: supervisor
  mg_rate :: "(id, rate_bucket) js_map"
  mg_inboxes :: "(id, inbox) js_map"

record message_limits =
  ml_maxChars :: nat
  ml_maxPending :: nat
  ml_capacity :: rat
  ml_refillMs :: rat
  ml_claimTimeoutMs :: int

definition default_message_limits :: message_limits where
  "default_message_limits = \<lparr>ml_maxChars = 16384, ml_maxPending = 20, ml_capacity = 3, ml_refillMs = 1000,
     ml_claimTimeoutMs = 5 * 60000\<rparr>"

datatype message_error =
    SupervisorThrew sup_error
  | MessageSize nat
  | ClosedSender
  | RateLimited
  | BroadcastWithReceiver
  | NobodyReachable
  | ReceiverNameRequired
  | ParentHasNoName
  | ReceiverRequired
  | OutsideFamily
  | AmbiguousReceiver
  | PendingLimit id nat
  | TargetRequired
  | NoLiveAgent
  | AmbiguousName nat
  | SelfMessage

type_synonym 'a msg_proc = "(messaging, message_error, 'a) proc"

definition in_supervisor :: "'a sup_proc \<Rightarrow> 'a msg_proc" where
  "in_supervisor f m =
     (case f (mg_sup m) of
        (Inl e, sv) \<Rightarrow> (throw (SupervisorThrew e), m\<lparr>mg_sup := sv\<rparr>)
      | (Inr r, sv) \<Rightarrow> (ok r, m\<lparr>mg_sup := sv\<rparr>))"

definition inbox_of :: "messaging \<Rightarrow> id \<Rightarrow> inbox" where
  "inbox_of m sid = (case map_get (mg_inboxes m) sid of None \<Rightarrow> [] | Some box \<Rightarrow> box)"

definition put_inbox :: "id \<Rightarrow> inbox \<Rightarrow> messaging \<Rightarrow> messaging" where
  "put_inbox sid box m = m\<lparr>mg_inboxes := map_set sid box (mg_inboxes m)\<rparr>"

section \<open>The family\<close>

record roster_entry =
  re_sessionId :: id
  re_name :: string
  re_relationship :: relationship
  re_status :: session_status
  re_generation :: nat

definition relationship_of :: "catalog_record \<Rightarrow> catalog_record \<Rightarrow> relationship option" where
  "relationship_of source target =
     (if ct_familyId source \<noteq> ct_familyId target \<or> ct_sessionId source = ct_sessionId target then None
      else if ct_parent source = Some (ct_sessionId target) then Some RelParent
      else if ct_parent target = Some (ct_sessionId source) then Some RelChild
      else if truthy (ct_parent source) \<noteq> None \<and> ct_parent source = ct_parent target then Some RelSibling
      else None)"

definition relationship_order :: "relationship \<Rightarrow> nat" where
  "relationship_order r = (case r of RelParent \<Rightarrow> 0 | RelSibling \<Rightarrow> 1 | RelChild \<Rightarrow> 2 | RelExternal \<Rightarrow> 3)"

definition roster_entry_of :: "supervisor \<Rightarrow> catalog_record \<Rightarrow> catalog_record \<Rightarrow> roster_entry option" where
  "roster_entry_of sv source target =
     (case relationship_of source target of
        None \<Rightarrow> None
      | Some r \<Rightarrow>
          (case known_state sv (ct_sessionId target) of
             None \<Rightarrow> None
           | Some s \<Rightarrow> if sn_tenantId s \<noteq> ct_tenantId source then None
               else Some \<lparr>re_sessionId = ct_sessionId target, re_name = ct_name target, re_relationship = r,
                          re_status = sn_status s, re_generation = sn_generation s\<rparr>))"

definition familyRoster :: "(string \<Rightarrow> nat) \<Rightarrow> id \<Rightarrow> roster_entry list sup_proc" where
  "familyRoster rank sid sv =
     (case find_record sid (sv_catalog sv) of
        None \<Rightarrow> (throw (NoSession sid), sv)
      | Some source \<Rightarrow>
          (ok (sort_key (\<lambda>e. (relationship_order (re_relationship e), rank (re_name e)))
             (List.map_filter (roster_entry_of sv source) (sv_catalog sv))), sv))"

section \<open>The rate of a sender\<close>

text \<open>\<^verbatim>\<open>consumeAgentMessageRate\<close> on the bucket of the sender: \<open>None\<close> is the throw, which leaves the
  bucket as it was.\<close>

definition take_token :: "rat \<Rightarrow> rat \<Rightarrow> msec \<Rightarrow> rate_bucket option \<Rightarrow> rate_bucket option" where
  "take_token capacity refillMs now bucket =
     (let current = (case bucket of Some b \<Rightarrow> b | None \<Rightarrow> \<lparr>rb_tokens = capacity, rb_updatedAt = now\<rparr>);
          refilled = min capacity (rb_tokens current + of_int (now - rb_updatedAt current) / refillMs)
      in if refilled < 1 then None else Some \<lparr>rb_tokens = refilled - 1, rb_updatedAt = now\<rparr>)"

definition consumeAgentMessageRate :: "message_limits \<Rightarrow> msec \<Rightarrow> id \<Rightarrow> unit msg_proc" where
  "consumeAgentMessageRate limits now sender m =
     (case take_token (ml_capacity limits) (ml_refillMs limits) now (map_get (mg_rate m) sender) of
        None \<Rightarrow> (throw RateLimited, m)
      | Some b \<Rightarrow> (ok (), m\<lparr>mg_rate := map_set sender b (mg_rate m)\<rparr>))"

section \<open>Resolving the receivers\<close>

record receiver =
  rv_targetSessionId :: "id option"
  rv_receiverRole :: "relationship option"
  rv_receiverName :: "string option"
  rv_broadcast :: bool

definition one_of :: "roster_entry list \<Rightarrow> (message_error, roster_entry list) result" where
  "one_of matches = (if matches = [] then throw OutsideFamily
     else if length matches > 1 then throw AmbiguousReceiver else ok matches)"

definition resolve_in :: "receiver \<Rightarrow> roster_entry list \<Rightarrow> (message_error, roster_entry list) result" where
  "resolve_in input roster =
     (if rv_broadcast input then
        if truthy (rv_targetSessionId input) \<noteq> None \<or> rv_receiverRole input \<noteq> None
            \<or> truthy (rv_receiverName input) \<noteq> None then throw BroadcastWithReceiver
        else if roster = [] then throw NobodyReachable else ok roster
      else
        (case truthy (rv_targetSessionId input) of
           Some t \<Rightarrow> one_of (filter (\<lambda>e. re_sessionId e = t) roster)
         | None \<Rightarrow>
             (case rv_receiverRole input of
                Some role \<Rightarrow>
                  let matches = filter (\<lambda>e. re_relationship e = role) roster;
                      nm = (case rv_receiverName input of None \<Rightarrow> [] | Some n \<Rightarrow> js_trim n) in
                  if role \<noteq> RelParent then
                    if nm = [] then throw ReceiverNameRequired
                    else one_of (filter (\<lambda>e. re_name e = nm) matches)
                  else if truthy (rv_receiverName input) \<noteq> None then throw ParentHasNoName
                  else one_of matches
              | None \<Rightarrow> throw ReceiverRequired)))"

definition resolveMessageTargets :: "(string \<Rightarrow> nat) \<Rightarrow> id \<Rightarrow> receiver \<Rightarrow> roster_entry list msg_proc" where
  "resolveMessageTargets rank sender input =
     and_then (in_supervisor (familyRoster rank sender)) (\<lambda>roster.
       case resolve_in input roster of Inl e \<Rightarrow> raise e | Inr ts \<Rightarrow> ret ts)"

section \<open>Delivery\<close>

definition receipt :: "inbox_message \<Rightarrow> message_receipt" where
  "receipt m = \<lparr>rc_id = in_id m, rc_targetSessionId = in_targetSessionId m, rc_targetName = in_targetName m,
     rc_relationship = in_relationship m, rc_requestedMode = in_requestedMode m, rc_effectiveMode = in_effectiveMode m,
     rc_delivered = (in_state m = InDelivered), rc_queuedAt = in_createdAt m, rc_deliveredAt = in_deliveredAt m\<rparr>"

definition mirrored :: "relationship \<Rightarrow> relationship" where
  "mirrored r = (case r of RelParent \<Rightarrow> RelChild | RelChild \<Rightarrow> RelParent | RelExternal \<Rightarrow> RelExternal
     | RelSibling \<Rightarrow> RelSibling)"

definition effective_mode_of :: "delivery_mode \<Rightarrow> session_status \<Rightarrow> effective_mode" where
  "effective_mode_of requested status =
     (case requested of
        ModeAuto \<Rightarrow> if status \<in> {Idle, Ready} then FollowUp else Steer
      | ModeSteer \<Rightarrow> Steer
      | ModeFollowUp \<Rightarrow> FollowUp)"

text \<open>\<^verbatim>\<open>newAgentInboxMessage\<close> with the two ids it draws.\<close>

definition new_message ::
    "msec \<Rightarrow> id \<times> id \<Rightarrow> session_snapshot \<Rightarrow> delivery_mode \<Rightarrow> string \<Rightarrow> roster_entry \<Rightarrow> inbox_message" where
  "new_message now ids sender requested body target =
     \<lparr>in_id = fst ids, in_commandId = snd ids, in_tenantId = sn_tenantId sender, in_familyId = sn_familyId sender,
      in_senderSessionId = sn_sessionId sender, in_senderName = sn_name sender,
      in_targetSessionId = re_sessionId target, in_targetName = re_name target,
      in_relationship = mirrored (re_relationship target), in_requestedMode = requested,
      in_effectiveMode = effective_mode_of requested (re_status target), in_text = body,
      in_state = InPending, in_createdAt = now, in_updatedAt = now, in_ownerId = None, in_deliveredAt = None,
      in_uncertainReason = None\<rparr>"

definition check_pending :: "message_limits \<Rightarrow> msec \<Rightarrow> roster_entry \<Rightarrow> unit msg_proc" where
  "check_pending limits now target m =
     (case inbox_pendingCount now (ml_claimTimeoutMs limits) (inbox_of m (re_sessionId target)) of
        (n, box) \<Rightarrow> (if n \<ge> ml_maxPending limits then throw (PendingLimit (re_sessionId target) (ml_maxPending limits)) else ok (),
                      put_inbox (re_sessionId target) box m))"

definition enqueue_message :: "message_limits \<Rightarrow> msec \<Rightarrow> inbox_message \<Rightarrow> unit msg_proc" where
  "enqueue_message limits now msg m =
     (ok (), put_inbox (in_targetSessionId msg)
        (snd (inbox_enqueue now (ml_claimTimeoutMs limits) msg (inbox_of m (in_targetSessionId msg)))) m)"

text \<open>\<^verbatim>\<open>deliverAgentMessages\<close>: first every receiver is checked, then every message is queued.\<close>

definition deliverAgentMessages ::
    "message_limits \<Rightarrow> msec \<Rightarrow> (nat \<Rightarrow> id \<times> id) \<Rightarrow> session_snapshot \<Rightarrow> roster_entry list \<Rightarrow> delivery_mode \<Rightarrow> string
       \<Rightarrow> message_receipt list msg_proc" where
  "deliverAgentMessages limits now ids sender targets requested body =
     and_then (for_each targets (check_pending limits now)) (\<lambda>_.
     let records = map (\<lambda>(n, t). new_message now (ids n) sender requested body t) (enumerate 0 targets) in
     and_then (for_each records (enqueue_message limits now)) (\<lambda>_. ret (map receipt records)))"

definition checked_text :: "message_limits \<Rightarrow> string \<Rightarrow> (message_error, string) result" where
  "checked_text limits message =
     (let body = js_trim message in
      if body = [] \<or> length body > ml_maxChars limits then throw (MessageSize (ml_maxChars limits)) else ok body)"

definition live_sender :: "actor_env \<Rightarrow> id \<Rightarrow> session_snapshot msg_proc" where
  "live_sender env sender =
     and_then (in_supervisor (getActor env sender)) (\<lambda>a.
       if sn_status (ac_snapshot a) = Closed then raise ClosedSender else ret (ac_snapshot a))"

definition sendAgentMessage ::
    "actor_env \<Rightarrow> message_limits \<Rightarrow> (string \<Rightarrow> nat) \<Rightarrow> (nat \<Rightarrow> id \<times> id) \<Rightarrow> id \<Rightarrow> string \<Rightarrow> delivery_mode option \<Rightarrow> receiver
       \<Rightarrow> message_receipt list msg_proc" where
  "sendAgentMessage env limits rank ids senderId message requested input =
     (case checked_text limits message of
        Inl e \<Rightarrow> raise e
      | Inr body \<Rightarrow>
          and_then (live_sender env senderId) (\<lambda>sender.
          and_then (consumeAgentMessageRate limits (env_now env) senderId) (\<lambda>_.
          and_then (resolveMessageTargets rank senderId input) (\<lambda>targets.
          deliverAgentMessages limits (env_now env) ids sender targets
            (case requested of None \<Rightarrow> ModeAuto | Some r \<Rightarrow> r) body))))"

section \<open>The directory of a tenant\<close>

record directory_entry =
  de_sessionId :: id
  de_name :: string
  de_familyId :: id
  de_status :: session_status
  de_busy :: bool
  de_resident :: bool
  de_depth :: nat
  de_updatedAt :: msec
  de_createdAt :: msec
  de_nameIsUnique :: bool

definition js_includes :: "string \<Rightarrow> string \<Rightarrow> bool" where
  "js_includes s p = list_ex (\<lambda>i. starts_with (drop i s) p) [0..<Suc (length s)]"

definition directory_entry_of ::
    "supervisor \<Rightarrow> string \<Rightarrow> string option \<Rightarrow> bool \<Rightarrow> catalog_record \<Rightarrow> directory_entry option" where
  "directory_entry_of sv tenantId query includeClosed c =
     (if ct_tenantId c \<noteq> tenantId then None
      else
        let source = (case query of None \<Rightarrow> [] | Some q \<Rightarrow> js_lower (js_trim q)) in
        if source \<noteq> [] \<and> \<not> js_includes (js_lower (ct_name c)) source \<and> \<not> starts_with (ct_sessionId c) source then None
        else
          (case known_state sv (ct_sessionId c) of
             None \<Rightarrow> None
           | Some s \<Rightarrow>
               if \<not> includeClosed \<and> sn_status s = Closed then None
               else Some \<lparr>de_sessionId = ct_sessionId c, de_name = ct_name c, de_familyId = ct_familyId c,
                 de_status = sn_status s, de_busy = (truthy (sn_activeTurnId s) \<noteq> None),
                 de_resident = map_has (sv_actors sv) (ct_sessionId c),
                 de_depth = depthOf (sv_catalog sv) (ct_sessionId c), de_updatedAt = sn_updatedAt s,
                 de_createdAt = ct_createdAt c, de_nameIsUnique = True\<rparr>))"

definition mark_unique :: "directory_entry list \<Rightarrow> directory_entry list" where
  "mark_unique es = map (\<lambda>e. e\<lparr>de_nameIsUnique := (length (filter (\<lambda>x. de_name x = de_name e) es) = 1)\<rparr>) es"

definition directory ::
    "string \<Rightarrow> string option \<Rightarrow> bool \<Rightarrow> rat option \<Rightarrow> supervisor \<Rightarrow> directory_entry list" where
  "directory tenantId query includeClosed most sv =
     take (nat (min (max 1 \<lfloor>case most of None \<Rightarrow> 100 | Some l \<Rightarrow> l\<rfloor>) 500))
       (sort_key (\<lambda>e. - de_updatedAt e)
         (mark_unique (List.map_filter (directory_entry_of sv tenantId query includeClosed) (sv_catalog sv))))"

text \<open>The one receiver of a directed message: by id, or by a name only one listed agent has.\<close>

definition directed_target ::
    "id \<Rightarrow> id option \<Rightarrow> string option \<Rightarrow> directory_entry list \<Rightarrow> (message_error, directory_entry) result" where
  "directed_target senderId targetId targetName entries =
     (let candidates = (case truthy targetId of
            Some t \<Rightarrow> filter (\<lambda>e. de_sessionId e = t) entries
          | None \<Rightarrow> filter (\<lambda>e. de_name e = js_trim (case targetName of None \<Rightarrow> [] | Some n \<Rightarrow> n)) entries)
      in case candidates of
           [] \<Rightarrow> throw NoLiveAgent
         | [target] \<Rightarrow> if de_sessionId target = senderId then throw SelfMessage else ok target
         | _ \<Rightarrow> throw (AmbiguousName (length candidates)))"

definition sendDirectedMessage ::
    "actor_env \<Rightarrow> message_limits \<Rightarrow> (string \<Rightarrow> nat) \<Rightarrow> (nat \<Rightarrow> id \<times> id) \<Rightarrow> id \<Rightarrow> string \<Rightarrow> delivery_mode option
       \<Rightarrow> id option \<Rightarrow> string option \<Rightarrow> message_receipt list msg_proc" where
  "sendDirectedMessage env limits rank ids senderId message requested targetId targetName =
     (case checked_text limits message of
        Inl e \<Rightarrow> raise e
      | Inr body \<Rightarrow>
          and_then (live_sender env senderId) (\<lambda>sender.
          if truthy targetId = None \<and> js_blank (case targetName of None \<Rightarrow> [] | Some n \<Rightarrow> n) then raise TargetRequired
          else
            and_then (reads (\<lambda>m. directory (sn_tenantId sender) None False None (mg_sup m))) (\<lambda>entries.
            case directed_target (sn_sessionId sender) targetId targetName entries of
              Inl e \<Rightarrow> raise e
            | Inr target \<Rightarrow>
                and_then (consumeAgentMessageRate limits (env_now env) senderId) (\<lambda>_.
                and_then (in_supervisor (familyRoster rank (sn_sessionId sender))) (\<lambda>roster.
                deliverAgentMessages limits (env_now env) ids sender
                  [\<lparr>re_sessionId = de_sessionId target, re_name = de_name target,
                    re_relationship =
                      (case List.find (\<lambda>e. re_sessionId e = de_sessionId target) roster of
                         Some e \<Rightarrow> re_relationship e | None \<Rightarrow> RelExternal),
                    re_status = de_status target, re_generation = 0\<rparr>]
                  (case requested of None \<Rightarrow> ModeAuto | Some r \<Rightarrow> r) body)))))"

section \<open>Draining an inbox\<close>

text \<open>Steering messages are claimed for a running turn, at most \<open>n\<close> of them.\<close>

fun claim_steering :: "nat \<Rightarrow> msec \<Rightarrow> int \<Rightarrow> id \<Rightarrow> inbox \<Rightarrow> inbox_message list \<times> inbox" where
  "claim_steering 0 now tmo owner box = ([], box)"
| "claim_steering (Suc n) now tmo owner box =
     (case inbox_claimNext now tmo [Steer] owner box of
        (None, box') \<Rightarrow> ([], box')
      | (Some m, box') \<Rightarrow> (case claim_steering n now tmo owner box' of (ms, box'') \<Rightarrow> (m # ms, box'')))"

definition formattedAgentMessage :: "inbox_message \<Rightarrow> string" where
  "formattedAgentMessage m = join newline
     [''Agent-to-agent message received.'',
      ''From '' @ relationship_text (in_relationship m) @ '' agent '' @ json_quote (in_senderName m)
        @ '' ('' @ in_senderSessionId m @ ''):'',
      in_text m]"

text \<open>What \<^verbatim>\<open>dispatch\<close> of the claimed message does: it may accept the prompt, which reports the message as
  delivered at that moment, and then end with a result or by throwing.\<close>

record delivery =
  dl_now :: msec
  dl_ready :: bool
  dl_accepted :: "msec option"
  dl_threw :: "string option"
  dl_reason :: string

definition mark_uncertain :: "msec \<Rightarrow> id \<Rightarrow> inbox_message \<Rightarrow> string \<Rightarrow> inbox \<Rightarrow> (inbox_error, inbox_message) result \<times> inbox" where
  "mark_uncertain now owner m why =
     inbox_transition now (in_id m) (case in_ownerId m of Some w \<Rightarrow> w | None \<Rightarrow> owner) False None (Some why)"

definition markInboxDelivered :: "msec \<Rightarrow> id \<Rightarrow> inbox_message \<Rightarrow> msec \<Rightarrow> inbox \<Rightarrow> (inbox_error, inbox_message) result \<times> inbox" where
  "markInboxDelivered now owner m deliveredAt =
     inbox_transition now (in_id m) (case in_ownerId m of Some w \<Rightarrow> w | None \<Rightarrow> owner) True (Some deliveredAt) None"

text \<open>\<^verbatim>\<open>deliverClaimedMessage\<close> and the catch around it; the flag says whether the drain goes on.\<close>

definition deliver_claimed :: "id \<Rightarrow> delivery \<Rightarrow> inbox_message \<Rightarrow> inbox \<Rightarrow> bool \<times> inbox" where
  "deliver_claimed owner d m box =
     (let (accepted, box1) = (case dl_accepted d of
            None \<Rightarrow> (False, box)
          | Some t \<Rightarrow> (case markInboxDelivered (dl_now d) owner m t box of
                         (Inl _, b) \<Rightarrow> (False, b) | (Inr _, b) \<Rightarrow> (True, b)))
      in case dl_threw d of
           Some nm \<Rightarrow> (False, snd (mark_uncertain (dl_now d) owner m (''delivery_exception:'' @ nm) box1))
         | None \<Rightarrow>
             if accepted then (True, box1)
             else
               (case mark_uncertain (dl_now d) owner m (dl_reason d) box1 of
                  (Inr _, b) \<Rightarrow> (True, b)
                | (Inl _, b) \<Rightarrow> (False, snd (mark_uncertain (dl_now d) owner m ''delivery_exception:Error'' b))))"

text \<open>One delivery per turn of the loop; the list ends with the deliveries the process lives to make.\<close>

fun drainAgentInbox :: "int \<Rightarrow> id \<Rightarrow> delivery list \<Rightarrow> inbox \<Rightarrow> inbox" where
  "drainAgentInbox tmo owner [] box = box"
| "drainAgentInbox tmo owner (d # ds) box =
     (if \<not> dl_ready d then box
      else
        (case inbox_claimNext (dl_now d) tmo [FollowUp, Steer] owner box of
           (None, box') \<Rightarrow> box'
         | (Some m, box') \<Rightarrow>
             (case deliver_claimed owner d m box' of
                (False, b) \<Rightarrow> b
              | (True, b) \<Rightarrow> drainAgentInbox tmo owner ds b)))"

section \<open>The token bucket\<close>

text \<open>How many of the sends at the given times are let through.\<close>

fun accepted_sends :: "rat \<Rightarrow> rat \<Rightarrow> rate_bucket option \<Rightarrow> msec list \<Rightarrow> nat" where
  "accepted_sends capacity refillMs b [] = 0"
| "accepted_sends capacity refillMs b (t # ts) =
     (case take_token capacity refillMs t b of
        None \<Rightarrow> accepted_sends capacity refillMs b ts
      | Some b' \<Rightarrow> Suc (accepted_sends capacity refillMs (Some b') ts))"

lemma take_token_Some:
  assumes "take_token c r t (Some b) = Some b'"
  shows "rb_tokens b' \<le> rb_tokens b + of_int (t - rb_updatedAt b) / r - 1" "0 \<le> rb_tokens b'"
    "rb_updatedAt b' = t" "rb_tokens b' \<le> c - 1"
  using assms by (auto simp: take_token_def Let_def split: if_splits)

lemma accepted_bucket:
  assumes "0 < r" and "sorted (rb_updatedAt b # ts)" and "0 \<le> rb_tokens b"
  shows "of_nat (accepted_sends c r (Some b) ts) \<le> rb_tokens b + of_int (last (rb_updatedAt b # ts) - rb_updatedAt b) / r"
  using assms(2,3)
proof (induction ts arbitrary: b)
  case (Cons t ts)
  show ?case
  proof (cases "take_token c r t (Some b)")
    case None
    have "sorted (rb_updatedAt b # ts)" using Cons.prems(1) by auto
    note ih = Cons.IH [OF this Cons.prems(2)]
    have "of_int (last (rb_updatedAt b # ts) - rb_updatedAt b) / r \<le> of_int (last (t # ts) - rb_updatedAt b) / r"
      using Cons.prems(1) assms(1) by (intro divide_right_mono) auto
    then show ?thesis using ih None by simp
  next
    case (Some b')
    note b' = take_token_Some [OF Some]
    have "sorted (rb_updatedAt b' # ts)" using Cons.prems(1) b'(3) by simp
    note ih = Cons.IH [OF this b'(2)]
    have "(of_int (t - rb_updatedAt b) :: rat) / r + of_int (last (t # ts) - t) / r = of_int (last (t # ts) - rb_updatedAt b) / r"
      by (simp add: add_divide_distrib [symmetric] del: last.simps)
    moreover have "last (rb_updatedAt b # t # ts) = last (t # ts)" by simp
    ultimately show ?thesis using ih b' Some by (simp del: last.simps)
  qed
qed simp

lemma accepted_window:
  assumes "0 < r" and "0 \<le> c" and "sorted (t # ts)"
    and b: "case b of None \<Rightarrow> True | Some x \<Rightarrow> rb_updatedAt x \<le> t"
  shows "of_nat (accepted_sends c r b (t # ts)) \<le> c + of_int (last (t # ts) - t) / r"
  using assms(3,4)
proof (induction ts arbitrary: t)
  case Nil
  then show ?case using assms(2) by (auto simp: take_token_def Let_def split: option.split)
next
  case (Cons u ts)
  show ?case
  proof (cases "take_token c r t b")
    case None
    have "of_nat (accepted_sends c r b (u # ts)) \<le> c + of_int (last (u # ts) - u) / r"
      using Cons.prems by (intro Cons.IH) (auto split: option.splits)
    also have "\<dots> \<le> c + of_int (last (u # ts) - t) / r"
      using Cons.prems(1) assms(1) by (intro add_left_mono divide_right_mono) auto
    finally show ?thesis using None by simp
  next
    case (Some b')
    have b': "rb_tokens b' \<le> c - 1" "0 \<le> rb_tokens b'" "rb_updatedAt b' = t"
      using Some by (auto simp: take_token_def Let_def split: if_splits)
    have "of_nat (accepted_sends c r (Some b') (u # ts)) \<le> rb_tokens b' + of_int (last (t # u # ts) - t) / r"
      using accepted_bucket [OF assms(1), of b' "u # ts" c] Cons.prems(1) b' by simp
    then show ?thesis using Some b' by (simp del: last.simps)
  qed
qed

section \<open>Settling claims\<close>

definition settled :: "id \<Rightarrow> inbox \<Rightarrow> bool" where
  "settled owner box = list_all (\<lambda>x. \<not> (in_state x = InClaimed \<and> in_ownerId x = Some owner)) box"

lemma settled_recover: "settled owner box \<Longrightarrow> settled owner (recoverStaleClaims now tmo box)"
  by (auto simp: settled_def list_all_iff recoverStaleClaims_def recover_claim_def)

text \<open>The box right after \<^verbatim>\<open>claimNext\<close>: the claimed message is the only one of this owner.\<close>

definition only_claim :: "id \<Rightarrow> inbox_message \<Rightarrow> inbox \<Rightarrow> bool" where
  "only_claim owner m box \<longleftrightarrow> distinct (map in_id box) \<and> m \<in> set box \<and> in_state m = InClaimed \<and> in_ownerId m = Some owner
     \<and> settled owner (filter (\<lambda>x. in_id x \<noteq> in_id m) box)"

lemma claim_only:
  assumes "distinct (map in_id box)" and "settled owner box"
    and "inbox_claimNext now tmo modes owner box = (Some m, box')"
  shows "only_claim owner m box'"
  using assms(3)
proof (cases rule: claimNext_cases)
  case (some x)
  let ?ms = "recoverStaleClaims now tmo box"
  have dist: "distinct (map in_id ?ms)" using assms(1) by simp
  have id: "in_id m = in_id x" "in_state m = InClaimed" "in_ownerId m = Some owner" using some(5) by auto
  have eq: "y \<in> set ?ms \<Longrightarrow> y = x \<longleftrightarrow> in_id y = in_id x" for y
    using dist some(1) by (auto simp: distinct_map inj_on_def simp del: recover_maps recover_sets)
  have "box' = update_first (\<lambda>y. y = x) (\<lambda>_. m) ?ms" using some(5,6) by (simp only: option.inject)
  also have "\<dots> = update_first (\<lambda>y. in_id y = in_id x) (\<lambda>_. m) ?ms" by (rule update_first_cong) (rule eq)
  finally have box': "box' = update_first (\<lambda>y. in_id y = in_id x) (\<lambda>_. m) ?ms" .
  have set: "set box' = insert m (set ?ms - {x})"
    unfolding box' using dist some(1) by (intro update_first_unique [where key = in_id]) auto
  have map: "map in_id box' = map in_id ?ms"
    unfolding box' using dist some(1) id by (intro map_update_first_unique [where key = in_id]) auto
  have "distinct (map in_id box')" unfolding map by (rule dist)
  moreover have "settled owner (filter (\<lambda>x. in_id x \<noteq> in_id m) box')"
    using set settled_recover [OF assms(2), of now tmo] unfolding settled_def list_all_iff by auto
  ultimately show ?thesis using set id unfolding only_claim_def by simp
qed simp

lemma settle_transition:
  assumes only: "only_claim owner m box" and w: "(case in_ownerId m of Some w \<Rightarrow> w | None \<Rightarrow> owner) = owner'"
    and t: "inbox_transition now (in_id m) owner' delivered dt r box = (res, box')"
  shows "\<not> isl res \<and> distinct (map in_id box') \<and> settled owner box'"
proof -
  have own: "owner' = owner" "in_state m = InClaimed" "in_ownerId m = Some owner" "m \<in> set box" "distinct (map in_id box)"
    using only w by (auto simp: only_claim_def)
  have "List.find (\<lambda>x. in_id x = in_id m) box = Some m"
  proof (cases "List.find (\<lambda>x. in_id x = in_id m) box")
    case None
    then show ?thesis using own(4) by (auto simp: find_None_iff)
  next
    case (Some y)
    then have "y \<in> set box" "in_id y = in_id m" using find_Some_mem by fastforce+
    then show ?thesis using Some own(4,5) by (auto simp: distinct_map inj_on_def)
  qed
  note found = this
  then obtain m' where m': "res = Inr m'" "in_state m' \<noteq> InClaimed" "in_id m' = in_id m"
    "box' = update_first (\<lambda>x. in_id x = in_id m) (\<lambda>_. m') box"
    using t own(1,2,3) by (cases delivered) (auto simp: inbox_transition_def Let_def)
  have set: "set box' = insert m' (set box - {m})"
    unfolding m'(4) using own by (intro update_first_unique [where key = in_id]) auto
  have map: "map in_id box' = map in_id box"
    unfolding m'(4) using own m'(3) by (intro map_update_first_unique [where key = in_id]) auto
  have "y \<in> set box \<Longrightarrow> y \<noteq> m \<Longrightarrow> in_id y \<noteq> in_id m" for y
    using own(4,5) by (auto simp: distinct_map inj_on_def)
  then have "settled owner box'"
    using only set m'(2) unfolding only_claim_def settled_def list_all_iff by auto
  then show ?thesis using m'(1) map own(5) by simp
qed

lemma deliver_claimed_settles:
  assumes "only_claim owner m box"
  shows "distinct (map in_id (snd (deliver_claimed owner d m box))) \<and> settled owner (snd (deliver_claimed owner d m box))"
proof -
  have own: "in_ownerId m = Some owner" using assms by (simp add: only_claim_def)
  obtain r1 b1 where u: "mark_uncertain (dl_now d) owner m (''delivery_exception:'' @ the (dl_threw d)) box = (r1, b1)" by fastforce
  obtain r2 b2 where v: "mark_uncertain (dl_now d) owner m (dl_reason d) box = (r2, b2)" by fastforce
  note su = settle_transition [OF assms _ u [unfolded mark_uncertain_def]]
  note sv = settle_transition [OF assms _ v [unfolded mark_uncertain_def]]
  show ?thesis
  proof (cases "dl_accepted d")
    case None
    then show ?thesis using su sv u v own by (cases "dl_threw d"; cases r2) (auto simp: deliver_claimed_def)
  next
    case (Some t)
    obtain r3 b3 where w: "markInboxDelivered (dl_now d) owner m t box = (r3, b3)" by fastforce
    note sw = settle_transition [OF assms _ w [unfolded markInboxDelivered_def]]
    obtain x where x: "r3 = Inr x" using sw own by (cases r3) auto
    have after: "distinct (map in_id (snd (mark_uncertain now o' m why b3)))
      \<and> settled owner (snd (mark_uncertain now o' m why b3))" for now o' why
    proof -
      obtain r4 b4 where y: "mark_uncertain now o' m why b3 = (r4, b4)" by fastforce
      from y [unfolded mark_uncertain_def] show ?thesis
      proof (cases rule: transition_cases)
        case same
        then show ?thesis using y sw own by simp
      next
        case (moved z z')
        have "z \<in> set b3" "in_id z = in_id m" using moved(1) find_Some_mem by fastforce+
        then have "\<not> (in_state z = InClaimed \<and> in_ownerId z = Some owner)"
          using sw own by (auto simp: settled_def list_all_iff)
        then show ?thesis using moved(2,3) own by simp
      qed
    qed
    show ?thesis using sw own w x Some after by (cases "dl_threw d") (auto simp: deliver_claimed_def)
  qed
qed

section \<open>Properties\<close>


definition demo_delivery :: delivery where
  "demo_delivery = \<lparr>dl_now = 5, dl_ready = True, dl_accepted = None, dl_threw = None, dl_reason = ''command_rejected:X''\<rparr>"


text \<open>A sender gets at most \<open>capacity\<close> messages plus one per refill interval through in any stretch of time
  (over the rationals: the doubles of the source round).\<close>

theorem message_rate_bound:
  assumes "0 < refillMs" and "0 \<le> capacity" and "sorted (t # ts)"
    and "case b of None \<Rightarrow> True | Some x \<Rightarrow> rb_updatedAt x \<le> t"
  shows "of_nat (accepted_sends capacity refillMs b (t # ts)) \<le> capacity + of_int (last (t # ts) - t) / refillMs"
  by (rule accepted_window [OF assms])

lemma message_rate_bound_witness:
  "(of_nat (accepted_sends 3 1000 None [0, 1, 2, 3, 4, 1000]) :: rat) \<le> 3 + of_int 1000 / 1000
   \<and> accepted_sends 3 1000 None [0, 1, 2, 3, 4, 1000] = 4"
  using message_rate_bound [of 1000 3 0 "[1, 2, 3, 4, 1000]" None] by (simp add: take_token_def Let_def)

lemma relationship_facts:
  "relationship_of source target = Some r \<Longrightarrow> ct_familyId target = ct_familyId source
     \<and> ct_sessionId target \<noteq> ct_sessionId source \<and> r \<in> {RelParent, RelSibling, RelChild}"
  by (auto simp: relationship_of_def split: if_splits)

lemma roster_entry_of_Some:
  "roster_entry_of sv source target = Some e \<Longrightarrow> relationship_of source target = Some (re_relationship e)
     \<and> re_sessionId e = ct_sessionId target \<and> re_name e = ct_name target"
  by (auto simp: roster_entry_of_def split: option.splits if_splits)

lemma map_filter_mem: "y \<in> set (List.map_filter f xs) \<longleftrightarrow> (\<exists>x \<in> set xs. f x = Some y)"
  by (induction xs) (auto simp: List.map_filter_simps split: option.splits)

lemma roster_entry_mem:
  assumes "familyRoster rank sid sv = (Inr es, sv')" and "e \<in> set es"
  shows "\<exists>source target. find_record sid (sv_catalog sv) = Some source \<and> target \<in> set (sv_catalog sv)
    \<and> relationship_of source target = Some (re_relationship e) \<and> re_sessionId e = ct_sessionId target
    \<and> re_name e = ct_name target"
  using assms by (auto simp: familyRoster_def map_filter_mem dest!: roster_entry_of_Some split: option.splits)

lemma one_of_Inr: "one_of ms = Inr ts \<Longrightarrow> ts = ms \<and> length ts = 1"
  by (cases ms) (auto simp: one_of_def split: if_splits)

lemma resolve_in_Inr:
  "resolve_in input roster = Inr ts \<Longrightarrow> set ts \<subseteq> set roster \<and> ts \<noteq> [] \<and> (\<not> rv_broadcast input \<longrightarrow> length ts = 1)"
  by (auto simp: resolve_in_def Let_def dest!: one_of_Inr split: if_splits option.splits)

text \<open>A family message only ever goes to the parent, a sibling or a child of its sender, never to the sender,
  and to exactly one session unless it is a broadcast.\<close>

theorem family_message_reach:
  assumes "resolveMessageTargets rank sender input m = (Inr ts, m')"
  shows "m' = m \<and> ts \<noteq> [] \<and> (rv_broadcast input \<or> length ts = 1)
    \<and> list_all (\<lambda>e. re_sessionId e \<noteq> sender \<and> re_relationship e \<in> {RelParent, RelSibling, RelChild}
        \<and> (\<exists>source target. find_record sender (sv_catalog (mg_sup m)) = Some source \<and> target \<in> set (sv_catalog (mg_sup m))
             \<and> re_sessionId e = ct_sessionId target \<and> ct_familyId target = ct_familyId source
             \<and> relationship_of source target = Some (re_relationship e))) ts"
proof -
  obtain es where r: "familyRoster rank sender (mg_sup m) = (Inr es, mg_sup m)" "resolve_in input es = Inr ts" "m' = m"
    using assms by (auto simp: resolveMessageTargets_def and_then_def in_supervisor_def familyRoster_def raise_def ret_def
        split: option.splits sum.splits)
  have "re_sessionId e \<noteq> sender \<and> re_relationship e \<in> {RelParent, RelSibling, RelChild}
        \<and> (\<exists>source target. find_record sender (sv_catalog (mg_sup m)) = Some source \<and> target \<in> set (sv_catalog (mg_sup m))
             \<and> re_sessionId e = ct_sessionId target \<and> ct_familyId target = ct_familyId source
             \<and> relationship_of source target = Some (re_relationship e))" if "e \<in> set ts" for e
  proof -
    have "e \<in> set es" using resolve_in_Inr [OF r(2)] that by blast
    from roster_entry_mem [OF r(1) this] obtain source target where
      s: "find_record sender (sv_catalog (mg_sup m)) = Some source" "target \<in> set (sv_catalog (mg_sup m))"
        "relationship_of source target = Some (re_relationship e)" "re_sessionId e = ct_sessionId target" by blast
    then show ?thesis using find_record_mem [OF s(1)] relationship_facts [OF s(3)] by metis
  qed
  then show ?thesis using resolve_in_Inr [OF r(2)] r(3) by (auto simp: list_all_iff)
qed

definition demo_family :: messaging where
  "demo_family = \<lparr>mg_sup = sup_run default_fanout [(demo_env, CreateRoot ''x'' demo_root),
      (demo_env, Spawn ''d'' ''c'' (demo_spawn ''r'' ''a''))], mg_rate = [], mg_inboxes = []\<rparr>"

definition to_parent :: receiver where
  "to_parent = \<lparr>rv_targetSessionId = None, rv_receiverRole = Some RelParent, rv_receiverName = None, rv_broadcast = False\<rparr>"

lemma family_message_reach_witness:
  "\<exists>ts. fst (resolveMessageTargets length ''c'' to_parent demo_family) = Inr ts \<and> length ts = 1"
proof -
  let ?r = "resolveMessageTargets length ''c'' to_parent demo_family"
  have "\<not> isl (fst ?r)" by code_simp
  then obtain ts where f: "fst ?r = Inr ts" by (metis sum.collapse(2))
  then have r: "?r = (Inr ts, snd ?r)" by (metis prod.collapse)
  from family_message_reach [OF r] f show ?thesis by (auto simp: to_parent_def)
qed

lemma check_pending_ids:
  "inbox_of (snd (check_pending limits now t m)) sid =
     (if sid = re_sessionId t then recoverStaleClaims now (ml_claimTimeoutMs limits) (inbox_of m sid) else inbox_of m sid)"
  by (simp add: check_pending_def inbox_pendingCount_def Let_def inbox_of_def put_inbox_def js_simps)

text \<open>A delivery that any receiver's pending limit refuses queues nothing for anyone: the limits of all
  receivers are checked before the first message is written.\<close>

theorem refused_delivery_queues_nothing:
  assumes "deliverAgentMessages limits now ids sender targets requested body m = (Inl e, m')"
  shows "(\<exists>t. e = PendingLimit t (ml_maxPending limits) \<and> list_ex (\<lambda>x. re_sessionId x = t) targets)
    \<and> map in_id (inbox_of m' sid) = map in_id (inbox_of m sid)"
proof -
  have checks: "for_each targets (check_pending limits now) m = (r, m'') \<Longrightarrow>
      map in_id (inbox_of m'' sid) = map in_id (inbox_of m sid)
      \<and> (\<forall>e. r = Inl e \<longrightarrow> (\<exists>t. e = PendingLimit t (ml_maxPending limits) \<and> list_ex (\<lambda>x. re_sessionId x = t) targets))"
    for r m m''
  proof (induction targets arbitrary: m)
    case (Cons t ts)
    obtain r1 m1 where c: "check_pending limits now t m = (r1, m1)" by fastforce
    have ids: "map in_id (inbox_of m1 sid) = map in_id (inbox_of m sid)"
      using check_pending_ids [of limits now t m sid] c by simp
    show ?case
    proof (cases r1)
      case (Inl e1)
      then show ?thesis using c Cons.prems ids
        by (auto simp: check_pending_def split: prod.splits if_splits)
    next
      case (Inr u)
      then show ?thesis using c Cons ids by auto
    qed
  qed auto
  have "for_each ms (enqueue_message limits now) m = (Inl e, m2) \<Longrightarrow> False" for ms m m2
    by (induction ms arbitrary: m) (auto simp: enqueue_message_def)
  then have "for_each targets (check_pending limits now) m = (Inl e, m')"
    using assms by (auto simp: deliverAgentMessages_def and_then_def Let_def ret_def split: prod.splits sum.splits)
  from checks [OF this] show ?thesis by blast
qed

definition full_inbox :: messaging where
  "full_inbox = demo_family\<lparr>mg_inboxes := [(''b'', [demo_inbox_message ''m'' 1 Steer])]\<rparr>"

definition demo_target :: "id \<Rightarrow> roster_entry" where
  "demo_target i = \<lparr>re_sessionId = i, re_name = i, re_relationship = RelSibling, re_status = Idle, re_generation = 1\<rparr>"

definition demo_sender :: session_snapshot where
  "demo_sender = createInitialSnapshot demo_env ''s'' None None ''t'' ''n'' None None None"

lemma refused_delivery_queues_nothing_witness:
  "\<exists>e m'. deliverAgentMessages (default_message_limits\<lparr>ml_maxPending := 1\<rparr>) 2 (\<lambda>n. (''i'', ''k'')) demo_sender
      [demo_target ''a'', demo_target ''b''] ModeAuto ''hi'' full_inbox = (Inl e, m')
    \<and> map in_id (inbox_of m' ''a'') = []"
proof -
  let ?d = "deliverAgentMessages (default_message_limits\<lparr>ml_maxPending := 1\<rparr>) 2 (\<lambda>n. (''i'', ''k'')) demo_sender
      [demo_target ''a'', demo_target ''b''] ModeAuto ''hi'' full_inbox"
  have "isl (fst ?d)" by code_simp
  then obtain e where "fst ?d = Inl e" by (metis sum.collapse(1))
  then have d: "?d = (Inl e, snd ?d)" by (metis prod.collapse)
  have "map in_id (inbox_of full_inbox ''a'') = []" by (simp add: full_inbox_def inbox_of_def)
  with refused_delivery_queues_nothing [OF d, of "''a''"] d show ?thesis by metis
qed

lemma directory_entry_of_Some:
  "directory_entry_of sv tenantId q ic c = Some x \<Longrightarrow> de_sessionId x = ct_sessionId c \<and> ct_tenantId c = tenantId"
  by (cases "known_state sv (ct_sessionId c)") (auto simp: directory_entry_of_def Let_def split: if_splits)

lemma directory_mem:
  assumes "e \<in> set (directory tenantId q ic l sv)"
  shows "\<exists>c \<in> set (sv_catalog sv). ct_sessionId c = de_sessionId e \<and> ct_tenantId c = tenantId"
proof -
  have "e \<in> set (mark_unique (List.map_filter (directory_entry_of sv tenantId q ic) (sv_catalog sv)))"
    using in_set_takeD [OF assms [unfolded directory_def]] by simp
  then obtain x where x: "x \<in> set (List.map_filter (directory_entry_of sv tenantId q ic) (sv_catalog sv))"
    "de_sessionId x = de_sessionId e" by (auto simp: mark_unique_def)
  then show ?thesis by (auto simp: map_filter_mem dest!: directory_entry_of_Some)
qed

lemma directed_target_Inr:
  "directed_target s i nm es = Inr t \<Longrightarrow> t \<in> set es \<and> de_sessionId t \<noteq> s"
proof -
  assume a: "directed_target s i nm es = Inr t"
  have "filter p es = [t] \<Longrightarrow> t \<in> set es" for p by (metis filter_is_subset in_set_conv_decomp subset_eq append_Nil)
  with a show ?thesis by (auto simp: directed_target_def Let_def split: list.splits if_splits option.splits)
qed

lemma deliver_receipts:
  "deliverAgentMessages limits now ids sender [t] requested body m = (Inr rs, m') \<Longrightarrow>
     \<exists>r. rs = [r] \<and> rc_targetSessionId r = re_sessionId t"
  by (auto simp: deliverAgentMessages_def and_then_def Let_def ret_def new_message_def receipt_def enqueue_message_def
      enumerate_eq_zip split: prod.splits sum.splits)

text \<open>A directed message never leaves the tenant of its sender and never comes back to it: its one receiver is
  a catalogued session of that tenant other than the sender.\<close>

theorem directed_message_in_tenant:
  assumes "sendDirectedMessage env limits rank ids senderId message requested targetId targetName m = (Inr rs, m')"
  shows "\<exists>a sv' r c. getActor env senderId (mg_sup m) = (Inr a, sv') \<and> rs = [r] \<and> c \<in> set (sv_catalog (mg_sup m))
    \<and> ct_sessionId c = rc_targetSessionId r \<and> ct_tenantId c = sn_tenantId (ac_snapshot a)
    \<and> rc_targetSessionId r \<noteq> sn_sessionId (ac_snapshot a)"
proof -
  obtain body where body: "checked_text limits message = Inr body"
    using assms by (auto simp: sendDirectedMessage_def raise_def split: sum.splits)
  obtain a sv' where g: "getActor env senderId (mg_sup m) = (Inr a, sv')"
    using assms body
    by (auto simp: sendDirectedMessage_def live_sender_def and_then_def in_supervisor_def split: sum.splits prod.splits)
  let ?m1 = "m\<lparr>mg_sup := sv'\<rparr>"
  have open_: "sn_status (ac_snapshot a) \<noteq> Closed"
    using assms body g by (auto simp: sendDirectedMessage_def live_sender_def and_then_def in_supervisor_def raise_def)
  let ?es = "directory (sn_tenantId (ac_snapshot a)) None False None sv'"
  obtain t where t: "directed_target (sn_sessionId (ac_snapshot a)) targetId targetName ?es = Inr t"
    using assms body g open_
    by (auto simp: sendDirectedMessage_def live_sender_def and_then_def in_supervisor_def raise_def ret_def reads_def
        split: if_splits sum.splits)
  obtain m2 m3 rel where "deliverAgentMessages limits (env_now env) ids (ac_snapshot a)
      [\<lparr>re_sessionId = de_sessionId t, re_name = de_name t, re_relationship = rel, re_status = de_status t, re_generation = 0\<rparr>]
      (case requested of None \<Rightarrow> ModeAuto | Some r \<Rightarrow> r) body m2 = (Inr rs, m3)"
    using assms body g open_ t
    by (auto simp: sendDirectedMessage_def live_sender_def and_then_def in_supervisor_def raise_def ret_def reads_def
        split: if_splits sum.splits prod.splits)
  from deliver_receipts [OF this] obtain r where r: "rs = [r]" "rc_targetSessionId r = de_sessionId t" by auto
  show ?thesis
    using g r directed_target_Inr [OF t] directory_mem [of t] getActor_catalog [OF g] by metis
qed

lemma directed_message_in_tenant_witness:
  "\<exists>r. fst (sendDirectedMessage demo_env default_message_limits length (\<lambda>n. (''i'', ''k'')) ''c'' ''hi'' None None (Some ''root'') demo_family)
      = Inr [r] \<and> rc_targetSessionId r \<noteq> ''c''"
proof -
  let ?s = "sendDirectedMessage demo_env default_message_limits length (\<lambda>n. (''i'', ''k'')) ''c'' ''hi'' None None (Some ''root'') demo_family"
  have "\<not> isl (fst ?s)" by code_simp
  then obtain rs where f: "fst ?s = Inr rs" by (metis sum.collapse(2))
  then have s: "?s = (Inr rs, snd ?s)" by (metis prod.collapse)
  have k: "(case fst (getActor demo_env ''c'' (mg_sup demo_family)) of Inl _ \<Rightarrow> False
    | Inr a \<Rightarrow> sn_sessionId (ac_snapshot a) = ''c'')" by code_simp
  from directed_message_in_tenant [OF s] f k show ?thesis by auto
qed

end
