(* ===== verification/PolicyStack.thy ===== *)
theory PolicyStack
  imports Types JsText
begin

text \<open>
  The policy layers a capability call passes: \<^verbatim>\<open>policy/policy-engine.ts\<close>,
  \<^verbatim>\<open>policy/opa-policy-engine.ts\<close>, \<^verbatim>\<open>policy/aurora-policy-engine.ts\<close>, the settings layer and the
  composition of \<^verbatim>\<open>engine.ts\<close>, and what a session mode makes of the result
  (\<^verbatim>\<open>SessionModeService.adjust\<close>). What the risk analyser, the constitution, the OPA server, the
  operator's hooks and the settings answer is given per call; the message of a decision is left out.
\<close>

section \<open>The base policy\<close>

record default_options =
  do_autoApproveWorkspaceWrites :: bool
  do_allowLocalProcess :: bool
  do_denied :: "string list"

definition allow :: "string \<Rightarrow> policy_decision" where
  "allow code = \<lparr>decision = Allow, reasonCode = code, approvalScope = None\<rparr>"

definition deny :: "string \<Rightarrow> policy_decision" where
  "deny code = \<lparr>decision = Deny, reasonCode = code, approvalScope = None\<rparr>"

definition ask :: "string \<Rightarrow> approval_scope \<Rightarrow> policy_decision" where
  "ask code scope = \<lparr>decision = RequireApproval, reasonCode = code, approvalScope = Some scope\<rparr>"

definition default_decide :: "default_options \<Rightarrow> capability_descriptor \<Rightarrow> capability_context \<Rightarrow> policy_decision" where
  "default_decide options descriptor context =
     (if desc_id descriptor \<in> set (do_denied options) then deny ''capability_denied''
      else if ctx_source context = SrcWebhook \<and> desc_risk descriptor \<notin> {Pure, WorkspaceRead}
           then deny ''untrusted_webhook_source''
      else
        (case desc_risk descriptor of
           Pure \<Rightarrow> allow ''low_risk''
         | WorkspaceRead \<Rightarrow> allow ''low_risk''
         | WorkspaceWrite \<Rightarrow> if do_autoApproveWorkspaceWrites options then allow ''workspace_write_enabled''
                            else ask ''workspace_mutation'' ScopeSession
         | Process \<Rightarrow> if do_allowLocalProcess options then allow ''process_enabled''
                     else ask ''process_execution'' ScopeOnce
         | Network \<Rightarrow> ask ''network_access'' ScopeResource
         | ExternalSideEffect \<Rightarrow> ask ''external_side_effect'' ScopeOnce
         | Privileged \<Rightarrow> ask ''privileged'' ScopeOnce))"

section \<open>The organization's policy server\<close>

text \<open>What the HTTP request gives: it fails or times out, answers with an error status, or with a JSON
  body whose \<^verbatim>\<open>result\<close> is given (\<open>None\<close> when it is missing or not an object).\<close>

datatype opa_answer = OpaFailed bool | OpaStatus nat | OpaResult "(string \<times> json) list option"

definition closed :: "string \<Rightarrow> policy_decision" where
  "closed code = deny code"

definition decision_of_json :: "json \<Rightarrow> decision_kind" where
  "decision_of_json v =
     (if v = JStr ''allow'' then Allow else if v = JStr ''deny'' then Deny
      else if v = JStr ''require_approval'' then RequireApproval else NotALiteral v)"

definition scope_of_json :: "json option \<Rightarrow> approval_scope option" where
  "scope_of_json v = (case v of
     Some (JStr s) \<Rightarrow> if s = ''once'' then Some ScopeOnce else if s = ''session'' then Some ScopeSession
                     else if s = ''resource'' then Some ScopeResource else None
   | _ \<Rightarrow> None)"

definition opa_decide :: "opa_answer \<Rightarrow> policy_decision" where
  "opa_decide answer =
     (case answer of
        OpaFailed timeout \<Rightarrow> closed (if timeout then ''opa_timeout'' else ''opa_unavailable'')
      | OpaStatus n \<Rightarrow> closed (''opa_http_'' @ show_nat n)
      | OpaResult None \<Rightarrow> closed ''opa_invalid_result''
      | OpaResult (Some r) \<Rightarrow>
          if js_String (map_of r ''decision'') \<notin> {''allow'', ''deny'', ''require_approval''}
          then closed ''opa_invalid_result''
          else \<lparr>decision = decision_of_json (the (map_of r ''decision'')),
                reasonCode = (case map_of r ''reasonCode'' of Some (JStr c) \<Rightarrow> c | _ \<Rightarrow> ''opa_decision''),
                approvalScope = scope_of_json (map_of r ''approvalScope'')\<rparr>)"

section \<open>Aurora governance\<close>

datatype risk_level = LevelLow | LevelMedium | LevelHigh | LevelCritical

definition level_order :: "risk_level \<Rightarrow> nat" where
  "level_order l = (case l of LevelLow \<Rightarrow> 0 | LevelMedium \<Rightarrow> 1 | LevelHigh \<Rightarrow> 2 | LevelCritical \<Rightarrow> 3)"

definition fallbackLevel :: "capability_risk \<Rightarrow> risk_level" where
  "fallbackLevel risk =
     (if risk \<in> {Privileged, ExternalSideEffect, Process} then LevelHigh
      else if risk \<in> {WorkspaceWrite, Network} then LevelMedium else LevelLow)"

datatype verdict = VerdictAllow | VerdictReview | VerdictDeny

text \<open>\<open>ao_denyAt = Some None\<close> is \<^verbatim>\<open>"never"\<close>.\<close>

record aurora_options =
  ao_confirmAt :: "risk_level option"
  ao_denyAt :: "risk_level option option"
  ao_alwaysCheckConstitution :: bool

text \<open>The answers of the two services: \<open>None\<close> when they throw.\<close>

record aurora_input =
  ai_assessment :: "(risk_level \<times> string list) option"
  ai_verdict :: "(verdict \<times> string list) option"

definition aurora_level :: "aurora_input \<Rightarrow> capability_descriptor \<Rightarrow> risk_level" where
  "aurora_level i descriptor =
     (case ai_assessment i of Some (l, _) \<Rightarrow> l | None \<Rightarrow> fallbackLevel (desc_risk descriptor))"

definition matched_rules :: "aurora_input \<Rightarrow> string list" where
  "matched_rules i = (case ai_assessment i of Some (_, rules) \<Rightarrow> rules | None \<Rightarrow> [])"

definition risk_decision :: "aurora_options \<Rightarrow> aurora_input \<Rightarrow> capability_descriptor \<Rightarrow> policy_decision option" where
  "risk_decision options i descriptor =
     (let confirmAt = (case ao_confirmAt options of None \<Rightarrow> LevelHigh | Some l \<Rightarrow> l);
          denyAt = (case ao_denyAt options of None \<Rightarrow> Some LevelCritical | Some d \<Rightarrow> d);
          level = aurora_level i descriptor;
          evidence = (matched_rules i \<noteq> [])
      in if evidence \<and> (case denyAt of None \<Rightarrow> False | Some d \<Rightarrow> level_order level \<ge> level_order d)
         then Some (deny ''aurora_risk_denied'')
         else if evidence \<and> level_order level \<ge> level_order confirmAt
         then Some (ask ''aurora_risk_escalation'' ScopeOnce) else None)"

definition consequential :: "aurora_options \<Rightarrow> aurora_input \<Rightarrow> capability_descriptor \<Rightarrow> bool" where
  "consequential options i descriptor =
     (ao_alwaysCheckConstitution options \<or> matched_rules i \<noteq> [] \<or> starts_with (desc_id descriptor) ''user.''
      \<or> desc_risk descriptor = Privileged)"

definition aurora_decide :: "aurora_options \<Rightarrow> aurora_input \<Rightarrow> capability_descriptor \<Rightarrow> policy_decision" where
  "aurora_decide options i descriptor =
     (let risk = risk_decision options i descriptor;
          final =
            (if \<not> consequential options i descriptor then risk
             else
               (case ai_verdict i of
                  Some (VerdictDeny, _) \<Rightarrow> Some (deny ''aurora_constitution_denied'')
                | Some (VerdictReview, _) \<Rightarrow>
                    (case risk of
                       Some d \<Rightarrow> if decision d = Deny then Some d else Some (ask ''aurora_constitution_review'' ScopeOnce)
                     | None \<Rightarrow> Some (ask ''aurora_constitution_review'' ScopeOnce))
                | _ \<Rightarrow> risk))
      in case final of Some d \<Rightarrow> d | None \<Rightarrow> allow ''aurora_no_escalation'')"

section \<open>Layers\<close>

text \<open>\<^verbatim>\<open>LayeredPolicyEngine\<close> on the answers of its layers: the first denial, else the last layer that asks.\<close>

fun layered :: "policy_decision \<Rightarrow> policy_decision list \<Rightarrow> policy_decision" where
  "layered strongest [] = strongest"
| "layered strongest (d # ds) =
     (if decision d = Deny then d
      else layered (if decision d = RequireApproval then d else strongest) ds)"

definition layered_decide :: "policy_decision list \<Rightarrow> policy_decision" where
  "layered_decide ds = layered (allow ''all_layers_allow'') ds"

text \<open>The settings layer: \<open>None\<close> when the settings cannot be read.\<close>

definition settings_decide :: "string list option \<Rightarrow> capability_descriptor \<Rightarrow> policy_decision" where
  "settings_decide denied descriptor =
     (if (case denied of None \<Rightarrow> False | Some ds \<Rightarrow> desc_id descriptor \<in> set ds)
      then deny ''managed_denied_capability'' else allow ''managed_settings_allow'')"

section \<open>What a session mode does to the decision\<close>

datatype permission_mode = PlanMode | Manual | AcceptEdits | AutoMode | DontAsk | Bypass

datatype sandbox_mode = ReadOnly | SandboxWorkspaceWrite | DangerFullAccess

definition plan_write_prefixes :: "string list" where
  "plan_write_prefixes =
     [''plan.'', ''decision.'', ''acos.journal'', ''cognitive.object.create'', ''cognitive.intake'',
      ''memory.propose'', ''memory.graph.remember'', ''multiworld.'', ''world.prediction.create'',
      ''experience.distill'', ''task.'', ''session.plan.exit'', ''session.mode.set'', ''user.ask'', ''shell.stop'']"

definition governed :: "string \<Rightarrow> bool" where
  "governed code = list_ex (starts_with code)
     [''aurora_'', ''lifecycle_hook_'', ''opa_'', ''capability_denied'', ''untrusted_'']"

definition relax :: "policy_decision \<Rightarrow> capability_risk \<Rightarrow> capability_risk list \<Rightarrow> string \<Rightarrow> policy_decision" where
  "relax d risk risks code =
     (if decision d \<noteq> RequireApproval then d
      else if risk \<notin> set risks then d
      else if governed (reasonCode d) then d
      else allow code)"

definition adjust ::
    "permission_mode \<Rightarrow> sandbox_mode \<Rightarrow> capability_descriptor \<Rightarrow> policy_decision \<Rightarrow> policy_decision" where
  "adjust mode sandbox descriptor d =
     (let risk = desc_risk descriptor; cid = desc_id descriptor in
      if decision d = Deny then d
      else if sandbox = ReadOnly \<and> (desc_sideEffect descriptor \<or> risk \<notin> {Pure, WorkspaceRead})
      then deny ''sandbox_read_only''
      else if sandbox = SandboxWorkspaceWrite \<and> risk = ExternalSideEffect \<and> decision d = Allow
      then ask ''sandbox_workspace_write'' ScopeOnce
      else
        (case mode of
           PlanMode \<Rightarrow>
             if \<not> desc_sideEffect descriptor \<and> risk \<in> {Pure, WorkspaceRead} then d
             else if list_ex (starts_with cid) plan_write_prefixes then d
             else deny ''plan_mode_read_only''
         | DontAsk \<Rightarrow>
             if cid = ''user.ask'' then deny ''dont_ask_denied''
             else if decision d = RequireApproval then deny ''dont_ask_denied'' else d
         | AcceptEdits \<Rightarrow> relax d risk [WorkspaceWrite] ''accept_edits''
         | AutoMode \<Rightarrow> relax d risk [WorkspaceWrite, Process] ''auto_mode''
         | Bypass \<Rightarrow> relax d risk [WorkspaceWrite, Process, Network, ExternalSideEffect, Privileged] ''bypass_mode''
         | Manual \<Rightarrow> d))"

text \<open>The stack as the engine builds it: the base policy, OPA when configured, the operator's hooks, Aurora
  governance when enabled, the settings; the session mode on top (\<open>None\<close> when it cannot be read).\<close>

record stack_input =
  st_options :: default_options
  st_opa :: "opa_answer option"
  st_hooks :: "policy_decision option"
  st_aurora :: "(aurora_options \<times> aurora_input) option"
  st_deniedCapabilities :: "string list option"
  st_mode :: "(permission_mode \<times> sandbox_mode) option"

definition stack_layers :: "stack_input \<Rightarrow> capability_descriptor \<Rightarrow> capability_context \<Rightarrow> policy_decision list" where
  "stack_layers i descriptor context =
     [default_decide (st_options i) descriptor context]
     @ (case st_opa i of None \<Rightarrow> [] | Some a \<Rightarrow> [opa_decide a])
     @ (case st_hooks i of None \<Rightarrow> [] | Some d \<Rightarrow> [d])
     @ (case st_aurora i of None \<Rightarrow> [] | Some (options, answers) \<Rightarrow> [aurora_decide options answers descriptor])
     @ [settings_decide (st_deniedCapabilities i) descriptor]"

definition policy_decide :: "stack_input \<Rightarrow> capability_descriptor \<Rightarrow> capability_context \<Rightarrow> policy_decision" where
  "policy_decide i descriptor context =
     (let d = layered_decide (stack_layers i descriptor context) in
      case st_mode i of None \<Rightarrow> d | Some (mode, sandbox) \<Rightarrow> adjust mode sandbox descriptor d)"

section \<open>Facts about the layers\<close>

lemma kind_simps [simp]:
  "decision (allow c) = Allow" "decision (deny c) = Deny" "decision (ask c s) = RequireApproval"
  "reasonCode (allow c) = c" "reasonCode (deny c) = c" "reasonCode (ask c s) = c"
  by (simp_all add: allow_def deny_def ask_def)

lemma layered_deny: "d \<in> set ds \<Longrightarrow> decision d = Deny \<Longrightarrow> decision (layered s ds) = Deny"
  by (induction ds arbitrary: s) auto

lemma layered_deny_from: "decision (layered s ds) = Deny \<Longrightarrow> decision s \<noteq> Deny \<Longrightarrow> \<exists>d \<in> set ds. decision d = Deny"
  by (induction ds arbitrary: s) (auto split: if_splits)

lemma layered_asks:
  "decision s = RequireApproval \<or> (\<exists>d \<in> set ds. decision d = RequireApproval) \<Longrightarrow>
     decision (layered s ds) \<in> {Deny, RequireApproval}"
  by (induction ds arbitrary: s) auto

lemma layered_last_asks:
  "decision d = RequireApproval \<Longrightarrow> list_all (\<lambda>x. decision x \<noteq> RequireApproval) after \<Longrightarrow>
     layered s (before @ d # after) = d \<or> decision (layered s (before @ d # after)) = Deny"
proof (induction before arbitrary: s)
  case Nil
  have "list_all (\<lambda>x. decision x \<noteq> RequireApproval) after \<Longrightarrow> layered d after = d \<or> decision (layered d after) = Deny"
    by (induction after) auto
  then show ?case using Nil by simp
qed auto

lemma adjust_deny: "decision d = Deny \<Longrightarrow> adjust m s x d = d"
  by (simp add: adjust_def Let_def)

text \<open>The classes a mode relaxes.\<close>

definition relaxed_risks :: "permission_mode \<Rightarrow> capability_risk list" where
  "relaxed_risks m = (case m of AcceptEdits \<Rightarrow> [WorkspaceWrite] | AutoMode \<Rightarrow> [WorkspaceWrite, Process]
     | Bypass \<Rightarrow> [WorkspaceWrite, Process, Network, ExternalSideEffect, Privileged] | _ \<Rightarrow> [])"

definition relax_code :: "permission_mode \<Rightarrow> string" where
  "relax_code m = (case m of AcceptEdits \<Rightarrow> ''accept_edits'' | AutoMode \<Rightarrow> ''auto_mode'' | _ \<Rightarrow> ''bypass_mode'')"

lemma adjust_cases:
  "adjust m s x d = d \<or> decision (adjust m s x d) \<in> {Deny, RequireApproval}
   \<or> adjust m s x d = relax d (desc_risk x) (relaxed_risks m) (relax_code m)"
  by (cases m) (simp_all add: adjust_def Let_def relaxed_risks_def relax_code_def)

lemma adjust_allow:
  assumes "decision (adjust m s x d) = Allow" and "decision d \<noteq> Allow"
  shows "decision d = RequireApproval \<and> \<not> governed (reasonCode d) \<and> desc_risk x \<in> set (relaxed_risks m)"
  using adjust_cases [of m s x d]
proof (elim disjE)
  assume "adjust m s x d = d"
  then show ?thesis using assms by (simp only: simp_thms)
next
  assume "decision (adjust m s x d) \<in> {Deny, RequireApproval}"
  then show ?thesis unfolding assms(1) by simp
next
  assume "adjust m s x d = relax d (desc_risk x) (relaxed_risks m) (relax_code m)"
  then have "decision (relax d (desc_risk x) (relaxed_risks m) (relax_code m)) = Allow" using assms(1) by (simp only:)
  then show ?thesis using assms(2) by (simp add: relax_def split: if_splits)
qed

lemma risk_decision_cases:
  "risk_decision options i x \<in> {None, Some (deny ''aurora_risk_denied''), Some (ask ''aurora_risk_escalation'' ScopeOnce)}"
  by (simp add: risk_decision_def Let_def)

lemma aurora_cases:
  "aurora_decide options i x \<in> {allow ''aurora_no_escalation'', deny ''aurora_risk_denied'',
     ask ''aurora_risk_escalation'' ScopeOnce, deny ''aurora_constitution_denied'', ask ''aurora_constitution_review'' ScopeOnce}"
proof (cases "consequential options i x")
  case False
  then show ?thesis using risk_decision_cases [of options i x]
    by (elim insertE emptyE) (simp_all add: aurora_decide_def)
next
  case True
  show ?thesis
  proof (cases "ai_verdict i")
    case None
    then show ?thesis using risk_decision_cases [of options i x] True
      by (elim insertE emptyE) (simp_all add: aurora_decide_def)
  next
    case (Some p)
    then show ?thesis using risk_decision_cases [of options i x] True
      by (cases p; cases "fst p"; elim insertE emptyE) (simp_all add: aurora_decide_def)
  qed
qed

lemma aurora_governed: "governed (reasonCode (aurora_decide options i x))"
proof -
  have "governed ''aurora_no_escalation''" "governed ''aurora_risk_denied''" "governed ''aurora_risk_escalation''"
    "governed ''aurora_constitution_denied''" "governed ''aurora_constitution_review''"
    by (simp_all add: governed_def starts_with_def)
  then show ?thesis using aurora_cases [of options i x] by auto
qed

lemma settings_not_ask: "decision (settings_decide ds x) \<noteq> RequireApproval"
  by (simp add: settings_decide_def)

lemma adjust_keeps_asking:
  assumes "decision d = RequireApproval" and "governed (reasonCode d)"
  shows "decision (adjust m s x d) \<in> {Deny, RequireApproval}"
  using adjust_cases [of m s x d]
proof (elim disjE)
  assume "adjust m s x d = d"
  then show ?thesis using assms(1) by (simp only: insert_iff simp_thms)
next
  assume "adjust m s x d = relax d (desc_risk x) (relaxed_risks m) (relax_code m)"
  then show ?thesis using assms by (simp add: relax_def)
qed

text \<open>A layer that denies binds, and so does a governed layer that asks when no later layer asks without governance.\<close>

lemma layered_governed:
  assumes "decision d = RequireApproval" "governed (reasonCode d)"
    and "list_all (\<lambda>x. decision x = RequireApproval \<longrightarrow> governed (reasonCode x)) after"
  shows "decision (layered s (before @ d # after)) = Deny
    \<or> decision (layered s (before @ d # after)) = RequireApproval \<and> governed (reasonCode (layered s (before @ d # after)))"
proof -
  have "decision (layered s after) = Deny \<or> decision (layered s after) = RequireApproval \<and> governed (reasonCode (layered s after))"
    if "decision s = RequireApproval" "governed (reasonCode s)" for s
    using assms(3) that by (induction after arbitrary: s) auto
  then show ?thesis using assms(1,2) by (induction before arbitrary: s) auto
qed

lemma denying_layer:
  assumes "d \<in> set (stack_layers i x c)" and "decision d = Deny"
  shows "decision (policy_decide i x c) = Deny"
proof -
  have "decision (layered_decide (stack_layers i x c)) = Deny" unfolding layered_decide_def using assms by (rule layered_deny)
  then show ?thesis by (auto simp: policy_decide_def Let_def adjust_deny split: option.split)
qed

lemma asking_layer:
  assumes layers: "stack_layers i x c = before @ d # after" and d: "decision d = RequireApproval" "governed (reasonCode d)"
    and after: "list_all (\<lambda>x. decision x = RequireApproval \<longrightarrow> governed (reasonCode x)) after"
  shows "decision (policy_decide i x c) \<in> {Deny, RequireApproval}"
proof -
  let ?d = "layered_decide (stack_layers i x c)"
  consider "decision ?d = Deny" | "decision ?d = RequireApproval" "governed (reasonCode ?d)"
    using layered_governed [OF d after, of "allow ''all_layers_allow''" before] unfolding layered_decide_def layers by blast
  then show ?thesis
  proof cases
    case 1
    then show ?thesis by (auto simp: policy_decide_def Let_def adjust_deny split: option.split)
  next
    case 2
    then show ?thesis using adjust_keeps_asking by (auto simp: policy_decide_def Let_def split: option.split)
  qed
qed

definition layer_denies :: "stack_input \<Rightarrow> capability_descriptor \<Rightarrow> capability_context \<Rightarrow> bool" where
  "layer_denies i x c = list_ex (\<lambda>d. decision d = Deny) (stack_layers i x c)"

definition layer_asks :: "stack_input \<Rightarrow> capability_descriptor \<Rightarrow> capability_context \<Rightarrow> bool" where
  "layer_asks i x c = list_ex (\<lambda>d. decision d = RequireApproval) (stack_layers i x c)"

lemma layered_decide_kind: "decision (layered_decide ds) \<in> {Allow, Deny, RequireApproval}"
proof -
  have "decision s \<in> {Allow, RequireApproval} \<Longrightarrow> decision (layered s ds) \<in> {Allow, Deny, RequireApproval}" for s
    by (induction ds arbitrary: s) auto
  then show ?thesis by (simp add: layered_decide_def)
qed

section \<open>Properties\<close>

text \<open>A call is only let through when no layer denies it, and when a layer asks for approval only if the
  session's mode waives that risk class and the asking layer is not a governance layer by its reason code.\<close>

theorem policy_allows_only:
  assumes "decision (policy_decide i x c) = Allow"
  shows "\<not> layer_denies i x c
    \<and> (layer_asks i x c \<longrightarrow> (case st_mode i of None \<Rightarrow> False
         | Some (m, s) \<Rightarrow> desc_risk x \<in> set (relaxed_risks m)
             \<and> \<not> governed (reasonCode (layered_decide (stack_layers i x c)))))"
proof -
  let ?d = "layered_decide (stack_layers i x c)"
  have nd: "decision ?d \<noteq> Deny"
  proof
    assume "decision ?d = Deny"
    then have "decision (policy_decide i x c) = Deny"
      by (auto simp: policy_decide_def Let_def adjust_deny split: option.split)
    then show False using assms by simp
  qed
  then have "\<not> layer_denies i x c"
    using layered_deny unfolding layer_denies_def layered_decide_def list_ex_iff by blast
  moreover have "\<exists>m s. st_mode i = Some (m, s) \<and> desc_risk x \<in> set (relaxed_risks m) \<and> \<not> governed (reasonCode ?d)"
    if "layer_asks i x c"
  proof -
    have "decision ?d \<noteq> Allow"
      using layered_asks [of "allow ''all_layers_allow''" "stack_layers i x c"] that
      by (auto simp: layer_asks_def layered_decide_def list_ex_iff)
    then show ?thesis using assms adjust_allow [of _ _ x ?d]
      by (cases "st_mode i") (auto simp: policy_decide_def Let_def)
  qed
  ultimately show ?thesis by auto
qed

definition demo_descriptor :: "capability_risk \<Rightarrow> capability_descriptor" where
  "demo_descriptor r = \<lparr>desc_id = ''shell.run'', desc_risk = r, desc_sideEffect = True\<rparr>"

definition demo_ctx :: capability_context where
  "demo_ctx = \<lparr>ctx_tenantId = ''t'', ctx_sessionId = ''s'', ctx_familyId = ''f'', ctx_turnId = ''u'', ctx_toolCallId = ''c'',
     ctx_source = SrcWeb, ctx_allowedCapabilityIds = None, ctx_idempotencyKey = ''k''\<rparr>"

definition demo_stack :: stack_input where
  "demo_stack = \<lparr>st_options = \<lparr>do_autoApproveWorkspaceWrites = False, do_allowLocalProcess = False, do_denied = []\<rparr>,
     st_opa = None, st_hooks = None, st_aurora = None, st_deniedCapabilities = None,
     st_mode = Some (AutoMode, DangerFullAccess)\<rparr>"

lemma policy_allows_only_witness:
  "\<not> layer_denies demo_stack (demo_descriptor Process) demo_ctx \<and> layer_asks demo_stack (demo_descriptor Process) demo_ctx"
proof
  have "decision (policy_decide demo_stack (demo_descriptor Process) demo_ctx) = Allow" by code_simp
  from policy_allows_only [OF this] show "\<not> layer_denies demo_stack (demo_descriptor Process) demo_ctx" by blast
  show "layer_asks demo_stack (demo_descriptor Process) demo_ctx" by code_simp
qed

text \<open>C13. Governance binds: what Aurora governance denies stays denied, and what it wants approved is denied or
  asked, in every session mode, bypass included.\<close>

theorem governance_binds:
  assumes "st_aurora i = Some (options, answers)" and "decision (aurora_decide options answers x) \<noteq> Allow"
  shows "decision (policy_decide i x c) \<in> {Deny, RequireApproval}
    \<and> (decision (aurora_decide options answers x) = Deny \<longrightarrow> decision (policy_decide i x c) = Deny)"
proof -
  have a: "aurora_decide options answers x \<in> set (stack_layers i x c)" using assms(1) by (simp add: stack_layers_def)
  consider "decision (aurora_decide options answers x) = Deny" | "decision (aurora_decide options answers x) = RequireApproval"
    using assms(2) aurora_cases [of options answers x] by auto
  then show ?thesis
  proof cases
    case 1
    then show ?thesis using denying_layer [OF a] by simp
  next
    case 2
    obtain before where "stack_layers i x c = before @ aurora_decide options answers x # [settings_decide (st_deniedCapabilities i) x]"
      using assms(1) by (auto simp: stack_layers_def)
    from asking_layer [OF this 2 aurora_governed] show ?thesis using 2 settings_not_ask by simp
  qed
qed

definition governed_stack :: stack_input where
  "governed_stack = demo_stack\<lparr>st_aurora := Some (\<lparr>ao_confirmAt = None, ao_denyAt = None, ao_alwaysCheckConstitution = False\<rparr>,
     \<lparr>ai_assessment = Some (LevelHigh, [''rm_rf'']), ai_verdict = None\<rparr>), st_mode := Some (Bypass, DangerFullAccess)\<rparr>"

lemma governance_binds_witness:
  "decision (policy_decide governed_stack (demo_descriptor Process) demo_ctx) \<in> {Deny, RequireApproval}"
proof -
  have "st_aurora governed_stack = Some (\<lparr>ao_confirmAt = None, ao_denyAt = None, ao_alwaysCheckConstitution = False\<rparr>,
     \<lparr>ai_assessment = Some (LevelHigh, [''rm_rf'']), ai_verdict = None\<rparr>)" by (simp add: governed_stack_def)
  moreover have "decision (aurora_decide \<lparr>ao_confirmAt = None, ao_denyAt = None, ao_alwaysCheckConstitution = False\<rparr>
     \<lparr>ai_assessment = Some (LevelHigh, [''rm_rf'']), ai_verdict = None\<rparr> (demo_descriptor Process)) \<noteq> Allow" by code_simp
  ultimately show ?thesis using governance_binds by blast
qed

text \<open>An answer of the organization's server whose decision is the one-element array \<^verbatim>\<open>["deny"]\<close> passes the
  check of \<^verbatim>\<open>opa_invalid_result\<close>, but is then neither a denial nor a request for approval: the stack decides
  as if the server were not configured.\<close>

theorem opa_array_ignored:
  assumes "map_of r ''decision'' = Some (JArr [JStr w])" and "w \<in> {''allow'', ''deny'', ''require_approval''}"
  shows "policy_decide (i\<lparr>st_opa := Some (OpaResult (Some r))\<rparr>) x c = policy_decide (i\<lparr>st_opa := None\<rparr>) x c"
proof -
  have o: "decision (opa_decide (OpaResult (Some r))) = NotALiteral (JArr [JStr w])"
    using assms by (auto simp: opa_decide_def decision_of_json_def)
  have drop: "decision d \<notin> {Deny, RequireApproval} \<Longrightarrow> layered s (b # d # ds) = layered s (b # ds)" for s b d ds by simp
  have "layered_decide (stack_layers (i\<lparr>st_opa := Some (OpaResult (Some r))\<rparr>) x c)
      = layered_decide (stack_layers (i\<lparr>st_opa := None\<rparr>) x c)"
    unfolding layered_decide_def stack_layers_def using o by (simp add: drop)
  then show ?thesis by (simp add: policy_decide_def)
qed

lemma opa_array_ignored_witness:
  "decision (policy_decide (demo_stack\<lparr>st_opa := Some (OpaResult (Some [(''decision'', JArr [JStr ''deny''])]))\<rparr>)
     (demo_descriptor Process) demo_ctx) = Allow"
proof -
  have "decision (policy_decide (demo_stack\<lparr>st_opa := None\<rparr>) (demo_descriptor Process) demo_ctx) = Allow" by code_simp
  then show ?thesis by (subst opa_array_ignored [where w = "''deny''"]) simp_all
qed

text \<open>A request for approval by the organization's server is waived by the bypass mode like one of the base
  policy, when the server gives it a reason code of its own and no later layer speaks up.\<close>

theorem opa_ask_waived:
  assumes "map_of r ''decision'' = Some (JStr ''require_approval'')" and "map_of r ''reasonCode'' = Some (JStr code)"
    and "\<not> governed code" and "desc_risk x \<in> set (relaxed_risks m)"
    and "decision (default_decide (st_options i) x c) \<noteq> Deny"
    and "st_opa i = Some (OpaResult (Some r))" and "st_hooks i = None" and "st_aurora i = None"
    and "st_deniedCapabilities i = None" and "st_mode i = Some (m, DangerFullAccess)"
  shows "decision (opa_decide (OpaResult (Some r))) = RequireApproval \<and> decision (policy_decide i x c) = Allow"
proof -
  have o: "decision (opa_decide (OpaResult (Some r))) = RequireApproval" "reasonCode (opa_decide (OpaResult (Some r))) = code"
    using assms(1,2) by (simp_all add: opa_decide_def decision_of_json_def)
  have d: "layered_decide (stack_layers i x c) = opa_decide (OpaResult (Some r))"
    using assms(5-9) o by (simp add: layered_decide_def stack_layers_def settings_decide_def)
  have "adjust m DangerFullAccess x d = relax d (desc_risk x) (relaxed_risks m) (relax_code m)" if "decision d = RequireApproval" for d
    using that assms(4) by (cases m) (simp_all add: adjust_def Let_def relaxed_risks_def relax_code_def)
  then show ?thesis using o d assms(3,4,10) by (simp add: policy_decide_def Let_def relax_def)
qed

definition opa_stack :: stack_input where
  "opa_stack = demo_stack\<lparr>st_opa := Some (OpaResult (Some [(''decision'', JStr ''require_approval''),
     (''reasonCode'', JStr ''compliance_review'')])), st_mode := Some (Bypass, DangerFullAccess)\<rparr>"

lemma opa_ask_waived_witness:
  "decision (policy_decide opa_stack (demo_descriptor Network) demo_ctx) = Allow"
proof -
  have g: "\<not> governed ''compliance_review''" by code_simp
  have b: "decision (default_decide (st_options opa_stack) (demo_descriptor Network) demo_ctx) \<noteq> Deny" by code_simp
  have r: "desc_risk (demo_descriptor Network) \<in> set (relaxed_risks Bypass)" by code_simp
  show ?thesis
    by (rule conjunct2 [OF opa_ask_waived [OF _ _ g r b]]) (simp_all add: opa_stack_def demo_stack_def)
qed

end
