(* ===== verification/SessionModes.thy ===== *)
theory SessionModes
  imports PolicyStack AuroraState "HOL-Library.Product_Lexorder"
begin

text \<open>
  The store of the session modes, \<^verbatim>\<open>SessionModeService\<close> of \<^verbatim>\<open>policy/session-modes.ts\<close>: the mode of a
  session, the defaults of a tenant, and the record of every change. The service keeps its state in a
  durable JSON file (theory AuroraState); a call that throws half way keeps what it had changed.
\<close>

section \<open>State\<close>

record session_mode =
  sm_sessionId :: id
  sm_tenantId :: string
  sm_permissionMode :: permission_mode
  sm_sandboxMode :: sandbox_mode
  sm_note :: "string option"
  sm_updatedAt :: msec
  sm_updatedBy :: string

record mode_transition =
  mt_sequence :: nat
  mt_tenantId :: string
  mt_sessionId :: id
  mt_from :: "permission_mode \<times> sandbox_mode"
  mt_to :: "permission_mode \<times> sandbox_mode"
  mt_reason :: string
  mt_actor :: string
  mt_at :: msec

record tenant_defaults =
  td_tenantId :: string
  td_permissionMode :: permission_mode
  td_sandboxMode :: sandbox_mode
  td_allowBypass :: bool
  td_updatedAt :: msec

record mode_state =
  md_sessions :: "session_mode list"
  md_defaults :: "tenant_defaults list"
  md_transitions :: "mode_transition list"

definition empty_modes :: mode_state where
  "empty_modes = \<lparr>md_sessions = [], md_defaults = [], md_transitions = []\<rparr>"

definition MAX_SESSIONS :: nat where "MAX_SESSIONS = 50000"

definition MAX_TRANSITIONS :: nat where "MAX_TRANSITIONS = 20000"

record mode_options =
  mo_allowBypass :: "bool option"
  mo_defaultPermissionMode :: "permission_mode option"
  mo_defaultSandboxMode :: "sandbox_mode option"

text \<open>A mode in a request is a string, which may name none.\<close>

datatype 'a given = Known 'a | Unknown string

datatype mode_error =
    BadText aurora_error
  | UnknownMode string
  | UnknownSandbox string
  | BypassDisabled
  | ExceedsCeiling permission_mode permission_mode

definition orElse :: "'a option \<Rightarrow> 'a \<Rightarrow> 'a" where
  "orElse x d = (case x of Some y \<Rightarrow> y | None \<Rightarrow> d)"

section \<open>Defaults of a tenant\<close>

definition initial_defaults :: "mode_options \<Rightarrow> msec \<Rightarrow> string \<Rightarrow> tenant_defaults" where
  "initial_defaults o' now tenant = \<lparr>td_tenantId = tenant,
     td_permissionMode = orElse (mo_defaultPermissionMode o') Manual,
     td_sandboxMode = orElse (mo_defaultSandboxMode o') SandboxWorkspaceWrite,
     td_allowBypass = orElse (mo_allowBypass o') False, td_updatedAt = now\<rparr>"

text \<open>\<^verbatim>\<open>mutableDefaults\<close>: the defaults of the tenant, added when there are none.\<close>

definition mutableDefaults ::
    "mode_options \<Rightarrow> msec \<Rightarrow> string \<Rightarrow> mode_state \<Rightarrow> (mode_error, tenant_defaults) result \<times> mode_state" where
  "mutableDefaults o' now tenantId st =
     (case auroraText tenantId 200 ''Tenant ID'' of
        Inl e \<Rightarrow> (throw (BadText e), st)
      | Inr tenant \<Rightarrow>
          (case List.find (\<lambda>d. td_tenantId d = tenant) (md_defaults st) of
             Some d \<Rightarrow> (ok d, st)
           | None \<Rightarrow> let d = initial_defaults o' now tenant in
               (ok d, st\<lparr>md_defaults := md_defaults st @ [d]\<rparr>)))"

definition put_defaults :: "tenant_defaults \<Rightarrow> mode_state \<Rightarrow> mode_state" where
  "put_defaults d st =
     st\<lparr>md_defaults := update_first (\<lambda>x. td_tenantId x = td_tenantId d) (\<lambda>_. d) (md_defaults st)\<rparr>"

definition assertMode :: "mode_options \<Rightarrow> permission_mode given \<Rightarrow> tenant_defaults \<Rightarrow> (mode_error, permission_mode) result" where
  "assertMode o' g d =
     (case g of
        Unknown s \<Rightarrow> throw (UnknownMode s)
      | Known m \<Rightarrow> if m = Bypass \<and> \<not> (td_allowBypass d \<or> orElse (mo_allowBypass o') False)
          then throw BypassDisabled else ok m)"

definition assertSandbox :: "sandbox_mode given \<Rightarrow> (mode_error, sandbox_mode) result" where
  "assertSandbox g = (case g of Unknown s \<Rightarrow> throw (UnknownSandbox s) | Known m \<Rightarrow> ok m)"

record defaults_input =
  din_tenantId :: string
  din_permissionMode :: "permission_mode given option"
  din_sandboxMode :: "sandbox_mode given option"
  din_allowBypass :: "bool option"

text \<open>\<^verbatim>\<open>setDefaults\<close>: the fields are changed one by one, so a refusal keeps the earlier ones.\<close>

definition set_permission ::
    "mode_options \<Rightarrow> permission_mode given option \<Rightarrow> tenant_defaults \<Rightarrow> (mode_error, tenant_defaults) result" where
  "set_permission o' g d =
     (case g of None \<Rightarrow> ok d
      | Some g \<Rightarrow> (case assertMode o' g d of Inl e \<Rightarrow> throw e | Inr m \<Rightarrow> ok (d\<lparr>td_permissionMode := m\<rparr>)))"

definition set_sandbox :: "sandbox_mode given option \<Rightarrow> tenant_defaults \<Rightarrow> (mode_error, tenant_defaults) result" where
  "set_sandbox g d =
     (case g of None \<Rightarrow> ok d
      | Some g \<Rightarrow> (case assertSandbox g of Inl e \<Rightarrow> throw e | Inr m \<Rightarrow> ok (d\<lparr>td_sandboxMode := m\<rparr>)))"

definition setDefaults ::
    "mode_options \<Rightarrow> msec \<Rightarrow> defaults_input \<Rightarrow> mode_state \<Rightarrow> (mode_error, tenant_defaults) result \<times> mode_state" where
  "setDefaults o' now i st =
     (case mutableDefaults o' now (din_tenantId i) st of
        (Inl e, st1) \<Rightarrow> (throw e, st1)
      | (Inr d, st1) \<Rightarrow>
          let d1 = d\<lparr>td_allowBypass := orElse (din_allowBypass i) (td_allowBypass d)\<rparr> in
          (case set_permission o' (din_permissionMode i) d1 of
             Inl e \<Rightarrow> (throw e, put_defaults d1 st1)
           | Inr d2 \<Rightarrow>
               (case set_sandbox (din_sandboxMode i) d2 of
                  Inl e \<Rightarrow> (throw e, put_defaults d2 st1)
                | Inr d3 \<Rightarrow>
                    let d4 = d3\<lparr>td_updatedAt := now\<rparr> in (ok d4, put_defaults d4 st1))))"

section \<open>The mode of a session\<close>

definition mode_get :: "mode_options \<Rightarrow> msec \<Rightarrow> string \<Rightarrow> id \<Rightarrow> mode_state \<Rightarrow> session_mode" where
  "mode_get o' now tenantId sessionId st =
     (case List.find (\<lambda>s. sm_tenantId s = tenantId \<and> sm_sessionId s = sessionId) (md_sessions st) of
        Some s \<Rightarrow> s
      | None \<Rightarrow>
          let d = List.find (\<lambda>d. td_tenantId d = tenantId) (md_defaults st) in
          \<lparr>sm_sessionId = sessionId, sm_tenantId = tenantId,
           sm_permissionMode = (case d of Some x \<Rightarrow> td_permissionMode x | None \<Rightarrow> orElse (mo_defaultPermissionMode o') Manual),
           sm_sandboxMode = (case d of Some x \<Rightarrow> td_sandboxMode x | None \<Rightarrow> orElse (mo_defaultSandboxMode o') SandboxWorkspaceWrite),
           sm_note = None, sm_updatedAt = now, sm_updatedBy = ''default''\<rparr>)"

definition strength :: "permission_mode \<Rightarrow> nat" where
  "strength m = (case m of PlanMode \<Rightarrow> 0 | DontAsk \<Rightarrow> 1 | Manual \<Rightarrow> 2 | AcceptEdits \<Rightarrow> 3 | AutoMode \<Rightarrow> 4 | Bypass \<Rightarrow> 5)"

record mode_input =
  min_tenantId :: string
  min_sessionId :: id
  min_permissionMode :: "permission_mode given option"
  min_sandboxMode :: "sandbox_mode given option"
  min_reason :: string
  min_actor :: string
  min_note :: "string option"

text \<open>The checks before the store is opened for writing; \<open>ceil\<close> is what the managed settings answer.\<close>

definition check_mode ::
    "permission_mode option \<Rightarrow> mode_input \<Rightarrow> permission_mode \<Rightarrow> mode_error option" where
  "check_mode ceil i previous =
     (case (case min_permissionMode i of None \<Rightarrow> Known previous | Some g \<Rightarrow> g) of
        Unknown _ \<Rightarrow> None
      | Known m \<Rightarrow> (case ceil of None \<Rightarrow> None
          | Some c \<Rightarrow> if strength m > strength c then Some (ExceedsCeiling m c) else None))"

definition clean_input :: "mode_input \<Rightarrow> (mode_error, mode_input) result" where
  "clean_input i =
     (case auroraText (min_tenantId i) 200 ''Tenant ID'' of Inl e \<Rightarrow> throw (BadText e) | Inr t \<Rightarrow>
     (case auroraText (min_sessionId i) 200 ''Session ID'' of Inl e \<Rightarrow> throw (BadText e) | Inr s \<Rightarrow>
     (case auroraText (min_reason i) 1000 ''Mode change reason'' of Inl e \<Rightarrow> throw (BadText e) | Inr r \<Rightarrow>
     (case auroraText (min_actor i) 200 ''Actor'' of Inl e \<Rightarrow> throw (BadText e) | Inr a \<Rightarrow>
        ok (i\<lparr>min_tenantId := t, min_sessionId := s, min_reason := r, min_actor := a\<rparr>)))))"

text \<open>The new entry, with the checks in the order of the code.\<close>

definition next_mode ::
    "mode_options \<Rightarrow> msec \<Rightarrow> mode_input \<Rightarrow> session_mode \<Rightarrow> tenant_defaults \<Rightarrow> (mode_error, session_mode) result" where
  "next_mode o' now i previous d =
     (case (case min_sandboxMode i of None \<Rightarrow> ok (sm_sandboxMode previous) | Some g \<Rightarrow> assertSandbox g) of
        Inl e \<Rightarrow> throw e
      | Inr sandbox \<Rightarrow>
          (case (case min_note i of None \<Rightarrow> ok None | Some [] \<Rightarrow> ok None
              | Some n \<Rightarrow> (case auroraText n 1000 ''Mode note'' of Inl e \<Rightarrow> throw (BadText e) | Inr t \<Rightarrow> ok (Some t))) of
             Inl e \<Rightarrow> throw e
           | Inr note \<Rightarrow>
               (case assertMode o' (case min_permissionMode i of None \<Rightarrow> Known (sm_permissionMode previous) | Some g \<Rightarrow> g) d of
                  Inl e \<Rightarrow> throw e
                | Inr m \<Rightarrow> ok \<lparr>sm_sessionId = min_sessionId i, sm_tenantId = min_tenantId i, sm_permissionMode = m,
                    sm_sandboxMode = sandbox, sm_note = note, sm_updatedAt = now, sm_updatedBy = min_actor i\<rparr>)))"

definition same_session :: "session_mode \<Rightarrow> session_mode \<Rightarrow> bool" where
  "same_session a b = (sm_tenantId a = sm_tenantId b \<and> sm_sessionId a = sm_sessionId b)"

definition put_session :: "session_mode \<Rightarrow> session_mode list \<Rightarrow> session_mode list" where
  "put_session n ss =
     (if list_ex (same_session n) ss then update_first (same_session n) (\<lambda>_. n) ss
      else (if length ss \<ge> MAX_SESSIONS then take_last (MAX_SESSIONS - 1) ss else ss) @ [n])"

definition push_transition :: "mode_input \<Rightarrow> session_mode \<Rightarrow> session_mode \<Rightarrow> mode_transition list \<Rightarrow> mode_transition list" where
  "push_transition i previous n ts =
     take_last MAX_TRANSITIONS (ts @ [\<lparr>mt_sequence = fold max (map mt_sequence ts) 0 + 1, mt_tenantId = min_tenantId i,
       mt_sessionId = min_sessionId i, mt_from = (sm_permissionMode previous, sm_sandboxMode previous),
       mt_to = (sm_permissionMode n, sm_sandboxMode n), mt_reason = min_reason i, mt_actor = min_actor i,
       mt_at = sm_updatedAt n\<rparr>])"

text \<open>The part of \<^verbatim>\<open>set\<close> inside \<^verbatim>\<open>mutate\<close>; \<open>previous\<close> was read before.\<close>

definition set_within ::
    "mode_options \<Rightarrow> msec \<Rightarrow> mode_input \<Rightarrow> session_mode \<Rightarrow> mode_state \<Rightarrow> (mode_error, session_mode) result \<times> mode_state" where
  "set_within o' now i previous st =
     (case mutableDefaults o' now (min_tenantId i) st of
        (Inl e, st1) \<Rightarrow> (throw e, st1)
      | (Inr d, st1) \<Rightarrow>
          (case next_mode o' now i previous d of
             Inl e \<Rightarrow> (throw e, st1)
           | Inr n \<Rightarrow> (ok n, st1\<lparr>md_sessions := put_session n (md_sessions st1),
                              md_transitions := push_transition i previous n (md_transitions st1)\<rparr>)))"

definition mode_set ::
    "mode_options \<Rightarrow> msec \<Rightarrow> permission_mode option \<Rightarrow> mode_input \<Rightarrow> mode_state \<Rightarrow> (mode_error, session_mode) result \<times> mode_state" where
  "mode_set o' now ceil raw st =
     (case clean_input raw of
        Inl e \<Rightarrow> (throw e, st)
      | Inr i \<Rightarrow>
          let previous = mode_get o' now (min_tenantId i) (min_sessionId i) st in
          (case check_mode ceil i (sm_permissionMode previous) of
             Some e \<Rightarrow> (throw e, st)
           | None \<Rightarrow> set_within o' now i previous st))"

definition mode_transitions ::
    "string \<Rightarrow> id option \<Rightarrow> int option \<Rightarrow> mode_state \<Rightarrow> (mode_error, mode_transition list) result" where
  "mode_transitions tenantId sessionId most st =
     (case auroraInteger (orElse most 50) 1 1000 ''Transition limit'' of
        Inl e \<Rightarrow> throw (BadText e)
      | Inr n \<Rightarrow> ok (take (nat n) (sort_key (\<lambda>t. (- int (mt_sequence t), - mt_at t))
          (filter (\<lambda>t. mt_tenantId t = tenantId \<and> (case sessionId of None \<Rightarrow> True | Some [] \<Rightarrow> True | Some s \<Rightarrow> mt_sessionId t = s))
            (md_transitions st)))))"

section \<open>The service as a client of the durable store\<close>

datatype mode_call =
    CallDefaults msec string
  | CallSetDefaults msec defaults_input
  | CallSet msec mode_input session_mode

datatype mode_reply = ReplyDefaults tenant_defaults | ReplyMode session_mode

definition mode_step :: "mode_options \<Rightarrow> mode_call \<Rightarrow> mode_state \<Rightarrow> (mode_error, mode_reply) result \<times> mode_state" where
  "mode_step o' call st =
     (case call of
        CallDefaults now t \<Rightarrow> (case mutableDefaults o' now t st of (r, st') \<Rightarrow> (map_sum id ReplyDefaults r, st'))
      | CallSetDefaults now i \<Rightarrow> (case setDefaults o' now i st of (r, st') \<Rightarrow> (map_sum id ReplyDefaults r, st'))
      | CallSet now i previous \<Rightarrow> (case set_within o' now i previous st of (r, st') \<Rightarrow> (map_sum id ReplyMode r, st')))"

definition modes_good :: "mode_state \<Rightarrow> bool" where
  "modes_good st \<longleftrightarrow> distinct (map (\<lambda>s. (sm_tenantId s, sm_sessionId s)) (md_sessions st))
     \<and> length (md_sessions st) \<le> MAX_SESSIONS \<and> distinct (map td_tenantId (md_defaults st))
     \<and> sorted_wrt (<) (map mt_sequence (md_transitions st)) \<and> length (md_transitions st) \<le> MAX_TRANSITIONS"

lemma mutableDefaults_good:
  assumes "mutableDefaults o' now t st = (r, st')" and "modes_good st"
  shows "modes_good st' \<and> md_sessions st' = md_sessions st \<and> md_transitions st' = md_transitions st"
  using assms by (auto simp: mutableDefaults_def modes_good_def initial_defaults_def Let_def find_None_iff
      split: sum.splits option.splits)

lemma put_defaults_good: "modes_good st \<Longrightarrow> modes_good (put_defaults d st)"
proof -
  have "map td_tenantId (update_first (\<lambda>x. td_tenantId x = td_tenantId d) (\<lambda>_. d) ds) = map td_tenantId ds" for ds
    by (induction ds) auto
  then show "modes_good st \<Longrightarrow> ?thesis" by (simp add: modes_good_def put_defaults_def)
qed

lemma setDefaults_good: "modes_good st \<Longrightarrow> modes_good (snd (setDefaults o' now i st))"
  by (auto simp: setDefaults_def Let_def put_defaults_good dest: mutableDefaults_good split: prod.splits sum.splits)

lemma distinct_take_last: "distinct xs \<Longrightarrow> distinct (take_last n xs)"
  by (simp add: take_last_def)

lemma put_session_good:
  assumes "distinct (map (\<lambda>s. (sm_tenantId s, sm_sessionId s)) ss)" and "length ss \<le> MAX_SESSIONS"
  shows "distinct (map (\<lambda>s. (sm_tenantId s, sm_sessionId s)) (put_session n ss)) \<and> length (put_session n ss) \<le> MAX_SESSIONS"
proof (cases "list_ex (same_session n) ss")
  case True
  have "map (\<lambda>s. (sm_tenantId s, sm_sessionId s)) (update_first (same_session n) (\<lambda>_. n) xs)
      = map (\<lambda>s. (sm_tenantId s, sm_sessionId s)) xs" for xs
    by (induction xs) (auto simp: same_session_def)
  then show ?thesis using True assms by (simp add: put_session_def)
next
  case False
  then have new: "(sm_tenantId n, sm_sessionId n) \<notin> set (map (\<lambda>s. (sm_tenantId s, sm_sessionId s)) ss)"
    by (auto simp: list_ex_iff same_session_def)
  let ?k = "\<lambda>s. (sm_tenantId s, sm_sessionId s)"
  have sub: "set (map ?k (take_last m ss)) \<subseteq> set (map ?k ss)" for m
    unfolding map_take_last by (rule set_take_last)
  have "distinct (map ?k (take_last m ss))" for m
    unfolding map_take_last by (rule distinct_take_last) (rule assms(1))
  then show ?thesis using False assms new sub [of "MAX_SESSIONS - 1"]
    by (auto simp: put_session_def MAX_SESSIONS_def)
qed

lemma fold_max_ge: "fold max xs (n :: nat) \<ge> n \<and> (\<forall>x \<in> set xs. x \<le> fold max xs n)"
  by (induction xs arbitrary: n) (auto, (meson le_trans max.cobounded1 max.cobounded2)+)

lemma sorted_take_last: "sorted_wrt R xs \<Longrightarrow> sorted_wrt R (take_last n xs)"
  by (simp add: take_last_def sorted_wrt_drop)

lemma push_transition_good:
  assumes "sorted_wrt (<) (map mt_sequence ts)"
  shows "sorted_wrt (<) (map mt_sequence (push_transition i p n ts)) \<and> length (push_transition i p n ts) \<le> MAX_TRANSITIONS"
proof -
  have "sorted_wrt (<) (map mt_sequence ts @ [fold max (map mt_sequence ts) 0 + 1])"
    using assms fold_max_ge [of 0 "map mt_sequence ts"] by (auto simp: sorted_wrt_append less_Suc_eq_le)
  then have "sorted_wrt (<) (map mt_sequence (push_transition i p n ts))"
    unfolding push_transition_def map_take_last by (simp add: sorted_take_last)
  then show ?thesis by (simp add: push_transition_def)
qed

lemma set_within_good:
  assumes "modes_good st"
  shows "modes_good (snd (set_within o' now i p st))"
proof -
  obtain r st1 where m: "mutableDefaults o' now (min_tenantId i) st = (r, st1)" by fastforce
  note g = mutableDefaults_good [OF m assms]
  show ?thesis
  proof (cases r)
    case (Inl e)
    then show ?thesis using m g by (simp add: set_within_def)
  next
    case (Inr d)
    show ?thesis
    proof (cases "next_mode o' now i p d")
      case (Inl e)
      then show ?thesis using m g Inr by (simp add: set_within_def)
    next
      case ok: (Inr n)
      have "modes_good (st1\<lparr>md_sessions := put_session n (md_sessions st1),
          md_transitions := push_transition i p n (md_transitions st1)\<rparr>)"
        using g put_session_good push_transition_good unfolding modes_good_def by auto
      then show ?thesis using m Inr ok by (simp add: set_within_def)
    qed
  qed
qed

interpretation modes: durable_service empty_modes "mode_step o'" modes_good for o'
proof
  show "modes_good empty_modes" by (simp add: modes_good_def empty_modes_def)
  fix v c assume "modes_good v"
  then show "modes_good (snd (mode_step o' c v))"
    using setDefaults_good set_within_good mutableDefaults_good [OF surjective_pairing]
    by (cases c) (simp_all add: mode_step_def split_beta)
qed

section \<open>What an accepted change leaves behind\<close>

lemma find_append_new: "List.find p xs = None \<Longrightarrow> List.find p (xs @ [x]) = (if p x then Some x else None)"
  by (induction xs) (auto split: if_splits)

lemma mutableDefaults_Inr:
  assumes "mutableDefaults o' now t st = (Inr d, st')"
  shows "List.find (\<lambda>x. td_tenantId x = js_trim t) (md_defaults st') = Some d \<and> td_tenantId d = js_trim t
    \<and> auroraText t 200 ''Tenant ID'' = Inr (js_trim t)"
proof -
  obtain u where u: "auroraText t 200 ''Tenant ID'' = Inr u"
    using assms by (auto simp: mutableDefaults_def split: sum.splits)
  then have [simp]: "u = js_trim t" by (simp add: auroraText_ok)
  show ?thesis
  proof (cases "List.find (\<lambda>x. td_tenantId x = js_trim t) (md_defaults st)")
    case None
    then show ?thesis using assms u
      by (auto simp: mutableDefaults_def initial_defaults_def Let_def find_append_new)
  next
    case (Some x)
    then show ?thesis using assms u find_Some_mem [OF Some] by (auto simp: mutableDefaults_def)
  qed
qed

lemma find_put_session: "List.find (\<lambda>s. sm_tenantId s = sm_tenantId n \<and> sm_sessionId s = sm_sessionId n) (put_session n ss) = Some n"
proof (cases "list_ex (same_session n) ss")
  case True
  then have "List.find (same_session n) (update_first (same_session n) (\<lambda>_. n) ss) = Some n"
    by (induction ss) (auto simp: same_session_def)
  moreover have "same_session n = (\<lambda>s. sm_tenantId s = sm_tenantId n \<and> sm_sessionId s = sm_sessionId n)"
    by (auto simp: same_session_def)
  ultimately show ?thesis using True by (simp add: put_session_def)
next
  case False
  then have "List.find (\<lambda>s. sm_tenantId s = sm_tenantId n \<and> sm_sessionId s = sm_sessionId n) xs = None"
    if "set xs \<subseteq> set ss" for xs
    using that by (fastforce simp: find_None_iff list_ex_iff same_session_def)
  from this [of ss] this [of "take_last (MAX_SESSIONS - 1) ss"] show ?thesis
    using False set_take_last [of "MAX_SESSIONS - 1" ss] by (simp add: put_session_def find_append_new)
qed

lemma next_mode_Inr:
  assumes "next_mode o' now i p d = Inr n"
  shows "sm_sessionId n = min_sessionId i \<and> sm_tenantId n = min_tenantId i
    \<and> assertMode o' (case min_permissionMode i of None \<Rightarrow> Known (sm_permissionMode p) | Some g \<Rightarrow> g) d = Inr (sm_permissionMode n)"
proof -
  obtain s where s: "(case min_sandboxMode i of None \<Rightarrow> ok (sm_sandboxMode p) | Some g \<Rightarrow> assertSandbox g) = Inr s"
    using assms by (cases "case min_sandboxMode i of None \<Rightarrow> ok (sm_sandboxMode p) | Some g \<Rightarrow> assertSandbox g")
      (simp_all add: next_mode_def)
  let ?note = "case min_note i of None \<Rightarrow> ok None | Some [] \<Rightarrow> ok None
      | Some n \<Rightarrow> (case auroraText n 1000 ''Mode note'' of Inl e \<Rightarrow> throw (BadText e) | Inr t \<Rightarrow> ok (Some t))"
  obtain t where t: "?note = Inr t" using assms s by (cases ?note) (simp_all add: next_mode_def)
  let ?m = "assertMode o' (case min_permissionMode i of None \<Rightarrow> Known (sm_permissionMode p) | Some g \<Rightarrow> g) d"
  obtain m where m: "?m = Inr m" using assms s t by (cases ?m) (simp_all add: next_mode_def)
  show ?thesis using assms s t m by (auto simp: next_mode_def)
qed

lemma clean_input_Inr:
  "clean_input raw = Inr i \<Longrightarrow> min_tenantId i = js_trim (min_tenantId raw) \<and> min_sessionId i = js_trim (min_sessionId raw)
     \<and> min_permissionMode i = min_permissionMode raw"
  by (auto simp: clean_input_def auroraText_ok split: sum.splits)

section \<open>Properties\<close>

text \<open>C19. In every state the service's file and cache can reach, through refused calls, failed writes and restarts,
  there is at most one mode per session and one default per tenant, the record of changes is strictly
  ordered, and both lists keep their bounds.\<close>

theorem session_modes_durable:
  assumes "durable_reach empty_modes fits (mode_step o') st" and "v \<in> {x. cached st = Some x \<or> disk st = Stored x}"
  shows "distinct (map (\<lambda>s. (sm_tenantId s, sm_sessionId s)) (md_sessions v)) \<and> distinct (map td_tenantId (md_defaults v))
    \<and> sorted_wrt (<) (map mt_sequence (md_transitions v))
    \<and> length (md_sessions v) \<le> MAX_SESSIONS \<and> length (md_transitions v) \<le> MAX_TRANSITIONS"
  using assms(2) modes.reach_cached [OF assms(1)] modes.reach_disk [OF assms(1)] by (auto simp: modes_good_def)

definition demo_mode_input :: "permission_mode given option \<Rightarrow> mode_input" where
  "demo_mode_input m = \<lparr>min_tenantId = ''t'', min_sessionId = ''s'', min_permissionMode = m, min_sandboxMode = None,
     min_reason = ''because'', min_actor = ''op'', min_note = None\<rparr>"

definition no_mode_options :: mode_options where
  "no_mode_options = \<lparr>mo_allowBypass = None, mo_defaultPermissionMode = None, mo_defaultSandboxMode = None\<rparr>"

lemma session_modes_durable_witness:
  "\<exists>st v. durable_reach empty_modes (\<lambda>_. True) (mode_step no_mode_options) st \<and> disk st = Stored v
    \<and> length (md_defaults v) = 1 \<and> length (md_sessions v) \<le> MAX_SESSIONS"
proof -
  let ?f = "\<lparr>cached = None, disk = Absent\<rparr> :: mode_state durable"
  let ?st = "snd (durable_mutate empty_modes (\<lambda>_. True) True (mode_step no_mode_options (CallDefaults 3 ''t'')) ?f)"
  have r: "durable_reach empty_modes (\<lambda>_. True) (mode_step no_mode_options) ?st"
    by (intro durable_reach.mutate durable_reach.fresh)
  have d: "disk ?st = Stored \<lparr>md_sessions = [], md_defaults = [initial_defaults no_mode_options 3 ''t''], md_transitions = []\<rparr>"
    by code_simp
  from session_modes_durable [OF r, of "\<lparr>md_sessions = [], md_defaults = [initial_defaults no_mode_options 3 ''t''], md_transitions = []\<rparr>"] d r
  show ?thesis by (intro exI conjI) auto
qed

text \<open>An accepted change reads back as it was made, stays at or below the administrator's ceiling, and gives the
  bypass mode only to a tenant it is enabled for.\<close>

theorem mode_set_reads_back:
  assumes "mode_set o' now ceil raw st = (Inr n, st')"
  shows "mode_get o'' now' (js_trim (min_tenantId raw)) (js_trim (min_sessionId raw)) st' = n
    \<and> (case ceil of None \<Rightarrow> True | Some c \<Rightarrow> strength (sm_permissionMode n) \<le> strength c)
    \<and> (sm_permissionMode n = Bypass \<longrightarrow> orElse (mo_allowBypass o') False
         \<or> list_ex (\<lambda>d. td_tenantId d = sm_tenantId n \<and> td_allowBypass d) (md_defaults st'))"
proof -
  obtain i where i: "clean_input raw = Inr i" using assms by (auto simp: mode_set_def split: sum.splits)
  let ?p = "mode_get o' now (min_tenantId i) (min_sessionId i) st"
  have c: "check_mode ceil i (sm_permissionMode ?p) = None" and w: "set_within o' now i ?p st = (Inr n, st')"
    using assms i by (auto simp: mode_set_def Let_def split: option.splits)
  obtain d st1 where m: "mutableDefaults o' now (min_tenantId i) st = (Inr d, st1)" and n: "next_mode o' now i ?p d = Inr n"
    and st': "st' = st1\<lparr>md_sessions := put_session n (md_sessions st1), md_transitions := push_transition i ?p n (md_transitions st1)\<rparr>"
    using w by (auto simp: set_within_def split: prod.splits sum.splits)
  note nm = next_mode_Inr [OF n]
  have trimmed: "js_trim (min_tenantId i) = min_tenantId i" using clean_input_Inr [OF i] by simp
  have "mode_get o'' now' (sm_tenantId n) (sm_sessionId n) st' = n"
    using find_put_session [of n "md_sessions st1"] by (simp add: mode_get_def st')
  moreover have "case ceil of None \<Rightarrow> True | Some c \<Rightarrow> strength (sm_permissionMode n) \<le> strength c"
    using c nm by (auto simp: check_mode_def assertMode_def split: option.splits given.splits if_splits)
  moreover have "sm_permissionMode n = Bypass \<Longrightarrow> td_allowBypass d \<or> orElse (mo_allowBypass o') False"
    using nm by (auto simp: assertMode_def split: given.splits if_splits)
  moreover have "d \<in> set (md_defaults st1)" "td_tenantId d = sm_tenantId n"
    using mutableDefaults_Inr [OF m] find_Some_mem trimmed nm by fastforce+
  ultimately show ?thesis using nm clean_input_Inr [OF i] by (auto simp: st' list_ex_iff)
qed

lemma mode_set_reads_back_witness:
  "\<exists>n. fst (mode_set no_mode_options 5 (Some AutoMode) (demo_mode_input (Some (Known AcceptEdits))) empty_modes) = Inr n
    \<and> strength (sm_permissionMode n) \<le> 4"
proof -
  let ?s = "mode_set no_mode_options 5 (Some AutoMode) (demo_mode_input (Some (Known AcceptEdits))) empty_modes"
  have "\<not> isl (fst ?s)" by code_simp
  then obtain n where f: "fst ?s = Inr n" by (metis sum.collapse(2))
  then have s: "?s = (Inr n, snd ?s)" by (metis prod.collapse)
  from mode_set_reads_back [OF s] f show ?thesis by (auto simp: strength_def)
qed

text \<open>The ceiling holds for explicit changes only: a tenant default above it is accepted and is the mode of
  every session that has none of its own, while asking for that very mode is refused.\<close>

theorem ceiling_skips_defaults:
  assumes "setDefaults o' now \<lparr>din_tenantId = t, din_permissionMode = Some (Known m), din_sandboxMode = None, din_allowBypass = None\<rparr> st
      = (Inr d, st')"
    and "List.find (\<lambda>s. sm_tenantId s = js_trim t \<and> sm_sessionId s = js_trim (min_sessionId raw)) (md_sessions st) = None"
    and "clean_input raw = Inr i" and "js_trim (min_tenantId raw) = js_trim t"
    and "min_permissionMode raw = Some (Known m)" and "strength c < strength m"
  shows "sm_permissionMode (mode_get o' now (js_trim t) (js_trim (min_sessionId raw)) st') = m
    \<and> mode_set o' now (Some c) raw st' = (Inl (ExceedsCeiling m c), st')"
proof -
  obtain d0 st1 where md: "mutableDefaults o' now t st = (Inr d0, st1)"
    using assms(1) by (auto simp: setDefaults_def split: prod.splits sum.splits)
  obtain d2 where d2: "set_permission o' (Some (Known m)) (d0\<lparr>td_allowBypass := td_allowBypass d0\<rparr>) = Inr d2"
    using assms(1) md by (auto simp: setDefaults_def orElse_def Let_def split: sum.splits)
  have st': "st' = put_defaults (d2\<lparr>td_updatedAt := now\<rparr>) st1" and m: "td_permissionMode d2 = m" "td_tenantId d2 = js_trim t"
    using assms(1) md d2 mutableDefaults_Inr [OF md]
    by (auto simp: setDefaults_def orElse_def Let_def set_sandbox_def set_permission_def assertMode_def split: sum.splits if_splits)
  have ss: "md_sessions st' = md_sessions st"
    using md by (auto simp: st' put_defaults_def mutableDefaults_def Let_def split: sum.splits option.splits)
  have "List.find (\<lambda>x. td_tenantId x = js_trim t) (md_defaults st') = Some (d2\<lparr>td_updatedAt := now\<rparr>)"
    using mutableDefaults_Inr [OF md] m(2)
    by (auto simp: st' put_defaults_def intro!: find_update_first [of _ _ d0 "\<lambda>_. d2\<lparr>td_updatedAt := now\<rparr>"])
  then have "sm_permissionMode (mode_get o' now (js_trim t) (js_trim (min_sessionId raw)) st') = m"
    using assms(2) m(1) by (simp add: mode_get_def ss)
  moreover have "mode_set o' now (Some c) raw st' = (Inl (ExceedsCeiling m c), st')"
    using assms(3,5,6) clean_input_Inr [OF assms(3)] by (simp add: mode_set_def check_mode_def Let_def)
  ultimately show ?thesis by simp
qed

lemma ceiling_skips_defaults_witness:
  "\<exists>st'. sm_permissionMode (mode_get no_mode_options 5 ''t'' ''s'' st') = AutoMode
    \<and> mode_set no_mode_options 5 (Some Manual) (demo_mode_input (Some (Known AutoMode))) st' = (Inl (ExceedsCeiling AutoMode Manual), st')"
proof -
  let ?i = "\<lparr>din_tenantId = ''t'', din_permissionMode = Some (Known AutoMode), din_sandboxMode = None, din_allowBypass = None\<rparr>"
  let ?s = "setDefaults no_mode_options 5 ?i empty_modes"
  have "\<not> isl (fst ?s)" by code_simp
  then obtain d where f: "fst ?s = Inr d" by (metis sum.collapse(2))
  then have s: "?s = (Inr d, snd ?s)" by (metis prod.collapse)
  have t: "js_trim ''t'' = ''t''" "js_trim ''s'' = ''s''" by code_simp+
  have c: "clean_input (demo_mode_input (Some (Known AutoMode))) = Inr (demo_mode_input (Some (Known AutoMode)))" by code_simp
  have l: "strength Manual < strength AutoMode" by code_simp
  from ceiling_skips_defaults [OF s _ c _ _ l] t show ?thesis by (auto simp: demo_mode_input_def empty_modes_def)
qed

text \<open>A refused change of the defaults keeps the switch for the bypass mode it came with.\<close>

theorem refused_defaults_keep_bypass:
  assumes "setDefaults o' now i st = (Inl (UnknownMode s), st')" and "din_allowBypass i = Some b"
  shows "list_ex (\<lambda>d. td_tenantId d = js_trim (din_tenantId i) \<and> td_allowBypass d = b) (md_defaults st')"
proof -
  obtain d0 st1 where md: "mutableDefaults o' now (din_tenantId i) st = (Inr d0, st1)"
    using assms(1) by (auto simp: setDefaults_def mutableDefaults_def Let_def split: prod.splits sum.splits option.splits)
  let ?d = "d0\<lparr>td_allowBypass := b\<rparr>"
  have sandbox: "set_sandbox g x \<noteq> Inl (UnknownMode s)" for g x
    by (auto simp: set_sandbox_def assertSandbox_def split: option.splits given.splits)
  have st': "st' = put_defaults ?d st1"
  proof (cases "set_permission o' (din_permissionMode i) ?d")
    case (Inl e)
    then show ?thesis using assms md by (simp add: setDefaults_def orElse_def Let_def)
  next
    case (Inr d2)
    then show ?thesis using assms md sandbox
      by (auto simp: setDefaults_def orElse_def Let_def split: sum.splits)
  qed
  have "List.find (\<lambda>x. td_tenantId x = td_tenantId ?d) (md_defaults st') = Some ?d"
    using mutableDefaults_Inr [OF md]
    by (auto simp: st' put_defaults_def intro!: find_update_first [of _ _ d0 "\<lambda>_. d0\<lparr>td_allowBypass := b\<rparr>"])
  from find_Some_mem [OF this] show ?thesis
    using mutableDefaults_Inr [OF md] by (auto simp: list_ex_iff intro!: bexI [of _ ?d])
qed

lemma refused_defaults_keep_bypass_witness:
  "\<exists>st'. setDefaults no_mode_options 5 \<lparr>din_tenantId = ''t'', din_permissionMode = Some (Unknown ''yolo''),
      din_sandboxMode = None, din_allowBypass = Some True\<rparr> empty_modes = (Inl (UnknownMode ''yolo''), st')
    \<and> list_ex td_allowBypass (md_defaults st')"
proof -
  let ?s = "setDefaults no_mode_options 5 \<lparr>din_tenantId = ''t'', din_permissionMode = Some (Unknown ''yolo''),
      din_sandboxMode = None, din_allowBypass = Some True\<rparr> empty_modes"
  have "fst ?s = Inl (UnknownMode ''yolo'')" by code_simp
  then have s: "?s = (Inl (UnknownMode ''yolo''), snd ?s)" by (metis prod.collapse)
  from refused_defaults_keep_bypass [OF s, of True] s show ?thesis by (auto simp: list_ex_iff)
qed

end
