(* ===== verification/Approvals.thy ===== *)
theory Approvals
  imports PolicyStack
begin

text \<open>
  Approvals and the capability boundary. \<^verbatim>\<open>policy/approval-service.ts\<close>: requests waiting for a person,
  grants for the rest of a session, expiry and the automatic reviewer.
  \<^verbatim>\<open>capabilities/capability-broker.ts\<close>: what a capability call passes before it runs, and the lifecycle
  events it emits. Timers fire as events of the run; the preview of the arguments, the answers of
  the guard hooks and the outcome of the operation itself are given.
\<close>

section \<open>The approval service\<close>

text \<open>\<open>aps_answers\<close> are the promises that have been resolved, \<open>aps_notified\<close> what the listeners were told.\<close>

record approvals =
  aps_pending :: "(id, approval_request) js_map"
  aps_grants :: "string list"
  aps_answers :: "(id \<times> bool) list"
  aps_notified :: "approval_request list"

definition no_approvals :: approvals where
  "no_approvals = \<lparr>aps_pending = [], aps_grants = [], aps_answers = [], aps_notified = []\<rparr>"

definition grant_key :: "id \<Rightarrow> string \<Rightarrow> string" where
  "grant_key sessionId capabilityId = sessionId @ '':'' @ capabilityId"

definition hasSessionGrant :: "id \<Rightarrow> string \<Rightarrow> approvals \<Rightarrow> bool" where
  "hasSessionGrant sessionId capabilityId a = (grant_key sessionId capabilityId \<in> set (aps_grants a))"

definition list_approvals :: "id option \<Rightarrow> approvals \<Rightarrow> approval_request list" where
  "list_approvals sessionId a =
     filter (\<lambda>r. case sessionId of None \<Rightarrow> True | Some [] \<Rightarrow> True | Some s \<Rightarrow> ar_sessionId r = s) (map snd (aps_pending a))"

text \<open>What the reviewer does with a request: there is none, it throws, or it answers.\<close>

datatype review = NoReviewer | ReviewerThrew | Reviewed bool "id option" string

datatype answer = Answered bool | Waiting id

definition new_request ::
    "id \<Rightarrow> msec \<Rightarrow> int \<Rightarrow> json \<Rightarrow> capability_descriptor \<Rightarrow> capability_context \<Rightarrow> string \<Rightarrow> approval_request" where
  "new_request i now tmo preview descriptor context reason' =
     \<lparr>ar_id = i, ar_tenantId = ctx_tenantId context, ar_sessionId = ctx_sessionId context, ar_turnId = ctx_turnId context,
      ar_toolCallId = ctx_toolCallId context, ar_capabilityId = desc_id descriptor, ar_risk = desc_risk descriptor,
      ar_argumentsPreview = preview, ar_reason = reason', ar_createdAt = now, ar_expiresAt = now + tmo,
      ar_status = ApPending, ar_autoApproval = None\<rparr>"

definition request_approval :: "review \<Rightarrow> approval_request \<Rightarrow> approvals \<Rightarrow> answer \<times> approvals" where
  "request_approval review' r a =
     (if hasSessionGrant (ar_sessionId r) (ar_capabilityId r) a then (Answered True, a)
      else
        (case review' of
           Reviewed True rule rationale \<Rightarrow>
             let r' = r\<lparr>ar_status := ApApproved, ar_autoApproval := Some (rule, rationale)\<rparr> in
             (Answered True, a\<lparr>aps_notified := aps_notified a @ [r']\<rparr>)
         | _ \<Rightarrow> (Waiting (ar_id r), a\<lparr>aps_pending := map_set (ar_id r) r (aps_pending a),
                                    aps_notified := aps_notified a @ [r]\<rparr>)))"

definition expire_approval :: "id \<Rightarrow> approvals \<Rightarrow> approvals" where
  "expire_approval i a =
     (case map_get (aps_pending a) i of
        None \<Rightarrow> a
      | Some r \<Rightarrow> a\<lparr>aps_pending := map_delete i (aps_pending a), aps_answers := aps_answers a @ [(i, False)],
                    aps_notified := aps_notified a @ [r\<lparr>ar_status := ApExpired\<rparr>]\<rparr>)"

datatype approval_choice = ApproveOnce | ApproveSession | DenyIt

definition resolve_approval :: "id \<Rightarrow> approval_choice \<Rightarrow> approvals \<Rightarrow> approval_request option \<times> approvals" where
  "resolve_approval i choice a =
     (case map_get (aps_pending a) i of
        None \<Rightarrow> (None, a)
      | Some r \<Rightarrow>
          let r' = r\<lparr>ar_status := (if choice = DenyIt then ApDenied else ApApproved)\<rparr> in
          (Some r', a\<lparr>aps_pending := map_delete i (aps_pending a),
             aps_grants := (if choice = ApproveSession
               then List.insert (grant_key (ar_sessionId r) (ar_capabilityId r)) (aps_grants a) else aps_grants a),
             aps_answers := aps_answers a @ [(i, choice \<noteq> DenyIt)],
             aps_notified := aps_notified a @ [r']\<rparr>))"

definition clear_session :: "id \<Rightarrow> approvals \<Rightarrow> approvals" where
  "clear_session sessionId a =
     a\<lparr>aps_pending := filter (\<lambda>(i, r). ar_sessionId r \<noteq> sessionId) (aps_pending a),
       aps_answers := aps_answers a @ map (\<lambda>(i, r). (i, False)) (filter (\<lambda>(i, r). ar_sessionId r = sessionId) (aps_pending a)),
       aps_grants := filter (\<lambda>g. \<not> starts_with g (sessionId @ '':'')) (aps_grants a)\<rparr>"

section \<open>Runs of the service\<close>

datatype approval_event =
    Request review approval_request
  | Expire id
  | Resolve id approval_choice
  | ClearSession id

definition approval_step :: "approval_event \<Rightarrow> approvals \<Rightarrow> approvals" where
  "approval_step e a =
     (case e of
        Request v r \<Rightarrow> snd (request_approval v r a)
      | Expire i \<Rightarrow> expire_approval i a
      | Resolve i c \<Rightarrow> snd (resolve_approval i c a)
      | ClearSession s \<Rightarrow> clear_session s a)"

definition approval_run :: "approval_event list \<Rightarrow> approvals" where
  "approval_run es = fold approval_step es no_approvals"

definition requested_ids :: "approval_event list \<Rightarrow> id list" where
  "requested_ids es = concat (map (\<lambda>e. case e of Request _ r \<Rightarrow> [ar_id r] | _ \<Rightarrow> []) es)"

text \<open>\<open>approvals_inv asked es a\<close>: of the ids asked so far, each is waiting or answered, not both, and answered once;
  an approval and a grant go back to a person's decision in \<open>es\<close>.\<close>

definition approvals_inv :: "approval_event list \<Rightarrow> approvals \<Rightarrow> bool" where
  "approvals_inv es a \<longleftrightarrow>
     distinct (map fst (aps_pending a)) \<and> distinct (map fst (aps_answers a))
     \<and> set (map fst (aps_pending a)) \<inter> set (map fst (aps_answers a)) = {}
     \<and> set (map fst (aps_pending a)) \<union> set (map fst (aps_answers a)) \<subseteq> set (requested_ids es)
     \<and> (\<forall>i. (i, True) \<in> set (aps_answers a) \<longrightarrow> (\<exists>c. c \<noteq> DenyIt \<and> Resolve i c \<in> set es))
     \<and> (aps_grants a \<noteq> [] \<longrightarrow> (\<exists>i. Resolve i ApproveSession \<in> set es))"

lemma requested_ids_snoc: "requested_ids (es @ [e]) = requested_ids es @ (case e of Request _ r \<Rightarrow> [ar_id r] | _ \<Rightarrow> [])"
  by (simp add: requested_ids_def)

lemma map_fst_delete: "map fst (map_delete k m) = filter (\<lambda>x. x \<noteq> k) (map fst m)"
  by (induction m) (auto simp: AList.delete_eq)

lemma map_fst_set_new: "k \<notin> set (map fst m) \<Longrightarrow> map fst (map_set k v m) = map fst m @ [k]"
  by (induction m) auto

lemma approvals_inv_more:
  assumes "approvals_inv es a"
  shows "approvals_inv (es @ [e]) a"
  using assms by (auto simp: approvals_inv_def requested_ids_snoc)

lemma inv_answer:
  assumes inv: "approvals_inv es a" and p: "map_get (aps_pending a) i = Some r"
    and b: "b \<Longrightarrow> \<exists>c. c \<noteq> DenyIt \<and> Resolve i c \<in> set es" and g: "g \<noteq> [] \<Longrightarrow> \<exists>i. Resolve i ApproveSession \<in> set es"
  shows "approvals_inv es (a\<lparr>aps_pending := map_delete i (aps_pending a), aps_grants := g,
    aps_answers := aps_answers a @ [(i, b)], aps_notified := n\<rparr>)"
proof -
  have "i \<in> set (map fst (aps_pending a))" using p by (metis map_of_eq_None_iff option.distinct(1) list.set_map)
  then show ?thesis using inv b g unfolding approvals_inv_def by (auto simp: map_fst_delete)
qed

lemma inv_clear:
  assumes inv: "approvals_inv es a"
  shows "approvals_inv es (clear_session s a)"
proof -
  let ?keep = "filter (\<lambda>(i, r). ar_sessionId r \<noteq> s) (aps_pending a)"
  let ?drop = "filter (\<lambda>(i, r). ar_sessionId r = s) (aps_pending a)"
  have dist: "distinct (map fst (aps_pending a))" using inv by (simp add: approvals_inv_def)
  have answers: "map fst (map (\<lambda>(i, r). (i, False)) xs) = map fst xs" for xs :: "(id, approval_request) js_map"
    by (induction xs) auto
  have "distinct (map fst (filter P (aps_pending a)))" for P using dist by (rule distinct_map_filter)
  moreover have "set (map fst ?keep) \<inter> set (map fst ?drop) = {}"
    using dist by (auto simp: distinct_map inj_on_def)
  moreover have "(i, True) \<notin> set (map (\<lambda>(i, r). (i, False)) ?drop)" for i by auto
  ultimately show ?thesis using inv unfolding approvals_inv_def clear_session_def
    by (auto simp: answers simp del: map_map)
qed

lemma approvals_inv_step:
  assumes inv: "approvals_inv es a" and fresh: "distinct (requested_ids (es @ [e]))"
  shows "approvals_inv (es @ [e]) (approval_step e a)"
proof (cases e)
  case (Request v r)
  have new: "ar_id r \<notin> set (requested_ids es)" using fresh Request by (simp add: requested_ids_snoc)
  then have k: "ar_id r \<notin> set (map fst (aps_pending a))" "ar_id r \<notin> set (map fst (aps_answers a))"
    using inv by (auto simp: approvals_inv_def)
  have keep: "approvals_inv (es @ [e]) (a\<lparr>aps_notified := n\<rparr>)" for n
    using approvals_inv_more [OF inv] by (simp add: approvals_inv_def)
  have wait: "approvals_inv (es @ [e]) (a\<lparr>aps_pending := map_set (ar_id r) r (aps_pending a), aps_notified := n\<rparr>)" for n
    using inv k Request by (auto simp: approvals_inv_def map_fst_set_new requested_ids_snoc simp del: set_map)
  show ?thesis using Request keep wait approvals_inv_more [OF inv]
    by (auto simp: approval_step_def request_approval_def Let_def split: review.splits bool.splits)
next
  case (Expire i)
  show ?thesis
  proof (cases "map_get (aps_pending a) i")
    case None
    then show ?thesis using Expire approvals_inv_more [OF inv] by (simp add: approval_step_def expire_approval_def)
  next
    case (Some r)
    have g: "aps_grants a \<noteq> [] \<Longrightarrow> \<exists>i. Resolve i ApproveSession \<in> set (es @ [e])" using inv by (auto simp: approvals_inv_def)
    have "approvals_inv (es @ [e]) (a\<lparr>aps_pending := map_delete i (aps_pending a), aps_grants := aps_grants a,
        aps_answers := aps_answers a @ [(i, False)], aps_notified := n\<rparr>)" for n
      by (rule inv_answer [OF approvals_inv_more [OF inv] Some _ g]) simp_all
    moreover have "a\<lparr>aps_pending := p, aps_grants := aps_grants a, aps_answers := q, aps_notified := n\<rparr>
        = a\<lparr>aps_pending := p, aps_answers := q, aps_notified := n\<rparr>" for p q n
      by (cases a) simp
    ultimately have "approvals_inv (es @ [e]) (a\<lparr>aps_pending := map_delete i (aps_pending a),
        aps_answers := aps_answers a @ [(i, False)], aps_notified := n\<rparr>)" for n by metis
    then show ?thesis using Expire Some by (simp add: approval_step_def expire_approval_def)
  qed
next
  case (Resolve i c)
  show ?thesis
  proof (cases "map_get (aps_pending a) i")
    case None
    then show ?thesis using Resolve approvals_inv_more [OF inv] by (simp add: approval_step_def resolve_approval_def)
  next
    case (Some r)
    let ?g = "if c = ApproveSession then List.insert (grant_key (ar_sessionId r) (ar_capabilityId r)) (aps_grants a) else aps_grants a"
    have g: "?g \<noteq> [] \<Longrightarrow> \<exists>i. Resolve i ApproveSession \<in> set (es @ [e])"
      using inv Resolve by (auto simp: approvals_inv_def split: if_splits)
    have b: "c \<noteq> DenyIt \<Longrightarrow> \<exists>c. c \<noteq> DenyIt \<and> Resolve i c \<in> set (es @ [e])" using Resolve by auto
    have "approvals_inv (es @ [e]) (a\<lparr>aps_pending := map_delete i (aps_pending a), aps_grants := ?g,
        aps_answers := aps_answers a @ [(i, c \<noteq> DenyIt)],
        aps_notified := aps_notified a @ [r\<lparr>ar_status := (if c = DenyIt then ApDenied else ApApproved)\<rparr>]\<rparr>)"
      by (rule inv_answer [OF approvals_inv_more [OF inv] Some b g])
    then show ?thesis
      by (simp only: approval_step_def approval_event.case resolve_approval_def Some option.case Let_def snd_conv Resolve)
  qed
next
  case (ClearSession s)
  then show ?thesis using inv_clear [OF approvals_inv_more [OF inv]] by (simp add: approval_step_def)
qed

lemma approvals_inv_run: "distinct (requested_ids es) \<Longrightarrow> approvals_inv es (approval_run es)"
proof (induction es rule: rev_induct)
  case Nil
  show ?case by (simp add: approvals_inv_def approval_run_def no_approvals_def)
next
  case (snoc e es)
  have "distinct (requested_ids es)" using snoc.prems by (auto simp: requested_ids_snoc)
  then show ?case using approvals_inv_step [OF snoc.IH snoc.prems] by (simp add: approval_run_def)
qed

section \<open>The capability broker\<close>

datatype lifecycle = OnPolicy decision_kind | OnApproval | OnStarted | OnFinished string

datatype broker_error =
    NotInProfile string
  | UnknownCapability string
  | InvalidInput
  | GuardDenied
  | PolicyDenied string
  | ApprovalDenied string
  | OperationThrew string

text \<open>What the collaborators answer during one call; \<open>bi_run\<close> is the outcome of the operation, through the
  effect journal when the capability has side effects.\<close>

record broker_input =
  bi_registered :: "(string, capability_descriptor) js_map"
  bi_valid :: bool
  bi_guardDenies :: bool
  bi_policy :: policy_decision
  bi_approved :: bool
  bi_run :: "(string, json) result"

record broker_trace =
  bt_events :: "lifecycle list"
  bt_asked :: bool
  bt_ran :: "(bool \<times> string) option"

text \<open>\<open>bt_ran = Some (journaled, key)\<close>: the operation was started, through the effect journal under \<open>key\<close> or
  directly.\<close>

fun finished :: "lifecycle \<Rightarrow> bool" where
  "finished (OnFinished _) = True"
| "finished _ = False"

definition run_capability :: "broker_input \<Rightarrow> capability_descriptor \<Rightarrow> capability_context \<Rightarrow> bool \<Rightarrow> lifecycle list
    \<Rightarrow> (broker_error, json) result \<times> broker_trace" where
  "run_capability i descriptor context asked events =
     (let trace = (\<lambda>status. \<lparr>bt_events = events @ [OnStarted, OnFinished status], bt_asked = asked,
            bt_ran = Some (desc_sideEffect descriptor, ctx_idempotencyKey context)\<rparr>)
      in case bi_run i of
           Inr v \<Rightarrow> (ok v, trace ''ok'')
         | Inl e \<Rightarrow> (throw (OperationThrew e), trace ''error''))"

definition broker_execute ::
    "broker_input \<Rightarrow> string \<Rightarrow> capability_context \<Rightarrow> (broker_error, json) result \<times> broker_trace" where
  "broker_execute i cid context =
     (let none = \<lparr>bt_events = [], bt_asked = False, bt_ran = None\<rparr> in
      if (case ctx_allowedCapabilityIds context of None \<Rightarrow> False | Some allowed \<Rightarrow> cid \<notin> set allowed)
      then (throw (NotInProfile cid), none)
      else
        (case map_get (bi_registered i) cid of
           None \<Rightarrow> (throw (UnknownCapability cid), none)
         | Some descriptor \<Rightarrow>
             if \<not> bi_valid i then (throw InvalidInput, none)
             else if bi_guardDenies i then (throw GuardDenied, none)
             else
               let d = bi_policy i; policy = OnPolicy (decision d) in
               if decision d = Deny
               then (throw (PolicyDenied cid), none\<lparr>bt_events := [policy, OnFinished ''blocked'']\<rparr>)
               else if decision d = RequireApproval then
                 (if bi_approved i then run_capability i descriptor context True [policy, OnApproval]
                  else (throw (ApprovalDenied cid),
                        none\<lparr>bt_events := [policy, OnApproval, OnFinished ''blocked''], bt_asked := True\<rparr>))
               else run_capability i descriptor context False [policy]))"

section \<open>Properties\<close>


definition demo_approval :: "id \<Rightarrow> approval_request" where
  "demo_approval i = new_request i 1 100 JNull (demo_descriptor Process) demo_ctx ''why''"

definition demo_approval_run :: "approval_event list" where
  "demo_approval_run = [Request NoReviewer (demo_approval ''a''), Request NoReviewer (demo_approval ''b''),
     Resolve ''a'' ApproveSession, Expire ''a'', Expire ''b'', Request NoReviewer (demo_approval ''c'')]"


text \<open>C26. A capability only runs when it is registered, in the session's profile, given valid input, not refused by a
  guard, not denied by policy, and approved when the policy asks; with side effects it runs through the
  effect journal under the call's idempotency key. Whatever happens after the policy decided is closed by
  exactly one finished event.\<close>

theorem broker_runs_only_cleared:
  "case broker_execute i cid context of (r, t) \<Rightarrow>
     (case bt_ran t of
        Some (journaled, key) \<Rightarrow>
          (case map_get (bi_registered i) cid of None \<Rightarrow> False | Some x \<Rightarrow> journaled = desc_sideEffect x)
          \<and> key = ctx_idempotencyKey context \<and> bi_valid i \<and> \<not> bi_guardDenies i
          \<and> decision (bi_policy i) \<noteq> Deny \<and> (decision (bi_policy i) = RequireApproval) = bt_asked t
          \<and> (\<not> bt_asked t \<or> bi_approved i)
          \<and> (case ctx_allowedCapabilityIds context of None \<Rightarrow> True | Some ids \<Rightarrow> cid \<in> set ids)
          \<and> isl r = isl (bi_run i)
      | None \<Rightarrow> isl r)
     \<and> (bt_events t = [] \<or> finished (last (bt_events t)) \<and> length (filter finished (bt_events t)) = 1)"
proof -
  have ran: "\<exists>r u. run_capability i x context asked xs = (r, \<lparr>bt_events = xs @ [OnStarted, OnFinished u], bt_asked = asked,
      bt_ran = Some (desc_sideEffect x, ctx_idempotencyKey context)\<rparr>) \<and> isl r = isl (bi_run i)" for x asked xs
    by (cases "bi_run i") (auto simp: run_capability_def)
  let ?out = "case ctx_allowedCapabilityIds context of None \<Rightarrow> False | Some allowed \<Rightarrow> cid \<notin> set allowed"
  consider "?out" | "\<not> ?out" "map_get (bi_registered i) cid = None"
    | x where "\<not> ?out" "map_get (bi_registered i) cid = Some x" by blast
  then show ?thesis
  proof cases
    case (3 x)
    have allowed: "case ctx_allowedCapabilityIds context of None \<Rightarrow> True | Some ids \<Rightarrow> cid \<in> set ids"
      using 3(1) by (auto split: option.splits)
    obtain r1 u1 where r1: "run_capability i x context True [OnPolicy (decision (bi_policy i)), OnApproval]
        = (r1, \<lparr>bt_events = [OnPolicy (decision (bi_policy i)), OnApproval] @ [OnStarted, OnFinished u1], bt_asked = True,
           bt_ran = Some (desc_sideEffect x, ctx_idempotencyKey context)\<rparr>)" "isl r1 = isl (bi_run i)" using ran by blast
    obtain r2 u2 where r2: "run_capability i x context False [OnPolicy (decision (bi_policy i))]
        = (r2, \<lparr>bt_events = [OnPolicy (decision (bi_policy i))] @ [OnStarted, OnFinished u2], bt_asked = False,
           bt_ran = Some (desc_sideEffect x, ctx_idempotencyKey context)\<rparr>)" "isl r2 = isl (bi_run i)" using ran by blast
    show ?thesis
    proof (cases "bi_valid i \<and> \<not> bi_guardDenies i")
      case False
      then show ?thesis using 3 by (auto simp: broker_execute_def Let_def)
    next
      case True
      then have e: "broker_execute i cid context =
        (if decision (bi_policy i) = Deny
         then (throw (PolicyDenied cid), \<lparr>bt_events = [OnPolicy (decision (bi_policy i)), OnFinished ''blocked''], bt_asked = False, bt_ran = None\<rparr>)
         else if decision (bi_policy i) = RequireApproval then
           (if bi_approved i then run_capability i x context True [OnPolicy (decision (bi_policy i)), OnApproval]
            else (throw (ApprovalDenied cid), \<lparr>bt_events = [OnPolicy (decision (bi_policy i)), OnApproval, OnFinished ''blocked''],
                    bt_asked = True, bt_ran = None\<rparr>))
         else run_capability i x context False [OnPolicy (decision (bi_policy i))])"
        using 3 by (simp add: broker_execute_def Let_def)
      consider "decision (bi_policy i) = Deny" | "decision (bi_policy i) = RequireApproval" "bi_approved i"
        | "decision (bi_policy i) = RequireApproval" "\<not> bi_approved i" | "decision (bi_policy i) \<notin> {Deny, RequireApproval}" by auto
      then show ?thesis unfolding e by cases (use 3 True r1 r2 allowed in simp_all)
    qed
  qed (simp_all add: broker_execute_def)
qed

definition demo_broker :: broker_input where
  "demo_broker = \<lparr>bi_registered = [(''process.run'', \<lparr>desc_id = ''process.run'', desc_risk = Process, desc_sideEffect = True\<rparr>)],
     bi_valid = True, bi_guardDenies = False,
     bi_policy = \<lparr>decision = RequireApproval, reasonCode = ''process'', approvalScope = None\<rparr>, bi_approved = True, bi_run = Inr JNull\<rparr>"

lemma broker_runs_only_cleared_witness:
  "bt_ran (snd (broker_execute demo_broker ''process.run'' demo_ctx)) = Some (True, ctx_idempotencyKey demo_ctx)
   \<and> bt_asked (snd (broker_execute demo_broker ''process.run'' demo_ctx)) \<and> bi_approved demo_broker"
proof -
  have ran: "bt_ran (snd (broker_execute demo_broker ''process.run'' demo_ctx)) = Some (True, ctx_idempotencyKey demo_ctx)" by code_simp
  moreover have asked: "bt_asked (snd (broker_execute demo_broker ''process.run'' demo_ctx))" by code_simp
  ultimately show ?thesis using broker_runs_only_cleared [of demo_broker "''process.run''" demo_ctx] by (simp add: split_beta)
qed

end
