(* ===== verification/SessionBudget.thy ===== *)
theory SessionBudget
  imports AuroraState JsText
begin

text \<open>
  Session budgets, \<^verbatim>\<open>policy/session-budget.ts\<close>: tenant defaults and session overrides in a durable
  file, and the verdict on a session's spend. Every operation validates before it writes, so the service
  meets the stronger contract of the store (\<^verbatim>\<open>atomic_service\<close>). Amounts are rationals; the texts
  of a verdict are left out.
\<close>

section \<open>Limits\<close>

datatype on_exceeded = Block | WarnOnly

record limits =
  li_maxUsd :: "rat option"
  li_maxTokens :: "int option"
  li_warnAtFraction :: rat
  li_onExceeded :: on_exceeded

text \<open>A partial set of limits, as a caller gives it: a number may be any, a token cap any rational.\<close>

record limits_input =
  ln_maxUsd :: "rat option"
  ln_maxTokens :: "rat option"
  ln_warnAtFraction :: "rat option"
  ln_onExceeded :: "on_exceeded option"

datatype budget_error =
    BudgetText aurora_error
  | BadUsd
  | BadTokens
  | NoCap
  | TooManyDefaults
  | TooManyOverrides

definition normalize_usd :: "rat option \<Rightarrow> (budget_error, rat option) result" where
  "normalize_usd x = (case x of None \<Rightarrow> ok None | Some u \<Rightarrow> if u \<le> 0 then throw BadUsd else ok (Some (min 1000000 u)))"

definition normalize_tokens :: "rat option \<Rightarrow> (budget_error, int option) result" where
  "normalize_tokens x = (case x of None \<Rightarrow> ok None
     | Some t \<Rightarrow> if t \<noteq> of_int \<lfloor>t\<rfloor> \<or> t \<le> 0 then throw BadTokens else ok (Some (min 10000000000 \<lfloor>t\<rfloor>)))"

definition normalizeLimits :: "limits_input \<Rightarrow> (budget_error, limits) result" where
  "normalizeLimits i =
     (case normalize_usd (ln_maxUsd i) of
        Inl e \<Rightarrow> throw e
      | Inr u \<Rightarrow>
          (case normalize_tokens (ln_maxTokens i) of
             Inl e \<Rightarrow> throw e
           | Inr t \<Rightarrow> ok \<lparr>li_maxUsd = u, li_maxTokens = t,
               li_warnAtFraction = min (99 / 100) (max (1 / 10) (case ln_warnAtFraction i of None \<Rightarrow> 8 / 10 | Some f \<Rightarrow> f)),
               li_onExceeded = (if ln_onExceeded i = Some WarnOnly then WarnOnly else Block)\<rparr>))"

section \<open>State\<close>

record tenant_budget =
  tb_tenantId :: string
  tb_limits :: limits
  tb_updatedAt :: msec

record session_override =
  so_tenantId :: string
  so_sessionId :: id
  so_limits :: limits
  so_reason :: string
  so_setBy :: string
  so_updatedAt :: msec

record budget_state =
  bg_defaults :: "tenant_budget list"
  bg_overrides :: "session_override list"

definition empty_budgets :: budget_state where
  "empty_budgets = \<lparr>bg_defaults = [], bg_overrides = []\<rparr>"

definition MAX_DEFAULTS :: nat where "MAX_DEFAULTS = 500"

definition MAX_OVERRIDES :: nat where "MAX_OVERRIDES = 2000"

text \<open>\<^verbatim>\<open>findIndex\<close>, then replace, or append below a bound.\<close>

definition upsert :: "('a \<Rightarrow> bool) \<Rightarrow> nat \<Rightarrow> 'a \<Rightarrow> 'a list \<Rightarrow> 'a list option" where
  "upsert same mx x xs =
     (if list_ex same xs then Some (update_first same (\<lambda>_. x) xs)
      else if length xs \<ge> mx then None else Some (xs @ [x]))"

definition setTenantDefaults ::
    "msec \<Rightarrow> string \<Rightarrow> limits_input \<Rightarrow> budget_state \<Rightarrow> (budget_error, tenant_budget) result \<times> budget_state" where
  "setTenantDefaults now tenant i st =
     (case auroraText tenant 200 ''Tenant ID'' of
        Inl e \<Rightarrow> (throw (BudgetText e), st)
      | Inr t \<Rightarrow>
          (case normalizeLimits i of
             Inl e \<Rightarrow> (throw e, st)
           | Inr l \<Rightarrow>
               let r = \<lparr>tb_tenantId = t, tb_limits = l, tb_updatedAt = now\<rparr> in
               (case upsert (\<lambda>x. tb_tenantId x = t) MAX_DEFAULTS r (bg_defaults st) of
                  None \<Rightarrow> (throw TooManyDefaults, st)
                | Some ds \<Rightarrow> (ok r, st\<lparr>bg_defaults := ds\<rparr>))))"

definition setSessionBudget ::
    "msec \<Rightarrow> string \<Rightarrow> id \<Rightarrow> string \<Rightarrow> string option \<Rightarrow> limits_input \<Rightarrow> budget_state
       \<Rightarrow> (budget_error, session_override) result \<times> budget_state" where
  "setSessionBudget now tenant session why by' i st =
     (case auroraText tenant 200 ''Tenant ID'' of
        Inl e \<Rightarrow> (throw (BudgetText e), st)
      | Inr t \<Rightarrow>
          (case auroraText session 200 ''Session ID'' of
             Inl e \<Rightarrow> (throw (BudgetText e), st)
           | Inr s \<Rightarrow>
               (case normalizeLimits i of
                  Inl e \<Rightarrow> (throw e, st)
                | Inr l \<Rightarrow>
                    if li_maxUsd l = None \<and> li_maxTokens l = None then (throw NoCap, st)
                    else
                      (case auroraText why 1000 ''Budget reason'' of
                         Inl e \<Rightarrow> (throw (BudgetText e), st)
                       | Inr w \<Rightarrow>
                           (case auroraText (case by' of None \<Rightarrow> ''operator'' | Some b \<Rightarrow> b) 200 ''Budget author'' of
                              Inl e \<Rightarrow> (throw (BudgetText e), st)
                            | Inr b \<Rightarrow>
                                let r = \<lparr>so_tenantId = t, so_sessionId = s, so_limits = l, so_reason = w, so_setBy = b,
                                         so_updatedAt = now\<rparr> in
                                (case upsert (\<lambda>x. so_sessionId x = s \<and> so_tenantId x = t) MAX_OVERRIDES r (bg_overrides st) of
                                   None \<Rightarrow> (throw TooManyOverrides, st)
                                 | Some os \<Rightarrow> (ok r, st\<lparr>bg_overrides := os\<rparr>)))))))"

definition clearSessionBudget :: "string \<Rightarrow> id \<Rightarrow> budget_state \<Rightarrow> (budget_error, bool) result \<times> budget_state" where
  "clearSessionBudget tenant session st =
     (let mine = (\<lambda>x. so_sessionId x = session \<and> so_tenantId x = tenant) in
      if list_ex mine (bg_overrides st) then (ok True, st\<lparr>bg_overrides := remove_first mine (bg_overrides st)\<rparr>)
      else (ok False, st))"

section \<open>The verdict\<close>

datatype budget_source = FromSession | FromTenant | FromNone

datatype budget_verdict = Unlimited | WithinBudget | Warning | Exhausted

record verdict =
  ve_state :: budget_verdict
  ve_source :: budget_source
  ve_consumed :: rat
  ve_remainingUsd :: "rat option"
  ve_remainingTokens :: "int option"
  ve_blocked :: bool
  ve_unpriced :: bool

definition applicable :: "string \<Rightarrow> id \<Rightarrow> budget_state \<Rightarrow> budget_source \<times> limits option" where
  "applicable tenant session st =
     (case List.find (\<lambda>x. so_sessionId x = session \<and> so_tenantId x = tenant) (bg_overrides st) of
        Some o' \<Rightarrow> (FromSession, Some (so_limits o'))
      | None \<Rightarrow>
          (case List.find (\<lambda>x. tb_tenantId x = tenant) (bg_defaults st) of
             Some d \<Rightarrow> (FromTenant, Some (tb_limits d))
           | None \<Rightarrow> (FromNone, None)))"

definition budget_evaluate :: "string \<Rightarrow> id \<Rightarrow> rat \<Rightarrow> int \<Rightarrow> bool \<Rightarrow> budget_state \<Rightarrow> verdict" where
  "budget_evaluate tenant session spent used unpricedModel st =
     (case applicable tenant session st of
        (source, None) \<Rightarrow> \<lparr>ve_state = Unlimited, ve_source = source, ve_consumed = 0, ve_remainingUsd = None,
           ve_remainingTokens = None, ve_blocked = False, ve_unpriced = False\<rparr>
      | (source, Some l) \<Rightarrow>
          if li_maxUsd l = None \<and> li_maxTokens l = None
          then \<lparr>ve_state = Unlimited, ve_source = source, ve_consumed = 0, ve_remainingUsd = None,
                ve_remainingTokens = None, ve_blocked = False, ve_unpriced = False\<rparr>
          else
            let unpriced = (unpricedModel \<and> li_maxUsd l \<noteq> None);
                usd = (case li_maxUsd l of Some u \<Rightarrow> if unpriced then 0 else spent / u | None \<Rightarrow> 0);
                tok = (case li_maxTokens l of Some t \<Rightarrow> of_int used / of_int t | None \<Rightarrow> 0);
                consumed = max usd tok
            in \<lparr>ve_state = (if consumed \<ge> 1 then Exhausted
                  else if consumed \<ge> li_warnAtFraction l then Warning else WithinBudget),
                ve_source = source, ve_consumed = consumed,
                ve_remainingUsd = map_option (\<lambda>u. max 0 (u - spent)) (li_maxUsd l),
                ve_remainingTokens = map_option (\<lambda>t. max 0 (t - used)) (li_maxTokens l),
                ve_blocked = (consumed \<ge> 1 \<and> li_onExceeded l = Block), ve_unpriced = unpriced\<rparr>)"

section \<open>The service as a client of the durable store\<close>

datatype budget_call =
    CallTenant msec string limits_input
  | CallSession msec string id string "string option" limits_input
  | CallClear string id

datatype budget_reply = ReplyTenant tenant_budget | ReplySession session_override | ReplyCleared bool

definition budget_step :: "budget_call \<Rightarrow> budget_state \<Rightarrow> (budget_error, budget_reply) result \<times> budget_state" where
  "budget_step call st =
     (case call of
        CallTenant now t i \<Rightarrow> (case setTenantDefaults now t i st of (r, st') \<Rightarrow> (map_sum id ReplyTenant r, st'))
      | CallSession now t s w b i \<Rightarrow> (case setSessionBudget now t s w b i st of (r, st') \<Rightarrow> (map_sum id ReplySession r, st'))
      | CallClear t s \<Rightarrow> (case clearSessionBudget t s st of (r, st') \<Rightarrow> (map_sum id ReplyCleared r, st')))"

definition limits_good :: "limits \<Rightarrow> bool" where
  "limits_good l = ((case li_maxUsd l of None \<Rightarrow> True | Some u \<Rightarrow> 0 < u \<and> u \<le> 1000000)
     \<and> (case li_maxTokens l of None \<Rightarrow> True | Some t \<Rightarrow> 0 < t \<and> t \<le> 10000000000)
     \<and> 1 / 10 \<le> li_warnAtFraction l \<and> li_warnAtFraction l \<le> 99 / 100)"

definition budgets_good :: "budget_state \<Rightarrow> bool" where
  "budgets_good st \<longleftrightarrow> distinct (map tb_tenantId (bg_defaults st)) \<and> length (bg_defaults st) \<le> MAX_DEFAULTS
     \<and> distinct (map (\<lambda>x. (so_tenantId x, so_sessionId x)) (bg_overrides st)) \<and> length (bg_overrides st) \<le> MAX_OVERRIDES
     \<and> list_all (\<lambda>d. limits_good (tb_limits d)) (bg_defaults st)
     \<and> list_all (\<lambda>x. limits_good (so_limits x) \<and> (li_maxUsd (so_limits x) \<noteq> None \<or> li_maxTokens (so_limits x) \<noteq> None)) (bg_overrides st)"

lemma normalizeLimits_good:
  assumes "normalizeLimits i = Inr l"
  shows "limits_good l"
proof -
  obtain u where u: "normalize_usd (ln_maxUsd i) = Inr u" using assms by (auto simp: normalizeLimits_def split: sum.splits)
  obtain t where t: "normalize_tokens (ln_maxTokens i) = Inr t" using assms u by (auto simp: normalizeLimits_def split: sum.splits)
  have "case u of None \<Rightarrow> True | Some u \<Rightarrow> 0 < u \<and> u \<le> 1000000"
    using u by (auto simp: normalize_usd_def split: option.splits if_splits)
  moreover have "case t of None \<Rightarrow> True | Some t \<Rightarrow> 0 < t \<and> t \<le> 10000000000"
  proof (cases "ln_maxTokens i")
    case None
    then show ?thesis using t by (simp add: normalize_tokens_def)
  next
    case (Some x)
    then have x: "x = of_int \<lfloor>x\<rfloor>" "0 < x" "t = Some (min 10000000000 \<lfloor>x\<rfloor>)"
      using t by (auto simp: normalize_tokens_def split: if_splits)
    then have "0 < \<lfloor>x\<rfloor>" by (metis of_int_0_less_iff)
    then show ?thesis using x(3) by simp
  qed
  ultimately show ?thesis using assms u t by (auto simp: normalizeLimits_def limits_good_def)
qed

lemma upsert_good:
  assumes "upsert same mx x xs = Some ys" and "distinct (map key xs)" and "\<And>y. same y \<longleftrightarrow> key y = key x"
    and "length xs \<le> mx" and "list_all P xs" and "P x"
  shows "distinct (map key ys) \<and> length ys \<le> mx \<and> list_all P ys"
proof (cases "list_ex same xs")
  case True
  have "map key (update_first same (\<lambda>_. x) zs) = map key zs" for zs
    by (induction zs) (auto simp: assms(3))
  moreover have "list_all P zs \<Longrightarrow> list_all P (update_first same (\<lambda>_. x) zs)" for zs
    using assms(6) by (induction zs) auto
  ultimately show ?thesis using assms True by (auto simp: upsert_def)
next
  case False
  then have "key x \<notin> key ` set xs" using assms(3) by (auto simp: list_ex_iff)
  then show ?thesis using assms False by (auto simp: upsert_def list_all_iff split: if_splits)
qed

lemma setTenantDefaults_step:
  "setTenantDefaults now t i st = (r, st') \<Longrightarrow> (isl r \<longrightarrow> st' = st) \<and> (budgets_good st \<longrightarrow> budgets_good st')"
proof (cases "auroraText t 200 ''Tenant ID''"; cases "normalizeLimits i")
  fix u l assume a: "setTenantDefaults now t i st = (r, st')" "auroraText t 200 ''Tenant ID'' = Inr u" "normalizeLimits i = Inr l"
  let ?r = "\<lparr>tb_tenantId = u, tb_limits = l, tb_updatedAt = now\<rparr>"
  have "budgets_good st \<longrightarrow> budgets_good (st\<lparr>bg_defaults := ds\<rparr>)" if "upsert (\<lambda>x. tb_tenantId x = u) MAX_DEFAULTS ?r (bg_defaults st) = Some ds" for ds
    using upsert_good [OF that, of tb_tenantId "\<lambda>d. limits_good (tb_limits d)"] normalizeLimits_good [OF a(3)]
    by (auto simp: budgets_good_def)
  then show ?thesis using a by (auto simp: setTenantDefaults_def Let_def split: option.splits)
qed (auto simp: setTenantDefaults_def)

lemma setSessionBudget_step:
  assumes "setSessionBudget now t s w b i st = (r, st')"
  shows "(isl r \<longrightarrow> st' = st) \<and> (budgets_good st \<longrightarrow> budgets_good st')"
proof (cases r)
  case (Inl e)
  then show ?thesis using assms
    by (auto simp: setSessionBudget_def Let_def split: sum.splits if_splits option.splits)
next
  case (Inr x)
  obtain t' s' l w' b' os where o: "normalizeLimits i = Inr l" "\<not> (li_maxUsd l = None \<and> li_maxTokens l = None)"
    "upsert (\<lambda>x. so_sessionId x = s' \<and> so_tenantId x = t') MAX_OVERRIDES
       \<lparr>so_tenantId = t', so_sessionId = s', so_limits = l, so_reason = w', so_setBy = b', so_updatedAt = now\<rparr> (bg_overrides st) = Some os"
    "st' = st\<lparr>bg_overrides := os\<rparr>"
    using assms Inr by (auto simp: setSessionBudget_def Let_def split: sum.splits if_splits option.splits)
  show ?thesis
    using upsert_good [OF o(3), of "\<lambda>x. (so_tenantId x, so_sessionId x)" "\<lambda>x. limits_good (so_limits x) \<and>
        (li_maxUsd (so_limits x) \<noteq> None \<or> li_maxTokens (so_limits x) \<noteq> None)"] normalizeLimits_good [OF o(1)] o(2,4) Inr
    by (auto simp: budgets_good_def)
qed

lemma clearSessionBudget_step:
  "clearSessionBudget t s st = (r, st') \<Longrightarrow> (isl r \<longrightarrow> st' = st) \<and> (budgets_good st \<longrightarrow> budgets_good st')"
  using set_remove_first [of "\<lambda>x. so_sessionId x = s \<and> so_tenantId x = t" "bg_overrides st"]
    length_remove_first [of "\<lambda>x. so_sessionId x = s \<and> so_tenantId x = t" "bg_overrides st"]
  by (auto simp: clearSessionBudget_def Let_def budgets_good_def list_all_iff distinct_remove_first split: if_splits)

interpretation budgets: atomic_service empty_budgets budget_step budgets_good
proof
  show "budgets_good empty_budgets" by (simp add: budgets_good_def empty_budgets_def)
  fix v c assume "budgets_good v"
  then show "budgets_good (snd (budget_step c v))"
    using setTenantDefaults_step [OF surjective_pairing] setSessionBudget_step [OF surjective_pairing]
      clearSessionBudget_step [OF surjective_pairing]
    by (cases c) (simp_all add: budget_step_def split_beta)
next
  fix c v e v' assume s: "budget_step c v = (Inl e, v')"
  show "v' = v"
  proof (cases c)
    case (CallTenant now t i)
    then obtain e' where "setTenantDefaults now t i v = (Inl e', v')"
      using s by (cases "setTenantDefaults now t i v"; cases "fst (setTenantDefaults now t i v)") (auto simp: budget_step_def)
    then show ?thesis using setTenantDefaults_step by fastforce
  next
    case (CallSession now t x w b i)
    then obtain e' where "setSessionBudget now t x w b i v = (Inl e', v')"
      using s by (cases "setSessionBudget now t x w b i v"; cases "fst (setSessionBudget now t x w b i v)") (auto simp: budget_step_def)
    then show ?thesis using setSessionBudget_step by fastforce
  next
    case (CallClear t x)
    then show ?thesis using s by (auto simp: budget_step_def clearSessionBudget_def Let_def split: if_splits)
  qed
qed

section \<open>Properties\<close>

text \<open>A refused budget call changes nothing any later reader sees, and every budget the service can hold, on
  disk or in memory, has positive caps within their bounds and a warning before the wall.\<close>

theorem budget_calls_atomic:
  assumes "durable_reach empty_budgets fits budget_step st"
    and "durable_mutate empty_budgets fits written (budget_step c) st = (Inl (Rejected e), st')"
  shows "durable_view empty_budgets st' = durable_view empty_budgets st
    \<and> (case durable_view empty_budgets st' of None \<Rightarrow> True
        | Some v \<Rightarrow> list_all (\<lambda>x. limits_good (so_limits x)) (bg_overrides v)
            \<and> list_all (\<lambda>d. limits_good (tb_limits d)) (bg_defaults v))"
proof -
  have v: "durable_view empty_budgets st' = durable_view empty_budgets st" by (rule budgets.rejected_view [OF assms(2)])
  have "budgets_good x" if "durable_view empty_budgets st = Some x" for x
    using budgets.reach_good [OF assms(1)] that durable_read_value_good [of budgets_good empty_budgets st x] budgets.good_create
    by (simp add: durable_view_def)
  then show ?thesis using v by (auto simp: budgets_good_def list_all_iff split: option.split)
qed

definition no_limits :: limits_input where
  "no_limits = \<lparr>ln_maxUsd = None, ln_maxTokens = None, ln_warnAtFraction = None, ln_onExceeded = None\<rparr>"

lemma budget_calls_atomic_witness:
  "\<exists>st'. durable_mutate empty_budgets (\<lambda>_. True) True (budget_step (CallSession 1 ''t'' ''s'' ''why'' None no_limits))
      \<lparr>cached = None, disk = Absent\<rparr> = (Inl (Rejected NoCap), st')
    \<and> durable_view empty_budgets st' = Some empty_budgets"
proof -
  let ?st = "\<lparr>cached = None, disk = Absent\<rparr> :: budget_state durable"
  let ?m = "durable_mutate empty_budgets (\<lambda>_. True) True (budget_step (CallSession 1 ''t'' ''s'' ''why'' None no_limits)) ?st"
  have "fst ?m = Inl (Rejected NoCap)" by code_simp
  then have m: "?m = (Inl (Rejected NoCap), snd ?m)" by (metis prod.collapse)
  have "durable_view empty_budgets ?st = Some empty_budgets" by (simp add: durable_view_def durable_read_def)
  with budget_calls_atomic [OF durable_reach.fresh m] m show ?thesis by auto
qed

text \<open>C28. A session is blocked exactly when a cap that applies to it is reached under a blocking policy; a model
  without a price never trips the money cap, but still trips the token cap, and a session override hides the
  tenant's defaults.\<close>

theorem budget_blocks_exactly:
  assumes "budgets_good st" and "0 \<le> spent" and "0 \<le> used"
  shows "ve_blocked (budget_evaluate tenant session spent used unpriced st) \<longleftrightarrow>
    (case snd (applicable tenant session st) of None \<Rightarrow> False
     | Some l \<Rightarrow> li_onExceeded l = Block
         \<and> ((case li_maxUsd l of None \<Rightarrow> False | Some u \<Rightarrow> \<not> unpriced \<and> u \<le> spent)
            \<or> (case li_maxTokens l of None \<Rightarrow> False | Some t \<Rightarrow> t \<le> used)))"
proof (cases "applicable tenant session st")
  case (Pair source l)
  show ?thesis
  proof (cases l)
    case None
    then show ?thesis using Pair by (simp add: budget_evaluate_def)
  next
    case (Some l')
    have good: "limits_good l'"
      using assms(1) Pair Some unfolding applicable_def budgets_good_def list_all_iff
      by (auto dest!: find_Some_mem split: option.splits)
    have usd: "0 < u" if "li_maxUsd l' = Some u" for u using good that by (simp add: limits_good_def)
    have tok: "0 < t" if "li_maxTokens l' = Some t" for t using good that by (simp add: limits_good_def)
    show ?thesis using Pair Some usd tok assms(2,3)
      by (cases "li_maxUsd l'"; cases "li_maxTokens l'")
        (auto simp: budget_evaluate_def Let_def le_max_iff_disj le_divide_eq)
  qed
qed

definition demo_budgets :: budget_state where
  "demo_budgets = snd (setSessionBudget 1 ''t'' ''s'' ''why'' None (no_limits\<lparr>ln_maxUsd := Some 5, ln_maxTokens := Some 100\<rparr>) empty_budgets)"

lemma budget_blocks_exactly_witness:
  "\<not> ve_blocked (budget_evaluate ''t'' ''s'' 7 50 True demo_budgets) \<and> ve_blocked (budget_evaluate ''t'' ''s'' 7 50 False demo_budgets)"
proof -
  have "budgets_good empty_budgets" by (rule budgets.good_create)
  then have g: "budgets_good demo_budgets"
    using setSessionBudget_step [OF surjective_pairing] unfolding demo_budgets_def by blast
  have a: "snd (applicable ''t'' ''s'' demo_budgets) = Some \<lparr>li_maxUsd = Some 5, li_maxTokens = Some 100,
      li_warnAtFraction = 8 / 10, li_onExceeded = Block\<rparr>" by code_simp
  show ?thesis
    using budget_blocks_exactly [OF g, of 7 50 "''t''" "''s''" True] budget_blocks_exactly [OF g, of 7 50 "''t''" "''s''" False]
    unfolding a by simp
qed

end
