(* ===== verification/AutoApproval.thy ===== *)
theory AutoApproval
  imports AuroraState Types
begin

text \<open>
  Reviewed automatic approvals, \<^verbatim>\<open>policy/auto-approval.ts\<close>: the rules of a tenant, the log of what was
  answered automatically and what was handed to a person, and the review of one request. The state is
  a durable JSON file and every write validates first (\<^verbatim>\<open>atomic_service\<close>). A review reads the rules once
  and writes twice, so the three accesses are separate operations of the store. Whether a regular
  expression compiles, and whether it matches the JSON text of a preview, are given (\<open>compiles\<close>, \<open>hit\<close>).
\<close>

section \<open>State\<close>

definition MAX_RULES_PER_TENANT :: nat where "MAX_RULES_PER_TENANT = 50"

definition MAX_DECISIONS :: nat where "MAX_DECISIONS = 500"

definition NEVER_AUTO_APPROVED :: "capability_risk list" where "NEVER_AUTO_APPROVED = [Privileged]"

record auto_rule =
  au_id :: id
  au_tenantId :: string
  au_capabilityPattern :: string
  au_riskClasses :: "capability_risk list"
  au_argumentPatterns :: "string list"
  au_refusePatterns :: "string list"
  au_sessionIds :: "id list"
  au_rationale :: string
  au_enabled :: bool
  au_maxUses :: "int option"
  au_uses :: int
  au_expiresAt :: "msec option"
  au_createdBy :: string
  au_createdAt :: msec
  au_updatedAt :: msec
  au_proposedByAgent :: bool

record auto_decision =
  ad_id :: id
  ad_tenantId :: string
  ad_sessionId :: id
  ad_capabilityId :: string
  ad_risk :: capability_risk
  ad_autoApproved :: bool
  ad_ruleId :: "id option"
  ad_rationale :: string
  ad_argumentsPreview :: json
  ad_decidedAt :: msec
  ad_sequence :: nat

record auto_state =
  as_rules :: "auto_rule list"
  as_decisions :: "auto_decision list"
  as_sequence :: nat

definition empty_auto :: auto_state where
  "empty_auto = \<lparr>as_rules = [], as_decisions = [], as_sequence = 0\<rparr>"

record auto_answer =
  rv_autoApproved :: bool
  rv_rationale :: string
  rv_ruleId :: "id option"

datatype auto_error =
    AutoText aurora_error
  | NamesEverything
  | NeverAutomatic capability_risk
  | BadPattern string
  | TooManyRules
  | BadExpiry
  | RuleNotFound

section \<open>Rules\<close>

definition pattern_char :: "char \<Rightarrow> bool" where
  "pattern_char c = (let n = (of_char c :: nat) in
     (65 \<le> n \<and> n \<le> 90) \<or> (97 \<le> n \<and> n \<le> 122) \<or> (48 \<le> n \<and> n \<le> 57) \<or> c \<in> set ''_.:-'')"

text \<open>\<^verbatim>\<open>/^[A-Za-z0-9_.:-]+(\.\*)?$/\<close>, and neither \<^verbatim>\<open>*\<close> nor \<^verbatim>\<open>.*\<close>.\<close>

definition names_something :: "string \<Rightarrow> bool" where
  "names_something p = (let body = (if ends_with p ''.*'' then take (length p - 2) p else p)
     in p \<noteq> ''*'' \<and> p \<noteq> ''.*'' \<and> body \<noteq> [] \<and> list_all pattern_char body)"

definition matchesCapability :: "string \<Rightarrow> string \<Rightarrow> bool" where
  "matchesCapability pattern capabilityId =
     (if ends_with pattern ''.*'' then starts_with capabilityId (take (length pattern - 1) pattern)
      else pattern = capabilityId)"

definition check_risk :: "capability_risk \<Rightarrow> (auto_error, capability_risk) result" where
  "check_risk risk = (if risk \<in> set NEVER_AUTO_APPROVED then throw (NeverAutomatic risk) else ok risk)"

definition text_or :: "string \<Rightarrow> nat \<Rightarrow> string \<Rightarrow> (auto_error, string) result" where
  "text_or value mx label = map_sum AutoText (\<lambda>t. t) (auroraText value mx label)"

definition compilePattern :: "(string \<Rightarrow> bool) \<Rightarrow> string \<Rightarrow> (auto_error, string) result" where
  "compilePattern compiles pattern =
     (case text_or pattern 300 ''Argument pattern'' of Inl e \<Rightarrow> throw e
      | Inr t \<Rightarrow> if compiles t then ok t else throw (BadPattern t))"

record rule_input =
  ri_tenantId :: string
  ri_capabilityPattern :: string
  ri_rationale :: string
  ri_id :: "id option"
  ri_riskClasses :: "capability_risk list"
  ri_argumentPatterns :: "string list"
  ri_refusePatterns :: "string list"
  ri_sessionIds :: "string list"
  ri_enabled :: "bool option"
  ri_maxUses :: "int option"
  ri_expiresAt :: "msec option option"
  ri_createdBy :: "string option"
  ri_proposedByAgent :: "bool option"

text \<open>\<open>ri_expiresAt = Some None\<close> is a text that is not a date. The rule that the operation on the state builds:\<close>

definition existing_rule :: "rule_input \<Rightarrow> string \<Rightarrow> auto_state \<Rightarrow> auto_rule option" where
  "existing_rule i tenant st =
     (case ri_id i of None \<Rightarrow> None | Some [] \<Rightarrow> None
      | Some k \<Rightarrow> List.find (\<lambda>r. au_id r = k \<and> au_tenantId r = tenant) (as_rules st))"

definition check_maxUses :: "int option \<Rightarrow> (auto_error, int option) result" where
  "check_maxUses n = (case n of None \<Rightarrow> ok None
     | Some k \<Rightarrow> map_sum AutoText Some (auroraInteger k 1 10000 ''Rule use budget''))"

definition check_expiry :: "msec option option \<Rightarrow> (auto_error, msec option) result" where
  "check_expiry x = (case x of None \<Rightarrow> ok None | Some None \<Rightarrow> throw BadExpiry | Some (Some t) \<Rightarrow> ok (Some t))"

definition build_rule ::
    "id \<Rightarrow> msec \<Rightarrow> rule_input \<Rightarrow> string \<Rightarrow> string \<Rightarrow> capability_risk list \<Rightarrow> auto_rule option \<Rightarrow> (auto_error, auto_rule) result" where
  "build_rule fresh now i tenant pattern risks existing =
     (let proposed = (case ri_proposedByAgent i of Some True \<Rightarrow> True | _ \<Rightarrow> False) in
      case map_ok (\<lambda>s. text_or s 200 ''Session ID'') (take 20 (ri_sessionIds i)) of
        Inl e \<Rightarrow> throw e
      | Inr sessions \<Rightarrow>
        (case text_or (ri_rationale i) 2000 ''Rule rationale'' of
           Inl e \<Rightarrow> throw e
         | Inr why \<Rightarrow>
           (case check_maxUses (ri_maxUses i) of
              Inl e \<Rightarrow> throw e
            | Inr mx \<Rightarrow>
              (case check_expiry (ri_expiresAt i) of
                 Inl e \<Rightarrow> throw e
               | Inr expires \<Rightarrow>
                 (case text_or (case ri_createdBy i of Some b \<Rightarrow> b | None \<Rightarrow> if proposed then ''agent'' else ''operator'')
                         200 ''Rule author'' of
                    Inl e \<Rightarrow> throw e
                  | Inr author \<Rightarrow>
                      ok \<lparr>au_id = (case existing of Some r \<Rightarrow> au_id r | None \<Rightarrow> fresh), au_tenantId = tenant,
                        au_capabilityPattern = pattern, au_riskClasses = risks,
                        au_argumentPatterns = take 10 (ri_argumentPatterns i), au_refusePatterns = take 10 (ri_refusePatterns i),
                        au_sessionIds = sessions, au_rationale = why,
                        au_enabled = (if proposed then False else case ri_enabled i of None \<Rightarrow> True | Some b \<Rightarrow> b),
                        au_maxUses = mx, au_uses = (case existing of Some r \<Rightarrow> au_uses r | None \<Rightarrow> 0),
                        au_expiresAt = expires, au_createdBy = author,
                        au_createdAt = (case existing of Some r \<Rightarrow> au_createdAt r | None \<Rightarrow> now), au_updatedAt = now,
                        au_proposedByAgent = (case ri_proposedByAgent i of Some b \<Rightarrow> b
                           | None \<Rightarrow> (case existing of Some r \<Rightarrow> au_proposedByAgent r | None \<Rightarrow> False))\<rparr>)))))"

definition store_rule :: "auto_rule option \<Rightarrow> string \<Rightarrow> auto_rule \<Rightarrow> auto_state \<Rightarrow> auto_state" where
  "store_rule existing tenant rule st =
     (case existing of
        Some old \<Rightarrow> st\<lparr>as_rules := update_first (\<lambda>r. au_id r = au_id old \<and> au_tenantId r = tenant) (\<lambda>_. rule) (as_rules st)\<rparr>
      | None \<Rightarrow> st\<lparr>as_rules := as_rules st @ [rule]\<rparr>)"

definition upsertRule ::
    "(string \<Rightarrow> bool) \<Rightarrow> id \<Rightarrow> msec \<Rightarrow> rule_input \<Rightarrow> auto_state \<Rightarrow> (auto_error, auto_rule) result \<times> auto_state" where
  "upsertRule compiles fresh now i st =
     (case text_or (ri_tenantId i) 200 ''Tenant ID'' of
        Inl e \<Rightarrow> (throw e, st)
      | Inr tenant \<Rightarrow>
        (case text_or (ri_capabilityPattern i) 200 ''Capability pattern'' of
           Inl e \<Rightarrow> (throw e, st)
         | Inr pattern \<Rightarrow>
             if \<not> names_something pattern then (throw NamesEverything, st)
             else
               (case map_ok check_risk (ri_riskClasses i) of
                  Inl e \<Rightarrow> (throw e, st)
                | Inr risks \<Rightarrow>
                  (case map_ok (compilePattern compiles) (take 10 (ri_argumentPatterns i) @ take 10 (ri_refusePatterns i)) of
                     Inl e \<Rightarrow> (throw e, st)
                   | Inr _ \<Rightarrow>
                       let existing = existing_rule i tenant st in
                       if existing = None \<and> length (filter (\<lambda>r. au_tenantId r = tenant) (as_rules st)) \<ge> MAX_RULES_PER_TENANT
                       then (throw TooManyRules, st)
                       else
                         (case build_rule fresh now i tenant pattern risks existing of
                            Inl e \<Rightarrow> (throw e, st)
                          | Inr rule \<Rightarrow> (ok rule, store_rule existing tenant rule st))))))"

definition setEnabled :: "msec \<Rightarrow> string \<Rightarrow> id \<Rightarrow> bool \<Rightarrow> auto_state \<Rightarrow> (auto_error, auto_rule) result \<times> auto_state" where
  "setEnabled now tenant ruleId b st =
     (let this = (\<lambda>r. au_id r = ruleId \<and> au_tenantId r = tenant);
          change = (\<lambda>r. r\<lparr>au_enabled := b, au_updatedAt := now\<rparr>)
      in case List.find this (as_rules st) of
           None \<Rightarrow> (throw RuleNotFound, st)
         | Some r \<Rightarrow> (ok (change r), st\<lparr>as_rules := update_first this change (as_rules st)\<rparr>))"

definition removeRule :: "string \<Rightarrow> id \<Rightarrow> auto_state \<Rightarrow> (auto_error, bool) result \<times> auto_state" where
  "removeRule tenant ruleId st =
     (let this = (\<lambda>r. au_id r = ruleId \<and> au_tenantId r = tenant) in
      if list_ex this (as_rules st) then (ok True, st\<lparr>as_rules := remove_first this (as_rules st)\<rparr>) else (ok False, st))"

definition listRules :: "string \<Rightarrow> auto_state \<Rightarrow> auto_rule list" where
  "listRules tenant st = filter (\<lambda>r. au_tenantId r = tenant) (as_rules st)"

definition listDecisions ::
    "string \<Rightarrow> id option \<Rightarrow> int option \<Rightarrow> auto_state \<Rightarrow> (auto_error, auto_decision list) result" where
  "listDecisions tenant session lim' st =
     (let mine = filter (\<lambda>d. case session of None \<Rightarrow> True | Some [] \<Rightarrow> True | Some s \<Rightarrow> ad_sessionId d = s)
                   (filter (\<lambda>d. ad_tenantId d = tenant) (as_decisions st))
      in case auroraInteger (case lim' of None \<Rightarrow> 50 | Some n \<Rightarrow> n) 1 (int MAX_DECISIONS) ''Decision limit'' of
           Inl e \<Rightarrow> throw (AutoText e)
         | Inr n \<Rightarrow> ok (take (nat n) (sort_key (\<lambda>d. - int (ad_sequence d)) mine)))"

section \<open>The review of a request\<close>

text \<open>The two writes of a review: a use of a rule, and the record of the answer.\<close>

definition use_rule :: "msec \<Rightarrow> id \<Rightarrow> auto_state \<Rightarrow> auto_state" where
  "use_rule now ruleId st = st\<lparr>as_rules := update_first (\<lambda>r. au_id r = ruleId)
     (\<lambda>r. r\<lparr>au_uses := au_uses r + 1, au_updatedAt := now\<rparr>) (as_rules st)\<rparr>"

definition record_review :: "id \<Rightarrow> msec \<Rightarrow> approval_request \<Rightarrow> auto_answer \<Rightarrow> auto_state \<Rightarrow> auto_state" where
  "record_review fresh now request rv st =
     (let d = \<lparr>ad_id = fresh, ad_tenantId = ar_tenantId request, ad_sessionId = ar_sessionId request,
          ad_capabilityId = ar_capabilityId request, ad_risk = ar_risk request, ad_autoApproved = rv_autoApproved rv,
          ad_ruleId = rv_ruleId rv, ad_rationale = rv_rationale rv, ad_argumentsPreview = ar_argumentsPreview request,
          ad_decidedAt = now, ad_sequence = as_sequence st + 1\<rparr>
      in st\<lparr>as_decisions := take_last MAX_DECISIONS (as_decisions st @ [d]), as_sequence := as_sequence st + 1\<rparr>)"

text \<open>The loop over the enabled rules of the tenant.\<close>

definition rule_covers :: "msec \<Rightarrow> approval_request \<Rightarrow> auto_rule \<Rightarrow> bool" where
  "rule_covers now request rule =
     (matchesCapability (au_capabilityPattern rule) (ar_capabilityId request)
      \<and> (au_riskClasses rule = [] \<or> ar_risk request \<in> set (au_riskClasses rule))
      \<and> (au_sessionIds rule = [] \<or> ar_sessionId request \<in> set (au_sessionIds rule))
      \<and> (case au_expiresAt rule of None \<Rightarrow> True | Some t \<Rightarrow> now < t)
      \<and> (case au_maxUses rule of None \<Rightarrow> True | Some n \<Rightarrow> au_uses rule < n))"

fun review_rules ::
    "(string \<Rightarrow> json \<Rightarrow> bool) \<Rightarrow> msec \<Rightarrow> approval_request \<Rightarrow> auto_rule list \<Rightarrow> auto_answer" where
  "review_rules hit now request [] =
     \<lparr>rv_autoApproved = False, rv_rationale = ''No reviewed rule covers this request.'', rv_ruleId = None\<rparr>"
| "review_rules hit now request (rule # rules) =
     (if \<not> rule_covers now request rule then review_rules hit now request rules
      else if list_ex (\<lambda>p. hit p (ar_argumentsPreview request)) (au_refusePatterns rule) then
        \<lparr>rv_autoApproved = False, rv_rationale = ''Rule '' @ au_id rule @
           '' matched but its refusal pattern fired; escalated to a human.'', rv_ruleId = Some (au_id rule)\<rparr>
      else if \<not> list_all (\<lambda>p. hit p (ar_argumentsPreview request)) (au_argumentPatterns rule)
        then review_rules hit now request rules
      else \<lparr>rv_autoApproved = True, rv_rationale = au_rationale rule, rv_ruleId = Some (au_id rule)\<rparr>)"

definition review_candidates :: "approval_request \<Rightarrow> auto_state \<Rightarrow> auto_rule list" where
  "review_candidates request st = filter (\<lambda>r. au_tenantId r = ar_tenantId request \<and> au_enabled r) (as_rules st)"

text \<open>\<open>allowed = None\<close>: no check is bound; a check that rejects counts as a refusal. \<open>Inl\<close> is an answer given
  before the rules are read.\<close>

definition review_gate :: "bool option \<Rightarrow> approval_request \<Rightarrow> (auto_answer, unit) result" where
  "review_gate allowed request =
     (if ar_risk request \<in> set NEVER_AUTO_APPROVED then
        throw \<lparr>rv_autoApproved = False, rv_rationale = ''Risk class \"privileged\" always needs a human.'', rv_ruleId = None\<rparr>
      else if allowed = Some False then
        throw \<lparr>rv_autoApproved = False, rv_rationale = ''Automatic approvals are disabled for this tenant.'', rv_ruleId = None\<rparr>
      else ok ())"

section \<open>The service as a client of the durable store\<close>

datatype auto_call =
    CallUpsert id msec rule_input
  | CallEnable msec string id bool
  | CallRemove string id
  | CallUse msec id
  | CallRecord id msec approval_request auto_answer

datatype auto_reply = ReplyRule auto_rule | ReplyRemoved bool | ReplyDone

definition auto_step :: "(string \<Rightarrow> bool) \<Rightarrow> auto_call \<Rightarrow> auto_state \<Rightarrow> (auto_error, auto_reply) result \<times> auto_state" where
  "auto_step compiles call st =
     (case call of
        CallUpsert k now i \<Rightarrow> (case upsertRule compiles k now i st of (r, st') \<Rightarrow> (map_sum id ReplyRule r, st'))
      | CallEnable now t k b \<Rightarrow> (case setEnabled now t k b st of (r, st') \<Rightarrow> (map_sum id ReplyRule r, st'))
      | CallRemove t k \<Rightarrow> (case removeRule t k st of (r, st') \<Rightarrow> (map_sum id ReplyRemoved r, st'))
      | CallUse now k \<Rightarrow> (ok ReplyDone, use_rule now k st)
      | CallRecord k now request rv \<Rightarrow> (ok ReplyDone, record_review k now request rv st))"

text \<open>\<^verbatim>\<open>review\<close> with nothing in between its accesses; \<open>wrote\<close> says for each of the two writes whether the file
  system accepted it. \<open>None\<close> is a throw, which the approval service takes as no answer.\<close>

definition review_request ::
    "(string \<Rightarrow> bool) \<Rightarrow> (string \<Rightarrow> json \<Rightarrow> bool) \<Rightarrow> (auto_state \<Rightarrow> bool) \<Rightarrow> bool \<times> bool \<Rightarrow> bool option \<Rightarrow> id \<Rightarrow> msec
       \<Rightarrow> approval_request \<Rightarrow> auto_state durable \<Rightarrow> auto_answer option \<times> auto_state durable" where
  "review_request compiles hit fits wrote allowed fresh now request st =
     (let note = (\<lambda>rv st. case durable_mutate empty_auto fits (snd wrote) (auto_step compiles (CallRecord fresh now request rv)) st of
            (Inl e, st') \<Rightarrow> (None, st')
          | (Inr r, st') \<Rightarrow> (Some rv, st'))
      in case review_gate allowed request of
           Inl rv \<Rightarrow> note rv st
         | Inr u \<Rightarrow>
             (case durable_read empty_auto st of
                (None, st') \<Rightarrow> (None, st')
              | (Some v, st') \<Rightarrow>
                  let rv = review_rules hit now request (review_candidates request v) in
                  if rv_autoApproved rv then
                    (case durable_mutate empty_auto fits (fst wrote)
                        (auto_step compiles (CallUse now (case rv_ruleId rv of Some k \<Rightarrow> k | None \<Rightarrow> []))) st' of
                       (Inl e, st'') \<Rightarrow> (None, st'')
                     | (Inr r, st'') \<Rightarrow> note rv st'')
                  else note rv st'))"

section \<open>What the service keeps\<close>

definition rule_good :: "auto_rule \<Rightarrow> bool" where
  "rule_good r \<longleftrightarrow> names_something (au_capabilityPattern r) \<and> Privileged \<notin> set (au_riskClasses r)
     \<and> js_trim (au_rationale r) = au_rationale r \<and> au_rationale r \<noteq> [] \<and> length (au_rationale r) \<le> 2000 \<and> 0 \<le> au_uses r"

definition tenant_rules :: "string \<Rightarrow> auto_rule list \<Rightarrow> nat" where
  "tenant_rules tenant rs = length (filter (\<lambda>r. au_tenantId r = tenant) rs)"

definition auto_good :: "auto_state \<Rightarrow> bool" where
  "auto_good st \<longleftrightarrow> list_all rule_good (as_rules st) \<and> (\<forall>t. tenant_rules t (as_rules st) \<le> MAX_RULES_PER_TENANT)
     \<and> length (as_decisions st) \<le> MAX_DECISIONS \<and> length (as_decisions st) \<le> as_sequence st
     \<and> map ad_sequence (as_decisions st) = [Suc (as_sequence st) - length (as_decisions st) ..< Suc (as_sequence st)]"

lemma text_or_ok: "text_or v mx l = Inr t \<longleftrightarrow> t = js_trim v \<and> t \<noteq> [] \<and> length t \<le> mx \<and> \<not> list_ex control_char t"
  by (cases "auroraText v mx l") (auto simp: text_or_def auroraText_def Let_def split: if_splits)

lemma tenant_rules_update_first:
  assumes "\<And>r. p r \<Longrightarrow> au_tenantId (f r) = au_tenantId r"
  shows "tenant_rules t (update_first p f rs) = tenant_rules t rs"
  using assms by (induction rs) (auto simp: tenant_rules_def)

lemma build_rule_good:
  assumes "build_rule k now i tenant pattern risks existing = Inr r" and "names_something pattern"
    and "Privileged \<notin> set risks" and "\<And>old. existing = Some old \<Longrightarrow> 0 \<le> au_uses old"
  shows "rule_good r \<and> au_tenantId r = tenant"
  using assms by (auto simp: build_rule_def Let_def rule_good_def text_or_ok split: sum.splits option.splits)

lemma check_risks_ok: "map_ok check_risk xs = Inr ys \<Longrightarrow> Privileged \<notin> set ys"
  by (induction xs arbitrary: ys) (auto simp: check_risk_def NEVER_AUTO_APPROVED_def split: sum.splits if_splits)

lemma existing_ruleD: "existing_rule i tenant st = Some r \<Longrightarrow> r \<in> set (as_rules st) \<and> au_tenantId r = tenant"
  by (auto simp: existing_rule_def dest!: find_Some_mem split: option.splits list.splits)

lemma store_rule_good:
  assumes good: "auto_good st" and new: "rule_good r \<and> au_tenantId r = tenant"
    and ex: "existing = existing_rule i tenant st"
    and room: "existing = None \<Longrightarrow> tenant_rules tenant (as_rules st) < MAX_RULES_PER_TENANT"
  shows "auto_good (store_rule existing tenant r st)"
proof (cases existing)
  case None
  have "tenant_rules t (as_rules st @ [r]) \<le> MAX_RULES_PER_TENANT" for t
  proof (cases "t = tenant")
    case True
    then show ?thesis using room [OF None] new by (simp add: tenant_rules_def)
  next
    case False
    then have "tenant_rules t (as_rules st @ [r]) = tenant_rules t (as_rules st)" using new by (simp add: tenant_rules_def)
    then show ?thesis using good by (simp add: auto_good_def)
  qed
  then show ?thesis using good new None by (simp add: auto_good_def store_rule_def)
next
  case (Some old)
  have "tenant_rules t (update_first (\<lambda>x. au_id x = au_id old \<and> au_tenantId x = tenant) (\<lambda>_. r) (as_rules st))
      = tenant_rules t (as_rules st)" for t
    using new by (intro tenant_rules_update_first) simp
  moreover have "list_all rule_good (update_first (\<lambda>x. au_id x = au_id old \<and> au_tenantId x = tenant) (\<lambda>_. r) (as_rules st))"
    using good new by (intro update_first_all) (auto simp: auto_good_def)
  ultimately show ?thesis using good Some by (simp add: auto_good_def store_rule_def)
qed

lemma upsertRule_step:
  assumes "upsertRule compiles k now i st = (r, st')"
  shows "(isl r \<longrightarrow> st' = st) \<and> (auto_good st \<longrightarrow> auto_good st')"
proof (cases r)
  case (Inl e)
  then show ?thesis using assms by (auto simp: upsertRule_def Let_def split: sum.splits if_splits)
next
  case (Inr rule)
  obtain tenant pattern risks where o: "names_something pattern" "map_ok check_risk (ri_riskClasses i) = Inr risks"
    "\<not> (existing_rule i tenant st = None \<and> tenant_rules tenant (as_rules st) \<ge> MAX_RULES_PER_TENANT)"
    "build_rule k now i tenant pattern risks (existing_rule i tenant st) = Inr rule"
    "st' = store_rule (existing_rule i tenant st) tenant rule st"
    using assms Inr by (auto simp: upsertRule_def tenant_rules_def Let_def split: sum.splits if_splits)
  have "auto_good st'" if good: "auto_good st"
    unfolding o(5)
  proof (rule store_rule_good [OF good _ refl])
    have "0 \<le> au_uses old" if "existing_rule i tenant st = Some old" for old
      using existing_ruleD [OF that] good by (auto simp: auto_good_def list_all_iff rule_good_def)
    then show "rule_good rule \<and> au_tenantId rule = tenant"
      by (rule build_rule_good [OF o(4) o(1) check_risks_ok [OF o(2)]])
  qed (use o(3) in auto)
  then show ?thesis using Inr by simp
qed

lemma setEnabled_step:
  assumes "setEnabled now tenant k b st = (r, st')"
  shows "(isl r \<longrightarrow> st' = st) \<and> (auto_good st \<longrightarrow> auto_good st')"
proof (cases "List.find (\<lambda>r. au_id r = k \<and> au_tenantId r = tenant) (as_rules st)")
  case None
  then show ?thesis using assms by (auto simp: setEnabled_def Let_def)
next
  case (Some x)
  let ?rs = "update_first (\<lambda>r. au_id r = k \<and> au_tenantId r = tenant) (\<lambda>r. r\<lparr>au_enabled := b, au_updatedAt := now\<rparr>) (as_rules st)"
  have "tenant_rules t ?rs = tenant_rules t (as_rules st)" for t by (intro tenant_rules_update_first) simp
  moreover have "auto_good st \<Longrightarrow> list_all rule_good ?rs"
    by (intro update_first_all) (auto simp: auto_good_def rule_good_def)
  ultimately show ?thesis using assms Some by (auto simp: setEnabled_def Let_def auto_good_def)
qed

lemma removeRule_step:
  assumes "removeRule tenant k st = (r, st')"
  shows "(isl r \<longrightarrow> st' = st) \<and> (auto_good st \<longrightarrow> auto_good st')"
proof -
  let ?p = "\<lambda>r. au_id r = k \<and> au_tenantId r = tenant"
  have "tenant_rules t (remove_first ?p rs) \<le> tenant_rules t rs" for t rs
    by (induction rs) (auto simp: tenant_rules_def)
  then have "(\<And>t. tenant_rules t (as_rules st) \<le> m) \<Longrightarrow> tenant_rules t (remove_first ?p (as_rules st)) \<le> m" for m t
    by (meson le_trans)
  then have "auto_good st \<Longrightarrow> auto_good (st\<lparr>as_rules := remove_first ?p (as_rules st)\<rparr>)"
    using set_remove_first [of ?p "as_rules st"] by (auto simp: auto_good_def list_all_iff simp del: upt_Suc)
  then show ?thesis using assms by (auto simp: removeRule_def Let_def split: if_splits)
qed

lemma use_rule_good:
  assumes "auto_good st"
  shows "auto_good (use_rule now k st)"
proof -
  let ?rs = "update_first (\<lambda>r. au_id r = k) (\<lambda>r. r\<lparr>au_uses := au_uses r + 1, au_updatedAt := now\<rparr>) (as_rules st)"
  have "tenant_rules t ?rs = tenant_rules t (as_rules st)" for t by (intro tenant_rules_update_first) simp
  moreover have "list_all rule_good ?rs"
    using assms by (intro update_first_all) (auto simp: auto_good_def rule_good_def)
  ultimately show ?thesis using assms by (simp add: use_rule_def auto_good_def)
qed

lemma record_review_good:
  assumes "auto_good st"
  shows "auto_good (record_review k now request rv st)"
proof -
  let ?st = "record_review k now request rv st"
  let ?n = "length (as_decisions st)" and ?s = "as_sequence st"
  have pos: "0 < MAX_DECISIONS" by (simp add: MAX_DECISIONS_def)
  have n: "?n \<le> ?s" "map ad_sequence (as_decisions st) = [Suc ?s - ?n ..< Suc ?s]" using assms by (auto simp: auto_good_def)
  have d: "map ad_sequence (as_decisions ?st) = take_last MAX_DECISIONS ([Suc ?s - ?n ..< Suc ?s] @ [Suc ?s])"
    using n(2) by (simp add: record_review_def Let_def map_take_last del: upt_Suc)
  have e: "[Suc ?s - ?n ..< Suc ?s] @ [Suc ?s] = [Suc (Suc ?s) - Suc ?n ..< Suc (Suc ?s)]" using n(1) by simp
  have "map ad_sequence (as_decisions ?st) = [Suc (Suc ?s) - min MAX_DECISIONS (Suc ?n) ..< Suc (Suc ?s)]"
    unfolding d e by (rule take_last_upt) (use n(1) in linarith)
  then show ?thesis using assms n(1) by (auto simp: auto_good_def record_review_def Let_def simp del: upt_Suc)
qed

interpretation automatic: atomic_service empty_auto "auto_step compiles" auto_good
  for compiles
proof
  show "auto_good empty_auto" by (simp add: auto_good_def empty_auto_def tenant_rules_def)
  fix v c assume "auto_good v"
  then show "auto_good (snd (auto_step compiles c v))"
    using upsertRule_step [OF surjective_pairing] setEnabled_step [OF surjective_pairing] removeRule_step [OF surjective_pairing]
      use_rule_good record_review_good
    by (cases c) (simp_all add: auto_step_def split_beta)
next
  fix c v e v' assume s: "auto_step compiles c v = (Inl e, v')"
  have left: "isl (map_sum f g x) = isl x" for f :: "auto_error \<Rightarrow> auto_error" and g :: "'x \<Rightarrow> auto_reply" and x by (cases x) auto
  have "isl (fst (auto_step compiles c v))" using s by simp
  then have "snd (auto_step compiles c v) = v"
    using upsertRule_step [OF surjective_pairing] setEnabled_step [OF surjective_pairing] removeRule_step [OF surjective_pairing]
    by (cases c) (simp_all add: auto_step_def split_beta left)
  then show "v' = v" using s by simp
qed

section \<open>Properties\<close>

lemma review_rules_yes:
  "rv_autoApproved (review_rules hit now request rules) \<Longrightarrow>
   \<exists>rule \<in> set rules. rule_covers now request rule
     \<and> \<not> list_ex (\<lambda>p. hit p (ar_argumentsPreview request)) (au_refusePatterns rule)
     \<and> list_all (\<lambda>p. hit p (ar_argumentsPreview request)) (au_argumentPatterns rule)
     \<and> review_rules hit now request rules = \<lparr>rv_autoApproved = True, rv_rationale = au_rationale rule, rv_ruleId = Some (au_id rule)\<rparr>"
  by (induction rules) (auto split: if_splits)

lemma record_logged:
  assumes "durable_mutate empty_auto fits w (auto_step compiles (CallRecord k now request rv)) st = (Inr r, st')"
  shows "\<exists>v d. disk st' = Stored v \<and> as_decisions v \<noteq> [] \<and> d = last (as_decisions v) \<and> ad_autoApproved d = rv_autoApproved rv
    \<and> ad_ruleId d = rv_ruleId rv \<and> ad_rationale d = rv_rationale rv \<and> ad_sessionId d = ar_sessionId request
    \<and> ad_capabilityId d = ar_capabilityId request \<and> ad_sequence d = as_sequence v"
proof -
  obtain u where "disk st' = Stored (record_review k now request rv u)"
    using assms by (auto simp: durable_mutate_def auto_step_def split: prod.splits option.splits if_splits)
  moreover have "0 < MAX_DECISIONS" by (simp add: MAX_DECISIONS_def)
  ultimately show ?thesis by (auto simp: record_review_def Let_def take_last_append)
qed

lemma review_request_cases:
  assumes "review_request compiles hit fits wrote allowed k now request st = (Some rv, st')"
  obtains (gate) "review_gate allowed request = Inl rv"
      "\<exists>r s. durable_mutate empty_auto fits (snd wrote) (auto_step compiles (CallRecord k now request rv)) s = (Inr r, st')"
  | (rules) v where "review_gate allowed request = Inr ()" "fst (durable_read empty_auto st) = Some v"
      "rv = review_rules hit now request (review_candidates request v)"
      "\<exists>r s. durable_mutate empty_auto fits (snd wrote) (auto_step compiles (CallRecord k now request rv)) s = (Inr r, st')"
proof (cases "review_gate allowed request")
  case (Inl a)
  show ?thesis
    by (rule gate) (use assms Inl in \<open>auto simp: review_request_def split: prod.splits sum.splits\<close>)
next
  case (Inr u)
  obtain x s where rd: "durable_read empty_auto st = (x, s)" by fastforce
  obtain v where v: "x = Some v" using assms Inr rd by (cases x) (auto simp: review_request_def)
  show ?thesis
    by (rule rules [of v])
      (use assms Inr rd v in \<open>auto simp: review_request_def Let_def split: prod.splits sum.splits if_splits\<close>)
qed

text \<open>C29. An automatic yes is never given for a privileged capability or while the mechanism is off; it comes
  from an enabled rule of the tenant that names the capability, covers its risk and its session, has not
  expired or run out, is not stopped by a refusal pattern and matches all its argument patterns. The rule
  carries a reason, and the answer is on disk with that reason as the newest entry of the log.\<close>

theorem auto_approval_sound:
  assumes "durable_reach empty_auto fits (auto_step compiles) st"
    and "review_request compiles hit fits wrote allowed k now request st = (Some rv, st')" and "rv_autoApproved rv"
  shows "ar_risk request \<noteq> Privileged \<and> allowed \<noteq> Some False
    \<and> (\<exists>v rule. durable_view empty_auto st = Some v \<and> rule \<in> set (as_rules v) \<and> au_tenantId rule = ar_tenantId request
        \<and> au_enabled rule \<and> names_something (au_capabilityPattern rule) \<and> rule_covers now request rule
        \<and> \<not> list_ex (\<lambda>p. hit p (ar_argumentsPreview request)) (au_refusePatterns rule)
        \<and> list_all (\<lambda>p. hit p (ar_argumentsPreview request)) (au_argumentPatterns rule)
        \<and> rv_ruleId rv = Some (au_id rule) \<and> rv_rationale rv = au_rationale rule \<and> js_trim (au_rationale rule) \<noteq> [])
    \<and> (\<exists>w d. disk st' = Stored w \<and> as_decisions w \<noteq> [] \<and> d = last (as_decisions w) \<and> ad_autoApproved d
        \<and> ad_ruleId d = rv_ruleId rv \<and> ad_rationale d = rv_rationale rv \<and> ad_sequence d = as_sequence w)"
  using assms(2)
proof (cases rule: review_request_cases)
  case gate
  then show ?thesis using assms(3) by (auto simp: review_gate_def split: if_splits)
next
  case (rules v)
  have "auto_good v"
    using durable_read_value_good [of auto_good empty_auto st v] automatic.reach_good [OF assms(1)] automatic.good_create rules(2)
    by blast
  moreover obtain rule where rule: "rule \<in> set (review_candidates request v)" "rule_covers now request rule"
    "\<not> list_ex (\<lambda>p. hit p (ar_argumentsPreview request)) (au_refusePatterns rule)"
    "list_all (\<lambda>p. hit p (ar_argumentsPreview request)) (au_argumentPatterns rule)"
    "rv = \<lparr>rv_autoApproved = True, rv_rationale = au_rationale rule, rv_ruleId = Some (au_id rule)\<rparr>"
    using review_rules_yes assms(3) rules(3) by metis
  ultimately have "rule_good rule" by (auto simp: auto_good_def list_all_iff review_candidates_def)
  moreover obtain r s where "durable_mutate empty_auto fits (snd wrote) (auto_step compiles (CallRecord k now request rv)) s = (Inr r, st')"
    using rules(4) by blast
  note record_logged [OF this]
  ultimately show ?thesis using rules(1,2) rule assms(3)
    by (auto simp: review_gate_def durable_view_def NEVER_AUTO_APPROVED_def review_candidates_def rule_good_def split: if_splits)
qed

definition demo_rule_input :: rule_input where
  "demo_rule_input = \<lparr>ri_tenantId = ''t'', ri_capabilityPattern = ''git.*'', ri_rationale = ''migration'', ri_id = None,
     ri_riskClasses = [], ri_argumentPatterns = [], ri_refusePatterns = [], ri_sessionIds = [], ri_enabled = None,
     ri_maxUses = Some 1, ri_expiresAt = None, ri_createdBy = None, ri_proposedByAgent = None\<rparr>"

definition demo_auto_request :: approval_request where
  "demo_auto_request = \<lparr>ar_id = ''a'', ar_tenantId = ''t'', ar_sessionId = ''s'', ar_turnId = ''u'', ar_toolCallId = ''c'',
     ar_capabilityId = ''git.push'', ar_risk = Network, ar_argumentsPreview = JNull, ar_reason = [], ar_createdAt = 1,
     ar_expiresAt = 2, ar_status = ApPending, ar_autoApproval = None\<rparr>"

definition demo_auto :: "auto_state durable" where
  "demo_auto = snd (durable_mutate empty_auto (\<lambda>_. True) True (auto_step (\<lambda>_. True) (CallUpsert ''r'' 5 demo_rule_input))
     \<lparr>cached = None, disk = Absent\<rparr>)"

lemma auto_approval_sound_witness:
  "\<exists>rv st'. review_request (\<lambda>_. True) (\<lambda>_ _. True) (\<lambda>_. True) (True, True) None ''d'' 7 demo_auto_request demo_auto = (Some rv, st')
     \<and> rv_rationale rv = ''migration''
     \<and> (\<exists>w d. disk st' = Stored w \<and> as_decisions w \<noteq> [] \<and> d = last (as_decisions w) \<and> ad_autoApproved d)"
proof -
  let ?m = "review_request (\<lambda>_. True) (\<lambda>_ _. True) (\<lambda>_. True) (True, True) None ''d'' 7 demo_auto_request demo_auto"
  let ?rv = "\<lparr>rv_autoApproved = True, rv_rationale = ''migration'', rv_ruleId = Some ''r''\<rparr>"
  have r: "durable_reach empty_auto (\<lambda>_. True) (auto_step (\<lambda>_. True)) demo_auto"
    unfolding demo_auto_def by (rule durable_reach.mutate [OF durable_reach.fresh])
  have "fst ?m = Some ?rv" by code_simp
  then have m: "?m = (Some ?rv, snd ?m)" by (metis prod.collapse)
  have "rv_autoApproved ?rv" by simp
  from auto_approval_sound [OF r m this]
  have "\<exists>w d. disk (snd ?m) = Stored w \<and> as_decisions w \<noteq> [] \<and> d = last (as_decisions w) \<and> ad_autoApproved d" by blast
  then show ?thesis using m by (intro exI [of _ ?rv] exI [of _ "snd ?m"]) simp
qed

text \<open>Two reviews that overlap - both read the rules before either writes - answer two requests with a rule
  whose budget is one use: the use is checked on the copy that was read and counted in a later write.\<close>

theorem use_budget_overshot:
  "\<exists>v. as_rules (snd (upsertRule (\<lambda>_. True) ''r'' 5 demo_rule_input empty_auto)) = [v] \<and> au_maxUses v = Some 1
     \<and> (let st = snd (upsertRule (\<lambda>_. True) ''r'' 5 demo_rule_input empty_auto);
            first = review_rules (\<lambda>_ _. True) 7 demo_auto_request (review_candidates demo_auto_request st);
            second = review_rules (\<lambda>_ _. True) 7 demo_auto_request (review_candidates demo_auto_request st);
            after = record_review ''e'' 7 demo_auto_request second (record_review ''d'' 7 demo_auto_request first
              (use_rule 7 ''r'' (use_rule 7 ''r'' st)))
        in rv_autoApproved first \<and> rv_autoApproved second \<and> map au_uses (as_rules after) = [2]
           \<and> map ad_autoApproved (as_decisions after) = [True, True])"
proof -
  let ?v = "hd (as_rules (snd (upsertRule (\<lambda>_. True) ''r'' 5 demo_rule_input empty_auto)))"
  have "as_rules (snd (upsertRule (\<lambda>_. True) ''r'' 5 demo_rule_input empty_auto)) = [?v]" by code_simp
  moreover have "au_maxUses ?v = Some 1" by code_simp
  ultimately show ?thesis by (intro exI [of _ ?v] conjI; code_simp?)
qed

end
