(* ===== verification/Scheduler.thy ===== *)
theory Scheduler
  imports AuroraState
begin

text \<open>
  The durable scheduler, \<^verbatim>\<open>scheduler/scheduler.ts\<close>: jobs kept in a JSON file, the timer's tick that
  fires what is due, and the external provider that fires one occurrence at a time. A tick waits for
  the file and for each dispatched turn, so it is a sequence of steps between which other calls run;
  a restart drops the memory. Cron expressions are read by a third-party parser, given as \<open>cron\<close>.
  A write replaces the file with the jobs as they were when it was asked for; writes end in the order
  they began.
\<close>

section \<open>Schedules\<close>

text \<open>\<open>Once None\<close> is a text that is not a date.\<close>

datatype schedule =
    Once "msec option"
  | Interval int
  | Cron string "string option"

type_synonym cron_parser = "string \<Rightarrow> string option \<Rightarrow> msec \<Rightarrow> (string, msec) result"

definition nextOccurrence :: "cron_parser \<Rightarrow> schedule \<Rightarrow> msec \<Rightarrow> (string, msec option) result" where
  "nextOccurrence cron s after =
     (case s of
        Once date \<Rightarrow> ok (case date of Some t \<Rightarrow> if t > after then Some t else None | None \<Rightarrow> None)
      | Interval every \<Rightarrow> ok (Some (after + every))
      | Cron e tz \<Rightarrow> (case cron e tz after of Inl err \<Rightarrow> throw err | Inr t \<Rightarrow> ok (Some t)))"

datatype job_status = JobActive | JobPaused | JobCompleted | JobCancelled

datatype run_outcome = RunCompleted | RunFailed | RunUncertain

record scheduled_job =
  jb_id :: id
  jb_tenantId :: string
  jb_sessionId :: id
  jb_label :: "string option"
  jb_prompt :: string
  jb_schedule :: schedule
  jb_status :: job_status
  jb_nextRunAt :: "msec option"
  jb_runCount :: nat
  jb_createdAt :: msec
  jb_updatedAt :: msec
  jb_lastRunAt :: "msec option"
  jb_lastOutcome :: "run_outcome option"

section \<open>State\<close>

text \<open>Where a tick is: between calls, going through the due jobs (indices into the array), having saved a
  job and about to dispatch it, or waiting for its turn. \<open>sc_fired\<close> are the commands given to the
  supervisor, each the job and the occurrence its command id names; \<open>None\<close> is \<^verbatim>\<open>undefined\<close>.\<close>

datatype tick_phase =
    NoTick
  | Scanning msec "nat list"
  | Dispatching msec nat "msec option" "nat list"
  | Running msec nat "nat list"

datatype provider_call = Arm id "msec option" | Disarm id

record scheduler =
  sc_jobs :: "scheduled_job list"
  sc_loaded :: bool
  sc_disk :: "scheduled_job list disk_file"
  sc_tick :: tick_phase
  sc_waiting :: "(nat \<times> msec) list"
  sc_fired :: "(id \<times> msec option) list"
  sc_provider :: "provider_call list"

definition new_scheduler :: scheduler where
  "new_scheduler = \<lparr>sc_jobs = [], sc_loaded = False, sc_disk = Absent, sc_tick = NoTick, sc_waiting = [], sc_fired = [], sc_provider = []\<rparr>"

datatype scheduler_error =
    SchedulerUnreadable
  | EmptyPrompt
  | TooFrequent
  | NoFuture
  | CronFailed string
  | JobNotFound id
  | SaveFailed
  | NoProvider

text \<open>\<^verbatim>\<open>load\<close>: what was read takes effect when the read returns.\<close>

definition load_apply :: "scheduled_job list disk_file \<Rightarrow> scheduler \<Rightarrow> (scheduler_error, unit) result \<times> scheduler" where
  "load_apply content st =
     (case content of
        Absent \<Rightarrow> (ok (), st\<lparr>sc_loaded := True\<rparr>)
      | Unloadable \<Rightarrow> (throw SchedulerUnreadable, st)
      | Stored js \<Rightarrow> (ok (), st\<lparr>sc_jobs := js, sc_loaded := True\<rparr>))"

definition sched_load :: "scheduler \<Rightarrow> (scheduler_error, unit) result \<times> scheduler" where
  "sched_load st = (if sc_loaded st then (ok (), st) else load_apply (sc_disk st) st)"

definition sched_save :: "bool \<Rightarrow> scheduler \<Rightarrow> (scheduler_error, unit) result \<times> scheduler" where
  "sched_save io st = (if io then (ok (), st\<lparr>sc_disk := Stored (sc_jobs st)\<rparr>) else (throw SaveFailed, st))"

section \<open>Creating, listing and changing jobs\<close>

record job_input =
  ji_tenantId :: string
  ji_sessionId :: id
  ji_prompt :: string
  ji_schedule :: schedule
  ji_label :: "string option"

definition too_frequent :: "schedule \<Rightarrow> bool" where
  "too_frequent s = (case s of Interval every \<Rightarrow> every < 1000 | _ \<Rightarrow> False)"

definition new_job :: "id \<Rightarrow> msec \<Rightarrow> job_input \<Rightarrow> msec \<Rightarrow> scheduled_job" where
  "new_job fresh now i next = \<lparr>jb_id = fresh, jb_tenantId = ji_tenantId i, jb_sessionId = ji_sessionId i,
     jb_label = (case ji_label i of Some [] \<Rightarrow> None | l \<Rightarrow> l), jb_prompt = ji_prompt i, jb_schedule = ji_schedule i,
     jb_status = JobActive, jb_nextRunAt = Some next, jb_runCount = 0, jb_createdAt = now, jb_updatedAt = now,
     jb_lastRunAt = None, jb_lastOutcome = None\<rparr>"

definition sched_create ::
    "cron_parser \<Rightarrow> bool \<Rightarrow> id \<Rightarrow> msec \<Rightarrow> job_input \<Rightarrow> bool \<Rightarrow> scheduler \<Rightarrow> (scheduler_error, scheduled_job) result \<times> scheduler" where
  "sched_create cron external fresh now i io st =
     (case sched_load st of
        (Inl e, st) \<Rightarrow> (throw e, st)
      | (Inr _, st) \<Rightarrow>
          if js_trim (ji_prompt i) = [] then (throw EmptyPrompt, st)
          else if too_frequent (ji_schedule i) then (throw TooFrequent, st)
          else
            (case nextOccurrence cron (ji_schedule i) (now - 1) of
               Inl err \<Rightarrow> (throw (CronFailed err), st)
             | Inr None \<Rightarrow> (throw NoFuture, st)
             | Inr (Some next) \<Rightarrow>
                 let job = new_job fresh now i next in
                 (case sched_save io (st\<lparr>sc_jobs := sc_jobs st @ [job]\<rparr>) of
                    (Inl e, st) \<Rightarrow> (throw e, st)
                  | (Inr _, st) \<Rightarrow> (ok job, if external then st\<lparr>sc_provider := sc_provider st @ [Arm fresh (Some next)]\<rparr> else st))))"

definition sched_list :: "string option \<Rightarrow> scheduler \<Rightarrow> (scheduler_error, scheduled_job list) result \<times> scheduler" where
  "sched_list tenant st =
     (case sched_load st of
        (Inl e, st) \<Rightarrow> (throw e, st)
      | (Inr _, st) \<Rightarrow> (ok (filter (\<lambda>j. case tenant of None \<Rightarrow> True | Some [] \<Rightarrow> True | Some t \<Rightarrow> jb_tenantId j = t) (sc_jobs st)), st))"

text \<open>The statuses a caller may ask for are active, paused and cancelled.\<close>

definition status_job :: "cron_parser \<Rightarrow> job_status \<Rightarrow> msec \<Rightarrow> scheduled_job \<Rightarrow> (string, scheduled_job) result \<times> scheduled_job" where
  "status_job cron status now job =
     (let job' = job\<lparr>jb_status := status, jb_updatedAt := now\<rparr> in
      if status = JobActive then
        (case nextOccurrence cron (jb_schedule job) now of
           Inl err \<Rightarrow> (throw err, job')
         | Inr next \<Rightarrow> let job'' = job'\<lparr>jb_nextRunAt := next\<rparr> in (ok job'', job''))
      else let job'' = job'\<lparr>jb_nextRunAt := None\<rparr> in (ok job'', job''))"

definition sched_setStatus ::
    "cron_parser \<Rightarrow> bool \<Rightarrow> id \<Rightarrow> job_status \<Rightarrow> msec \<Rightarrow> bool \<Rightarrow> scheduler \<Rightarrow> (scheduler_error, scheduled_job) result \<times> scheduler" where
  "sched_setStatus cron external i status now io st =
     (case sched_load st of
        (Inl e, st) \<Rightarrow> (throw e, st)
      | (Inr _, st) \<Rightarrow>
          (case List.find (\<lambda>j. jb_id j = i) (sc_jobs st) of
             None \<Rightarrow> (throw (JobNotFound i), st)
           | Some job \<Rightarrow>
               (case status_job cron status now job of
                  (r, job') \<Rightarrow>
                    let st = st\<lparr>sc_jobs := update_first (\<lambda>j. jb_id j = i) (\<lambda>_. job') (sc_jobs st)\<rparr> in
                    (case r of
                       Inl err \<Rightarrow> (throw (CronFailed err), st)
                     | Inr _ \<Rightarrow>
                         (case sched_save io st of
                            (Inl e, st) \<Rightarrow> (throw e, st)
                          | (Inr _, st) \<Rightarrow>
                              (ok job', if external then st\<lparr>sc_provider := sc_provider st @
                                   [if status = JobActive \<and> jb_nextRunAt job' \<noteq> None then Arm i (jb_nextRunAt job') else Disarm i]\<rparr>
                                 else st))))))"

section \<open>Firing\<close>

text \<open>What a fire does to its job before the dispatch: \<open>occ\<close> is the occurrence, \<open>start\<close> the time the next one is
  sought after.\<close>

definition advance_job ::
    "cron_parser \<Rightarrow> msec \<Rightarrow> msec option \<Rightarrow> msec \<Rightarrow> scheduled_job \<Rightarrow> (string, unit) result \<times> scheduled_job" where
  "advance_job cron start occ now job =
     (let fired = (\<lambda>j. j\<lparr>jb_lastRunAt := occ, jb_runCount := jb_runCount j + 1, jb_updatedAt := now\<rparr>) in
      case jb_schedule job of
        Once _ \<Rightarrow> (ok (), fired (job\<lparr>jb_status := JobCompleted, jb_nextRunAt := None\<rparr>))
      | _ \<Rightarrow> (case nextOccurrence cron (jb_schedule job) start of
           Inl err \<Rightarrow> (throw err, job)
         | Inr next \<Rightarrow> (ok (), fired (job\<lparr>jb_nextRunAt := next\<rparr>))))"

definition job_due :: "msec \<Rightarrow> scheduled_job \<Rightarrow> bool" where
  "job_due now job = (jb_status job = JobActive \<and> (case jb_nextRunAt job of None \<Rightarrow> False | Some t \<Rightarrow> t \<le> now))"

definition tick_begin :: "bool \<Rightarrow> msec \<Rightarrow> scheduler \<Rightarrow> scheduler" where
  "tick_begin external now st =
     (if external \<or> sc_tick st \<noteq> NoTick then st
      else
        (case sched_load st of
           (Inl e, st) \<Rightarrow> st
         | (Inr _, st) \<Rightarrow>
             st\<lparr>sc_tick := Scanning now (filter (\<lambda>n. job_due now (sc_jobs st ! n)) [0..<length (sc_jobs st)])\<rparr>))"

text \<open>One round of the loop, up to the dispatch; a throw ends the tick.\<close>

definition tick_advance :: "cron_parser \<Rightarrow> bool \<Rightarrow> scheduler \<Rightarrow> scheduler" where
  "tick_advance cron io st =
     (case sc_tick st of
        Scanning now [] \<Rightarrow> st\<lparr>sc_tick := NoTick\<rparr>
      | Scanning now (n # due) \<Rightarrow>
          let job = sc_jobs st ! n; occurrence = jb_nextRunAt job in
          (case advance_job cron now occurrence now job of
             (Inl err, _) \<Rightarrow> st\<lparr>sc_tick := NoTick\<rparr>
           | (Inr _, job') \<Rightarrow>
               (case sched_save io (st\<lparr>sc_jobs := (sc_jobs st)[n := job']\<rparr>) of
                  (Inl e, st) \<Rightarrow> st\<lparr>sc_tick := NoTick\<rparr>
                | (Inr _, st) \<Rightarrow> st\<lparr>sc_tick := Dispatching now n occurrence due\<rparr>))
      | _ \<Rightarrow> st)"

definition tick_dispatch :: "scheduler \<Rightarrow> scheduler" where
  "tick_dispatch st =
     (case sc_tick st of
        Dispatching now n occurrence due \<Rightarrow>
          st\<lparr>sc_fired := sc_fired st @ [(jb_id (sc_jobs st ! n), occurrence)], sc_tick := Running now n due\<rparr>
      | _ \<Rightarrow> st)"

definition record_outcome :: "run_outcome \<Rightarrow> msec \<Rightarrow> scheduled_job \<Rightarrow> scheduled_job" where
  "record_outcome out now job = job\<lparr>jb_lastOutcome := Some out, jb_updatedAt := now\<rparr>"

definition tick_finish :: "run_outcome \<Rightarrow> msec \<Rightarrow> bool \<Rightarrow> scheduler \<Rightarrow> scheduler" where
  "tick_finish out now' io st =
     (case sc_tick st of
        Running now n due \<Rightarrow>
          (case sched_save io (st\<lparr>sc_jobs := (sc_jobs st)[n := record_outcome out now' (sc_jobs st ! n)]\<rparr>) of
             (Inl e, st) \<Rightarrow> st\<lparr>sc_tick := NoTick\<rparr>
           | (Inr _, st) \<Rightarrow> st\<lparr>sc_tick := Scanning now due\<rparr>)
      | _ \<Rightarrow> st)"

text \<open>\<^verbatim>\<open>fireExternal\<close>: the guards and the save, then the dispatch, then its outcome.\<close>

datatype fire_reply = Stale | Duplicate | Firing

fun find_index :: "('a \<Rightarrow> bool) \<Rightarrow> 'a list \<Rightarrow> nat option" where
  "find_index p [] = None"
| "find_index p (x # xs) = (if p x then Some 0 else map_option Suc (find_index p xs))"

definition fire_external ::
    "cron_parser \<Rightarrow> bool \<Rightarrow> id \<Rightarrow> msec \<Rightarrow> msec \<Rightarrow> bool \<Rightarrow> scheduler \<Rightarrow> (scheduler_error, fire_reply) result \<times> scheduler" where
  "fire_external cron external i fireAt now io st =
     (if \<not> external then (throw NoProvider, st)
      else
        (case sched_load st of
           (Inl e, st) \<Rightarrow> (throw e, st)
         | (Inr _, st) \<Rightarrow>
             (case find_index (\<lambda>j. jb_id j = i) (sc_jobs st) of
                None \<Rightarrow> (ok Stale, st)
              | Some n \<Rightarrow>
                  let job = sc_jobs st ! n in
                  if jb_status job \<noteq> JobActive then (ok Stale, st)
                  else if jb_lastRunAt job = Some fireAt then (ok Duplicate, st)
                  else if jb_nextRunAt job \<noteq> Some fireAt then (ok Stale, st)
                  else
                    (case advance_job cron fireAt (Some fireAt) now job of
                       (Inl err, _) \<Rightarrow> (throw (CronFailed err), st)
                     | (Inr _, job') \<Rightarrow>
                         (case sched_save io (st\<lparr>sc_jobs := (sc_jobs st)[n := job']\<rparr>) of
                            (Inl e, st) \<Rightarrow> (throw e, st)
                          | (Inr _, st) \<Rightarrow> (ok Firing, st\<lparr>sc_waiting := sc_waiting st @ [(n, fireAt)]\<rparr>))))))"

definition external_dispatch :: "nat \<Rightarrow> scheduler \<Rightarrow> scheduler" where
  "external_dispatch k st =
     (if k < length (sc_waiting st)
      then let (n, fireAt) = sc_waiting st ! k in
        st\<lparr>sc_waiting := take k (sc_waiting st) @ drop (Suc k) (sc_waiting st),
           sc_fired := sc_fired st @ [(jb_id (sc_jobs st ! n), Some fireAt)]\<rparr>
      else st)"

definition external_finish :: "nat \<Rightarrow> run_outcome \<Rightarrow> msec \<Rightarrow> bool \<Rightarrow> scheduler \<Rightarrow> scheduler" where
  "external_finish n out now io st =
     (if n < length (sc_jobs st) then
        (let job = record_outcome out now (sc_jobs st ! n) in
         case sched_save io (st\<lparr>sc_jobs := (sc_jobs st)[n := job]\<rparr>) of
           (Inl e, st) \<Rightarrow> st
         | (Inr _, st) \<Rightarrow> st\<lparr>sc_provider := sc_provider st @
             [if jb_status job = JobActive \<and> jb_nextRunAt job \<noteq> None then Arm (jb_id job) (jb_nextRunAt job) else Disarm (jb_id job)]\<rparr>)
      else st)"

definition sched_restart :: "scheduler \<Rightarrow> scheduler" where
  "sched_restart st = st\<lparr>sc_jobs := [], sc_loaded := False, sc_tick := NoTick, sc_waiting := []\<rparr>"

section \<open>Runs\<close>

datatype sched_action =
    AddJob id msec job_input bool
  | SetJob id job_status msec bool
  | TickBegin msec
  | TickAdvance bool
  | TickDispatch
  | TickFinish run_outcome msec bool
  | FireExternal id msec msec bool
  | ExternalDispatch nat
  | ExternalFinish nat run_outcome msec bool
  | Restart

definition sched_step :: "cron_parser \<Rightarrow> bool \<Rightarrow> sched_action \<Rightarrow> scheduler \<Rightarrow> scheduler" where
  "sched_step cron external a st =
     (case a of
        AddJob i now inp io \<Rightarrow> snd (sched_create cron external i now inp io st)
      | SetJob i status now io \<Rightarrow> snd (sched_setStatus cron external i status now io st)
      | TickBegin now \<Rightarrow> tick_begin external now st
      | TickAdvance io \<Rightarrow> tick_advance cron io st
      | TickDispatch \<Rightarrow> tick_dispatch st
      | TickFinish out now io \<Rightarrow> tick_finish out now io st
      | FireExternal i fireAt now io \<Rightarrow> snd (fire_external cron external i fireAt now io st)
      | ExternalDispatch k \<Rightarrow> external_dispatch k st
      | ExternalFinish n out now io \<Rightarrow> external_finish n out now io st
      | Restart \<Rightarrow> sched_restart st)"

section \<open>An occurrence is fired at most once\<close>

text \<open>What the environment keeps to: clocks do not go back, job ids are new, the provider does not fire early, and
  a status is not changed while a tick is under way.\<close>

definition known_ids :: "scheduler \<Rightarrow> id set" where
  "known_ids st = set (map jb_id (sc_jobs st)) \<union> set (map fst (sc_fired st))
     \<union> (case sc_disk st of Stored js \<Rightarrow> set (map jb_id js) | _ \<Rightarrow> {})"

definition sched_allows :: "msec \<Rightarrow> sched_action \<Rightarrow> scheduler \<Rightarrow> bool" where
  "sched_allows t a st =
     (case a of
        AddJob i now inp io \<Rightarrow> t \<le> now \<and> i \<notin> known_ids st
      | SetJob i status now io \<Rightarrow> t \<le> now \<and> sc_tick st = NoTick
      | TickBegin now \<Rightarrow> t \<le> now
      | TickFinish out now io \<Rightarrow> t \<le> now
      | FireExternal i fireAt now io \<Rightarrow> t \<le> now \<and> fireAt \<le> now
      | ExternalFinish n out now io \<Rightarrow> t \<le> now
      | _ \<Rightarrow> True)"

definition action_time :: "msec \<Rightarrow> sched_action \<Rightarrow> msec" where
  "action_time t a =
     (case a of
        AddJob i now inp io \<Rightarrow> now
      | SetJob i status now io \<Rightarrow> now
      | TickBegin now \<Rightarrow> now
      | TickFinish out now io \<Rightarrow> now
      | FireExternal i fireAt now io \<Rightarrow> now
      | ExternalFinish n out now io \<Rightarrow> now
      | _ \<Rightarrow> t)"

inductive sched_reach :: "cron_parser \<Rightarrow> bool \<Rightarrow> msec \<Rightarrow> scheduler \<Rightarrow> bool" for cron external where
  start: "sched_reach cron external t new_scheduler"
| act: "sched_reach cron external t st \<Longrightarrow> sched_allows t a st \<Longrightarrow>
    sched_reach cron external (action_time t a) (sched_step cron external a st)"

text \<open>Saved and not yet dispatched.\<close>

definition tick_pending :: "scheduler \<Rightarrow> (id \<times> msec option) list" where
  "tick_pending st = (case sc_tick st of Dispatching now n occ due \<Rightarrow> [(map jb_id (sc_jobs st) ! n, occ)] | _ \<Rightarrow> [])"

definition external_pending :: "scheduler \<Rightarrow> (id \<times> msec option) list" where
  "external_pending st = map (\<lambda>(n, t). (map jb_id (sc_jobs st) ! n, Some t)) (sc_waiting st)"

definition occurrences :: "scheduler \<Rightarrow> (id \<times> msec option) list" where
  "occurrences st = sc_fired st @ tick_pending st @ external_pending st"

definition next_after :: "(id \<times> msec option) set \<Rightarrow> scheduled_job \<Rightarrow> bool" where
  "next_after os j \<longleftrightarrow> (\<forall>x y. (jb_id j, Some x) \<in> os \<longrightarrow> jb_nextRunAt j = Some y \<longrightarrow> x < y)"

definition jobs_ok :: "(id \<times> msec option) set \<Rightarrow> scheduled_job list \<Rightarrow> bool" where
  "jobs_ok os js \<longleftrightarrow> distinct (map jb_id js) \<and> (\<forall>j \<in> set js. \<not> too_frequent (jb_schedule j) \<and> next_after os j)"

definition due_ok :: "msec \<Rightarrow> nat list \<Rightarrow> scheduler \<Rightarrow> bool" where
  "due_ok now due st \<longleftrightarrow> distinct due \<and> (\<forall>n \<in> set due. n < length (sc_jobs st) \<and> job_due now (sc_jobs st ! n))"

definition tick_ok :: "msec \<Rightarrow> scheduler \<Rightarrow> bool" where
  "tick_ok t st =
     (case sc_tick st of
        NoTick \<Rightarrow> True
      | Scanning now due \<Rightarrow> now \<le> t \<and> due_ok now due st
      | Dispatching now n occ due \<Rightarrow> now \<le> t \<and> n < length (sc_jobs st) \<and> due_ok now due st \<and> n \<notin> set due
      | Running now n due \<Rightarrow> now \<le> t \<and> n < length (sc_jobs st) \<and> due_ok now due st \<and> n \<notin> set due)"

definition sched_inv :: "bool \<Rightarrow> msec \<Rightarrow> scheduler \<Rightarrow> bool" where
  "sched_inv external t st \<longleftrightarrow> distinct (occurrences st) \<and> (\<forall>(i, occ) \<in> set (occurrences st). case occ of None \<Rightarrow> False | Some x \<Rightarrow> x \<le> t)
     \<and> jobs_ok (set (occurrences st)) (sc_jobs st) \<and> (\<forall>js. sc_disk st = Stored js \<longrightarrow> jobs_ok (set (occurrences st)) js)
     \<and> tick_ok t st \<and> (\<forall>(n, x) \<in> set (sc_waiting st). n < length (sc_jobs st))
     \<and> (\<not> sc_loaded st \<longrightarrow> sc_jobs st = [] \<and> sc_tick st = NoTick \<and> sc_waiting st = [])
     \<and> (external \<longrightarrow> sc_tick st = NoTick)"

text \<open>Documented of the parser: the next occurrence lies after the date it starts from.\<close>

definition cron_later :: "cron_parser \<Rightarrow> bool" where
  "cron_later cron \<longleftrightarrow> (\<forall>e tz a n. cron e tz a = Inr n \<longrightarrow> a < n)"

lemma nextOccurrence_later:
  assumes "cron_later cron" and "\<not> too_frequent s" and "nextOccurrence cron s a = Inr (Some y)"
  shows "a < y"
  using assms by (auto simp: cron_later_def nextOccurrence_def too_frequent_def split: schedule.splits option.splits if_splits sum.splits)

lemma jobs_ok_put:
  assumes ok: "jobs_ok os js" and n: "n < length js" and same: "jb_id j' = jb_id (js ! n)" "jb_schedule j' = jb_schedule (js ! n)"
    and nxt: "next_after os j'"
  shows "jobs_ok os (js[n := j']) \<and> map jb_id (js[n := j']) = map jb_id js"
proof -
  have ids: "map jb_id (js[n := j']) = map jb_id js" using n same(1) by (metis list_update_id map_update nth_map)
  have "j \<in> insert j' (set js)" if "j \<in> set (js[n := j'])" for j using that set_update_subset_insert [of js n j'] by blast
  moreover have "js ! n \<in> set js" using n by simp
  ultimately show ?thesis using ok ids same(2) nxt unfolding jobs_ok_def by (metis insertE)
qed

lemma jobs_ok_fire:
  assumes ok: "jobs_ok os js" and n: "n < length js" and nxt: "jb_nextRunAt (js ! n) = Some x"
    and same: "jb_id j' = jb_id (js ! n)" "jb_schedule j' = jb_schedule (js ! n)"
    and later: "\<And>y. jb_nextRunAt j' = Some y \<Longrightarrow> x < y"
  shows "jobs_ok (insert (jb_id (js ! n), Some x) os) (js[n := j'])" and "(jb_id (js ! n), Some x) \<notin> os"
    and "jobs_ok os (js[n := j'])"
proof -
  have old: "next_after os (js ! n)" using ok n by (auto simp: jobs_ok_def)
  then show "(jb_id (js ! n), Some x) \<notin> os" using nxt by (auto simp: next_after_def)
  have "next_after (insert (jb_id (js ! n), Some x) os) j'"
    using old nxt later same(1) unfolding next_after_def by fastforce
  then have j': "next_after (insert (jb_id (js ! n), Some x) os) j'" "next_after os j'" by (simp_all add: next_after_def)
  have put: "jobs_ok os (js[n := j'])" using jobs_ok_put [OF ok n same j'(2)] by simp
  have other: "jb_id j \<noteq> jb_id (js ! n)" if j: "j \<in> set (js[n := j'])" "j \<noteq> j'" for j
  proof -
    obtain m where m: "m < length js" "js[n := j'] ! m = j" using j(1) unfolding in_set_conv_nth by auto
    then have "m \<noteq> n" "j = js ! m" using j(2) n by (auto simp: nth_list_update split: if_splits)
    have "map jb_id js ! m \<noteq> map jb_id js ! n"
      using ok m(1) n \<open>m \<noteq> n\<close> unfolding jobs_ok_def by (metis distinct_conv_nth length_map)
    then show ?thesis using m(1) n \<open>j = js ! m\<close> by simp
  qed
  have "next_after (insert (jb_id (js ! n), Some x) os) j" if "j \<in> set (js[n := j'])" for j
  proof (cases "j = j'")
    case False
    have "next_after os j" using put that by (simp add: jobs_ok_def)
    then show ?thesis using other [OF that False] by (simp add: next_after_def)
  qed (use j'(1) in simp)
  then show "jobs_ok (insert (jb_id (js ! n), Some x) os) (js[n := j'])" "jobs_ok os (js[n := j'])"
    using put by (simp_all add: jobs_ok_def)
qed

lemma occurrences_ids:
  assumes "map jb_id js = map jb_id (sc_jobs st)"
  shows "occurrences (st\<lparr>sc_jobs := js\<rparr>) = occurrences st"
  using assms by (simp add: occurrences_def tick_pending_def external_pending_def split: tick_phase.splits)

lemma inv_put:
  assumes inv: "sched_inv external t st" and ids: "map jb_id js = map jb_id (sc_jobs st)"
    and ok: "jobs_ok (set (occurrences st)) js" and tick: "tick_ok t (st\<lparr>sc_jobs := js\<rparr>)" and loaded: "sc_loaded st"
  shows "sched_inv external t (st\<lparr>sc_jobs := js\<rparr>)"
proof -
  have "length js = length (sc_jobs st)" using ids by (metis length_map)
  then show ?thesis using inv ok tick loaded unfolding sched_inv_def occurrences_ids [OF ids] by simp
qed

lemma inv_save:
  "sched_inv external t st \<Longrightarrow> sched_save io st = (r, st') \<Longrightarrow> sched_inv external t st' \<and> sc_jobs st' = sc_jobs st
     \<and> sc_tick st' = sc_tick st \<and> sc_loaded st' = sc_loaded st \<and> occurrences st' = occurrences st \<and> sc_waiting st' = sc_waiting st
     \<and> sc_fired st' = sc_fired st \<and> (r = Inr () \<longrightarrow> sc_disk st' = Stored (sc_jobs st))"
proof -
  assume inv: "sched_inv external t st" and sv: "sched_save io st = (r, st')"
  show ?thesis
  proof (cases io)
    case True
    then have r: "r = Inr ()" "st' = st\<lparr>sc_disk := Stored (sc_jobs st)\<rparr>" using sv by (auto simp: sched_save_def)
    have "occurrences st' = occurrences st" "tick_ok t st' = tick_ok t st"
      by (cases "sc_tick st"; simp add: r(2) occurrences_def tick_pending_def external_pending_def tick_ok_def due_ok_def)+
    then show ?thesis using inv r by (simp add: sched_inv_def)
  next
    case False
    then show ?thesis using inv sv by (auto simp: sched_save_def)
  qed
qed

lemma inv_time: "sched_inv external t st \<Longrightarrow> t \<le> t' \<Longrightarrow> sched_inv external t' st"
  unfolding sched_inv_def tick_ok_def by (auto split: tick_phase.splits option.splits; fastforce)

lemma inv_provider: "sched_inv external t (st\<lparr>sc_provider := p\<rparr>) = sched_inv external t st"
  by (cases "sc_tick st") (simp_all add: sched_inv_def occurrences_def tick_pending_def external_pending_def tick_ok_def due_ok_def)

lemma inv_load:
  assumes "sched_inv external t st" and "sched_load st = (r, st')"
  shows "sched_inv external t st' \<and> sc_tick st' = sc_tick st \<and> known_ids st' = known_ids st \<and> (r = Inr () \<longrightarrow> sc_loaded st')"
proof (cases "sc_loaded st")
  case True
  then show ?thesis using assms by (auto simp: sched_load_def)
next
  case False
  then have e: "sc_jobs st = []" "sc_tick st = NoTick" "sc_waiting st = []" using assms(1) by (auto simp: sched_inv_def)
  show ?thesis
    using assms False e
    by (auto simp: sched_load_def load_apply_def sched_inv_def occurrences_def tick_pending_def external_pending_def tick_ok_def
        known_ids_def split: disk_file.splits)
qed

lemma jobs_ok_mono: "jobs_ok os js \<Longrightarrow> os' \<subseteq> os \<Longrightarrow> jobs_ok os' js"
  unfolding jobs_ok_def next_after_def by blast

lemma inv_append:
  assumes inv: "sched_inv external t st" and loaded: "sc_loaded st" and new: "jb_id j \<notin> known_ids st"
    and often: "\<not> too_frequent (jb_schedule j)"
  shows "sched_inv external t (st\<lparr>sc_jobs := sc_jobs st @ [j]\<rparr>)"
proof -
  let ?st = "st\<lparr>sc_jobs := sc_jobs st @ [j]\<rparr>"
  have w: "\<forall>(n, x) \<in> set (sc_waiting st). n < length (sc_jobs st)" and tick: "tick_ok t st" using inv by (auto simp: sched_inv_def)
  have tp: "tick_pending ?st = tick_pending st"
    using tick by (auto simp: tick_pending_def tick_ok_def nth_append split: tick_phase.splits)
  have ep: "external_pending ?st = external_pending st"
    using w by (auto simp: external_pending_def nth_append)
  have same: "occurrences ?st = occurrences st" by (simp add: occurrences_def tp ep)
  have "fst ` set (tick_pending st) \<subseteq> set (map jb_id (sc_jobs st))"
    using tick by (auto simp: tick_pending_def tick_ok_def split: tick_phase.splits)
  moreover have "fst ` set (external_pending st) \<subseteq> set (map jb_id (sc_jobs st))"
    using w by (auto simp: external_pending_def)
  ultimately have "(jb_id j, x) \<notin> set (occurrences st)" for x
    using new unfolding occurrences_def known_ids_def by (fastforce simp: image_iff)
  then have "next_after (set (occurrences st)) j" by (simp add: next_after_def)
  moreover have "jb_id j \<notin> set (map jb_id (sc_jobs st))" using new by (simp add: known_ids_def)
  ultimately have "jobs_ok (set (occurrences st)) (sc_jobs st @ [j])"
    using inv often by (auto simp: sched_inv_def jobs_ok_def)
  moreover have "tick_ok t ?st"
    using tick by (auto simp: tick_ok_def due_ok_def nth_append split: tick_phase.splits)
  ultimately show ?thesis using inv loaded w unfolding sched_inv_def same by auto
qed

lemma inv_create:
  assumes inv: "sched_inv external t st" and t: "t \<le> now" and new: "i \<notin> known_ids st"
  shows "sched_inv external now (snd (sched_create cron external i now inp io st))"
proof -
  obtain r st1 where ld: "sched_load st = (r, st1)" by fastforce
  have st1: "sched_inv external now st1" "known_ids st1 = known_ids st" "r = Inr () \<longrightarrow> sc_loaded st1"
    using inv_load [OF inv ld] inv_time t by auto
  show ?thesis
  proof (cases "\<exists>nx. r = Inr () \<and> js_trim (ji_prompt inp) \<noteq> [] \<and> \<not> too_frequent (ji_schedule inp)
      \<and> nextOccurrence cron (ji_schedule inp) (now - 1) = Inr (Some nx)")
    case True
    then obtain nx where c: "r = Inr ()" "js_trim (ji_prompt inp) \<noteq> []" "\<not> too_frequent (ji_schedule inp)"
      "nextOccurrence cron (ji_schedule inp) (now - 1) = Inr (Some nx)" by blast
    have a: "sched_inv external now (st1\<lparr>sc_jobs := sc_jobs st1 @ [new_job i now inp nx]\<rparr>)"
      using st1 c new by (intro inv_append) (auto simp: new_job_def)
    obtain r' st2 where sv: "sched_save io (st1\<lparr>sc_jobs := sc_jobs st1 @ [new_job i now inp nx]\<rparr>) = (r', st2)" by fastforce
    show ?thesis using ld c sv inv_save [OF a sv] by (cases external; cases r') (simp_all add: sched_create_def Let_def inv_provider)
  next
    case False
    then show ?thesis using ld st1(1) by (auto simp: sched_create_def Let_def split: sum.splits option.splits)
  qed
qed

lemma find_update_nth:
  "List.find p xs = Some x \<Longrightarrow> \<exists>n < length xs. xs ! n = x \<and> p x \<and> update_first p f xs = xs[n := f x]"
proof (induction xs)
  case (Cons y ys)
  show ?case
  proof (cases "p y")
    case True
    then show ?thesis using Cons.prems by (intro exI [of _ 0]) simp
  next
    case False
    then obtain n where "n < length ys" "ys ! n = x" "p x" "update_first p f ys = ys[n := f x]" using Cons by auto
    then show ?thesis using False by (intro exI [of _ "Suc n"]) simp
  qed
qed simp

lemma inv_put_nth:
  assumes inv: "sched_inv external t st" and n: "n < length (sc_jobs st)"
    and same: "jb_id j = jb_id (sc_jobs st ! n)" "jb_schedule j = jb_schedule (sc_jobs st ! n)"
    and nxt: "next_after (set (occurrences st)) j" and tick: "tick_ok t (st\<lparr>sc_jobs := (sc_jobs st)[n := j]\<rparr>)"
  shows "sched_inv external t (st\<lparr>sc_jobs := (sc_jobs st)[n := j]\<rparr>)"
proof -
  have ok: "jobs_ok (set (occurrences st)) (sc_jobs st)" using inv by (simp add: sched_inv_def)
  have "sc_loaded st" using inv n by (auto simp: sched_inv_def)
  then show ?thesis using jobs_ok_put [OF ok n same nxt] inv tick by (intro inv_put) auto
qed

lemma inv_setStatus:
  assumes cron: "cron_later cron" and inv: "sched_inv external t st" and t: "t \<le> now" and tick: "sc_tick st = NoTick"
  shows "sched_inv external now (snd (sched_setStatus cron external i status now io st))"
proof -
  obtain r st1 where ld: "sched_load st = (r, st1)" by fastforce
  have st1: "sched_inv external now st1" "sc_tick st1 = NoTick" using inv_load [OF inv ld] inv_time t tick by auto
  show ?thesis
  proof (cases "r = Inr () \<and> List.find (\<lambda>j. jb_id j = i) (sc_jobs st1) \<noteq> None")
    case True
    then obtain job where job: "List.find (\<lambda>j. jb_id j = i) (sc_jobs st1) = Some job" by auto
    obtain q job' where q: "status_job cron status now job = (q, job')" by fastforce
    obtain n where n: "n < length (sc_jobs st1)" "sc_jobs st1 ! n = job" "jb_id job = i"
      "update_first (\<lambda>j. jb_id j = i) (\<lambda>_. job') (sc_jobs st1) = (sc_jobs st1)[n := job']"
      using find_update_nth [OF job, of "\<lambda>_. job'"] by blast
    have old: "\<not> too_frequent (jb_schedule job)" "next_after (set (occurrences st1)) job"
      using st1(1) n by (auto simp: sched_inv_def jobs_ok_def)
    have same: "jb_id job' = jb_id job" "jb_schedule job' = jb_schedule job"
      using q by (auto simp: status_job_def Let_def split: if_splits sum.splits)
    have nx: "(jb_nextRunAt job' = jb_nextRunAt job) \<or> (\<forall>y. jb_nextRunAt job' = Some y \<longrightarrow> now < y)"
      using q nextOccurrence_later [OF cron old(1), where a = now] by (auto simp: status_job_def Let_def split: if_splits sum.splits)
    have past: "x \<le> now" if "(k, Some x) \<in> set (occurrences st1)" for k x using st1(1) that by (auto simp: sched_inv_def)
    have "next_after (set (occurrences st1)) job'"
      using old(2) nx past same(1) unfolding next_after_def by (metis le_less_trans)
    then have p: "sched_inv external now (st1\<lparr>sc_jobs := (sc_jobs st1)[n := job']\<rparr>)"
      using st1 n same by (intro inv_put_nth) (auto simp: tick_ok_def)
    obtain r' st2 where sv: "sched_save io (st1\<lparr>sc_jobs := (sc_jobs st1)[n := job']\<rparr>) = (r', st2)" by fastforce
    show ?thesis using True ld job q n(4) sv inv_save [OF p sv] p
      by (cases external; cases q; cases r') (simp_all add: sched_setStatus_def Let_def inv_provider)
  next
    case False
    then show ?thesis using ld st1(1) by (auto simp: sched_setStatus_def split: sum.splits)
  qed
qed

lemma inv_begin:
  assumes inv: "sched_inv external t st" and t: "t \<le> now"
  shows "sched_inv external now (tick_begin external now st)"
proof (cases "external \<or> sc_tick st \<noteq> NoTick")
  case True
  then show ?thesis using inv_time [OF inv t] by (simp add: tick_begin_def)
next
  case False
  obtain r st1 where ld: "sched_load st = (r, st1)" by fastforce
  have st1: "sched_inv external now st1" "sc_tick st1 = NoTick" "r = Inr () \<longrightarrow> sc_loaded st1"
    using inv_load [OF inv ld] inv_time t False by auto
  let ?due = "filter (\<lambda>n. job_due now (sc_jobs st1 ! n)) [0..<length (sc_jobs st1)]"
  have "due_ok now ?due (st1\<lparr>sc_tick := Scanning now ?due\<rparr>)" by (simp add: due_ok_def)
  then show ?thesis using False ld st1
    by (cases r) (auto simp: tick_begin_def sched_inv_def occurrences_def tick_pending_def external_pending_def tick_ok_def)
qed

lemma advance_job_ok:
  assumes cron: "cron_later cron" and often: "\<not> too_frequent (jb_schedule job)"
    and ad: "advance_job cron start occ now job = (Inr u, job')"
  shows "jb_id job' = jb_id job" "jb_schedule job' = jb_schedule job" "jb_nextRunAt job' = Some y \<Longrightarrow> start < y"
  using ad nextOccurrence_later [OF cron often, where a = start]
  by (auto simp: advance_job_def Let_def split: schedule.splits sum.splits)

text \<open>What both ways of firing do to the state: the job is advanced, the file written, the occurrence is now pending.\<close>

lemma inv_fire:
  assumes inv: "sched_inv external t st" and n: "n < length (sc_jobs st)"
    and same: "jb_id j = jb_id (sc_jobs st ! n)" "jb_schedule j = jb_schedule (sc_jobs st ! n)"
    and nxt: "jb_nextRunAt (sc_jobs st ! n) = Some x" and later: "\<forall>y. jb_nextRunAt j = Some y \<longrightarrow> x < y"
  shows "next_after (set (occurrences st)) j" and "(jb_id j, Some x) \<notin> set (occurrences st)"
    and "jobs_ok (insert (jb_id j, Some x) (set (occurrences st))) ((sc_jobs st)[n := j])"
proof -
  have ok: "jobs_ok (set (occurrences st)) (sc_jobs st)" using inv by (simp add: sched_inv_def)
  have later': "\<And>y. jb_nextRunAt j = Some y \<Longrightarrow> x < y" using later by blast
  note f = jobs_ok_fire [OF ok n nxt same later']
  show "(jb_id j, Some x) \<notin> set (occurrences st)" using f(2) same(1) by simp
  show "jobs_ok (insert (jb_id j, Some x) (set (occurrences st))) ((sc_jobs st)[n := j])" using f(1) same(1) by simp
  have "j \<in> set ((sc_jobs st)[n := j])" using n by (rule set_update_memI)
  then show "next_after (set (occurrences st)) j" using f(3) by (simp add: jobs_ok_def)
qed

lemma inv_idle: "sched_inv external t st \<Longrightarrow> tick_pending st = [] \<Longrightarrow> sched_inv external t (st\<lparr>sc_tick := NoTick\<rparr>)"
proof -
  assume inv: "sched_inv external t st" and "tick_pending st = []"
  then have "occurrences (st\<lparr>sc_tick := NoTick\<rparr>) = occurrences st"
    by (simp add: occurrences_def external_pending_def) (simp add: tick_pending_def)
  then show ?thesis using inv by (auto simp: sched_inv_def tick_ok_def)
qed

lemma due_ok_put:
  assumes "due_ok now (n # due) st"
  shows "due_ok now due (st\<lparr>sc_jobs := (sc_jobs st)[n := j]\<rparr>)"
  using assms by (auto simp: due_ok_def nth_list_update)

lemma due_ok_cong: "sc_jobs st' = sc_jobs st \<Longrightarrow> due_ok now due st' = due_ok now due st"
  by (simp add: due_ok_def)

lemma inv_advance:
  assumes cron: "cron_later cron" and inv: "sched_inv external t st"
  shows "sched_inv external t (tick_advance cron io st)"
proof (cases "\<exists>now n due. sc_tick st = Scanning now (n # due)")
  case False
  then show ?thesis using inv inv_idle [OF inv]
    by (auto simp: tick_advance_def tick_pending_def split: tick_phase.splits list.splits)
next
  case True
  then obtain now n due where tk: "sc_tick st = Scanning now (n # due)" by blast
  then have d: "now \<le> t" "due_ok now (n # due) st" using inv by (auto simp: sched_inv_def tick_ok_def)
  let ?job = "sc_jobs st ! n"
  have n: "n < length (sc_jobs st)" "job_due now ?job" "n \<notin> set due" using d(2) by (auto simp: due_ok_def)
  then obtain x where x: "jb_nextRunAt ?job = Some x" "x \<le> now" by (auto simp: job_due_def split: option.splits)
  have often: "\<not> too_frequent (jb_schedule ?job)" using inv n(1) by (auto simp: sched_inv_def jobs_ok_def)
  have idle: "sched_inv external t (st\<lparr>sc_tick := NoTick\<rparr>)" using inv_idle [OF inv] tk by (simp add: tick_pending_def)
  obtain q job' where ad: "advance_job cron now (Some x) now ?job = (q, job')" by fastforce
  show ?thesis
  proof (cases q)
    case (Inl e)
    then show ?thesis using tk ad x idle by (simp add: tick_advance_def)
  next
    case (Inr u)
    note same = advance_job_ok(1,2) [OF cron often ad [unfolded Inr]]
    have later: "\<forall>y. jb_nextRunAt job' = Some y \<longrightarrow> x < y"
      using advance_job_ok(3) [OF cron often ad [unfolded Inr]] x(2) by (meson le_less_trans)
    note fire = inv_fire [OF inv n(1) same x(1) later]
    let ?js = "(sc_jobs st)[n := job']"
    have ids: "map jb_id ?js = map jb_id (sc_jobs st)" using n(1) same(1) by (metis list_update_id map_update nth_map)
    show ?thesis
    proof (cases io)
      case False
      have occ0: "occurrences (st\<lparr>sc_tick := NoTick\<rparr>) = occurrences st"
        using tk by (simp add: occurrences_def tick_pending_def external_pending_def)
      have "sched_inv external t ((st\<lparr>sc_tick := NoTick\<rparr>)\<lparr>sc_jobs := ?js\<rparr>)"
        using inv_put_nth [OF idle, of n job'] occ0 n(1) same fire(1) by (simp add: tick_ok_def)
      moreover have "tick_advance cron io st = st\<lparr>sc_jobs := ?js, sc_tick := NoTick\<rparr>"
        using False tk ad x Inr by (simp add: tick_advance_def sched_save_def)
      moreover have "st\<lparr>sc_jobs := ?js, sc_tick := NoTick\<rparr> = st\<lparr>sc_tick := NoTick, sc_jobs := ?js\<rparr>" by (cases st) simp
      ultimately show ?thesis by metis
    next
      case True
      let ?st = "st\<lparr>sc_jobs := ?js, sc_disk := Stored ?js, sc_tick := Dispatching now n (Some x) due\<rparr>"
      have e: "tick_advance cron io st = ?st" using True tk ad x Inr by (simp add: tick_advance_def sched_save_def)
      have "external_pending ?st = external_pending st" using ids by (simp add: external_pending_def)
      moreover have "tick_pending st = []" "tick_pending ?st = [(jb_id job', Some x)]"
        using tk ids n(1) same(1) by (simp_all add: tick_pending_def)
      ultimately have occ: "set (occurrences ?st) = insert (jb_id job', Some x) (set (occurrences st))"
          "distinct (occurrences ?st) = distinct ((jb_id job', Some x) # occurrences st)"
        by (auto simp: occurrences_def)
      have "due_ok now due ?st" using due_ok_put [OF d(2), of job'] by (simp add: due_ok_def)
      then have "tick_ok t ?st" using d(1) n by (simp add: tick_ok_def)
      then show ?thesis unfolding e sched_inv_def occ using inv fire x(2) d(1) n(1) tk by (auto simp: sched_inv_def)
    qed
  qed
qed

lemma inv_dispatch:
  assumes inv: "sched_inv external t st"
  shows "sched_inv external t (tick_dispatch st)"
proof (cases "\<exists>now n occ due. sc_tick st = Dispatching now n occ due")
  case True
  then obtain now n occ due where tk: "sc_tick st = Dispatching now n occ due" by blast
  let ?st = "tick_dispatch st"
  have d: "now \<le> t" "n < length (sc_jobs st)" "due_ok now due st" "n \<notin> set due" using inv tk by (auto simp: sched_inv_def tick_ok_def)
  have "occurrences ?st = occurrences st"
    using tk d(2) by (simp add: tick_dispatch_def occurrences_def tick_pending_def external_pending_def)
  moreover have "tick_ok t ?st" using tk d by (simp add: tick_dispatch_def tick_ok_def due_ok_def)
  ultimately show ?thesis using inv tk unfolding sched_inv_def by (auto simp: tick_dispatch_def)
next
  case False
  then show ?thesis using inv by (auto simp: tick_dispatch_def split: tick_phase.splits)
qed

lemma inv_outcome:
  assumes inv: "sched_inv external t st" and n: "n < length (sc_jobs st)"
  shows "sched_inv external t (st\<lparr>sc_jobs := (sc_jobs st)[n := record_outcome out now (sc_jobs st ! n)]\<rparr>)"
proof (rule inv_put_nth [OF inv n])
  have "next_after (set (occurrences st)) (sc_jobs st ! n)" using inv n by (simp add: sched_inv_def jobs_ok_def)
  then show "next_after (set (occurrences st)) (record_outcome out now (sc_jobs st ! n))"
    by (simp add: next_after_def record_outcome_def)
  have "due_ok x due (st\<lparr>sc_jobs := (sc_jobs st)[n := record_outcome out now (sc_jobs st ! n)]\<rparr>) = due_ok x due st" for x due
    using n by (auto simp: due_ok_def nth_list_update record_outcome_def job_due_def)
  then show "tick_ok t (st\<lparr>sc_jobs := (sc_jobs st)[n := record_outcome out now (sc_jobs st ! n)]\<rparr>)"
    using inv by (simp add: sched_inv_def tick_ok_def split: tick_phase.splits)
qed (simp_all add: record_outcome_def)

lemma inv_finish:
  assumes inv: "sched_inv external t st" and t: "t \<le> now'"
  shows "sched_inv external now' (tick_finish out now' io st)"
proof (cases "\<exists>now n due. sc_tick st = Running now n due")
  case False
  then show ?thesis using inv_time [OF inv t] by (auto simp: tick_finish_def split: tick_phase.splits)
next
  case True
  then obtain now n due where tk: "sc_tick st = Running now n due" by blast
  have inv': "sched_inv external now' st" by (rule inv_time [OF inv t])
  then have n: "n < length (sc_jobs st)" using tk by (simp add: sched_inv_def tick_ok_def)
  let ?st = "st\<lparr>sc_jobs := (sc_jobs st)[n := record_outcome out now' (sc_jobs st ! n)]\<rparr>"
  obtain r st2 where sv: "sched_save io ?st = (r, st2)" by fastforce
  note i2 = inv_save [OF inv_outcome [OF inv' n] sv]
  have tp: "tick_pending st2 = []" "sc_tick st2 = Running now n due" using i2 tk by (simp_all add: tick_pending_def)
  show ?thesis
  proof (cases r)
    case (Inl e)
    then show ?thesis using tk sv inv_idle tp(1) i2 by (simp add: tick_finish_def)
  next
    case (Inr u)
    have "occurrences (st2\<lparr>sc_tick := Scanning now due\<rparr>) = occurrences st2"
      using tp by (simp add: occurrences_def tick_pending_def external_pending_def)
    then have "sched_inv external now' (st2\<lparr>sc_tick := Scanning now due\<rparr>)"
      using i2 tp(2) by (auto simp: sched_inv_def tick_ok_def due_ok_def)
    then show ?thesis using tk sv Inr by (simp add: tick_finish_def)
  qed
qed

lemma find_index_Some: "find_index p xs = Some n \<Longrightarrow> n < length xs \<and> p (xs ! n)"
  by (induction xs arbitrary: n) (auto split: if_splits)

lemma inv_external:
  assumes cron: "cron_later cron" and inv: "sched_inv external t st" and t: "t \<le> now" "fireAt \<le> now"
  shows "sched_inv external now (snd (fire_external cron external i fireAt now io st))"
proof -
  obtain r st1 where ld: "sched_load st = (r, st1)" by fastforce
  have st1: "sched_inv external now st1" using inv_load [OF inv ld] inv_time t by auto
  show ?thesis
  proof (cases "\<exists>n job'. external \<and> r = Inr () \<and> find_index (\<lambda>j. jb_id j = i) (sc_jobs st1) = Some n \<and> jb_status (sc_jobs st1 ! n) = JobActive
      \<and> jb_lastRunAt (sc_jobs st1 ! n) \<noteq> Some fireAt \<and> jb_nextRunAt (sc_jobs st1 ! n) = Some fireAt
      \<and> advance_job cron fireAt (Some fireAt) now (sc_jobs st1 ! n) = (Inr (), job')")
    case False
    then show ?thesis using ld st1 inv_time [OF inv t(1)]
      by (auto simp: fire_external_def Let_def split: sum.splits option.splits prod.splits)
  next
    case True
    then obtain n job' where c: "external" "r = Inr ()" "find_index (\<lambda>j. jb_id j = i) (sc_jobs st1) = Some n"
      "jb_status (sc_jobs st1 ! n) = JobActive" "jb_lastRunAt (sc_jobs st1 ! n) \<noteq> Some fireAt"
      "jb_nextRunAt (sc_jobs st1 ! n) = Some fireAt" "advance_job cron fireAt (Some fireAt) now (sc_jobs st1 ! n) = (Inr (), job')" by blast
    have n: "n < length (sc_jobs st1)" using find_index_Some [OF c(3)] by simp
    have often: "\<not> too_frequent (jb_schedule (sc_jobs st1 ! n))" using st1 n by (auto simp: sched_inv_def jobs_ok_def)
    note same = advance_job_ok(1,2) [OF cron often c(7)]
    have later: "\<forall>y. jb_nextRunAt job' = Some y \<longrightarrow> fireAt < y" using advance_job_ok(3) [OF cron often c(7)] by blast
    note fire = inv_fire [OF st1 n same c(6) later]
    let ?js = "(sc_jobs st1)[n := job']"
    have tick: "sc_tick st1 = NoTick" using st1 c(1) by (simp add: sched_inv_def)
    have put: "sched_inv external now (st1\<lparr>sc_jobs := ?js\<rparr>)"
      using inv_put_nth [OF st1 n same fire(1)] tick by (simp add: tick_ok_def)
    show ?thesis
    proof (cases io)
      case False
      then show ?thesis using c ld put by (simp add: fire_external_def Let_def sched_save_def)
    next
      case True
      let ?st = "st1\<lparr>sc_jobs := ?js, sc_disk := Stored ?js, sc_waiting := sc_waiting st1 @ [(n, fireAt)]\<rparr>"
      have e: "snd (fire_external cron external i fireAt now io st) = ?st"
        using True c ld by (simp add: fire_external_def Let_def sched_save_def)
      have ids: "map jb_id ?js = map jb_id (sc_jobs st1)" using n same(1) by (metis list_update_id map_update nth_map)
      have "occurrences ?st = occurrences st1 @ [(jb_id job', Some fireAt)]"
        unfolding occurrences_def tick_pending_def external_pending_def using ids n same(1) tick by simp
      then have occ: "set (occurrences ?st) = insert (jb_id job', Some fireAt) (set (occurrences st1))"
        "distinct (occurrences ?st) = distinct ((jb_id job', Some fireAt) # occurrences st1)" by auto
      show ?thesis unfolding e sched_inv_def occ using st1 fire t(2) n tick by (auto simp: sched_inv_def tick_ok_def)
    qed
  qed
qed

lemma inv_external_dispatch:
  assumes inv: "sched_inv external t st"
  shows "sched_inv external t (external_dispatch k st)"
proof (cases "k < length (sc_waiting st)")
  case True
  let ?w = "sc_waiting st" and ?st = "external_dispatch k st"
  obtain n x where wk: "?w ! k = (n, x)" by fastforce
  have w: "?w = take k ?w @ (n, x) # drop (Suc k) ?w" using id_take_nth_drop [OF True] wk by simp
  have "(n, x) \<in> set ?w" using True wk nth_mem by metis
  then have n: "n < length (sc_jobs st)" using inv by (auto simp: sched_inv_def)
  have ext: "external_pending st = map (\<lambda>(n, t). (map jb_id (sc_jobs st) ! n, Some t)) (take k ?w)
      @ (jb_id (sc_jobs st ! n), Some x) # map (\<lambda>(n, t). (map jb_id (sc_jobs st) ! n, Some t)) (drop (Suc k) ?w)"
    unfolding external_pending_def using n by (subst w) simp
  have new: "occurrences ?st = sc_fired st @ (jb_id (sc_jobs st ! n), Some x) # tick_pending st
      @ map (\<lambda>(n, t). (map jb_id (sc_jobs st) ! n, Some t)) (take k ?w)
      @ map (\<lambda>(n, t). (map jb_id (sc_jobs st) ! n, Some t)) (drop (Suc k) ?w)"
    using True wk by (simp add: external_dispatch_def occurrences_def external_pending_def)
      (simp add: tick_pending_def split: tick_phase.split)
  have "set (occurrences ?st) = set (occurrences st)" "distinct (occurrences ?st) = distinct (occurrences st)"
    unfolding new by (auto simp: occurrences_def ext)
  moreover have "set (sc_waiting ?st) \<subseteq> set ?w"
    using True wk by (auto simp: external_dispatch_def dest: in_set_takeD in_set_dropD)
  ultimately show ?thesis using inv unfolding sched_inv_def
    using True wk by (auto simp: external_dispatch_def tick_ok_def due_ok_def split: tick_phase.splits)
qed (use inv in \<open>simp add: external_dispatch_def\<close>)

lemma inv_external_finish:
  assumes inv: "sched_inv external t st" and t: "t \<le> now"
  shows "sched_inv external now (external_finish n out now io st)"
proof (cases "n < length (sc_jobs st)")
  case True
  let ?st = "st\<lparr>sc_jobs := (sc_jobs st)[n := record_outcome out now (sc_jobs st ! n)]\<rparr>"
  obtain r st2 where sv: "sched_save io ?st = (r, st2)" by fastforce
  note i2 = inv_save [OF inv_outcome [OF inv_time [OF inv t] True] sv]
  show ?thesis using True sv i2 by (cases r) (simp_all add: external_finish_def Let_def inv_provider)
qed (use inv_time [OF inv t] in \<open>simp add: external_finish_def\<close>)

lemma inv_restart:
  assumes "sched_inv external t st"
  shows "sched_inv external t (sched_restart st)"
proof -
  have "occurrences (sched_restart st) = sc_fired st"
    by (simp add: sched_restart_def occurrences_def tick_pending_def external_pending_def)
  moreover have "set (sc_fired st) \<subseteq> set (occurrences st)" "distinct (occurrences st) \<Longrightarrow> distinct (sc_fired st)"
    by (auto simp: occurrences_def)
  ultimately show ?thesis using assms unfolding sched_inv_def
    by (auto simp: sched_restart_def tick_ok_def intro: jobs_ok_mono) (simp_all add: jobs_ok_def)
qed

lemma inv_reach:
  assumes "cron_later cron" and "sched_reach cron external t st"
  shows "sched_inv external t st"
  using assms(2)
proof induction
  case (start t)
  show ?case by (simp add: new_scheduler_def sched_inv_def occurrences_def tick_pending_def external_pending_def jobs_ok_def tick_ok_def)
next
  case (act t st a)
  then show ?case using assms(1)
    by (cases a) (simp_all add: sched_step_def sched_allows_def action_time_def inv_create inv_setStatus inv_begin inv_advance
        inv_dispatch inv_finish inv_external inv_external_dispatch inv_external_finish inv_restart)
qed

section \<open>Properties\<close>


definition demo_cron :: cron_parser where
  "demo_cron e tz now = Inr (now + 60)"

definition demo_job :: "string \<Rightarrow> schedule \<Rightarrow> job_input" where
  "demo_job p s = \<lparr>ji_tenantId = ''t'', ji_sessionId = ''s'', ji_prompt = p, ji_schedule = s, ji_label = None\<rparr>"

text \<open>An interval job fires, the process restarts before the outcome is written, and the next tick fires the next
  occurrence.\<close>

definition demo_schedule :: "sched_action list" where
  "demo_schedule = [AddJob ''a'' 0 (demo_job ''go'' (Interval 1000)) True, TickBegin 1000, TickAdvance True, TickDispatch,
     Restart, TickBegin 1500, TickBegin 2000, TickAdvance True, TickBegin 2500, TickAdvance True, TickDispatch]"

primrec sched_run :: "cron_parser \<Rightarrow> bool \<Rightarrow> sched_action list \<Rightarrow> msec \<times> scheduler \<Rightarrow> (msec \<times> scheduler) option" where
  "sched_run cron external [] s = Some s"
| "sched_run cron external (a # as) s =
     (if sched_allows (fst s) a (snd s) then sched_run cron external as (action_time (fst s) a, sched_step cron external a (snd s)) else None)"

lemma sched_run_reach:
  "sched_run cron external as s = Some s' \<Longrightarrow> sched_reach cron external (fst s) (snd s) \<Longrightarrow> sched_reach cron external (fst s') (snd s')"
proof (induction as arbitrary: s)
  case (Cons a as)
  then have "sched_run cron external as (action_time (fst s) a, sched_step cron external a (snd s)) = Some s'"
    "sched_allows (fst s) a (snd s)" by (auto split: if_splits)
  then show ?case using Cons.IH sched_reach.act [OF Cons.prems(2)] by fastforce
qed simp


text \<open>A job that is cancelled while an earlier job of the same tick is running still fires: the list of due jobs is
  taken once, the status is not looked at again, the command names the occurrence \<^verbatim>\<open>undefined\<close>, and the
  cancelled job ends up completed.\<close>

theorem cancelled_job_still_fires:
  "let now = 5000;
       steps = [AddJob ''a'' 0 (demo_job ''first'' (Once (Some 1000))) True, AddJob ''b'' 0 (demo_job ''second'' (Once (Some 1000))) True,
         TickBegin now, TickAdvance True, TickDispatch, SetJob ''b'' JobCancelled 6000 True, TickFinish RunCompleted 7000 True,
         TickAdvance True, TickDispatch];
       cancelled = fold (sched_step demo_cron False) (take 6 steps) new_scheduler;
       end = fold (sched_step demo_cron False) steps new_scheduler
   in map jb_status (sc_jobs cancelled) = [JobCompleted, JobCancelled] \<and> sc_disk cancelled = Stored (sc_jobs cancelled)
      \<and> sc_fired end = [(''a'', Some 1000), (''b'', None)] \<and> map jb_status (sc_jobs end) = [JobCompleted, JobCompleted]"
  by code_simp

text \<open>Two first calls read the file at the same time; the job the one creates is dropped when the other's read
  returns, and the next save erases it from disk.\<close>

lemma late_load_loses_job:
  "let created = snd (sched_create demo_cron False ''a'' 0 (demo_job ''go'' (Interval 1000)) True (new_scheduler\<lparr>sc_disk := Stored []\<rparr>));
       late = snd (load_apply (Stored []) created)
   in map jb_id (sc_jobs created) = [''a''] \<and> sc_jobs late = [] \<and> sc_disk (snd (sched_save True late)) = Stored []"
  by code_simp

end
