(* ===== verification/Lease.thy ===== *)
theory Lease
  imports Prelude
begin

text \<open>
  The lease of a session, \<^verbatim>\<open>persistence/session-lease.ts\<close>: a lock file per session that a process creates
  exclusively, and removes when it finds it stale. The calls to the file system are the steps, so that
  processes interleave between them. The file has an identity of its own: a process that created it
  keeps writing to it after another process has removed its name.
\<close>

section \<open>State\<close>

text \<open>A created lock is empty until its owner has written it; an empty file is not JSON.\<close>

datatype lock_content = EmptyLock | Lock string nat

text \<open>Where a process is in \<^verbatim>\<open>acquire\<close> or \<^verbatim>\<open>release\<close>; the first number is the attempt.\<close>

datatype lease_pc =
    Resting
  | Opening nat string
  | Created nat string nat
  | Reading nat
  | Removing nat
  | ReadingOwn string
  | RemovingOwn
  | ActiveElsewhere nat
  | CouldNotAcquire

record leases =
  ls_path :: "nat option"
  ls_files :: "lock_content list"
  ls_pc :: "nat \<Rightarrow> lease_pc"
  ls_owned :: "nat \<Rightarrow> string option"
  ls_alive :: "nat \<Rightarrow> bool"

definition no_leases :: leases where
  "no_leases = \<lparr>ls_path = None, ls_files = [], ls_pc = (\<lambda>_. Resting), ls_owned = (\<lambda>_. None), ls_alive = (\<lambda>_. True)\<rparr>"

definition set_pc :: "nat \<Rightarrow> lease_pc \<Rightarrow> leases \<Rightarrow> leases" where
  "set_pc p c st = st\<lparr>ls_pc := (ls_pc st)(p := c)\<rparr>"

section \<open>Steps\<close>

text \<open>\<open>fresh\<close> is the token \<^verbatim>\<open>randomUUID\<close> gives an attempt.\<close>

definition acquire_begin :: "nat \<Rightarrow> string \<Rightarrow> leases \<Rightarrow> leases" where
  "acquire_begin p fresh st = (if ls_owned st p \<noteq> None then st else set_pc p (Opening 0 fresh) st)"

definition release_begin :: "nat \<Rightarrow> leases \<Rightarrow> leases" where
  "release_begin p st = (case ls_owned st p of None \<Rightarrow> st | Some token \<Rightarrow> set_pc p (ReadingOwn token) st)"

definition lock_at :: "leases \<Rightarrow> lock_content option" where
  "lock_at st = map_option (\<lambda>i. ls_files st ! i) (ls_path st)"

definition end_release :: "nat \<Rightarrow> leases \<Rightarrow> leases" where
  "end_release p st = set_pc p Resting (st\<lparr>ls_owned := (ls_owned st)(p := None)\<rparr>)"

text \<open>The next file system call of process \<open>p\<close>.\<close>

definition lease_advance :: "nat \<Rightarrow> string \<Rightarrow> leases \<Rightarrow> leases" where
  "lease_advance p fresh st =
     (case ls_pc st p of
        Opening k token \<Rightarrow>
          (case ls_path st of
             None \<Rightarrow> set_pc p (Created k token (length (ls_files st)))
                       (st\<lparr>ls_path := Some (length (ls_files st)), ls_files := ls_files st @ [EmptyLock]\<rparr>)
           | Some i \<Rightarrow> set_pc p (Reading k) st)
      | Created k token i \<Rightarrow>
          set_pc p Resting (st\<lparr>ls_files := (ls_files st)[i := Lock token p], ls_owned := (ls_owned st)(p := Some token)\<rparr>)
      | Reading k \<Rightarrow>
          (case lock_at st of
             Some (Lock token q) \<Rightarrow> if ls_alive st q then set_pc p (ActiveElsewhere q) st else set_pc p (Removing k) st
           | _ \<Rightarrow> set_pc p (Removing k) st)
      | Removing k \<Rightarrow>
          set_pc p (if Suc k < 2 then Opening (Suc k) fresh else CouldNotAcquire) (st\<lparr>ls_path := None\<rparr>)
      | ReadingOwn token \<Rightarrow>
          (case lock_at st of
             Some (Lock token' q) \<Rightarrow> if token' = token then set_pc p RemovingOwn st else end_release p st
           | _ \<Rightarrow> end_release p st)
      | RemovingOwn \<Rightarrow> end_release p (st\<lparr>ls_path := None\<rparr>)
      | _ \<Rightarrow> st)"

definition lease_crash :: "nat \<Rightarrow> leases \<Rightarrow> leases" where
  "lease_crash p st = set_pc p Resting (st\<lparr>ls_alive := (ls_alive st)(p := False), ls_owned := (ls_owned st)(p := None)\<rparr>)"

text \<open>A caller of \<^verbatim>\<open>acquire\<close> has been told that another process is active, or that the lease could not be had.\<close>

definition at_rest :: "lease_pc \<Rightarrow> bool" where
  "at_rest c = (case c of Resting \<Rightarrow> True | ActiveElsewhere _ \<Rightarrow> True | _ \<Rightarrow> False)"

datatype lease_action = Acquire nat string | Advance nat string | Release nat | Crash nat

definition lease_step :: "lease_action \<Rightarrow> leases \<Rightarrow> leases" where
  "lease_step a st =
     (case a of
        Acquire p fresh \<Rightarrow> if ls_alive st p \<and> (at_rest (ls_pc st p) \<or> ls_pc st p = CouldNotAcquire) then acquire_begin p fresh st else st
      | Advance p fresh \<Rightarrow> if ls_alive st p then lease_advance p fresh st else st
      | Release p \<Rightarrow> if ls_alive st p \<and> ls_pc st p = Resting then release_begin p st else st
      | Crash p \<Rightarrow> lease_crash p st)"

section \<open>Calls that do not overlap\<close>

text \<open>A whole call: \<^verbatim>\<open>acquire\<close> makes at most five file system calls after its first step, \<^verbatim>\<open>release\<close> two.\<close>

datatype lease_call = AcquireAll nat string string | ReleaseAll nat | CrashNow nat

definition whole_call :: "lease_call \<Rightarrow> leases \<Rightarrow> leases" where
  "whole_call c st =
     (case c of
        AcquireAll p f g \<Rightarrow> fold lease_step [Acquire p f, Advance p g, Advance p g, Advance p g, Advance p g, Advance p g] st
      | ReleaseAll p \<Rightarrow> fold lease_step [Release p, Advance p [], Advance p []] st
      | CrashNow p \<Rightarrow> lease_step (Crash p) st)"

text \<open>Between whole calls the lock names exactly the live holder, if there is one.\<close>

definition lease_inv :: "leases \<Rightarrow> bool" where
  "lease_inv st \<longleftrightarrow> (\<forall>p. at_rest (ls_pc st p)) \<and> (\<forall>p t. ls_owned st p = Some t \<longrightarrow> ls_alive st p \<and> ls_pc st p = Resting \<and> lock_at st = Some (Lock t p))
     \<and> (\<forall>i. ls_path st = Some i \<longrightarrow> i < length (ls_files st) \<and> (\<exists>t p. ls_files st ! i = Lock t p \<and> (ls_alive st p \<longrightarrow> ls_owned st p = Some t)))"

lemmas lease_steps = lease_step_def lease_advance_def acquire_begin_def release_begin_def end_release_def set_pc_def lock_at_def

lemma lease_invD:
  assumes "lease_inv st"
  shows "at_rest (ls_pc st p)" and "ls_owned st p = Some t \<Longrightarrow> ls_alive st p" and "ls_owned st p = Some t \<Longrightarrow> ls_pc st p = Resting"
    and "ls_owned st p = Some t \<Longrightarrow> lock_at st = Some (Lock t p)"
  using assms by (simp_all add: lease_inv_def)

lemma at_rest_cases: "at_rest c \<longleftrightarrow> c = Resting \<or> c \<in> range ActiveElsewhere"
  by (cases c) (auto simp: at_rest_def)

lemma lease_inv_acquire:
  assumes inv: "lease_inv st" and live: "ls_alive st p"
  shows "lease_inv (whole_call (AcquireAll p f g) st)
    \<and> (ls_owned (whole_call (AcquireAll p f g) st) p \<noteq> None \<or> (\<exists>q. q \<noteq> p \<and> ls_alive st q \<and> ls_owned st q \<noteq> None))"
proof (cases "ls_owned st p")
  case (Some t)
  then have "ls_pc st p = Resting" using inv by (simp add: lease_inv_def)
  then have "whole_call (AcquireAll p f g) st = st" using Some live by (simp add: whole_call_def lease_steps)
  then show ?thesis using inv Some by simp
next
  case None
  have pc: "at_rest (ls_pc st p)" using inv by (simp add: lease_inv_def)
  show ?thesis
  proof (cases "ls_path st")
    case None': None
    have "whole_call (AcquireAll p f g) st = st\<lparr>ls_path := Some (length (ls_files st)), ls_files := ls_files st @ [Lock f p],
        ls_pc := (ls_pc st)(p := Resting), ls_owned := (ls_owned st)(p := Some f)\<rparr>"
      using None None' live pc by (simp add: whole_call_def lease_steps)
    moreover have "ls_owned st q = None" for q using inv None' by (cases "ls_owned st q") (auto simp: lease_inv_def lock_at_def)
    ultimately show ?thesis using inv live by (auto simp: lease_inv_def lock_at_def at_rest_def)
  next
    case (Some i)
    then obtain t q where i: "i < length (ls_files st)" "ls_files st ! i = Lock t q" "ls_alive st q \<longrightarrow> ls_owned st q = Some t"
      using inv unfolding lease_inv_def by blast
    show ?thesis
    proof (cases "ls_alive st q")
      case True
      then have "q \<noteq> p" using i(3) None by auto
      have "whole_call (AcquireAll p f g) st = st\<lparr>ls_pc := (ls_pc st)(p := ActiveElsewhere q)\<rparr>"
        using None Some i(1,2) True live pc by (simp add: whole_call_def lease_steps)
      moreover have "ls_owned st q \<noteq> None" using True i(3) by simp
      ultimately show ?thesis using inv True \<open>q \<noteq> p\<close> None by (auto simp: lease_inv_def lock_at_def at_rest_def)
    next
      case False
      have "whole_call (AcquireAll p f g) st = st\<lparr>ls_path := Some (length (ls_files st)), ls_files := ls_files st @ [Lock g p],
          ls_pc := (ls_pc st)(p := Resting), ls_owned := (ls_owned st)(p := Some g)\<rparr>"
        using None Some i(1,2) False live pc by (simp add: whole_call_def lease_steps)
      moreover have "ls_owned st r = None" for r
        using inv Some i(2) False by (cases "ls_owned st r") (auto simp: lease_inv_def lock_at_def)
      ultimately show ?thesis using inv live by (auto simp: lease_inv_def lock_at_def at_rest_def)
    qed
  qed
qed

lemma whole_call_dead: "\<not> ls_alive st p \<Longrightarrow> whole_call (AcquireAll p f g) st = st" "\<not> ls_alive st p \<Longrightarrow> whole_call (ReleaseAll p) st = st"
  by (simp_all add: whole_call_def lease_step_def)

lemma lease_inv_release:
  assumes inv: "lease_inv st" and live: "ls_alive st p"
  shows "lease_inv (whole_call (ReleaseAll p) st)"
proof (cases "ls_owned st p")
  case None
  have "at_rest (ls_pc st p)" using inv by (simp add: lease_inv_def)
  then have "whole_call (ReleaseAll p) st = st" using None live
    by (auto simp: whole_call_def lease_steps at_rest_cases)
  then show ?thesis using inv by simp
next
  case (Some t)
  then have o: "ls_pc st p = Resting" "lock_at st = Some (Lock t p)" using inv by (auto simp: lease_inv_def)
  then obtain i where i: "ls_path st = Some i" "ls_files st ! i = Lock t p" by (auto simp: lock_at_def)
  have "whole_call (ReleaseAll p) st = st\<lparr>ls_path := None, ls_pc := (ls_pc st)(p := Resting), ls_owned := (ls_owned st)(p := None)\<rparr>"
    using Some o(1) i live by (simp add: whole_call_def lease_steps)
  moreover have "ls_owned st q = None" if "q \<noteq> p" for q
    using inv o(2) that by (cases "ls_owned st q") (auto simp: lease_inv_def)
  ultimately show ?thesis using inv by (auto simp: lease_inv_def lock_at_def at_rest_def)
qed

lemma lease_inv_crash: "lease_inv st \<Longrightarrow> lease_inv (whole_call (CrashNow p) st)"
proof -
  assume inv: "lease_inv st"
  let ?st = "whole_call (CrashNow p) st"
  have e: "?st = st\<lparr>ls_alive := (ls_alive st)(p := False), ls_owned := (ls_owned st)(p := None), ls_pc := (ls_pc st)(p := Resting)\<rparr>"
    by (simp add: whole_call_def lease_step_def lease_crash_def set_pc_def)
  have "at_rest (ls_pc ?st q)" for q using lease_invD(1) [OF inv] by (simp add: e at_rest_def)
  moreover have "ls_alive ?st q \<and> ls_pc ?st q = Resting \<and> lock_at ?st = Some (Lock t q)" if "ls_owned ?st q = Some t" for q t
    using that lease_invD(2,3,4) [OF inv, of q t] by (simp add: e lock_at_def split: if_splits)
  moreover have "i < length (ls_files ?st) \<and> (\<exists>t q. ls_files ?st ! i = Lock t q \<and> (ls_alive ?st q \<longrightarrow> ls_owned ?st q = Some t))"
    if "ls_path ?st = Some i" for i
  proof -
    have "ls_path st = Some i" using that by (simp add: e)
    then obtain t q where "i < length (ls_files st)" "ls_files st ! i = Lock t q" "ls_alive st q \<longrightarrow> ls_owned st q = Some t"
      using inv unfolding lease_inv_def by blast
    then show ?thesis by (simp add: e)
  qed
  ultimately show ?thesis unfolding lease_inv_def by blast
qed

lemma lease_inv_call: "lease_inv st \<Longrightarrow> lease_inv (whole_call c st)"
proof (cases c)
  case (AcquireAll p f g)
  then show "lease_inv st \<Longrightarrow> lease_inv (whole_call c st)"
    using lease_inv_acquire [of st p f g] whole_call_dead(1) [of st p f g] by (cases "ls_alive st p") auto
next
  case (ReleaseAll p)
  then show "lease_inv st \<Longrightarrow> lease_inv (whole_call c st)"
    using lease_inv_release [of st p] whole_call_dead(2) [of st p] by (cases "ls_alive st p") auto
qed (use lease_inv_crash in blast)

lemma lease_inv_calls: "lease_inv (fold whole_call cs no_leases)"
proof (induction cs rule: rev_induct)
  case Nil
  show ?case by (simp add: no_leases_def lease_inv_def at_rest_def)
qed (simp add: lease_inv_call)

section \<open>Properties\<close>

text \<open>C31. When whole calls do not overlap, at most one process holds the lease, whatever crashes in between, and a
  live process that asks for it gets it at once unless another live process holds it: a lock a crash left
  behind is taken over.\<close>

theorem lease_exclusive:
  "(ls_owned (fold whole_call cs no_leases) p \<noteq> None \<longrightarrow> ls_owned (fold whole_call cs no_leases) q \<noteq> None \<longrightarrow> p = q)
   \<and> (ls_alive (fold whole_call cs no_leases) p \<longrightarrow>
        ls_owned (whole_call (AcquireAll p f g) (fold whole_call cs no_leases)) p \<noteq> None
        \<or> (\<exists>r. r \<noteq> p \<and> ls_alive (fold whole_call cs no_leases) r \<and> ls_owned (fold whole_call cs no_leases) r \<noteq> None))"
proof -
  let ?st = "fold whole_call cs no_leases"
  have inv: "lease_inv ?st" by (rule lease_inv_calls)
  have "p = q" if both: "ls_owned ?st p \<noteq> None" "ls_owned ?st q \<noteq> None"
  proof -
    obtain t u where o: "ls_owned ?st p = Some t" "ls_owned ?st q = Some u" using both by auto
    from lease_invD(4) [OF inv o(1)] lease_invD(4) [OF inv o(2)] show ?thesis by simp
  qed
  then show ?thesis using lease_inv_acquire [OF inv] by blast
qed

definition demo_lease_calls :: "lease_call list" where
  "demo_lease_calls = [AcquireAll 1 ''a'' ''b'', AcquireAll 2 ''c'' ''d'', CrashNow 1]"

lemma lease_exclusive_witness:
  "ls_owned (whole_call (AcquireAll 2 ''e'' ''f'') (fold whole_call demo_lease_calls no_leases)) 2 \<noteq> None"
proof -
  let ?st = "fold whole_call demo_lease_calls no_leases"
  have "ls_alive ?st 2" by code_simp
  moreover have "ls_owned ?st r = None" for r
  proof (cases "ls_owned ?st r")
    case (Some t)
    have "lock_at ?st = Some (Lock ''a'' 1)" "\<not> ls_alive ?st 1" by code_simp+
    then show ?thesis using lease_invD(2,4) [OF lease_inv_calls Some] by simp
  qed simp
  ultimately show ?thesis using lease_exclusive [of demo_lease_calls 2 2 "''e''" "''f''"] by simp
qed

text \<open>With overlapping calls two live processes hold the lease at the same time, without any crash: a lock is
  empty between its creation and its writing, an empty lock does not parse, and one that does not parse
  is removed as stale.\<close>

theorem lease_held_twice:
  "let st = fold lease_step [Acquire 1 ''a'', Acquire 2 ''b'', Advance 1 [], Advance 2 [], Advance 2 [], Advance 1 [], Advance 2 ''c'',
       Advance 2 [], Advance 2 []] no_leases
   in ls_owned st 1 = Some ''a'' \<and> ls_owned st 2 = Some ''c'' \<and> ls_alive st 1 \<and> ls_alive st 2"
  by code_simp

end
