(* ===== verification/LongestPath.thy ===== *)
theory LongestPath
  imports Dfs
begin

text \<open>
  The longest-chain computation of \<^verbatim>\<open>recompute\<close> in \<^verbatim>\<open>aurora/planning-service.ts\<close>, as a function of the
  steps' dependencies and estimates: the recursion \<^verbatim>\<open>longest\<close> with its memo and its guard set. The
  recursion is bounded by fuel; on an acyclic graph one more than the number of steps is enough, and
  the result is a heaviest chain that ends in the given step.
\<close>

text \<open>\<open>node key\<close> is the step of a key: its dependencies and its estimate. A result is minutes and path.\<close>

fun longest :: "('a \<Rightarrow> ('a list \<times> int) option) \<Rightarrow> nat \<Rightarrow> 'a \<Rightarrow> 'a list \<Rightarrow> ('a, int \<times> 'a list) js_map
      \<Rightarrow> ((int \<times> 'a list) \<times> 'a list \<times> ('a, int \<times> 'a list) js_map) option"
  and longest_among :: "('a \<Rightarrow> ('a list \<times> int) option) \<Rightarrow> nat \<Rightarrow> 'a list \<Rightarrow> int \<times> 'a list \<Rightarrow> 'a list \<Rightarrow> ('a, int \<times> 'a list) js_map
      \<Rightarrow> ((int \<times> 'a list) \<times> 'a list \<times> ('a, int \<times> 'a list) js_map) option"
where
  "longest node 0 key guard memo = None"
| "longest node (Suc n) key guard memo =
     (case map_get memo key of
        Some r \<Rightarrow> Some (r, guard, memo)
      | None \<Rightarrow>
          if key \<in> set guard then Some ((0, []), guard, memo)
          else
            (case node key of
               None \<Rightarrow> Some ((0, []), key # guard, memo)
             | Some (deps, estimate) \<Rightarrow>
                 (case longest_among node n deps (0, []) (key # guard) memo of
                    None \<Rightarrow> None
                  | Some (best, guard', memo') \<Rightarrow>
                      let r = (fst best + estimate, snd best @ [key])
                      in Some (r, filter (\<lambda>k. k \<noteq> key) guard', map_set key r memo'))))"
| "longest_among node n [] best guard memo = Some (best, guard, memo)"
| "longest_among node n (d # ds) best guard memo =
     (case longest node n d guard memo of
        None \<Rightarrow> None
      | Some (candidate, guard', memo') \<Rightarrow>
          longest_among node n ds (if fst candidate > fst best then candidate else best) guard' memo')"

definition node_succs :: "('a \<Rightarrow> ('a list \<times> int) option) \<Rightarrow> 'a \<Rightarrow> 'a list" where
  "node_succs node k = (case node k of None \<Rightarrow> [] | Some (deps, _) \<Rightarrow> deps)"

definition node_weight :: "('a \<Rightarrow> ('a list \<times> int) option) \<Rightarrow> 'a \<Rightarrow> int" where
  "node_weight node k = (case node k of None \<Rightarrow> 0 | Some (_, w) \<Rightarrow> w)"

text \<open>A chain of steps, each depending on the one before.\<close>

definition chain :: "('a \<Rightarrow> ('a list \<times> int) option) \<Rightarrow> 'a list \<Rightarrow> bool" where
  "chain node ks \<longleftrightarrow> successively (\<lambda>a b. a \<in> set (node_succs node b)) ks"

definition minutes :: "('a \<Rightarrow> ('a list \<times> int) option) \<Rightarrow> 'a list \<Rightarrow> int" where
  "minutes node ks = sum_list (map (node_weight node) ks)"

lemma chain_snoc: "chain node (ks @ [k]) \<longleftrightarrow> chain node ks \<and> (ks = [] \<or> last ks \<in> set (node_succs node k))"
  by (cases ks rule: rev_cases) (auto simp: chain_def successively_append_iff)

lemma chain_single [simp]: "chain node []" "chain node [k]"
  by (simp_all add: chain_def)

text \<open>\<open>r\<close> is a heaviest chain that ends in \<open>key\<close>.\<close>

definition heaviest :: "('a \<Rightarrow> ('a list \<times> int) option) \<Rightarrow> 'a \<Rightarrow> int \<times> 'a list \<Rightarrow> bool" where
  "heaviest node key r \<longleftrightarrow> snd r \<noteq> [] \<and> last (snd r) = key \<and> chain node (snd r) \<and> fst r = minutes node (snd r)
     \<and> (\<forall>q. chain node q \<longrightarrow> q \<noteq> [] \<longrightarrow> last q = key \<longrightarrow> minutes node q \<le> fst r)"

text \<open>\<open>r\<close> is at least as heavy as every chain that ends in one of \<open>keys\<close>, and is such a chain unless it is empty.\<close>

definition best_of :: "('a \<Rightarrow> ('a list \<times> int) option) \<Rightarrow> 'a set \<Rightarrow> int \<times> 'a list \<Rightarrow> bool" where
  "best_of node keys r \<longleftrightarrow> (r = (0, []) \<or> (\<exists>k \<in> keys. heaviest node k r)) \<and> 0 \<le> fst r
     \<and> (\<forall>q. chain node q \<longrightarrow> q \<noteq> [] \<longrightarrow> last q \<in> keys \<longrightarrow> minutes node q \<le> fst r)"

definition memo_ok :: "('a \<Rightarrow> ('a list \<times> int) option) \<Rightarrow> ('a, int \<times> 'a list) js_map \<Rightarrow> bool" where
  "memo_ok node memo \<longleftrightarrow> (\<forall>k r. map_get memo k = Some r \<longrightarrow> heaviest node k r)"

lemma heaviest_extend:
  assumes "best_of node (set deps) best" and "node key = Some (deps, w)"
  shows "heaviest node key (fst best + w, snd best @ [key])"
proof -
  have succs: "node_succs node key = deps" "node_weight node key = w" using assms(2) by (simp_all add: node_succs_def node_weight_def)
  have chain': "chain node (snd best @ [key])" "minutes node (snd best @ [key]) = fst best + w"
    using assms(1) succs by (auto simp: best_of_def heaviest_def chain_snoc minutes_def)
  moreover have "minutes node q \<le> fst best + w" if q: "chain node q" "q \<noteq> []" "last q = key" for q
  proof -
    obtain p where p: "q = p @ [key]" using q(2,3) by (metis append_butlast_last_id)
    have "minutes node p \<le> fst best"
    proof (cases "p = []")
      case True
      then show ?thesis using assms(1) by (simp add: best_of_def minutes_def)
    next
      case False
      then show ?thesis using assms(1) q(1) succs unfolding p best_of_def chain_snoc by auto
    qed
    then show ?thesis by (simp add: p minutes_def succs)
  qed
  ultimately show ?thesis by (simp add: heaviest_def)
qed

definition longest_pre :: "('a \<Rightarrow> ('a list \<times> int) option) \<Rightarrow> 'a set \<Rightarrow> nat \<Rightarrow> 'a set \<Rightarrow> 'a list \<Rightarrow> ('a, int \<times> 'a list) js_map \<Rightarrow> bool" where
  "longest_pre node S n keys guard memo \<longleftrightarrow> finite S \<and> (\<forall>k \<in> S. node k \<noteq> None \<and> set (node_succs node k) \<subseteq> S \<and> 0 \<le> node_weight node k)
     \<and> acyclic (edges (node_succs node)) \<and> keys \<subseteq> S \<and> card (S - set guard) < n
     \<and> (\<forall>g \<in> set guard. \<forall>k \<in> keys. (g, k) \<in> (edges (node_succs node))\<^sup>+) \<and> memo_ok node memo"

lemma longest_pre_enter:
  assumes pre: "longest_pre node S (Suc n) {key} guard memo" and new: "key \<notin> set guard" and node: "node key = Some (deps, w)"
  shows "longest_pre node S n (set deps) (key # guard) memo"
proof -
  have key: "key \<in> S" and deps: "node_succs node key = deps" using pre node by (auto simp: longest_pre_def node_succs_def)
  have "card (S - set (key # guard)) < card (S - set guard)"
    using pre key new by (intro psubset_card_mono) (auto simp: longest_pre_def)
  moreover have "(g, d) \<in> (edges (node_succs node))\<^sup>+" if "g \<in> set (key # guard)" "d \<in> set deps" for g d
  proof -
    have e: "(key, d) \<in> edges (node_succs node)" using that deps by (simp add: edges_def)
    have "g = key \<or> (g, key) \<in> (edges (node_succs node))\<^sup>+" using pre that by (auto simp: longest_pre_def)
    then show ?thesis using e by (metis r_into_trancl' trancl.trancl_into_trancl)
  qed
  moreover have "set deps \<subseteq> S" using pre key deps by (auto simp: longest_pre_def)
  ultimately show ?thesis using pre by (auto simp: longest_pre_def)
qed

lemma best_of_step:
  assumes "best_of node K best" and "heaviest node d c"
  shows "best_of node (insert d K) (if fst c > fst best then c else best)"
  using assms unfolding best_of_def heaviest_def by (auto; fastforce)

lemma best_of_mono: "best_of node K best \<Longrightarrow> K = K' \<Longrightarrow> best_of node K' best"
  by simp

lemma longest_correct:
  "longest_pre node S n {key} guard memo \<Longrightarrow>
     \<exists>r guard' memo'. longest node n key guard memo = Some (r, guard', memo') \<and> heaviest node key r \<and> set guard' = set guard \<and> memo_ok node memo'"
  "longest_pre node S n (set ds) guard memo \<Longrightarrow> best_of node K best \<Longrightarrow>
     \<exists>r guard' memo'. longest_among node n ds best guard memo = Some (r, guard', memo') \<and> best_of node (K \<union> set ds) r
       \<and> set guard' = set guard \<and> memo_ok node memo'"
proof (induction node n key guard memo and node n ds best guard memo arbitrary: and K rule: longest_longest_among.induct)
  case (1 node key guard memo)
  then show ?case by (simp add: longest_pre_def)
next
  case (2 node n key guard memo)
  have acyc: "acyclic (edges (node_succs node))" and mk: "memo_ok node memo" using "2.prems" by (simp_all add: longest_pre_def)
  have new: "key \<notin> set guard" using "2.prems" by (auto simp: longest_pre_def acyclic_def)
  show ?case
  proof (cases "map_get memo key")
    case (Some r)
    then have "heaviest node key r" using mk unfolding memo_ok_def by blast
    then show ?thesis using Some mk by simp
  next
    case None
    obtain deps w where node: "node key = Some (deps, w)" using "2.prems" by (auto simp: longest_pre_def)
    have pre: "longest_pre node S n (set deps) (key # guard) memo" using longest_pre_enter [OF "2.prems" new node] .
    have "best_of node {} (0, [])" by (simp add: best_of_def)
    from "2.IH" [OF None new node refl pre this] obtain best g' m' where
      l: "longest_among node n deps (0, []) (key # guard) memo = Some (best, g', m')" "best_of node (set deps) best"
        "set g' = set (key # guard)" "memo_ok node m'" by auto
    have h: "heaviest node key (fst best + w, snd best @ [key])" by (rule heaviest_extend [OF l(2) node])
    have "set (filter (\<lambda>k. k \<noteq> key) g') = set guard" using l(3) new by auto
    moreover have "memo_ok node (map_set key (fst best + w, snd best @ [key]) m')"
      using l(4) h by (simp add: memo_ok_def js_simps)
    ultimately show ?thesis using None new node l(1) h by (simp add: Let_def)
  qed
next
  case (3 node n best guard memo)
  then show ?case by (simp add: longest_pre_def)
next
  case (4 node n d ds best guard memo)
  have pre: "longest_pre node S n {d} guard memo" using "4.prems"(1) by (auto simp: longest_pre_def)
  from "4.IH"(1) [OF this] obtain c g' m' where
    l: "longest node n d guard memo = Some (c, g', m')" "heaviest node d c" "set g' = set guard" "memo_ok node m'" by auto
  have "longest_pre node S n (set ds) g' m'" using "4.prems"(1) l(3,4) by (auto simp: longest_pre_def)
  from "4.IH"(2) [OF l(1) refl refl this best_of_step [OF "4.prems"(2) l(2)]]
  show ?case using l(1,3) by simp
qed

end
