(* ===== verification/Results.thy ===== *)
theory Results
  imports AuroraState
begin

text \<open>
  Sequencing of validations that may throw, for the services whose operations check one field after
  the other: \<open>bind_ok\<close> runs the rest of the code on the value of a check that passed.
\<close>

definition bind_ok :: "('e, 'a) result \<Rightarrow> ('a \<Rightarrow> ('e, 'b) result) \<Rightarrow> ('e, 'b) result" where
  "bind_ok r f = (case r of Inl e \<Rightarrow> throw e | Inr x \<Rightarrow> f x)"

lemma bind_ok_simps [simp]: "bind_ok (Inl e) f = Inl e" "bind_ok (Inr x) f = f x"
  by (simp_all add: bind_ok_def)

lemma bind_ok_Inr: "bind_ok r f = Inr y \<longleftrightarrow> (\<exists>x. r = Inr x \<and> f x = Inr y)"
  by (cases r) auto

text \<open>A failed validator of \<^verbatim>\<open>util/aurora-state.ts\<close> as an error of the service.\<close>

definition lift_error :: "('d \<Rightarrow> 'e) \<Rightarrow> ('d, 'a) result \<Rightarrow> ('e, 'a) result" where
  "lift_error f r = map_sum f (\<lambda>x. x) r"

lemma lift_error_Inr [simp]: "lift_error f r = Inr x \<longleftrightarrow> r = Inr x"
  by (cases r) (auto simp: lift_error_def)

text \<open>\<^verbatim>\<open>value ? auroraText(value, max, label) : ""\<close>: an absent or empty text is not checked.\<close>

definition text_if :: "string option \<Rightarrow> nat \<Rightarrow> string \<Rightarrow> (aurora_error, string) result" where
  "text_if v mx label = (case v of None \<Rightarrow> ok [] | Some [] \<Rightarrow> ok [] | Some t \<Rightarrow> auroraText t mx label)"

text \<open>\<^verbatim>\<open>...(value ? { field: auroraText(value) } : {})\<close>: an absent or empty text leaves the field out.\<close>

definition field_if :: "string option \<Rightarrow> nat \<Rightarrow> string \<Rightarrow> (aurora_error, string option) result" where
  "field_if v mx label = (case v of None \<Rightarrow> ok None | Some [] \<Rightarrow> ok None
     | Some t \<Rightarrow> (case auroraText t mx label of Inl e \<Rightarrow> throw e | Inr x \<Rightarrow> ok (Some x)))"

text \<open>\<^verbatim>\<open>value ?? fallback\<close>.\<close>

definition or_else :: "'a option \<Rightarrow> 'a \<Rightarrow> 'a" where
  "or_else x d = (case x of Some y \<Rightarrow> y | None \<Rightarrow> d)"

lemma or_else_simps [simp]: "or_else None d = d" "or_else (Some x) d = x"
  by (simp_all add: or_else_def)

text \<open>\<^verbatim>\<open>...(value ? { field: value } : {})\<close>: an empty text counts as absent.\<close>

definition given_text :: "string option \<Rightarrow> string option" where
  "given_text v = (case v of Some [] \<Rightarrow> None | _ \<Rightarrow> v)"

end
