(* ===== verification/Planning.thy ===== *)
theory Planning
  imports Results LongestPath JsText
begin

text \<open>
  Aurora plans, \<^verbatim>\<open>aurora/planning-service.ts\<close>: building a step graph, the derived figures with the critical
  path, versioned revisions, the advance of a step, abandoning and superseding, and the reports. The
  state is a durable JSON file, the operations work on the live object, so a throw keeps what was
  changed before it. The digest of a plan and the path a cycle error names are left out; figures are
  rationals.
\<close>

section \<open>Data\<close>

datatype plan_status = PlanDraft | PlanActive | PlanBlocked | PlanCompleted | PlanAbandoned | PlanSuperseded

datatype step_status = StepPending | StepReady | StepInProgress | StepBlocked | StepDone | StepSkipped | StepFailed

datatype plan_horizon = Reactive | Tactical | Strategic

datatype revision_trigger = ByHand | StepFailure | PlanBlockage | ScopeChange | BudgetChange | ReviewOutcome

record plan_step =
  ps_id :: id
  ps_key :: string
  ps_title :: string
  ps_detail :: string
  ps_dependsOn :: "string list"
  ps_status :: step_status
  ps_estimateMinutes :: int
  ps_estimateTokens :: int
  ps_riskLevel :: rat
  ps_verification :: string
  ps_assignedRoleId :: "string option"
  ps_taskId :: "string option"
  ps_evidenceRefs :: "string list"
  ps_startedAt :: "msec option"
  ps_finishedAt :: "msec option"
  ps_actualMinutes :: "int option"
  ps_note :: "string option"

record plan_revision =
  rev_version :: nat
  rev_reason :: string
  rev_trigger :: revision_trigger
  rev_changed :: "string list"
  rev_at :: msec

record plan_record =
  pl_id :: id
  pl_tenantId :: string
  pl_sessionId :: "string option"
  pl_goalId :: "string option"
  pl_title :: string
  pl_objective :: string
  pl_horizon :: plan_horizon
  pl_status :: plan_status
  pl_version :: nat
  pl_steps :: "plan_step list"
  pl_criticalPath :: "string list"
  pl_estimatedMinutes :: int
  pl_estimatedTokens :: int
  pl_riskBufferMinutes :: int
  pl_progress :: rat
  pl_tags :: "string list"
  pl_revisions :: "plan_revision list"
  pl_supersedesPlanId :: "id option"
  pl_decisionId :: "string option"
  pl_createdAt :: msec
  pl_updatedAt :: msec
  pl_completedAt :: "msec option"

record planning =
  pn_plans :: "plan_record list"

definition no_plans :: planning where "no_plans = \<lparr>pn_plans = []\<rparr>"

definition MAX_PLANS :: nat where "MAX_PLANS = 20000"

definition MAX_STEPS :: nat where "MAX_STEPS = 200"

datatype plan_error =
    PlanText aurora_error
  | PlanLimit
  | StepCount
  | BadStepKey
  | DuplicateStep string
  | UnknownDependency string string
  | SelfDependency string
  | DependencyCycle
  | PlanNotFound
  | PlanFinished
  | StepNotFound
  | StillDepends string "string list"

section \<open>Building the steps\<close>

record step_input =
  si_key :: string
  si_title :: string
  si_detail :: "string option"
  si_dependsOn :: "string list"
  si_estimateMinutes :: "int option"
  si_estimateTokens :: "int option"
  si_riskLevel :: "rat option"
  si_verification :: "string option"
  si_assignedRoleId :: "string option"
  si_status :: "step_status option"

text \<open>\<^verbatim>\<open>/^[a-z0-9][a-z0-9._-]{0,119}$/\<close>\<close>

definition step_key_ok :: "string \<Rightarrow> bool" where
  "step_key_ok s = (case s of [] \<Rightarrow> False
     | c # cs \<Rightarrow> lower_alnum c \<and> length cs \<le> 119 \<and> list_all (\<lambda>d. lower_alnum d \<or> d \<in> set ''._-'') cs)"

definition build_step :: "id \<Rightarrow> string list \<Rightarrow> step_input \<Rightarrow> (plan_error, plan_step) result" where
  "build_step fresh seen i =
     bind_ok (lift_error PlanText (auroraText (si_key i) 120 ''Step key'')) (\<lambda>raw.
       let key = js_lower raw in
       if \<not> step_key_ok key then throw BadStepKey
       else if key \<in> set seen then throw (DuplicateStep key)
       else
         bind_ok (lift_error PlanText (auroraText (si_title i) 300 ''Step title'')) (\<lambda>ti.
         bind_ok (lift_error PlanText (text_if (si_detail i) 20000 ''Step detail'')) (\<lambda>de.
         bind_ok (lift_error PlanText (auroraInteger (or_else (si_estimateMinutes i) 30) 0 100000 ''Step estimate minutes'')) (\<lambda>mins.
         bind_ok (lift_error PlanText (auroraInteger (or_else (si_estimateTokens i) 10000) 0 100000000 ''Step estimate tokens'')) (\<lambda>toks.
         bind_ok (lift_error PlanText (auroraUnit (or_else (si_riskLevel i) (2 / 10)) ''Step risk'')) (\<lambda>risk.
         bind_ok (lift_error PlanText (text_if (si_verification i) 2000 ''Step verification'')) (\<lambda>ve.
         bind_ok (lift_error PlanText (field_if (si_assignedRoleId i) 200 ''Step role'')) (\<lambda>role.
           ok \<lparr>ps_id = fresh, ps_key = key, ps_title = ti, ps_detail = de,
               ps_dependsOn = take 50 (dedupe (map (\<lambda>v. js_lower (js_trim v)) (si_dependsOn i))),
               ps_status = or_else (si_status i) StepPending, ps_estimateMinutes = mins, ps_estimateTokens = toks,
               ps_riskLevel = risk, ps_verification = ve, ps_assignedRoleId = role, ps_taskId = None, ps_evidenceRefs = [],
               ps_startedAt = None, ps_finishedAt = None, ps_actualMinutes = None, ps_note = None\<rparr>))))))))"

fun build_list :: "(nat \<Rightarrow> id) \<Rightarrow> nat \<Rightarrow> string list \<Rightarrow> step_input list \<Rightarrow> (plan_error, plan_step list) result" where
  "build_list fresh n seen [] = ok []"
| "build_list fresh n seen (i # is) =
     bind_ok (build_step (fresh n) seen i) (\<lambda>s.
     bind_ok (build_list fresh (Suc n) (seen @ [ps_key s]) is) (\<lambda>ss. ok (s # ss)))"

fun dep_error :: "string list \<Rightarrow> string \<Rightarrow> string list \<Rightarrow> plan_error option" where
  "dep_error keys k [] = None"
| "dep_error keys k (d # ds) =
     (if d \<notin> set keys then Some (UnknownDependency k d) else if d = k then Some (SelfDependency k) else dep_error keys k ds)"

fun deps_error :: "string list \<Rightarrow> plan_step list \<Rightarrow> plan_error option" where
  "deps_error keys [] = None"
| "deps_error keys (s # ss) = (case dep_error keys (ps_key s) (ps_dependsOn s) of Some e \<Rightarrow> Some e | None \<Rightarrow> deps_error keys ss)"

text \<open>\<^verbatim>\<open>new Map(steps.map((item) => [item.key, item])).get(key)\<close>: the last step of a key.\<close>

definition by_key :: "plan_step list \<Rightarrow> string \<Rightarrow> plan_step option" where
  "by_key steps k = List.find (\<lambda>s. ps_key s = k) (rev steps)"

definition step_node :: "plan_step list \<Rightarrow> string \<Rightarrow> (string list \<times> int) option" where
  "step_node steps k = map_option (\<lambda>s. (ps_dependsOn s, ps_estimateMinutes s)) (by_key steps k)"

text \<open>\<^verbatim>\<open>findCycle\<close>: the marking search of theory Dfs over the dependencies.\<close>

definition findCycle :: "plan_step list \<Rightarrow> bool" where
  "findCycle steps = dfs_cyclic (node_succs (step_node steps)) (Suc (length steps)) (map ps_key steps)"

definition buildSteps :: "(nat \<Rightarrow> id) \<Rightarrow> step_input list \<Rightarrow> (plan_error, plan_step list) result" where
  "buildSteps fresh is =
     (if is = [] \<or> length is > MAX_STEPS then throw StepCount
      else
        bind_ok (build_list fresh 0 [] is) (\<lambda>steps.
          case deps_error (map ps_key steps) steps of
            Some e \<Rightarrow> throw e
          | None \<Rightarrow> if findCycle steps then throw DependencyCycle else ok steps))"

section \<open>Derived figures\<close>

definition step_settled :: "step_status \<Rightarrow> bool" where
  "step_settled s = (s = StepDone \<or> s = StepSkipped)"

definition satisfied :: "plan_step list \<Rightarrow> string \<Rightarrow> bool" where
  "satisfied steps k = (case by_key steps k of None \<Rightarrow> False | Some s \<Rightarrow> step_settled (ps_status s))"

text \<open>The loop over the steps: each has a guard set of its own, the memo is shared.\<close>

fun critical_loop :: "('a \<Rightarrow> ('a list \<times> int) option) \<Rightarrow> nat \<Rightarrow> 'a list \<Rightarrow> int \<times> 'a list \<Rightarrow> ('a, int \<times> 'a list) js_map
    \<Rightarrow> (int \<times> 'a list) option" where
  "critical_loop node fuel [] best memo = Some best"
| "critical_loop node fuel (k # ks) best memo =
     (case longest node fuel k [] memo of
        None \<Rightarrow> None
      | Some (candidate, _, memo') \<Rightarrow> critical_loop node fuel ks (if fst candidate > fst best then candidate else best) memo')"

definition critical :: "plan_step list \<Rightarrow> (int \<times> string list) option" where
  "critical steps = critical_loop (step_node steps) (Suc (length steps)) (map ps_key steps) (0, []) []"

definition round_half_up :: "rat \<Rightarrow> int" where
  "round_half_up x = \<lfloor>x + 1 / 2\<rfloor>"

text \<open>The last loop of \<^verbatim>\<open>recompute\<close> changes pending steps to ready in place; that changes no answer of
  \<^verbatim>\<open>byKey\<close> about being done or skipped.\<close>

definition mark_ready :: "plan_step list \<Rightarrow> plan_step list" where
  "mark_ready steps = map (\<lambda>s. if ps_status s = StepPending \<and> list_all (satisfied steps) (ps_dependsOn s)
     then s\<lparr>ps_status := StepReady\<rparr> else s) steps"

definition recompute :: "plan_record \<Rightarrow> plan_record" where
  "recompute p =
     (let steps = pl_steps p;
          finished = length (filter (\<lambda>s. step_settled (ps_status s)) steps)
      in p\<lparr>pl_criticalPath := (case critical steps of None \<Rightarrow> [] | Some (_, path) \<Rightarrow> path),
           pl_estimatedMinutes := sum_list (map ps_estimateMinutes steps),
           pl_estimatedTokens := sum_list (map ps_estimateTokens steps),
           pl_riskBufferMinutes := round_half_up (sum_list (map (\<lambda>s. of_int (ps_estimateMinutes s) * ps_riskLevel s) steps)),
           pl_progress := (if steps = [] then 0 else to_fixed6 (of_nat finished / of_nat (length steps))),
           pl_steps := mark_ready steps\<rparr>)"

section \<open>Operations on one plan\<close>

record plan_input =
  pi_tenantId :: string
  pi_title :: string
  pi_objective :: string
  pi_horizon :: "plan_horizon option"
  pi_sessionId :: "string option"
  pi_goalId :: "string option"
  pi_decisionId :: "string option"
  pi_tags :: "string list option"
  pi_steps :: "step_input list"

definition new_plan :: "(nat \<Rightarrow> id) \<Rightarrow> id \<Rightarrow> msec \<Rightarrow> plan_input \<Rightarrow> (plan_error, plan_record) result" where
  "new_plan fresh pid now i =
     bind_ok (buildSteps fresh (pi_steps i)) (\<lambda>steps.
     bind_ok (lift_error PlanText (auroraText (pi_title i) 300 ''Plan title'')) (\<lambda>ti.
     bind_ok (lift_error PlanText (auroraText (pi_objective i) 20000 ''Plan objective'')) (\<lambda>ob.
     bind_ok (lift_error PlanText (auroraTags (pi_tags i) ''Plan tags'')) (\<lambda>tags.
       ok (recompute \<lparr>pl_id = pid, pl_tenantId = pi_tenantId i, pl_sessionId = given_text (pi_sessionId i),
         pl_goalId = given_text (pi_goalId i), pl_title = ti, pl_objective = ob, pl_horizon = or_else (pi_horizon i) Tactical,
         pl_status = PlanActive, pl_version = 1, pl_steps = steps, pl_criticalPath = [], pl_estimatedMinutes = 0,
         pl_estimatedTokens = 0, pl_riskBufferMinutes = 0, pl_progress = 0, pl_tags = tags,
         pl_revisions = [\<lparr>rev_version = 1, rev_reason = ''Initial plan.'', rev_trigger = ByHand, rev_changed = map ps_key steps, rev_at = now\<rparr>],
         pl_supersedesPlanId = None, pl_decisionId = given_text (pi_decisionId i), pl_createdAt = now, pl_updatedAt = now,
         pl_completedAt = None\<rparr>)))))"

text \<open>\<^verbatim>\<open>revise\<close>: what a rebuilt step keeps of the step it replaces. The status asked for is looked up by the raw
  key of the input.\<close>

definition merge_step :: "plan_step list \<Rightarrow> step_input list \<Rightarrow> plan_step \<Rightarrow> plan_step" where
  "merge_step previous is s =
     (case by_key previous (ps_key s) of
        None \<Rightarrow> s
      | Some old \<Rightarrow> s\<lparr>
          ps_status := (case List.find (\<lambda>i. si_key i = ps_key s) is of
             None \<Rightarrow> ps_status old | Some i \<Rightarrow> or_else (si_status i) (ps_status old)),
          ps_startedAt := ps_startedAt old, ps_finishedAt := ps_finishedAt old, ps_actualMinutes := ps_actualMinutes old,
          ps_evidenceRefs := take 200 (dedupe (ps_evidenceRefs old @ ps_evidenceRefs s))\<rparr>)"

definition changed_keys :: "plan_step list \<Rightarrow> plan_step list \<Rightarrow> string list" where
  "changed_keys previous steps =
     (let changed = map ps_key (filter (\<lambda>s. case by_key previous (ps_key s) of None \<Rightarrow> True
            | Some old \<Rightarrow> ps_title old \<noteq> ps_title s \<or> ps_dependsOn old \<noteq> ps_dependsOn s) steps);
          removed = filter (\<lambda>k. k \<notin> set (map ps_key steps)) (dedupe (map ps_key previous))
      in take 200 (changed @ map (\<lambda>k. ''-'' @ k) removed))"

definition push_revision :: "plan_revision \<Rightarrow> plan_record \<Rightarrow> plan_record" where
  "push_revision r p = p\<lparr>pl_revisions := pl_revisions p @ [r]\<rparr>"

definition finished_plan :: "plan_status \<Rightarrow> bool" where
  "finished_plan s = (s = PlanCompleted \<or> s = PlanAbandoned \<or> s = PlanSuperseded)"

definition revise_plan ::
    "(nat \<Rightarrow> id) \<Rightarrow> msec \<Rightarrow> string \<Rightarrow> revision_trigger option \<Rightarrow> step_input list \<Rightarrow> plan_record
       \<Rightarrow> (plan_error, unit) result \<times> plan_record" where
  "revise_plan fresh now why trigger is p =
     (if finished_plan (pl_status p) then (throw PlanFinished, p)
      else
        (case buildSteps fresh is of
           Inl e \<Rightarrow> (throw e, p)
         | Inr built \<Rightarrow>
             let steps = map (merge_step (pl_steps p) is) built;
                 p1 = p\<lparr>pl_steps := steps, pl_version := pl_version p + 1\<rparr>
             in (case auroraText why 5000 ''Revision reason'' of
                   Inl e \<Rightarrow> (throw (PlanText e), p1)
                 | Inr r \<Rightarrow>
                     let p2 = push_revision \<lparr>rev_version = pl_version p1, rev_reason = r, rev_trigger = or_else trigger ByHand,
                                rev_changed = changed_keys (pl_steps p) steps, rev_at = now\<rparr> p1
                     in (ok (), recompute (p2\<lparr>pl_revisions := take_last 500 (pl_revisions p2),
                           pl_status := (if pl_status p = PlanBlocked then PlanActive else pl_status p), pl_updatedAt := now\<rparr>)))))"

record advance_input =
  ai_stepKey :: string
  ai_status :: step_status
  ai_note :: "string option"
  ai_actualMinutes :: "int option"
  ai_evidenceRefs :: "string list option"
  ai_taskId :: "string option"

definition unmet :: "plan_step list \<Rightarrow> plan_step \<Rightarrow> string list" where
  "unmet steps s = filter (\<lambda>k. case List.find (\<lambda>t. ps_key t = k) steps of None \<Rightarrow> True
     | Some t \<Rightarrow> \<not> step_settled (ps_status t)) (ps_dependsOn s)"

text \<open>The assignments of \<^verbatim>\<open>updateStep\<close>, each of which may throw after the ones before it.\<close>

definition set_progress :: "msec \<Rightarrow> step_status \<Rightarrow> plan_step \<Rightarrow> (plan_error, unit) result \<times> plan_step" where
  "set_progress now status s = (ok (), s\<lparr>
     ps_startedAt := (if status = StepInProgress then Some (or_else (ps_startedAt s) now) else ps_startedAt s),
     ps_finishedAt := (if status \<in> {StepDone, StepSkipped, StepFailed} then Some now else ps_finishedAt s),
     ps_status := status\<rparr>)"

definition set_note :: "string option \<Rightarrow> plan_step \<Rightarrow> (plan_error, unit) result \<times> plan_step" where
  "set_note note s = (case field_if note 5000 ''Step note'' of Inl e \<Rightarrow> (throw (PlanText e), s)
     | Inr None \<Rightarrow> (ok (), s) | Inr (Some t) \<Rightarrow> (ok (), s\<lparr>ps_note := Some t\<rparr>))"

definition set_actual :: "int option \<Rightarrow> plan_step \<Rightarrow> (plan_error, unit) result \<times> plan_step" where
  "set_actual m s = (case m of None \<Rightarrow> (ok (), s)
     | Some n \<Rightarrow> (case auroraInteger n 0 100000 ''Actual minutes'' of Inl e \<Rightarrow> (throw (PlanText e), s)
         | Inr k \<Rightarrow> (ok (), s\<lparr>ps_actualMinutes := Some k\<rparr>)))"

definition set_task :: "string option \<Rightarrow> plan_step \<Rightarrow> (plan_error, unit) result \<times> plan_step" where
  "set_task task s = (case field_if task 200 ''Step task ID'' of Inl e \<Rightarrow> (throw (PlanText e), s)
     | Inr None \<Rightarrow> (ok (), s) | Inr (Some t) \<Rightarrow> (ok (), s\<lparr>ps_taskId := Some t\<rparr>))"

definition set_evidence :: "string list option \<Rightarrow> plan_step \<Rightarrow> (plan_error, unit) result \<times> plan_step" where
  "set_evidence refs s = (case refs of None \<Rightarrow> (ok (), s)
     | Some rs \<Rightarrow> (case auroraIds (Some rs) 200 ''Step evidence refs'' of Inl e \<Rightarrow> (throw (PlanText e), s)
         | Inr ids \<Rightarrow> (ok (), s\<lparr>ps_evidenceRefs := take 200 (dedupe (ps_evidenceRefs s @ ids))\<rparr>)))"

definition advance_stages :: "msec \<Rightarrow> advance_input \<Rightarrow> (plan_step \<Rightarrow> (plan_error, unit) result \<times> plan_step) list" where
  "advance_stages now i = [set_progress now (ai_status i), set_note (ai_note i), set_actual (ai_actualMinutes i),
     set_task (ai_taskId i), set_evidence (ai_evidenceRefs i)]"

definition settle_status :: "msec \<Rightarrow> plan_record \<Rightarrow> plan_record" where
  "settle_status now p =
     (if list_all (\<lambda>s. step_settled (ps_status s)) (pl_steps p) then p\<lparr>pl_status := PlanCompleted, pl_completedAt := Some now\<rparr>
      else if list_ex (\<lambda>s. ps_status s = StepFailed) (pl_steps p) then p\<lparr>pl_status := PlanBlocked\<rparr>
      else if pl_status p = PlanCompleted then p\<lparr>pl_status := PlanActive, pl_completedAt := None\<rparr>
      else p)"

definition advance_plan :: "msec \<Rightarrow> advance_input \<Rightarrow> plan_record \<Rightarrow> (plan_error, unit) result \<times> plan_record" where
  "advance_plan now i p =
     (let key = js_lower (js_trim (ai_stepKey i)) in
      case List.find (\<lambda>s. ps_key s = key) (pl_steps p) of
        None \<Rightarrow> (throw StepNotFound, p)
      | Some s \<Rightarrow>
          if ai_status i = StepInProgress \<and> unmet (pl_steps p) s \<noteq> []
          then (throw (StillDepends (ps_key s) (unmet (pl_steps p) s)), p)
          else
            (case run_steps (advance_stages now i) s of
               (r, s') \<Rightarrow>
                 let p1 = p\<lparr>pl_steps := update_first (\<lambda>t. ps_key t = key) (\<lambda>_. s') (pl_steps p)\<rparr>
                 in (case r of
                       Inl e \<Rightarrow> (throw e, p1)
                     | Inr _ \<Rightarrow> (ok (), settle_status now (recompute (p1\<lparr>pl_updatedAt := now\<rparr>))))))"

text \<open>\<^verbatim>\<open>abandon\<close>, and the second write of \<^verbatim>\<open>supersede\<close>: the status is set before the reason is checked.\<close>

definition retire_plan ::
    "msec \<Rightarrow> plan_status \<Rightarrow> revision_trigger \<Rightarrow> string \<Rightarrow> string \<Rightarrow> plan_record \<Rightarrow> (plan_error, unit) result \<times> plan_record" where
  "retire_plan now status trigger label why p =
     (let p1 = p\<lparr>pl_status := status\<rparr> in
      case auroraText why 5000 label of
        Inl e \<Rightarrow> (throw (PlanText e), p1)
      | Inr r \<Rightarrow> (ok (), (push_revision \<lparr>rev_version = pl_version p, rev_reason = r, rev_trigger = trigger, rev_changed = [],
            rev_at = now\<rparr> p1)\<lparr>pl_updatedAt := now\<rparr>))"

section \<open>Operations on the state\<close>

definition with_plan ::
    "string \<Rightarrow> id \<Rightarrow> (plan_record \<Rightarrow> (plan_error, unit) result \<times> plan_record) \<Rightarrow> planning
       \<Rightarrow> (plan_error, plan_record) result \<times> planning" where
  "with_plan tenant pid f st =
     (let this = (\<lambda>p. pl_tenantId p = tenant \<and> pl_id p = pid) in
      case List.find this (pn_plans st) of
        None \<Rightarrow> (throw PlanNotFound, st)
      | Some p \<Rightarrow>
          (case f p of
             (r, p') \<Rightarrow> (bind_ok r (\<lambda>_. ok p'), st\<lparr>pn_plans := update_first this (\<lambda>_. p') (pn_plans st)\<rparr>)))"

definition plan_create ::
    "(nat \<Rightarrow> id) \<Rightarrow> id \<Rightarrow> msec \<Rightarrow> plan_input \<Rightarrow> planning \<Rightarrow> (plan_error, plan_record) result \<times> planning" where
  "plan_create fresh pid now i st =
     (if length (pn_plans st) \<ge> MAX_PLANS then (throw PlanLimit, st)
      else
        (case new_plan fresh pid now i of
           Inl e \<Rightarrow> (throw e, st)
         | Inr p \<Rightarrow> (ok p, st\<lparr>pn_plans := pn_plans st @ [p]\<rparr>)))"

definition mark_superseded ::
    "msec \<Rightarrow> string \<Rightarrow> id \<Rightarrow> string \<Rightarrow> id \<Rightarrow> planning \<Rightarrow> (plan_error, plan_record) result \<times> planning" where
  "mark_superseded now tenant pid why nid st =
     (case with_plan tenant pid (retire_plan now PlanSuperseded ScopeChange ''Supersede reason'' why) st of
        (Inl e, st') \<Rightarrow> (throw e, st')
      | (Inr p, st') \<Rightarrow> (ok p, st'\<lparr>pn_plans := update_first (\<lambda>q. pl_id q = nid)
             (\<lambda>q. q\<lparr>pl_supersedesPlanId := Some (pl_id p)\<rparr>) (pn_plans st')\<rparr>))"

datatype plan_call =
    CallCreate "nat \<Rightarrow> id" id msec plan_input
  | CallRevise "nat \<Rightarrow> id" msec string id string "revision_trigger option" "step_input list"
  | CallAdvance msec string id advance_input
  | CallAbandon msec string id string
  | CallSupersede msec string id string id

definition planning_step :: "plan_call \<Rightarrow> planning \<Rightarrow> (plan_error, plan_record) result \<times> planning" where
  "planning_step c st =
     (case c of
        CallCreate fresh pid now i \<Rightarrow> plan_create fresh pid now i st
      | CallRevise fresh now tenant pid why trigger is \<Rightarrow> with_plan tenant pid (revise_plan fresh now why trigger is) st
      | CallAdvance now tenant pid i \<Rightarrow> with_plan tenant pid (advance_plan now i) st
      | CallAbandon now tenant pid why \<Rightarrow> with_plan tenant pid (retire_plan now PlanAbandoned ByHand ''Abandon reason'' why) st
      | CallSupersede now tenant pid why nid \<Rightarrow> mark_superseded now tenant pid why nid st)"

section \<open>Reading\<close>

definition plan_get :: "string \<Rightarrow> id \<Rightarrow> planning \<Rightarrow> (plan_error, plan_record) result" where
  "plan_get tenant pid st = (case List.find (\<lambda>p. pl_tenantId p = tenant \<and> pl_id p = pid) (pn_plans st) of
     None \<Rightarrow> throw PlanNotFound | Some p \<Rightarrow> ok p)"

text \<open>\<^verbatim>\<open>supersede\<close>: a read, a create, a second write and a read; \<open>wrote\<close> are the answers of the file system.\<close>

definition plan_supersede ::
    "(planning \<Rightarrow> bool) \<Rightarrow> bool \<times> bool \<Rightarrow> (nat \<Rightarrow> id) \<Rightarrow> id \<Rightarrow> msec \<Rightarrow> string \<Rightarrow> id \<Rightarrow> string option \<Rightarrow> string option \<Rightarrow> string
       \<Rightarrow> step_input list \<Rightarrow> planning durable \<Rightarrow> (plan_record \<times> plan_record) option \<times> planning durable" where
  "plan_supersede fits wrote fresh nid now tenant pid title' objective' why is st =
     (case durable_read no_plans st of
        (None, st) \<Rightarrow> (None, st)
      | (Some v, st) \<Rightarrow>
          (case plan_get tenant pid v of
             Inl e \<Rightarrow> (None, st)
           | Inr previous \<Rightarrow>
               let i = \<lparr>pi_tenantId = tenant,
                     pi_title = or_else title' (pl_title previous @ '' (v'' @ show_int (int (pl_version previous) + 1) @ '')''),
                     pi_objective = or_else objective' (pl_objective previous), pi_horizon = Some (pl_horizon previous),
                     pi_sessionId = pl_sessionId previous, pi_goalId = pl_goalId previous, pi_decisionId = None,
                     pi_tags = Some (pl_tags previous), pi_steps = is\<rparr>
               in (case durable_mutate no_plans fits (fst wrote) (planning_step (CallCreate fresh nid now i)) st of
                     (Inl e, st) \<Rightarrow> (None, st)
                   | (Inr next, st) \<Rightarrow>
                       (case durable_mutate no_plans fits (snd wrote) (planning_step (CallSupersede now tenant pid why nid)) st of
                          (Inl e, st) \<Rightarrow> (None, st)
                        | (Inr updated, st) \<Rightarrow>
                            (case durable_read no_plans st of
                               (None, st) \<Rightarrow> (None, st)
                             | (Some v, st) \<Rightarrow>
                                 (case plan_get tenant nid v of Inl e \<Rightarrow> (None, st) | Inr n \<Rightarrow> (Some (updated, n), st)))))))"

definition plan_list ::
    "string \<Rightarrow> plan_status option \<Rightarrow> string option \<Rightarrow> int option \<Rightarrow> planning \<Rightarrow> (plan_error, plan_record list) result" where
  "plan_list tenant status goal lim' st =
     bind_ok (lift_error PlanText (auroraInteger (or_else lim' 100) 1 1000 ''Plan limit'')) (\<lambda>n.
       ok (take (nat n) (sort_key (\<lambda>p. - pl_updatedAt p)
         (filter (\<lambda>p. pl_tenantId p = tenant \<and> (case status of None \<Rightarrow> True | Some s \<Rightarrow> pl_status p = s)
            \<and> (case given_text goal of None \<Rightarrow> True | Some g \<Rightarrow> pl_goalId p = Some g)) (pn_plans st)))))"

record progress_report =
  pr_done :: nat
  pr_total :: nat
  pr_ready :: "string list"
  pr_blocked :: "(string \<times> string list) list"
  pr_failed :: "string list"
  pr_remainingMinutes :: int
  pr_remainingTokens :: int
  pr_criticalPathRemaining :: "string list"
  pr_estimateAccuracy :: "rat option"

definition plan_progress :: "plan_record \<Rightarrow> progress_report" where
  "plan_progress p =
     (let steps = pl_steps p;
          open' = filter (\<lambda>s. \<not> step_settled (ps_status s)) steps;
          measured = filter (\<lambda>s. ps_status s = StepDone \<and> ps_actualMinutes s \<noteq> None) steps
      in \<lparr>pr_done = length (filter (\<lambda>s. step_settled (ps_status s)) steps), pr_total = length steps,
          pr_ready = map ps_key (filter (\<lambda>s. list_all (satisfied steps) (ps_dependsOn s))
             (filter (\<lambda>s. ps_status s = StepPending \<or> ps_status s = StepReady) steps)),
          pr_blocked = filter (\<lambda>(k, w). w \<noteq> [])
             (map (\<lambda>s. (ps_key s, filter (\<lambda>k. \<not> satisfied steps k) (ps_dependsOn s))) open'),
          pr_failed = map ps_key (filter (\<lambda>s. ps_status s = StepFailed) steps),
          pr_remainingMinutes = sum_list (map ps_estimateMinutes open'),
          pr_remainingTokens = sum_list (map ps_estimateTokens open'),
          pr_criticalPathRemaining = filter (\<lambda>k. \<not> satisfied steps k) (pl_criticalPath p),
          pr_estimateAccuracy = (if measured = [] then None
             else Some (to_fixed6 (1 - min 1 (sum_list (map (\<lambda>s. \<bar>of_int (or_else (ps_actualMinutes s) 0 - ps_estimateMinutes s)\<bar>
               / of_int (max 1 (ps_estimateMinutes s))) measured) / of_nat (length measured)))))\<rparr>)"

definition plan_stalled ::
    "string \<Rightarrow> int option \<Rightarrow> msec \<Rightarrow> planning \<Rightarrow> (plan_error, (plan_record \<times> int \<times> string list) list) result" where
  "plan_stalled tenant days now st =
     bind_ok (lift_error PlanText (auroraInteger (or_else days 7) 1 365 ''Stalled window'')) (\<lambda>d.
       ok (sort_key (\<lambda>(p, idle, r). - idle)
         (map (\<lambda>p. (p, (now - pl_updatedAt p) div 86400000,
             map ps_key (filter (\<lambda>s. \<not> step_settled (ps_status s) \<and> list_all (satisfied (pl_steps p)) (ps_dependsOn s)) (pl_steps p))))
           (filter (\<lambda>p. d * 86400000 \<le> now - pl_updatedAt p)
             (filter (\<lambda>p. pl_tenantId p = tenant \<and> (pl_status p = PlanActive \<or> pl_status p = PlanBlocked)) (pn_plans st))))))"

text \<open>\<^verbatim>\<open>getStats\<close> and \<^verbatim>\<open>why\<close>: the first array of the state is \<^verbatim>\<open>plans\<close>; a plan has a title and neither name,
  description nor statement.\<close>

definition plan_stats :: "string \<Rightarrow> planning \<Rightarrow> nat" where
  "plan_stats tenant st = length (filter (\<lambda>p. pl_tenantId p = tenant) (pn_plans st))"

definition plan_why :: "string \<Rightarrow> id \<Rightarrow> planning \<Rightarrow> (plan_error, string \<times> string \<times> string list \<times> plan_record) result" where
  "plan_why tenant pid st =
     (case List.find (\<lambda>p. pl_id p = pid) (filter (\<lambda>p. pl_tenantId p = tenant) (pn_plans st)) of
        None \<Rightarrow> throw PlanNotFound
      | Some p \<Rightarrow> ok (pl_title p, [], [''Found entity: '' @ pl_title p], p))"

section \<open>The step graph\<close>

definition graph_ok :: "plan_step list \<Rightarrow> bool" where
  "graph_ok steps \<longleftrightarrow> steps \<noteq> [] \<and> length steps \<le> MAX_STEPS \<and> distinct (map ps_key steps)
     \<and> (\<forall>s \<in> set steps. set (ps_dependsOn s) \<subseteq> ps_key ` set steps \<and> 0 \<le> ps_estimateMinutes s)
     \<and> acyclic (edges (node_succs (step_node steps)))"

text \<open>What the graph is made of; no change of a status, a note or a date touches it.\<close>

definition shape :: "plan_step list \<Rightarrow> (string \<times> string list \<times> int) list" where
  "shape steps = map (\<lambda>s. (ps_key s, ps_dependsOn s, ps_estimateMinutes s)) steps"

lemma step_node_shape: "step_node steps k = map_option snd (List.find (\<lambda>x. fst x = k) (rev (shape steps)))"
proof -
  have "map_option (\<lambda>s. (ps_dependsOn s, ps_estimateMinutes s)) (List.find (\<lambda>s. ps_key s = k) xs)
      = map_option snd (List.find (\<lambda>x. fst x = k) (shape xs))" for xs
    by (induction xs) (auto simp: shape_def)
  then show ?thesis unfolding step_node_def by_key_def by (simp add: shape_def rev_map)
qed

lemma graph_ok_shape:
  assumes "shape steps = shape steps'"
  shows "graph_ok steps = graph_ok steps'"
proof -
  have n: "step_node steps = step_node steps'" using assms by (simp add: step_node_shape fun_eq_iff)
  have "map fst (shape xs) = map ps_key xs" "length (shape xs) = length xs" for xs by (simp_all add: shape_def)
  then have k: "map ps_key steps = map ps_key steps'" "length steps = length steps'" using assms by metis+
  have all: "(\<forall>s \<in> set xs. P (ps_key s) (ps_dependsOn s) (ps_estimateMinutes s)) = (\<forall>(a, b, c) \<in> set (shape xs). P a b c)" for xs P
    by (auto simp: shape_def)
  have "ps_key ` set steps = ps_key ` set steps'" using k(1) by (metis set_map)
  then have "(\<forall>s \<in> set steps. set (ps_dependsOn s) \<subseteq> ps_key ` set steps \<and> 0 \<le> ps_estimateMinutes s)
      = (\<forall>s \<in> set steps'. set (ps_dependsOn s) \<subseteq> ps_key ` set steps' \<and> 0 \<le> ps_estimateMinutes s)"
    using all [of steps "\<lambda>a b c. set b \<subseteq> ps_key ` set steps' \<and> 0 \<le> c"]
      all [of steps' "\<lambda>a b c. set b \<subseteq> ps_key ` set steps' \<and> 0 \<le> c"] assms by simp
  then show ?thesis using k unfolding graph_ok_def n by (metis length_0_conv)
qed

lemma by_key_Some: "by_key steps k = Some s \<Longrightarrow> s \<in> set steps \<and> ps_key s = k"
  unfolding by_key_def by (auto dest!: find_Some_mem)

lemma by_key_mem:
  assumes "distinct (map ps_key steps)" and "s \<in> set steps"
  shows "by_key steps (ps_key s) = Some s"
proof -
  have "by_key steps (ps_key s) \<noteq> None" using assms(2) by (auto simp: by_key_def find_None_iff)
  then obtain t where t: "by_key steps (ps_key s) = Some t" by blast
  then have "t = s" using by_key_Some [OF t] assms by (auto simp: distinct_map inj_on_def)
  then show ?thesis using t by simp
qed

lemma find_key_mem:
  assumes "distinct (map ps_key steps)"
  shows "List.find (\<lambda>s. ps_key s = k) steps = by_key steps k"
proof (cases "List.find (\<lambda>s. ps_key s = k) steps")
  case None
  then have "List.find (\<lambda>s. ps_key s = k) (rev steps) = None" by (auto simp: find_None_iff)
  then show ?thesis using None by (simp add: by_key_def)
next
  case (Some s)
  then have "s \<in> set steps" "ps_key s = k" by (auto dest!: find_Some_mem)
  then show ?thesis using by_key_mem [OF assms] Some by auto
qed

lemma succs_mem:
  assumes "y \<in> set (node_succs (step_node steps) x)"
  obtains s where "s \<in> set steps" "ps_key s = x" "y \<in> set (ps_dependsOn s)"
proof -
  obtain s where s: "by_key steps x = Some s" "y \<in> set (ps_dependsOn s)"
    using assms by (cases "by_key steps x") (auto simp: node_succs_def step_node_def)
  then show thesis using that by_key_Some [OF s(1)] by blast
qed

lemma findCycle_iff:
  assumes "\<forall>s \<in> set steps. set (ps_dependsOn s) \<subseteq> ps_key ` set steps"
  shows "findCycle steps \<longleftrightarrow> \<not> acyclic (edges (node_succs (step_node steps)))"
proof -
  have "card (ps_key ` set steps) < Suc (length steps)" by (metis card_length le_imp_less_Suc length_map set_map)
  moreover have "set (node_succs (step_node steps) x) \<subseteq> ps_key ` set steps" for x
    using assms by (auto elim!: succs_mem)
  moreover have "x \<in> set (map ps_key steps)" if "node_succs (step_node steps) x \<noteq> []" for x
    using that by (metis image_eqI list.set_map list.set_intros(1) neq_Nil_conv succs_mem)
  ultimately show ?thesis unfolding findCycle_def by (intro dfs_cyclic_iff(2)) auto
qed

lemma build_step_Inr:
  assumes "build_step fresh seen i = Inr s"
  shows "ps_key s \<notin> set seen \<and> 0 \<le> ps_estimateMinutes s"
  using assms by (auto simp: build_step_def bind_ok_Inr Let_def auroraInteger_ok split: if_splits)

lemma build_list_Inr:
  "build_list fresh n seen is = Inr steps \<Longrightarrow> length steps = length is \<and> distinct (map ps_key steps)
     \<and> ps_key ` set steps \<inter> set seen = {} \<and> (\<forall>s \<in> set steps. 0 \<le> ps_estimateMinutes s)"
proof (induction fresh n seen "is" arbitrary: steps rule: build_list.induct)
  case (2 fresh n seen i "is")
  then obtain s ss where s: "build_step (fresh n) seen i = Inr s" "build_list fresh (Suc n) (seen @ [ps_key s]) is = Inr ss"
    "steps = s # ss" by (auto simp: bind_ok_Inr)
  show ?case using "2.IH" [OF s(2)] build_step_Inr [OF s(1)] s(3) by auto
qed simp

lemma deps_error_None:
  "deps_error keys ss = None \<Longrightarrow> \<forall>s \<in> set ss. set (ps_dependsOn s) \<subseteq> set keys"
proof -
  have dep: "dep_error keys k ds = None \<Longrightarrow> set ds \<subseteq> set keys" for k ds by (induction ds) (auto split: if_splits)
  show "deps_error keys ss = None \<Longrightarrow> \<forall>s \<in> set ss. set (ps_dependsOn s) \<subseteq> set keys"
    by (induction ss) (auto split: option.splits dest: dep)
qed

lemma buildSteps_ok:
  assumes "buildSteps fresh is = Inr steps"
  shows "graph_ok steps"
proof -
  have b: "is \<noteq> []" "length is \<le> MAX_STEPS" "build_list fresh 0 [] is = Inr steps" "deps_error (map ps_key steps) steps = None"
    "\<not> findCycle steps"
    using assms by (auto simp: buildSteps_def bind_ok_Inr split: if_splits option.splits)
  have deps: "\<forall>s \<in> set steps. set (ps_dependsOn s) \<subseteq> ps_key ` set steps" using deps_error_None [OF b(4)] by simp
  show ?thesis using b build_list_Inr [OF b(3)] deps findCycle_iff [OF deps] by (auto simp: graph_ok_def)
qed

lemma shape_map: "(\<And>s. ps_key (f s) = ps_key s \<and> ps_dependsOn (f s) = ps_dependsOn s \<and> ps_estimateMinutes (f s) = ps_estimateMinutes s)
    \<Longrightarrow> shape (map f steps) = shape steps"
  by (simp add: shape_def)

lemma shape_mark_ready [simp]: "shape (mark_ready steps) = shape steps"
  unfolding mark_ready_def by (rule shape_map) simp

lemma shape_merge: "shape (map (merge_step previous is) steps) = shape steps"
  by (rule shape_map) (simp add: merge_step_def split: option.split)

lemma shape_update_first:
  "List.find p steps = Some s \<Longrightarrow> ps_key t = ps_key s \<Longrightarrow> ps_dependsOn t = ps_dependsOn s \<Longrightarrow> ps_estimateMinutes t = ps_estimateMinutes s
     \<Longrightarrow> shape (update_first p (\<lambda>_. t) steps) = shape steps"
  by (induction steps) (auto simp: shape_def split: if_splits)

lemma recompute_simps [simp]:
  "pl_steps (recompute p) = mark_ready (pl_steps p)" "pl_status (recompute p) = pl_status p"
  "pl_id (recompute p) = pl_id p" "pl_tenantId (recompute p) = pl_tenantId p"
  by (simp_all add: recompute_def Let_def)

section \<open>The critical path\<close>

lemma critical_loop_correct:
  "longest_pre node S fuel (set ks) [] memo \<Longrightarrow> best_of node K best \<Longrightarrow>
     \<exists>r. critical_loop node fuel ks best memo = Some r \<and> best_of node (K \<union> set ks) r"
proof (induction ks arbitrary: K best memo)
  case (Cons k ks)
  have "longest_pre node S fuel {k} [] memo" using Cons.prems(1) by (auto simp: longest_pre_def)
  from longest_correct(1) [OF this] obtain c g memo' where
    l: "longest node fuel k [] memo = Some (c, g, memo')" "heaviest node k c" "memo_ok node memo'" by auto
  have "longest_pre node S fuel (set ks) [] memo'" using Cons.prems(1) l(3) by (auto simp: longest_pre_def)
  from Cons.IH [OF this best_of_step [OF Cons.prems(2) l(2)]] show ?case using l(1) by simp
qed simp

text \<open>\<open>path\<close> is a chain of steps, and no chain is longer.\<close>

definition critical_ok :: "plan_step list \<Rightarrow> string list \<Rightarrow> bool" where
  "critical_ok steps path \<longleftrightarrow> chain (step_node steps) path
     \<and> (\<forall>q. chain (step_node steps) q \<longrightarrow> minutes (step_node steps) q \<le> minutes (step_node steps) path)"

lemma critical_correct:
  assumes ok: "graph_ok steps"
  shows "\<exists>m path. critical steps = Some (m, path) \<and> critical_ok steps path"
proof -
  let ?node = "step_node steps" and ?S = "ps_key ` set steps"
  have "?node k \<noteq> None" "set (node_succs ?node k) \<subseteq> ?S" "0 \<le> node_weight ?node k" if k: "k \<in> ?S" for k
  proof -
    obtain s where s: "s \<in> set steps" "ps_key s = k" using k by blast
    then have "by_key steps k = Some s" using by_key_mem ok by (auto simp: graph_ok_def)
    then show "?node k \<noteq> None" "set (node_succs ?node k) \<subseteq> ?S" "0 \<le> node_weight ?node k"
      using s(1) ok by (auto simp: step_node_def node_succs_def node_weight_def graph_ok_def)
  qed
  moreover have "card ?S < Suc (length steps)" by (metis card_length le_imp_less_Suc length_map set_map)
  ultimately have "longest_pre ?node ?S (Suc (length steps)) (set (map ps_key steps)) [] []"
    using ok by (simp add: longest_pre_def memo_ok_def graph_ok_def)
  moreover have "best_of ?node {} (0, [])" by (simp add: best_of_def)
  ultimately have "\<exists>r. critical steps = Some r \<and> best_of ?node ({} \<union> set (map ps_key steps)) r"
    unfolding critical_def by (rule critical_loop_correct)
  then obtain r where r: "critical steps = Some r" "best_of ?node ?S r" by auto
  have path: "chain ?node (snd r)" "fst r = minutes ?node (snd r)" using r(2) by (auto simp: best_of_def heaviest_def minutes_def)
  have "minutes ?node q \<le> fst r" if q: "chain ?node q" for q
  proof (cases q rule: rev_cases)
    case Nil
    then show ?thesis using r(2) by (simp add: best_of_def minutes_def)
  next
    case (snoc p k)
    show ?thesis
    proof (cases "k \<in> ?S")
      case True
      then show ?thesis using r(2) q snoc unfolding best_of_def by simp
    next
      case False
      then have none: "?node k = None" by (cases "by_key steps k") (auto simp: step_node_def dest: by_key_Some)
      then have "p = []" using q unfolding snoc chain_snoc by (auto simp: node_succs_def)
      then show ?thesis using r(2) none snoc by (simp add: best_of_def minutes_def node_weight_def)
    qed
  qed
  then show ?thesis using r(1) path unfolding critical_ok_def by (cases r) auto
qed

section \<open>The service as a client of the durable store\<close>

definition plans_good :: "planning \<Rightarrow> bool" where
  "plans_good st \<longleftrightarrow> length (pn_plans st) \<le> MAX_PLANS \<and> (\<forall>p \<in> set (pn_plans st). graph_ok (pl_steps p))"

lemma run_stages_shape:
  "run_steps (advance_stages now i) s = (r, s') \<Longrightarrow>
     ps_key s' = ps_key s \<and> ps_dependsOn s' = ps_dependsOn s \<and> ps_estimateMinutes s' = ps_estimateMinutes s \<and> ps_status s' = ai_status i"
proof -
  assume run: "run_steps (advance_stages now i) s = (r, s')"
  let ?P = "\<lambda>t. ps_key t = ps_key s \<and> ps_dependsOn t = ps_dependsOn s \<and> ps_estimateMinutes t = ps_estimateMinutes s \<and> ps_status t = ai_status i"
  have tail: "?P (snd (f t))" if "f \<in> set (tl (advance_stages now i))" "?P t" for f t
    using that by (auto simp: advance_stages_def set_note_def set_actual_def set_task_def set_evidence_def split: option.split sum.split)
  have e: "run_steps (advance_stages now i) s = run_steps (tl (advance_stages now i)) (snd (set_progress now (ai_status i) s))"
    by (simp add: advance_stages_def set_progress_def)
  have "?P (snd (run_steps (tl (advance_stages now i)) (snd (set_progress now (ai_status i) s))))"
    by (rule run_steps_inv [of _ ?P]) (use tail in \<open>auto simp: set_progress_def\<close>)
  then show ?thesis using run e by simp
qed

lemma settle_steps [simp]: "pl_steps (settle_status now p) = pl_steps p"
  by (simp add: settle_status_def)

lemma revise_graph:
  assumes "graph_ok (pl_steps p)"
  shows "graph_ok (pl_steps (snd (revise_plan fresh now why trigger is p)))"
  using assms buildSteps_ok [of fresh "is"] graph_ok_shape [OF shape_merge [of "pl_steps p" "is"]]
    graph_ok_shape [OF shape_mark_ready]
  by (auto simp: revise_plan_def Let_def push_revision_def split: sum.split)

lemma advance_graph:
  assumes "graph_ok (pl_steps p)"
  shows "graph_ok (pl_steps (snd (advance_plan now i p)))"
proof -
  let ?key = "js_lower (js_trim (ai_stepKey i))"
  show ?thesis
  proof (cases "List.find (\<lambda>s. ps_key s = ?key) (pl_steps p)")
    case None
    then show ?thesis using assms by (simp add: advance_plan_def)
  next
    case (Some s)
    obtain r s' where run: "run_steps (advance_stages now i) s = (r, s')" by fastforce
    have "graph_ok (update_first (\<lambda>t. ps_key t = ?key) (\<lambda>_. s') (pl_steps p))"
      using graph_ok_shape [OF shape_update_first [OF Some, of s']] run_stages_shape [OF run] assms by simp
    then show ?thesis using assms Some run graph_ok_shape [OF shape_mark_ready]
      by (auto simp: advance_plan_def Let_def split: sum.split)
  qed
qed

lemma retire_graph: "pl_steps (snd (retire_plan now status trigger label why p)) = pl_steps p"
  by (simp add: retire_plan_def Let_def push_revision_def split: sum.split)

lemma with_plan_good:
  assumes "plans_good st" and "\<And>p. graph_ok (pl_steps p) \<Longrightarrow> graph_ok (pl_steps (snd (f p)))"
  shows "plans_good (snd (with_plan tenant pid f st))"
proof (cases "List.find (\<lambda>p. pl_tenantId p = tenant \<and> pl_id p = pid) (pn_plans st)")
  case None
  then show ?thesis using assms(1) by (simp add: with_plan_def)
next
  case (Some p)
  then have "p \<in> set (pn_plans st)" using find_Some_mem by metis
  then have "graph_ok (pl_steps (snd (f p)))" using assms by (simp add: plans_good_def)
  then show ?thesis using Some assms(1)
    by (auto simp: with_plan_def plans_good_def split: prod.splits dest!: update_first_mem)
qed

lemma new_plan_graph: "new_plan fresh pid now i = Inr p \<Longrightarrow> graph_ok (pl_steps p)"
proof -
  assume "new_plan fresh pid now i = Inr p"
  then obtain steps q where b: "buildSteps fresh (pi_steps i) = Inr steps" "p = recompute q" "pl_steps q = steps"
    by (auto simp: new_plan_def bind_ok_Inr)
  show ?thesis using buildSteps_ok [OF b(1)] graph_ok_shape [OF shape_mark_ready] b by simp
qed

lemma mark_superseded_good:
  assumes "plans_good st"
  shows "plans_good (snd (mark_superseded now tenant pid why nid st))"
proof -
  obtain r st' where w: "with_plan tenant pid (retire_plan now PlanSuperseded ScopeChange ''Supersede reason'' why) st = (r, st')" by fastforce
  have "plans_good st'" using with_plan_good [OF assms, of "retire_plan now PlanSuperseded ScopeChange ''Supersede reason'' why"]
    retire_graph w by (metis snd_conv)
  then show ?thesis using w
    by (cases r) (auto simp: mark_superseded_def plans_good_def dest!: update_first_mem)
qed

lemma planning_step_good: "plans_good st \<Longrightarrow> plans_good (snd (planning_step c st))"
proof (cases c)
  case (CallCreate fresh pid now i)
  assume "plans_good st"
  then show ?thesis using CallCreate new_plan_graph
    by (auto simp: planning_step_def plan_create_def plans_good_def split: sum.splits)
qed (simp_all add: planning_step_def with_plan_good revise_graph advance_graph retire_graph mark_superseded_good)

interpretation plans: durable_service no_plans planning_step plans_good
  by unfold_locales (simp_all add: planning_step_good, simp add: plans_good_def no_plans_def)

lemma planning_view_good:
  assumes "durable_reach no_plans fits planning_step st" and "durable_view no_plans st = Some v"
  shows "plans_good v"
  using durable_read_value_good [of plans_good no_plans st v] plans.reach_good [OF assms(1)] plans.good_create assms(2)
  by (simp add: durable_view_def)

lemma accepted_step:
  assumes "durable_mutate no_plans fits w (planning_step c) st = (Inr p, st')"
  obtains v v' where "durable_view no_plans st = Some v" "planning_step c v = (Inr p, v')" "disk st' = Stored v'"
  using assms by (auto simp: durable_mutate_def durable_view_def split: prod.splits option.splits sum.splits if_splits)

section \<open>Properties\<close>

lemma critical_recompute:
  assumes "graph_ok (pl_steps p)"
  shows "critical_ok (pl_steps (recompute p)) (pl_criticalPath (recompute p))"
proof -
  obtain m path where c: "critical (pl_steps p) = Some (m, path)" "critical_ok (pl_steps p) path" using critical_correct [OF assms] by blast
  have "step_node (mark_ready (pl_steps p)) = step_node (pl_steps p)" by (simp add: step_node_shape fun_eq_iff)
  then show ?thesis using c by (simp add: recompute_def Let_def critical_ok_def)
qed

lemma settle_critical [simp]: "pl_criticalPath (settle_status now p) = pl_criticalPath p"
  by (simp add: settle_status_def)

lemma revise_critical:
  assumes "revise_plan fresh now why trigger is p = (Inr u, p')"
  shows "critical_ok (pl_steps p') (pl_criticalPath p')"
proof -
  obtain built q where q: "buildSteps fresh is = Inr built" "p' = recompute q" "pl_steps q = map (merge_step (pl_steps p) is) built"
    using assms by (auto simp: revise_plan_def Let_def push_revision_def split: if_splits sum.splits)
  have "graph_ok (pl_steps q)" using buildSteps_ok [OF q(1)] graph_ok_shape [OF shape_merge] q(3) by simp
  then show ?thesis unfolding q(2) by (rule critical_recompute)
qed

lemma with_plan_accepted:
  assumes "with_plan tenant pid f st = (Inr p, st')" and "plans_good st"
  shows "\<exists>q. f q = (Inr (), p) \<and> graph_ok (pl_steps q)"
proof -
  obtain q where q: "List.find (\<lambda>p. pl_tenantId p = tenant \<and> pl_id p = pid) (pn_plans st) = Some q"
    using assms(1) by (auto simp: with_plan_def Let_def split: option.splits)
  have "q \<in> set (pn_plans st)" using find_Some_mem [OF q] by simp
  then show ?thesis using assms q by (cases "f q") (auto simp: with_plan_def Let_def plans_good_def bind_ok_Inr)
qed

lemma advance_accepted:
  assumes "advance_plan now i p = (Inr u, p')"
  obtains s s' q where "List.find (\<lambda>t. ps_key t = js_lower (js_trim (ai_stepKey i))) (pl_steps p) = Some s"
    "run_steps (advance_stages now i) s = (Inr (), s')" "\<not> (ai_status i = StepInProgress \<and> unmet (pl_steps p) s \<noteq> [])"
    "p' = settle_status now (recompute q)"
    "pl_steps q = update_first (\<lambda>t. ps_key t = js_lower (js_trim (ai_stepKey i))) (\<lambda>_. s') (pl_steps p)"
  using assms by (auto simp: advance_plan_def Let_def split: option.splits if_splits prod.splits sum.splits)

lemma advance_critical:
  assumes "graph_ok (pl_steps p)" and "advance_plan now i p = (Inr u, p')"
  shows "critical_ok (pl_steps p') (pl_criticalPath p')"
  using assms(2)
proof (cases rule: advance_accepted)
  case (1 s s' q)
  have "graph_ok (pl_steps q)"
    using graph_ok_shape [OF shape_update_first [OF 1(1), of s']] run_stages_shape [OF 1(2)] assms(1) 1(5) by simp
  then show ?thesis using critical_recompute unfolding 1(4) by simp
qed

text \<open>C32. Every plan the service can hold - on disk or in memory, also after calls that were refused half way - is an
  executable graph: 1 to 200 steps with different keys, each depending only on steps of the plan, without
  a cycle; so while a step is not done or skipped, there is one that waits for nothing.\<close>

theorem plan_always_executable:
  assumes "durable_reach no_plans fits planning_step st" and "durable_view no_plans st = Some v" and "p \<in> set (pn_plans v)"
  shows "graph_ok (pl_steps p) \<and> (list_all (\<lambda>s. step_settled (ps_status s)) (pl_steps p)
    \<or> list_ex (\<lambda>s. \<not> step_settled (ps_status s) \<and> list_all (satisfied (pl_steps p)) (ps_dependsOn s)) (pl_steps p))"
proof -
  have ok: "graph_ok (pl_steps p)" using planning_view_good [OF assms(1,2)] assms(3) by (simp add: plans_good_def)
  let ?steps = "pl_steps p" and ?E = "edges (node_succs (step_node (pl_steps p)))"
  let ?Q = "{k. k \<in> ps_key ` set ?steps \<and> \<not> satisfied ?steps k}"
  have sat: "satisfied ?steps (ps_key s) = step_settled (ps_status s)" if "s \<in> set ?steps" for s
    using by_key_mem [OF _ that] ok by (simp add: satisfied_def graph_ok_def)
  have "?E \<subseteq> ps_key ` set ?steps \<times> ps_key ` set ?steps"
  proof (rule subrelI)
    fix x y assume "(x, y) \<in> ?E"
    then have y: "y \<in> set (node_succs (step_node ?steps) x)" by (simp add: edges_def)
    show "(x, y) \<in> ps_key ` set ?steps \<times> ps_key ` set ?steps"
      by (rule succs_mem [OF y]) (use ok in \<open>auto simp: graph_ok_def\<close>)
  qed
  then have "finite ?E" by (rule finite_subset) simp
  moreover have "acyclic ?E" using ok by (simp add: graph_ok_def)
  ultimately have wf: "wf (?E\<inverse>)" by (rule finite_acyclic_wf_converse)
  have "list_ex (\<lambda>s. \<not> step_settled (ps_status s) \<and> list_all (satisfied ?steps) (ps_dependsOn s)) ?steps"
    if open': "\<not> list_all (\<lambda>s. step_settled (ps_status s)) ?steps"
  proof -
    obtain k where "k \<in> ?Q" using open' sat by (auto simp: list_all_iff)
    then obtain m where m: "m \<in> ?Q" "\<And>y. (y, m) \<in> ?E\<inverse> \<Longrightarrow> y \<notin> ?Q" by (rule wfE_min [OF wf]) blast
    then obtain s where s: "s \<in> set ?steps" "ps_key s = m" by blast
    have "by_key ?steps m = Some s" using by_key_mem [OF _ s(1)] s(2) ok by (auto simp: graph_ok_def)
    then have "(m, d) \<in> ?E" if "d \<in> set (ps_dependsOn s)" for d
      using that by (simp add: edges_def node_succs_def step_node_def)
    then have "d \<notin> ?Q" if "d \<in> set (ps_dependsOn s)" for d using that m(2) by blast
    moreover have "set (ps_dependsOn s) \<subseteq> ps_key ` set ?steps" using ok s(1) by (auto simp: graph_ok_def)
    ultimately have "list_all (satisfied ?steps) (ps_dependsOn s)" by (auto simp: list_all_iff)
    moreover have "\<not> step_settled (ps_status s)" using m(1) sat [OF s(1)] s(2) by simp
    ultimately show ?thesis using s(1) by (auto simp: list_ex_iff)
  qed
  then show ?thesis using ok by blast
qed


lemma by_key_map:
  assumes "\<And>s. ps_key (f s) = ps_key s"
  shows "by_key (map f xs) k = map_option f (by_key xs k)"
proof -
  have "List.find (\<lambda>s. ps_key s = k) (map f ys) = map_option f (List.find (\<lambda>s. ps_key s = k) ys)" for ys
    using assms by (induction ys) auto
  then show ?thesis by (simp add: by_key_def rev_map)
qed

text \<open>A step is only started when each step it depends on is done or skipped.\<close>

theorem step_starts_ready:
  assumes "durable_reach no_plans fits planning_step st"
    and "durable_mutate no_plans fits w (planning_step (CallAdvance now tenant pid i)) st = (Inr p, st')"
    and "ai_status i = StepInProgress"
  shows "list_ex (\<lambda>s. ps_key s = js_lower (js_trim (ai_stepKey i)) \<and> ps_status s = StepInProgress
    \<and> list_all (satisfied (pl_steps p)) (ps_dependsOn s)) (pl_steps p)"
  using assms(2)
proof (cases rule: accepted_step)
  case (1 v v')
  obtain q where q: "advance_plan now i q = (Inr (), p)" "graph_ok (pl_steps q)"
    using with_plan_accepted [of tenant pid "advance_plan now i" v p v'] planning_view_good [OF assms(1) 1(1)] 1(2)
    unfolding planning_step_def by auto
  show ?thesis using q(1)
  proof (cases rule: advance_accepted)
    case (1 s s' r)
    let ?key = "js_lower (js_trim (ai_stepKey i))" and ?steps = "pl_steps q"
    let ?new = "update_first (\<lambda>t. ps_key t = ?key) (\<lambda>_. s') ?steps"
    have dist: "distinct (map ps_key ?steps)" using q(2) by (simp add: graph_ok_def)
    have s: "s \<in> set ?steps" "ps_key s = ?key" using find_Some_mem [OF 1(1)] by auto
    note s' = run_stages_shape [OF 1(2)]
    have news: "graph_ok ?new" using graph_ok_shape [OF shape_update_first [OF 1(1), of s']] s' q(2) by simp
    have s'new: "s' \<in> set ?new" using find_update_first [OF 1(1), of "\<lambda>_. s'"] s' s(2) find_Some_mem by metis
    have other: "by_key ?new k = by_key ?steps k" if "k \<noteq> ?key" for k
      using find_update_first_other [of "\<lambda>t. ps_key t = ?key" "\<lambda>t. ps_key t = k" "\<lambda>_. s'" ?steps] that s' s(2)
        find_key_mem [OF dist] find_key_mem [of ?new] news by (auto simp: graph_ok_def)
    have "satisfied ?new d" if d: "d \<in> set (ps_dependsOn s)" for d
    proof -
      have "(?key, d) \<in> edges (node_succs (step_node ?steps))"
        using d s by_key_mem [OF dist s(1)] by (simp add: edges_def node_succs_def step_node_def)
      then have "d \<noteq> ?key" using q(2) by (auto simp: graph_ok_def acyclic_def)
      moreover have "satisfied ?steps d"
        using 1(3) d assms(3) find_key_mem [OF dist] by (auto simp: unmet_def satisfied_def filter_empty_conv split: option.splits)
      ultimately show ?thesis using other by (simp add: satisfied_def)
    qed
    moreover have "satisfied (mark_ready ?new) k = satisfied ?new k" for k
    proof -
      have "by_key (mark_ready ?new) k = map_option (\<lambda>s. if ps_status s = StepPending \<and> list_all (satisfied ?new) (ps_dependsOn s)
          then s\<lparr>ps_status := StepReady\<rparr> else s) (by_key ?new k)"
        unfolding mark_ready_def by (rule by_key_map) simp
      then show ?thesis by (auto simp: satisfied_def step_settled_def split: option.splits)
    qed
    moreover have "s' \<in> set (mark_ready ?new)" using s'new s' assms(3) by (force simp: mark_ready_def)
    ultimately show ?thesis using s' s(2) assms(3) 1(4,5) by (auto simp: list_ex_iff list_all_iff)
  qed
qed

section \<open>Sample plans\<close>

definition demo_step :: "string \<Rightarrow> string list \<Rightarrow> int \<Rightarrow> step_input" where
  "demo_step key deps mins = \<lparr>si_key = key, si_title = ''do'', si_detail = None, si_dependsOn = deps, si_estimateMinutes = Some mins,
     si_estimateTokens = None, si_riskLevel = Some 0, si_verification = None, si_assignedRoleId = None, si_status = None\<rparr>"

definition demo_plan_input :: plan_input where
  "demo_plan_input = \<lparr>pi_tenantId = ''t'', pi_title = ''ship'', pi_objective = ''release'', pi_horizon = None, pi_sessionId = None,
     pi_goalId = None, pi_decisionId = None, pi_tags = None,
     pi_steps = [demo_step ''a'' [] 5, demo_step ''b'' [''a''] 30]\<rparr>"

definition demo_advance :: "string \<Rightarrow> step_status \<Rightarrow> advance_input" where
  "demo_advance key s = \<lparr>ai_stepKey = key, ai_status = s, ai_note = None, ai_actualMinutes = None, ai_evidenceRefs = None, ai_taskId = None\<rparr>"

definition demo_plans :: "planning durable" where
  "demo_plans = snd (durable_mutate no_plans (\<lambda>_. True) True
     (planning_step (CallAdvance 2 ''t'' ''p'' (demo_advance ''a'' StepDone)))
       (snd (durable_mutate no_plans (\<lambda>_. True) True (planning_step (CallCreate (\<lambda>_. ''s'') ''p'' 1 demo_plan_input))
          \<lparr>cached = None, disk = Absent\<rparr>)))"

lemma demo_plans_reach: "durable_reach no_plans (\<lambda>_. True) planning_step demo_plans"
  unfolding demo_plans_def by (intro durable_reach.mutate durable_reach.fresh)

lemma plan_always_executable_witness:
  "\<exists>v p. durable_view no_plans demo_plans = Some v \<and> pn_plans v = [p] \<and> map ps_status (pl_steps p) = [StepDone, StepReady]
     \<and> graph_ok (pl_steps p)"
proof -
  have "case durable_view no_plans demo_plans of None \<Rightarrow> False
      | Some v \<Rightarrow> (case pn_plans v of [p] \<Rightarrow> map ps_status (pl_steps p) = [StepDone, StepReady] | _ \<Rightarrow> False)" by code_simp
  then obtain v p where v: "durable_view no_plans demo_plans = Some v" and p: "pn_plans v = [p]"
    "map ps_status (pl_steps p) = [StepDone, StepReady]"
    by (auto split: option.splits list.splits)
  then show ?thesis using plan_always_executable [OF demo_plans_reach v, of p] by auto
qed

lemma demo_plans_advance:
  "\<exists>p st'. durable_mutate no_plans (\<lambda>_. True) True (planning_step (CallAdvance 3 ''t'' ''p'' (demo_advance ''b'' StepInProgress))) demo_plans
       = (Inr p, st') \<and> pl_criticalPath p = [''a'', ''b'']"
proof -
  let ?m = "durable_mutate no_plans (\<lambda>_. True) True (planning_step (CallAdvance 3 ''t'' ''p'' (demo_advance ''b'' StepInProgress))) demo_plans"
  have "case fst ?m of Inl _ \<Rightarrow> False | Inr p \<Rightarrow> pl_criticalPath p = [''a'', ''b'']" by code_simp
  then obtain p where "fst ?m = Inr p" "pl_criticalPath p = [''a'', ''b'']" by (auto split: sum.splits)
  then show ?thesis by (metis prod.collapse)
qed


lemma step_starts_ready_witness:
  "\<exists>p st'. durable_mutate no_plans (\<lambda>_. True) True (planning_step (CallAdvance 3 ''t'' ''p'' (demo_advance ''b'' StepInProgress))) demo_plans
       = (Inr p, st')
     \<and> list_ex (\<lambda>s. ps_key s = ''b'' \<and> ps_status s = StepInProgress \<and> list_all (satisfied (pl_steps p)) (ps_dependsOn s)) (pl_steps p)"
proof -
  obtain p st' where m: "durable_mutate no_plans (\<lambda>_. True) True
      (planning_step (CallAdvance 3 ''t'' ''p'' (demo_advance ''b'' StepInProgress))) demo_plans = (Inr p, st')"
    using demo_plans_advance by blast
  have s: "ai_status (demo_advance ''b'' StepInProgress) = StepInProgress" by code_simp
  have k: "js_lower (js_trim (ai_stepKey (demo_advance ''b'' StepInProgress))) = ''b''" by code_simp
  show ?thesis using step_starts_ready [OF demo_plans_reach m s] m unfolding k by blast
qed

text \<open>A revision whose reason is refused is answered with that error, but every later reader sees the plan with the
  new steps and the next version number and no revision that says so: both are set on the live object before the
  reason is checked.\<close>

theorem refused_revision_rewrites:
  assumes "durable_view no_plans st = Some v"
    and "List.find (\<lambda>p. pl_tenantId p = tenant \<and> pl_id p = pid) (pn_plans v) = Some p" and "\<not> finished_plan (pl_status p)"
    and "buildSteps fresh is = Inr built" and "auroraText why 5000 ''Revision reason'' = Inl e"
  shows "\<exists>st'. durable_mutate no_plans fits w (planning_step (CallRevise fresh now tenant pid why trigger is)) st
         = (Inl (Rejected (PlanText e)), st')
     \<and> durable_view no_plans st' = Some (v\<lparr>pn_plans := update_first (\<lambda>p. pl_tenantId p = tenant \<and> pl_id p = pid)
           (\<lambda>_. p\<lparr>pl_steps := map (merge_step (pl_steps p) is) built, pl_version := pl_version p + 1\<rparr>) (pn_plans v)\<rparr>)"
proof -
  have "planning_step (CallRevise fresh now tenant pid why trigger is) v = (Inl (PlanText e), v\<lparr>pn_plans :=
      update_first (\<lambda>p. pl_tenantId p = tenant \<and> pl_id p = pid)
        (\<lambda>_. p\<lparr>pl_steps := map (merge_step (pl_steps p) is) built, pl_version := pl_version p + 1\<rparr>) (pn_plans v)\<rparr>)"
    using assms(2-5) by (simp add: planning_step_def with_plan_def revise_plan_def Let_def bind_ok_def)
  with assms(1) show ?thesis by (rule refused_mutate)
qed

lemma refused_revision_rewrites_witness:
  "\<exists>v p built e. durable_view no_plans demo_plans = Some v \<and> pn_plans v = [p] \<and> length (pl_steps p) = 2 \<and> map ps_key built = [''z'']
     \<and> (\<exists>st'. durable_mutate no_plans (\<lambda>_. True) True (planning_step (CallRevise (\<lambda>_. ''n'') 3 ''t'' ''p'' '' '' None [demo_step ''z'' [] 1]))
            demo_plans = (Inl (Rejected (PlanText e)), st')
          \<and> durable_view no_plans st' = Some (v\<lparr>pn_plans :=
              [p\<lparr>pl_steps := map (merge_step (pl_steps p) [demo_step ''z'' [] 1]) built, pl_version := pl_version p + 1\<rparr>]\<rparr>))"
proof -
  have "case durable_view no_plans demo_plans of None \<Rightarrow> False | Some v \<Rightarrow> (case pn_plans v of [p] \<Rightarrow> pl_tenantId p = ''t''
      \<and> pl_id p = ''p'' \<and> \<not> finished_plan (pl_status p) \<and> length (pl_steps p) = 2 | _ \<Rightarrow> False)" by code_simp
  then obtain v p where v: "durable_view no_plans demo_plans = Some v" and p: "pn_plans v = [p]"
    "pl_tenantId p = ''t'' \<and> pl_id p = ''p''" and a: "\<not> finished_plan (pl_status p)" and n: "length (pl_steps p) = 2"
    by (auto split: option.splits list.splits)
  have f: "List.find P (pn_plans v) = Some p" "update_first P (\<lambda>_. q) (pn_plans v) = [q]" if "P p" for P q
    using that p(1) by simp_all
  have "case buildSteps (\<lambda>_. ''n'') [demo_step ''z'' [] 1] of Inl _ \<Rightarrow> False | Inr b \<Rightarrow> map ps_key b = [''z'']" by code_simp
  then obtain b where b: "buildSteps (\<lambda>_. ''n'') [demo_step ''z'' [] 1] = Inr b" and k: "map ps_key b = [''z'']"
    by (auto split: sum.splits)
  have "isl (auroraText '' '' 5000 ''Revision reason'')" by code_simp
  then obtain e where e: "auroraText '' '' 5000 ''Revision reason'' = Inl e" by (meson isl_def)
  have "\<exists>st'. durable_mutate no_plans (\<lambda>_. True) True (planning_step (CallRevise (\<lambda>_. ''n'') 3 ''t'' ''p'' '' '' None [demo_step ''z'' [] 1]))
            demo_plans = (Inl (Rejected (PlanText e)), st')
          \<and> durable_view no_plans st' = Some (v\<lparr>pn_plans :=
              [p\<lparr>pl_steps := map (merge_step (pl_steps p) [demo_step ''z'' [] 1]) b, pl_version := pl_version p + 1\<rparr>]\<rparr>)"
    using refused_revision_rewrites [OF v f(1) [of "\<lambda>p. pl_tenantId p = ''t'' \<and> pl_id p = ''p''", OF p(2)] a b e]
    unfolding f(2) [of "\<lambda>p. pl_tenantId p = ''t'' \<and> pl_id p = ''p''", OF p(2)] .
  with v p(1) n k show ?thesis by (intro exI [of _ v] exI [of _ p] exI [of _ b] exI [of _ e] conjI)
qed

text \<open>An abandoned or superseded plan is completed by the update of its last open step: \<^verbatim>\<open>updateStep\<close> does not look at
  the status of the plan.\<close>

lemma update_completes_any_plan:
  assumes "advance_plan now i p = (Inr u, p')" and "list_all (\<lambda>s. step_settled (ps_status s)) (pl_steps p')"
  shows "pl_status p' = PlanCompleted"
  using assms(1)
proof (cases rule: advance_accepted)
  case (1 s s' q)
  then show ?thesis using assms(2) by (auto simp: settle_status_def split: if_splits)
qed

end
