(* ===== verification/UserQuestions.thy ===== *)
theory UserQuestions
  imports Results JsText
begin

text \<open>
  Structured questions to a human, \<^verbatim>\<open>runtime/user-questions.ts\<close>: asking, answering, cancelling, the timer of
  each question and the listing. What the service does to the outside is logged in the state: the promises of
  \<^verbatim>\<open>ask\<close> it resolved and the calls of the listeners. A call that throws keeps what it had changed.
\<close>

section \<open>Data\<close>

datatype q_status = QPending | QAnswered | QCancelled | QTimedOut

record q_option =
  qo_id :: string
  qo_label :: string
  qo_description :: "string option"

record q_answer =
  qa_optionId :: "string option"
  qa_text :: "string option"
  qa_at :: msec
  qa_by :: string

record question =
  uq_id :: id
  uq_tenantId :: string
  uq_sessionId :: string
  uq_question :: string
  uq_context :: "string option"
  uq_options :: "q_option list"
  uq_allowFreeText :: bool
  uq_askedAt :: msec
  uq_expiresAt :: msec
  uq_status :: q_status
  uq_answer :: "q_answer option"

record questions =
  qs_questions :: "(id, question) js_map"
  qs_waiters :: "id list"
  qs_resolved :: "(id \<times> question) list"
  qs_emitted :: "question list"

definition no_questions :: questions where
  "no_questions = \<lparr>qs_questions = [], qs_waiters = [], qs_resolved = [], qs_emitted = []\<rparr>"

datatype question_error =
    QuestionText aurora_error
  | OptionCount
  | TooManyPending nat
  | QuestionNotFound
  | AlreadySettled q_status
  | EmptyAnswer
  | UnknownOption
  | NoFreeText

definition MAX_PENDING_PER_SESSION :: nat where "MAX_PENDING_PER_SESSION = 3"

definition MAX_OPTIONS :: nat where "MAX_OPTIONS = 6"

definition MIN_OPTIONS :: nat where "MIN_OPTIONS = 2"

definition DEFAULT_TIMEOUT_MS :: int where "DEFAULT_TIMEOUT_MS = 300000"

section \<open>Asking\<close>

record ask_input =
  ak_tenantId :: string
  ak_sessionId :: string
  ak_question :: string
  ak_context :: "string option"
  ak_options :: "(string \<times> string option) list"
  ak_allowFreeText :: "bool option"
  ak_timeoutMs :: "int option"

definition build_option :: "nat \<times> string \<times> string option \<Rightarrow> (question_error, q_option) result" where
  "build_option i = (case i of (n, l, d) \<Rightarrow>
     bind_ok (lift_error QuestionText (auroraText l 200 ''Option label'')) (\<lambda>label.
     bind_ok (lift_error QuestionText (field_if d 1000 ''Option description'')) (\<lambda>desc.
       ok \<lparr>qo_id = ''option-'' @ show_int (int n), qo_label = label, qo_description = desc\<rparr>)))"

definition outstanding :: "string \<Rightarrow> questions \<Rightarrow> question list" where
  "outstanding session st = filter (\<lambda>q. uq_sessionId q = session \<and> uq_status q = QPending) (map snd (qs_questions st))"

definition new_question :: "id \<Rightarrow> msec \<Rightarrow> ask_input \<Rightarrow> questions \<Rightarrow> (question_error, question) result" where
  "new_question fresh now i st =
     bind_ok (lift_error QuestionText (auroraText (ak_tenantId i) 200 ''Tenant ID'')) (\<lambda>tenant.
     bind_ok (lift_error QuestionText (auroraText (ak_sessionId i) 200 ''Session ID'')) (\<lambda>session.
       if length (ak_options i) < MIN_OPTIONS \<or> length (ak_options i) > MAX_OPTIONS then throw OptionCount
       else if length (outstanding session st) \<ge> MAX_PENDING_PER_SESSION
       then throw (TooManyPending (length (outstanding session st)))
       else
         bind_ok (lift_error QuestionText (auroraInteger (or_else (ak_timeoutMs i) DEFAULT_TIMEOUT_MS) 5000 1800000 ''Question timeout'')) (\<lambda>wait.
         bind_ok (lift_error QuestionText (auroraText (ak_question i) 2000 ''Question'')) (\<lambda>txt.
         bind_ok (lift_error QuestionText (field_if (ak_context i) 10000 ''Question context'')) (\<lambda>ctx.
         bind_ok (map_ok build_option (enumerate 1 (ak_options i))) (\<lambda>opts.
           ok \<lparr>uq_id = fresh, uq_tenantId = tenant, uq_sessionId = session, uq_question = txt, uq_context = ctx,
               uq_options = opts, uq_allowFreeText = or_else (ak_allowFreeText i) False, uq_askedAt = now,
               uq_expiresAt = now + wait, uq_status = QPending, uq_answer = None\<rparr>))))))"

definition put_question :: "question \<Rightarrow> questions \<Rightarrow> questions" where
  "put_question q st = st\<lparr>qs_questions := map_set (uq_id q) q (qs_questions st)\<rparr>"

definition emit_question :: "question \<Rightarrow> questions \<Rightarrow> questions" where
  "emit_question q st = st\<lparr>qs_emitted := qs_emitted st @ [q]\<rparr>"

text \<open>Resolving the promise of the asker: its timer is cleared and the waiter removed.\<close>

definition resolve_question :: "question \<Rightarrow> questions \<Rightarrow> questions" where
  "resolve_question q st = st\<lparr>qs_waiters := filter (\<lambda>k. k \<noteq> uq_id q) (qs_waiters st),
     qs_resolved := qs_resolved st @ [(uq_id q, q)]\<rparr>"

definition question_ask ::
    "id \<Rightarrow> msec \<Rightarrow> ask_input \<Rightarrow> questions \<Rightarrow> (question_error, question) result \<times> questions" where
  "question_ask fresh now i st =
     (case new_question fresh now i st of
        Inl e \<Rightarrow> (throw e, st)
      | Inr q \<Rightarrow> (ok q, let st1 = emit_question q (put_question q st) in st1\<lparr>qs_waiters := qs_waiters st1 @ [uq_id q]\<rparr>))"

text \<open>The timer of a question, which runs while its waiter is there. Questions are never removed, so \<^verbatim>\<open>get\<close>
  finds it.\<close>

definition question_timeout :: "id \<Rightarrow> questions \<Rightarrow> questions" where
  "question_timeout k st =
     (if k \<notin> set (qs_waiters st) then st
      else
        (case map_get (qs_questions st) k of
           None \<Rightarrow> st
         | Some q \<Rightarrow>
             if uq_status q = QPending
             then let q' = q\<lparr>uq_status := QTimedOut\<rparr> in resolve_question q' (emit_question q' (put_question q' st))
             else resolve_question q st))"

section \<open>Answering and cancelling\<close>

definition question_settle :: "question \<Rightarrow> questions \<Rightarrow> questions" where
  "question_settle q st =
     emit_question q (if uq_id q \<in> set (qs_waiters st) then resolve_question q st else st)"

record answer_input =
  an_questionId :: id
  an_optionId :: "string option"
  an_text :: "string option"
  an_answeredBy :: "string option"

text \<open>\<^verbatim>\<open>question.status = status; question.answer = { ... }\<close>: the status stays set when building the answer throws.\<close>

definition set_answer ::
    "q_status \<Rightarrow> (question_error, q_answer) result \<Rightarrow> question \<Rightarrow> questions \<Rightarrow> (question_error, question) result \<times> questions" where
  "set_answer status built q st =
     (let q1 = q\<lparr>uq_status := status\<rparr> in
      case built of
        Inl e \<Rightarrow> (throw e, put_question q1 st)
      | Inr a \<Rightarrow> (let q2 = q1\<lparr>uq_answer := Some a\<rparr> in (ok q2, question_settle q2 (put_question q2 st))))"

definition build_answer :: "msec \<Rightarrow> answer_input \<Rightarrow> (question_error, q_answer) result" where
  "build_answer now i =
     bind_ok (lift_error QuestionText (field_if (an_text i) 5000 ''Answer text'')) (\<lambda>txt.
     bind_ok (lift_error QuestionText (auroraText (or_else (an_answeredBy i) ''operator'') 200 ''Answered by'')) (\<lambda>by'.
       ok \<lparr>qa_optionId = given_text (an_optionId i), qa_text = txt, qa_at = now, qa_by = by'\<rparr>))"

definition question_answer ::
    "msec \<Rightarrow> answer_input \<Rightarrow> questions \<Rightarrow> (question_error, question) result \<times> questions" where
  "question_answer now i st =
     (case map_get (qs_questions st) (an_questionId i) of
        None \<Rightarrow> (throw QuestionNotFound, st)
      | Some q \<Rightarrow>
          let opt = given_text (an_optionId i); txt = given_text (an_text i) in
          if uq_status q \<noteq> QPending then (throw (AlreadySettled (uq_status q)), st)
          else if opt = None \<and> txt = None then (throw EmptyAnswer, st)
          else if opt \<noteq> None \<and> opt \<notin> set (map (Some \<circ> qo_id) (uq_options q)) then (throw UnknownOption, st)
          else if txt \<noteq> None \<and> \<not> uq_allowFreeText q then (throw NoFreeText, st)
          else set_answer QAnswered (build_answer now i) q st)"

definition question_cancel ::
    "msec \<Rightarrow> id \<Rightarrow> string \<Rightarrow> questions \<Rightarrow> (question_error, question) result \<times> questions" where
  "question_cancel now k why st =
     (case map_get (qs_questions st) k of
        None \<Rightarrow> (throw QuestionNotFound, st)
      | Some q \<Rightarrow>
          if uq_status q = QPending
          then set_answer QCancelled
            (bind_ok (lift_error QuestionText (auroraText why 500 ''Cancel reason'')) (\<lambda>t.
              ok \<lparr>qa_optionId = None, qa_text = Some t, qa_at = now, qa_by = ''system''\<rparr>)) q st
          else (ok q, st))"

text \<open>\<^verbatim>\<open>cancelForSession\<close>: the loop over the questions; a throw of \<^verbatim>\<open>cancel\<close> ends it.\<close>

fun cancel_each :: "msec \<Rightarrow> string \<Rightarrow> string \<Rightarrow> id list \<Rightarrow> nat \<Rightarrow> questions \<Rightarrow> (question_error, nat) result \<times> questions" where
  "cancel_each now session why [] n st = (ok n, st)"
| "cancel_each now session why (k # ks) n st =
     (case map_get (qs_questions st) k of
        None \<Rightarrow> cancel_each now session why ks n st
      | Some q \<Rightarrow>
          if uq_sessionId q = session \<and> uq_status q = QPending
          then (case question_cancel now k why st of
                  (Inl e, st') \<Rightarrow> (throw e, st')
                | (Inr _, st') \<Rightarrow> cancel_each now session why ks (Suc n) st')
          else cancel_each now session why ks n st)"

definition cancelForSession :: "msec \<Rightarrow> string \<Rightarrow> string \<Rightarrow> questions \<Rightarrow> (question_error, nat) result \<times> questions" where
  "cancelForSession now session why st = cancel_each now session why (map fst (qs_questions st)) 0 st"

section \<open>Reading\<close>

definition question_list ::
    "string option \<Rightarrow> string option \<Rightarrow> bool \<Rightarrow> int option \<Rightarrow> questions \<Rightarrow> (question_error, question list) result" where
  "question_list tenant session pendingOnly lim' st =
     bind_ok (lift_error QuestionText (auroraInteger (or_else lim' 50) 1 500 ''Question limit'')) (\<lambda>n.
       ok (take (nat n) (sort_key (\<lambda>q. - uq_askedAt q)
         (filter (\<lambda>q. (case given_text tenant of None \<Rightarrow> True | Some t \<Rightarrow> uq_tenantId q = t)
            \<and> (case given_text session of None \<Rightarrow> True | Some s \<Rightarrow> uq_sessionId q = s)
            \<and> (pendingOnly \<longrightarrow> uq_status q = QPending)) (map snd (qs_questions st))))))"

definition question_get :: "id \<Rightarrow> questions \<Rightarrow> question option" where
  "question_get k st = map_get (qs_questions st) k"

section \<open>The service in use\<close>

datatype question_call =
    AskQ id msec ask_input
  | AnswerQ msec answer_input
  | CancelQ msec id string
  | CancelSessionQ msec string string
  | TimeoutQ id

definition question_step :: "question_call \<Rightarrow> questions \<Rightarrow> questions" where
  "question_step c st =
     (case c of
        AskQ fresh now i \<Rightarrow> snd (question_ask fresh now i st)
      | AnswerQ now i \<Rightarrow> snd (question_answer now i st)
      | CancelQ now k why \<Rightarrow> snd (question_cancel now k why st)
      | CancelSessionQ now session why \<Rightarrow> snd (cancelForSession now session why st)
      | TimeoutQ k \<Rightarrow> question_timeout k st)"

text \<open>\<^verbatim>\<open>randomUUID\<close> gives each question an id of its own.\<close>

definition fresh_call :: "question_call \<Rightarrow> questions \<Rightarrow> bool" where
  "fresh_call c st = (case c of AskQ fresh _ _ \<Rightarrow> map_get (qs_questions st) fresh = None | _ \<Rightarrow> True)"

inductive question_reach :: "questions \<Rightarrow> bool" where
  begin_: "question_reach no_questions"
| call: "question_reach st \<Longrightarrow> fresh_call c st \<Longrightarrow> question_reach (question_step c st)"

section \<open>The life of a question\<close>

text \<open>What the service promises of one question: it is asked once, stays open until one of an answer, a cancellation
  or its timer settles it, and the promise of the asker is resolved once. \<open>Orphaned\<close> is the state the code adds to
  this: the question counts as settled, but its asker still waits for the timer.\<close>

datatype q_phase = Unasked | Open | Orphaned q_status | Settled q_status

definition phase :: "questions \<Rightarrow> id \<Rightarrow> q_phase" where
  "phase st k =
     (case map_get (qs_questions st) k of
        None \<Rightarrow> Unasked
      | Some q \<Rightarrow> if k \<notin> set (qs_waiters st) then Settled (uq_status q)
          else if uq_status q = QPending then Open else Orphaned (uq_status q))"

definition phase_step :: "q_phase \<Rightarrow> q_phase \<Rightarrow> bool" where
  "phase_step p p' = (p' = p \<or>
     (case p of
        Unasked \<Rightarrow> p' = Open
      | Open \<Rightarrow> p' \<in> {Settled QAnswered, Settled QCancelled, Settled QTimedOut, Orphaned QAnswered, Orphaned QCancelled}
      | Orphaned s \<Rightarrow> p' = Settled s
      | Settled s \<Rightarrow> False))"

lemma phase_step_refl [simp]: "phase_step p p"
  by (simp add: phase_step_def)

lemma phase_step_trans: "phase_step a b \<Longrightarrow> phase_step b c \<Longrightarrow> a \<noteq> Unasked \<Longrightarrow> phase_step a c"
  by (cases a; cases b) (auto simp: phase_step_def)

text \<open>The invariant that carries the refinement.\<close>

definition answers_of :: "questions \<Rightarrow> id \<Rightarrow> question list" where
  "answers_of st k = map snd (filter (\<lambda>r. fst r = k) (qs_resolved st))"

definition question_ok :: "question \<Rightarrow> bool" where
  "question_ok q \<longleftrightarrow> MIN_OPTIONS \<le> length (uq_options q) \<and> length (uq_options q) \<le> MAX_OPTIONS
     \<and> (uq_status q = QPending \<or> uq_status q = QTimedOut \<longrightarrow> uq_answer q = None)
     \<and> (\<forall>a. uq_status q = QAnswered \<and> uq_answer q = Some a \<longrightarrow>
          (qa_optionId a \<noteq> None \<or> qa_text a \<noteq> None)
          \<and> (\<forall>o'. qa_optionId a = Some o' \<longrightarrow> o' \<in> qo_id ` set (uq_options q))
          \<and> (qa_text a \<noteq> None \<longrightarrow> uq_allowFreeText q))"

definition questions_ok :: "questions \<Rightarrow> bool" where
  "questions_ok st \<longleftrightarrow> distinct (map fst (qs_questions st))
     \<and> (\<forall>k q. map_get (qs_questions st) k = Some q \<longrightarrow> uq_id q = k \<and> question_ok q)
     \<and> (\<forall>k. answers_of st k = (case map_get (qs_questions st) k of None \<Rightarrow> []
          | Some q \<Rightarrow> if k \<in> set (qs_waiters st) then [] else [q]))
     \<and> (\<forall>k. map_get (qs_questions st) k = None \<longrightarrow> k \<notin> set (qs_waiters st))
     \<and> (\<forall>k q. map_get (qs_questions st) k = Some q \<longrightarrow> uq_status q = QPending \<longrightarrow> k \<in> set (qs_waiters st))
     \<and> (\<forall>s. length (outstanding s st) \<le> MAX_PENDING_PER_SESSION)"

lemma questions_okD:
  assumes "questions_ok st"
  shows "distinct (map fst (qs_questions st))"
    and "map_get (qs_questions st) k = Some q \<Longrightarrow> uq_id q = k"
    and "map_get (qs_questions st) k = Some q \<Longrightarrow> question_ok q"
    and "answers_of st k = (case map_get (qs_questions st) k of None \<Rightarrow> [] | Some q \<Rightarrow> if k \<in> set (qs_waiters st) then [] else [q])"
    and "map_get (qs_questions st) k = None \<Longrightarrow> k \<notin> set (qs_waiters st)"
    and "map_get (qs_questions st) k = Some q \<Longrightarrow> uq_status q = QPending \<Longrightarrow> k \<in> set (qs_waiters st)"
    and "length (outstanding s st) \<le> MAX_PENDING_PER_SESSION"
  using assms by (simp_all add: questions_ok_def)

text \<open>Replacing a question by one that is not pending never adds to the pending ones of a session.\<close>

lemma outstanding_put:
  assumes "map_get (qs_questions st) (uq_id q) \<noteq> None" and "uq_status q \<noteq> QPending"
  shows "length (outstanding s (put_question q st)) \<le> length (outstanding s st)"
proof -
  have "length (filter P (map snd (map_set k q m))) \<le> length (filter P (map snd m))"
    if "map_get m k \<noteq> None" "\<not> P q" for P k and m :: "(id, question) js_map"
    using that by (induction m) (auto split: if_splits)
  then show ?thesis using assms unfolding outstanding_def put_question_def by simp
qed

lemma outstanding_add:
  assumes "map_get (qs_questions st) (uq_id q) = None"
  shows "outstanding s (put_question q st) = outstanding s st @ (if uq_sessionId q = s \<and> uq_status q = QPending then [q] else [])"
proof -
  have "map_set k q m = m @ [(k, q)]" if "map_get m k = None" for k and m :: "(id, question) js_map"
    using that by (induction m) auto
  then show ?thesis using assms unfolding outstanding_def put_question_def by simp
qed

lemma outstanding_frame [simp]:
  "outstanding s (st\<lparr>qs_waiters := w\<rparr>) = outstanding s st" "outstanding s (emit_question q st) = outstanding s st"
  "outstanding s (resolve_question q st) = outstanding s st"
  by (simp_all add: outstanding_def emit_question_def resolve_question_def)

lemma put_question_sel [simp]:
  "map_get (qs_questions (put_question q st)) k = (if k = uq_id q then Some q else map_get (qs_questions st) k)"
  "qs_waiters (put_question q st) = qs_waiters st" "qs_resolved (put_question q st) = qs_resolved st"
  "distinct (map fst (qs_questions st)) \<Longrightarrow> distinct (map fst (qs_questions (put_question q st)))"
  by (simp_all add: put_question_def map_get_set distinct_update)

lemma emit_question_sel [simp]:
  "qs_questions (emit_question q st) = qs_questions st" "qs_waiters (emit_question q st) = qs_waiters st"
  "qs_resolved (emit_question q st) = qs_resolved st"
  by (simp_all add: emit_question_def)

lemma resolve_question_sel [simp]:
  "qs_questions (resolve_question q st) = qs_questions st"
  "qs_waiters (resolve_question q st) = filter (\<lambda>k. k \<noteq> uq_id q) (qs_waiters st)"
  "qs_resolved (resolve_question q st) = qs_resolved st @ [(uq_id q, q)]"
  by (simp_all add: resolve_question_def)

lemma answers_frame [simp]:
  "answers_of (put_question q st) k = answers_of st k" "answers_of (emit_question q st) k = answers_of st k"
  "answers_of (resolve_question q st) k = answers_of st k @ (if k = uq_id q then [q] else [])"
  "answers_of (st\<lparr>qs_waiters := w\<rparr>) k = answers_of st k"
  by (simp_all add: answers_of_def)

text \<open>A question stops being pending, with or without its asker being told.\<close>

lemma closed_ok:
  assumes ok: "questions_ok st" and q: "map_get (qs_questions st) (uq_id q') = Some q" "k = uq_id q'"
    and new: "question_ok q'" "uq_status q' \<noteq> QPending" and pending: "uq_status q = QPending"
  shows "questions_ok (put_question q' st)" and "questions_ok (resolve_question q' (put_question q' st))"
proof -
  have w: "uq_id q' \<in> set (qs_waiters st)" using questions_okD(6) [OF ok q(1) pending] .
  have o: "length (outstanding s (put_question q' st)) \<le> MAX_PENDING_PER_SESSION" for s
    using outstanding_put [of st q' s] questions_okD(7) [OF ok, of s] q(1) new(2) by simp
  show "questions_ok (put_question q' st)"
    unfolding questions_ok_def using ok new w o
    by (auto simp: questions_okD(1,4,5) [OF ok] intro: questions_okD [OF ok] split: option.splits)
  show "questions_ok (resolve_question q' (put_question q' st))"
    unfolding questions_ok_def using ok new w o q(1)
    by (auto simp: questions_okD(1,4,5) [OF ok] intro: questions_okD [OF ok] split: option.splits)
qed

lemma emit_ok [simp]: "questions_ok (emit_question q st) = questions_ok st"
  by (simp add: questions_ok_def cong: option.case_cong)

lemma emit_phase [simp]: "phase (emit_question q st) k = phase st k"
  by (simp add: phase_def cong: option.case_cong)

lemma set_answer_refines:
  assumes ok: "questions_ok st" and q: "map_get (qs_questions st) (uq_id q) = Some q" and pending: "uq_status q = QPending"
    and s: "s = QAnswered \<or> s = QCancelled" and a: "\<And>a. built = Inr a \<Longrightarrow> question_ok (q\<lparr>uq_status := s, uq_answer := Some a\<rparr>)"
  shows "questions_ok (snd (set_answer s built q st))" and "phase_step (phase st k) (phase (snd (set_answer s built q st)) k)"
proof -
  have w: "uq_id q \<in> set (qs_waiters st)" using questions_okD(6) [OF ok q pending] .
  have s': "s \<noteq> QPending" using s by auto
  have q1: "question_ok (q\<lparr>uq_status := s\<rparr>)"
    using questions_okD(3) [OF ok q] pending s by (auto simp: question_ok_def)
  have "phase st (uq_id q) = Open" using q pending w by (simp add: phase_def)
  show "questions_ok (snd (set_answer s built q st))"
  proof (cases built)
    case (Inl e)
    then show ?thesis using closed_ok(1) [OF ok, of "q\<lparr>uq_status := s\<rparr>" q] q pending q1 s' by (simp add: set_answer_def)
  next
    case (Inr b)
    then show ?thesis using closed_ok(2) [OF ok, of "q\<lparr>uq_status := s, uq_answer := Some b\<rparr>" q] q pending a [OF Inr] s' w
      by (simp add: set_answer_def question_settle_def Let_def)
  qed
  show "phase_step (phase st k) (phase (snd (set_answer s built q st)) k)"
    using s q w pending by (cases built) (auto simp: set_answer_def question_settle_def Let_def phase_def phase_step_def split: option.split)
qed

lemma answer_refines:
  assumes "questions_ok st"
  shows "questions_ok (snd (question_answer now i st)) \<and> phase_step (phase st k) (phase (snd (question_answer now i st)) k)"
proof (cases "map_get (qs_questions st) (an_questionId i)")
  case (Some q)
  note id' = questions_okD(2) [OF assms Some]
  have "question_ok (q\<lparr>uq_status := QAnswered, uq_answer := Some a\<rparr>)"
    if b: "build_answer now i = Inr a" and o: "given_text (an_optionId i) \<noteq> None \<or> given_text (an_text i) \<noteq> None"
      "given_text (an_optionId i) \<noteq> None \<longrightarrow> given_text (an_optionId i) \<in> set (map (Some \<circ> qo_id) (uq_options q))"
      "given_text (an_text i) \<noteq> None \<longrightarrow> uq_allowFreeText q" for a
  proof -
    obtain t where t: "field_if (an_text i) 5000 ''Answer text'' = Inr t" "qa_optionId a = given_text (an_optionId i)" "qa_text a = t"
      using b by (auto simp: build_answer_def bind_ok_Inr)
    have "t = None \<longleftrightarrow> given_text (an_text i) = None"
      using t(1) by (auto simp: field_if_def given_text_def split: option.splits list.splits sum.splits)
    then show ?thesis using o t questions_okD(3) [OF assms Some] by (auto simp: question_ok_def)
  qed
  then show ?thesis
    using set_answer_refines [of st q QAnswered "build_answer now i"] assms Some id'
    by (auto simp: question_answer_def Let_def simp del: map_map)
qed (simp add: question_answer_def assms)

lemma cancel_refines:
  assumes "questions_ok st"
  shows "questions_ok (snd (question_cancel now j why st)) \<and> phase_step (phase st k) (phase (snd (question_cancel now j why st)) k)"
proof (cases "map_get (qs_questions st) j")
  case (Some q)
  note id' = questions_okD(2) [OF assms Some]
  have "question_ok (q\<lparr>uq_status := QCancelled, uq_answer := Some a\<rparr>)" for a
    using questions_okD(3) [OF assms Some] by (simp add: question_ok_def)
  then show ?thesis using set_answer_refines [of st q QCancelled] assms Some id'
    by (auto simp: question_cancel_def)
qed (simp add: question_cancel_def assms)

lemma phase_Unasked: "phase st k = Unasked \<longleftrightarrow> map_get (qs_questions st) k = None"
  by (simp add: phase_def split: option.split)

lemma set_answer_dom:
  "map_get (qs_questions (snd (set_answer s built q st))) k = None \<longleftrightarrow> k \<noteq> uq_id q \<and> map_get (qs_questions st) k = None"
  by (cases built) (simp_all add: set_answer_def Let_def question_settle_def)

lemma unasked_kept:
  assumes "questions_ok st"
  shows "phase (snd (question_cancel now j why st)) k = Unasked \<longleftrightarrow> phase st k = Unasked"
proof (cases "map_get (qs_questions st) j")
  case (Some q)
  then show ?thesis using questions_okD(2) [OF assms Some]
    by (auto simp: phase_Unasked question_cancel_def set_answer_dom)
qed (simp add: question_cancel_def)

lemma cancel_each_refines:
  "questions_ok st \<Longrightarrow> questions_ok (snd (cancel_each now s why ks n st))
     \<and> phase_step (phase st k) (phase (snd (cancel_each now s why ks n st)) k)"
proof (induction ks arbitrary: n st)
  case (Cons j ks)
  note c = cancel_refines [OF Cons.prems, of now j why]
  show ?case
  proof (cases "map_get (qs_questions st) j")
    case (Some q)
    obtain r st' where r: "question_cancel now j why st = (r, st')" by fastforce
    have ok: "questions_ok st'" "phase_step (phase st k) (phase st' k)" using c r by simp_all
    note IH = Cons.IH [OF ok(1), of "Suc n"]
    have "phase_step (phase st k) (phase (snd (cancel_each now s why ks (Suc n) st')) k)"
    proof (cases "phase st k = Unasked")
      case True
      then have "phase st' k = phase st k" using unasked_kept [OF Cons.prems, of now j why k] r by simp
      then show ?thesis using IH by simp
    next
      case False
      then show ?thesis using phase_step_trans [OF ok(2)] IH by blast
    qed
    then show ?thesis using Some r ok IH Cons.IH [OF Cons.prems] by (auto split: sum.split)
  qed (simp add: Cons)
qed simp

lemma timeout_refines:
  assumes "questions_ok st"
  shows "questions_ok (question_timeout j st) \<and> phase_step (phase st k) (phase (question_timeout j st) k)"
proof (cases "j \<in> set (qs_waiters st)")
  case True
  then obtain q where q: "map_get (qs_questions st) j = Some q" using questions_okD(5) [OF assms, of j] by blast
  note id' = questions_okD(2) [OF assms q]
  show ?thesis
  proof (cases "uq_status q = QPending")
    case pending: True
    let ?q = "q\<lparr>uq_status := QTimedOut\<rparr>"
    have "question_ok ?q" using questions_okD(3) [OF assms q] pending by (simp add: question_ok_def)
    then have "questions_ok (resolve_question ?q (put_question ?q st))"
      using closed_ok(2) [OF assms, of ?q q] q id' pending by simp
    moreover have "resolve_question ?q (emit_question ?q (put_question ?q st)) = emit_question ?q (resolve_question ?q (put_question ?q st))"
      by (simp add: resolve_question_def emit_question_def)
    ultimately show ?thesis using True q pending id'
      by (auto simp: question_timeout_def Let_def phase_def phase_step_def split: option.split)
  next
    case False
    have "questions_ok (resolve_question q st)" unfolding questions_ok_def
      using assms q id' True False by (auto simp: questions_okD(1,4,5) [OF assms] intro: questions_okD [OF assms]
          simp del: map_of_eq_Some_iff split: option.splits)
    then show ?thesis using True q False id'
      by (auto simp: question_timeout_def phase_def phase_step_def split: option.split)
  qed
qed (simp add: question_timeout_def assms)

lemma new_question_Inr:
  assumes "new_question fresh now i st = Inr q"
  shows "uq_id q = fresh" "uq_status q = QPending" "question_ok q" "length (outstanding (uq_sessionId q) st) < MAX_PENDING_PER_SESSION"
proof -
  obtain opts where o: "map_ok build_option (enumerate 1 (ak_options i)) = Inr opts" "uq_options q = opts" "uq_answer q = None"
    and q: "uq_id q = fresh" "uq_status q = QPending" "length (outstanding (uq_sessionId q) st) < MAX_PENDING_PER_SESSION"
    and n: "MIN_OPTIONS \<le> length (ak_options i)" "length (ak_options i) \<le> MAX_OPTIONS"
    using assms by (auto simp: new_question_def bind_ok_Inr split: if_splits)
  have "length opts = length (ak_options i)" using list_all2_lengthD [OF map_ok_all [OF o(1)]] by simp
  then show "question_ok q" using o n q by (simp add: question_ok_def)
qed (use assms in \<open>auto simp: new_question_def bind_ok_Inr split: if_splits\<close>)

lemma ask_refines:
  assumes ok: "questions_ok st" and fresh: "map_get (qs_questions st) fresh = None"
  shows "questions_ok (snd (question_ask fresh now i st)) \<and> phase_step (phase st k) (phase (snd (question_ask fresh now i st)) k)"
proof (cases "new_question fresh now i st")
  case (Inr q)
  note n = new_question_Inr [OF Inr]
  have "length (outstanding s (put_question q st)) \<le> MAX_PENDING_PER_SESSION" for s
    using outstanding_add [of st q s] fresh n questions_okD(7) [OF ok, of s] by auto
  then show ?thesis using n fresh Inr questions_okD(5) [OF ok fresh] unfolding questions_ok_def
    by (auto simp: question_ask_def Let_def questions_okD(1,4,5) [OF ok] phase_def phase_step_def
        intro: questions_okD [OF ok] split: option.splits)
qed (simp add: question_ask_def ok)

lemma question_step_refines:
  assumes "questions_ok st" and "fresh_call c st"
  shows "questions_ok (question_step c st)" and "phase_step (phase st k) (phase (question_step c st) k)"
  using ask_refines [OF assms(1)] answer_refines [OF assms(1)] cancel_refines [OF assms(1)] timeout_refines [OF assms(1)]
    cancel_each_refines [OF assms(1)] assms(2)
  by (auto simp: question_step_def fresh_call_def cancelForSession_def split: question_call.splits)

lemma question_reach_ok: "question_reach st \<Longrightarrow> questions_ok st"
proof (induction rule: question_reach.induct)
  case begin_
  show ?case by (simp add: questions_ok_def no_questions_def answers_of_def outstanding_def)
qed (rule question_step_refines)

section \<open>Properties\<close>


definition demo_ask :: ask_input where
  "demo_ask = \<lparr>ak_tenantId = ''t'', ak_sessionId = ''s'', ak_question = ''which?'', ak_context = None,
     ak_options = [(''a'', None), (''b'', None)], ak_allowFreeText = Some True, ak_timeoutMs = None\<rparr>"

definition demo_answer :: "string option \<Rightarrow> answer_input" where
  "demo_answer txt = \<lparr>an_questionId = ''q'', an_optionId = Some ''option-1'', an_text = txt, an_answeredBy = None\<rparr>"

lemma demo_questions_reach: "question_reach (question_step (AskQ ''q'' 0 demo_ask) no_questions)"
  by (rule question_reach.call [OF question_reach.begin_]) (simp add: fresh_call_def no_questions_def)


text \<open>At any time a session has at most three open questions, each question has two to six options, one that timed
  out carries no answer, and what the asker of an answered question gets names one of its options, or a text
  where it takes one.\<close>

theorem questions_bounded:
  assumes "question_reach st"
  shows "length (outstanding s st) \<le> 3
    \<and> (\<forall>k q. (k, q) \<in> set (qs_resolved st) \<longrightarrow> question_get k st = Some q \<and> uq_status q \<noteq> QPending \<and> question_ok q)"
proof -
  note ok = question_reach_ok [OF assms]
  have "question_get k st = Some q \<and> uq_status q \<noteq> QPending \<and> question_ok q" if "(k, q) \<in> set (qs_resolved st)" for k q
  proof -
    have "q \<in> set (answers_of st k)" using that by (force simp: answers_of_def)
    then show ?thesis using questions_okD(4) [OF ok, of k] questions_okD(3,6) [OF ok, of k]
      by (auto simp: question_get_def split: option.splits if_splits)
  qed
  then show ?thesis using questions_okD(7) [OF ok, of s] by (simp add: MAX_PENDING_PER_SESSION_def)
qed

lemma questions_bounded_witness:
  "\<exists>q. qs_resolved (question_step (TimeoutQ ''q'') (question_step (AskQ ''q'' 0 demo_ask) no_questions)) = [(''q'', q)]
     \<and> uq_status q = QTimedOut \<and> question_ok q"
proof -
  let ?st = "question_step (TimeoutQ ''q'') (question_step (AskQ ''q'' 0 demo_ask) no_questions)"
  have r: "question_reach ?st" by (rule question_reach.call [OF demo_questions_reach]) (simp add: fresh_call_def)
  have "map (\<lambda>(k, q). (k, uq_status q)) (qs_resolved ?st) = [(''q'', QTimedOut)]" by code_simp
  then obtain q where q: "qs_resolved ?st = [(''q'', q)]" "uq_status q = QTimedOut"
    by (auto simp: map_eq_Cons_conv)
  then show ?thesis using questions_bounded [OF r, of "''s''"] by simp
qed

text \<open>An answer that is refused for its text or its author orphans the question: it is marked as answered without an
  answer, every later answer is refused and a cancellation does nothing; the asker hears from the timer only, and
  gets a question that counts as answered and carries no answer.\<close>

theorem refused_answer_orphans:
  assumes "question_reach st" and "question_answer now i st = (Inl (QuestionText e), st1)" and "k = an_questionId i"
  shows "phase st k = Open \<and> phase st1 k = Orphaned QAnswered
    \<and> question_answer later (j\<lparr>an_questionId := k\<rparr>) st1 = (throw (AlreadySettled QAnswered), st1)
    \<and> snd (question_cancel later k why st1) = st1
    \<and> map (\<lambda>q. (uq_status q, uq_answer q)) (answers_of (question_timeout k st1) k) = [(QAnswered, None)]"
proof -
  note ok = question_reach_ok [OF assms(1)]
  obtain q where q: "map_get (qs_questions st) k = Some q" "uq_status q = QPending" and s: "set_answer QAnswered (build_answer now i) q st
      = (Inl (QuestionText e), st1)"
    using assms(2,3) by (auto simp: question_answer_def Let_def split: option.splits if_splits)
  have st1: "st1 = put_question (q\<lparr>uq_status := QAnswered\<rparr>) st"
    using s by (auto simp: set_answer_def Let_def split: sum.splits)
  note id' = questions_okD(2) [OF ok q(1)] and w = questions_okD(6) [OF ok q]
  have "answers_of st k = []" using questions_okD(4) [OF ok, of k] q w by simp
  moreover have "uq_answer q = None" using questions_okD(3) [OF ok q(1)] q(2) by (simp add: question_ok_def)
  ultimately show ?thesis unfolding st1 using q id' w
    by (auto simp: phase_def question_answer_def question_cancel_def question_timeout_def Let_def)
qed

lemma refused_answer_orphans_witness:
  "\<exists>st1. phase st1 ''q'' = Orphaned QAnswered
     \<and> question_answer 1 ((demo_answer None)\<lparr>an_answeredBy := Some []\<rparr>) (question_step (AskQ ''q'' 0 demo_ask) no_questions)
         = (throw (QuestionText (Invalid ''Answered by'')), st1)"
proof -
  let ?i = "(demo_answer None)\<lparr>an_answeredBy := Some []\<rparr>" and ?st = "question_step (AskQ ''q'' 0 demo_ask) no_questions"
  have "fst (question_answer 1 ?i ?st) = Inl (QuestionText (Invalid ''Answered by''))" by code_simp
  then obtain st1 where a: "question_answer 1 ?i ?st = (Inl (QuestionText (Invalid ''Answered by'')), st1)" by (metis prod.collapse)
  have "''q'' = an_questionId ?i" by (simp add: demo_answer_def)
  from refused_answer_orphans [OF demo_questions_reach a this] a show ?thesis by blast
qed

end
