(* ===== verification/WorkerFraming.thy ===== *)
theory WorkerFraming
  imports AuroraState "HOL-Library.Word"
begin

text \<open>
  The frames of the worker protocol, \<^verbatim>\<open>runtime/worker/framing.ts\<close>: encoding and the streaming decoder, on bytes.
  A header is a JSON value; its text is made by \<open>render\<close> and read by \<open>parse\<close> (\<open>None\<close> when \<^verbatim>\<open>JSON.parse\<close> throws),
  \<open>typed\<close> says that it has a \<^verbatim>\<open>type\<close> that is a string.
\<close>

type_synonym byte = "8 word"

datatype frame_error =
    HeaderTooLarge
  | PayloadTooLarge
  | HeaderExceeds nat
  | PayloadExceeds nat
  | HeaderNotJson
  | HeaderUntyped

definition PREFIX_BYTES :: nat where "PREFIX_BYTES = 8"

definition DEFAULT_MAX_HEADER_BYTES :: nat where "DEFAULT_MAX_HEADER_BYTES = 64 * 1024"

definition DEFAULT_MAX_PAYLOAD_BYTES :: nat where "DEFAULT_MAX_PAYLOAD_BYTES = 16 * 1024 * 1024"

section \<open>Encoding\<close>

text \<open>\<^verbatim>\<open>writeUInt32BE\<close> and \<^verbatim>\<open>readUInt32BE\<close>\<close>

definition writeUInt32BE :: "nat \<Rightarrow> byte list" where
  "writeUInt32BE n = map of_nat [n div 16777216, n div 65536, n div 256, n]"

definition readUInt32BE :: "byte list \<Rightarrow> nat" where
  "readUInt32BE bs = foldl (\<lambda>n b. 256 * n + unat b) 0 (take 4 bs)"

definition encodeWorkerFrame :: "('h \<Rightarrow> byte list) \<Rightarrow> 'h \<Rightarrow> byte list \<Rightarrow> (frame_error, byte list) result" where
  "encodeWorkerFrame render header payload =
     (let headerBytes = render header in
      if length headerBytes > DEFAULT_MAX_HEADER_BYTES then throw HeaderTooLarge
      else if length payload > DEFAULT_MAX_PAYLOAD_BYTES then throw PayloadTooLarge
      else ok (writeUInt32BE (length headerBytes) @ writeUInt32BE (length payload) @ headerBytes @ payload))"

section \<open>Decoding\<close>

text \<open>One turn of the loop in \<^verbatim>\<open>push\<close>: \<open>None\<close> is the \<^verbatim>\<open>break\<close> and the failed loop condition.\<close>

definition decode_one ::
    "(byte list \<Rightarrow> 'h option) \<Rightarrow> ('h \<Rightarrow> bool) \<Rightarrow> nat \<Rightarrow> nat \<Rightarrow> byte list
       \<Rightarrow> (frame_error, ('h \<times> byte list) \<times> byte list) result option" where
  "decode_one parse typed maxHeader maxPayload buffered =
     (if length buffered < PREFIX_BYTES then None
      else
        let headerLength = readUInt32BE buffered;
            payloadLength = readUInt32BE (drop 4 buffered);
            total = PREFIX_BYTES + headerLength + payloadLength
        in if headerLength > maxHeader then Some (throw (HeaderExceeds maxHeader))
           else if payloadLength > maxPayload then Some (throw (PayloadExceeds maxPayload))
           else if length buffered < total then None
           else
             (case parse (take headerLength (drop PREFIX_BYTES buffered)) of
                None \<Rightarrow> Some (throw HeaderNotJson)
              | Some header \<Rightarrow>
                  if \<not> typed header then Some (throw HeaderUntyped)
                  else Some (ok ((header, take payloadLength (drop (PREFIX_BYTES + headerLength) buffered)), drop total buffered))))"

lemma decode_one_shorter: "decode_one parse typed mh mp buf = Some (Inr (f, rest)) \<Longrightarrow> length rest < length buf"
  by (auto simp: decode_one_def Let_def PREFIX_BYTES_def split: if_splits option.splits)

function decode_loop ::
    "(byte list \<Rightarrow> 'h option) \<Rightarrow> ('h \<Rightarrow> bool) \<Rightarrow> nat \<Rightarrow> nat \<Rightarrow> byte list
       \<Rightarrow> (frame_error, ('h \<times> byte list) list) result \<times> byte list" where
  "decode_loop parse typed mh mp buf =
     (case decode_one parse typed mh mp buf of
        None \<Rightarrow> (ok [], buf)
      | Some (Inl e) \<Rightarrow> (throw e, buf)
      | Some (Inr (f, rest)) \<Rightarrow>
          (case decode_loop parse typed mh mp rest of
             (Inl e, b) \<Rightarrow> (throw e, b)
           | (Inr fs, b) \<Rightarrow> (ok (f # fs), b)))"
  by pat_completeness auto

termination
  by (relation "measure (\<lambda>(p, t, mh, mp, buf). length buf)") (auto dest: decode_one_shorter)

declare decode_loop.simps [simp del]

definition decoder_push ::
    "(byte list \<Rightarrow> 'h option) \<Rightarrow> ('h \<Rightarrow> bool) \<Rightarrow> nat \<Rightarrow> nat \<Rightarrow> byte list \<Rightarrow> byte list
       \<Rightarrow> (frame_error, ('h \<times> byte list) list) result \<times> byte list" where
  "decoder_push parse typed mh mp chunk buffered = decode_loop parse typed mh mp (buffered @ chunk)"

text \<open>A connection: the chunks that arrive, each handed to \<^verbatim>\<open>push\<close>; a throw destroys the socket.\<close>

fun push_all ::
    "(byte list \<Rightarrow> 'h option) \<Rightarrow> ('h \<Rightarrow> bool) \<Rightarrow> nat \<Rightarrow> nat \<Rightarrow> byte list list \<Rightarrow> byte list
       \<Rightarrow> (frame_error, ('h \<times> byte list) list) result \<times> byte list" where
  "push_all parse typed mh mp [] buffered = (ok [], buffered)"
| "push_all parse typed mh mp (c # cs) buffered =
     (case decoder_push parse typed mh mp c buffered of
        (Inl e, b) \<Rightarrow> (throw e, b)
      | (Inr fs, b) \<Rightarrow>
          (case push_all parse typed mh mp cs b of (Inl e, b') \<Rightarrow> (throw e, b') | (Inr gs, b') \<Rightarrow> (ok (fs @ gs), b')))"

text \<open>The bytes of several frames written one after the other.\<close>

fun encode_all :: "('h \<Rightarrow> byte list) \<Rightarrow> ('h \<times> byte list) list \<Rightarrow> (frame_error, byte list) result" where
  "encode_all render [] = ok []"
| "encode_all render (f # fs) =
     (case encodeWorkerFrame render (fst f) (snd f) of
        Inl e \<Rightarrow> throw e
      | Inr bs \<Rightarrow> (case encode_all render fs of Inl e \<Rightarrow> throw e | Inr cs \<Rightarrow> ok (bs @ cs)))"

section \<open>Lemmas\<close>

lemma length_writeUInt32BE [simp]: "length (writeUInt32BE n) = 4"
  by (simp add: writeUInt32BE_def)

lemma readUInt32BE_append: "4 \<le> length bs \<Longrightarrow> readUInt32BE (bs @ cs) = readUInt32BE bs"
  by (simp add: readUInt32BE_def)

lemma read_writeUInt32BE [simp]:
  assumes "n < 2 ^ 32"
  shows "readUInt32BE (writeUInt32BE n @ bs) = n"
proof -
  have "n div 16777216 < 256" using assms by simp
  then have "n div 16777216 mod 256 = n div 16777216" by simp
  moreover have "256 * (n div 16777216) + n div 65536 mod 256 = n div 65536"
    using mult_div_mod_eq [of 256 "n div 65536"] by (simp add: div_mult2_eq [symmetric])
  moreover have "256 * (n div 65536) + n div 256 mod 256 = n div 256"
    using mult_div_mod_eq [of 256 "n div 256"] by (simp add: div_mult2_eq [symmetric])
  ultimately show ?thesis
    by (simp add: readUInt32BE_def writeUInt32BE_def unat_of_nat)
qed

lemma decode_one_append:
  assumes "decode_one parse typed mh mp buf = Some r"
  shows "decode_one parse typed mh mp (buf @ c) = Some (case r of Inl e \<Rightarrow> Inl e | Inr (f, rest) \<Rightarrow> Inr (f, rest @ c))"
proof -
  have l: "8 \<le> length buf" using assms by (auto simp: decode_one_def PREFIX_BYTES_def split: if_splits)
  then have r: "readUInt32BE (buf @ c) = readUInt32BE buf" "readUInt32BE (drop 4 (buf @ c)) = readUInt32BE (drop 4 buf)"
    by (simp_all add: readUInt32BE_append)
  show ?thesis using assms l r
    by (auto simp: decode_one_def Let_def PREFIX_BYTES_def split: if_splits option.splits)
qed

lemma decode_loop_append:
  "decode_loop parse typed mh mp (buf @ c) =
     (case decode_loop parse typed mh mp buf of
        (Inl e, b) \<Rightarrow> (Inl e, b @ c)
      | (Inr fs, b) \<Rightarrow> (case decode_loop parse typed mh mp (b @ c) of (Inl e, b') \<Rightarrow> (Inl e, b') | (Inr gs, b') \<Rightarrow> (Inr (fs @ gs), b')))"
proof (induction parse typed mh mp buf rule: decode_loop.induct)
  case (1 parse typed mh mp buf)
  show ?case
  proof (cases "decode_one parse typed mh mp buf")
    case None
    then show ?thesis by (simp add: decode_loop.simps [of _ _ _ _ buf] split: prod.split sum.split)
  next
    case (Some r)
    note a = decode_one_append [OF Some, of c]
    show ?thesis
    proof (cases r)
      case (Inl e)
      then show ?thesis using Some a by (simp add: decode_loop.simps [of _ _ _ _ buf] decode_loop.simps [of _ _ _ _ "buf @ c"])
    next
      case (Inr x)
      obtain f rest where x: "x = (f, rest)" by (cases x)
      have IH: "decode_loop parse typed mh mp (rest @ c) =
         (case decode_loop parse typed mh mp rest of
            (Inl e, b) \<Rightarrow> (Inl e, b @ c)
          | (Inr fs, b) \<Rightarrow> (case decode_loop parse typed mh mp (b @ c) of (Inl e, b') \<Rightarrow> (Inl e, b') | (Inr gs, b') \<Rightarrow> (Inr (fs @ gs), b')))"
        using 1 [OF Some] Inr x by simp
      show ?thesis using Some a Inr x
        by (simp add: decode_loop.simps [of _ _ _ _ buf] decode_loop.simps [of _ _ _ _ "buf @ c"] IH split: prod.split sum.split)
    qed
  qed
qed

lemma decode_stops: "decode_loop parse typed mh mp buf = (Inr fs, b) \<Longrightarrow> decode_one parse typed mh mp b = None"
proof (induction parse typed mh mp buf arbitrary: fs rule: decode_loop.induct)
  case (1 parse typed mh mp buf)
  show ?case
  proof (cases "decode_one parse typed mh mp buf")
    case None
    then show ?thesis using "1.prems" by (simp add: decode_loop.simps [of _ _ _ _ buf])
  next
    case (Some r)
    then obtain f rest gs where r: "r = Inr (f, rest)" "decode_loop parse typed mh mp rest = (Inr gs, b)"
      using "1.prems" by (auto simp: decode_loop.simps [of _ _ _ _ buf] split: sum.splits prod.splits)
    show ?thesis by (rule "1.IH" [OF Some r(1) refl r(2)])
  qed
qed

lemma decode_rest: "decode_loop parse typed mh mp buf = (Inr fs, b) \<Longrightarrow> decode_loop parse typed mh mp b = (Inr [], b)"
  using decode_stops [of parse typed mh mp buf fs b] by (simp add: decode_loop.simps [of _ _ _ _ b])

lemma push_all_decode:
  "decode_loop parse typed mh mp (buf @ concat cs) = (Inr fs, b) \<Longrightarrow> push_all parse typed mh mp cs buf
     = (if cs = [] then (Inr [], buf) else (Inr fs, b))"
proof (induction cs arbitrary: buf fs)
  case (Cons c cs)
  have "decode_loop parse typed mh mp ((buf @ c) @ concat cs) = (Inr fs, b)" using Cons.prems by simp
  then obtain gs b1 hs where p: "decode_loop parse typed mh mp (buf @ c) = (Inr gs, b1)"
      "decode_loop parse typed mh mp (b1 @ concat cs) = (Inr hs, b)" "fs = gs @ hs"
    unfolding decode_loop_append [of _ _ _ _ "buf @ c"] by (auto split: prod.splits sum.splits)
  have idem: "decode_loop parse typed mh mp b1 = (Inr [], b1)"
    using p(1) by (rule decode_rest)
  show ?case using Cons.IH [OF p(2)] p idem by (cases cs) (auto simp: decoder_push_def)
qed simp

lemma decode_one_encoded:
  assumes "encodeWorkerFrame render h p = Inr bs" and "parse (render h) = Some h" and "typed h"
  shows "decode_one parse typed DEFAULT_MAX_HEADER_BYTES DEFAULT_MAX_PAYLOAD_BYTES (bs @ rest) = Some (Inr ((h, p), rest))"
proof -
  have l: "length (render h) \<le> DEFAULT_MAX_HEADER_BYTES" "length p \<le> DEFAULT_MAX_PAYLOAD_BYTES"
    and bs: "bs = writeUInt32BE (length (render h)) @ writeUInt32BE (length p) @ render h @ p"
    using assms(1) by (auto simp: encodeWorkerFrame_def Let_def split: if_splits)
  have "length (render h) < 2 ^ 32" "length p < 2 ^ 32"
    using l by (simp_all add: DEFAULT_MAX_HEADER_BYTES_def DEFAULT_MAX_PAYLOAD_BYTES_def)
  then have "readUInt32BE (bs @ rest) = length (render h)" "readUInt32BE (drop 4 (bs @ rest)) = length p"
    unfolding bs by simp_all
  then show ?thesis using assms(2,3) l by (simp add: decode_one_def bs PREFIX_BYTES_def)
qed

lemma decode_encoded:
  assumes "\<And>h p. (h, p) \<in> set fs \<Longrightarrow> parse (render h) = Some h \<and> typed h" and "encode_all render fs = Inr bs"
  shows "decode_loop parse typed DEFAULT_MAX_HEADER_BYTES DEFAULT_MAX_PAYLOAD_BYTES bs = (Inr fs, [])"
  using assms
proof (induction fs arbitrary: bs)
  case Nil
  then show ?case by (simp add: decode_loop.simps decode_one_def PREFIX_BYTES_def)
next
  case (Cons f fs)
  obtain h p where f: "f = (h, p)" by (cases f)
  obtain b cs where b: "encodeWorkerFrame render h p = Inr b" "encode_all render fs = Inr cs" "bs = b @ cs"
    using Cons.prems(2) f by (auto split: sum.splits)
  have "decode_one parse typed DEFAULT_MAX_HEADER_BYTES DEFAULT_MAX_PAYLOAD_BYTES (b @ cs) = Some (Inr ((h, p), cs))"
    using decode_one_encoded [OF b(1), of parse typed cs] Cons.prems(1) [of h p] f by simp
  moreover have "decode_loop parse typed DEFAULT_MAX_HEADER_BYTES DEFAULT_MAX_PAYLOAD_BYTES cs = (Inr fs, [])"
    by (rule Cons.IH [OF _ b(2)]) (use Cons.prems(1) in auto)
  ultimately show ?case using b(3) f by (simp add: decode_loop.simps [of _ _ _ _ "b @ cs"])
qed

section \<open>Properties\<close>

text \<open>C35. However the bytes of a sequence of encoded frames are cut into chunks, the decoder hands out exactly these
  frames, in order, and keeps nothing back.\<close>

theorem frames_survive_chunking:
  assumes "\<forall>(h, p) \<in> set fs. parse (render h) = Some h \<and> typed h" and "encode_all render fs = Inr (concat chunks)"
  shows "push_all parse typed DEFAULT_MAX_HEADER_BYTES DEFAULT_MAX_PAYLOAD_BYTES chunks [] = (Inr fs, [])"
proof (cases "chunks = []")
  case True
  then have "fs = []" using assms(2) by (cases fs) (auto simp: encodeWorkerFrame_def Let_def writeUInt32BE_def split: sum.splits if_splits)
  then show ?thesis using True by simp
next
  case False
  have "decode_loop parse typed DEFAULT_MAX_HEADER_BYTES DEFAULT_MAX_PAYLOAD_BYTES ([] @ concat chunks) = (Inr fs, [])"
    using decode_encoded [OF _ assms(2)] assms(1) by fastforce
  from push_all_decode [OF this] False show ?thesis by simp
qed

text \<open>A header of the sample is a number written in unary.\<close>

definition demo_parse :: "byte list \<Rightarrow> nat option" where
  "demo_parse bs = (if list_all (\<lambda>b. b = 1) bs then Some (length bs) else None)"

lemma write_small: "n < 256 \<Longrightarrow> writeUInt32BE n = [0, 0, 0, of_nat n]"
  by (simp add: writeUInt32BE_def)

lemma frames_survive_chunking_witness:
  "push_all demo_parse (\<lambda>_. True) DEFAULT_MAX_HEADER_BYTES DEFAULT_MAX_PAYLOAD_BYTES
     [[0, 0, 0, 3, 0], [0, 0, 2, 1, 1, 1, 7, 8, 0, 0, 0, 0, 0, 0, 0], [], [0, 0, 0, 0, 2, 0, 0, 0, 1, 1], [1, 9]] []
   = (Inr [(3, [7, 8]), (0, []), (2, [9])], [])"
proof (rule frames_survive_chunking [where render = "\<lambda>n. replicate n 1"])
  show "\<forall>(h, p) \<in> set [(3, [7, 8]), (0, []), (2, [9])]. demo_parse (replicate h 1) = Some h \<and> True"
    by (simp add: demo_parse_def list_all_iff)
  show "encode_all (\<lambda>n. replicate n 1) [(3, [7, 8]), (0, []), (2, [9])] = Inr (concat
     [[0, 0, 0, 3, 0], [0, 0, 2, 1, 1, 1, 7, 8, 0, 0, 0, 0, 0, 0, 0], [], [0, 0, 0, 0, 2, 0, 0, 0, 1, 1], [1, 9]])"
    by (simp add: encodeWorkerFrame_def write_small DEFAULT_MAX_HEADER_BYTES_def DEFAULT_MAX_PAYLOAD_BYTES_def
        numeral_3_eq_3 numeral_2_eq_2)
qed

text \<open>Whatever arrives, a push that succeeds leaves less than one frame of the greatest size in the buffer.\<close>

theorem decoder_buffer_bounded:
  assumes "decoder_push parse typed mh mp chunk buffered = (Inr fs, b)"
  shows "length b < PREFIX_BYTES + mh + mp"
proof -
  have "decode_one parse typed mh mp b = None" using assms unfolding decoder_push_def by (rule decode_stops)
  then show ?thesis by (auto simp: decode_one_def Let_def split: if_splits option.splits)
qed

lemma decoder_buffer_bounded_witness:
  "\<exists>b. decoder_push demo_parse (\<lambda>_. True) 4 4 [0, 0, 0, 1] [0, 0, 0] = (Inr [], b) \<and> length b < PREFIX_BYTES + 4 + 4"
proof -
  have p: "decoder_push demo_parse (\<lambda>_. True) 4 4 [0, 0, 0, 1] [0, 0, 0] = (Inr [], [0, 0, 0, 0, 0, 0, 1])"
    by (simp add: decoder_push_def decode_loop.simps decode_one_def PREFIX_BYTES_def)
  show ?thesis using p decoder_buffer_bounded [OF p] by blast
qed

end
