(* ===== verification/WorkerProtocol.thy ===== *)
theory WorkerProtocol
  imports WorkerFraming Results JsText
begin

text \<open>
  The worker protocol: the server of \<^verbatim>\<open>runtime/worker/worker-server.ts\<close> with its attachments, event numbers and
  replay buffer, and the client of \<^verbatim>\<open>worker-client.ts\<close> with its cursor, requests and snapshot assembly. What
  an attachment was sent is the list of its frames; \<open>roomy\<close> is the answer of \<^verbatim>\<open>socket.write\<close>, as a function
  of what was written so far. A handler that waits for the application - a command, a snapshot - leaves a task
  behind that is finished by a later step.
\<close>

section \<open>Data\<close>

record header =
  wh_type :: string
  wh_requestId :: "string option"
  wh_generation :: "int option"
  wh_sequence :: "int option"
  wh_token :: "string option"
  wh_method :: "string option"
  wh_eventType :: "string option"
  wh_replay :: "string option"
  wh_oldestSequence :: "int option"
  wh_chunks :: "int option"
  wh_bytes :: "int option"
  wh_index :: "int option"
  wh_ok :: "bool option"
  wh_errorClass :: "string option"
  wh_code :: "string option"

definition bare :: "string \<Rightarrow> header" where
  "bare t = \<lparr>wh_type = t, wh_requestId = None, wh_generation = None, wh_sequence = None, wh_token = None, wh_method = None,
     wh_eventType = None, wh_replay = None, wh_oldestSequence = None, wh_chunks = None, wh_bytes = None, wh_index = None,
     wh_ok = None, wh_errorClass = None, wh_code = None\<rparr>"

type_synonym frame = "header \<times> byte list"

type_synonym wcursor = "int \<times> int"

text \<open>\<^verbatim>\<open>...this.cursor\<close>\<close>

definition stamp :: "wcursor \<Rightarrow> header \<Rightarrow> header" where
  "stamp c h = h\<lparr>wh_generation := Some (fst c), wh_sequence := Some (snd c)\<rparr>"

record wevent =
  we_generation :: int
  we_sequence :: int
  we_eventType :: string
  we_payload :: "byte list"

record attachment =
  at_authenticated :: bool
  at_blocked :: bool
  at_requiresResync :: bool
  at_destroyed :: bool
  at_written :: "frame list"

datatype wtask = SnapshotTask string | CommandTask string string "byte list"

record worker_server =
  ws_generation :: int
  ws_token :: string
  ws_sequence :: int
  ws_replay :: "wevent list"
  ws_attachments :: "(id, attachment) js_map"
  ws_tasks :: "(id \<times> wtask) list"

definition new_server :: "int \<Rightarrow> string \<Rightarrow> worker_server" where
  "new_server generation token = \<lparr>ws_generation = generation, ws_token = token, ws_sequence = 0, ws_replay = [],
     ws_attachments = [], ws_tasks = []\<rparr>"

definition server_cursor :: "worker_server \<Rightarrow> wcursor" where
  "server_cursor st = (ws_generation st, ws_sequence st)"

section \<open>Server: writing\<close>

definition socket_write ::
    "(header \<Rightarrow> byte list) \<Rightarrow> (frame list \<Rightarrow> bool) \<Rightarrow> header \<Rightarrow> byte list \<Rightarrow> attachment
       \<Rightarrow> (frame_error, bool) result \<times> attachment" where
  "socket_write render roomy h p a =
     (if at_destroyed a then (ok False, a)
      else
        (case encodeWorkerFrame render h p of
           Inl e \<Rightarrow> (throw e, a)
         | Inr _ \<Rightarrow> (let a' = a\<lparr>at_written := at_written a @ [(h, p)]\<rparr> in (ok (roomy (at_written a')), a'))))"

text \<open>A statement \<^verbatim>\<open>this.write(...)\<close>, whose answer is not used.\<close>

definition just_write ::
    "(header \<Rightarrow> byte list) \<Rightarrow> (frame list \<Rightarrow> bool) \<Rightarrow> header \<Rightarrow> byte list \<Rightarrow> attachment
       \<Rightarrow> (frame_error, unit) result \<times> attachment" where
  "just_write render roomy h p a = (case socket_write render roomy h p a of (Inl e, a') \<Rightarrow> (throw e, a') | (Inr _, a') \<Rightarrow> (ok (), a'))"

definition event_frame :: "wevent \<Rightarrow> frame" where
  "event_frame e = ((bare ''event'')\<lparr>wh_eventType := Some (we_eventType e), wh_generation := Some (we_generation e),
     wh_sequence := Some (we_sequence e)\<rparr>, we_payload e)"

definition sendEvent ::
    "(header \<Rightarrow> byte list) \<Rightarrow> (frame list \<Rightarrow> bool) \<Rightarrow> wevent \<Rightarrow> attachment \<Rightarrow> (frame_error, unit) result \<times> attachment" where
  "sendEvent render roomy e a =
     (if \<not> at_authenticated a \<or> at_blocked a \<or> at_requiresResync a
      then (ok (), if at_authenticated a then a\<lparr>at_requiresResync := True\<rparr> else a)
      else
        (case socket_write render roomy (fst (event_frame e)) (snd (event_frame e)) a of
           (Inl x, a') \<Rightarrow> (throw x, a')
         | (Inr True, a') \<Rightarrow> (ok (), a')
         | (Inr False, a') \<Rightarrow> (ok (), a'\<lparr>at_blocked := True, at_requiresResync := True\<rparr>)))"

text \<open>\<^verbatim>\<open>publish\<close>: the event is numbered and kept before it is sent; a frame that is too large throws out of the loop.\<close>

fun send_each ::
    "(header \<Rightarrow> byte list) \<Rightarrow> (frame list \<Rightarrow> bool) \<Rightarrow> wevent \<Rightarrow> (id \<times> attachment) list
       \<Rightarrow> (frame_error, unit) result \<times> (id \<times> attachment) list" where
  "send_each render roomy e [] = (ok (), [])"
| "send_each render roomy e ((k, a) # as) =
     (case sendEvent render roomy e a of
        (Inl x, a') \<Rightarrow> (throw x, (k, a') # as)
      | (Inr _, a') \<Rightarrow> (case send_each render roomy e as of (r, as') \<Rightarrow> (r, (k, a') # as')))"

definition next_event :: "string \<Rightarrow> byte list \<Rightarrow> worker_server \<Rightarrow> wevent" where
  "next_event t p st = \<lparr>we_generation = ws_generation st, we_sequence = ws_sequence st + 1, we_eventType = t, we_payload = p\<rparr>"

definition publish ::
    "(header \<Rightarrow> byte list) \<Rightarrow> (frame list \<Rightarrow> bool) \<Rightarrow> nat \<Rightarrow> string \<Rightarrow> byte list \<Rightarrow> worker_server
       \<Rightarrow> (frame_error, wcursor) result \<times> worker_server" where
  "publish render roomy capacity t p st =
     (let e = next_event t p st;
          st1 = st\<lparr>ws_sequence := ws_sequence st + 1, ws_replay := take_last capacity (ws_replay st @ [e])\<rparr>
      in case send_each render roomy e (ws_attachments st1) of
           (r, as) \<Rightarrow> (bind_ok r (\<lambda>_. ok (server_cursor st1)), st1\<lparr>ws_attachments := as\<rparr>))"

section \<open>Server: connections\<close>

definition new_attachment :: attachment where
  "new_attachment = \<lparr>at_authenticated = False, at_blocked = False, at_requiresResync = False, at_destroyed = False, at_written = []\<rparr>"

definition server_accept :: "id \<Rightarrow> worker_server \<Rightarrow> worker_server" where
  "server_accept k st = st\<lparr>ws_attachments := map_set k new_attachment (ws_attachments st)\<rparr>"

definition server_cleanup :: "id \<Rightarrow> worker_server \<Rightarrow> worker_server" where
  "server_cleanup k st = st\<lparr>ws_attachments := map_delete k (ws_attachments st)\<rparr>"

definition on_attachment ::
    "id \<Rightarrow> (attachment \<Rightarrow> (frame_error, unit) result \<times> attachment) \<Rightarrow> worker_server
       \<Rightarrow> (frame_error, unit) result \<times> worker_server" where
  "on_attachment k f st =
     (case map_get (ws_attachments st) k of
        None \<Rightarrow> (ok (), st)
      | Some a \<Rightarrow> (case f a of (r, a') \<Rightarrow> (r, st\<lparr>ws_attachments := map_set k a' (ws_attachments st)\<rparr>)))"

definition server_drain ::
    "(header \<Rightarrow> byte list) \<Rightarrow> (frame list \<Rightarrow> bool) \<Rightarrow> id \<Rightarrow> worker_server \<Rightarrow> (frame_error, unit) result \<times> worker_server" where
  "server_drain render roomy k st =
     on_attachment k (\<lambda>a. let a' = a\<lparr>at_blocked := False\<rparr> in
       if at_requiresResync a' \<and> at_authenticated a'
       then just_write render roomy (stamp (server_cursor st) (bare ''resync_required'')) [] a' else (ok (), a')) st"

section \<open>Server: requests\<close>

definition add_task :: "id \<Rightarrow> wtask \<Rightarrow> (frame_error, unit) result \<times> worker_server \<Rightarrow> (frame_error, unit) result \<times> worker_server" where
  "add_task k t r = (case r of (Inl e, st) \<Rightarrow> (throw e, st) | (Inr _, st) \<Rightarrow> (ok (), st\<lparr>ws_tasks := ws_tasks st @ [(k, t)]\<rparr>))"

fun send_replay ::
    "(header \<Rightarrow> byte list) \<Rightarrow> (frame list \<Rightarrow> bool) \<Rightarrow> wevent list \<Rightarrow> attachment \<Rightarrow> (frame_error, unit) result \<times> attachment" where
  "send_replay render roomy [] a = (ok (), a)"
| "send_replay render roomy (e # es) a =
     (case sendEvent render roomy e a of (Inl x, a') \<Rightarrow> (throw x, a') | (Inr _, a') \<Rightarrow> send_replay render roomy es a')"

definition attach_result :: "string \<Rightarrow> string \<Rightarrow> wcursor \<Rightarrow> header" where
  "attach_result requestId replay c = stamp c ((bare ''attach_result'')\<lparr>wh_requestId := Some requestId, wh_replay := Some replay\<rparr>)"

definition oldest_sequence :: "worker_server \<Rightarrow> int" where
  "oldest_sequence st = (case ws_replay st of [] \<Rightarrow> ws_sequence st + 1 | e # _ \<Rightarrow> we_sequence e)"

text \<open>\<^verbatim>\<open>attachReplay\<close>, up to the snapshot it may wait for; \<open>fresh\<close> is the id made for a request that has none.\<close>

definition attachReplay ::
    "(header \<Rightarrow> byte list) \<Rightarrow> (frame list \<Rightarrow> bool) \<Rightarrow> string \<Rightarrow> id \<Rightarrow> header \<Rightarrow> worker_server
       \<Rightarrow> (frame_error, unit) result \<times> worker_server" where
  "attachReplay render roomy fresh k h st =
     (let requestId = or_else (wh_requestId h) fresh;
          sequence = or_else (wh_sequence h) 0;
          reset = (\<lambda>a. a\<lparr>at_requiresResync := False\<rparr>);
          oldest = oldest_sequence st
      in if or_else (wh_generation h) 0 \<noteq> ws_generation st
         then add_task k (SnapshotTask requestId)
           (on_attachment k (\<lambda>a. just_write render roomy (attach_result requestId ''unavailable'' (server_cursor st)) [] (reset a)) st)
         else if sequence < oldest - 1
         then add_task k (SnapshotTask requestId)
           (on_attachment k (\<lambda>a. just_write render roomy
              ((attach_result requestId ''partial'' (server_cursor st))\<lparr>wh_oldestSequence := Some oldest\<rparr>) [] (reset a)) st)
         else
           on_attachment k (\<lambda>a.
             (case just_write render roomy (attach_result requestId ''complete'' (server_cursor st)) [] (reset a) of
                (Inl e, a') \<Rightarrow> (throw e, a')
              | (Inr _, a') \<Rightarrow> send_replay render roomy (filter (\<lambda>e. we_sequence e > sequence) (ws_replay st)) a')) st)"

definition server_handle ::
    "(header \<Rightarrow> byte list) \<Rightarrow> (frame list \<Rightarrow> bool) \<Rightarrow> string \<Rightarrow> id \<Rightarrow> frame \<Rightarrow> worker_server
       \<Rightarrow> (frame_error, unit) result \<times> worker_server" where
  "server_handle render roomy fresh k f st =
     (let h = fst f; answer = (\<lambda>h. on_attachment k (just_write render roomy h []) st) in
      case map_get (ws_attachments st) k of
        None \<Rightarrow> (ok (), st)
      | Some a \<Rightarrow>
          if \<not> at_authenticated a then
            (if wh_type h \<noteq> ''auth'' \<or> wh_token h \<noteq> Some (ws_token st)
             then on_attachment k (\<lambda>a. (ok (), a\<lparr>at_destroyed := True\<rparr>)) st
             else on_attachment k (\<lambda>a. just_write render roomy (stamp (server_cursor st) (bare ''auth_ok'')) []
                    (a\<lparr>at_authenticated := True\<rparr>)) st)
          else if wh_type h = ''ping''
          then answer (stamp (server_cursor st) ((bare ''pong'')\<lparr>wh_requestId := wh_requestId h\<rparr>))
          else if wh_type h = ''attach'' then attachReplay render roomy fresh k h st
          else if wh_type h = ''snapshot_request''
          then add_task k (SnapshotTask (or_else (wh_requestId h) fresh)) (ok (), st)
          else if wh_type h = ''command''
          then (if or_else (wh_requestId h) [] = [] \<or> or_else (wh_method h) [] = []
                then answer ((bare ''command_error'')\<lparr>wh_requestId := Some (or_else (wh_requestId h) []), wh_code := Some ''INVALID_COMMAND''\<rparr>)
                else add_task k (CommandTask (or_else (wh_requestId h) []) (or_else (wh_method h) []) (snd f)) (ok (), st))
          else answer ((bare ''protocol_error'')\<lparr>wh_code := Some ''UNKNOWN_FRAME_TYPE''\<rparr>))"

section \<open>Server: answers of the application\<close>

definition snapshot_chunk_bytes :: "nat option \<Rightarrow> nat" where
  "snapshot_chunk_bytes opt = max (16 * 1024) (or_else opt (512 * 1024))"

definition snapshot_pieces :: "nat \<Rightarrow> byte list \<Rightarrow> byte list list" where
  "snapshot_pieces cb bs = map (\<lambda>i. take cb (drop (i * cb) bs)) [0 ..< max 1 ((length bs + cb - 1) div cb)]"

text \<open>The loop over the chunks; its value says whether it ran to the end.\<close>

fun send_chunks ::
    "(header \<Rightarrow> byte list) \<Rightarrow> (frame list \<Rightarrow> bool) \<Rightarrow> string \<Rightarrow> nat \<Rightarrow> nat \<Rightarrow> byte list list \<Rightarrow> attachment
       \<Rightarrow> (frame_error, bool) result \<times> attachment" where
  "send_chunks render roomy requestId chunks i [] a = (ok True, a)"
| "send_chunks render roomy requestId chunks i (c # cs) a =
     (case socket_write render roomy ((bare ''snapshot_chunk'')\<lparr>wh_requestId := Some requestId, wh_index := Some (int i),
             wh_chunks := Some (int chunks)\<rparr>) c a of
        (Inl e, a') \<Rightarrow> (throw e, a')
      | (Inr False, a') \<Rightarrow> (ok False, a'\<lparr>at_requiresResync := True\<rparr>)
      | (Inr True, a') \<Rightarrow> send_chunks render roomy requestId chunks (Suc i) cs a')"

definition snapshot_begin :: "string \<Rightarrow> nat \<Rightarrow> nat \<Rightarrow> wcursor \<Rightarrow> header" where
  "snapshot_begin requestId chunks n c = stamp c ((bare ''snapshot_begin'')\<lparr>wh_requestId := Some requestId,
     wh_chunks := Some (int chunks), wh_bytes := Some (int n)\<rparr>)"

definition sendSnapshot ::
    "(header \<Rightarrow> byte list) \<Rightarrow> (frame list \<Rightarrow> bool) \<Rightarrow> nat option \<Rightarrow> string \<Rightarrow> byte list \<Rightarrow> wcursor \<Rightarrow> attachment
       \<Rightarrow> (frame_error, unit) result \<times> attachment" where
  "sendSnapshot render roomy opt requestId snapshot c a =
     (let pieces = snapshot_pieces (snapshot_chunk_bytes opt) snapshot in
      case just_write render roomy (snapshot_begin requestId (length pieces) (length snapshot) c) [] a of
        (Inl e, a') \<Rightarrow> (throw e, a')
      | (Inr _, a') \<Rightarrow>
          (case send_chunks render roomy requestId (length pieces) 0 pieces a' of
             (Inl e, a') \<Rightarrow> (throw e, a')
           | (Inr False, a') \<Rightarrow> (ok (), a')
           | (Inr True, a') \<Rightarrow>
               (case just_write render roomy (stamp c ((bare ''snapshot_end'')\<lparr>wh_requestId := Some requestId\<rparr>)) [] a' of
                  (Inl e, a') \<Rightarrow> (throw e, a')
                | (Inr _, a') \<Rightarrow> (ok (), a'\<lparr>at_requiresResync := False\<rparr>))))"

text \<open>The answer to a command that returned; a result that is too large for a frame is answered as an error.\<close>

definition frame_message :: "frame_error \<Rightarrow> byte list" where
  "frame_message e = map of_char (case e of PayloadTooLarge \<Rightarrow> ''Worker frame payload is too large.''
     | _ \<Rightarrow> ''Worker frame header is too large.'')"

definition command_result ::
    "(header \<Rightarrow> byte list) \<Rightarrow> (frame list \<Rightarrow> bool) \<Rightarrow> string \<Rightarrow> byte list \<Rightarrow> attachment \<Rightarrow> (frame_error, unit) result \<times> attachment" where
  "command_result render roomy requestId p a =
     (case just_write render roomy ((bare ''command_result'')\<lparr>wh_requestId := Some requestId, wh_ok := Some True\<rparr>) p a of
        (Inl e, a') \<Rightarrow> just_write render roomy ((bare ''command_result'')\<lparr>wh_requestId := Some requestId, wh_ok := Some False,
          wh_errorClass := Some ''Error''\<rparr>) (frame_message e) a'
      | (Inr _, a') \<Rightarrow> (ok (), a'))"

datatype outcome = SnapshotReady "byte list" | CommandReturned "byte list" | CommandThrew string "byte list"

text \<open>The task at position \<open>n\<close> gets its answer.\<close>

definition server_finish ::
    "(header \<Rightarrow> byte list) \<Rightarrow> (frame list \<Rightarrow> bool) \<Rightarrow> nat option \<Rightarrow> nat \<Rightarrow> outcome \<Rightarrow> worker_server
       \<Rightarrow> (frame_error, unit) result \<times> worker_server" where
  "server_finish render roomy opt n out st =
     (if n \<ge> length (ws_tasks st) then (ok (), st)
      else
        let (k, task) = ws_tasks st ! n;
            st1 = st\<lparr>ws_tasks := take n (ws_tasks st) @ drop (Suc n) (ws_tasks st)\<rparr>
        in (case (task, out) of
              (SnapshotTask requestId, SnapshotReady s) \<Rightarrow>
                on_attachment k (sendSnapshot render roomy opt requestId s (server_cursor st)) st1
            | (CommandTask requestId _ _, CommandReturned p) \<Rightarrow> on_attachment k (command_result render roomy requestId p) st1
            | (CommandTask requestId _ _, CommandThrew cls p) \<Rightarrow>
                on_attachment k (just_write render roomy ((bare ''command_result'')\<lparr>wh_requestId := Some requestId, wh_ok := Some False,
                  wh_errorClass := Some cls\<rparr>) p) st1
            | _ \<Rightarrow> (ok (), st)))"

section \<open>Client\<close>

record assembly =
  sa_chunks :: "byte list option list"
  sa_expectedChunks :: int
  sa_expectedBytes :: int

record worker_client =
  wc_cursor :: wcursor
  wc_authenticated :: bool
  wc_delivered :: "(string \<times> wcursor \<times> byte list) list"
  wc_pending :: "string list"
  wc_answers :: "(string \<times> frame) list"
  wc_snapshots :: "(string, assembly) js_map"
  wc_waiters :: "string list"
  wc_snapshotAnswers :: "(string \<times> byte list option) list"
  wc_resyncs :: "wcursor list"
  wc_broken :: bool

definition new_client :: worker_client where
  "new_client = \<lparr>wc_cursor = (0, 0), wc_authenticated = False, wc_delivered = [], wc_pending = [], wc_answers = [],
     wc_snapshots = [], wc_waiters = [], wc_snapshotAnswers = [], wc_resyncs = [], wc_broken = False\<rparr>"

definition cursorFrom :: "header \<Rightarrow> wcursor \<Rightarrow> wcursor" where
  "cursorFrom h fallback = (or_else (wh_generation h) (fst fallback), or_else (wh_sequence h) (snd fallback))"

text \<open>\<^verbatim>\<open>chunks[index] = payload\<close>: an assignment past the end leaves holes.\<close>

definition put_chunk :: "nat \<Rightarrow> byte list \<Rightarrow> byte list option list \<Rightarrow> byte list option list" where
  "put_chunk i p cs = (if i < length cs then cs[i := Some p] else cs @ replicate (i - length cs) None @ [Some p])"

text \<open>A throw in \<^verbatim>\<open>handle\<close> destroys the socket, which rejects all that is waiting.\<close>

definition failPending :: "worker_client \<Rightarrow> worker_client" where
  "failPending c = c\<lparr>wc_pending := [], wc_snapshotAnswers := wc_snapshotAnswers c @ map (\<lambda>w. (w, None)) (wc_waiters c),
     wc_waiters := [], wc_snapshots := []\<rparr>"

definition snapshot_ended :: "header \<Rightarrow> string \<Rightarrow> assembly \<Rightarrow> worker_client \<Rightarrow> worker_client" where
  "snapshot_ended h requestId s c =
     (if None \<in> set (sa_chunks s) then failPending (c\<lparr>wc_broken := True\<rparr>)
      else
        let snapshot = concat (map the (sa_chunks s));
            complete = (int (length (sa_chunks s)) = sa_expectedChunks s \<and> int (length snapshot) = sa_expectedBytes s)
        in c\<lparr>wc_snapshots := map_delete requestId (wc_snapshots c), wc_waiters := filter (\<lambda>w. w \<noteq> requestId) (wc_waiters c),
             wc_cursor := cursorFrom h (wc_cursor c),
             wc_snapshotAnswers := wc_snapshotAnswers c @ [(requestId, if complete then Some snapshot else None)]\<rparr>)"

definition client_handle :: "frame \<Rightarrow> worker_client \<Rightarrow> worker_client" where
  "client_handle f c =
     (let h = fst f; cursor = cursorFrom h (wc_cursor c); requestId = or_else (wh_requestId h) [] in
      if wh_type h = ''auth_ok'' then c\<lparr>wc_cursor := cursor, wc_authenticated := True\<rparr>
      else if wh_type h = ''event'' then
        (if fst cursor \<noteq> fst (wc_cursor c) \<or> snd cursor > snd (wc_cursor c)
         then c\<lparr>wc_cursor := cursor, wc_delivered := wc_delivered c @ [(or_else (wh_eventType h) ''event'', cursor, snd f)]\<rparr>
         else c)
      else if wh_type h = ''resync_required'' then c\<lparr>wc_resyncs := wc_resyncs c @ [cursor]\<rparr>
      else if wh_type h = ''snapshot_begin''
      then c\<lparr>wc_snapshots := map_set requestId \<lparr>sa_chunks = [], sa_expectedChunks = or_else (wh_chunks h) 0,
             sa_expectedBytes = or_else (wh_bytes h) 0\<rparr> (wc_snapshots c)\<rparr>
      else if wh_type h = ''snapshot_chunk'' then
        (case map_get (wc_snapshots c) requestId of
           None \<Rightarrow> c
         | Some s \<Rightarrow> c\<lparr>wc_snapshots := map_set requestId
             (s\<lparr>sa_chunks := put_chunk (nat (or_else (wh_index h) (int (length (sa_chunks s))))) (snd f) (sa_chunks s)\<rparr>) (wc_snapshots c)\<rparr>)
      else if wh_type h = ''snapshot_end'' then
        (case map_get (wc_snapshots c) requestId of
           None \<Rightarrow> c
         | Some s \<Rightarrow> if requestId \<in> set (wc_waiters c) then snapshot_ended h requestId s c else c)
      else if requestId \<noteq> [] \<and> requestId \<in> set (wc_pending c)
      then c\<lparr>wc_pending := filter (\<lambda>r. r \<noteq> requestId) (wc_pending c), wc_cursor := cursor,
             wc_answers := wc_answers c @ [(requestId, f)]\<rparr>
      else c)"

text \<open>What the calls of the application do on the client's side: \<^verbatim>\<open>waitFor\<close>, \<^verbatim>\<open>waitForSnapshot\<close>, their timers and
  \<^verbatim>\<open>cancelSnapshotWaiter\<close> of a complete attach.\<close>

datatype client_action = WaitFor string | WaitForSnapshot string | RequestTimeout string | SnapshotTimeout string | CancelSnapshotWaiter string
  | ConnectionClosed

definition client_call :: "client_action \<Rightarrow> worker_client \<Rightarrow> worker_client" where
  "client_call call c =
     (case call of
        WaitFor r \<Rightarrow> c\<lparr>wc_pending := wc_pending c @ [r]\<rparr>
      | WaitForSnapshot r \<Rightarrow> c\<lparr>wc_waiters := wc_waiters c @ [r]\<rparr>
      | RequestTimeout r \<Rightarrow> c\<lparr>wc_pending := filter (\<lambda>x. x \<noteq> r) (wc_pending c)\<rparr>
      | SnapshotTimeout r \<Rightarrow> c\<lparr>wc_waiters := filter (\<lambda>x. x \<noteq> r) (wc_waiters c), wc_snapshots := map_delete r (wc_snapshots c),
            wc_snapshotAnswers := (if r \<in> set (wc_waiters c) then wc_snapshotAnswers c @ [(r, None)] else wc_snapshotAnswers c)\<rparr>
      | CancelSnapshotWaiter r \<Rightarrow> c\<lparr>wc_waiters := filter (\<lambda>x. x \<noteq> r) (wc_waiters c), wc_snapshots := map_delete r (wc_snapshots c),
            wc_snapshotAnswers := (if r \<in> set (wc_waiters c) then wc_snapshotAnswers c @ [(r, Some [])] else wc_snapshotAnswers c)\<rparr>
      | ConnectionClosed \<Rightarrow> failPending c)"

text \<open>\<^verbatim>\<open>attach\<close>, \<^verbatim>\<open>snapshot\<close> and \<^verbatim>\<open>request\<close>: what is registered, and the frame that is sent.\<close>

definition client_attach :: "string \<Rightarrow> wcursor \<Rightarrow> worker_client \<Rightarrow> frame \<times> worker_client" where
  "client_attach r cur c = ((stamp cur ((bare ''attach'')\<lparr>wh_requestId := Some r\<rparr>), []),
     client_call (WaitForSnapshot r) (client_call (WaitFor r) c))"

definition client_snapshot :: "string \<Rightarrow> worker_client \<Rightarrow> frame \<times> worker_client" where
  "client_snapshot r c = (((bare ''snapshot_request'')\<lparr>wh_requestId := Some r\<rparr>, []), client_call (WaitForSnapshot r) c)"

definition client_request :: "string \<Rightarrow> header \<Rightarrow> byte list \<Rightarrow> worker_client \<Rightarrow> frame \<times> worker_client" where
  "client_request r h p c = ((h\<lparr>wh_requestId := Some r\<rparr>, p), client_call (WaitFor r) c)"

section \<open>The server in use\<close>

datatype server_call =
    Publish string "byte list"
  | Accept id
  | Cleanup id
  | Drain id
  | Handle string id frame
  | Finish nat outcome

definition server_step ::
    "(header \<Rightarrow> byte list) \<Rightarrow> (frame list \<Rightarrow> bool) \<Rightarrow> nat \<Rightarrow> nat option \<Rightarrow> server_call \<Rightarrow> worker_server \<Rightarrow> worker_server" where
  "server_step render roomy capacity opt c st =
     (case c of
        Publish t p \<Rightarrow> snd (publish render roomy capacity t p st)
      | Accept k \<Rightarrow> server_accept k st
      | Cleanup k \<Rightarrow> server_cleanup k st
      | Drain k \<Rightarrow> snd (server_drain render roomy k st)
      | Handle fresh k f \<Rightarrow> snd (server_handle render roomy fresh k f st)
      | Finish n out \<Rightarrow> snd (server_finish render roomy opt n out st))"

end
