(* ===== verification/WorkerChannel.thy ===== *)
theory WorkerChannel
  imports WorkerProtocol
begin

text \<open>
  The two ends of the worker protocol together: runs of the server with any clients, and a connection, which
  is an attachment of the server and a client that reads the frames written to it one after the other.
  Theory WorkerFraming shows that the bytes in between do not change them.
\<close>

section \<open>Runs of the server\<close>

definition published_by :: "server_call \<Rightarrow> (string \<times> byte list) list" where
  "published_by c = (case c of Publish t p \<Rightarrow> [(t, p)] | _ \<Rightarrow> [])"

text \<open>\<^verbatim>\<open>randomUUID\<close> gives each attachment an id of its own.\<close>

definition fresh_accept :: "server_call \<Rightarrow> worker_server \<Rightarrow> bool" where
  "fresh_accept c st = (case c of Accept k \<Rightarrow> \<not> map_has (ws_attachments st) k \<and> k \<notin> fst ` set (ws_tasks st) | _ \<Rightarrow> True)"

inductive server_reach ::
    "(header \<Rightarrow> byte list) \<Rightarrow> (frame list \<Rightarrow> bool) \<Rightarrow> nat \<Rightarrow> nat option \<Rightarrow> int \<Rightarrow> string
       \<Rightarrow> (string \<times> byte list) list \<Rightarrow> worker_server \<Rightarrow> bool"
  for render roomy capacity opt generation token where
  start: "server_reach render roomy capacity opt generation token [] (new_server generation token)"
| call: "server_reach render roomy capacity opt generation token ps st \<Longrightarrow> fresh_accept c st \<Longrightarrow>
    server_reach render roomy capacity opt generation token (ps @ published_by c) (server_step render roomy capacity opt c st)"

section \<open>What is written to an attachment\<close>

definition published :: "(string \<times> byte list) list \<Rightarrow> int \<Rightarrow> string \<Rightarrow> byte list \<Rightarrow> bool" where
  "published ps k t p \<longleftrightarrow> 1 \<le> k \<and> k \<le> int (length ps) \<and> ps ! nat (k - 1) = (t, p)"

definition is_event :: "frame \<Rightarrow> bool" where
  "is_event f \<longleftrightarrow> wh_type (fst f) = ''event''"

text \<open>A frame of a server that has published \<open>ps\<close>: an event, or a frame without a cursor, or one with a cursor
  it had; and a frame written now, whose cursor is the present one.\<close>

definition stamped :: "int \<Rightarrow> (string \<times> byte list) list \<Rightarrow> frame \<Rightarrow> bool" where
  "stamped g ps f \<longleftrightarrow>
     (if is_event f
      then wh_generation (fst f) = Some g \<and> (\<exists>k t. wh_sequence (fst f) = Some k \<and> wh_eventType (fst f) = Some t \<and> published ps k t (snd f))
      else wh_generation (fst f) = None \<and> wh_sequence (fst f) = None
        \<or> wh_generation (fst f) = Some g \<and> (\<exists>k. wh_sequence (fst f) = Some k \<and> 0 \<le> k \<and> k \<le> int (length ps)))"

definition written_now :: "int \<Rightarrow> (string \<times> byte list) list \<Rightarrow> frame \<Rightarrow> bool" where
  "written_now g ps f \<longleftrightarrow> stamped g ps f \<and> (is_event f \<or> wh_sequence (fst f) = None \<or> wh_sequence (fst f) = Some (int (length ps)))"

definition not_after :: "frame \<Rightarrow> frame \<Rightarrow> bool" where
  "not_after f f' \<longleftrightarrow> is_event f' \<or>
     (case (wh_sequence (fst f), wh_sequence (fst f')) of (Some a, Some b) \<Rightarrow> a \<le> b | _ \<Rightarrow> True)"

definition trace_ok :: "int \<Rightarrow> (string \<times> byte list) list \<Rightarrow> frame list \<Rightarrow> bool" where
  "trace_ok g ps fs \<longleftrightarrow> (\<forall>f \<in> set fs. stamped g ps f) \<and> sorted_wrt not_after fs"

lemma published_mono: "published ps k t p \<Longrightarrow> published (ps @ qs) k t p"
  by (auto simp: published_def nth_append)

lemma stamped_mono: "stamped g ps f \<Longrightarrow> stamped g (ps @ qs) f"
  using published_mono [of ps _ _ _ qs] by (auto simp: stamped_def split: if_splits)

lemma trace_ok_mono: "trace_ok g ps fs \<Longrightarrow> trace_ok g (ps @ qs) fs"
  by (auto simp: trace_ok_def stamped_mono)

lemma stamped_le: "stamped g ps f \<Longrightarrow> wh_sequence (fst f) = Some k \<Longrightarrow> 0 \<le> k \<and> k \<le> int (length ps)"
  by (auto simp: stamped_def published_def split: if_splits)

lemma not_after_now: "stamped g ps f \<Longrightarrow> written_now g ps f' \<Longrightarrow> not_after f f'"
  using stamped_le [of g ps f] by (auto simp: written_now_def not_after_def split: option.splits)

lemma trace_ok_append:
  assumes "trace_ok g ps fs" and "\<forall>f \<in> set fs'. written_now g ps f"
  shows "trace_ok g ps (fs @ fs')"
proof -
  have now: "stamped g ps f" if "written_now g ps f" for f using that by (simp add: written_now_def)
  have "sorted_wrt not_after fs'" using assms(2) by (induction fs') (auto intro: not_after_now now)
  then show ?thesis using assms now not_after_now by (auto simp: trace_ok_def sorted_wrt_append)
qed

text \<open>What an operation may do to an attachment: append frames written now.\<close>

definition grows_by :: "(frame \<Rightarrow> bool) \<Rightarrow> attachment \<Rightarrow> attachment \<Rightarrow> bool" where
  "grows_by P a a' \<longleftrightarrow> at_authenticated a' = at_authenticated a
     \<and> (\<exists>fs. at_written a' = at_written a @ fs \<and> (\<forall>f \<in> set fs. P f))"

abbreviation grows :: "int \<Rightarrow> (string \<times> byte list) list \<Rightarrow> attachment \<Rightarrow> attachment \<Rightarrow> bool" where
  "grows g ps \<equiv> grows_by (written_now g ps)"

lemma grows_refl [simp]:
  "grows_by P a a" "grows_by P a (a\<lparr>at_blocked := b\<rparr>)" "grows_by P a (a\<lparr>at_requiresResync := b\<rparr>)"
  "grows_by P a (a\<lparr>at_destroyed := b\<rparr>)" "grows_by P a (a\<lparr>at_blocked := b, at_requiresResync := b'\<rparr>)"
  by (simp_all add: grows_by_def)

lemma grows_trans: "grows_by P a b \<Longrightarrow> grows_by P b c \<Longrightarrow> grows_by P a c"
  by (auto simp: grows_by_def)

lemma grows_auth: "grows_by P a a' \<Longrightarrow> at_authenticated a' = at_authenticated a"
  by (simp add: grows_by_def)

lemma grows_trace: "grows g ps a a' \<Longrightarrow> trace_ok g ps (at_written a) \<Longrightarrow> trace_ok g ps (at_written a')"
  by (auto simp: grows_by_def intro: trace_ok_append)

lemma socket_write_grows: "P (h, p) \<Longrightarrow> grows_by P a (snd (socket_write render roomy h p a))"
  by (auto simp: socket_write_def grows_by_def Let_def split: sum.split)

lemma just_write_snd: "snd (just_write render roomy h p a) = snd (socket_write render roomy h p a)"
  by (auto simp: just_write_def split: prod.split sum.split)

lemma just_write_grows: "P (h, p) \<Longrightarrow> grows_by P a (snd (just_write render roomy h p a))"
  by (simp add: just_write_snd socket_write_grows)

lemma command_result_grows:
  assumes "\<And>o' p. P ((bare ''command_result'')\<lparr>wh_requestId := Some r, wh_ok := o'\<rparr>, p)"
    and "\<And>o' x p. P ((bare ''command_result'')\<lparr>wh_requestId := Some r, wh_ok := o', wh_errorClass := x\<rparr>, p)"
  shows "grows_by P a (snd (command_result render roomy r p a))"
proof -
  have 1: "grows_by P a (snd (just_write render roomy ((bare ''command_result'')\<lparr>wh_requestId := Some r, wh_ok := Some True\<rparr>) p a))"
    by (rule just_write_grows) (rule assms)
  have 2: "grows_by P b (snd (just_write render roomy ((bare ''command_result'')\<lparr>wh_requestId := Some r, wh_ok := Some False,
      wh_errorClass := Some ''Error''\<rparr>) q b))" for b q
    by (rule just_write_grows) (rule assms)
  show ?thesis using 1 grows_trans [OF _ 2] by (auto simp: command_result_def split: prod.split sum.split)
qed

definition event_ok :: "int \<Rightarrow> (string \<times> byte list) list \<Rightarrow> wevent \<Rightarrow> bool" where
  "event_ok g ps e \<longleftrightarrow> we_generation e = g \<and> published ps (we_sequence e) (we_eventType e) (we_payload e)"

lemma event_frame_now: "event_ok g ps e \<Longrightarrow> written_now g ps (event_frame e)"
  by (simp add: event_ok_def written_now_def stamped_def is_event_def event_frame_def bare_def)

lemma stamp_now:
  "wh_type h \<noteq> ''event'' \<Longrightarrow> written_now g ps (stamp (g, int (length ps)) h, p)"
  by (simp add: written_now_def stamped_def is_event_def stamp_def)

lemma plain_now:
  "wh_type h \<noteq> ''event'' \<Longrightarrow> wh_generation h = None \<Longrightarrow> wh_sequence h = None \<Longrightarrow> written_now g ps (h, p)"
  by (simp add: written_now_def stamped_def is_event_def)

lemma sendEvent_grows_by:
  assumes "P (event_frame e)"
  shows "grows_by P a (snd (sendEvent render roomy e a))"
proof -
  have "grows_by P a (snd (socket_write render roomy (fst (event_frame e)) (snd (event_frame e)) a))"
    using assms by (intro socket_write_grows) simp
  then show ?thesis using grows_trans by (auto simp: sendEvent_def split: prod.split sum.split bool.split)
qed

lemma sendEvent_grows: "event_ok g ps e \<Longrightarrow> grows g ps a (snd (sendEvent render roomy e a))"
  by (intro sendEvent_grows_by event_frame_now)

lemma send_replay_grows:
  "(\<And>e. e \<in> set es \<Longrightarrow> P (event_frame e)) \<Longrightarrow> grows_by P a (snd (send_replay render roomy es a))"
proof (induction es arbitrary: a)
  case (Cons e es)
  have "grows_by P a (snd (sendEvent render roomy e a))" using Cons.prems by (intro sendEvent_grows_by) simp
  then show ?case using Cons.IH Cons.prems grows_trans by (fastforce split: prod.split sum.split)
qed simp

definition piece_frame :: "string \<Rightarrow> nat \<Rightarrow> nat \<Rightarrow> byte list \<Rightarrow> frame" where
  "piece_frame r n i c = ((bare ''snapshot_chunk'')\<lparr>wh_requestId := Some r, wh_index := Some (int i), wh_chunks := Some (int n)\<rparr>, c)"

lemma send_chunks_grows:
  "(\<And>i c. P (piece_frame r n i c)) \<Longrightarrow> grows_by P a (snd (send_chunks render roomy r n i cs a))"
proof (induction cs arbitrary: i a)
  case (Cons c cs)
  let ?h = "(bare ''snapshot_chunk'')\<lparr>wh_requestId := Some r, wh_index := Some (int i), wh_chunks := Some (int n)\<rparr>"
  have "grows_by P a (snd (socket_write render roomy ?h c a))"
    using Cons.prems [of i c] by (intro socket_write_grows) (simp add: piece_frame_def)
  then show ?case using Cons.IH Cons.prems grows_trans by (fastforce split: prod.split sum.split bool.split)
qed simp

lemma sendSnapshot_grows_by:
  assumes "\<And>n. P (snapshot_begin r n (length s) c, [])" and "\<And>n i p. P (piece_frame r n i p)"
    and "P (stamp c ((bare ''snapshot_end'')\<lparr>wh_requestId := Some r\<rparr>), [])"
  shows "grows_by P a (snd (sendSnapshot render roomy opt r s c a))"
proof -
  let ?pieces = "snapshot_pieces (snapshot_chunk_bytes opt) s" and ?e = "stamp c ((bare ''snapshot_end'')\<lparr>wh_requestId := Some r\<rparr>)"
  obtain r1 a1 where 1: "just_write render roomy (snapshot_begin r (length ?pieces) (length s) c) [] a = (r1, a1)" by fastforce
  obtain r2 a2 where 2: "send_chunks render roomy r (length ?pieces) 0 ?pieces a1 = (r2, a2)" by fastforce
  obtain r3 a3 where 3: "just_write render roomy ?e [] a2 = (r3, a3)" by fastforce
  have g1: "grows_by P a a1" using just_write_grows [of P, OF assms(1)] 1 by (metis snd_conv)
  have g2: "grows_by P a a2" using grows_trans [OF g1] send_chunks_grows [of P, OF assms(2)] 2 by (metis snd_conv)
  have g3: "grows_by P a a3" using grows_trans [OF g2] just_write_grows [of P, OF assms(3)] 3 by (metis snd_conv)
  show ?thesis using g1 g2 g3 grows_trans [OF g3 grows_refl(3)]
    by (auto simp: sendSnapshot_def Let_def 1 2 3 split: sum.split bool.split)
qed

lemma sendSnapshot_grows: "grows g ps a (snd (sendSnapshot render roomy opt r s (g, int (length ps)) a))"
proof (rule sendSnapshot_grows_by)
  fix n i :: nat and p :: "byte list"
  show "written_now g ps (piece_frame r n i p)" unfolding piece_frame_def by (rule plain_now) (simp_all add: bare_def)
  show "written_now g ps (snapshot_begin r n (length s) (g, int (length ps)), [])"
    unfolding snapshot_begin_def by (rule stamp_now) (simp add: bare_def)
qed (rule stamp_now, simp add: bare_def)

section \<open>The invariant of the server\<close>

definition replay_ok :: "int \<Rightarrow> (string \<times> byte list) list \<Rightarrow> nat \<Rightarrow> wevent list \<Rightarrow> bool" where
  "replay_ok g ps capacity es \<longleftrightarrow> (\<forall>e \<in> set es. event_ok g ps e)
     \<and> map we_sequence es = [int (length ps) + 1 - int (length es) .. int (length ps)]
     \<and> length es = min capacity (length ps)"

definition attachment_ok :: "int \<Rightarrow> (string \<times> byte list) list \<Rightarrow> attachment \<Rightarrow> bool" where
  "attachment_ok g ps a \<longleftrightarrow> trace_ok g ps (at_written a) \<and> (\<not> at_authenticated a \<longrightarrow> at_written a = [])"

definition server_ok :: "int \<Rightarrow> string \<Rightarrow> nat \<Rightarrow> (string \<times> byte list) list \<Rightarrow> worker_server \<Rightarrow> bool" where
  "server_ok g token capacity ps st \<longleftrightarrow> ws_generation st = g \<and> ws_token st = token \<and> ws_sequence st = int (length ps)
     \<and> replay_ok g ps capacity (ws_replay st)
     \<and> (\<forall>k a. map_get (ws_attachments st) k = Some a \<longrightarrow> attachment_ok g ps a)
     \<and> (\<forall>k t a. (k, t) \<in> set (ws_tasks st) \<longrightarrow> map_get (ws_attachments st) k = Some a \<longrightarrow> at_authenticated a)"

lemma server_okD:
  assumes "server_ok g token capacity ps st"
  shows "ws_generation st = g" "ws_token st = token" "ws_sequence st = int (length ps)" "server_cursor st = (g, int (length ps))"
    and "replay_ok g ps capacity (ws_replay st)"
    and "map_get (ws_attachments st) k = Some a \<Longrightarrow> attachment_ok g ps a"
    and "(k, t) \<in> set (ws_tasks st) \<Longrightarrow> map_get (ws_attachments st) k = Some a \<Longrightarrow> at_authenticated a"
  using assms by (auto simp: server_ok_def server_cursor_def)

lemma attachment_ok_mono: "attachment_ok g ps a \<Longrightarrow> attachment_ok g (ps @ qs) a"
  by (simp add: attachment_ok_def trace_ok_mono)

lemma attachment_ok_grows: "grows g ps a a' \<Longrightarrow> attachment_ok g ps a \<Longrightarrow> at_authenticated a \<Longrightarrow> attachment_ok g ps a'"
  using grows_trace [of g ps a a'] by (simp add: attachment_ok_def) (simp add: grows_by_def)

text \<open>An operation on one attachment.\<close>

lemma on_attachment_ok:
  assumes "server_ok g token capacity ps st"
    and "\<And>a. map_get (ws_attachments st) k = Some a \<Longrightarrow> attachment_ok g ps a \<Longrightarrow>
       attachment_ok g ps (snd (f a)) \<and> (at_authenticated a \<longrightarrow> at_authenticated (snd (f a)))"
  shows "server_ok g token capacity ps (snd (on_attachment k f st))"
proof (cases "map_get (ws_attachments st) k")
  case (Some a)
  obtain r a' where f: "f a = (r, a')" by fastforce
  have "attachment_ok g ps a'" "at_authenticated a \<longrightarrow> at_authenticated a'"
    using assms(2) [OF Some server_okD(6) [OF assms(1) Some]] f by simp_all
  then show ?thesis using assms(1) Some f
    by (auto simp: on_attachment_def server_ok_def map_get_set)
qed (simp add: on_attachment_def assms(1))

lemma on_attachment_write_ok:
  assumes "server_ok g token capacity ps st"
    and "\<And>a. map_get (ws_attachments st) k = Some a \<Longrightarrow> at_authenticated a"
    and "\<And>a. map_get (ws_attachments st) k = Some a \<Longrightarrow> grows g ps a (snd (f a))"
  shows "server_ok g token capacity ps (snd (on_attachment k f st))"
proof (rule on_attachment_ok [OF assms(1)])
  fix a assume "map_get (ws_attachments st) k = Some a" "attachment_ok g ps a"
  then show "attachment_ok g ps (snd (f a)) \<and> (at_authenticated a \<longrightarrow> at_authenticated (snd (f a)))"
    using attachment_ok_grows [OF assms(3)] assms(2,3) by (simp add: grows_by_def)
qed

lemma send_each_get:
  "map_get (snd (send_each render roomy e as)) k = Some a' \<Longrightarrow> event_ok g ps e \<Longrightarrow>
     \<exists>a. map_get as k = Some a \<and> grows g ps a a' \<and> (\<not> at_authenticated a \<longrightarrow> a' = a)"
proof (induction render roomy e as rule: send_each.induct)
  case (2 render roomy e k' a as)
  have "grows g ps a (snd (sendEvent render roomy e a))" using "2.prems"(2) by (rule sendEvent_grows)
  moreover have "\<not> at_authenticated a \<longrightarrow> snd (sendEvent render roomy e a) = a" by (simp add: sendEvent_def)
  ultimately show ?case using 2 by (auto split: prod.splits sum.splits if_splits)
qed simp

lemma drop_upto_int: "drop n [i .. j] = [i + int n .. j]"
proof (induction n arbitrary: i)
  case (Suc n)
  show ?case
  proof (cases "i \<le> j")
    case True
    then show ?thesis using Suc [of "i + 1"] by (simp add: upto_rec1 algebra_simps)
  qed simp
qed simp

lemma take_last_upto: "take_last n [j + 1 - int m .. j] = [j + 1 - int (min n m) .. j]"
proof -
  have "j + 1 - int m + int (m - n) = j + 1 - int (min n m)" by (simp add: min_def of_nat_diff)
  moreover have "take_last n [j + 1 - int m .. j] = [j + 1 - int m + int (m - n) .. j]"
    unfolding take_last_def drop_upto_int by simp
  ultimately show ?thesis by (simp only:)
qed

lemma published_last: "published (ps @ [(t, p)]) (int (length ps) + 1) t p"
  by (simp add: published_def nth_append)

lemma publish_ok:
  assumes "server_ok g token capacity ps st"
  shows "server_ok g token capacity (ps @ [(t, p)]) (snd (publish render roomy capacity t p st))"
proof -
  note s = server_okD [OF assms]
  let ?e = "next_event t p st" and ?ps = "ps @ [(t, p)]"
  have e: "event_ok g ?ps ?e" using s published_last by (simp add: event_ok_def next_event_def)
  have r: "replay_ok g ps capacity (ws_replay st)" by (rule s(5))
  have "replay_ok g ?ps capacity (take_last capacity (ws_replay st @ [?e]))"
  proof -
    let ?es = "ws_replay st @ [?e]"
    have "map we_sequence ?es = [int (length ?ps) + 1 - int (Suc (length (ws_replay st))) .. int (length ?ps)]"
      using r s(3) by (simp add: replay_ok_def next_event_def upto_rec2 algebra_simps)
    then have "map we_sequence (take_last capacity ?es)
        = [int (length ?ps) + 1 - int (min capacity (Suc (length (ws_replay st)))) .. int (length ?ps)]"
      unfolding map_take_last by (simp only: take_last_upto)
    moreover have "event_ok g ?ps x" if "x \<in> set (take_last capacity ?es)" for x
      using that e r set_take_last [of capacity ?es] by (auto simp: replay_ok_def event_ok_def intro: published_mono)
    ultimately show ?thesis using r by (auto simp: replay_ok_def)
  qed
  moreover have "\<exists>a. map_get (ws_attachments st) k = Some a \<and> at_authenticated a' = at_authenticated a \<and> attachment_ok g ?ps a'"
    if sent: "map_get (snd (send_each render roomy ?e (ws_attachments st))) k = Some a'" for k a'
  proof -
    obtain a where a: "map_get (ws_attachments st) k = Some a" "grows g ?ps a a'" "\<not> at_authenticated a \<longrightarrow> a' = a"
      using send_each_get [OF sent e] by blast
    have "attachment_ok g ?ps a" using s(6) [OF a(1)] by (rule attachment_ok_mono)
    then have "attachment_ok g ?ps a'" using attachment_ok_grows [OF a(2)] a(3) by auto
    then show ?thesis using a(1,2) by (auto simp: grows_by_def)
  qed
  ultimately show ?thesis using s(1-3,7)
    by (fastforce simp: publish_def Let_def server_ok_def split: prod.split)
qed

lemma add_task_ok:
  assumes "server_ok g token capacity ps (snd r)"
    and "\<And>a. map_get (ws_attachments (snd r)) k = Some a \<Longrightarrow> at_authenticated a"
  shows "server_ok g token capacity ps (snd (add_task k task r))"
  using assms by (cases r) (auto simp: add_task_def server_ok_def split: sum.split)

lemma on_attachment_get:
  "map_get (ws_attachments (snd (on_attachment k f st))) k = map_option (\<lambda>a. snd (f a)) (map_get (ws_attachments st) k)"
  by (auto simp: on_attachment_def map_get_set split: option.split prod.split)

lemma attach_ok:
  assumes ok: "server_ok g token capacity ps st" and auth: "\<And>a. map_get (ws_attachments st) k = Some a \<Longrightarrow> at_authenticated a"
  shows "server_ok g token capacity ps (snd (attachReplay render roomy fresh k h st))"
proof -
  note s = server_okD [OF ok]
  have w: "grows g ps a (snd (just_write render roomy (attach_result r x (server_cursor st)) [] (a\<lparr>at_requiresResync := False\<rparr>)))" for a r x
    unfolding s(4) attach_result_def
    by (rule grows_trans [OF grows_refl(3)], rule just_write_grows, rule stamp_now) (simp add: bare_def)
  have w': "grows g ps a (snd (just_write render roomy ((attach_result r x (server_cursor st))\<lparr>wh_oldestSequence := o'\<rparr>) []
      (a\<lparr>at_requiresResync := False\<rparr>)))" for a r x o'
    unfolding s(4) attach_result_def
    by (rule grows_trans [OF grows_refl(3)], rule just_write_grows)
      (simp add: bare_def written_now_def stamped_def is_event_def stamp_def)
  have add: "server_ok g token capacity ps (snd (add_task k task (on_attachment k f st)))"
    if f: "\<And>a. grows g ps a (snd (f a))" for f task
  proof (rule add_task_ok)
    show "server_ok g token capacity ps (snd (on_attachment k f st))" using auth f by (rule on_attachment_write_ok [OF ok])
    fix a assume "map_get (ws_attachments (snd (on_attachment k f st))) k = Some a"
    then obtain b where b: "map_get (ws_attachments st) k = Some b" "a = snd (f b)" by (auto simp: on_attachment_get)
    then show "at_authenticated a" using auth [OF b(1)] f [of b] by (simp add: grows_by_def)
  qed
  have replay: "grows g ps a (snd (case just_write render roomy (attach_result r ''complete'' (server_cursor st)) []
        (a\<lparr>at_requiresResync := False\<rparr>) of
      (Inl e, a') \<Rightarrow> (throw e, a')
    | (Inr _, a') \<Rightarrow> send_replay render roomy (filter (\<lambda>e. we_sequence e > q) (ws_replay st)) a'))" for a r q
  proof -
    have "grows g ps x (snd (send_replay render roomy (filter (\<lambda>e. we_sequence e > q) (ws_replay st)) x))" for x
      by (rule send_replay_grows, rule event_frame_now) (use s(5) in \<open>auto simp: replay_ok_def\<close>)
    then show ?thesis using w [of a r "''complete''"] grows_trans by (fastforce split: prod.split sum.split)
  qed
  show ?thesis unfolding attachReplay_def Let_def
    using add w w' on_attachment_write_ok [OF ok auth replay] by simp
qed

lemma answer_ok:
  assumes "server_ok g token capacity ps st" "\<And>a. map_get (ws_attachments st) k = Some a \<Longrightarrow> at_authenticated a"
    and "written_now g ps (h, p)"
  shows "server_ok g token capacity ps (snd (on_attachment k (just_write render roomy h p) st))"
  using just_write_grows [of "written_now g ps", OF assms(3)] by (intro on_attachment_write_ok assms(1,2))

lemma handle_ok:
  assumes ok: "server_ok g token capacity ps st"
  shows "server_ok g token capacity ps (snd (server_handle render roomy fresh k f st))"
proof (cases "map_get (ws_attachments st) k")
  case (Some a)
  note s = server_okD [OF ok]
  show ?thesis
  proof (cases "at_authenticated a")
    case True
    then have auth: "\<And>b. map_get (ws_attachments st) k = Some b \<Longrightarrow> at_authenticated b" using Some by simp
    have now: "written_now g ps (stamp (server_cursor st) ((bare ''pong'')\<lparr>wh_requestId := r\<rparr>), [])"
      "written_now g ps ((bare ''command_error'')\<lparr>wh_requestId := r, wh_code := x\<rparr>, [])"
      "written_now g ps ((bare ''protocol_error'')\<lparr>wh_code := x\<rparr>, [])" for r x
      unfolding s(4) by (rule stamp_now plain_now; simp add: bare_def)+
    have ans: "server_ok g token capacity ps (snd (on_attachment k (just_write render roomy h p) st))" if "written_now g ps (h, p)" for h p
      by (rule answer_ok [OF ok auth that])
    have att: "server_ok g token capacity ps (snd (attachReplay render roomy fresh k (fst f) st))" by (rule attach_ok [OF ok auth])
    have task: "server_ok g token capacity ps (snd (add_task k x (ok (), st)))" for x
      by (rule add_task_ok) (simp_all add: ok auth)
    show ?thesis unfolding server_handle_def Let_def by (simp add: Some True ans now att task)
  next
    case False
    have "attachment_ok g ps (a\<lparr>at_destroyed := True\<rparr>)" if "attachment_ok g ps a" for a
      using that by (simp add: attachment_ok_def)
    moreover have "attachment_ok g ps (snd (just_write render roomy (stamp (server_cursor st) (bare ''auth_ok'')) [] (a\<lparr>at_authenticated := True\<rparr>)))"
      if "attachment_ok g ps a" for a
    proof (rule attachment_ok_grows)
      show "grows g ps (a\<lparr>at_authenticated := True\<rparr>) (snd (just_write render roomy (stamp (server_cursor st) (bare ''auth_ok'')) []
          (a\<lparr>at_authenticated := True\<rparr>)))"
        unfolding s(4) by (rule just_write_grows, rule stamp_now) (simp add: bare_def)
    qed (use that in \<open>simp_all add: attachment_ok_def\<close>)
    moreover have "at_authenticated (snd (just_write render roomy h p a)) = at_authenticated a" for h p a
      by (simp add: just_write_snd socket_write_def Let_def split: sum.split)
    ultimately show ?thesis unfolding server_handle_def Let_def using Some False
      by (auto intro!: on_attachment_ok [OF ok])
  qed
qed (simp add: server_handle_def ok)

lemma finish_ok:
  assumes ok: "server_ok g token capacity ps st"
  shows "server_ok g token capacity ps (snd (server_finish render roomy opt n out st))"
proof (cases "n < length (ws_tasks st)")
  case True
  note s = server_okD [OF ok]
  obtain k task where t: "ws_tasks st ! n = (k, task)" by fastforce
  let ?st = "st\<lparr>ws_tasks := take n (ws_tasks st) @ drop (Suc n) (ws_tasks st)\<rparr>"
  have sub: "set (ws_tasks ?st) \<subseteq> set (ws_tasks st)" using set_take_subset set_drop_subset by fastforce
  have ok': "server_ok g token capacity ps ?st"
    using ok sub unfolding server_ok_def by (simp del: set_append) blast
  have "(k, task) \<in> set (ws_tasks st)" using True t nth_mem by metis
  then have auth: "at_authenticated a" if "map_get (ws_attachments ?st) k = Some a" for a
    using s(7) [of k task a] that by simp
  have now: "written_now g ps ((bare ''command_result'')\<lparr>wh_requestId := r, wh_ok := o'\<rparr>, p)"
    "written_now g ps ((bare ''command_result'')\<lparr>wh_requestId := r, wh_ok := o', wh_errorClass := x\<rparr>, p)" for r o' x p
    by (rule plain_now; simp add: bare_def)+
  have done': "server_ok g token capacity ps (snd (on_attachment k (command_result render roomy r p) ?st))" for r p
  proof -
    have "grows g ps a (snd (command_result render roomy r p a))" for a by (intro command_result_grows now)
    then show ?thesis using auth by (intro on_attachment_write_ok [OF ok'])
  qed
  have snap: "server_ok g token capacity ps (snd (on_attachment k (sendSnapshot render roomy opt r b (server_cursor st)) ?st))" for r b
    unfolding s(4) using auth by (rule on_attachment_write_ok [OF ok' _ sendSnapshot_grows])
  show ?thesis using True t answer_ok [OF ok' auth] now done' snap ok
    by (auto simp: server_finish_def Let_def split: wtask.split outcome.split)
qed (simp add: server_finish_def ok)

lemma drain_ok:
  assumes ok: "server_ok g token capacity ps st"
  shows "server_ok g token capacity ps (snd (server_drain render roomy k st))"
  unfolding server_drain_def
proof (rule on_attachment_ok [OF ok])
  fix a assume a: "attachment_ok g ps a"
  let ?h = "stamp (server_cursor st) (bare ''resync_required'')"
  have "grows g ps a (snd (just_write render roomy ?h [] (a\<lparr>at_blocked := False\<rparr>)))"
    unfolding server_okD(4) [OF ok] by (rule grows_trans [OF grows_refl(2)], rule just_write_grows, rule stamp_now) (simp add: bare_def)
  then show "attachment_ok g ps (snd (let a' = a\<lparr>at_blocked := False\<rparr> in
      if at_requiresResync a' \<and> at_authenticated a' then just_write render roomy ?h [] a' else (ok (), a')))
    \<and> (at_authenticated a \<longrightarrow> at_authenticated (snd (let a' = a\<lparr>at_blocked := False\<rparr> in
      if at_requiresResync a' \<and> at_authenticated a' then just_write render roomy ?h [] a' else (ok (), a'))))"
    using a attachment_ok_grows [OF _ a] grows_auth by (auto simp: Let_def) (auto simp: attachment_ok_def)
qed

lemma server_step_ok:
  assumes ok: "server_ok g token capacity ps st" and "fresh_accept c st"
  shows "server_ok g token capacity (ps @ published_by c) (server_step render roomy capacity opt c st)"
proof (cases c)
  case (Accept k)
  have "attachment_ok g ps new_attachment" by (simp add: attachment_ok_def new_attachment_def trace_ok_def)
  moreover have "(k, t) \<notin> set (ws_tasks st)" for t using assms(2) Accept by (force simp: fresh_accept_def)
  ultimately show ?thesis using ok Accept
    by (auto simp: server_step_def server_accept_def published_by_def server_ok_def map_get_set)
next
  case (Cleanup k)
  then show ?thesis using ok by (auto simp: server_step_def server_cleanup_def published_by_def server_ok_def map_get_delete)
qed (use ok in \<open>simp_all add: server_step_def published_by_def publish_ok drain_ok handle_ok finish_ok\<close>)

lemma server_reach_ok: "server_reach render roomy capacity opt g token ps st \<Longrightarrow> server_ok g token capacity ps st"
proof (induction rule: server_reach.induct)
  case start
  show ?case by (simp add: server_ok_def new_server_def replay_ok_def)
qed (rule server_step_ok)

section \<open>A connection\<close>

text \<open>Nothing that was written to an attachment is taken back.\<close>

definition written_to :: "id \<Rightarrow> worker_server \<Rightarrow> frame list" where
  "written_to k st = (case map_get (ws_attachments st) k of None \<Rightarrow> [] | Some a \<Rightarrow> at_written a)"

definition grew :: "bool \<Rightarrow> attachment \<Rightarrow> attachment \<Rightarrow> bool" where
  "grew Q a a' \<longleftrightarrow> (\<exists>fs. at_written a' = at_written a @ fs) \<and> (at_authenticated a' \<longrightarrow> at_authenticated a \<or> Q)"

definition keeps_writing :: "bool \<Rightarrow> id \<Rightarrow> worker_server \<Rightarrow> worker_server \<Rightarrow> bool" where
  "keeps_writing Q k st st' \<longleftrightarrow>
     (case map_get (ws_attachments st) k of
        None \<Rightarrow> map_get (ws_attachments st') k = None
      | Some a \<Rightarrow> (\<exists>a'. map_get (ws_attachments st') k = Some a' \<and> grew Q a a'))"

abbreviation extends :: "attachment \<Rightarrow> attachment \<Rightarrow> bool" where
  "extends \<equiv> grows_by (\<lambda>_. True)"

lemma grew_refl [simp]: "grew Q a a"
  by (simp add: grew_def)

lemma extends_grew: "extends a a' \<Longrightarrow> grew Q a a'"
  by (auto simp: grows_by_def grew_def)

lemma on_attachment_keeps:
  assumes "j = k \<Longrightarrow> (\<And>a. map_get (ws_attachments st) k = Some a \<Longrightarrow> grew Q a (snd (f a)))"
  shows "keeps_writing Q k st (snd (on_attachment j f st))"
proof (cases "j = k")
  case True
  then show ?thesis using assms by (auto simp: keeps_writing_def on_attachment_get split: option.split)
next
  case False
  then have "map_get (ws_attachments (snd (on_attachment j f st))) k = map_get (ws_attachments st) k"
    by (auto simp: on_attachment_def map_get_set split: prod.split option.split)
  then show ?thesis by (simp add: keeps_writing_def split: option.split)
qed

lemma keeps_frame [simp]:
  "keeps_writing Q k st st" "keeps_writing Q k st (st\<lparr>ws_tasks := ts\<rparr>)"
  "keeps_writing Q k (st\<lparr>ws_tasks := ts\<rparr>) st' = keeps_writing Q k st st'"
  "keeps_writing Q k st (st'\<lparr>ws_tasks := ts\<rparr>) = keeps_writing Q k st st'"
  by (simp_all add: keeps_writing_def split: option.split)

lemma add_task_keeps: "keeps_writing Q k st (snd (add_task j task r)) = keeps_writing Q k st (snd r)"
  by (cases r) (auto simp: add_task_def split: sum.split)

lemma write_grew: "grew Q a b \<Longrightarrow> grew Q a (snd (just_write render roomy h p b))"
  using just_write_grows [of "\<lambda>_. True" h p b render roomy] by (auto simp: grew_def grows_by_def)

lemma write_keeps: "keeps_writing Q k st (snd (on_attachment j (just_write render roomy h p) st))"
  by (rule on_attachment_keeps) (simp add: write_grew)

lemma attach_keeps: "keeps_writing Q k st (snd (attachReplay render roomy fresh j h st))"
proof -
  have reset: "grew Q a (a\<lparr>at_requiresResync := False\<rparr>)" for a by (simp add: grew_def)
  have "grew Q a (snd (case just_write render roomy r [] (a\<lparr>at_requiresResync := False\<rparr>) of
      (Inl e, a') \<Rightarrow> (throw e, a') | (Inr _, a') \<Rightarrow> send_replay render roomy es a'))" for a r es
  proof (rule extends_grew)
    have "extends a (snd (just_write render roomy r [] (a\<lparr>at_requiresResync := False\<rparr>)))"
      by (rule grows_trans [OF grows_refl(3)], rule just_write_grows) simp
    then show "extends a (snd (case just_write render roomy r [] (a\<lparr>at_requiresResync := False\<rparr>) of
        (Inl e, a') \<Rightarrow> (throw e, a') | (Inr _, a') \<Rightarrow> send_replay render roomy es a'))"
      using grows_trans [OF _ send_replay_grows [of es "\<lambda>_. True"]] by (fastforce split: prod.split sum.split)
  qed
  then show ?thesis by (auto simp: attachReplay_def Let_def add_task_keeps reset intro!: write_grew on_attachment_keeps)
qed

definition shows_token :: "id \<Rightarrow> string \<Rightarrow> server_call \<Rightarrow> bool" where
  "shows_token k token c = (case c of Handle _ j f \<Rightarrow> j = k \<and> wh_type (fst f) = ''auth'' \<and> wh_token (fst f) = Some token | _ \<Rightarrow> False)"

lemma handle_keeps:
  "keeps_writing (shows_token k (ws_token st) (Handle fresh j f)) k st (snd (server_handle render roomy fresh j f st))"
proof (cases "map_get (ws_attachments st) j")
  case (Some a)
  have auth: "grew (shows_token k (ws_token st) (Handle fresh j f)) a
      (snd (just_write render roomy h [] (a\<lparr>at_authenticated := True\<rparr>)))"
    if "j = k" "wh_type (fst f) = ''auth''" "wh_token (fst f) = Some (ws_token st)" for a h
    using that by (intro write_grew) (simp add: grew_def shows_token_def)
  have gone: "grew Q a (a\<lparr>at_destroyed := True\<rparr>)" for Q a by (simp add: grew_def)
  show ?thesis using Some auth
    by (auto simp: server_handle_def Let_def attach_keeps write_keeps add_task_keeps gone intro!: on_attachment_keeps)
qed (simp add: server_handle_def)

lemma finish_keeps: "keeps_writing Q k st (snd (server_finish render roomy opt n out st))"
proof (cases "n < length (ws_tasks st)")
  case True
  obtain j task where t: "ws_tasks st ! n = (j, task)" by fastforce
  let ?st = "st\<lparr>ws_tasks := take n (ws_tasks st) @ drop (Suc n) (ws_tasks st)\<rparr>"
  have w: "keeps_writing Q k st (snd (on_attachment j (just_write render roomy h p) ?st))" for h p
    using write_keeps [of Q k ?st] by simp
  have r: "keeps_writing Q k st (snd (on_attachment j (command_result render roomy r p) ?st))" for r p
  proof -
    have "keeps_writing Q k ?st (snd (on_attachment j (command_result render roomy r p) ?st))"
      by (intro on_attachment_keeps extends_grew command_result_grows) simp_all
    then show ?thesis by simp
  qed
  have s: "keeps_writing Q k st (snd (on_attachment j (sendSnapshot render roomy opt r b c) ?st))" for r b c
  proof -
    have "keeps_writing Q k ?st (snd (on_attachment j (sendSnapshot render roomy opt r b c) ?st))"
      by (intro on_attachment_keeps extends_grew sendSnapshot_grows_by) simp_all
    then show ?thesis by simp
  qed
  show ?thesis using True t w r s by (auto simp: server_finish_def Let_def split: wtask.split outcome.split)
qed (simp add: server_finish_def)

lemma drain_keeps: "keeps_writing Q k st (snd (server_drain render roomy j st))"
  unfolding server_drain_def Let_def
proof (rule on_attachment_keeps)
  fix a
  have "grew Q a (a\<lparr>at_blocked := False\<rparr>)" by (simp add: grew_def)
  then show "grew Q a (snd (if at_requiresResync (a\<lparr>at_blocked := False\<rparr>) \<and> at_authenticated (a\<lparr>at_blocked := False\<rparr>)
      then just_write render roomy (stamp (server_cursor st) (bare ''resync_required'')) [] (a\<lparr>at_blocked := False\<rparr>)
      else (ok (), a\<lparr>at_blocked := False\<rparr>)))"
    by (simp add: write_grew)
qed

lemma send_each_keeps:
  "case map_get as k of None \<Rightarrow> map_get (snd (send_each render roomy e as)) k = None
   | Some a \<Rightarrow> (\<exists>a'. map_get (snd (send_each render roomy e as)) k = Some a' \<and> extends a a')"
proof (induction render roomy e as rule: send_each.induct)
  case (2 render roomy e k' b as)
  have "extends b (snd (sendEvent render roomy e b))" by (rule sendEvent_grows_by) simp
  then show ?case using 2 by (fastforce split: prod.splits sum.splits if_splits option.splits)
qed simp

lemma publish_keeps: "keeps_writing Q k st (snd (publish render roomy capacity t p st))"
proof -
  obtain r as where s: "send_each render roomy (next_event t p st) (ws_attachments st) = (r, as)" by fastforce
  then show ?thesis using send_each_keeps [where as = "ws_attachments st" and k = k and render = render and roomy = roomy and e = "next_event t p st"] extends_grew
    by (fastforce simp: publish_def Let_def keeps_writing_def split: option.splits)
qed

lemma server_step_keeps:
  assumes "c \<noteq> Cleanup k" and "c \<noteq> Accept k"
  shows "keeps_writing (shows_token k (ws_token st) c) k st (server_step render roomy capacity opt c st)"
proof (cases c)
  case (Accept j)
  then show ?thesis using assms(2)
    by (auto simp: server_step_def server_accept_def keeps_writing_def map_get_set split: option.split)
next
  case (Cleanup j)
  then show ?thesis using assms(1)
    by (auto simp: server_step_def server_cleanup_def keeps_writing_def map_get_delete split: option.split)
qed (simp_all add: server_step_def publish_keeps drain_keeps handle_keeps finish_keeps)

lemma server_step_written:
  assumes "c \<noteq> Cleanup k" and "fresh_accept c st" and "map_get (ws_attachments st) k \<noteq> None"
  shows "\<exists>fs. written_to k (server_step render roomy capacity opt c st) = written_to k st @ fs"
    and "map_get (ws_attachments (server_step render roomy capacity opt c st)) k \<noteq> None"
proof -
  have "c \<noteq> Accept k" using assms(2,3) by (auto simp: fresh_accept_def)
  from server_step_keeps [OF assms(1) this, of st render roomy capacity opt] assms(3)
  show "\<exists>fs. written_to k (server_step render roomy capacity opt c st) = written_to k st @ fs"
    and "map_get (ws_attachments (server_step render roomy capacity opt c st)) k \<noteq> None"
    by (auto simp: keeps_writing_def written_to_def grew_def)
qed

record connection =
  cn_server :: worker_server
  cn_client :: worker_client
  cn_read :: nat

inductive connection_reach ::
    "(header \<Rightarrow> byte list) \<Rightarrow> (frame list \<Rightarrow> bool) \<Rightarrow> nat \<Rightarrow> nat option \<Rightarrow> int \<Rightarrow> string \<Rightarrow> id
       \<Rightarrow> (string \<times> byte list) list \<Rightarrow> connection \<Rightarrow> bool"
  for render roomy capacity opt generation token k where
  connect: "server_reach render roomy capacity opt generation token ps st \<Longrightarrow> fresh_accept (Accept k) st \<Longrightarrow>
    connection_reach render roomy capacity opt generation token k ps
      \<lparr>cn_server = server_step render roomy capacity opt (Accept k) st, cn_client = new_client, cn_read = 0\<rparr>"
| server: "connection_reach render roomy capacity opt generation token k ps s \<Longrightarrow> fresh_accept c (cn_server s) \<Longrightarrow> c \<noteq> Cleanup k \<Longrightarrow>
    connection_reach render roomy capacity opt generation token k (ps @ published_by c)
      (s\<lparr>cn_server := server_step render roomy capacity opt c (cn_server s)\<rparr>)"
| read: "connection_reach render roomy capacity opt generation token k ps s \<Longrightarrow> cn_read s < length (written_to k (cn_server s)) \<Longrightarrow>
    connection_reach render roomy capacity opt generation token k ps
      (s\<lparr>cn_client := client_handle (written_to k (cn_server s) ! cn_read s) (cn_client s), cn_read := Suc (cn_read s)\<rparr>)"
| request: "connection_reach render roomy capacity opt generation token k ps s \<Longrightarrow>
    connection_reach render roomy capacity opt generation token k ps (s\<lparr>cn_client := client_call call (cn_client s)\<rparr>)"

text \<open>What the client knows after it read the frames \<open>fs\<close>: its cursor, and the events its listeners got.\<close>

definition heard :: "int \<Rightarrow> (string \<times> byte list) list \<Rightarrow> frame list \<Rightarrow> wcursor \<Rightarrow> (string \<times> wcursor \<times> byte list) list \<Rightarrow> bool" where
  "heard g ps fs cur del \<longleftrightarrow> sorted_wrt (<) (map (\<lambda>(t, c, p). snd c) del)
     \<and> (\<forall>(t, c, p) \<in> set del. fst c = g \<and> published ps (snd c) t p \<and> snd c \<le> snd cur)
     \<and> (cur = (0, 0) \<and> del = [] \<or> fst cur = g)
     \<and> (snd cur = 0 \<or> (\<exists>f \<in> set fs. wh_sequence (fst f) = Some (snd cur)))"

lemma heard_mono: "heard g ps fs cur del \<Longrightarrow> heard g (ps @ qs) fs cur del"
  unfolding heard_def using published_mono by fastforce

lemma handle_other:
  assumes "\<not> is_event f"
  shows "wc_delivered (client_handle f c) = wc_delivered c"
    and "wc_cursor (client_handle f c) = wc_cursor c \<or> wc_cursor (client_handle f c) = cursorFrom (fst f) (wc_cursor c)"
  using assms by (auto simp: client_handle_def Let_def is_event_def snapshot_ended_def failPending_def split: option.split)

lemma handle_event:
  assumes "is_event f"
  shows "client_handle f c = (let cursor = cursorFrom (fst f) (wc_cursor c) in
    if fst cursor \<noteq> fst (wc_cursor c) \<or> snd cursor > snd (wc_cursor c)
    then c\<lparr>wc_cursor := cursor, wc_delivered := wc_delivered c @ [(or_else (wh_eventType (fst f)) ''event'', cursor, snd f)]\<rparr> else c)"
  using assms by (simp add: client_handle_def Let_def is_event_def)

lemma heard_handle:
  assumes h: "heard g ps fs (wc_cursor c) (wc_delivered c)" and t: "trace_ok g ps (fs @ [f])"
  shows "heard g ps (fs @ [f]) (wc_cursor (client_handle f c)) (wc_delivered (client_handle f c))"
proof -
  have f: "stamped g ps f" "\<And>f'. f' \<in> set fs \<Longrightarrow> not_after f' f" using t by (auto simp: trace_ok_def sorted_wrt_append)
  show ?thesis
  proof (cases "is_event f")
    case True
    then obtain k x where k: "wh_generation (fst f) = Some g" "wh_sequence (fst f) = Some k" "wh_eventType (fst f) = Some x"
      "published ps k x (snd f)" using f(1) by (auto simp: stamped_def)
    have c: "cursorFrom (fst f) (wc_cursor c) = (g, k)" using k by (simp add: cursorFrom_def)
    show ?thesis
    proof (cases "g \<noteq> fst (wc_cursor c) \<or> k > snd (wc_cursor c)")
      case new: True
      have e: "wc_cursor (client_handle f c) = (g, k)" "wc_delivered (client_handle f c) = wc_delivered c @ [(x, (g, k), snd f)]"
        using new k(3) unfolding handle_event [OF True] by (simp_all add: c Let_def)
      have "snd (fst (snd z)) < k" if "z \<in> set (wc_delivered c)" for z
        using h that new by (cases z) (fastforce simp: heard_def)
      then show ?thesis using h k unfolding e heard_def by (fastforce simp: sorted_wrt_append)
    next
      case False
      then show ?thesis using h c unfolding handle_event [OF True] by (auto simp: heard_def)
    qed
  next
    case False
    show ?thesis
    proof (cases "wc_cursor (client_handle f c) = wc_cursor c \<or> wh_sequence (fst f) = None")
      case True
      then have "wc_cursor (client_handle f c) = wc_cursor c"
        using handle_other(2) [OF False, of c] f(1) False by (auto simp: cursorFrom_def stamped_def)
      then show ?thesis using h handle_other(1) [OF False] by (auto simp: heard_def)
    next
      case moved: False
      then obtain b where b: "wh_generation (fst f) = Some g" "wh_sequence (fst f) = Some b" "0 \<le> b"
        using f(1) False by (auto simp: stamped_def)
      have c: "wc_cursor (client_handle f c) = (g, b)"
        using handle_other(2) [OF False, of c] moved b by (simp add: cursorFrom_def)
      have "snd (wc_cursor c) \<le> b"
      proof (cases "snd (wc_cursor c) = 0")
        case False
        then obtain f' where f': "f' \<in> set fs" "wh_sequence (fst f') = Some (snd (wc_cursor c))" using h by (auto simp: heard_def)
        then show ?thesis using f(2) [OF f'(1)] b \<open>\<not> is_event f\<close> by (simp add: not_after_def)
      qed (use b in simp)
      then show ?thesis using h b c handle_other(1) [OF False] by (fastforce simp: heard_def)
    qed
  qed
qed

lemma client_call_frame [simp]:
  "wc_cursor (client_call call c) = wc_cursor c" "wc_delivered (client_call call c) = wc_delivered c"
  by (cases call; simp add: client_call_def failPending_def)+

definition connection_ok :: "int \<Rightarrow> string \<Rightarrow> nat \<Rightarrow> id \<Rightarrow> (string \<times> byte list) list \<Rightarrow> connection \<Rightarrow> bool" where
  "connection_ok g token capacity k ps s \<longleftrightarrow> server_ok g token capacity ps (cn_server s)
     \<and> map_get (ws_attachments (cn_server s)) k \<noteq> None \<and> cn_read s \<le> length (written_to k (cn_server s))
     \<and> heard g ps (take (cn_read s) (written_to k (cn_server s))) (wc_cursor (cn_client s)) (wc_delivered (cn_client s))"

lemma written_trace: "server_ok g token capacity ps st \<Longrightarrow> trace_ok g ps (written_to k st)"
  using server_okD(6) by (fastforce simp: written_to_def attachment_ok_def trace_ok_def split: option.split)

lemma connection_reach_ok:
  "connection_reach render roomy capacity opt g token k ps s \<Longrightarrow> connection_ok g token capacity k ps s"
proof (induction rule: connection_reach.induct)
  case (connect ps st)
  have "server_ok g token capacity (ps @ published_by (Accept k)) (server_step render roomy capacity opt (Accept k) st)"
    using server_step_ok [OF server_reach_ok [OF connect(1)] connect(2)] .
  then show ?case
    by (simp add: connection_ok_def heard_def new_client_def published_by_def) (simp add: server_step_def server_accept_def map_get_set)
next
  case (server ps s c)
  let ?st = "server_step render roomy capacity opt c (cn_server s)"
  have k: "map_get (ws_attachments (cn_server s)) k \<noteq> None" using server.IH by (simp add: connection_ok_def)
  obtain fs where "written_to k ?st = written_to k (cn_server s) @ fs" using server_step_written(1) [OF server(3,2) k] by blast
  then show ?case using server.IH server_step_ok [OF _ server(2)] server_step_written(2) [OF server(3,2) k]
    by (auto simp: connection_ok_def intro: heard_mono)
next
  case (read ps s)
  let ?w = "written_to k (cn_server s)"
  have "trace_ok g ps ?w" using read.IH written_trace by (auto simp: connection_ok_def)
  then have "trace_ok g ps (take (Suc (cn_read s)) ?w)"
    using append_take_drop_id [of "Suc (cn_read s)" ?w] by (metis trace_ok_def sorted_wrt_append in_set_takeD)
  then show ?case using read heard_handle by (auto simp: connection_ok_def take_Suc_conv_app_nth)
next
  case (request ps s call)
  then show ?case by (simp add: connection_ok_def)
qed

section \<open>Properties\<close>

text \<open>C36. Whatever the server, its other clients, the socket buffers and the application do, the listeners of a client get
  events the server published, with the type and payload published under that number, in the order of the numbers
  and none of them twice.\<close>

theorem worker_events_in_order:
  assumes "connection_reach render roomy capacity opt g token k ps s"
  shows "sorted_wrt (<) (map (\<lambda>(t, c, p). snd c) (wc_delivered (cn_client s)))
    \<and> (\<forall>(t, c, p) \<in> set (wc_delivered (cn_client s)). fst c = g \<and> published ps (snd c) t p)"
  using connection_reach_ok [OF assms] by (fastforce simp: connection_ok_def heard_def)


section \<open>Replay\<close>

lemma socket_write_sent:
  assumes "\<not> at_destroyed a" and "\<not> isl (encodeWorkerFrame render h p)"
  shows "socket_write render (\<lambda>_. True) h p a = (ok True, a\<lparr>at_written := at_written a @ [(h, p)]\<rparr>)"
  using assms by (auto simp: socket_write_def Let_def split: sum.split)

lemma send_replay_sent:
  assumes "at_authenticated a" "\<not> at_blocked a" "\<not> at_requiresResync a" "\<not> at_destroyed a"
    and "\<And>e. e \<in> set es \<Longrightarrow> \<not> isl (encodeWorkerFrame render (fst (event_frame e)) (snd (event_frame e)))"
  shows "send_replay render (\<lambda>_. True) es a = (ok (), a\<lparr>at_written := at_written a @ map event_frame es\<rparr>)"
  using assms
proof (induction es arbitrary: a)
  case (Cons e es)
  have "socket_write render (\<lambda>_. True) (fst (event_frame e)) (snd (event_frame e)) a = (ok True, a\<lparr>at_written := at_written a @ [event_frame e]\<rparr>)"
    using socket_write_sent [of a render "fst (event_frame e)" "snd (event_frame e)"] Cons.prems by simp
  then show ?case using Cons by (simp add: sendEvent_def)
qed simp

lemma filter_upto: "filter (\<lambda>k. k > q) [i .. j] = [max i (q + 1) .. (j::int)]"
proof (induction "nat (j + 1 - i)" arbitrary: i)
  case (Suc n)
  then have i: "i \<le> j" "n = nat (j + 1 - (i + 1))" by simp_all
  then have "filter (\<lambda>k. k > q) [i .. j] = (if i > q then [i] else []) @ [max (i + 1) (q + 1) .. j]"
    using Suc(1) [OF i(2)] by (simp add: upto_rec1)
  moreover have "q < i \<Longrightarrow> max (i + 1) (q + 1) = i + 1 \<and> max i (q + 1) = i" "\<not> q < i \<Longrightarrow> max (i + 1) (q + 1) = max i (q + 1)"
    by simp_all
  ultimately show ?case using i(1) by (auto simp: upto_rec1)
qed auto

text \<open>An attach that the server answers with a complete replay is followed by exactly the events after the cursor of
  the client, in order and without a gap, when the frames fit and the socket takes them.\<close>

theorem attach_replays_exactly:
  assumes "server_reach render roomy capacity opt g token ps st" and "map_get (ws_attachments st) k = Some a"
    and "at_authenticated a" "\<not> at_blocked a" "\<not> at_destroyed a"
    and "wh_type h = ''attach''" "wh_generation h = Some g" "wh_sequence h = Some q" "wh_requestId h = Some r"
    and "oldest_sequence st - 1 \<le> q"
    and "\<forall>e \<in> set (ws_replay st). \<not> isl (encodeWorkerFrame render (fst (event_frame e)) (snd (event_frame e)))"
    and "\<not> isl (encodeWorkerFrame render (attach_result r ''complete'' (g, int (length ps))) [])"
  shows "\<exists>es. written_to k (snd (server_handle render (\<lambda>_. True) fresh k (h, p) st))
      = written_to k st @ [(attach_result r ''complete'' (g, int (length ps)), [])] @ map event_frame es
    \<and> map we_sequence es = [q + 1 .. int (length ps)] \<and> (\<forall>e \<in> set es. event_ok g ps e)"
proof -
  note s = server_okD [OF server_reach_ok [OF assms(1)]]
  let ?es = "filter (\<lambda>e. we_sequence e > q) (ws_replay st)" and ?h = "attach_result r ''complete'' (g, int (length ps))"
  let ?a = "a\<lparr>at_requiresResync := False, at_written := at_written a @ [(?h, [])]\<rparr>"
  have "just_write render (\<lambda>_. True) ?h [] (a\<lparr>at_requiresResync := False\<rparr>) = (ok (), ?a)"
    using socket_write_sent [of "a\<lparr>at_requiresResync := False\<rparr>" render ?h "[]"] assms(5,12) by (simp add: just_write_def)
  moreover have "send_replay render (\<lambda>_. True) ?es ?a = (ok (), ?a\<lparr>at_written := at_written ?a @ map event_frame ?es\<rparr>)"
    by (rule send_replay_sent) (use assms in auto)
  ultimately have "written_to k (snd (server_handle render (\<lambda>_. True) fresh k (h, p) st)) = written_to k st @ [(?h, [])] @ map event_frame ?es"
    using assms s(1,4) by (simp add: server_handle_def attachReplay_def Let_def on_attachment_def written_to_def map_get_set)
  moreover have "map we_sequence ?es = filter (\<lambda>k. k > q) (map we_sequence (ws_replay st))" by (simp add: filter_map o_def)
  then have "map we_sequence ?es = [max (int (length ps) + 1 - int (length (ws_replay st))) (q + 1) .. int (length ps)]"
    using s(5) by (simp add: replay_ok_def filter_upto)
  moreover have "max (int (length ps) + 1 - int (length (ws_replay st))) (q + 1) = q + 1"
  proof -
    have "oldest_sequence st = int (length ps) + 1 - int (length (ws_replay st))"
      using s(3,5) by (cases "ws_replay st") (auto simp: oldest_sequence_def replay_ok_def upto_rec1 split: if_splits)
    then show ?thesis using assms(10) by simp
  qed
  moreover have "\<forall>e \<in> set ?es. event_ok g ps e" using s(5) by (simp add: replay_ok_def)
  ultimately show ?thesis by (intro exI [of _ ?es]) simp
qed

text \<open>C38. The client drops every event of a complete replay: the answer to the attach moves its cursor to the end of the
  stream before the replayed events arrive, and an event that is not past the cursor is not handed to the
  listeners.\<close>

theorem complete_replay_dropped:
  assumes "r \<in> set (wc_pending c)" and "r \<noteq> []" and "\<forall>e \<in> set es. event_ok g ps e"
  shows "wc_delivered (fold client_handle ((attach_result r replay (g, int (length ps)), []) # map event_frame es) c) = wc_delivered c"
proof -
  let ?c = "client_handle (attach_result r replay (g, int (length ps)), []) c"
  have c: "wc_cursor ?c = (g, int (length ps))" "wc_delivered ?c = wc_delivered c"
    using assms(1,2) by (simp_all add: client_handle_def attach_result_def stamp_def bare_def cursorFrom_def Let_def)
  have "client_handle (event_frame e) x = x" if "event_ok g ps e" "wc_cursor x = (g, int (length ps))" for e x
    using that by (simp add: client_handle_def event_frame_def bare_def cursorFrom_def Let_def event_ok_def published_def)
  then have "fold client_handle (map event_frame es) x = x" if "wc_cursor x = (g, int (length ps))" for x
    using assms(3) that by (induction es) auto
  then show ?thesis using c by simp
qed

section \<open>Snapshots\<close>

lemma send_chunks_sent:
  assumes "\<not> at_destroyed a" and "send_chunks render (\<lambda>_. True) r n i cs a = (Inr x, a')"
  shows "x \<and> at_written a' = at_written a @ map (\<lambda>(i, c). piece_frame r n i c) (enumerate i cs) \<and> \<not> at_destroyed a'"
  using assms
proof (induction cs arbitrary: i a)
  case (Cons c cs)
  let ?h = "(bare ''snapshot_chunk'')\<lparr>wh_requestId := Some r, wh_index := Some (int i), wh_chunks := Some (int n)\<rparr>"
  have "\<not> isl (encodeWorkerFrame render ?h c)" using Cons.prems by (auto simp: socket_write_def split: sum.splits)
  then have w: "socket_write render (\<lambda>_. True) ?h c a = (ok True, a\<lparr>at_written := at_written a @ [piece_frame r n i c]\<rparr>)"
    using socket_write_sent Cons.prems(1) by (simp add: piece_frame_def)
  show ?case using Cons.IH [of "a\<lparr>at_written := at_written a @ [piece_frame r n i c]\<rparr>" "Suc i"] Cons.prems w by simp
qed simp

lemma just_write_sent:
  assumes "\<not> at_destroyed a" and "just_write render (\<lambda>_. True) h p a = (Inr u, a')"
  shows "a' = a\<lparr>at_written := at_written a @ [(h, p)]\<rparr>"
  using assms by (auto simp: just_write_def socket_write_def Let_def split: sum.splits)

lemma concat_pieces: "concat (map (\<lambda>i. take cb (drop (i * cb) s)) [0 ..< m]) = take (m * cb) s"
proof (induction m)
  case (Suc m)
  have "Suc m * cb = m * cb + cb" by simp
  then show ?case unfolding take_add using Suc by (simp only: take_add upt_Suc_append le0 map_append concat_append) simp
qed simp

lemma snapshot_pieces_concat: "0 < cb \<Longrightarrow> concat (snapshot_pieces cb s) = s"
proof -
  assume "0 < cb"
  then have "length s \<le> (length s + cb - 1) div cb * cb"
    using div_mult_mod_eq [of "length s + cb - 1" cb] mod_less_divisor [of cb "length s + cb - 1"] by linarith
  then have "length s \<le> max 1 ((length s + cb - 1) div cb) * cb" by (meson le_trans max.cobounded2 mult_le_mono1)
  then show ?thesis by (simp add: snapshot_pieces_def concat_pieces)
qed

lemma handle_pieces:
  assumes "map_get (wc_snapshots c) r = Some s" and "length (sa_chunks s) = i"
  shows "fold client_handle (map (\<lambda>(i, c). piece_frame r n i c) (enumerate i ps)) c
    = (if ps = [] then c else c\<lparr>wc_snapshots := map_set r (s\<lparr>sa_chunks := sa_chunks s @ map Some ps\<rparr>) (wc_snapshots c)\<rparr>)"
  using assms
proof (induction ps arbitrary: i c s)
  case (Cons p ps)
  let ?s = "s\<lparr>sa_chunks := sa_chunks s @ [Some p]\<rparr>"
  let ?c = "c\<lparr>wc_snapshots := map_set r ?s (wc_snapshots c)\<rparr>"
  have h: "client_handle (piece_frame r n i p) c = ?c"
    using Cons.prems by (simp add: client_handle_def piece_frame_def bare_def Let_def put_chunk_def)
  have "fold client_handle (map (\<lambda>(i, c). piece_frame r n i c) (enumerate (Suc i) ps)) ?c
    = (if ps = [] then ?c else ?c\<lparr>wc_snapshots := map_set r (?s\<lparr>sa_chunks := sa_chunks ?s @ map Some ps\<rparr>) (wc_snapshots ?c)\<rparr>)"
    by (rule Cons.IH) (use Cons.prems in \<open>simp_all add: map_get_set\<close>)
  then show ?case using h by (cases ps) (simp_all add: update_triv)
qed simp

text \<open>C39. A snapshot that the server sends in full reaches the client that waits for it byte for byte, whatever the size
  of the chunks.\<close>

theorem snapshot_arrives_whole:
  assumes "sendSnapshot render (\<lambda>_. True) opt r s (g, n) a = (Inr u, a')" and "\<not> at_destroyed a" and "r \<in> set (wc_waiters c)"
  shows "\<exists>fs. at_written a' = at_written a @ fs
    \<and> wc_snapshotAnswers (fold client_handle fs c) = wc_snapshotAnswers c @ [(r, Some s)]
    \<and> wc_cursor (fold client_handle fs c) = (g, n)"
proof -
  let ?cb = "snapshot_chunk_bytes opt"
  let ?ps = "snapshot_pieces ?cb s"
  let ?b = "(snapshot_begin r (length ?ps) (length s) (g, n), [])"
  let ?e = "(stamp (g, n) ((bare ''snapshot_end'')\<lparr>wh_requestId := Some r\<rparr>), [])"
  let ?m = "map (\<lambda>(i, c). piece_frame r (length ?ps) i c) (enumerate 0 ?ps)"
  obtain a1 where 1: "just_write render (\<lambda>_. True) (fst ?b) [] a = (Inr (), a1)"
    using assms(1) by (auto simp: sendSnapshot_def Let_def split: prod.splits sum.splits)
  obtain x a2 where 2: "send_chunks render (\<lambda>_. True) r (length ?ps) 0 ?ps a1 = (Inr x, a2)"
    using assms(1) 1 by (auto simp: sendSnapshot_def Let_def split: prod.splits sum.splits)
  note w1 = just_write_sent [OF assms(2) 1]
  have w2: "x" "at_written a2 = at_written a1 @ ?m" "\<not> at_destroyed a2"
    using send_chunks_sent [OF _ 2] w1 assms(2) by simp_all
  obtain a3 where 3: "just_write render (\<lambda>_. True) (fst ?e) [] a2 = (Inr (), a3)" "a' = a3\<lparr>at_requiresResync := False\<rparr>"
    using assms(1) 1 2 w2(1) by (auto simp: sendSnapshot_def Let_def split: prod.splits sum.splits)
  have written: "at_written a' = at_written a @ ?b # ?m @ [?e]"
    using just_write_sent [OF w2(3) 3(1)] 3(2) w1 w2(2) by simp
  have "0 < ?cb" by (simp add: snapshot_chunk_bytes_def)
  then have whole: "concat ?ps = s" by (rule snapshot_pieces_concat)
  have some: "?ps \<noteq> []" by (simp add: snapshot_pieces_def)
  let ?s = "\<lparr>sa_chunks = [], sa_expectedChunks = int (length ?ps), sa_expectedBytes = int (length s)\<rparr>"
  let ?c1 = "c\<lparr>wc_snapshots := map_set r ?s (wc_snapshots c)\<rparr>"
  let ?c2 = "?c1\<lparr>wc_snapshots := map_set r (?s\<lparr>sa_chunks := map Some ?ps\<rparr>) (wc_snapshots ?c1)\<rparr>"
  have "client_handle ?b c = ?c1"
    by (simp add: client_handle_def snapshot_begin_def stamp_def bare_def Let_def)
  moreover have "fold client_handle ?m ?c1 = ?c2"
    using handle_pieces [of ?c1 r ?s 0 "length ?ps" ?ps] some by (simp add: map_get_set)
  moreover have "client_handle ?e ?c2 = snapshot_ended (fst ?e) r (?s\<lparr>sa_chunks := map Some ?ps\<rparr>) ?c2"
    using assms(3) by (simp add: client_handle_def stamp_def bare_def Let_def map_get_set)
  moreover have "wc_snapshotAnswers (snapshot_ended (fst ?e) r (?s\<lparr>sa_chunks := map Some ?ps\<rparr>) ?c2) = wc_snapshotAnswers c @ [(r, Some s)]"
    "wc_cursor (snapshot_ended (fst ?e) r (?s\<lparr>sa_chunks := map Some ?ps\<rparr>) ?c2) = (g, n)"
    using whole by (auto simp: snapshot_ended_def Let_def o_def cursorFrom_def stamp_def)
  ultimately show ?thesis using written by (intro exI [of _ "?b # ?m @ [?e]"]) simp
qed

section \<open>Sample runs\<close>

text \<open>A rendering with headers of no length; the text of a header plays no part here.\<close>

lemma encode_blank: "length p \<le> 100 \<Longrightarrow> \<exists>bs. encodeWorkerFrame (\<lambda>_. []) h p = Inr bs"
  by (simp add: encodeWorkerFrame_def DEFAULT_MAX_HEADER_BYTES_def DEFAULT_MAX_PAYLOAD_BYTES_def)

lemma write_blank:
  "length p \<le> 100 \<Longrightarrow> \<not> at_destroyed a \<Longrightarrow>
     socket_write (\<lambda>_. []) (\<lambda>_. True) h p a = (ok True, a\<lparr>at_written := at_written a @ [(h, p)]\<rparr>)"
  using encode_blank [of p h] socket_write_sent [of a "\<lambda>_. []" h p] by auto

definition demo_auth :: frame where
  "demo_auth = ((bare ''auth'')\<lparr>wh_token := Some ''tok''\<rparr>, [])"

definition demo_attachment :: attachment where
  "demo_attachment = new_attachment\<lparr>at_authenticated := True, at_written := [(stamp (7, 0) (bare ''auth_ok''), [])]\<rparr>"

definition demo_worker :: worker_server where
  "demo_worker = (new_server 7 ''tok'')\<lparr>ws_attachments := [(''a'', demo_attachment)]\<rparr>"

definition demo_event :: wevent where
  "demo_event = \<lparr>we_generation = 7, we_sequence = 1, we_eventType = ''tick'', we_payload = [5]\<rparr>"

definition demo_worker' :: worker_server where
  "demo_worker' = demo_worker\<lparr>ws_sequence := 1, ws_replay := [demo_event],
     ws_attachments := [(''a'', demo_attachment\<lparr>at_written := at_written demo_attachment @ [event_frame demo_event]\<rparr>)]\<rparr>"

abbreviation blank_step :: "server_call \<Rightarrow> worker_server \<Rightarrow> worker_server" where
  "blank_step \<equiv> server_step (\<lambda>_. []) (\<lambda>_. True) 4096 None"

lemma demo_steps:
  "blank_step (Handle ''x'' ''a'' demo_auth) (blank_step (Accept ''a'') (new_server 7 ''tok'')) = demo_worker"
  "blank_step (Publish ''tick'' [5]) demo_worker = demo_worker'"
  by (simp_all add: server_step_def server_accept_def server_handle_def on_attachment_def demo_auth_def bare_def new_server_def
      new_attachment_def just_write_def write_blank demo_worker_def demo_attachment_def server_cursor_def stamp_def Let_def
      publish_def next_event_def sendEvent_def demo_worker'_def demo_event_def event_frame_def take_last_def)

lemma demo_reach:
  "server_reach (\<lambda>_. []) (\<lambda>_. True) 4096 None 7 ''tok'' [] demo_worker"
  "server_reach (\<lambda>_. []) (\<lambda>_. True) 4096 None 7 ''tok'' [(''tick'', [5])] demo_worker'"
proof -
  note r = server_reach.start [of "\<lambda>_. []" "\<lambda>_. True" 4096 None 7 "''tok''"]
  have "server_reach (\<lambda>_. []) (\<lambda>_. True) 4096 None 7 ''tok'' [] (blank_step (Accept ''a'') (new_server 7 ''tok''))"
    using server_reach.call [OF r, of "Accept ''a''"] by (simp add: fresh_accept_def new_server_def published_by_def)
  from server_reach.call [OF this, of "Handle ''x'' ''a'' demo_auth"]
  show w: "server_reach (\<lambda>_. []) (\<lambda>_. True) 4096 None 7 ''tok'' [] demo_worker"
    by (simp add: fresh_accept_def published_by_def demo_steps)
  from server_reach.call [OF this, of "Publish ''tick'' [5]"]
  show "server_reach (\<lambda>_. []) (\<lambda>_. True) 4096 None 7 ''tok'' [(''tick'', [5])] demo_worker'"
    by (simp add: fresh_accept_def published_by_def demo_steps)
qed


lemma worker_events_in_order_witness:
  "\<exists>s. connection_reach (\<lambda>_. []) (\<lambda>_. True) 4096 None 7 ''tok'' ''a'' [(''tick'', [5])] s
     \<and> wc_delivered (cn_client s) = [(''tick'', (7, 1), [5])] \<and> published [(''tick'', [5])] 1 ''tick'' [5]"
proof -
  let ?reach = "connection_reach (\<lambda>_. []) (\<lambda>_. True) 4096 None 7 ''tok'' ''a''"
  have "?reach [] \<lparr>cn_server = blank_step (Accept ''a'') (new_server 7 ''tok''), cn_client = new_client, cn_read = 0\<rparr>"
    by (rule connection_reach.connect [OF server_reach.start]) (simp add: fresh_accept_def new_server_def)
  from connection_reach.server [OF this, of "Handle ''x'' ''a'' demo_auth"]
  have "?reach [] \<lparr>cn_server = demo_worker, cn_client = new_client, cn_read = 0\<rparr>"
    by (simp add: fresh_accept_def published_by_def demo_steps)
  from connection_reach.server [OF this, of "Publish ''tick'' [5]"]
  have "?reach [(''tick'', [5])] \<lparr>cn_server = demo_worker', cn_client = new_client, cn_read = 0\<rparr>"
    by (simp add: fresh_accept_def published_by_def demo_steps)
  note r0 = this
  let ?w = "[(stamp (7, 0) (bare ''auth_ok''), []), event_frame demo_event]"
  have w: "written_to ''a'' demo_worker' = ?w" by (simp add: written_to_def demo_worker'_def demo_attachment_def)
  let ?c = "client_handle (event_frame demo_event) (client_handle (stamp (7, 0) (bare ''auth_ok''), []) new_client)"
  have "?reach [(''tick'', [5])] \<lparr>cn_server = demo_worker', cn_client = client_handle (stamp (7, 0) (bare ''auth_ok''), []) new_client, cn_read = 1\<rparr>"
    using connection_reach.read [OF r0] w by simp
  from connection_reach.read [OF this]
  have s: "?reach [(''tick'', [5])] \<lparr>cn_server = demo_worker', cn_client = ?c, cn_read = 2\<rparr>" using w by (simp add: numeral_2_eq_2)
  have "wc_delivered ?c = [(''tick'', (7, 1), [5])]"
    by (simp add: client_handle_def stamp_def bare_def event_frame_def demo_event_def Let_def cursorFrom_def new_client_def)
  then show ?thesis using s worker_events_in_order [OF s] by auto
qed

lemma attach_replays_exactly_witness:
  "\<exists>es. written_to ''a'' (snd (server_handle (\<lambda>_. []) (\<lambda>_. True) ''x'' ''a''
       ((bare ''attach'')\<lparr>wh_requestId := Some ''r'', wh_generation := Some 7, wh_sequence := Some 0\<rparr>, []) demo_worker'))
      = written_to ''a'' demo_worker' @ [(attach_result ''r'' ''complete'' (7, 1), [])] @ map event_frame es
    \<and> map we_sequence es = [1]"
proof -
  have f: "\<not> isl (encodeWorkerFrame (\<lambda>_. []) h p)" if "length p \<le> 100" for h p
    using encode_blank [OF that, of h] by auto
  have "\<exists>es. written_to ''a'' (snd (server_handle (\<lambda>_. []) (\<lambda>_. True) ''x'' ''a''
       ((bare ''attach'')\<lparr>wh_requestId := Some ''r'', wh_generation := Some 7, wh_sequence := Some 0\<rparr>, []) demo_worker'))
      = written_to ''a'' demo_worker' @ [(attach_result ''r'' ''complete'' (7, int (length [(''tick'', [5 :: byte])])), [])] @ map event_frame es
    \<and> map we_sequence es = [0 + 1 .. int (length [(''tick'', [5 :: byte])])] \<and> (\<forall>e \<in> set es. event_ok 7 [(''tick'', [5])] e)"
    by (rule attach_replays_exactly [OF demo_reach(2), where a = "demo_attachment\<lparr>at_written := at_written demo_attachment @ [event_frame demo_event]\<rparr>"])
      (simp_all add: demo_worker'_def demo_attachment_def new_attachment_def bare_def oldest_sequence_def demo_event_def event_frame_def f)
  then show ?thesis by auto
qed

lemma complete_replay_dropped_witness:
  "\<exists>c. ''r'' \<in> set (wc_pending c) \<and> wc_delivered (fold client_handle
       ((attach_result ''r'' ''complete'' (7, 1), []) # map event_frame [demo_event]) c) = []"
proof -
  let ?c = "client_call (WaitFor ''r'') new_client"
  have e: "\<forall>e \<in> set [demo_event]. event_ok 7 [(''tick'', [5])] e" by (simp add: event_ok_def demo_event_def published_def)
  have p: "''r'' \<in> set (wc_pending ?c)" by (simp add: client_call_def)
  from complete_replay_dropped [OF p _ e, of "''complete''"] p show ?thesis
    by (intro exI [of _ ?c]) (simp add: new_client_def)
qed

lemma snapshot_arrives_whole_witness:
  "\<exists>a'. sendSnapshot (\<lambda>_. []) (\<lambda>_. True) None ''r'' [1, 2] (7, 1) demo_attachment = (Inr (), a')
     \<and> (\<exists>fs. at_written a' = at_written demo_attachment @ fs
        \<and> wc_snapshotAnswers (fold client_handle fs (client_call (WaitForSnapshot ''r'') new_client)) = [(''r'', Some [1, 2])])"
proof -
  have pieces: "snapshot_pieces (snapshot_chunk_bytes None) [1, 2] = [[1, 2]]"
    by (simp add: snapshot_pieces_def snapshot_chunk_bytes_def)
  let ?s = "sendSnapshot (\<lambda>_. []) (\<lambda>_. True) None ''r'' [1, 2] (7, 1) demo_attachment"
  have "fst ?s = Inr ()"
    by (simp add: sendSnapshot_def pieces Let_def just_write_def write_blank demo_attachment_def new_attachment_def)
  then have s: "?s = (Inr (), snd ?s)" by (metis prod.collapse)
  have "\<not> at_destroyed demo_attachment" "''r'' \<in> set (wc_waiters (client_call (WaitForSnapshot ''r'') new_client))"
    by (simp_all add: demo_attachment_def new_attachment_def client_call_def)
  from snapshot_arrives_whole [OF s this] s show ?thesis by (auto simp: client_call_def new_client_def)
qed

end
