(* ===== verification/Tally.thy ===== *)
theory Tally
  imports Results JsText
begin

text \<open>
  What the governance services share: counting by key in a \<^verbatim>\<open>Map\<close> or an object, the ten most frequent
  keys of a report, and \<^verbatim>\<open>toUpperCase\<close>.
\<close>

text \<open>\<^verbatim>\<open>toUpperCase\<close>; the micro sign and the y with diaeresis, whose capitals are not below 256, stay.\<close>

definition js_upper_char :: "char \<Rightarrow> string" where
  "js_upper_char c = (let n = (of_char c :: nat) in
     if n = 223 then ''SS''
     else if (97 \<le> n \<and> n \<le> 122) \<or> (224 \<le> n \<and> n \<le> 254 \<and> n \<noteq> 247) then [char_of (n - 32)] else [c])"

definition js_upper :: "string \<Rightarrow> string" where
  "js_upper s = concat (map js_upper_char s)"

text \<open>\<^verbatim>\<open>m.set(k, (m.get(k) ?? 0) + 1)\<close> for each key in turn.\<close>

definition count_in :: "'k \<Rightarrow> ('k, nat) js_map \<Rightarrow> ('k, nat) js_map" where
  "count_in k m = map_set k (or_else (map_get m k) 0 + 1) m"

definition tally :: "'k list \<Rightarrow> ('k, nat) js_map" where
  "tally ks = fold count_in ks []"

text \<open>\<^verbatim>\<open>.sort((a, b) => b.count - a.count).slice(0, 10)\<close>\<close>

definition top_ten :: "('k, nat) js_map \<Rightarrow> ('k, nat) js_map" where
  "top_ten m = take 10 (sort_key (\<lambda>(k, n). - int n) m)"

lemma fold_count_in: "map_get (fold count_in ks m) k
    = (if k \<in> set ks \<or> map_get m k \<noteq> None then Some (or_else (map_get m k) 0 + count_list ks k) else None)"
proof (induction ks arbitrary: m)
  case (Cons x ks)
  then show ?case by (simp add: count_in_def js_simps)
next
  case Nil
  then show ?case by (cases "map_get m k") simp_all
qed

lemma tally_get: "map_get (tally ks) k = (if k \<in> set ks then Some (count_list ks k) else None)"
  by (simp add: tally_def fold_count_in)

lemma tally_distinct: "distinct (map fst (tally ks))"
proof -
  have "distinct (map fst m) \<Longrightarrow> distinct (map fst (fold count_in ks m))" for m
    by (induction ks arbitrary: m) (simp_all add: count_in_def distinct_update)
  then show ?thesis by (simp add: tally_def)
qed

text \<open>What an update of the first match leaves in place.\<close>

lemma map_update_first_if: "(\<And>x. p x \<Longrightarrow> g (f x) = g x) \<Longrightarrow> map g (update_first p f xs) = map g xs"
  by (induction xs) auto

lemma update_first_hit: "List.find p xs = Some x \<Longrightarrow> f x \<in> set (update_first p f xs)"
  by (induction xs) (auto split: if_splits)

lemma update_first_kept: "List.find p xs = Some x \<Longrightarrow> y \<in> set xs \<Longrightarrow> y \<noteq> x \<Longrightarrow> y \<in> set (update_first p f xs)"
  by (induction xs) (auto split: if_splits)

lemma map_update_found: "List.find p xs = Some x \<Longrightarrow> g (f x) = g x \<Longrightarrow> map g (update_first p f xs) = map g xs"
  by (induction xs) (auto split: if_splits)

lemma find_update_found: "List.find p xs = Some x \<Longrightarrow> p (f x) \<Longrightarrow> List.find p (update_first p f xs) = Some (f x)"
  by (induction xs) (auto split: if_splits)

text \<open>A report never overstates: what it lists was counted, and nothing it leaves out was counted more often.\<close>

lemma top_ten_sound: "(k, n) \<in> set (top_ten (tally ks)) \<Longrightarrow> k \<in> set ks \<and> n = count_list ks k"
proof -
  assume "(k, n) \<in> set (top_ten (tally ks))"
  then have "(k, n) \<in> set (tally ks)" by (auto simp: top_ten_def dest: in_set_takeD)
  then have "map_get (tally ks) k = Some n" using tally_distinct [of ks] by (simp add: map_of_eq_Some_iff)
  then show ?thesis by (auto simp: tally_get split: if_splits)
qed

end
