(* ===== verification/RiskAnalyzer.thy ===== *)
theory RiskAnalyzer
  imports PolicyStack Tally
begin

text \<open>
  The risk analyzer, \<^verbatim>\<open>policy/risk-analyzer.ts\<close>: the destructive patterns of a tenant (eighteen built-in
  rules and its own), the confirmation policy, the assessment of a capability call and the log of
  assessments, in a durable state. Testing a pattern is the parameter \<open>hit pattern text\<close>, whether an
  expression compiles \<open>compiles\<close>, the text of a number \<open>num\<close>, the SHA digest of the arguments \<open>digest\<close>
  and \<^verbatim>\<open>localeCompare\<close> the rank of a string.
\<close>

section \<open>Data\<close>

text \<open>\<^verbatim>\<open>RiskLevel\<close> and its order are in theory PolicyStack.\<close>

datatype confirmation_mode = ConfirmNever | ConfirmCritical | ConfirmHigh | ConfirmMedium | ConfirmAll

record risk_rule =
  rr_id :: string
  rr_tenantId :: string
  rr_code :: string
  rr_description :: string
  rr_level :: risk_level
  rr_pattern :: string
  rr_applies :: "string list"
  rr_builtin :: bool
  rr_enabled :: bool
  rr_createdAt :: msec

record risk_assessment =
  ra_id :: id
  ra_tenantId :: string
  ra_sessionId :: "string option"
  ra_capabilityId :: string
  ra_declaredRisk :: capability_risk
  ra_level :: risk_level
  ra_score :: rat
  ra_requiresConfirmation :: bool
  ra_matchedRules :: "(string \<times> risk_level \<times> string) list"
  ra_reasons :: "string list"
  ra_argumentDigest :: string
  ra_zoneHint :: nat
  ra_assessedAt :: msec

record confirmation_policy =
  cp_tenantId :: string
  cp_mode :: confirmation_mode
  cp_autoDenyCritical :: bool
  cp_updatedAt :: msec

record risk_state =
  rs_rules :: "risk_rule list"
  rs_assessments :: "risk_assessment list"
  rs_policies :: "confirmation_policy list"

definition no_risks :: risk_state where
  "no_risks = \<lparr>rs_rules = [], rs_assessments = [], rs_policies = []\<rparr>"

definition MAX_ASSESSMENTS :: nat where "MAX_ASSESSMENTS = 100000"

definition MAX_RISK_RULES :: nat where "MAX_RISK_RULES = 500"

datatype risk_error = RiskText aurora_error | RiskLimit | RiskCodeTaken | BadPattern | RiskNotFound | CriticalStaysOn

definition level_score :: "risk_level \<Rightarrow> rat" where
  "level_score l = (case l of LevelLow \<Rightarrow> 15 / 100 | LevelMedium \<Rightarrow> 45 / 100 | LevelHigh \<Rightarrow> 75 / 100 | LevelCritical \<Rightarrow> 95 / 100)"

definition risk_baseline :: "capability_risk \<Rightarrow> risk_level" where
  "risk_baseline r = (case r of Pure \<Rightarrow> LevelLow | WorkspaceRead \<Rightarrow> LevelLow | WorkspaceWrite \<Rightarrow> LevelMedium
     | Process \<Rightarrow> LevelHigh | Network \<Rightarrow> LevelMedium | ExternalSideEffect \<Rightarrow> LevelHigh | Privileged \<Rightarrow> LevelHigh)"

definition show_level :: "risk_level \<Rightarrow> string" where
  "show_level l = (case l of LevelLow \<Rightarrow> ''low'' | LevelMedium \<Rightarrow> ''medium'' | LevelHigh \<Rightarrow> ''high'' | LevelCritical \<Rightarrow> ''critical'')"

definition show_risk :: "capability_risk \<Rightarrow> string" where
  "show_risk r = (case r of Pure \<Rightarrow> ''pure'' | WorkspaceRead \<Rightarrow> ''workspace_read'' | WorkspaceWrite \<Rightarrow> ''workspace_write''
     | Process \<Rightarrow> ''process'' | Network \<Rightarrow> ''network'' | ExternalSideEffect \<Rightarrow> ''external_side_effect'' | Privileged \<Rightarrow> ''privileged'')"

section \<open>The built-in rules\<close>

text \<open>The expressions are spelled with a per cent sign for the backslash; none of them has a per cent sign.\<close>

definition expression :: "string \<Rightarrow> string" where
  "expression s = map (\<lambda>c. if c = CHR ''%'' then char_of (92 :: nat) else c) s"

definition builtin_rules :: "(string \<times> string \<times> risk_level \<times> string) list" where
  "builtin_rules = map (\<lambda>(code, text, level, pattern). (code, text, level, expression pattern))
    [(''RM-RECURSIVE-ROOT'', ''Recursive delete of a root or home path.'', LevelCritical,
        ''rm%s+(-[a-z]*r[a-z]*f|-[a-z]*f[a-z]*r)%s+(/|~|%$HOME)(%s|$)''),
     (''RM-RECURSIVE'', ''Recursive force delete.'', LevelHigh, ''rm%s+-[a-z]*r[a-z]*f''),
     (''DISK-WIPE'', ''Direct block-device write or filesystem format.'', LevelCritical,
        ''%b(mkfs(%.[a-z0-9]+)?|dd%s+if=[^%s]+%s+of=/dev/)%b''),
     (''FORK-BOMB'', ''Fork bomb or unbounded process spawn.'', LevelCritical, '':%(%)%s*%{%s*:%|:&%s*%};:''),
     (''GIT-FORCE-PUSH'', ''Force push rewrites remote history.'', LevelHigh, ''git%s+push%b[^%n]*%s(--force|-f)%b''),
     (''GIT-HARD-RESET'', ''Hard reset discards uncommitted work.'', LevelMedium, ''git%s+reset%s+--hard%b''),
     (''GIT-CLEAN'', ''git clean removes untracked files permanently.'', LevelMedium, ''git%s+clean%s+-[a-z]*f''),
     (''SQL-DROP'', ''Destructive SQL schema or table removal.'', LevelCritical,
        ''%b(DROP%s+(DATABASE|SCHEMA|TABLE)|TRUNCATE%s+TABLE)%b''),
     (''SQL-UNSCOPED-DELETE'', ''DELETE or UPDATE without a WHERE clause.'', LevelHigh,
        ''%b(DELETE%s+FROM|UPDATE)%s+[a-z_.\"`%[%]]+%s*(;|$)''),
     (''CURL-PIPE-SHELL'', ''Remote script piped straight into a shell.'', LevelCritical,
        ''%b(curl|wget)%b[^%n|]*%|%s*(sudo%s+)?(ba|z|k|)sh%b''),
     (''PRIVILEGE-ESCALATION'', ''Privilege escalation via sudo/su/chmod 777.'', LevelHigh,
        ''%b(sudo%s+-i|sudo%s+su|chmod%s+(-R%s+)?777)%b''),
     (''CREDENTIAL-READ'', ''Reads a well-known credential store.'', LevelHigh,
        ''(%.ssh/id_[a-z0-9]+|%.aws/credentials|%.netrc|/etc/shadow|%.env(%.|$)|id_rsa)''),
     (''CREDENTIAL-EXFIL'', ''Sends secret-looking material to the network.'', LevelCritical,
        ''(api[_-]?key|secret|token|password)[^%n]{0,40}(curl|wget|fetch|requests%.post|http[s]?://)''),
     (''PACKAGE-GLOBAL-INSTALL'', ''Global package installation changes the host toolchain.'', LevelMedium,
        ''%b(npm%s+i(nstall)?%s+-g|pip%s+install%s+--(user|break-system-packages)|apt(-get)?%s+install)%b''),
     (''PROCESS-KILL-ALL'', ''Mass process termination.'', LevelHigh, ''%b(killall|pkill%s+-9|kill%s+-9%s+-1)%b''),
     (''CRON-TAMPER'', ''Modifies scheduled jobs on the host.'', LevelHigh, ''%b(crontab%s+-r|systemctl%s+(disable|mask))%b''),
     (''HISTORY-TAMPER'', ''Attempts to erase audit or history trails.'', LevelCritical, ''%b(history%s+-c|shred%s+|>%s*/var/log/)''),
     (''MASS-EMAIL'', ''Bulk outbound messaging.'', LevelHigh, ''%b(sendmail|mailx|smtplib)%b[^%n]{0,80}%b(all|bulk|list)%b'')]"

definition seed_rule :: "msec \<Rightarrow> string \<Rightarrow> string \<times> string \<times> risk_level \<times> string \<Rightarrow> risk_rule" where
  "seed_rule now tenant b = (case b of (code, text, level, pattern) \<Rightarrow>
     \<lparr>rr_id = ''risk-rule-'' @ tenant @ ''-'' @ js_lower code, rr_tenantId = tenant, rr_code = code, rr_description = text,
      rr_level = level, rr_pattern = pattern, rr_applies = [], rr_builtin = True, rr_enabled = True, rr_createdAt = now\<rparr>)"

definition risk_seed :: "msec \<Rightarrow> string \<Rightarrow> risk_state \<Rightarrow> risk_state" where
  "risk_seed now tenant st =
     (if list_ex (\<lambda>r. rr_tenantId r = tenant \<and> rr_builtin r) (rs_rules st) then st
      else st\<lparr>rs_rules := rs_rules st @ map (seed_rule now tenant) builtin_rules\<rparr>)"

section \<open>Rules and the confirmation policy\<close>

definition risk_rules :: "(string \<Rightarrow> nat) \<Rightarrow> msec \<Rightarrow> string \<Rightarrow> risk_state \<Rightarrow> risk_rule list \<times> risk_state" where
  "risk_rules rank now tenant st =
     (let st = risk_seed now tenant st
      in (sort_key (\<lambda>r. - int (level_order (rr_level r))) (sort_key (\<lambda>r. rank (rr_code r))
            (filter (\<lambda>r. rr_tenantId r = tenant) (rs_rules st))), st))"

record rule_input =
  ri_code :: string
  ri_description :: string
  ri_level :: risk_level
  ri_pattern :: string
  ri_applies :: "string list option"

definition new_risk_rule :: "(string \<Rightarrow> bool) \<Rightarrow> id \<Rightarrow> msec \<Rightarrow> string \<Rightarrow> rule_input \<Rightarrow> risk_rule list \<Rightarrow> (risk_error, risk_rule) result" where
  "new_risk_rule compiles fresh now tenant i rules =
     (if length (filter (\<lambda>r. rr_tenantId r = tenant) rules) \<ge> MAX_RISK_RULES then throw RiskLimit
      else
        bind_ok (lift_error RiskText (auroraText (ri_code i) 60 ''Risk rule code'')) (\<lambda>c.
          let code = js_upper c in
          if list_ex (\<lambda>r. rr_tenantId r = tenant \<and> rr_code r = code) rules then throw RiskCodeTaken
          else
            bind_ok (lift_error RiskText (auroraText (ri_pattern i) 2000 ''Risk rule pattern'')) (\<lambda>pattern.
            if \<not> compiles pattern then throw BadPattern
            else
              bind_ok (lift_error RiskText (auroraText (ri_description i) 1000 ''Risk rule description'')) (\<lambda>text.
              bind_ok (lift_error RiskText (map_ok (\<lambda>x. auroraText x 200 ''Risk rule capability'') (take 100 (or_else (ri_applies i) [])))) (\<lambda>applies.
                ok \<lparr>rr_id = fresh, rr_tenantId = tenant, rr_code = code, rr_description = text, rr_level = ri_level i,
                    rr_pattern = pattern, rr_applies = applies, rr_builtin = False, rr_enabled = True, rr_createdAt = now\<rparr>)))))"

definition addRule :: "(string \<Rightarrow> bool) \<Rightarrow> id \<Rightarrow> msec \<Rightarrow> string \<Rightarrow> rule_input \<Rightarrow> risk_state \<Rightarrow> (risk_error, risk_rule) result \<times> risk_state" where
  "addRule compiles fresh now tenant i st =
     (let st = risk_seed now tenant st in
      case new_risk_rule compiles fresh now tenant i (rs_rules st) of
        Inl e \<Rightarrow> (throw e, st)
      | Inr r \<Rightarrow> (ok r, st\<lparr>rs_rules := rs_rules st @ [r]\<rparr>))"

definition setRuleEnabled :: "msec \<Rightarrow> string \<Rightarrow> string \<Rightarrow> bool \<Rightarrow> risk_state \<Rightarrow> (risk_error, risk_rule) result \<times> risk_state" where
  "setRuleEnabled now tenant ruleId on st =
     (let st = risk_seed now tenant st;
          this = (\<lambda>r. rr_tenantId r = tenant \<and> (rr_id r = ruleId \<or> rr_code r = js_upper ruleId))
      in case List.find this (rs_rules st) of
           None \<Rightarrow> (throw RiskNotFound, st)
         | Some r \<Rightarrow>
             if rr_builtin r \<and> rr_level r = LevelCritical \<and> \<not> on then (throw CriticalStaysOn, st)
             else (ok (r\<lparr>rr_enabled := on\<rparr>), st\<lparr>rs_rules := update_first this (\<lambda>r. r\<lparr>rr_enabled := on\<rparr>) (rs_rules st)\<rparr>))"

definition mutablePolicy :: "msec \<Rightarrow> string \<Rightarrow> risk_state \<Rightarrow> confirmation_policy \<times> risk_state" where
  "mutablePolicy now tenant st =
     (case List.find (\<lambda>p. cp_tenantId p = tenant) (rs_policies st) of
        Some p \<Rightarrow> (p, st)
      | None \<Rightarrow>
          let p = \<lparr>cp_tenantId = tenant, cp_mode = ConfirmHigh, cp_autoDenyCritical = False, cp_updatedAt = now\<rparr>
          in (p, st\<lparr>rs_policies := rs_policies st @ [p]\<rparr>))"

definition setPolicy :: "msec \<Rightarrow> string \<Rightarrow> confirmation_mode \<Rightarrow> bool option \<Rightarrow> risk_state \<Rightarrow> confirmation_policy \<times> risk_state" where
  "setPolicy now tenant mode autoDeny st =
     (case mutablePolicy now tenant st of (p, st) \<Rightarrow>
        let p' = p\<lparr>cp_mode := mode, cp_autoDenyCritical := or_else autoDeny (cp_autoDenyCritical p), cp_updatedAt := now\<rparr>
        in (p', st\<lparr>rs_policies := update_first (\<lambda>q. cp_tenantId q = tenant) (\<lambda>_. p') (rs_policies st)\<rparr>))"

section \<open>Assessment\<close>

text \<open>\<^verbatim>\<open>flattenArguments(args, depth)\<close> with \<open>left = 7 - depth\<close> levels to go.\<close>

fun flattenArguments :: "(rat \<Rightarrow> string) \<Rightarrow> nat \<Rightarrow> json \<Rightarrow> string" where
  "flattenArguments num 0 v = []"
| "flattenArguments num (Suc left) JNull = []"
| "flattenArguments num (Suc left) (JStr s) = take 20000 s"
| "flattenArguments num (Suc left) (JNum n) = num n"
| "flattenArguments num (Suc left) (JBool b) = (if b then ''true'' else ''false'')"
| "flattenArguments num (Suc left) (JArr xs) =
     take 40000 (join ('' '' @ newline @ '' '') (map (flattenArguments num left) (take 200 xs)))"
| "flattenArguments num (Suc left) (JObj kvs) =
     take 40000 (join ('' '' @ newline @ '' '') (map (\<lambda>(k, v). k @ '' '' @ flattenArguments num left v) (take 200 kvs)))"

definition argument_text :: "(rat \<Rightarrow> string) \<Rightarrow> json option \<Rightarrow> string" where
  "argument_text num args = (case args of None \<Rightarrow> [] | Some v \<Rightarrow> flattenArguments num 7 v)"

definition requires_confirmation :: "confirmation_mode \<Rightarrow> risk_level \<Rightarrow> bool" where
  "requires_confirmation mode level =
     (case mode of
        ConfirmAll \<Rightarrow> True
      | ConfirmNever \<Rightarrow> level = LevelCritical
      | ConfirmCritical \<Rightarrow> level_order level \<ge> level_order LevelCritical
      | ConfirmHigh \<Rightarrow> level_order level \<ge> level_order LevelHigh
      | ConfirmMedium \<Rightarrow> level_order level \<ge> level_order LevelMedium)"

definition zoneFor :: "risk_level \<Rightarrow> capability_risk \<Rightarrow> nat" where
  "zoneFor level declared =
     (case level of
        LevelCritical \<Rightarrow> 4
      | LevelHigh \<Rightarrow> 3
      | LevelMedium \<Rightarrow> if declared = WorkspaceWrite then 1 else 2
      | LevelLow \<Rightarrow> if declared = Pure \<or> declared = WorkspaceRead then 0 else 1)"

definition rule_hits :: "(string \<Rightarrow> string \<Rightarrow> bool) \<Rightarrow> string \<Rightarrow> string \<Rightarrow> risk_rule \<Rightarrow> bool" where
  "rule_hits hit capability txt r = ((rr_applies r = [] \<or> capability \<in> set (rr_applies r)) \<and> hit (rr_pattern r) txt)"

text \<open>The loop over the enabled rules of the tenant: the matches, the level and the reasons.\<close>

fun assess_loop ::
    "(string \<Rightarrow> string \<Rightarrow> bool) \<Rightarrow> string \<Rightarrow> string \<Rightarrow> risk_rule list \<Rightarrow> (string \<times> risk_level \<times> string) list \<Rightarrow> risk_level \<Rightarrow> string list
       \<Rightarrow> (string \<times> risk_level \<times> string) list \<times> risk_level \<times> string list" where
  "assess_loop hit capability txt [] matched level reasons = (matched, level, reasons)"
| "assess_loop hit capability txt (r # rs) matched level reasons =
     (if \<not> rule_hits hit capability txt r then assess_loop hit capability txt rs matched level reasons
      else
        let matched' = matched @ [(rr_code r, rr_level r, rr_description r)] in
        if level_order (rr_level r) > level_order level
        then assess_loop hit capability txt rs matched' (rr_level r)
               (reasons @ [''Rule '' @ rr_code r @ '' raised the level to '' @ show_level (rr_level r) @ '': '' @ rr_description r])
        else assess_loop hit capability txt rs matched' level
               (reasons @ [''Rule '' @ rr_code r @ '' matched ('' @ show_level (rr_level r) @ '').'']))"

record assess_input =
  as_tenantId :: string
  as_capabilityId :: string
  as_declaredRisk :: capability_risk
  as_args :: "json option"
  as_sessionId :: "string option"
  as_record :: "bool option"

text \<open>The library functions the analyzer calls.\<close>

record risk_lib =
  lib_hit :: "string \<Rightarrow> string \<Rightarrow> bool"
  lib_num :: "rat \<Rightarrow> string"
  lib_digest :: "json \<Rightarrow> string"

definition args_or_empty :: "json option \<Rightarrow> json" where
  "args_or_empty args = (case args of None \<Rightarrow> JObj [] | Some JNull \<Rightarrow> JObj [] | Some v \<Rightarrow> v)"

definition baseline_reason :: "capability_risk \<Rightarrow> string" where
  "baseline_reason risk = ''Declared capability risk '' @ json_quote (show_risk risk) @ '' implies a ''
     @ show_level (risk_baseline risk) @ '' baseline.''"

definition assess :: "risk_lib \<Rightarrow> id \<Rightarrow> msec \<Rightarrow> assess_input \<Rightarrow> risk_state \<Rightarrow> (risk_error, risk_assessment) result \<times> risk_state" where
  "assess lib fresh now i st =
     (case mutablePolicy now (as_tenantId i) (risk_seed now (as_tenantId i) st) of (policy, st) \<Rightarrow>
      case assess_loop (lib_hit lib) (as_capabilityId i) (argument_text (lib_num lib) (as_args i))
             (filter (\<lambda>r. rr_tenantId r = as_tenantId i \<and> rr_enabled r) (rs_rules st)) [] (risk_baseline (as_declaredRisk i))
             [baseline_reason (as_declaredRisk i)] of (matched, level, reasons) \<Rightarrow>
      case lift_error RiskText (auroraText (as_capabilityId i) 200 ''Capability ID'') of
        Inl e \<Rightarrow> (throw e, st)
      | Inr capability \<Rightarrow>
          let a = \<lparr>ra_id = fresh, ra_tenantId = as_tenantId i, ra_sessionId = given_text (as_sessionId i), ra_capabilityId = capability,
                ra_declaredRisk = as_declaredRisk i, ra_level = level,
                ra_score = to_fixed6 (min 1 (level_score level + min (2 / 10) (of_nat (length matched) * (5 / 100)))),
                ra_requiresConfirmation = requires_confirmation (cp_mode policy) level, ra_matchedRules = matched, ra_reasons = reasons,
                ra_argumentDigest = lib_digest lib (args_or_empty (as_args i)), ra_zoneHint = zoneFor level (as_declaredRisk i),
                ra_assessedAt = now\<rparr>
          in (ok a, if as_record i = Some False then st
                    else st\<lparr>rs_assessments := take_last MAX_ASSESSMENTS (rs_assessments st @ [a])\<rparr>))"

definition assessments :: "string \<Rightarrow> risk_level option \<Rightarrow> int option \<Rightarrow> risk_state \<Rightarrow> (risk_error, risk_assessment list) result" where
  "assessments tenant level lim' st =
     bind_ok (lift_error RiskText (auroraInteger (or_else lim' 100) 1 1000 ''Assessment limit'')) (\<lambda>n.
       ok (take (nat n) (sort_key (\<lambda>a. - ra_assessedAt a)
         (filter (\<lambda>a. ra_tenantId a = tenant \<and> (case level of None \<Rightarrow> True | Some l \<Rightarrow> ra_level a = l)) (rs_assessments st)))))"

record risk_posture =
  po_total :: nat
  po_byLevel :: "(risk_level, nat) js_map"
  po_confirmationRate :: rat
  po_topRules :: "(string, nat) js_map"

definition posture :: "msec \<Rightarrow> string \<Rightarrow> int \<Rightarrow> risk_state \<Rightarrow> (risk_error, risk_posture) result" where
  "posture now tenant windowDays st =
     bind_ok (lift_error RiskText (auroraInteger windowDays 1 365 ''Posture window'')) (\<lambda>days.
       let as = filter (\<lambda>a. ra_tenantId a = tenant \<and> ra_assessedAt a \<ge> now - days * 86400000) (rs_assessments st)
       in ok \<lparr>po_total = length as, po_byLevel = tally (map ra_level as),
              po_confirmationRate = (if as = [] then 0
                else to_fixed6 (of_nat (length (filter ra_requiresConfirmation as)) / of_nat (length as))),
              po_topRules = top_ten (tally (concat (map (\<lambda>a. map fst (ra_matchedRules a)) as)))\<rparr>)"

section \<open>The service\<close>

datatype risk_op =
    RiskRules msec string
  | RiskAdd id msec string rule_input
  | RiskEnable msec string string bool
  | RiskPolicy msec string
  | RiskSetPolicy msec string confirmation_mode "bool option"
  | RiskAssess id msec assess_input

datatype risk_answer = GaveRules "risk_rule list" | GaveRule risk_rule | GavePolicy confirmation_policy | GaveAssessment risk_assessment

definition risk_step ::
    "risk_lib \<Rightarrow> (string \<Rightarrow> nat) \<Rightarrow> (string \<Rightarrow> bool) \<Rightarrow> risk_op \<Rightarrow> risk_state \<Rightarrow> (risk_error, risk_answer) result \<times> risk_state" where
  "risk_step lib rank compiles c st =
     (case c of
        RiskRules now tenant \<Rightarrow> (case risk_rules rank now tenant st of (rs, st) \<Rightarrow> (ok (GaveRules rs), st))
      | RiskAdd fresh now tenant i \<Rightarrow> (case addRule compiles fresh now tenant i st of (r, st) \<Rightarrow> (bind_ok r (\<lambda>x. ok (GaveRule x)), st))
      | RiskEnable now tenant k on \<Rightarrow> (case setRuleEnabled now tenant k on st of (r, st) \<Rightarrow> (bind_ok r (\<lambda>x. ok (GaveRule x)), st))
      | RiskPolicy now tenant \<Rightarrow> (case mutablePolicy now tenant st of (p, st) \<Rightarrow> (ok (GavePolicy p), st))
      | RiskSetPolicy now tenant m d \<Rightarrow> (case setPolicy now tenant m d st of (p, st) \<Rightarrow> (ok (GavePolicy p), st))
      | RiskAssess fresh now i \<Rightarrow> (case assess lib fresh now i st of (r, st) \<Rightarrow> (bind_ok r (\<lambda>x. ok (GaveAssessment x)), st)))"

section \<open>Invariant\<close>

definition risk_seeded :: "string \<Rightarrow> risk_rule list \<Rightarrow> bool" where
  "risk_seeded tenant rules = list_ex (\<lambda>r. rr_tenantId r = tenant \<and> rr_builtin r) rules"

text \<open>The rule that holds the tenant to the critical built-in rule \<open>b\<close>.\<close>

definition floor_rule :: "string \<Rightarrow> string \<times> string \<times> risk_level \<times> string \<Rightarrow> risk_rule \<Rightarrow> bool" where
  "floor_rule tenant b r = (case b of (code, text, level, pattern) \<Rightarrow> rr_tenantId r = tenant \<and> rr_code r = code \<and> rr_description r = text
     \<and> rr_level r = level \<and> rr_pattern r = pattern \<and> rr_applies r = [] \<and> rr_builtin r \<and> rr_enabled r)"

definition critical_builtins :: "(string \<times> string \<times> risk_level \<times> string) list" where
  "critical_builtins = filter (\<lambda>(code, text, level, pattern). level = LevelCritical) builtin_rules"

definition risks_good :: "risk_state \<Rightarrow> bool" where
  "risks_good st \<longleftrightarrow>
     distinct (map (\<lambda>r. (rr_tenantId r, rr_code r)) (rs_rules st))
     \<and> (\<forall>r \<in> set (rs_rules st). risk_seeded (rr_tenantId r) (rs_rules st))
     \<and> (\<forall>t. risk_seeded t (rs_rules st) \<longrightarrow> (\<forall>b \<in> set critical_builtins. \<exists>r \<in> set (rs_rules st). floor_rule t b r))
     \<and> distinct (map cp_tenantId (rs_policies st))
     \<and> length (rs_assessments st) \<le> MAX_ASSESSMENTS"

lemma risks_goodD:
  assumes "risks_good st"
  shows "distinct (map (\<lambda>r. (rr_tenantId r, rr_code r)) (rs_rules st))"
    and "r \<in> set (rs_rules st) \<Longrightarrow> risk_seeded (rr_tenantId r) (rs_rules st)"
    and "risk_seeded t (rs_rules st) \<Longrightarrow> b \<in> set critical_builtins \<Longrightarrow> \<exists>r \<in> set (rs_rules st). floor_rule t b r"
    and "distinct (map cp_tenantId (rs_policies st))" and "length (rs_assessments st) \<le> MAX_ASSESSMENTS"
  using assms by (auto simp: risks_good_def)

lemma risks_good_frame:
  assumes "risks_good st" "rs_rules st' = rs_rules st" "distinct (map cp_tenantId (rs_policies st'))"
    "length (rs_assessments st') \<le> MAX_ASSESSMENTS"
  shows "risks_good st'"
  using assms by (simp add: risks_good_def)

lemma builtin_codes_distinct: "distinct (map fst builtin_rules)"
  by (simp add: builtin_rules_def)

lemma critical_builtin_mem: "b \<in> set critical_builtins \<Longrightarrow> b \<in> set builtin_rules"
  by (auto simp: critical_builtins_def)

lemma seed_rule_floor: "floor_rule tenant b (seed_rule now tenant b)"
  by (simp add: floor_rule_def seed_rule_def split: prod.split)

lemma seed_rule_sel [simp]: "rr_tenantId (seed_rule now tenant b) = tenant" "rr_code (seed_rule now tenant b) = fst b"
  "rr_builtin (seed_rule now tenant b)"
  by (simp_all add: seed_rule_def split: prod.split)

lemma risk_seeded_append: "risk_seeded t (xs @ ys) \<longleftrightarrow> risk_seeded t xs \<or> risk_seeded t ys"
  by (simp add: risk_seeded_def)

lemma seeded_seed: "risk_seeded t (map (seed_rule now tenant) builtin_rules) \<longleftrightarrow> t = tenant"
  by (auto simp: risk_seeded_def list_ex_iff builtin_rules_def)

lemma risk_seed_good:
  assumes "risks_good st"
  shows "risks_good (risk_seed now tenant st)" "risk_seeded tenant (rs_rules (risk_seed now tenant st))"
proof -
  show "risk_seeded tenant (rs_rules (risk_seed now tenant st))"
    by (simp add: risk_seed_def risk_seeded_append seeded_seed flip: risk_seeded_def)
  show "risks_good (risk_seed now tenant st)"
  proof (cases "risk_seeded tenant (rs_rules st)")
    case True
    then show ?thesis using assms by (simp add: risk_seed_def flip: risk_seeded_def)
  next
    case False
    let ?new = "map (seed_rule now tenant) builtin_rules"
    have st': "risk_seed now tenant st = st\<lparr>rs_rules := rs_rules st @ ?new\<rparr>"
      using False by (simp add: risk_seed_def flip: risk_seeded_def)
    have none: "rr_tenantId r \<noteq> tenant" if "r \<in> set (rs_rules st)" for r
      using risks_goodD(2) [OF assms that] False by auto
    have "map (\<lambda>r. (rr_tenantId r, rr_code r)) ?new = map (Pair tenant) (map fst builtin_rules)" by simp
    then have "distinct (map (\<lambda>r. (rr_tenantId r, rr_code r)) ?new)"
      using builtin_codes_distinct by (simp only: distinct_map inj_on_def) simp
    then have "distinct (map (\<lambda>r. (rr_tenantId r, rr_code r)) (rs_rules st @ ?new))"
      using risks_goodD(1) [OF assms] none by auto
    moreover have "\<forall>r \<in> set (rs_rules st @ ?new). risk_seeded (rr_tenantId r) (rs_rules st @ ?new)"
      using risks_goodD(2) [OF assms] by (auto simp: risk_seeded_append seeded_seed)
    moreover have "\<exists>r \<in> set (rs_rules st @ ?new). floor_rule t b r"
      if "risk_seeded t (rs_rules st @ ?new)" "b \<in> set critical_builtins" for t b
    proof (cases "t = tenant")
      case True
      then show ?thesis using seed_rule_floor critical_builtin_mem [OF that(2)] by fastforce
    next
      case False
      then show ?thesis using risks_goodD(3) [OF assms _ that(2)] that(1) by (auto simp: risk_seeded_append seeded_seed)
    qed
    ultimately show ?thesis using risks_goodD(4,5) [OF assms] by (simp add: risks_good_def st')
  qed
qed

lemma addRule_good:
  assumes "risks_good st"
  shows "risks_good (snd (addRule compiles fresh now tenant i st))"
proof -
  let ?st = "risk_seed now tenant st"
  note good = risk_seed_good(1) [OF assms, of now tenant] and seeded = risk_seed_good(2) [OF assms, where now = now and tenant = tenant]
  show ?thesis
  proof (cases "new_risk_rule compiles fresh now tenant i (rs_rules ?st)")
    case (Inr r)
    then have r: "rr_tenantId r = tenant" "\<not> rr_builtin r" "\<forall>x \<in> set (rs_rules ?st). \<not> (rr_tenantId x = tenant \<and> rr_code x = rr_code r)"
      by (auto simp: new_risk_rule_def bind_ok_Inr Let_def list_ex_iff split: if_splits)
    have same: "risk_seeded t (rs_rules ?st @ [r]) = risk_seeded t (rs_rules ?st)" for t
      using r(2) by (simp add: risk_seeded_def)
    have "distinct (map (\<lambda>r. (rr_tenantId r, rr_code r)) (rs_rules ?st @ [r]))"
      using risks_goodD(1) [OF good] r by auto
    moreover have "\<forall>x \<in> set (rs_rules ?st @ [r]). risk_seeded (rr_tenantId x) (rs_rules ?st @ [r])"
      unfolding same using risks_goodD(2) [OF good] seeded r(1) by auto
    moreover have "\<forall>t. risk_seeded t (rs_rules ?st @ [r]) \<longrightarrow> (\<forall>b \<in> set critical_builtins. \<exists>r' \<in> set (rs_rules ?st @ [r]). floor_rule t b r')"
      unfolding same using risks_goodD(3) [OF good] by auto
    ultimately show ?thesis using risks_goodD(4,5) [OF good] by (simp add: addRule_def Let_def Inr risks_good_def)
  qed (use good in \<open>simp add: addRule_def Let_def\<close>)
qed

lemma setRuleEnabled_good:
  assumes "risks_good st"
  shows "risks_good (snd (setRuleEnabled now tenant ruleId on st))"
proof -
  let ?st = "risk_seed now tenant st"
  let ?sel = "\<lambda>r. rr_tenantId r = tenant \<and> (rr_id r = ruleId \<or> rr_code r = js_upper ruleId)" and ?f = "\<lambda>r. r\<lparr>rr_enabled := on\<rparr>"
  note good = risk_seed_good(1) [OF assms, of now tenant]
  show ?thesis
  proof (cases "List.find ?sel (rs_rules ?st)")
    case (Some x)
    show ?thesis
    proof (cases "rr_builtin x \<and> rr_level x = LevelCritical \<and> \<not> on")
      case False
      let ?rules = "update_first ?sel ?f (rs_rules ?st)"
      have codes: "map (\<lambda>r. (rr_tenantId r, rr_code r)) ?rules = map (\<lambda>r. (rr_tenantId r, rr_code r)) (rs_rules ?st)"
        by (rule map_update_first) simp
      have marks: "map (\<lambda>r. (rr_tenantId r, rr_builtin r)) ?rules = map (\<lambda>r. (rr_tenantId r, rr_builtin r)) (rs_rules ?st)"
        by (rule map_update_first) simp
      have "risk_seeded t rs = ((t, True) \<in> set (map (\<lambda>r. (rr_tenantId r, rr_builtin r)) rs))" for t rs
        by (auto simp: risk_seeded_def list_ex_iff)
      then have same: "risk_seeded t ?rules = risk_seeded t (rs_rules ?st)" for t by (simp only: marks)
      have kept: "\<exists>r' \<in> set ?rules. floor_rule t b r'" if "r \<in> set (rs_rules ?st)" "floor_rule t b r" "b \<in> set critical_builtins" for r t b
      proof (cases "r = x")
        case True
        have "rr_builtin x" "rr_level x = LevelCritical" using that True by (auto simp: floor_rule_def critical_builtins_def)
        then have "on" using False by simp
        then have "floor_rule t b (?f r)" using that(2) by (simp add: floor_rule_def split: prod.splits)
        moreover have "?f x \<in> set ?rules" by (rule update_first_hit [OF Some])
        ultimately show ?thesis using True by blast
      next
        case other: False
        have "r \<in> set ?rules" using that(1) other by (rule update_first_kept [OF Some])
        then show ?thesis using that(2) by blast
      qed
      have "\<forall>r \<in> set ?rules. risk_seeded (rr_tenantId r) ?rules"
        using risks_goodD(2) [OF good] update_first_mem [of _ ?sel ?f "rs_rules ?st"] unfolding same by fastforce
      moreover have "\<forall>t. risk_seeded t ?rules \<longrightarrow> (\<forall>b \<in> set critical_builtins. \<exists>r' \<in> set ?rules. floor_rule t b r')"
        unfolding same using risks_goodD(3) [OF good] kept by blast
      moreover have "snd (setRuleEnabled now tenant ruleId on st) = ?st\<lparr>rs_rules := ?rules\<rparr>"
        unfolding setRuleEnabled_def Let_def using False by (auto simp: Some)
      ultimately show ?thesis using risks_goodD(1,4,5) [OF good] codes by (simp add: risks_good_def)
    qed (use good Some in \<open>simp add: setRuleEnabled_def Let_def\<close>)
  qed (use good in \<open>simp add: setRuleEnabled_def Let_def\<close>)
qed

lemma mutablePolicy_sel:
  assumes "mutablePolicy now tenant st = (p, st')"
  shows "rs_rules st' = rs_rules st" "rs_assessments st' = rs_assessments st"
    "distinct (map cp_tenantId (rs_policies st)) \<Longrightarrow> distinct (map cp_tenantId (rs_policies st'))"
proof -
  have "distinct (map cp_tenantId (rs_policies st'))" if "distinct (map cp_tenantId (rs_policies st))"
  proof (cases "List.find (\<lambda>p. cp_tenantId p = tenant) (rs_policies st)")
    case None
    then have "tenant \<notin> set (map cp_tenantId (rs_policies st))" by (auto simp: find_None_iff)
    moreover have "map cp_tenantId (rs_policies st') = map cp_tenantId (rs_policies st) @ [tenant]"
      using assms None by (auto simp: mutablePolicy_def Let_def)
    ultimately show ?thesis using that by simp
  qed (use assms that in \<open>simp add: mutablePolicy_def\<close>)
  then show "distinct (map cp_tenantId (rs_policies st)) \<Longrightarrow> distinct (map cp_tenantId (rs_policies st'))" .
  show "rs_rules st' = rs_rules st" "rs_assessments st' = rs_assessments st"
    using assms by (auto simp: mutablePolicy_def Let_def split: option.splits)
qed

lemma mutablePolicy_good:
  assumes good: "risks_good st" and m: "mutablePolicy now tenant st = (p, st')"
  shows "risks_good st'"
  by (rule risks_good_frame [OF good mutablePolicy_sel(1) [OF m] mutablePolicy_sel(3) [OF m risks_goodD(4) [OF good]]])
    (simp add: mutablePolicy_sel(2) [OF m] risks_goodD(5) [OF good])

lemma setPolicy_good:
  assumes "risks_good st"
  shows "risks_good (snd (setPolicy now tenant m d st))"
proof -
  obtain p st1 where m: "mutablePolicy now tenant st = (p, st1)" by fastforce
  have p: "cp_tenantId p = tenant"
  proof (cases "List.find (\<lambda>p. cp_tenantId p = tenant) (rs_policies st)")
    case None
    then show ?thesis using m by (auto simp: mutablePolicy_def Let_def)
  next
    case (Some q)
    then show ?thesis using m find_Some_mem [OF Some] by (simp add: mutablePolicy_def)
  qed
  have good: "risks_good st1" using assms m by (rule mutablePolicy_good)
  have "map cp_tenantId (update_first (\<lambda>q. cp_tenantId q = tenant) (\<lambda>_. p\<lparr>cp_mode := m, cp_autoDenyCritical := x, cp_updatedAt := now\<rparr>) qs)
      = map cp_tenantId qs" for x qs
    by (rule map_update_first_if) (simp add: p)
  then show ?thesis using good risks_goodD(4,5) [OF good] by (intro risks_good_frame [OF good]) (simp_all add: setPolicy_def m Let_def)
qed

lemma assess_good:
  assumes "risks_good st"
  shows "risks_good (snd (assess lib fresh now i st))"
proof -
  let ?st = "risk_seed now (as_tenantId i) st"
  obtain p st1 where m: "mutablePolicy now (as_tenantId i) ?st = (p, st1)" by fastforce
  have good: "risks_good st1" using risk_seed_good(1) [OF assms] m by (rule mutablePolicy_good)
  have "risks_good (st1\<lparr>rs_assessments := take_last MAX_ASSESSMENTS xs\<rparr>)" for xs
    using risks_goodD(4) [OF good] by (intro risks_good_frame [OF good]) simp_all
  then show ?thesis using good by (simp add: assess_def m Let_def split: prod.split sum.split)
qed

interpretation risks: durable_service no_risks "risk_step lib rank compiles" risks_good for lib rank compiles
proof
  show "risks_good no_risks" by (simp add: risks_good_def no_risks_def risk_seeded_def)
  fix v c assume "risks_good v"
  then show "risks_good (snd (risk_step lib rank compiles c v))"
    using addRule_good setRuleEnabled_good setPolicy_good assess_good risk_seed_good(1) mutablePolicy_good [OF _ surjective_pairing]
    by (cases c) (simp_all add: risk_step_def split_beta risk_rules_def Let_def)
qed

section \<open>What an assessment says\<close>

lemma assess_loop_matched:
  "fst (assess_loop hit capability txt rs matched level reasons)
     = matched @ map (\<lambda>r. (rr_code r, rr_level r, rr_description r)) (filter (rule_hits hit capability txt) rs)"
  by (induction rs arbitrary: matched level reasons) (simp_all add: Let_def)

lemma assess_loop_level:
  "level_order (fst (snd (assess_loop hit capability txt rs matched level reasons)))
     = fold max (map (\<lambda>r. level_order (rr_level r)) (filter (rule_hits hit capability txt) rs)) (level_order level)"
  by (induction rs arbitrary: matched level reasons) (simp_all add: Let_def max_def)

lemma level_order_inj: "level_order a = level_order b \<longleftrightarrow> a = b"
  by (cases a; cases b) (simp_all add: level_order_def)

lemma level_order_critical: "level_order a \<le> level_order LevelCritical"
  by (cases a) (simp_all add: level_order_def)

text \<open>The rules of the tenant that a call hits.\<close>

definition hits_of :: "risk_lib \<Rightarrow> assess_input \<Rightarrow> risk_rule list \<Rightarrow> risk_rule list" where
  "hits_of lib i rules = filter (\<lambda>r. rr_tenantId r = as_tenantId i \<and> rr_enabled r
     \<and> rule_hits (lib_hit lib) (as_capabilityId i) (argument_text (lib_num lib) (as_args i)) r) rules"

lemma assess_Inr:
  assumes "assess lib fresh now i st = (Inr a, st')"
  shows "ra_matchedRules a = map (\<lambda>r. (rr_code r, rr_level r, rr_description r)) (hits_of lib i (rs_rules (risk_seed now (as_tenantId i) st)))"
    and "level_order (ra_level a) = fold max (map (\<lambda>r. level_order (rr_level r)) (hits_of lib i (rs_rules (risk_seed now (as_tenantId i) st))))
           (level_order (risk_baseline (as_declaredRisk i)))"
    and "ra_score a = to_fixed6 (min 1 (level_score (ra_level a) + min (2 / 10) (of_nat (length (ra_matchedRules a)) * (5 / 100))))"
    and "ra_requiresConfirmation a = requires_confirmation (cp_mode (fst (mutablePolicy now (as_tenantId i) (risk_seed now (as_tenantId i) st)))) (ra_level a)"
    and "ra_zoneHint a = zoneFor (ra_level a) (as_declaredRisk i)"
proof -
  let ?st = "risk_seed now (as_tenantId i) st" and ?base = "risk_baseline (as_declaredRisk i)"
  let ?why = "[baseline_reason (as_declaredRisk i)]"
  obtain p st1 where m: "mutablePolicy now (as_tenantId i) ?st = (p, st1)" by fastforce
  note rules = mutablePolicy_sel(1) [OF m]
  let ?rules = "filter (\<lambda>r. rr_tenantId r = as_tenantId i \<and> rr_enabled r) (rs_rules ?st)" and ?txt = "argument_text (lib_num lib) (as_args i)"
  obtain matched level reasons where l: "assess_loop (lib_hit lib) (as_capabilityId i) ?txt ?rules [] ?base ?why = (matched, level, reasons)"
    by (cases rule: prod_cases3)
  obtain c where a: "ra_matchedRules a = matched" "ra_level a = level"
    "ra_score a = to_fixed6 (min 1 (level_score level + min (2 / 10) (of_nat (length matched) * (5 / 100))))"
    "ra_requiresConfirmation a = requires_confirmation (cp_mode p) level" "ra_zoneHint a = zoneFor level (as_declaredRisk i)"
    and "auroraText (as_capabilityId i) 200 ''Capability ID'' = Inr c"
    using assms by (auto simp: assess_def m rules l Let_def split: sum.splits)
  have hits: "hits_of lib i (rs_rules ?st) = filter (rule_hits (lib_hit lib) (as_capabilityId i) ?txt) ?rules"
    by (simp add: hits_of_def conj_ac)
  show "ra_matchedRules a = map (\<lambda>r. (rr_code r, rr_level r, rr_description r)) (hits_of lib i (rs_rules ?st))"
    unfolding hits using assess_loop_matched [of "lib_hit lib" "as_capabilityId i" ?txt ?rules "[]" ?base ?why] by (simp add: l a)
  show "level_order (ra_level a) = fold max (map (\<lambda>r. level_order (rr_level r)) (hits_of lib i (rs_rules ?st))) (level_order ?base)"
    unfolding hits using assess_loop_level [of "lib_hit lib" "as_capabilityId i" ?txt ?rules "[]" ?base ?why] by (simp add: l a)
  show "ra_score a = to_fixed6 (min 1 (level_score (ra_level a) + min (2 / 10) (of_nat (length (ra_matchedRules a)) * (5 / 100))))"
    and "ra_requiresConfirmation a = requires_confirmation (cp_mode (fst (mutablePolicy now (as_tenantId i) ?st))) (ra_level a)"
    and "ra_zoneHint a = zoneFor (ra_level a) (as_declaredRisk i)"
    using a m by simp_all
qed

section \<open>Properties\<close>

text \<open>The level of an assessment is the highest of the baseline of the declared risk and of the enabled rules of the
  tenant that the call hits, so a rule only ever escalates; the matches are exactly these rules, in the order of the
  state, and the score is between 0 and 1.\<close>

theorem assess_level_exact:
  assumes "assess lib fresh now i st = (Inr a, st')"
  shows "level_order (ra_level a) = Max (set (level_order (risk_baseline (as_declaredRisk i))
           # map (\<lambda>r. level_order (rr_level r)) (hits_of lib i (rs_rules (risk_seed now (as_tenantId i) st)))))
    \<and> map fst (ra_matchedRules a) = map rr_code (hits_of lib i (rs_rules (risk_seed now (as_tenantId i) st)))
    \<and> 0 \<le> ra_score a \<and> ra_score a \<le> 1"
proof (intro conjI)
  show "level_order (ra_level a) = Max (set (level_order (risk_baseline (as_declaredRisk i))
           # map (\<lambda>r. level_order (rr_level r)) (hits_of lib i (rs_rules (risk_seed now (as_tenantId i) st)))))"
    unfolding assess_Inr(2) [OF assms] Max.set_eq_fold ..
  show "map fst (ra_matchedRules a) = map rr_code (hits_of lib i (rs_rules (risk_seed now (as_tenantId i) st)))"
    by (simp add: assess_Inr(1) [OF assms])
  have "0 \<le> level_score l" for l by (cases l) (simp_all add: level_score_def)
  then show "0 \<le> ra_score a" "ra_score a \<le> 1" unfolding assess_Inr(3) [OF assms] by (simp_all add: to_fixed6_unit)
qed

text \<open>The safety floor cannot be switched off: whatever rules were added, disabled or refused before, with failed
  writes and restarts, a call whose arguments match a critical built-in pattern is assessed as critical with that rule
  among the matches, wants confirmation in every confirmation mode and is sent to zone 4.\<close>

lemma critical_patterns_always_caught:
  assumes reach: "durable_reach no_risks fits (risk_step lib rank compiles) st" and v: "durable_view no_risks st = Some v"
    and b: "(code, txt, LevelCritical, pattern) \<in> set builtin_rules"
    and hit: "lib_hit lib pattern (argument_text (lib_num lib) (as_args i))"
    and a: "assess lib fresh now i v = (Inr a, v')"
  shows "ra_level a = LevelCritical \<and> (code, LevelCritical, txt) \<in> set (ra_matchedRules a)
    \<and> ra_requiresConfirmation a \<and> ra_zoneHint a = 4"
proof -
  let ?t = "as_tenantId i"
  let ?rules = "rs_rules (risk_seed now ?t v)"
  have "risks_good v"
    using durable_read_value_good [OF risks.good_create risks.reach_good [OF reach]] v by (simp add: durable_view_def)
  note good = risk_seed_good(1) [OF this, of now ?t] and seeded = risk_seed_good(2) [OF this, where now = now and tenant = ?t]
  have "(code, txt, LevelCritical, pattern) \<in> set critical_builtins" using b by (simp add: critical_builtins_def)
  from risks_goodD(3) [OF good seeded this] obtain r where r: "r \<in> set ?rules" and
    f: "floor_rule ?t (code, txt, LevelCritical, pattern) r" by blast
  have "r \<in> set (hits_of lib i ?rules)" using r f hit by (simp add: hits_of_def floor_rule_def rule_hits_def)
  then have m: "(code, LevelCritical, txt) \<in> set (ra_matchedRules a)" and
    l: "level_order LevelCritical \<in> set (map (\<lambda>r. level_order (rr_level r)) (hits_of lib i ?rules))"
    using f by (auto simp: assess_Inr(1) [OF a] floor_rule_def intro!: rev_image_eqI)
  have "level_order LevelCritical \<le> level_order (ra_level a)"
    unfolding assess_Inr(2) [OF a] Max.set_eq_fold [symmetric] using l by (intro Max_ge) auto
  then have "ra_level a = LevelCritical" using level_order_critical level_order_inj by (metis le_antisym)
  then show ?thesis using m by (simp add: assess_Inr(4,5) [OF a] zoneFor_def requires_confirmation_def level_order_critical split: confirmation_mode.split)
qed

section \<open>A concrete run\<close>

definition sql_drop :: string where
  "sql_drop = expression ''%b(DROP%s+(DATABASE|SCHEMA|TABLE)|TRUNCATE%s+TABLE)%b''"

definition demo_lib :: risk_lib where
  "demo_lib = \<lparr>lib_hit = (\<lambda>p t. p = sql_drop \<and> t = ''sql DROP TABLE users''), lib_num = (\<lambda>_. ''0''), lib_digest = (\<lambda>_. ''sha'')\<rparr>"

definition demo_call :: assess_input where
  "demo_call = \<lparr>as_tenantId = ''t'', as_capabilityId = ''db.query'', as_declaredRisk = WorkspaceRead,
     as_args = Some (JObj [(''sql'', JStr ''DROP TABLE users'')]), as_sessionId = None, as_record = None\<rparr>"

definition demo_risks :: "risk_state durable" where
  "demo_risks = snd (durable_mutate no_risks (\<lambda>_. True) True (risk_step demo_lib length (\<lambda>_. True) (RiskEnable 1 ''t'' ''sql-drop'' False))
     \<lparr>cached = None, disk = Absent\<rparr>)"

definition demo_assessed :: "(risk_error, risk_assessment) result \<times> risk_state" where
  "demo_assessed = assess demo_lib ''a'' 2 demo_call (the (durable_view no_risks demo_risks))"

lemma demo_risks_reach: "durable_reach no_risks (\<lambda>_. True) (risk_step demo_lib length (\<lambda>_. True)) demo_risks"
  unfolding demo_risks_def by (intro durable_reach.mutate durable_reach.fresh)

lemma demo_risks_view: "durable_view no_risks demo_risks = Some (the (durable_view no_risks demo_risks))"
proof -
  have "durable_view no_risks demo_risks \<noteq> None" by (simp add: demo_risks_def durable_view_def durable_mutate_def durable_read_def
      split: prod.split sum.split)
  then show ?thesis by simp
qed

lemma assess_ok:
  assumes "auroraText (as_capabilityId i) 200 ''Capability ID'' = Inr c"
  shows "\<exists>a v'. assess lib fresh now i v = (Inr a, v')"
  using assms by (simp add: assess_def Let_def lift_error_def split: prod.split)

lemma demo_assessed_ok: "\<exists>a v'. demo_assessed = (Inr a, v')"
proof -
  have "auroraText (as_capabilityId demo_call) 200 ''Capability ID'' = Inr ''db.query''" by code_simp
  then show ?thesis unfolding demo_assessed_def by (rule assess_ok)
qed

lemma demo_text: "argument_text (lib_num demo_lib) (as_args demo_call) = ''sql DROP TABLE users''"
proof -
  have "(7 :: nat) = Suc (Suc (Suc (Suc (Suc (Suc (Suc 0))))))" by simp
  then show ?thesis by (simp only: argument_text_def demo_call_def) (simp add: demo_call_def)
qed

lemma critical_patterns_always_caught_witness:
  "\<exists>a v'. demo_assessed = (Inr a, v') \<and> ra_level a = LevelCritical \<and> ra_requiresConfirmation a"
proof -
  obtain a v' where a: "demo_assessed = (Inr a, v')" using demo_assessed_ok by blast
  have b: "(''SQL-DROP'', ''Destructive SQL schema or table removal.'', LevelCritical, sql_drop) \<in> set builtin_rules"
    by (simp add: builtin_rules_def sql_drop_def)
  have hit: "lib_hit demo_lib sql_drop (argument_text (lib_num demo_lib) (as_args demo_call))"
    unfolding demo_text by (simp add: demo_lib_def)
  from critical_patterns_always_caught [OF demo_risks_reach demo_risks_view b hit a [unfolded demo_assessed_def]]
  show ?thesis using a by blast
qed

lemma assess_level_exact_witness: "\<exists>a v'. demo_assessed = (Inr a, v') \<and> 0 \<le> ra_score a \<and> ra_score a \<le> 1"
proof -
  obtain a v' where a: "demo_assessed = (Inr a, v')" using demo_assessed_ok by blast
  from assess_level_exact [OF a [unfolded demo_assessed_def]] show ?thesis using a by blast
qed

end
