(* ===== verification/Constitution.thy ===== *)
theory Constitution
  imports Tally "HOL-Library.List_Lexorder" "HOL-Library.Char_ord"
begin

text \<open>
  The internal constitution, \<^verbatim>\<open>aurora/constitution-service.ts\<close>: the principles of a tenant (sixteen built-in
  ones and its own) with their amendments, the identity core that is versioned with them, and the review of a
  declared decision, in a durable state. An operation that throws keeps what it changed before, as in the code.
  The two SHA digests (\<open>con_digest\<close> of the attributes, \<open>con_text_digest\<close> of a text) and \<^verbatim>\<open>localeCompare\<close> (the
  rank of a string) are parameters.
\<close>

section \<open>Data\<close>

datatype principle_category =
    CatSafety | CatAutonomy | CatPrivacy | CatEvidence | CatResource | CatEvolution | CatUser | CatIdentity

datatype principle_severity = Hard | Soft

datatype principle_status = InForce | Retired

record principle =
  pr_id :: string
  pr_tenantId :: string
  pr_code :: string
  pr_title :: string
  pr_statement :: string
  pr_category :: principle_category
  pr_severity :: principle_severity
  pr_builtin :: bool
  pr_status :: principle_status
  pr_version :: nat
  pr_rationale :: string
  pr_createdAt :: msec
  pr_updatedAt :: msec

datatype amendment_kind = Created | Amended | WasRetired | Restored

text \<open>Title, statement, severity and status before or after an amendment.\<close>

type_synonym principle_text = "string \<times> string \<times> principle_severity \<times> principle_status"

record amendment =
  am_id :: id
  am_tenantId :: string
  am_principleId :: string
  am_kind :: amendment_kind
  am_before :: "principle_text option"
  am_after :: principle_text
  am_approvedBy :: string
  am_reason :: string
  am_at :: msec

datatype claim_type = Observation | Inference | Hypothesis | Prediction

record decision_attributes =
  da_destructive :: "bool option"
  da_irreversible :: "bool option"
  da_externalSideEffect :: "bool option"
  da_affectsUserData :: "bool option"
  da_affectsProtectedTopic :: "bool option"
  da_autonomous :: "bool option"
  da_humanApproved :: "bool option"
  da_hasEvidence :: "bool option"
  da_hasRollbackPlan :: "bool option"
  da_verificationPlanned :: "bool option"
  da_claimType :: "claim_type option"
  da_confidence :: "rat option"
  da_userRelevance :: "rat option"
  da_notifiesUser :: "bool option"
  da_selfModifying :: "bool option"
  da_stagedEvolution :: "bool option"
  da_dissentPreserved :: "bool option"
  da_contradictsPrinciple :: "string list option"
  da_estimatedTokens :: "rat option"
  da_budgetRemainingTokens :: "rat option"

record violation =
  vi_code :: string
  vi_severity :: principle_severity
  vi_detail :: string
  vi_remedy :: string

datatype verdict_kind = IsAllowed | NeedsReview | IsDenied

record constitution_verdict =
  cv_id :: id
  cv_tenantId :: string
  cv_summary :: string
  cv_actor :: string
  cv_verdict :: verdict_kind
  cv_violations :: "violation list"
  cv_satisfied :: "string list"
  cv_attributeDigest :: string
  cv_identityVersion :: nat
  cv_decidedAt :: msec

record continuity_entry =
  ce_version :: nat
  ce_change :: string
  ce_approvedBy :: string
  ce_at :: msec

record identity_core =
  ic_tenantId :: string
  ic_mission :: string
  ic_version :: nat
  ic_principleDigest :: string
  ic_continuity :: "continuity_entry list"
  ic_createdAt :: msec
  ic_updatedAt :: msec

record constitution_state =
  cs_principles :: "principle list"
  cs_amendments :: "amendment list"
  cs_verdicts :: "constitution_verdict list"
  cs_identities :: "identity_core list"

definition no_constitution :: constitution_state where
  "no_constitution = \<lparr>cs_principles = [], cs_amendments = [], cs_verdicts = [], cs_identities = []\<rparr>"

definition MAX_PRINCIPLES :: nat where "MAX_PRINCIPLES = 500"

definition MAX_VERDICTS :: nat where "MAX_VERDICTS = 100000"

definition MAX_AMENDMENTS :: nat where "MAX_AMENDMENTS = 10000"

datatype constitution_error =
    ConText aurora_error | PrincipleLimit | PrincipleCodeTaken | HardNotSoftened | HardNotRetired | PrincipleNotFound | IdentityNotFound
  | VerdictNotFound

section \<open>The built-in constitution\<close>

definition DEFAULT_MISSION :: string where
  "DEFAULT_MISSION = ''Be the user's durable cognitive companion: understand their goals, reduce their information load, surface opportunities and risks early, act only inside granted authority, and become more useful over time without ever becoming an unconstrained agent.''"

definition builtin_principles :: "(string \<times> string \<times> string \<times> principle_category \<times> principle_severity \<times> string) list" where
  "builtin_principles = [
    (''C1'', ''No unconstrained super-agent'',
       ''No single agent may hold unbounded authority; Prime synthesizes and coordinates but does not bypass policy.'', CatSafety, Hard,
       ''Aurora is a society of bounded specialists, not one omnipotent agent.''),
    (''C2'', ''Policy above agents'',
       ''Policy, approvals and the capability broker remain authoritative over every agent decision.'', CatSafety, Hard,
       ''Authority must be enforced by the runtime, not by prompt discipline.''),
    (''C3'', ''Sourced claims'',
       ''Every claim carries source, confidence, importance and time.'', CatEvidence, Hard,
       ''Unsourced assertions cannot be audited, corrected or superseded.''),
    (''C4'', ''Typed epistemics'',
       ''Observation, inference, hypothesis and prediction are distinct and never silently promoted.'', CatEvidence, Hard,
       ''Confusing a guess with an observation corrupts every downstream decision.''),
    (''C5'', ''Bounded proactivity'',
       ''Proactive contact is bounded by user relevance, attention budget and silence rules.'', CatUser, Soft,
       ''Attention is the scarcest user resource; noise destroys trust.''),
    (''C6'', ''Staged evolution'',
       ''Capability change is candidate -> sandbox -> test -> review -> deploy; never direct self-modification.'', CatEvolution, Hard,
       ''Self-promotion without evidence is the fastest route to an unsafe system.''),
    (''C7'', ''Critical action discipline'',
       ''Destructive or critical actions require approval, verification, audit and a recovery path.'', CatSafety, Hard,
       ''Irreversible actions must never depend on a single model judgement.''),
    (''C8'', ''Explicit budgets'',
       ''Resource, token and API budgets are explicit and enforced across reactive, tactical and strategic horizons.'', CatResource, Soft,
       ''Unbounded background cognition becomes a cost and safety failure.''),
    (''C9'', ''Preserved dissent'',
       ''Disagreement is preserved; consensus is reported with confidence and dissent.'', CatEvidence, Soft,
       ''Manufactured agreement hides the information that mattered.''),
    (''C10'', ''Governed user model'',
       ''User inferences are scoped, inspectable, correctable, consent-bound and deletable; protected topics are refused.'', CatPrivacy, Hard,
       ''Modelling behaviour is allowed; profiling a person is not.''),
    (''C11'', ''Interruptible cognition'',
       ''Background loops are durable but interruptible, budgeted and protected against repetition.'', CatAutonomy, Soft,
       ''A thought loop that cannot be stopped is a failure mode, not autonomy.''),
    (''C12'', ''No exactly-once claims'',
       ''No component claims exactly-once external effects; uncertain outcomes stay uncertain.'', CatSafety, Hard,
       ''Silent replay of external effects is worse than an explicit unknown.''),
    (''P1'', ''Continuous presence'',
       ''Aurora observes, thinks, learns and plans between conversations, within declared budgets.'', CatAutonomy, Soft,
       ''A companion that only exists during a prompt cannot anticipate anything.''),
    (''P2'', ''User advocacy'',
       ''Every decision is evaluated against the user's own goals, habits and priorities.'', CatUser, Soft,
       ''Aurora serves one user's interest, not a generic average.''),
    (''P3'', ''Memory continuity'',
       ''Knowledge is related, scored, compressed and retained rather than discarded at session end.'', CatIdentity, Soft,
       ''Continuity is the difference between a tool and a companion.''),
    (''P4'', ''Identity continuity'',
       ''Purpose survives version changes; amendments are approved, versioned and auditable.'', CatIdentity, Hard,
       ''A system that can silently rewrite its purpose has no purpose.'')]"

definition seed_principle ::
    "msec \<Rightarrow> string \<Rightarrow> string \<times> string \<times> string \<times> principle_category \<times> principle_severity \<times> string \<Rightarrow> principle" where
  "seed_principle now tenant b = (case b of (code, ti, st, cat, sev, why) \<Rightarrow>
     \<lparr>pr_id = ''principle-'' @ tenant @ ''-'' @ js_lower code, pr_tenantId = tenant, pr_code = code, pr_title = ti, pr_statement = st,
      pr_category = cat, pr_severity = sev, pr_builtin = True, pr_status = InForce, pr_version = 1, pr_rationale = why,
      pr_createdAt = now, pr_updatedAt = now\<rparr>)"

definition show_severity :: "principle_severity \<Rightarrow> string" where
  "show_severity s = (case s of Hard \<Rightarrow> ''hard'' | Soft \<Rightarrow> ''soft'')"

text \<open>The library functions the service calls.\<close>

record con_lib =
  con_digest :: "decision_attributes \<Rightarrow> string"
  con_text_digest :: "string \<Rightarrow> string"

definition principleDigest :: "con_lib \<Rightarrow> string \<Rightarrow> constitution_state \<Rightarrow> string" where
  "principleDigest lib tenant st = con_text_digest lib (join ''|'' (sort
     (map (\<lambda>p. pr_code p @ '':'' @ show_nat (pr_version p) @ '':'' @ show_severity (pr_severity p))
       (filter (\<lambda>p. pr_tenantId p = tenant \<and> pr_status p = InForce) (cs_principles st)))))"

definition con_seed :: "con_lib \<Rightarrow> msec \<Rightarrow> string \<Rightarrow> constitution_state \<Rightarrow> constitution_state" where
  "con_seed lib now tenant st =
     (if list_ex (\<lambda>p. pr_tenantId p = tenant \<and> pr_builtin p) (cs_principles st) then st
      else
        let st1 = st\<lparr>cs_principles := cs_principles st @ map (seed_principle now tenant) builtin_principles\<rparr> in
        if list_ex (\<lambda>c. ic_tenantId c = tenant) (cs_identities st1) then st1
        else st1\<lparr>cs_identities := cs_identities st1 @
          [\<lparr>ic_tenantId = tenant, ic_mission = DEFAULT_MISSION, ic_version = 1, ic_principleDigest = principleDigest lib tenant st1,
            ic_continuity = [\<lparr>ce_version = 1, ce_change = ''Aurora identity core created with the built-in constitution.'',
              ce_approvedBy = ''system'', ce_at = now\<rparr>],
            ic_createdAt = now, ic_updatedAt = now\<rparr>]\<rparr>)"

section \<open>Identity\<close>

definition mutableIdentity :: "string \<Rightarrow> constitution_state \<Rightarrow> (constitution_error, identity_core) result" where
  "mutableIdentity tenant st =
     (case List.find (\<lambda>c. ic_tenantId c = tenant) (cs_identities st) of None \<Rightarrow> throw IdentityNotFound | Some c \<Rightarrow> ok c)"

definition put_identity :: "string \<Rightarrow> (identity_core \<Rightarrow> identity_core) \<Rightarrow> constitution_state \<Rightarrow> constitution_state" where
  "put_identity tenant f st = st\<lparr>cs_identities := update_first (\<lambda>c. ic_tenantId c = tenant) f (cs_identities st)\<rparr>"

definition con_identity :: "con_lib \<Rightarrow> msec \<Rightarrow> string \<Rightarrow> constitution_state \<Rightarrow> (constitution_error, identity_core) result \<times> constitution_state" where
  "con_identity lib now tenant st = (let st = con_seed lib now tenant st in (mutableIdentity tenant st, st))"

definition setMission ::
    "con_lib \<Rightarrow> msec \<Rightarrow> string \<Rightarrow> string \<Rightarrow> string \<Rightarrow> constitution_state \<Rightarrow> (constitution_error, identity_core) result \<times> constitution_state" where
  "setMission lib now tenant new_mission approvedBy st =
     (let st = con_seed lib now tenant st in
      case mutableIdentity tenant st of
        Inl e \<Rightarrow> (throw e, st)
      | Inr c \<Rightarrow>
          (case lift_error ConText (auroraText new_mission 5000 ''Aurora mission'') of
             Inl e \<Rightarrow> (throw e, st)
           | Inr m \<Rightarrow>
               if m = ic_mission c then (ok c, st)
               else
                 let c1 = c\<lparr>ic_mission := m, ic_version := ic_version c + 1\<rparr>; st1 = put_identity tenant (\<lambda>_. c1) st in
                 case lift_error ConText (auroraText approvedBy 200 ''Approver'') of
                   Inl e \<Rightarrow> (throw e, st1)
                 | Inr who \<Rightarrow>
                     let c2 = c1\<lparr>ic_continuity := ic_continuity c @ [\<lparr>ce_version = ic_version c1,
                             ce_change = ''Mission restated: '' @ take 200 m, ce_approvedBy = who, ce_at = now\<rparr>],
                           ic_updatedAt := now, ic_principleDigest := principleDigest lib tenant st1\<rparr>
                     in (ok c2, put_identity tenant (\<lambda>_. c2) st1)))"

definition bumpIdentity ::
    "con_lib \<Rightarrow> msec \<Rightarrow> string \<Rightarrow> string \<Rightarrow> string \<Rightarrow> constitution_state \<Rightarrow> (constitution_error, unit) result \<times> constitution_state" where
  "bumpIdentity lib now tenant change approvedBy st =
     (case mutableIdentity tenant st of
        Inl e \<Rightarrow> (throw e, st)
      | Inr c \<Rightarrow>
          let c1 = c\<lparr>ic_version := ic_version c + 1, ic_principleDigest := principleDigest lib tenant st\<rparr>;
              st1 = put_identity tenant (\<lambda>_. c1) st in
          case lift_error ConText (auroraText approvedBy 200 ''Approver'') of
            Inl e \<Rightarrow> (throw e, st1)
          | Inr who \<Rightarrow>
              let c2 = c1\<lparr>ic_continuity := take_last 5000 (ic_continuity c @ [\<lparr>ce_version = ic_version c1,
                      ce_change = take 500 change, ce_approvedBy = who, ce_at = now\<rparr>]),
                    ic_updatedAt := now\<rparr>
              in (ok (), put_identity tenant (\<lambda>_. c2) st1))"

section \<open>Principles\<close>

definition con_principles ::
    "con_lib \<Rightarrow> (string \<Rightarrow> nat) \<Rightarrow> msec \<Rightarrow> string \<Rightarrow> principle_status option \<Rightarrow> constitution_state \<Rightarrow> principle list \<times> constitution_state" where
  "con_principles lib rank now tenant status st =
     (let st = con_seed lib now tenant st
      in (sort_key (\<lambda>p. rank (pr_code p))
            (filter (\<lambda>p. pr_tenantId p = tenant \<and> (case status of None \<Rightarrow> True | Some s \<Rightarrow> pr_status p = s)) (cs_principles st)), st))"

definition text_of :: "principle \<Rightarrow> principle_text" where
  "text_of p = (pr_title p, pr_statement p, pr_severity p, pr_status p)"

definition recordAmendment ::
    "id \<Rightarrow> msec \<Rightarrow> principle \<Rightarrow> amendment_kind \<Rightarrow> principle_text option \<Rightarrow> string \<Rightarrow> string \<Rightarrow> constitution_state
       \<Rightarrow> (constitution_error, unit) result \<times> constitution_state" where
  "recordAmendment fresh now p kind before approvedBy why st =
     (case bind_ok (lift_error ConText (auroraText approvedBy 200 ''Approver'')) (\<lambda>who.
             bind_ok (lift_error ConText (auroraText why 5000 ''Amendment reason'')) (\<lambda>why. ok (who, why))) of
        Inl e \<Rightarrow> (throw e, st)
      | Inr (who, why) \<Rightarrow>
          (ok (), st\<lparr>cs_amendments := take_last MAX_AMENDMENTS (cs_amendments st @
             [\<lparr>am_id = fresh, am_tenantId = pr_tenantId p, am_principleId = pr_id p, am_kind = kind, am_before = before,
               am_after = text_of p, am_approvedBy = who, am_reason = why, am_at = now\<rparr>])\<rparr>))"

record principle_input =
  pi_code :: string
  pi_title :: string
  pi_statement :: string
  pi_category :: principle_category
  pi_severity :: "principle_severity option"
  pi_rationale :: string
  pi_approvedBy :: string

definition new_principle ::
    "id \<Rightarrow> msec \<Rightarrow> string \<Rightarrow> principle_input \<Rightarrow> principle list \<Rightarrow> (constitution_error, principle) result" where
  "new_principle fresh now tenant i ps =
     (if length (filter (\<lambda>p. pr_tenantId p = tenant) ps) \<ge> MAX_PRINCIPLES then throw PrincipleLimit
      else
        bind_ok (lift_error ConText (auroraText (pi_code i) 20 ''Principle code'')) (\<lambda>c.
          let code = js_upper c in
          if list_ex (\<lambda>p. pr_tenantId p = tenant \<and> pr_code p = code) ps then throw PrincipleCodeTaken
          else
            bind_ok (lift_error ConText (auroraText (pi_title i) 200 ''Principle title'')) (\<lambda>ti.
            bind_ok (lift_error ConText (auroraText (pi_statement i) 5000 ''Principle statement'')) (\<lambda>stmt.
            bind_ok (lift_error ConText (auroraText (pi_rationale i) 5000 ''Principle rationale'')) (\<lambda>why.
              ok \<lparr>pr_id = ''principle-'' @ fresh, pr_tenantId = tenant, pr_code = code, pr_title = ti, pr_statement = stmt,
                  pr_category = pi_category i, pr_severity = or_else (pi_severity i) Soft, pr_builtin = False, pr_status = InForce,
                  pr_version = 1, pr_rationale = why, pr_createdAt = now, pr_updatedAt = now\<rparr>)))))"

definition addPrinciple ::
    "con_lib \<Rightarrow> id \<Rightarrow> msec \<Rightarrow> string \<Rightarrow> principle_input \<Rightarrow> constitution_state \<Rightarrow> (constitution_error, principle) result \<times> constitution_state" where
  "addPrinciple lib fresh now tenant i st =
     (let st = con_seed lib now tenant st in
      case new_principle fresh now tenant i (cs_principles st) of
        Inl e \<Rightarrow> (throw e, st)
      | Inr p \<Rightarrow>
          (case recordAmendment fresh now p Created None (pi_approvedBy i) (pi_rationale i) (st\<lparr>cs_principles := cs_principles st @ [p]\<rparr>) of
             (Inl e, st) \<Rightarrow> (throw e, st)
           | (Inr _, st) \<Rightarrow> (ok p, st)))"

definition is_principle :: "string \<Rightarrow> string \<Rightarrow> principle \<Rightarrow> bool" where
  "is_principle tenant k p = (pr_tenantId p = tenant \<and> (pr_id p = k \<or> pr_code p = js_upper k))"

definition mutablePrinciple :: "con_lib \<Rightarrow> msec \<Rightarrow> string \<Rightarrow> string \<Rightarrow> constitution_state \<Rightarrow> (constitution_error, principle) result \<times> constitution_state" where
  "mutablePrinciple lib now tenant k st =
     (let st = con_seed lib now tenant st in
      case List.find (is_principle tenant k) (cs_principles st) of None \<Rightarrow> (throw PrincipleNotFound, st) | Some p \<Rightarrow> (ok p, st))"

definition put_principle :: "string \<Rightarrow> string \<Rightarrow> principle \<Rightarrow> constitution_state \<Rightarrow> constitution_state" where
  "put_principle tenant k p st = st\<lparr>cs_principles := update_first (is_principle tenant k) (\<lambda>_. p) (cs_principles st)\<rparr>"

record amend_input =
  mi_tenantId :: string
  mi_principleId :: string
  mi_title :: "string option"
  mi_statement :: "string option"
  mi_severity :: "principle_severity option"
  mi_approvedBy :: string
  mi_reason :: string

text \<open>\<^verbatim>\<open>if (value) field = auroraText(value, max, label)\<close>\<close>

definition new_text :: "string option \<Rightarrow> nat \<Rightarrow> string \<Rightarrow> string \<Rightarrow> (constitution_error, string) result" where
  "new_text v mx label old = (case given_text v of None \<Rightarrow> ok old | Some t \<Rightarrow> lift_error ConText (auroraText t mx label))"

text \<open>The end of \<^verbatim>\<open>amendPrinciple\<close> and \<^verbatim>\<open>retirePrinciple\<close>: the changed principle is in the state already.\<close>

definition log_change ::
    "con_lib \<Rightarrow> id \<Rightarrow> msec \<Rightarrow> string \<Rightarrow> principle \<Rightarrow> amendment_kind \<Rightarrow> principle_text \<Rightarrow> string \<Rightarrow> string \<Rightarrow> string \<Rightarrow> constitution_state
       \<Rightarrow> (constitution_error, principle) result \<times> constitution_state" where
  "log_change lib fresh now tenant p kind before change approvedBy why st =
     (case recordAmendment fresh now p kind (Some before) approvedBy why st of
        (Inl e, st) \<Rightarrow> (throw e, st)
      | (Inr _, st) \<Rightarrow>
          (case bumpIdentity lib now tenant change approvedBy st of
             (Inl e, st) \<Rightarrow> (throw e, st)
           | (Inr _, st) \<Rightarrow> (ok p, st)))"

definition amendPrinciple ::
    "con_lib \<Rightarrow> id \<Rightarrow> msec \<Rightarrow> amend_input \<Rightarrow> constitution_state \<Rightarrow> (constitution_error, principle) result \<times> constitution_state" where
  "amendPrinciple lib fresh now i st =
     (case mutablePrinciple lib now (mi_tenantId i) (mi_principleId i) st of
        (Inl e, st) \<Rightarrow> (throw e, st)
      | (Inr p, st) \<Rightarrow>
          if pr_builtin p \<and> pr_severity p = Hard \<and> mi_severity i = Some Soft then (throw HardNotSoftened, st)
          else
            (case new_text (mi_title i) 200 ''Principle title'' (pr_title p) of
               Inl e \<Rightarrow> (throw e, st)
             | Inr ti \<Rightarrow>
                 let p1 = p\<lparr>pr_title := ti\<rparr>; st1 = put_principle (mi_tenantId i) (mi_principleId i) p1 st in
                 case new_text (mi_statement i) 5000 ''Principle statement'' (pr_statement p) of
                   Inl e \<Rightarrow> (throw e, st1)
                 | Inr stmt \<Rightarrow>
                     let p2 = p1\<lparr>pr_statement := stmt, pr_severity := or_else (mi_severity i) (pr_severity p),
                                 pr_version := pr_version p + 1, pr_updatedAt := now\<rparr>
                     in log_change lib fresh now (mi_tenantId i) p2 Amended (text_of p)
                          (''Principle '' @ pr_code p2 @ '' amended to v'' @ show_nat (pr_version p2)) (mi_approvedBy i) (mi_reason i)
                          (put_principle (mi_tenantId i) (mi_principleId i) p2 st1)))"

definition retirePrinciple ::
    "con_lib \<Rightarrow> id \<Rightarrow> msec \<Rightarrow> string \<Rightarrow> string \<Rightarrow> string \<Rightarrow> string \<Rightarrow> constitution_state
       \<Rightarrow> (constitution_error, principle) result \<times> constitution_state" where
  "retirePrinciple lib fresh now tenant k approvedBy why st =
     (case mutablePrinciple lib now tenant k st of
        (Inl e, st) \<Rightarrow> (throw e, st)
      | (Inr p, st) \<Rightarrow>
          if pr_builtin p \<and> pr_severity p = Hard then (throw HardNotRetired, st)
          else
            let p1 = p\<lparr>pr_status := Retired, pr_version := pr_version p + 1, pr_updatedAt := now\<rparr>
            in log_change lib fresh now tenant p1 WasRetired (text_of p) (''Principle '' @ pr_code p1 @ '' retired'') approvedBy why
                 (put_principle tenant k p1 st))"

definition con_amendments :: "string \<Rightarrow> int \<Rightarrow> constitution_state \<Rightarrow> (constitution_error, amendment list) result" where
  "con_amendments tenant lim' st =
     bind_ok (lift_error ConText (auroraInteger lim' 1 2000 ''Amendment limit'')) (\<lambda>n.
       ok (take (nat n) (sort_key (\<lambda>a. - am_at a) (filter (\<lambda>a. am_tenantId a = tenant) (cs_amendments st)))))"

section \<open>Review of a decision\<close>

abbreviation truthy :: "bool option \<Rightarrow> bool" where "truthy b \<equiv> b = Some True"

definition principles_in_force :: "string \<Rightarrow> constitution_state \<Rightarrow> (string, principle) js_map" where
  "principles_in_force tenant st =
     fold (\<lambda>p m. map_set (pr_code p) p m) (filter (\<lambda>p. pr_tenantId p = tenant \<and> pr_status p = InForce) (cs_principles st)) []"

definition flag :: "(string, principle) js_map \<Rightarrow> string \<Rightarrow> string \<Rightarrow> string \<Rightarrow> violation list" where
  "flag active code detail remedy =
     (case map_get active code of None \<Rightarrow> []
      | Some p \<Rightarrow> [\<lparr>vi_code = code, vi_severity = pr_severity p, vi_detail = detail, vi_remedy = remedy\<rparr>])"

definition pass :: "(string, principle) js_map \<Rightarrow> string \<Rightarrow> string list" where
  "pass active code = (if map_has active code then [code] else [])"

definition show_claim :: "claim_type \<Rightarrow> string" where
  "show_claim c = (case c of Observation \<Rightarrow> ''observation'' | Inference \<Rightarrow> ''inference'' | Hypothesis \<Rightarrow> ''hypothesis'' | Prediction \<Rightarrow> ''prediction'')"

definition risky :: "decision_attributes \<Rightarrow> bool" where
  "risky a = (truthy (da_destructive a) \<or> truthy (da_irreversible a))"

definition unfounded :: "decision_attributes \<Rightarrow> bool" where
  "unfounded a = (da_claimType a \<noteq> None \<and> da_claimType a \<noteq> Some Observation \<and> da_hasEvidence a = Some False)"

definition low_relevance :: "decision_attributes \<Rightarrow> bool" where
  "low_relevance a = (truthy (da_notifiesUser a) \<and> or_else (da_userRelevance a) 0 < 3 / 10)"

definition unconsented :: "decision_attributes \<Rightarrow> bool" where
  "unconsented a = (truthy (da_affectsUserData a) \<and> \<not> truthy (da_humanApproved a) \<and> truthy (da_autonomous a))"

definition over_budget :: "decision_attributes \<Rightarrow> bool" where
  "over_budget a = (case (da_estimatedTokens a, da_budgetRemainingTokens a) of (Some e, Some b) \<Rightarrow> e > b | _ \<Rightarrow> False)"

text \<open>The violations, in the order the code pushes them; \<open>contradicted\<close> are the checked codes the actor contradicts.\<close>

definition violations_of :: "(string, principle) js_map \<Rightarrow> decision_attributes \<Rightarrow> string list \<Rightarrow> violation list" where
  "violations_of active a contradicted =
     (if risky a \<and> \<not> truthy (da_humanApproved a)
      then flag active ''C7'' ''A destructive or irreversible action was proposed without human approval.'' ''Request approval before execution.'' else [])
     @ (if risky a \<and> \<not> truthy (da_hasRollbackPlan a)
        then flag active ''C7'' ''No rollback plan was declared for a destructive or irreversible action.'' ''Declare a concrete recovery path first.'' else [])
     @ (if truthy (da_externalSideEffect a) \<and> \<not> truthy (da_verificationPlanned a)
        then flag active ''C7'' ''An external side effect was proposed without a verification step.'' ''Declare how the outcome will be verified.'' else [])
     @ (if da_claimType a \<noteq> None \<and> da_confidence a = None
        then flag active ''C3'' ''A typed claim was proposed without a confidence score.'' ''Attach confidence, source and timestamp to the claim.'' else [])
     @ (if unfounded a
        then flag active ''C4'' (''A '' @ show_claim (the (da_claimType a)) @ '' was proposed without evidence and must not be presented as an observation.'')
               ''Keep the claim typed and gather evidence before promoting it.'' else [])
     @ (if low_relevance a
        then flag active ''C5'' ''A user notification was proposed with low user relevance.''
               ''Digest it instead of interrupting, or raise the evidence for relevance.'' else [])
     @ (if truthy (da_selfModifying a) \<and> \<not> truthy (da_stagedEvolution a)
        then flag active ''C6'' ''A self-modifying change was proposed outside the staged evolution pipeline.''
               ''Route the change through candidate -> sandbox -> test -> review -> deploy.'' else [])
     @ (if truthy (da_affectsProtectedTopic a)
        then flag active ''C10'' ''The decision touches a protected user topic.''
               ''Drop the protected inference; Aurora models behaviour, not identity.'' else [])
     @ (if unconsented a
        then flag active ''C10'' ''Autonomous processing of user data was proposed without consent evidence.''
               ''Obtain explicit consent or downgrade to a proposal.'' else [])
     @ (if over_budget a
        then flag active ''C8'' ''The declared cost exceeds the remaining budget.'' ''Defer the work or raise the budget deliberately.'' else [])
     @ (if da_dissentPreserved a = Some False
        then flag active ''C9'' ''A consensus was reported without preserving dissent.'' ''Report dissenting perspectives and residual uncertainty.'' else [])
     @ (if truthy (da_autonomous a) \<and> da_hasEvidence a = Some False
        then flag active ''C11'' ''Autonomous continuation was proposed without evidence of progress.'' ''Record progress evidence or stop the loop.'' else [])
     @ concat (map (\<lambda>code. flag active (js_upper code) ''The actor declared that this decision contradicts the principle.''
               ''Withdraw the decision or seek an approved amendment.'') contradicted)"

definition satisfied_by :: "(string, principle) js_map \<Rightarrow> decision_attributes \<Rightarrow> string list" where
  "satisfied_by active a =
     (if risky a \<and> truthy (da_humanApproved a) then pass active ''C7'' else [])
     @ (if truthy (da_externalSideEffect a) then pass active ''C12'' else [])
     @ (if da_claimType a \<noteq> None \<and> da_confidence a \<noteq> None then pass active ''C3'' else [])
     @ (if da_claimType a \<noteq> None \<and> \<not> unfounded a then pass active ''C4'' else [])
     @ (if truthy (da_notifiesUser a) \<and> \<not> low_relevance a then pass active ''C5'' else [])
     @ (if truthy (da_selfModifying a) \<and> truthy (da_stagedEvolution a) then pass active ''C6'' else [])
     @ (if truthy (da_affectsUserData a) \<and> \<not> unconsented a then pass active ''C10'' else [])
     @ (if da_estimatedTokens a \<noteq> None \<and> \<not> over_budget a then pass active ''C8'' else [])
     @ (if truthy (da_dissentPreserved a) then pass active ''C9'' else [])
     @ (if truthy (da_autonomous a) \<and> da_hasEvidence a \<noteq> Some False then pass active ''C11'' else [])"

definition verdict_for :: "violation list \<Rightarrow> verdict_kind" where
  "verdict_for vs = (if list_ex (\<lambda>v. vi_severity v = Hard) vs then IsDenied else if vs \<noteq> [] then NeedsReview else IsAllowed)"

record check_input =
  ck_tenantId :: string
  ck_actor :: string
  ck_summary :: string
  ck_attributes :: decision_attributes

definition con_check ::
    "con_lib \<Rightarrow> id \<Rightarrow> msec \<Rightarrow> check_input \<Rightarrow> constitution_state \<Rightarrow> (constitution_error, constitution_verdict) result \<times> constitution_state" where
  "con_check lib fresh now i st =
     (let st = con_seed lib now (ck_tenantId i) st; a = ck_attributes i in
      case bind_ok (mutableIdentity (ck_tenantId i) st) (\<lambda>c.
             bind_ok (lift_error ConText (auroraIds (da_contradictsPrinciple a) 20 ''Contradicted principle codes'')) (\<lambda>codes.
             bind_ok (lift_error ConText (auroraText (ck_summary i) 5000 ''Decision summary'')) (\<lambda>what.
             bind_ok (lift_error ConText (auroraText (ck_actor i) 200 ''Decision actor'')) (\<lambda>who.
               let active = principles_in_force (ck_tenantId i) st; vs = violations_of active a codes in
               ok \<lparr>cv_id = fresh, cv_tenantId = ck_tenantId i, cv_summary = what, cv_actor = who, cv_verdict = verdict_for vs,
                   cv_violations = vs, cv_satisfied = sort (dedupe (satisfied_by active a)), cv_attributeDigest = con_digest lib a,
                   cv_identityVersion = ic_version c, cv_decidedAt = now\<rparr>)))) of
        Inl e \<Rightarrow> (throw e, st)
      | Inr v \<Rightarrow> (ok v, st\<lparr>cs_verdicts := take_last MAX_VERDICTS (cs_verdicts st @ [v])\<rparr>))"

definition con_decisions :: "string \<Rightarrow> verdict_kind option \<Rightarrow> int option \<Rightarrow> constitution_state \<Rightarrow> (constitution_error, constitution_verdict list) result" where
  "con_decisions tenant verdict lim' st =
     bind_ok (lift_error ConText (auroraInteger (or_else lim' 100) 1 1000 ''Decision limit'')) (\<lambda>n.
       ok (take (nat n) (sort_key (\<lambda>v. - cv_decidedAt v)
         (filter (\<lambda>v. cv_tenantId v = tenant \<and> (case verdict of None \<Rightarrow> True | Some k \<Rightarrow> cv_verdict v = k)) (cs_verdicts st)))))"

section \<open>Reports\<close>

record compliance_report =
  cr_total :: nat
  cr_allowed :: nat
  cr_review :: nat
  cr_denied :: nat
  cr_complianceRate :: rat
  cr_topViolations :: "(string \<times> nat \<times> principle_severity) list"
  cr_identityVersion :: nat

text \<open>A code is listed with the severity of its first violation.\<close>

definition count_violation :: "violation \<Rightarrow> (string, nat \<times> principle_severity) js_map \<Rightarrow> (string, nat \<times> principle_severity) js_map" where
  "count_violation v m = (case or_else (map_get m (vi_code v)) (0, vi_severity v) of (n, s) \<Rightarrow> map_set (vi_code v) (n + 1, s) m)"

definition compliance ::
    "con_lib \<Rightarrow> msec \<Rightarrow> string \<Rightarrow> int \<Rightarrow> constitution_state \<Rightarrow> (constitution_error, compliance_report) result \<times> constitution_state" where
  "compliance lib now tenant windowDays st =
     (case lift_error ConText (auroraInteger windowDays 1 3650 ''Compliance window'') of
        Inl e \<Rightarrow> (throw e, st)
      | Inr days \<Rightarrow>
          let ds = filter (\<lambda>v. cv_tenantId v = tenant \<and> cv_decidedAt v \<ge> now - days * 86400000) (cs_verdicts st);
              counts = fold count_violation (concat (map cv_violations ds)) [];
              count = (\<lambda>k. length (filter (\<lambda>v. cv_verdict v = k) ds))
          in (case con_identity lib now tenant st of
                (Inl e, st) \<Rightarrow> (throw e, st)
              | (Inr c, st) \<Rightarrow>
                  (ok \<lparr>cr_total = length ds, cr_allowed = count IsAllowed, cr_review = count NeedsReview, cr_denied = count IsDenied,
                       cr_complianceRate = (if ds = [] then 1 else to_fixed6 (of_nat (count IsAllowed) / of_nat (length ds))),
                       cr_topViolations = take 10 (sort_key (\<lambda>(code, n, s). - int n) counts), cr_identityVersion = ic_version c\<rparr>, st)))"

text \<open>\<^verbatim>\<open>getStats\<close>\<close>

definition con_stats :: "string \<Rightarrow> constitution_state \<Rightarrow> nat" where
  "con_stats tenant st = length (filter (\<lambda>v. cv_tenantId v = tenant) (cs_verdicts st))"

definition principle_line :: "principle \<Rightarrow> string" where
  "principle_line p = pr_code p @ '' ['' @ show_severity (pr_severity p) @ ''] '' @ pr_title p @ '': '' @ pr_statement p"

fun add_lines :: "nat \<Rightarrow> string list \<Rightarrow> string list \<Rightarrow> string list" where
  "add_lines mx acc [] = acc"
| "add_lines mx acc (l # ls) =
     (if length (join newline acc) + length l + 1 > mx then acc else add_lines mx (acc @ [l]) ls)"

definition projection ::
    "con_lib \<Rightarrow> (string \<Rightarrow> nat) \<Rightarrow> msec \<Rightarrow> string \<Rightarrow> int \<Rightarrow> constitution_state \<Rightarrow> (constitution_error, string \<times> nat) result \<times> constitution_state" where
  "projection lib rank now tenant maxCharacters st =
     (case con_identity lib now tenant st of
        (Inl e, st) \<Rightarrow> (throw e, st)
      | (Inr c, st) \<Rightarrow>
          (case con_principles lib rank now tenant (Some InForce) st of (ps, st) \<Rightarrow>
             (bind_ok (lift_error ConText (auroraInteger maxCharacters 200 20000 ''Projection limit'')) (\<lambda>n.
                ok (join newline (add_lines (nat n)
                      [''MISSION (identity v'' @ show_nat (ic_version c) @ ''): '' @ ic_mission c] (map principle_line ps)), length ps)), st)))"

text \<open>The severity \<^verbatim>\<open>why\<close> reports: the severities of a violation are compared with the words critical and high.\<close>

definition why_severity :: "violation list \<Rightarrow> string" where
  "why_severity vs = fold (\<lambda>v m. if show_severity (vi_severity v) = ''critical'' then ''critical''
     else if show_severity (vi_severity v) = ''high'' \<and> m \<noteq> ''critical'' then ''high'' else m) vs ''low''"

definition show_verdict :: "verdict_kind \<Rightarrow> string" where
  "show_verdict k = (case k of IsAllowed \<Rightarrow> ''allow'' | NeedsReview \<Rightarrow> ''review'' | IsDenied \<Rightarrow> ''deny'')"

record verdict_account =
  va_rule :: string
  va_violation :: string
  va_severity :: string
  va_rationale :: "string list"
  va_remediation :: string

definition con_why :: "string \<Rightarrow> id \<Rightarrow> constitution_state \<Rightarrow> (constitution_error, verdict_account) result" where
  "con_why tenant k st =
     (case List.find (\<lambda>v. cv_tenantId v = tenant \<and> cv_id v = k) (cs_verdicts st) of
        None \<Rightarrow> throw VerdictNotFound
      | Some v \<Rightarrow>
          let vs = cv_violations v; remedy = join ''; '' (map vi_remedy vs)
          in ok \<lparr>va_rule = show_verdict (cv_verdict v), va_violation = cv_summary v, va_severity = why_severity vs,
                 va_rationale = [''Verdict: '' @ show_verdict (cv_verdict v), ''Summary: '' @ cv_summary v, ''Violations: '' @ show_nat (length vs)]
                   @ map (\<lambda>w. ''  '' @ vi_code w @ '': '' @ vi_detail w) vs,
                 va_remediation = (if remedy = [] then ''Review action'' else remedy)\<rparr>)"

section \<open>The service\<close>

datatype con_op =
    ConPrinciples msec string "principle_status option"
  | ConIdentity msec string
  | ConSetMission msec string string string
  | ConAdd id msec string principle_input
  | ConAmend id msec amend_input
  | ConRetire id msec string string string string
  | ConCheck id msec check_input

datatype con_answer = GavePrinciples "principle list" | GavePrinciple principle | GaveIdentity identity_core | GaveVerdict constitution_verdict

definition con_step :: "con_lib \<Rightarrow> (string \<Rightarrow> nat) \<Rightarrow> con_op \<Rightarrow> constitution_state \<Rightarrow> (constitution_error, con_answer) result \<times> constitution_state" where
  "con_step lib rank c st =
     (case c of
        ConPrinciples now tenant s \<Rightarrow> (case con_principles lib rank now tenant s st of (ps, st) \<Rightarrow> (ok (GavePrinciples ps), st))
      | ConIdentity now tenant \<Rightarrow> (case con_identity lib now tenant st of (r, st) \<Rightarrow> (bind_ok r (\<lambda>x. ok (GaveIdentity x)), st))
      | ConSetMission now tenant m who \<Rightarrow> (case setMission lib now tenant m who st of (r, st) \<Rightarrow> (bind_ok r (\<lambda>x. ok (GaveIdentity x)), st))
      | ConAdd fresh now tenant i \<Rightarrow> (case addPrinciple lib fresh now tenant i st of (r, st) \<Rightarrow> (bind_ok r (\<lambda>x. ok (GavePrinciple x)), st))
      | ConAmend fresh now i \<Rightarrow> (case amendPrinciple lib fresh now i st of (r, st) \<Rightarrow> (bind_ok r (\<lambda>x. ok (GavePrinciple x)), st))
      | ConRetire fresh now tenant k who why \<Rightarrow>
          (case retirePrinciple lib fresh now tenant k who why st of (r, st) \<Rightarrow> (bind_ok r (\<lambda>x. ok (GavePrinciple x)), st))
      | ConCheck fresh now i \<Rightarrow> (case con_check lib fresh now i st of (r, st) \<Rightarrow> (bind_ok r (\<lambda>x. ok (GaveVerdict x)), st)))"

section \<open>Invariant\<close>

definition con_seeded :: "string \<Rightarrow> principle list \<Rightarrow> bool" where
  "con_seeded tenant ps = list_ex (\<lambda>p. pr_tenantId p = tenant \<and> pr_builtin p) ps"

definition hard_codes :: "string list" where
  "hard_codes = map fst (filter (\<lambda>(code, ti, stmt, cat, sev, why). sev = Hard) builtin_principles)"

text \<open>The principle that holds the tenant to a built-in hard principle.\<close>

definition floor_principle :: "string \<Rightarrow> string \<Rightarrow> principle \<Rightarrow> bool" where
  "floor_principle tenant code p = (pr_tenantId p = tenant \<and> pr_code p = code \<and> pr_builtin p \<and> pr_status p = InForce \<and> pr_severity p = Hard)"

text \<open>The part of the invariant about the principles, and the whole.\<close>

definition principles_good :: "principle list \<Rightarrow> bool" where
  "principles_good ps \<longleftrightarrow>
     distinct (map (\<lambda>p. (pr_tenantId p, pr_code p)) ps)
     \<and> (\<forall>p \<in> set ps. con_seeded (pr_tenantId p) ps)
     \<and> (\<forall>t. con_seeded t ps \<longrightarrow> (\<forall>c \<in> set hard_codes. \<exists>p \<in> set ps. floor_principle t c p))"

definition con_good :: "constitution_state \<Rightarrow> bool" where
  "con_good st \<longleftrightarrow> principles_good (cs_principles st)
     \<and> (\<forall>t. con_seeded t (cs_principles st) \<longrightarrow> t \<in> set (map ic_tenantId (cs_identities st)))
     \<and> length (cs_amendments st) \<le> MAX_AMENDMENTS \<and> length (cs_verdicts st) \<le> MAX_VERDICTS"

lemma principles_goodD:
  assumes "principles_good ps"
  shows "distinct (map (\<lambda>p. (pr_tenantId p, pr_code p)) ps)" and "p \<in> set ps \<Longrightarrow> con_seeded (pr_tenantId p) ps"
    and "con_seeded t ps \<Longrightarrow> c \<in> set hard_codes \<Longrightarrow> \<exists>p \<in> set ps. floor_principle t c p"
  using assms by (auto simp: principles_good_def)

lemma con_goodD:
  assumes "con_good st"
  shows "principles_good (cs_principles st)"
    and "con_seeded t (cs_principles st) \<Longrightarrow> t \<in> set (map ic_tenantId (cs_identities st))"
    and "length (cs_amendments st) \<le> MAX_AMENDMENTS" and "length (cs_verdicts st) \<le> MAX_VERDICTS"
  using assms by (auto simp: con_good_def)

lemma con_seeded_marks: "con_seeded t ps = ((t, True) \<in> set (map (\<lambda>p. (pr_tenantId p, pr_builtin p)) ps))"
  by (auto simp: con_seeded_def list_ex_iff)

lemma con_seeded_append: "con_seeded t (xs @ ys) \<longleftrightarrow> con_seeded t xs \<or> con_seeded t ys"
  by (simp add: con_seeded_def)

lemma seed_principle_sel [simp]: "pr_tenantId (seed_principle now tenant b) = tenant" "pr_code (seed_principle now tenant b) = fst b"
  "pr_builtin (seed_principle now tenant b)" "pr_status (seed_principle now tenant b) = InForce"
  "pr_severity (seed_principle now tenant b) = fst (snd (snd (snd (snd b))))"
  by (simp_all add: seed_principle_def split: prod.split)

lemma con_seeded_seed: "con_seeded t (map (seed_principle now tenant) builtin_principles) \<longleftrightarrow> t = tenant"
  by (auto simp: con_seeded_def list_ex_iff builtin_principles_def)

lemma builtin_principles_distinct: "distinct (map fst builtin_principles)"
  by (simp add: builtin_principles_def)

lemma seed_floor:
  assumes "c \<in> set hard_codes"
  shows "\<exists>p \<in> set (map (seed_principle now tenant) builtin_principles). floor_principle tenant c p"
proof -
  obtain b where "b \<in> set builtin_principles" "fst b = c" "fst (snd (snd (snd (snd b)))) = Hard"
    using assms by (auto simp: hard_codes_def)
  then show ?thesis by (intro bexI [of _ "seed_principle now tenant b"]) (auto simp: floor_principle_def)
qed

lemma seed_principles_good:
  assumes good: "principles_good ps" and new: "\<not> con_seeded tenant ps"
  shows "principles_good (ps @ map (seed_principle now tenant) builtin_principles)"
proof -
  let ?new = "map (seed_principle now tenant) builtin_principles"
  have none: "pr_tenantId p \<noteq> tenant" if "p \<in> set ps" for p
    using principles_goodD(2) [OF good that] new by auto
  have "map (\<lambda>p. (pr_tenantId p, pr_code p)) ?new = map (Pair tenant) (map fst builtin_principles)" by simp
  then have "distinct (map (\<lambda>p. (pr_tenantId p, pr_code p)) ?new)"
    using builtin_principles_distinct by (simp only: distinct_map inj_on_def) simp
  then have "distinct (map (\<lambda>p. (pr_tenantId p, pr_code p)) (ps @ ?new))"
    using principles_goodD(1) [OF good] none by auto
  moreover have "\<forall>p \<in> set (ps @ ?new). con_seeded (pr_tenantId p) (ps @ ?new)"
    using principles_goodD(2) [OF good] by (auto simp: con_seeded_append con_seeded_seed)
  moreover have "\<exists>p \<in> set (ps @ ?new). floor_principle t c p" if "con_seeded t (ps @ ?new)" "c \<in> set hard_codes" for t c
  proof (cases "t = tenant")
    case True
    then show ?thesis using seed_floor [OF that(2), of now tenant] by auto
  next
    case False
    then show ?thesis using principles_goodD(3) [OF good _ that(2)] that(1) by (auto simp: con_seeded_append con_seeded_seed)
  qed
  ultimately show ?thesis by (simp add: principles_good_def)
qed

lemma con_seed_good:
  assumes "con_good st"
  shows "con_good (con_seed lib now tenant st)"
proof (cases "con_seeded tenant (cs_principles st)")
  case True
  then show ?thesis using assms by (simp add: con_seed_def flip: con_seeded_def)
next
  case False
  note good = seed_principles_good [OF con_goodD(1) [OF assms] False, of now]
  have ids: "t \<in> set (map ic_tenantId (cs_identities st)) \<or> t = tenant"
    if "con_seeded t (cs_principles st @ map (seed_principle now tenant) builtin_principles)" for t
    using that con_goodD(2) [OF assms, of t] by (auto simp: con_seeded_append con_seeded_seed)
  show ?thesis
  proof (cases "list_ex (\<lambda>c. ic_tenantId c = tenant) (cs_identities st)")
    case True
    then have "tenant \<in> set (map ic_tenantId (cs_identities st))" by (auto simp: list_ex_iff)
    then have "\<forall>t. con_seeded t (cs_principles st @ map (seed_principle now tenant) builtin_principles)
        \<longrightarrow> t \<in> set (map ic_tenantId (cs_identities st))" using ids by blast
    moreover have "con_seed lib now tenant st = st\<lparr>cs_principles := cs_principles st @ map (seed_principle now tenant) builtin_principles\<rparr>"
      using False True by (simp add: con_seed_def Let_def flip: con_seeded_def)
    ultimately show ?thesis using good con_goodD(3,4) [OF assms] by (simp add: con_good_def)
  next
    case none: False
    obtain c where "con_seed lib now tenant st = st\<lparr>cs_principles := cs_principles st @ map (seed_principle now tenant) builtin_principles,
        cs_identities := cs_identities st @ [c]\<rparr>" "ic_tenantId c = tenant"
      using False none by (simp add: con_seed_def Let_def flip: con_seeded_def)
    then show ?thesis using good ids con_goodD(3,4) [OF assms] by (auto simp: con_good_def)
  qed
qed

lemma con_seed_seeded: "con_seeded tenant (cs_principles (con_seed lib now tenant st))"
  by (simp add: con_seed_def Let_def con_seeded_append con_seeded_seed flip: con_seeded_def)

lemma con_good_frame:
  assumes "con_good st" and "cs_principles st' = cs_principles st" and "map ic_tenantId (cs_identities st') = map ic_tenantId (cs_identities st)"
    and "length (cs_amendments st') \<le> MAX_AMENDMENTS" and "length (cs_verdicts st') \<le> MAX_VERDICTS"
  shows "con_good st'"
  using con_goodD(1,2) [OF assms(1)] assms(2-) unfolding con_good_def by simp

lemma put_identity_good: "con_good st \<Longrightarrow> ic_tenantId c = tenant \<Longrightarrow> con_good (put_identity tenant (\<lambda>_. c) st)"
  by (rule con_good_frame) (auto simp: put_identity_def con_goodD map_update_first_if)

lemma mutableIdentity_Inr: "mutableIdentity tenant st = Inr c \<Longrightarrow> ic_tenantId c = tenant"
  by (auto simp: mutableIdentity_def dest: find_Some_mem split: option.splits)

lemma setMission_good:
  assumes "con_good st"
  shows "con_good (snd (setMission lib now tenant m who st))"
proof -
  note good = con_seed_good [OF assms, of lib now tenant]
  show ?thesis
    using good mutableIdentity_Inr
    by (auto simp: setMission_def Let_def intro!: put_identity_good split: sum.splits)
qed

lemma bumpIdentity_good:
  assumes "con_good st"
  shows "con_good (snd (bumpIdentity lib now tenant change who st))"
  using assms mutableIdentity_Inr by (auto simp: bumpIdentity_def Let_def intro!: put_identity_good split: sum.splits)

lemma recordAmendment_good:
  assumes "con_good st"
  shows "con_good (snd (recordAmendment fresh now p kind before who why st))"
  using assms by (auto simp: recordAmendment_def con_goodD intro!: con_good_frame [OF assms] split: sum.splits prod.splits)

lemma addPrinciple_good:
  assumes "con_good st"
  shows "con_good (snd (addPrinciple lib fresh now tenant i st))"
proof -
  let ?st = "con_seed lib now tenant st"
  note good = con_seed_good [OF assms, of lib now tenant]
  note ps = con_goodD(1) [OF good] and seeded = con_seed_seeded [of tenant lib now st]
  show ?thesis
  proof (cases "new_principle fresh now tenant i (cs_principles ?st)")
    case (Inr p)
    then have p: "pr_tenantId p = tenant" "\<not> pr_builtin p" "\<forall>x \<in> set (cs_principles ?st). \<not> (pr_tenantId x = tenant \<and> pr_code x = pr_code p)"
      by (auto simp: new_principle_def bind_ok_Inr Let_def list_ex_iff split: if_splits)
    have same: "con_seeded t (cs_principles ?st @ [p]) = con_seeded t (cs_principles ?st)" for t
      using p(2) by (simp add: con_seeded_def)
    have "distinct (map (\<lambda>p. (pr_tenantId p, pr_code p)) (cs_principles ?st @ [p]))"
      using principles_goodD(1) [OF ps] p by auto
    moreover have "\<forall>x \<in> set (cs_principles ?st @ [p]). con_seeded (pr_tenantId x) (cs_principles ?st @ [p])"
      unfolding same using principles_goodD(2) [OF ps] seeded p(1) by auto
    moreover have "\<forall>t. con_seeded t (cs_principles ?st @ [p]) \<longrightarrow> (\<forall>c \<in> set hard_codes. \<exists>x \<in> set (cs_principles ?st @ [p]). floor_principle t c x)"
      unfolding same using principles_goodD(3) [OF ps] by auto
    ultimately have "principles_good (cs_principles ?st @ [p])" unfolding principles_good_def by blast
    then have "con_good (?st\<lparr>cs_principles := cs_principles ?st @ [p]\<rparr>)"
      using con_goodD(2-4) [OF good] same by (simp add: con_good_def)
    from recordAmendment_good [OF this] show ?thesis
      by (simp add: addPrinciple_def Let_def Inr split_beta split: sum.split)
  qed (use good in \<open>simp add: addPrinciple_def Let_def\<close>)
qed

text \<open>Replacing a principle keeps the invariant when a built-in hard principle in force stays one.\<close>

lemma put_principle_good:
  assumes good: "con_good st" and found: "List.find (is_principle tenant k) (cs_principles st) = Some p"
    and same: "pr_tenantId p' = pr_tenantId p" "pr_code p' = pr_code p" "pr_builtin p' = pr_builtin p" "pr_id p' = pr_id p"
    and stays: "pr_builtin p \<Longrightarrow> pr_severity p = Hard \<Longrightarrow> pr_severity p' = Hard \<and> pr_status p' = pr_status p"
  shows "con_good (put_principle tenant k p' st)" "List.find (is_principle tenant k) (cs_principles (put_principle tenant k p' st)) = Some p'"
proof -
  let ?ps = "update_first (is_principle tenant k) (\<lambda>_. p') (cs_principles st)"
  have kept: "map g ?ps = map g (cs_principles st)" if "g p' = g p" for g
    by (rule map_update_found [OF found]) (rule that)
  have marks: "con_seeded t ?ps = con_seeded t (cs_principles st)" for t
    using kept [of "\<lambda>p. (pr_tenantId p, pr_builtin p)"] same unfolding con_seeded_marks by simp
  note ps = con_goodD(1) [OF good]
  have "distinct (map (\<lambda>p. (pr_tenantId p, pr_code p)) ?ps)"
    using kept [of "\<lambda>p. (pr_tenantId p, pr_code p)"] same principles_goodD(1) [OF ps] by simp
  moreover have "con_seeded (pr_tenantId x) ?ps" if "x \<in> set ?ps" for x
  proof -
    have "pr_tenantId x \<in> set (map pr_tenantId (cs_principles st))" using that kept [of pr_tenantId] same(1) by (metis image_eqI list.set_map)
    then show ?thesis using principles_goodD(2) [OF ps] by (auto simp: marks)
  qed
  moreover have "\<exists>x \<in> set ?ps. floor_principle t c x" if s: "con_seeded t ?ps" and c: "c \<in> set hard_codes" for t c
  proof -
    obtain x where x: "x \<in> set (cs_principles st)" "floor_principle t c x"
      using principles_goodD(3) [OF ps _ c] s unfolding marks by blast
    show ?thesis
    proof (cases "x = p")
      case True
      then have "floor_principle t c p'" using x(2) same stays by (simp add: floor_principle_def)
      then show ?thesis using update_first_hit [OF found, of "\<lambda>_. p'"] by blast
    next
      case False
      then show ?thesis using update_first_kept [OF found x(1) False] x(2) by blast
    qed
  qed
  ultimately have "principles_good ?ps" unfolding principles_good_def by blast
  then show "con_good (put_principle tenant k p' st)"
    using con_goodD(2-4) [OF good] marks by (simp add: con_good_def put_principle_def)
  have "is_principle tenant k p'" using find_Some_mem [OF found] same by (simp add: is_principle_def)
  then show "List.find (is_principle tenant k) (cs_principles (put_principle tenant k p' st)) = Some p'"
    using find_update_found [OF found, of "\<lambda>_. p'"] by (simp add: put_principle_def)
qed

lemma log_change_good:
  assumes "con_good st"
  shows "con_good (snd (log_change lib fresh now tenant p kind before change who why st))"
  using bumpIdentity_good recordAmendment_good [OF assms]
  by (auto simp: log_change_def split: prod.splits sum.splits) (metis snd_conv)+

lemma mutablePrinciple_cases:
  assumes "con_good st" and "mutablePrinciple lib now tenant k st = (r, st')"
  shows "con_good st'" and "r = Inr p \<Longrightarrow> List.find (is_principle tenant k) (cs_principles st') = Some p"
  using assms con_seed_good [OF assms(1)] by (auto simp: mutablePrinciple_def Let_def split: option.splits)

lemma amendPrinciple_good:
  assumes "con_good st"
  shows "con_good (snd (amendPrinciple lib fresh now i st))"
proof -
  obtain r st1 where m: "mutablePrinciple lib now (mi_tenantId i) (mi_principleId i) st = (r, st1)" by fastforce
  note good = mutablePrinciple_cases(1) [OF assms m]
  show ?thesis
  proof (cases r)
    case (Inr p)
    note found = mutablePrinciple_cases(2) [OF assms m Inr]
    show ?thesis
    proof (cases "pr_builtin p \<and> pr_severity p = Hard \<and> mi_severity i = Some Soft")
      case False
      have hard: "or_else (mi_severity i) Hard = Hard" if "pr_builtin p" "pr_severity p = Hard"
      proof (cases "mi_severity i")
        case (Some s)
        then show ?thesis using False that by (cases s) auto
      qed simp
      have one: "con_good (put_principle (mi_tenantId i) (mi_principleId i) (p\<lparr>pr_title := ti\<rparr>) st1)"
        "List.find (is_principle (mi_tenantId i) (mi_principleId i))
           (cs_principles (put_principle (mi_tenantId i) (mi_principleId i) (p\<lparr>pr_title := ti\<rparr>) st1)) = Some (p\<lparr>pr_title := ti\<rparr>)" for ti
        using put_principle_good [OF good found, of "p\<lparr>pr_title := ti\<rparr>"] by simp_all
      have two: "con_good (put_principle (mi_tenantId i) (mi_principleId i)
          (p\<lparr>pr_title := ti, pr_statement := stmt, pr_severity := or_else (mi_severity i) (pr_severity p), pr_version := n, pr_updatedAt := now\<rparr>)
          (put_principle (mi_tenantId i) (mi_principleId i) (p\<lparr>pr_title := ti\<rparr>) st1))" for ti stmt n
        by (rule put_principle_good(1) [OF one]) (simp_all add: hard)
      show ?thesis using False good one(1) log_change_good [OF two]
        by (simp add: amendPrinciple_def m Inr Let_def split: sum.split)
    qed (use good in \<open>simp add: amendPrinciple_def m Inr\<close>)
  qed (use good in \<open>simp add: amendPrinciple_def m\<close>)
qed

lemma retirePrinciple_good:
  assumes "con_good st"
  shows "con_good (snd (retirePrinciple lib fresh now tenant k who why st))"
proof -
  obtain r st1 where m: "mutablePrinciple lib now tenant k st = (r, st1)" by fastforce
  note good = mutablePrinciple_cases(1) [OF assms m]
  show ?thesis
  proof (cases r)
    case (Inr p)
    note found = mutablePrinciple_cases(2) [OF assms m Inr]
    have "con_good (put_principle tenant k (p\<lparr>pr_status := Retired, pr_version := n, pr_updatedAt := now\<rparr>) st1)"
      if "\<not> (pr_builtin p \<and> pr_severity p = Hard)" for n
      by (rule put_principle_good(1) [OF good found]) (use that in simp_all)
    from log_change_good [OF this] show ?thesis using good by (auto simp: retirePrinciple_def m Inr Let_def)
  qed (use good in \<open>simp add: retirePrinciple_def m\<close>)
qed

lemma con_check_good:
  assumes "con_good st"
  shows "con_good (snd (con_check lib fresh now i st))"
  using con_goodD(3,4) [OF con_seed_good [OF assms]]
  by (auto simp: con_check_def Let_def con_seed_good [OF assms] intro!: con_good_frame [OF con_seed_good [OF assms]] split: sum.split)

interpretation constitutions: durable_service no_constitution "con_step lib rank" con_good for lib rank
proof
  show "con_good no_constitution" by (simp add: con_good_def principles_good_def no_constitution_def con_seeded_def)
  fix v c assume "con_good v"
  then show "con_good (snd (con_step lib rank c v))"
    using con_seed_good setMission_good addPrinciple_good amendPrinciple_good retirePrinciple_good con_check_good
    by (cases c) (simp_all add: con_step_def split_beta con_principles_def con_identity_def Let_def)
qed

section \<open>What a review says\<close>

lemma in_force_get:
  assumes "distinct (map pr_code ps)" "p \<in> set ps"
  shows "map_get (fold (\<lambda>p m. map_set (pr_code p) p m) ps m) (pr_code p) = Some p"
proof -
  have other: "c \<notin> set (map pr_code qs) \<Longrightarrow> map_get (fold (\<lambda>p m. map_set (pr_code p) p m) qs m) c = map_get m c" for c qs m
    by (induction qs arbitrary: m) (auto simp: js_simps)
  show ?thesis using assms
  proof (induction ps arbitrary: m)
    case (Cons q qs)
    show ?case
    proof (cases "p = q")
      case True
      then show ?thesis using Cons.prems(1) other [of "pr_code p" qs] by (simp add: js_simps)
    next
      case False
      then show ?thesis using Cons by simp
    qed
  qed simp
qed

lemma floor_in_force:
  assumes good: "con_good st" and seeded: "con_seeded tenant (cs_principles st)" and c: "c \<in> set hard_codes"
  shows "\<exists>p. map_get (principles_in_force tenant st) c = Some p \<and> pr_severity p = Hard"
proof -
  note ps = con_goodD(1) [OF good]
  let ?ps = "filter (\<lambda>p. pr_tenantId p = tenant \<and> pr_status p = InForce) (cs_principles st)"
  obtain p where p: "p \<in> set (cs_principles st)" "floor_principle tenant c p" using principles_goodD(3) [OF ps seeded c] by blast
  have "distinct (map pr_code ?ps)"
    using principles_goodD(1) [OF ps] by (auto simp: distinct_map inj_on_def)
  from in_force_get [OF this, of p "[]"] show ?thesis using p by (auto simp: floor_principle_def principles_in_force_def)
qed

lemma flag_hard:
  assumes "\<exists>p. map_get active c = Some p \<and> pr_severity p = Hard"
  shows "list_ex (\<lambda>v. vi_severity v = Hard) (flag active c detail remedy)"
  using assms by (auto simp: flag_def)

text \<open>The declarations that no tenant can allow: each breaches a built-in hard principle.\<close>

definition breaches_floor :: "decision_attributes \<Rightarrow> bool" where
  "breaches_floor a \<longleftrightarrow>
     risky a \<and> \<not> (truthy (da_humanApproved a) \<and> truthy (da_hasRollbackPlan a))
     \<or> truthy (da_externalSideEffect a) \<and> \<not> truthy (da_verificationPlanned a)
     \<or> da_claimType a \<noteq> None \<and> da_confidence a = None \<or> unfounded a
     \<or> truthy (da_selfModifying a) \<and> \<not> truthy (da_stagedEvolution a)
     \<or> truthy (da_affectsProtectedTopic a) \<or> unconsented a"

text \<open>The declarations nothing is wrong with.\<close>

definition declared_clean :: "decision_attributes \<Rightarrow> bool" where
  "declared_clean a \<longleftrightarrow> \<not> breaches_floor a \<and> \<not> low_relevance a \<and> \<not> over_budget a \<and> da_dissentPreserved a \<noteq> Some False
     \<and> \<not> (truthy (da_autonomous a) \<and> da_hasEvidence a = Some False) \<and> or_else (da_contradictsPrinciple a) [] = []"

lemma floor_codes: "''C7'' \<in> set hard_codes" "''C3'' \<in> set hard_codes" "''C4'' \<in> set hard_codes" "''C6'' \<in> set hard_codes"
  "''C10'' \<in> set hard_codes"
  by (simp_all add: hard_codes_def builtin_principles_def)

lemma violations_floor:
  assumes floor: "\<And>c. c \<in> set hard_codes \<Longrightarrow> \<exists>p. map_get active c = Some p \<and> pr_severity p = Hard" and "breaches_floor a"
  shows "list_ex (\<lambda>v. vi_severity v = Hard) (violations_of active a codes)"
proof -
  note hard = flag_hard [OF floor [OF floor_codes(1)]] flag_hard [OF floor [OF floor_codes(2)]] flag_hard [OF floor [OF floor_codes(3)]]
    flag_hard [OF floor [OF floor_codes(4)]] flag_hard [OF floor [OF floor_codes(5)]]
  show ?thesis using assms(2) unfolding breaches_floor_def violations_of_def list_ex_append by (elim disjE conjE) (simp_all add: hard)
qed

lemma violations_clean: "declared_clean a \<Longrightarrow> violations_of active a [] = []"
  unfolding violations_of_def append_is_Nil_conv declared_clean_def breaches_floor_def by (intro conjI) auto

lemma con_check_Inr:
  assumes "con_check lib fresh now i st = (Inr x, st')"
  shows "\<exists>codes. auroraIds (da_contradictsPrinciple (ck_attributes i)) 20 ''Contradicted principle codes'' = Inr codes
    \<and> cv_violations x = violations_of (principles_in_force (ck_tenantId i) (con_seed lib now (ck_tenantId i) st)) (ck_attributes i) codes
    \<and> cv_verdict x = verdict_for (cv_violations x)"
  using assms by (auto simp: con_check_def Let_def bind_ok_Inr split: sum.splits)

lemma floor_denied:
  assumes reach: "durable_reach no_constitution fits (con_step lib rank) st" and v: "durable_view no_constitution st = Some v"
    and x: "con_check lib fresh now i v = (Inr x, v')" and breach: "breaches_floor (ck_attributes i)"
  shows "cv_verdict x = IsDenied"
proof -
  have "con_good v"
    using durable_read_value_good [OF constitutions.good_create constitutions.reach_good [OF reach]] v by (simp add: durable_view_def)
  note good = con_seed_good [OF this, of lib now "ck_tenantId i"]
  obtain codes where vs: "cv_violations x
      = violations_of (principles_in_force (ck_tenantId i) (con_seed lib now (ck_tenantId i) v)) (ck_attributes i) codes"
    and verdict: "cv_verdict x = verdict_for (cv_violations x)" using con_check_Inr [OF x] by blast
  from violations_floor [OF floor_in_force [OF good con_seed_seeded] breach]
  show ?thesis unfolding verdict vs verdict_for_def by simp
qed

lemma clean_allowed:
  assumes x: "con_check lib fresh now i v = (Inr x, v')" and clean: "declared_clean (ck_attributes i)"
  shows "cv_verdict x = IsAllowed"
proof -
  obtain codes where c: "auroraIds (da_contradictsPrinciple (ck_attributes i)) 20 ''Contradicted principle codes'' = Inr codes"
    and vs: "cv_violations x
      = violations_of (principles_in_force (ck_tenantId i) (con_seed lib now (ck_tenantId i) v)) (ck_attributes i) codes"
    and verdict: "cv_verdict x = verdict_for (cv_violations x)" using con_check_Inr [OF x] by blast
  have "codes = []" using c clean by (cases "da_contradictsPrinciple (ck_attributes i)") (auto simp: declared_clean_def auroraIds_def)
  then show ?thesis unfolding verdict vs verdict_for_def using violations_clean [OF clean] by simp
qed

section \<open>Properties\<close>

text \<open>C16. The floor of the constitution: whatever was added, amended, softened or retired before, accepted or refused,
  with failed writes and restarts, a decision that declares a breach of a built-in hard principle is denied, and a
  decision whose declarations breach nothing is allowed.\<close>

theorem constitution_floor:
  assumes "durable_reach no_constitution fits (con_step lib rank) st" and "durable_view no_constitution st = Some v"
    and "con_check lib fresh now i v = (Inr x, v')"
  shows "(breaches_floor (ck_attributes i) \<longrightarrow> cv_verdict x = IsDenied) \<and> (declared_clean (ck_attributes i) \<longrightarrow> cv_verdict x = IsAllowed)"
  using floor_denied [OF assms] clean_allowed [OF assms(3)] by blast

text \<open>C18. An amendment whose approver is blank is refused, but the amended principle stays in the state with its next
  version, and no amendment is recorded: every reader sees it, and the next write of the store keeps it.\<close>

theorem unapproved_amendment_stays:
  assumes v: "durable_view no_constitution st = Some v" and found: "mutablePrinciple lib now (mi_tenantId i) (mi_principleId i) v = (Inr p, w)"
    and soft: "\<not> (pr_builtin p \<and> pr_severity p = Hard)" and blank: "js_trim (mi_approvedBy i) = []"
    and sent: "mi_title i = None" "mi_statement i = Some stmt" "stmt \<noteq> []" "auroraText stmt 5000 ''Principle statement'' = Inr t"
  shows "\<exists>st' w'. durable_mutate no_constitution fits written (con_step lib rank (ConAmend fresh now i)) st
      = (Inl (Rejected (ConText (Invalid ''Approver''))), st') \<and> durable_view no_constitution st' = Some w'
    \<and> cs_amendments w' = cs_amendments w
    \<and> (\<exists>q. List.find (is_principle (mi_tenantId i) (mi_principleId i)) (cs_principles w') = Some q
        \<and> pr_statement q = t \<and> pr_version q = pr_version p + 1)"
proof -
  let ?t = "mi_tenantId i" and ?k = "mi_principleId i"
  let ?q = "p\<lparr>pr_statement := t, pr_severity := or_else (mi_severity i) (pr_severity p), pr_version := pr_version p + 1, pr_updatedAt := now\<rparr>"
  let ?w = "put_principle ?t ?k ?q (put_principle ?t ?k p w)"
  have f: "List.find (is_principle ?t ?k) (cs_principles w) = Some p"
    using found by (auto simp: mutablePrinciple_def Let_def split: option.splits)
  have nobody: "auroraText (mi_approvedBy i) 200 ''Approver'' = Inl (Invalid ''Approver'')" using blank by (simp add: auroraText_def)
  have texts: "new_text (mi_title i) 200 ''Principle title'' (pr_title p) = Inr (pr_title p)"
    "new_text (mi_statement i) 5000 ''Principle statement'' (pr_statement p) = Inr t"
    using sent by (simp_all add: new_text_def given_text_def) (cases stmt; simp)
  have log: "log_change lib fresh now ?t p' kind b4 change (mi_approvedBy i) why u = (Inl (ConText (Invalid ''Approver'')), u)"
    for p' kind b4 change why u
    by (simp add: log_change_def recordAmendment_def nobody lift_error_def)
  have soft': "\<not> (pr_builtin p \<and> pr_severity p = Hard \<and> mi_severity i = Some Soft)" using soft by blast
  have "amendPrinciple lib fresh now i v = (Inl (ConText (Invalid ''Approver'')), ?w)"
    unfolding amendPrinciple_def found using soft' by (simp add: texts Let_def log)
  then have "con_step lib rank (ConAmend fresh now i) v = (Inl (ConText (Invalid ''Approver'')), ?w)" by (simp add: con_step_def)
  from refused_mutate [of no_constitution st v "con_step lib rank (ConAmend fresh now i)", OF v this, of fits written]
  obtain st' where st': "durable_mutate no_constitution fits written (con_step lib rank (ConAmend fresh now i)) st
      = (Inl (Rejected (ConText (Invalid ''Approver''))), st')" "durable_view no_constitution st' = Some ?w" by blast
  have p: "is_principle ?t ?k p" using find_Some_mem [OF f] by simp
  have "List.find (is_principle ?t ?k) (cs_principles (put_principle ?t ?k p w)) = Some p"
    using find_update_found [OF f, of "\<lambda>_. p"] p by (simp add: put_principle_def)
  from find_update_found [OF this, of "\<lambda>_. ?q"] have "List.find (is_principle ?t ?k) (cs_principles ?w) = Some ?q"
    using p by (simp add: put_principle_def is_principle_def)
  then show ?thesis using st' by (intro exI [of _ st'] exI [of _ ?w]) (simp add: put_principle_def)
qed

section \<open>Concrete runs\<close>

definition demo_con_lib :: con_lib where
  "demo_con_lib = \<lparr>con_digest = (\<lambda>_. ''d''), con_text_digest = (\<lambda>s. s)\<rparr>"

text \<open>The store after an attempt to retire the hard principle C7.\<close>

definition demo_constitution :: "constitution_state durable" where
  "demo_constitution = snd (durable_mutate no_constitution (\<lambda>_. True) True
     (con_step demo_con_lib length (ConRetire ''a'' 1 ''t'' ''C7'' ''ada'' ''in the way'')) \<lparr>cached = None, disk = Absent\<rparr>)"

definition undeclared :: decision_attributes where
  "undeclared = \<lparr>da_destructive = None, da_irreversible = None, da_externalSideEffect = None, da_affectsUserData = None,
     da_affectsProtectedTopic = None, da_autonomous = None, da_humanApproved = None, da_hasEvidence = None, da_hasRollbackPlan = None,
     da_verificationPlanned = None, da_claimType = None, da_confidence = None, da_userRelevance = None, da_notifiesUser = None,
     da_selfModifying = None, da_stagedEvolution = None, da_dissentPreserved = None, da_contradictsPrinciple = None,
     da_estimatedTokens = None, da_budgetRemainingTokens = None\<rparr>"

definition demo_check :: check_input where
  "demo_check = \<lparr>ck_tenantId = ''t'', ck_actor = ''a'', ck_summary = ''wipe'', ck_attributes = undeclared\<lparr>da_destructive := Some True\<rparr>\<rparr>"

definition demo_amend :: amend_input where
  "demo_amend = \<lparr>mi_tenantId = ''t'', mi_principleId = ''c5'', mi_title = None, mi_statement = Some ''Notify at will.'', mi_severity = None,
     mi_approvedBy = '' '', mi_reason = ''why not''\<rparr>"

lemma demo_constitution_reach: "durable_reach no_constitution (\<lambda>_. True) (con_step demo_con_lib length) demo_constitution"
  unfolding demo_constitution_def by (intro durable_reach.mutate durable_reach.fresh)

lemma demo_constitution_view: "durable_view no_constitution demo_constitution = Some (the (durable_view no_constitution demo_constitution))"
proof -
  have "durable_view no_constitution demo_constitution \<noteq> None"
    by (simp add: demo_constitution_def durable_view_def durable_mutate_def durable_read_def split: prod.split sum.split)
  then show ?thesis by simp
qed

text \<open>A well-formed question is always answered: the identity core is there.\<close>

lemma con_check_answers:
  assumes "durable_reach no_constitution fits (con_step lib rank) st" and "durable_view no_constitution st = Some v"
    and "da_contradictsPrinciple (ck_attributes i) = None" and "auroraText (ck_summary i) 5000 ''Decision summary'' = Inr s"
    and "auroraText (ck_actor i) 200 ''Decision actor'' = Inr a"
  shows "\<exists>x v'. con_check lib fresh now i v = (Inr x, v')"
proof -
  let ?t = "ck_tenantId i"
  have "con_good v"
    using durable_read_value_good [OF constitutions.good_create constitutions.reach_good [OF assms(1)]] assms(2) by (simp add: durable_view_def)
  then have "?t \<in> ic_tenantId ` set (cs_identities (con_seed lib now ?t v))"
    using con_goodD(2) [OF con_seed_good con_seed_seeded, of v ?t lib now] by simp
  then have "List.find (\<lambda>c. ic_tenantId c = ?t) (cs_identities (con_seed lib now ?t v)) \<noteq> None"
    by (auto simp: find_None_iff)
  then obtain c where "mutableIdentity ?t (con_seed lib now ?t v) = Inr c" by (auto simp: mutableIdentity_def)
  moreover have "auroraIds None 20 ''Contradicted principle codes'' = Inr []" by (simp add: auroraIds_def)
  ultimately show ?thesis using assms(3-5) by (simp add: con_check_def Let_def lift_error_def)
qed

lemma constitution_floor_witness:
  "\<exists>x v'. con_check demo_con_lib ''b'' 2 demo_check (the (durable_view no_constitution demo_constitution)) = (Inr x, v') \<and> cv_verdict x = IsDenied"
proof -
  have "da_contradictsPrinciple (ck_attributes demo_check) = None" by (simp add: demo_check_def undeclared_def)
  moreover have "auroraText (ck_summary demo_check) 5000 ''Decision summary'' = Inr ''wipe''"
    by (simp add: demo_check_def auroraText_def js_trim_def js_ws_def control_char_def)
  moreover have "auroraText (ck_actor demo_check) 200 ''Decision actor'' = Inr ''a''"
    by (simp add: demo_check_def auroraText_def js_trim_def js_ws_def control_char_def)
  ultimately obtain x v' where x: "con_check demo_con_lib ''b'' 2 demo_check (the (durable_view no_constitution demo_constitution)) = (Inr x, v')"
    using con_check_answers [OF demo_constitution_reach demo_constitution_view] by blast
  have "breaches_floor (ck_attributes demo_check)" by (simp add: breaches_floor_def demo_check_def risky_def undeclared_def)
  with constitution_floor [OF demo_constitution_reach demo_constitution_view x] show ?thesis using x by blast
qed

definition demo_seeded :: constitution_state where
  "demo_seeded = con_seed demo_con_lib 1 ''t'' no_constitution"

lemma unapproved_amendment_stays_witness:
  "\<exists>st' w' q. durable_mutate no_constitution (\<lambda>_. True) True (con_step demo_con_lib length (ConAmend ''b'' 2 demo_amend)) \<lparr>cached = Some demo_seeded, disk = Absent\<rparr>
      = (Inl (Rejected (ConText (Invalid ''Approver''))), st') \<and> durable_view no_constitution st' = Some w'
    \<and> List.find (is_principle ''t'' ''c5'') (cs_principles w') = Some q \<and> pr_statement q = ''Notify at will.'' \<and> cs_amendments w' = []"
proof -
  have v: "durable_view no_constitution \<lparr>cached = Some demo_seeded, disk = Absent\<rparr> = Some demo_seeded"
    by (simp add: durable_view_def durable_read_def)
  have "(case mutablePrinciple demo_con_lib 2 ''t'' ''c5'' demo_seeded of
      (Inr p, w) \<Rightarrow> pr_severity p = Soft \<and> pr_code p = ''C5'' \<and> cs_amendments w = [] | _ \<Rightarrow> False)" by code_simp
  then obtain p w where f: "mutablePrinciple demo_con_lib 2 ''t'' ''c5'' demo_seeded = (Inr p, w)" and p: "pr_severity p = Soft" "cs_amendments w = []"
    by (auto split: prod.splits sum.splits)
  have f': "mutablePrinciple demo_con_lib 2 (mi_tenantId demo_amend) (mi_principleId demo_amend) demo_seeded = (Inr p, w)"
    using f by (simp add: demo_amend_def)
  have blank: "js_trim (mi_approvedBy demo_amend) = []" by code_simp
  have "auroraText ''Notify at will.'' 5000 ''Principle statement'' = Inr ''Notify at will.''"
    by (simp add: auroraText_def js_trim_def js_ws_def control_char_def)
  from unapproved_amendment_stays [OF v f' _ blank _ _ _ this, of "\<lambda>_. True" True length "''b''"]
  show ?thesis using p unfolding demo_amend_def by auto
qed

text \<open>The bound of a projection does not bound the mission line: it is never longer than the bound, or it is that line.\<close>

lemma add_lines_bound: "length (join newline (add_lines mx acc ls)) \<le> max mx (length (join newline acc))"
proof (induction ls arbitrary: acc)
  case (Cons l ls)
  have snoc: "length (join newline (acc @ [l])) \<le> length (join newline acc) + 1 + length l"
    by (induction acc rule: join.induct) (auto simp: newline_def)
  show ?case
  proof (cases "length (join newline acc) + length l + 1 > mx")
    case False
    then show ?thesis using Cons.IH [of "acc @ [l]"] snoc by simp
  qed simp
qed simp

text \<open>No verdict is ever explained as critical or high: \<^verbatim>\<open>why\<close> looks for severities the service does not use.\<close>

lemma why_always_low: "why_severity vs = ''low''"
proof -
  have "show_severity s \<noteq> ''critical'' \<and> show_severity s \<noteq> ''high''" for s by (cases s) (simp_all add: show_severity_def)
  then show ?thesis unfolding why_severity_def by (induction vs) simp_all
qed

end
