(* ===== verification/Governance.thy ===== *)
theory Governance
  imports RiskAnalyzer Constitution
begin

text \<open>
  \<^verbatim>\<open>AuroraPolicyEngine\<close> of \<^verbatim>\<open>policy/aurora-policy-engine.ts\<close> on its real services: the assessment of theory
  RiskAnalyzer, the review of theory Constitution, the decision of theory PolicyStack and the log of decisions.
  Each service has its own store; \<open>gs_wrote\<close> are the answers of the file system to the three writes.
\<close>

section \<open>The decision\<close>

text \<open>\<^verbatim>\<open>attributesFor\<close>\<close>

definition attributesFor :: "capability_descriptor \<Rightarrow> input_source \<Rightarrow> risk_level \<Rightarrow> bool \<Rightarrow> decision_attributes" where
  "attributesFor descriptor source level approvalEnforced =
     \<lparr>da_destructive = None, da_irreversible = None,
      da_externalSideEffect = Some (desc_risk descriptor = ExternalSideEffect \<or> desc_risk descriptor = Network),
      da_affectsUserData = Some (starts_with (desc_id descriptor) ''user.'' \<or> starts_with (desc_id descriptor) ''memory.''),
      da_affectsProtectedTopic = None, da_autonomous = Some (source \<noteq> SrcApi \<and> source \<noteq> SrcWeb),
      da_humanApproved = Some approvalEnforced, da_hasEvidence = Some True, da_hasRollbackPlan = None, da_verificationPlanned = Some True,
      da_claimType = Some Observation, da_confidence = Some (if level = LevelLow then 9 / 10 else 8 / 10), da_userRelevance = None,
      da_notifiesUser = None, da_selfModifying = None, da_stagedEvolution = None, da_dissentPreserved = None,
      da_contradictsPrinciple = None, da_estimatedTokens = None, da_budgetRemainingTokens = None\<rparr>"

definition show_source :: "input_source \<Rightarrow> string" where
  "show_source s = (case s of SrcWeb \<Rightarrow> ''web'' | SrcCli \<Rightarrow> ''cli'' | SrcApi \<Rightarrow> ''api'' | SrcScheduler \<Rightarrow> ''scheduler'' | SrcAgent \<Rightarrow> ''agent''
     | SrcTelegram \<Rightarrow> ''telegram'' | SrcDiscord \<Rightarrow> ''discord'' | SrcSlack \<Rightarrow> ''slack'' | SrcWebhook \<Rightarrow> ''webhook'')"

text \<open>What the engine keeps of the answers: \<open>None\<close> when the service throws.\<close>

definition assessment_of :: "(risk_error store_error, risk_answer) result \<Rightarrow> (risk_level \<times> string list) option" where
  "assessment_of r = (case r of Inr (GaveAssessment a) \<Rightarrow> Some (ra_level a, map fst (ra_matchedRules a)) | _ \<Rightarrow> None)"

definition verdict_of_kind :: "verdict_kind \<Rightarrow> verdict" where
  "verdict_of_kind k = (case k of IsAllowed \<Rightarrow> VerdictAllow | NeedsReview \<Rightarrow> VerdictReview | IsDenied \<Rightarrow> VerdictDeny)"

definition verdict_of :: "(constitution_error store_error, con_answer) result \<Rightarrow> (verdict \<times> string list) option" where
  "verdict_of r = (case r of Inr (GaveVerdict v) \<Rightarrow> Some (verdict_of_kind (cv_verdict v), map vi_code (cv_violations v)) | _ \<Rightarrow> None)"

record governed_call =
  gc_descriptor :: capability_descriptor
  gc_context :: capability_context
  gc_arguments :: "json option"

definition assess_input_of :: "governed_call \<Rightarrow> assess_input" where
  "assess_input_of c = \<lparr>as_tenantId = ctx_tenantId (gc_context c), as_capabilityId = desc_id (gc_descriptor c),
     as_declaredRisk = desc_risk (gc_descriptor c), as_args = gc_arguments c, as_sessionId = Some (ctx_sessionId (gc_context c)),
     as_record = Some False\<rparr>"

definition check_input_of :: "governed_call \<Rightarrow> risk_level \<Rightarrow> bool \<Rightarrow> check_input" where
  "check_input_of c level approvalEnforced = \<lparr>ck_tenantId = ctx_tenantId (gc_context c),
     ck_actor = ''capability:'' @ desc_id (gc_descriptor c),
     ck_summary = ''Capability '' @ desc_id (gc_descriptor c) @ '' invoked from '' @ show_source (ctx_source (gc_context c)),
     ck_attributes = attributesFor (gc_descriptor c) (ctx_source (gc_context c)) level approvalEnforced\<rparr>"

section \<open>The log of decisions\<close>

record enforcement_record =
  er_id :: id
  er_tenantId :: string
  er_sessionId :: id
  er_capabilityId :: string
  er_declaredRisk :: capability_risk
  er_riskLevel :: risk_level
  er_matchedRules :: "string list"
  er_baseDecision :: decision_kind
  er_finalDecision :: decision_kind
  er_escalated :: bool
  er_constitutionVerdict :: "verdict option"
  er_violatedPrinciples :: "string list"
  er_reasonCode :: string
  er_at :: msec

definition MAX_ENFORCEMENTS :: nat where "MAX_ENFORCEMENTS = 100000"

definition enforcement_of :: "id \<Rightarrow> msec \<Rightarrow> governed_call \<Rightarrow> aurora_input \<Rightarrow> policy_decision \<Rightarrow> enforcement_record" where
  "enforcement_of fresh now c i final =
     \<lparr>er_id = ''enforce-'' @ fresh, er_tenantId = ctx_tenantId (gc_context c), er_sessionId = ctx_sessionId (gc_context c),
      er_capabilityId = desc_id (gc_descriptor c), er_declaredRisk = desc_risk (gc_descriptor c),
      er_riskLevel = aurora_level i (gc_descriptor c), er_matchedRules = matched_rules i, er_baseDecision = Allow,
      er_finalDecision = decision final, er_escalated = (decision final \<noteq> Allow),
      er_constitutionVerdict = map_option fst (ai_verdict i), er_violatedPrinciples = (case ai_verdict i of None \<Rightarrow> [] | Some (_, cs) \<Rightarrow> cs),
      er_reasonCode = reasonCode final, er_at = now\<rparr>"

text \<open>The operation of the log; it cannot throw.\<close>

definition log_step :: "enforcement_record \<Rightarrow> enforcement_record list \<Rightarrow> (unit, unit) result \<times> enforcement_record list" where
  "log_step r ds = (ok (), take_last MAX_ENFORCEMENTS (ds @ [r]))"

section \<open>The engine\<close>

record governance_env =
  ge_options :: aurora_options
  ge_lib :: risk_lib
  ge_rank :: "string \<Rightarrow> nat"
  ge_compiles :: "string \<Rightarrow> bool"
  ge_con_lib :: con_lib
  ge_fits_risks :: "risk_state \<Rightarrow> bool"
  ge_fits_constitution :: "constitution_state \<Rightarrow> bool"
  ge_fits_log :: "enforcement_record list \<Rightarrow> bool"

text \<open>\<open>gs_log\<close> is \<open>None\<close> for an engine that records nothing.\<close>

record governance_state =
  gs_risks :: "risk_state durable"
  gs_constitution :: "constitution_state durable"
  gs_log :: "enforcement_record list durable option"

definition governance_decide ::
    "governance_env \<Rightarrow> id \<Rightarrow> msec \<Rightarrow> bool \<times> bool \<times> bool \<Rightarrow> governed_call \<Rightarrow> governance_state \<Rightarrow> policy_decision \<times> aurora_input \<times> governance_state" where
  "governance_decide env fresh now wrote c gs =
     (let d = gc_descriptor c;
          (ra, rst) = durable_mutate no_risks (ge_fits_risks env) (fst wrote)
            (risk_step (ge_lib env) (ge_rank env) (ge_compiles env) (RiskAssess fresh now (assess_input_of c))) (gs_risks gs);
          i0 = \<lparr>ai_assessment = assessment_of ra, ai_verdict = None\<rparr>;
          risk = risk_decision (ge_options env) i0 d;
          (verdict, cst) =
            (if consequential (ge_options env) i0 d
             then (case durable_mutate no_constitution (ge_fits_constitution env) (fst (snd wrote))
                          (con_step (ge_con_lib env) (ge_rank env)
                            (ConCheck fresh now (check_input_of c (aurora_level i0 d) (risk \<noteq> None)))) (gs_constitution gs) of
                     (rc, cst) \<Rightarrow> (verdict_of rc, cst))
             else (None, gs_constitution gs));
          i = i0\<lparr>ai_verdict := verdict\<rparr>;
          final = aurora_decide (ge_options env) i d;
          entries = (case gs_log gs of None \<Rightarrow> None
                 | Some l \<Rightarrow> Some (snd (durable_mutate [] (ge_fits_log env) (snd (snd wrote)) (log_step (enforcement_of fresh now c i final)) l)))
      in (final, i, \<lparr>gs_risks = rst, gs_constitution = cst, gs_log = entries\<rparr>))"

section \<open>Reports\<close>

definition enforcement_decisions ::
    "string \<Rightarrow> bool \<Rightarrow> int option \<Rightarrow> enforcement_record list option \<Rightarrow> (aurora_error, enforcement_record list) result" where
  "enforcement_decisions tenant escalatedOnly lim' entries =
     (case entries of
        None \<Rightarrow> ok []
      | Some ds \<Rightarrow>
          bind_ok (auroraInteger (or_else lim' 100) 1 1000 ''Enforcement limit'') (\<lambda>n.
            ok (take (nat n) (sort_key (\<lambda>r. - er_at r)
              (filter (\<lambda>r. er_tenantId r = tenant \<and> (escalatedOnly \<longrightarrow> er_escalated r)) ds)))))"

record enforcement_summary =
  es_total :: nat
  es_escalated :: nat
  es_denied :: nat
  es_escalationRate :: rat
  es_byLevel :: "(risk_level, nat) js_map"
  es_topRules :: "(string, nat) js_map"
  es_topPrinciples :: "(string, nat) js_map"

definition enforcement_report :: "msec \<Rightarrow> string \<Rightarrow> int \<Rightarrow> enforcement_record list option \<Rightarrow> (aurora_error, enforcement_summary) result" where
  "enforcement_report now tenant windowDays entries =
     (case entries of
        None \<Rightarrow> ok \<lparr>es_total = 0, es_escalated = 0, es_denied = 0, es_escalationRate = 0, es_byLevel = [], es_topRules = [], es_topPrinciples = []\<rparr>
      | Some ds \<Rightarrow>
          bind_ok (auroraInteger windowDays 1 365 ''Enforcement window'') (\<lambda>days.
            let rs = filter (\<lambda>r. er_tenantId r = tenant \<and> er_at r \<ge> now - days * 86400000) ds;
                escalated = length (filter er_escalated rs)
            in ok \<lparr>es_total = length rs, es_escalated = escalated, es_denied = length (filter (\<lambda>r. er_finalDecision r = Deny) rs),
                   es_escalationRate = (if rs = [] then 0 else to_fixed6 (of_nat escalated / of_nat (length rs))),
                   es_byLevel = tally (map er_riskLevel rs), es_topRules = top_ten (tally (concat (map er_matchedRules rs))),
                   es_topPrinciples = top_ten (tally (concat (map er_violatedPrinciples rs)))\<rparr>))"

section \<open>Facts\<close>

text \<open>The stores an engine can be in front of.\<close>

definition governance_reached :: "governance_env \<Rightarrow> governance_state \<Rightarrow> bool" where
  "governance_reached env gs \<longleftrightarrow>
     durable_reach no_risks (ge_fits_risks env) (risk_step (ge_lib env) (ge_rank env) (ge_compiles env)) (gs_risks gs)
     \<and> durable_reach no_constitution (ge_fits_constitution env) (con_step (ge_con_lib env) (ge_rank env)) (gs_constitution gs)"

lemma mutate_Inr:
  assumes "durable_mutate create fits written operation st = (Inr r, st')"
  shows "\<exists>v. durable_view create st = Some v \<and> fst (operation v) = Inr r"
  using assms by (auto simp: durable_mutate_def durable_view_def split: prod.splits option.splits sum.splits if_splits)

lemma mutate_unwritten: "\<exists>e. fst (durable_mutate create fits False operation st) = Inl e"
  by (auto simp: durable_mutate_def split: prod.split option.split sum.split)

lemma mutate_ok:
  assumes "durable_view create st = Some v" "fst (operation v) = Inr r" "\<And>x. fits x"
  shows "fst (durable_mutate create fits True operation st) = Inr r"
proof -
  obtain s0 where "durable_read create st = (Some v, s0)" using assms(1) by (cases "durable_read create st") (simp add: durable_view_def)
  then show ?thesis using assms(2,3) by (cases "operation v") (simp add: durable_mutate_def)
qed

lemma aurora_raises:
  assumes "risk_decision options i x = Some r" and "decision r \<noteq> Allow"
  shows "decision (aurora_decide options i x) \<noteq> Allow \<and> (decision r = Deny \<longrightarrow> decision (aurora_decide options i x) = Deny)"
proof (cases "consequential options i x")
  case True
  then show ?thesis using assms
    by (cases "ai_verdict i"; cases "fst (the (ai_verdict i))"; cases "the (ai_verdict i)") (simp_all add: aurora_decide_def)
qed (use assms in \<open>simp add: aurora_decide_def\<close>)

lemma decide_risk:
  assumes "governance_decide env fresh now wrote c gs = (final, i, gs')"
  shows "risk_decision (ge_options env) i (gc_descriptor c)
      = risk_decision (ge_options env) \<lparr>ai_assessment = ai_assessment i, ai_verdict = None\<rparr> (gc_descriptor c)"
    and "consequential (ge_options env) i (gc_descriptor c)
      = consequential (ge_options env) \<lparr>ai_assessment = ai_assessment i, ai_verdict = None\<rparr> (gc_descriptor c)"
  by (simp_all add: risk_decision_def consequential_def aurora_level_def matched_rules_def)

text \<open>The parts of a decision.\<close>

lemma governance_decide_parts:
  assumes "governance_decide env fresh now wrote c gs = (final, i, gs')"
  shows "final = aurora_decide (ge_options env) i (gc_descriptor c)"
    and "ai_assessment i = assessment_of (fst (durable_mutate no_risks (ge_fits_risks env) (fst wrote)
           (risk_step (ge_lib env) (ge_rank env) (ge_compiles env) (RiskAssess fresh now (assess_input_of c))) (gs_risks gs)))"
    and "ai_verdict i = (if consequential (ge_options env) i (gc_descriptor c)
           then verdict_of (fst (durable_mutate no_constitution (ge_fits_constitution env) (fst (snd wrote))
             (con_step (ge_con_lib env) (ge_rank env) (ConCheck fresh now (check_input_of c (aurora_level i (gc_descriptor c))
               (risk_decision (ge_options env) i (gc_descriptor c) \<noteq> None)))) (gs_constitution gs)))
           else None)"
  using assms
  by (auto simp: governance_decide_def Let_def decide_risk [OF assms] aurora_level_def split: prod.splits if_splits)

lemma governance_reached_step:
  assumes "governance_reached env gs" and "governance_decide env fresh now wrote c gs = (final, i, gs')"
  shows "governance_reached env gs'"
proof -
  obtain ra rst where r: "durable_mutate no_risks (ge_fits_risks env) (fst wrote)
      (risk_step (ge_lib env) (ge_rank env) (ge_compiles env) (RiskAssess fresh now (assess_input_of c))) (gs_risks gs) = (ra, rst)" by fastforce
  have "durable_reach no_risks (ge_fits_risks env) (risk_step (ge_lib env) (ge_rank env) (ge_compiles env)) rst"
    using durable_reach.mutate [of no_risks "ge_fits_risks env" "risk_step (ge_lib env) (ge_rank env) (ge_compiles env)" "gs_risks gs"
        "fst wrote" "RiskAssess fresh now (assess_input_of c)"] assms(1) by (simp add: r governance_reached_def)
  moreover have "durable_reach no_constitution (ge_fits_constitution env) (con_step (ge_con_lib env) (ge_rank env))
      (snd (durable_mutate no_constitution (ge_fits_constitution env) w (con_step (ge_con_lib env) (ge_rank env) x) (gs_constitution gs)))" for w x
    using assms(1) by (intro durable_reach.mutate) (simp add: governance_reached_def)
  then have "durable_reach no_constitution (ge_fits_constitution env) (con_step (ge_con_lib env) (ge_rank env)) (gs_constitution gs')"
    using assms by (auto simp: governance_decide_def r Let_def governance_reached_def split: prod.splits if_splits) (metis snd_conv)+
  ultimately show ?thesis using assms(2) by (auto simp: governance_reached_def governance_decide_def r Let_def split: prod.splits)
qed

section \<open>Properties\<close>




text \<open>The log: whatever the writes did, a reader sees the decision as the newest entry, and never more than the bound.\<close>

lemma decision_logged:
  assumes run: "governance_decide env fresh now wrote c gs = (final, i, gs')" and l: "gs_log gs = Some l" "durable_view [] l = Some ds"
  shows "\<exists>l'. gs_log gs' = Some l' \<and> durable_view [] l' = Some (take_last MAX_ENFORCEMENTS (ds @ [enforcement_of fresh now c i final]))"
proof -
  obtain s0 where "durable_read [] l = (Some ds, s0)" using l(2) by (cases "durable_read [] l") (simp add: durable_view_def)
  then have "durable_view [] (snd (durable_mutate [] (ge_fits_log env) w (log_step r) l)) = Some (take_last MAX_ENFORCEMENTS (ds @ [r]))" for w r
    by (simp add: durable_mutate_def log_step_def durable_view_def durable_read_def)
  then show ?thesis using run l(1) by (auto simp: governance_decide_def Let_def split: prod.splits)
qed

lemma decisions_bounded: "length (take_last MAX_ENFORCEMENTS ds) \<le> MAX_ENFORCEMENTS"
  by simp

section \<open>Concrete calls\<close>

definition demo_env :: governance_env where
  "demo_env = \<lparr>ge_options = \<lparr>ao_confirmAt = None, ao_denyAt = None, ao_alwaysCheckConstitution = False\<rparr>, ge_lib = demo_lib,
     ge_rank = length, ge_compiles = (\<lambda>_. True), ge_con_lib = demo_con_lib, ge_fits_risks = (\<lambda>_. True),
     ge_fits_constitution = (\<lambda>_. True), ge_fits_log = (\<lambda>_. True)\<rparr>"

definition demo_governance :: governance_state where
  "demo_governance = \<lparr>gs_risks = demo_risks, gs_constitution = demo_constitution, gs_log = None\<rparr>"

definition demo_governed :: "string \<Rightarrow> governed_call" where
  "demo_governed k = \<lparr>gc_descriptor = \<lparr>desc_id = k, desc_risk = WorkspaceWrite, desc_sideEffect = True\<rparr>,
     gc_context = demo_ctx\<lparr>ctx_source := SrcScheduler\<rparr>, gc_arguments = Some (JObj [(''sql'', JStr ''DROP TABLE users'')])\<rparr>"

definition demo_decided :: "bool \<Rightarrow> string \<Rightarrow> policy_decision \<times> aurora_input \<times> governance_state" where
  "demo_decided wrote k = governance_decide demo_env ''a'' 2 (wrote, True, True) (demo_governed k) demo_governance"

lemma demo_reached: "governance_reached demo_env demo_governance"
  using demo_risks_reach demo_constitution_reach by (simp add: governance_reached_def demo_env_def demo_governance_def)

lemma demo_hits: "lib_hit (ge_lib demo_env) sql_drop (argument_text (lib_num (ge_lib demo_env)) (gc_arguments (demo_governed k)))"
  using demo_text by (simp add: demo_env_def demo_governed_def demo_lib_def demo_call_def)

lemma demo_assesses:
  assumes "auroraText k 200 ''Capability ID'' = Inr cap" and "demo_decided True k = (final, i, gs')"
  shows "ai_assessment i \<noteq> None"
proof -
  note parts = governance_decide_parts(2) [OF assms(2) [unfolded demo_decided_def]]
  let ?v = "the (durable_view no_risks demo_risks)"
  have "auroraText (as_capabilityId (assess_input_of (demo_governed k))) 200 ''Capability ID'' = Inr cap"
    using assms(1) by (simp add: assess_input_of_def demo_governed_def)
  from assess_ok [OF this] obtain a v' where "assess demo_lib ''a'' 2 (assess_input_of (demo_governed k)) ?v = (Inr a, v')" by blast
  then have "fst (risk_step demo_lib length (\<lambda>_. True) (RiskAssess ''a'' 2 (assess_input_of (demo_governed k))) ?v) = Inr (GaveAssessment a)"
    by (simp add: risk_step_def)
  from mutate_ok [of no_risks demo_risks _ "risk_step demo_lib length (\<lambda>_. True) (RiskAssess ''a'' 2 (assess_input_of (demo_governed k)))",
      OF demo_risks_view this, of "\<lambda>_. True"] show ?thesis
    unfolding parts by (simp add: demo_env_def demo_governance_def assessment_of_def)
qed



lemma demo_reviews:
  assumes "demo_decided False ''user.model'' = (final, i, gs')"
  shows "risk_decision (ge_options demo_env) i (gc_descriptor (demo_governed ''user.model'')) = None" "ai_verdict i \<noteq> None"
proof -
  let ?c = "demo_governed ''user.model''"
  note parts = governance_decide_parts [OF assms [unfolded demo_decided_def]]
  have "ai_assessment i = None"
    using mutate_unwritten [of no_risks "ge_fits_risks demo_env" "risk_step (ge_lib demo_env) (ge_rank demo_env) (ge_compiles demo_env)
        (RiskAssess ''a'' 2 (assess_input_of ?c))" "gs_risks demo_governance"]
    by (auto simp: parts(2) assessment_of_def)
  then show risk: "risk_decision (ge_options demo_env) i (gc_descriptor ?c) = None"
    by (simp add: risk_decision_def matched_rules_def)
  let ?q = "check_input_of ?c (aurora_level i (gc_descriptor ?c)) False" and ?v = "the (durable_view no_constitution demo_constitution)"
  have q: "da_contradictsPrinciple (ck_attributes ?q) = None"
    "auroraText (ck_summary ?q) 5000 ''Decision summary'' = Inr ''Capability user.model invoked from scheduler''"
    "auroraText (ck_actor ?q) 200 ''Decision actor'' = Inr ''capability:user.model''"
    by (simp_all add: check_input_of_def attributesFor_def demo_governed_def show_source_def auroraText_def js_trim_def js_ws_def control_char_def)
  obtain x v' where "con_check demo_con_lib ''a'' 2 ?q ?v = (Inr x, v')"
    using con_check_answers [OF demo_constitution_reach demo_constitution_view q] by blast
  then have "fst (con_step demo_con_lib length (ConCheck ''a'' 2 ?q) ?v) = Inr (GaveVerdict x)" by (simp add: con_step_def)
  from mutate_ok [of no_constitution demo_constitution _ "con_step demo_con_lib length (ConCheck ''a'' 2 ?q)", OF demo_constitution_view this,
      of "\<lambda>_. True"]
  have "fst (durable_mutate no_constitution (\<lambda>_. True) True (con_step demo_con_lib length (ConCheck ''a'' 2 ?q)) demo_constitution) = Inr (GaveVerdict x)" by simp
  moreover have "consequential (ge_options demo_env) i (gc_descriptor ?c)" by (simp add: consequential_def demo_governed_def starts_with_def)
  ultimately show "ai_verdict i \<noteq> None" unfolding parts(3) risk by (simp add: demo_env_def demo_governance_def verdict_of_def)
qed


end
