(* ===== verification/LifecycleHooks.thy ===== *)
theory LifecycleHooks
  imports Results PolicyStack
begin

text \<open>
  Lifecycle hooks, \<^verbatim>\<open>policy/lifecycle-hooks.ts\<close>: the rules, switches and firing log of an operator in a durable
  state, the evaluation of an event and the layer it gives to the policy stack of theory PolicyStack. A
  regular expression is the parameter \<open>hit pattern text\<close>, \<^verbatim>\<open>localeCompare\<close> the rank of a string, and
  \<open>execute\<close> the governed capability call of a rule (\<open>Some\<close> message when it throws). The input of such a
  call is left out, and so is the text of its result.
\<close>

section \<open>Data\<close>

datatype lifecycle_event = SessionStart | SessionStop | PromptSubmit | ToolPre | ToolPost

datatype hook_action = HookAllow | HookWarn | HookApproval | HookDeny

record hook_rule =
  hr_id :: string
  hr_tenantId :: string
  hr_event :: lifecycle_event
  hr_enabled :: bool
  hr_description :: string
  hr_capabilityIds :: "string list"
  hr_argumentPattern :: "string option"
  hr_agentProfileIds :: "string list option"
  hr_action :: hook_action
  hr_reason :: string
  hr_runCapability :: "string option"
  hr_priority :: int
  hr_createdAt :: msec
  hr_updatedAt :: msec
  hr_firedCount :: nat
  hr_lastFiredAt :: "msec option"

datatype action_status = ActionOk | ActionFailed | ActionSkipped

record hook_firing =
  hf_id :: id
  hf_tenantId :: string
  hf_ruleId :: string
  hf_event :: lifecycle_event
  hf_action :: hook_action
  hf_subject :: string
  hf_reason :: string
  hf_actionResult :: "(string \<times> action_status) option"
  hf_at :: msec

record hook_config =
  hc_tenantId :: string
  hc_enabled :: bool
  hc_allowCapabilityActions :: bool
  hc_actionAllowlist :: "string list"
  hc_updatedAt :: msec

record hook_state =
  hs_rules :: "hook_rule list"
  hs_firings :: "hook_firing list"
  hs_configs :: "hook_config list"

definition no_hooks :: hook_state where
  "no_hooks = \<lparr>hs_rules = [], hs_firings = [], hs_configs = []\<rparr>"

definition MAX_HOOK_RULES :: nat where "MAX_HOOK_RULES = 500"

definition MAX_FIRINGS :: nat where "MAX_FIRINGS = 20000"

datatype hook_error = HookText aurora_error | HookLimit | HookNotFound

record hook_result =
  hx_matched :: "hook_firing list"
  hx_decision :: hook_action
  hx_blocked :: bool

section \<open>Switches\<close>

definition mutableConfig :: "msec \<Rightarrow> string \<Rightarrow> hook_state \<Rightarrow> (hook_error, hook_config) result \<times> hook_state" where
  "mutableConfig now tenant st =
     (case lift_error HookText (auroraText tenant 200 ''Tenant ID'') of
        Inl e \<Rightarrow> (throw e, st)
      | Inr t \<Rightarrow>
          (case List.find (\<lambda>c. hc_tenantId c = t) (hs_configs st) of
             Some c \<Rightarrow> (ok c, st)
           | None \<Rightarrow>
               let c = \<lparr>hc_tenantId = t, hc_enabled = True, hc_allowCapabilityActions = False, hc_actionAllowlist = [], hc_updatedAt = now\<rparr>
               in (ok c, st\<lparr>hs_configs := hs_configs st @ [c]\<rparr>)))"

definition put_config :: "hook_config \<Rightarrow> hook_state \<Rightarrow> hook_state" where
  "put_config c st = st\<lparr>hs_configs := update_first (\<lambda>d. hc_tenantId d = hc_tenantId c) (\<lambda>_. c) (hs_configs st)\<rparr>"

text \<open>\<^verbatim>\<open>[...new Set(items.map((item) => auroraText(item, 200, label)))].slice(0, 50)\<close>\<close>

definition hook_ids :: "string \<Rightarrow> string list \<Rightarrow> (hook_error, string list) result" where
  "hook_ids label xs = bind_ok (lift_error HookText (map_ok (\<lambda>x. auroraText x 200 label) xs)) (\<lambda>ys. ok (take 50 (dedupe ys)))"

definition hook_configure ::
    "msec \<Rightarrow> string \<Rightarrow> bool option \<Rightarrow> bool option \<Rightarrow> string list option \<Rightarrow> hook_state \<Rightarrow> (hook_error, hook_config) result \<times> hook_state" where
  "hook_configure now tenant enabled' allow' allowlist st =
     (case mutableConfig now tenant st of
        (Inl e, st) \<Rightarrow> (throw e, st)
      | (Inr c, st) \<Rightarrow>
          let c1 = c\<lparr>hc_enabled := or_else enabled' (hc_enabled c), hc_allowCapabilityActions := or_else allow' (hc_allowCapabilityActions c)\<rparr>
          in (case allowlist of
                None \<Rightarrow> (let c2 = c1\<lparr>hc_updatedAt := now\<rparr> in (ok c2, put_config c2 st))
              | Some xs \<Rightarrow>
                  (case hook_ids ''Action capability id'' xs of
                     Inl e \<Rightarrow> (throw e, put_config c1 st)
                   | Inr ys \<Rightarrow> (let c2 = c1\<lparr>hc_actionAllowlist := ys, hc_updatedAt := now\<rparr> in (ok c2, put_config c2 st)))))"

section \<open>Rules\<close>

record hook_input =
  hi_tenantId :: string
  hi_event :: lifecycle_event
  hi_description :: string
  hi_action :: hook_action
  hi_reason :: string
  hi_capabilityIds :: "string list option"
  hi_argumentPattern :: "string option"
  hi_agentProfileIds :: "string list option"
  hi_runCapability :: "string option"
  hi_priority :: "int option"
  hi_enabled :: "bool option"
  hi_id :: "string option"

definition new_hook :: "string \<Rightarrow> msec \<Rightarrow> string \<Rightarrow> string option \<Rightarrow> hook_input \<Rightarrow> (hook_error, hook_rule) result" where
  "new_hook fresh now tenant pattern i =
     bind_ok (case given_text (hi_id i) of None \<Rightarrow> ok fresh
              | Some k \<Rightarrow> bind_ok (lift_error HookText (auroraText k 100 ''Rule ID'')) (\<lambda>k. ok (js_lower k))) (\<lambda>rid.
     bind_ok (lift_error HookText (auroraText (hi_description i) 500 ''Hook description'')) (\<lambda>desc.
     bind_ok (hook_ids ''Capability pattern'' (or_else (hi_capabilityIds i) [])) (\<lambda>caps.
     bind_ok (case hi_agentProfileIds i of None \<Rightarrow> ok None | Some [] \<Rightarrow> ok None
              | Some xs \<Rightarrow> bind_ok (hook_ids ''Agent profile ID'' xs) (\<lambda>ys. ok (Some ys))) (\<lambda>profiles.
     bind_ok (lift_error HookText (auroraText (hi_reason i) 500 ''Hook reason'')) (\<lambda>why.
     bind_ok (case hi_runCapability i of None \<Rightarrow> ok None
              | Some c \<Rightarrow> bind_ok (lift_error HookText (auroraText c 200 ''Action capability id'')) (\<lambda>c. ok (Some c))) (\<lambda>run.
     bind_ok (lift_error HookText (auroraInteger (or_else (hi_priority i) 100) 1 1000 ''Hook priority'')) (\<lambda>prio.
       ok \<lparr>hr_id = rid, hr_tenantId = tenant, hr_event = hi_event i, hr_enabled = or_else (hi_enabled i) True,
           hr_description = desc, hr_capabilityIds = caps, hr_argumentPattern = pattern, hr_agentProfileIds = profiles,
           hr_action = hi_action i, hr_reason = why, hr_runCapability = run, hr_priority = prio, hr_createdAt = now,
           hr_updatedAt = now, hr_firedCount = 0, hr_lastFiredAt = None\<rparr>)))))))"

definition hook_define :: "string \<Rightarrow> msec \<Rightarrow> hook_input \<Rightarrow> hook_state \<Rightarrow> (hook_error, hook_rule) result \<times> hook_state" where
  "hook_define fresh now i st =
     (case bind_ok (lift_error HookText (auroraText (hi_tenantId i) 200 ''Tenant ID'')) (\<lambda>tenant.
        bind_ok (lift_error HookText (auroraOptionalText (hi_argumentPattern i) 500 ''Argument pattern'')) (\<lambda>pattern.
          if length (hs_rules st) \<ge> MAX_HOOK_RULES then throw HookLimit else new_hook fresh now tenant pattern i)) of
        Inl e \<Rightarrow> (throw e, st)
      | Inr r \<Rightarrow>
          let this = (\<lambda>x. hr_tenantId x = hr_tenantId r \<and> hr_id x = hr_id r) in
          (case List.find this (hs_rules st) of
             None \<Rightarrow> (ok r, st\<lparr>hs_rules := hs_rules st @ [r]\<rparr>)
           | Some old \<Rightarrow>
               let r' = r\<lparr>hr_createdAt := hr_createdAt old, hr_firedCount := hr_firedCount old\<rparr>
               in (ok r', st\<lparr>hs_rules := update_first this (\<lambda>_. r') (hs_rules st)\<rparr>)))"

definition hook_setEnabled :: "msec \<Rightarrow> string \<Rightarrow> string \<Rightarrow> bool \<Rightarrow> hook_state \<Rightarrow> (hook_error, hook_rule) result \<times> hook_state" where
  "hook_setEnabled now tenant rid on st =
     (let this = (\<lambda>x. hr_tenantId x = tenant \<and> hr_id x = rid) in
      case List.find this (hs_rules st) of
        None \<Rightarrow> (throw HookNotFound, st)
      | Some r \<Rightarrow>
          let r' = r\<lparr>hr_enabled := on, hr_updatedAt := now\<rparr>
          in (ok r', st\<lparr>hs_rules := update_first this (\<lambda>_. r') (hs_rules st)\<rparr>))"

definition hook_remove :: "string \<Rightarrow> string \<Rightarrow> hook_state \<Rightarrow> bool \<times> hook_state" where
  "hook_remove tenant rid st =
     (let this = (\<lambda>x. hr_tenantId x = tenant \<and> hr_id x = rid) in
      if list_ex this (hs_rules st) then (True, st\<lparr>hs_rules := remove_first this (hs_rules st)\<rparr>) else (False, st))"

definition hook_rules :: "(string \<Rightarrow> nat) \<Rightarrow> string \<Rightarrow> lifecycle_event option \<Rightarrow> hook_state \<Rightarrow> hook_rule list" where
  "hook_rules rank tenant event st =
     sort_key (\<lambda>r. hr_priority r) (sort_key (\<lambda>r. rank (hr_id r))
       (filter (\<lambda>r. hr_tenantId r = tenant \<and> (case event of None \<Rightarrow> True | Some e \<Rightarrow> hr_event r = e)) (hs_rules st)))"

definition hook_firings :: "string \<Rightarrow> int \<Rightarrow> hook_state \<Rightarrow> (hook_error, hook_firing list) result" where
  "hook_firings tenant lim' st =
     bind_ok (lift_error HookText (auroraInteger lim' 1 1000 ''Firing limit'')) (\<lambda>n.
       ok (take (nat n) (sort_key (\<lambda>f. - hf_at f) (filter (\<lambda>f. hf_tenantId f = tenant) (hs_firings st)))))"

section \<open>Evaluation\<close>

definition action_strength :: "hook_action \<Rightarrow> nat" where
  "action_strength a = (case a of HookAllow \<Rightarrow> 0 | HookWarn \<Rightarrow> 1 | HookApproval \<Rightarrow> 2 | HookDeny \<Rightarrow> 3)"

definition strongest :: "hook_action \<Rightarrow> hook_action \<Rightarrow> hook_action" where
  "strongest left right = (if action_strength right > action_strength left then right else left)"

text \<open>The expression \<^verbatim>\<open>^part[^\s]*part$\<close> built from a pattern.\<close>

fun glob :: "string \<Rightarrow> string \<Rightarrow> bool" where
  "glob [] s = (s = [])"
| "glob (p # ps) [] = (p = CHR ''*'' \<and> glob ps [])"
| "glob (p # ps) (c # cs) =
     (if p = CHR ''*'' then glob ps (c # cs) \<or> \<not> js_ws c \<and> glob (p # ps) cs else p = c \<and> glob ps cs)"

definition matchesCapability :: "string list \<Rightarrow> string \<Rightarrow> bool" where
  "matchesCapability patterns subject = (patterns = [] \<or> list_ex (\<lambda>p.
     if p = ''*'' \<or> p = ''**'' then True else if CHR ''*'' \<notin> set p then p = subject else glob p subject) patterns)"

record hook_call =
  hk_tenantId :: string
  hk_event :: lifecycle_event
  hk_subject :: string
  hk_payload :: string
  hk_agentProfileId :: "string option"

definition hook_hit :: "(string \<Rightarrow> string \<Rightarrow> bool) \<Rightarrow> hook_call \<Rightarrow> hook_rule \<Rightarrow> bool" where
  "hook_hit hit i r = (matchesCapability (hr_capabilityIds r) (hk_subject i)
     \<and> (case hr_agentProfileIds r of None \<Rightarrow> True | Some [] \<Rightarrow> True
        | Some ps \<Rightarrow> (case given_text (hk_agentProfileId i) of None \<Rightarrow> False | Some p \<Rightarrow> p \<in> set ps))
     \<and> (case given_text (hr_argumentPattern r) of None \<Rightarrow> True | Some p \<Rightarrow> hit p (hk_payload i)))"

text \<open>\<^verbatim>\<open>invoke\<close>: its result and the capabilities it called.\<close>

definition hook_invoke ::
    "(string \<Rightarrow> string option) option \<Rightarrow> hook_config \<Rightarrow> string \<Rightarrow> (string \<times> action_status) \<times> string list" where
  "hook_invoke execute cfg cap =
     (if \<not> hc_allowCapabilityActions cfg then ((cap, ActionSkipped), [])
      else if cap \<notin> set (hc_actionAllowlist cfg) then ((cap, ActionSkipped), [])
      else (case execute of
              None \<Rightarrow> ((cap, ActionSkipped), [])
            | Some run \<Rightarrow> (case run cap of None \<Rightarrow> ((cap, ActionOk), [cap]) | Some msg \<Rightarrow> ((cap, ActionFailed), [cap]))))"

text \<open>The loop over the rules: the firings, the decision and the capabilities run, in order.\<close>

fun hook_loop ::
    "(string \<Rightarrow> string \<Rightarrow> bool) \<Rightarrow> (string \<Rightarrow> string option) option \<Rightarrow> (nat \<Rightarrow> id) \<Rightarrow> msec \<Rightarrow> hook_config \<Rightarrow> hook_call \<Rightarrow> hook_rule list
       \<Rightarrow> hook_firing list \<Rightarrow> hook_action \<Rightarrow> string list \<Rightarrow> hook_firing list \<times> hook_action \<times> string list" where
  "hook_loop hit execute fresh now cfg i [] matched d called = (matched, d, called)"
| "hook_loop hit execute fresh now cfg i (r # rs) matched d called =
     (if \<not> hook_hit hit i r then hook_loop hit execute fresh now cfg i rs matched d called
      else
        let (res, called') = (case hr_runCapability r of None \<Rightarrow> (None, [])
              | Some cap \<Rightarrow> (case hook_invoke execute cfg cap of (x, l) \<Rightarrow> (Some x, l)));
            firing = \<lparr>hf_id = fresh (length matched), hf_tenantId = hk_tenantId i, hf_ruleId = hr_id r, hf_event = hr_event r,
              hf_action = hr_action r, hf_subject = hk_subject i, hf_reason = hr_reason r, hf_actionResult = res, hf_at = now\<rparr>;
            matched' = matched @ [firing]; d' = strongest d (hr_action r)
        in if hr_action r = HookDeny then (matched', d', called @ called')
           else hook_loop hit execute fresh now cfg i rs matched' d' (called @ called'))"

definition record_firings :: "string \<Rightarrow> hook_firing list \<Rightarrow> hook_state \<Rightarrow> hook_state" where
  "record_firings tenant fs st =
     (let st1 = fold (\<lambda>f st. st\<lparr>hs_firings := hs_firings st @ [f],
            hs_rules := update_first (\<lambda>r. hr_tenantId r = tenant \<and> hr_id r = hf_ruleId f)
              (\<lambda>r. r\<lparr>hr_firedCount := hr_firedCount r + 1, hr_lastFiredAt := Some (hf_at f)\<rparr>) (hs_rules st)\<rparr>) fs st
      in st1\<lparr>hs_firings := take_last MAX_FIRINGS (hs_firings st1)\<rparr>)"

datatype hook_op =
    OpConfig msec string
  | OpConfigure msec string "bool option" "bool option" "string list option"
  | OpDefine string msec hook_input
  | OpSetEnabled msec string string bool
  | OpRemove string string
  | OpRecord string "hook_firing list"

definition hook_step :: "hook_op \<Rightarrow> hook_state \<Rightarrow> (hook_error, hook_config option) result \<times> hook_state" where
  "hook_step c st =
     (case c of
        OpConfig now tenant \<Rightarrow> (case mutableConfig now tenant st of (r, st) \<Rightarrow> (bind_ok r (\<lambda>c. ok (Some c)), st))
      | OpConfigure now tenant e a l \<Rightarrow> (case hook_configure now tenant e a l st of (r, st) \<Rightarrow> (bind_ok r (\<lambda>c. ok (Some c)), st))
      | OpDefine fresh now i \<Rightarrow> (case hook_define fresh now i st of (r, st) \<Rightarrow> (bind_ok r (\<lambda>_. ok None), st))
      | OpSetEnabled now tenant rid on \<Rightarrow> (case hook_setEnabled now tenant rid on st of (r, st) \<Rightarrow> (bind_ok r (\<lambda>_. ok None), st))
      | OpRemove tenant rid \<Rightarrow> (ok None, snd (hook_remove tenant rid st))
      | OpRecord tenant fs \<Rightarrow> (ok None, record_firings tenant fs st))"

text \<open>\<^verbatim>\<open>run\<close>: \<open>running\<close> are the tenants with a hook action under way, \<open>wrote\<close> the answers of the file system to the two
  writes, \<open>None\<close> a throw of the store.\<close>

definition hook_run ::
    "(string \<Rightarrow> string \<Rightarrow> bool) \<Rightarrow> (string \<Rightarrow> string option) option \<Rightarrow> (string \<Rightarrow> nat) \<Rightarrow> (hook_state \<Rightarrow> bool) \<Rightarrow> bool \<times> bool
       \<Rightarrow> (nat \<Rightarrow> id) \<Rightarrow> msec \<Rightarrow> string list \<Rightarrow> hook_call \<Rightarrow> hook_state durable \<Rightarrow> (hook_result \<times> string list) option \<times> hook_state durable" where
  "hook_run hit execute rank fits wrote fresh now running i st =
     (case durable_mutate no_hooks fits (fst wrote) (hook_step (OpConfig now (hk_tenantId i))) st of
        (Inl e, st) \<Rightarrow> (None, st)
      | (Inr None, st) \<Rightarrow> (None, st)
      | (Inr (Some cfg), st) \<Rightarrow>
          if \<not> hc_enabled cfg \<or> hk_tenantId i \<in> set running
          then (Some (\<lparr>hx_matched = [], hx_decision = HookAllow, hx_blocked = False\<rparr>, []), st)
          else
            (case durable_read no_hooks st of
               (None, st) \<Rightarrow> (None, st)
             | (Some v, st) \<Rightarrow>
                 (case hook_loop hit execute fresh now cfg i (filter hr_enabled (hook_rules rank (hk_tenantId i) (Some (hk_event i)) v)) [] HookAllow [] of
                    (matched, d, called) \<Rightarrow>
                      let answer = (\<lparr>hx_matched = matched, hx_decision = d, hx_blocked = (d = HookDeny)\<rparr>, called) in
                      if matched = [] then (Some answer, st)
                      else
                        (case durable_mutate no_hooks fits (snd wrote) (hook_step (OpRecord (hk_tenantId i) matched)) st of
                           (Inl e, st) \<Rightarrow> (None, st)
                         | (Inr _, st) \<Rightarrow> (Some answer, st)))))"

text \<open>\<^verbatim>\<open>policyLayer\<close>: the decision for a call that is about to run; a throw of \<^verbatim>\<open>run\<close> allows.\<close>

definition hook_decision :: "hook_result option \<Rightarrow> policy_decision" where
  "hook_decision res =
     (case res of
        None \<Rightarrow> \<lparr>decision = Allow, reasonCode = ''lifecycle_hook_unavailable'', approvalScope = None\<rparr>
      | Some x \<Rightarrow>
          if hx_matched x = [] then \<lparr>decision = Allow, reasonCode = ''lifecycle_hook_no_match'', approvalScope = None\<rparr>
          else (case hx_decision x of
                  HookDeny \<Rightarrow> \<lparr>decision = Deny, reasonCode = ''lifecycle_hook_denied'', approvalScope = None\<rparr>
                | HookApproval \<Rightarrow> \<lparr>decision = RequireApproval, reasonCode = ''lifecycle_hook_confirm'', approvalScope = None\<rparr>
                | _ \<Rightarrow> \<lparr>decision = Allow, reasonCode = ''lifecycle_hook_observed'', approvalScope = None\<rparr>))"

section \<open>Facts\<close>

lemma strongest_le: "action_strength d \<le> action_strength (strongest d a)" "action_strength a \<le> action_strength (strongest d a)"
  "strongest d a = d \<or> strongest d a = a"
  by (auto simp: strongest_def)

lemma deny_strongest: "action_strength a \<le> action_strength HookDeny"
  by (cases a) (simp_all add: action_strength_def)

lemma strength_inj: "action_strength a = action_strength b \<longleftrightarrow> a = b"
  by (cases a; cases b) (simp_all add: action_strength_def)

lemma invoke_allowed: "set (snd (hook_invoke execute cfg cap)) \<subseteq> (if hc_allowCapabilityActions cfg then set (hc_actionAllowlist cfg) else {})"
  by (simp add: hook_invoke_def split: option.split)

text \<open>The decision of the loop, whatever it started from.\<close>

lemma hook_loop_decision:
  assumes "hook_loop hit execute fresh now cfg i rs matched d called = (matched', d', called')"
  shows "action_strength d \<le> action_strength d'"
    and "\<And>r. r \<in> set rs \<Longrightarrow> hook_hit hit i r \<Longrightarrow> action_strength (hr_action r) \<le> action_strength d'"
    and "d' = d \<or> (\<exists>r \<in> set rs. hook_hit hit i r \<and> hr_action r = d')"
    and "set called' \<subseteq> set called \<union> (if hc_allowCapabilityActions cfg then set (hc_actionAllowlist cfg) else {})"
    and "matched' = [] \<longleftrightarrow> matched = [] \<and> \<not> list_ex (hook_hit hit i) rs"
proof -
  have "action_strength d \<le> action_strength d'
    \<and> (\<forall>r \<in> set rs. hook_hit hit i r \<longrightarrow> action_strength (hr_action r) \<le> action_strength d')
    \<and> (d' = d \<or> (\<exists>r \<in> set rs. hook_hit hit i r \<and> hr_action r = d'))
    \<and> set called' \<subseteq> set called \<union> (if hc_allowCapabilityActions cfg then set (hc_actionAllowlist cfg) else {})
    \<and> (matched' = [] \<longleftrightarrow> matched = [] \<and> \<not> list_ex (hook_hit hit i) rs)"
    using assms
  proof (induction rs arbitrary: matched d called)
    case (Cons r rs)
    show ?case
    proof (cases "hook_hit hit i r")
      case False
      then show ?thesis using Cons.IH Cons.prems by auto
    next
      case True
      let ?d = "strongest d (hr_action r)"
      obtain res more where run: "(case hr_runCapability r of None \<Rightarrow> (None, []) | Some cap \<Rightarrow> (case hook_invoke execute cfg cap of (x, l) \<Rightarrow> (Some x, l)))
          = (res, more)" by fastforce
      have more: "set more \<subseteq> (if hc_allowCapabilityActions cfg then set (hc_actionAllowlist cfg) else {})"
        using run invoke_allowed [of execute cfg] by (auto split: option.splits prod.splits) (metis subsetD snd_conv)+
      obtain f where loop: "(if hr_action r = HookDeny then (matched @ [f], ?d, called @ more)
          else hook_loop hit execute fresh now cfg i rs (matched @ [f]) ?d (called @ more)) = (matched', d', called')"
        using Cons.prems True by (simp add: Let_def run split: prod.splits)
      show ?thesis
      proof (cases "hr_action r = HookDeny")
        case deny: True
        then have "d' = HookDeny" using loop strength_inj deny_strongest strongest_le(2) by (metis Pair_inject le_antisym)
        then show ?thesis using loop deny True more deny_strongest by auto
      next
        case False
        then have "hook_loop hit execute fresh now cfg i rs (matched @ [f]) ?d (called @ more) = (matched', d', called')" using loop by simp
        note ih = Cons.IH [OF this]
        have "action_strength d \<le> action_strength d'" "action_strength (hr_action r) \<le> action_strength d'"
          using ih strongest_le(1,2) [of d "hr_action r"] strongest_le(2) [where d = d] by (meson le_trans)+
        moreover have "d' = d \<or> d' = hr_action r \<or> (\<exists>r \<in> set rs. hook_hit hit i r \<and> hr_action r = d')"
          using ih strongest_le(3) [of d "hr_action r"] by metis
        moreover have "set called' \<subseteq> set called \<union> (if hc_allowCapabilityActions cfg then set (hc_actionAllowlist cfg) else {})"
          using ih more by (auto split: if_splits)
        moreover have "matched' \<noteq> []" using ih by simp
        ultimately show ?thesis using ih True by (simp add: eq_commute)
      qed
    qed
  qed auto
  then show "action_strength d \<le> action_strength d'"
    and "\<And>r. r \<in> set rs \<Longrightarrow> hook_hit hit i r \<Longrightarrow> action_strength (hr_action r) \<le> action_strength d'"
    and "d' = d \<or> (\<exists>r \<in> set rs. hook_hit hit i r \<and> hr_action r = d')"
    and "set called' \<subseteq> set called \<union> (if hc_allowCapabilityActions cfg then set (hc_actionAllowlist cfg) else {})"
    and "matched' = [] \<longleftrightarrow> matched = [] \<and> \<not> list_ex (hook_hit hit i) rs"
    by blast+
qed

lemma mutableConfig_rules: "hs_rules (snd (mutableConfig now tenant st)) = hs_rules st"
  by (simp add: mutableConfig_def Let_def split: sum.split option.split)

text \<open>The rules an event concerns.\<close>

definition hooks_hit :: "(string \<Rightarrow> string \<Rightarrow> bool) \<Rightarrow> hook_call \<Rightarrow> hook_state \<Rightarrow> hook_rule list" where
  "hooks_hit hit i st = filter (\<lambda>r. hr_tenantId r = hk_tenantId i \<and> hr_event r = hk_event i \<and> hr_enabled r \<and> hook_hit hit i r) (hs_rules st)"

lemma hook_run_loop:
  assumes run: "hook_run hit execute rank fits wrote fresh now running i st = (Some (x, called), st')"
    and v: "durable_view no_hooks st = Some v" and c: "fst (mutableConfig now (hk_tenantId i) v) = Inr cfg"
    and on: "hc_enabled cfg" "hk_tenantId i \<notin> set running"
  shows "hook_loop hit execute fresh now cfg i (filter hr_enabled (hook_rules rank (hk_tenantId i) (Some (hk_event i)) v)) [] HookAllow []
      = (hx_matched x, hx_decision x, called)" "hx_blocked x = (hx_decision x = HookDeny)"
proof -
  let ?op = "hook_step (OpConfig now (hk_tenantId i))" and ?v = "snd (mutableConfig now (hk_tenantId i) v)"
  have op: "?op v = (Inr (Some cfg), ?v)" using c by (cases "mutableConfig now (hk_tenantId i) v") (simp add: hook_step_def)
  obtain s0 where r0: "durable_read no_hooks st = (Some v, s0)"
    using v by (cases "durable_read no_hooks st") (simp add: durable_view_def)
  obtain s1 where m: "durable_mutate no_hooks fits (fst wrote) ?op st = (Inr (Some cfg), s1)" "cached s1 = Some ?v"
    using run r0 op by (auto simp: hook_run_def durable_mutate_def split: if_splits)
  have r1: "durable_read no_hooks s1 = (Some ?v, s1)" using m(2) by (simp add: durable_read_def)
  have same: "hook_rules rank t e ?v = hook_rules rank t e v" for t e by (simp add: hook_rules_def mutableConfig_rules)
  obtain matched d cs where l: "hook_loop hit execute fresh now cfg i (filter hr_enabled (hook_rules rank (hk_tenantId i) (Some (hk_event i)) v))
      [] HookAllow [] = (matched, d, cs)" by (cases rule: prod_cases3)
  have "x = \<lparr>hx_matched = matched, hx_decision = d, hx_blocked = (d = HookDeny)\<rparr> \<and> called = cs"
    using run on by (auto simp: hook_run_def m(1) r1 same l Let_def split: if_splits prod.splits sum.splits)
  then show "hook_loop hit execute fresh now cfg i (filter hr_enabled (hook_rules rank (hk_tenantId i) (Some (hk_event i)) v)) [] HookAllow []
      = (hx_matched x, hx_decision x, called)" "hx_blocked x = (hx_decision x = HookDeny)" using l by simp_all
qed

lemma hooks_hit_set:
  "set (hooks_hit hit i v) = {r \<in> set (filter hr_enabled (hook_rules rank (hk_tenantId i) (Some (hk_event i)) v)). hook_hit hit i r}"
  by (auto simp: hooks_hit_def hook_rules_def)

section \<open>Properties\<close>

text \<open>The decision of a run is the strongest action of the enabled rules of the tenant that the event concerns,
  whatever their priorities, the call is blocked exactly when one of them denies, and only capabilities on the
  tenant's allowlist are run, none while actions are switched off.\<close>

theorem hooks_strongest_wins:
  assumes "hook_run hit execute rank fits wrote fresh now running i st = (Some (x, called), st')"
    and "durable_view no_hooks st = Some v" and "fst (mutableConfig now (hk_tenantId i) v) = Inr cfg"
    and "hc_enabled cfg" and "hk_tenantId i \<notin> set running"
  shows "list_all (\<lambda>r. action_strength (hr_action r) \<le> action_strength (hx_decision x)) (hooks_hit hit i v)
    \<and> (if hooks_hit hit i v = [] then hx_decision x = HookAllow else hx_decision x \<in> hr_action ` set (hooks_hit hit i v) \<union> {HookAllow})
    \<and> (hx_blocked x \<longleftrightarrow> list_ex (\<lambda>r. hr_action r = HookDeny) (hooks_hit hit i v))
    \<and> set called \<subseteq> (if hc_allowCapabilityActions cfg then set (hc_actionAllowlist cfg) else {})"
proof -
  note l = hook_loop_decision [OF hook_run_loop(1) [OF assms]] and b = hook_run_loop(2) [OF assms]
  note hits = hooks_hit_set [of hit i v rank]
  have all: "list_all (\<lambda>r. action_strength (hr_action r) \<le> action_strength (hx_decision x)) (hooks_hit hit i v)"
    using l(2) by (auto simp: list_all_iff hits)
  have some: "hx_decision x = HookAllow \<or> hx_decision x \<in> hr_action ` set (hooks_hit hit i v)"
    using l(3) by (force simp: hits)
  have "hx_blocked x \<longleftrightarrow> list_ex (\<lambda>r. hr_action r = HookDeny) (hooks_hit hit i v)"
  proof
    assume "hx_blocked x"
    then have "HookDeny \<in> hr_action ` set (hooks_hit hit i v)" using b some by simp
    then show "list_ex (\<lambda>r. hr_action r = HookDeny) (hooks_hit hit i v)" unfolding list_ex_iff by force
  next
    assume "list_ex (\<lambda>r. hr_action r = HookDeny) (hooks_hit hit i v)"
    then have "action_strength HookDeny \<le> action_strength (hx_decision x)" using all by (auto simp: list_all_iff list_ex_iff)
    then show "hx_blocked x" using b deny_strongest strength_inj by (metis le_antisym)
  qed
  then show ?thesis using all some l(4) by auto
qed

lemma hook_layers:
  assumes "st_hooks s = Some d"
  shows "stack_layers s descriptor context = ([default_decide (st_options s) descriptor context]
        @ (case st_opa s of None \<Rightarrow> [] | Some a \<Rightarrow> [opa_decide a])) @ d #
        ((case st_aurora s of None \<Rightarrow> [] | Some (options, answers) \<Rightarrow> [aurora_decide options answers descriptor])
         @ [settings_decide (st_deniedCapabilities s) descriptor])"
  using assms by (simp add: stack_layers_def)


section \<open>Concrete runs\<close>

definition demo_hook :: "string \<Rightarrow> hook_action \<Rightarrow> int \<Rightarrow> hook_rule" where
  "demo_hook k a p = \<lparr>hr_id = k, hr_tenantId = ''t'', hr_event = ToolPre, hr_enabled = True, hr_description = ''d'',
     hr_capabilityIds = [''shell.*''], hr_argumentPattern = None, hr_agentProfileIds = None, hr_action = a, hr_reason = ''no'',
     hr_runCapability = Some ''fmt'', hr_priority = p, hr_createdAt = 0, hr_updatedAt = 0, hr_firedCount = 0, hr_lastFiredAt = None\<rparr>"

definition demo_hooks :: hook_state where
  "demo_hooks = \<lparr>hs_rules = [demo_hook ''b'' HookDeny 9, demo_hook ''a'' HookApproval 1], hs_firings = [],
     hs_configs = [\<lparr>hc_tenantId = ''t'', hc_enabled = True, hc_allowCapabilityActions = True, hc_actionAllowlist = [''fmt''], hc_updatedAt = 0\<rparr>]\<rparr>"

definition demo_hook_call :: hook_call where
  "demo_hook_call = \<lparr>hk_tenantId = ''t'', hk_event = ToolPre, hk_subject = ''shell.run'', hk_payload = '''', hk_agentProfileId = None\<rparr>"

definition demo_hook_run :: "string list \<Rightarrow> (hook_result \<times> string list) option \<times> hook_state durable" where
  "demo_hook_run running = hook_run (\<lambda>_ _. True) (Some (\<lambda>_. None)) length (\<lambda>_. True) (True, True) (\<lambda>n. replicate n CHR ''f'') 5 running demo_hook_call
     \<lparr>cached = Some demo_hooks, disk = Absent\<rparr>"

lemma demo_hook_facts:
  "durable_view no_hooks \<lparr>cached = Some demo_hooks, disk = Absent\<rparr> = Some demo_hooks"
  "fst (mutableConfig 5 (hk_tenantId demo_hook_call) demo_hooks)
     = Inr \<lparr>hc_tenantId = ''t'', hc_enabled = True, hc_allowCapabilityActions = True, hc_actionAllowlist = [''fmt''], hc_updatedAt = 0\<rparr>"
  "hooks_hit (\<lambda>_ _. True) demo_hook_call demo_hooks = [demo_hook ''b'' HookDeny 9, demo_hook ''a'' HookApproval 1]"
  by code_simp+

lemma demo_hook_ran: "\<exists>x st'. demo_hook_run [] = (Some (x, [''fmt'', ''fmt'']), st')"
proof -
  have "(case demo_hook_run [] of (Some (x, called), st') \<Rightarrow> called = [''fmt'', ''fmt''] | _ \<Rightarrow> False)" by code_simp
  then show ?thesis by (auto split: option.splits prod.splits)
qed

lemma hooks_strongest_wins_witness: "\<exists>x st'. demo_hook_run [] = (Some (x, [''fmt'', ''fmt'']), st') \<and> hx_blocked x"
proof -
  obtain x st' where run: "demo_hook_run [] = (Some (x, [''fmt'', ''fmt'']), st')" using demo_hook_ran by blast
  from hooks_strongest_wins [OF run [unfolded demo_hook_run_def] demo_hook_facts(1,2)]
  have "hx_blocked x" unfolding demo_hook_facts(3) by (simp add: demo_hook_def)
  with run show ?thesis by blast
qed


text \<open>While an action of one hook of the tenant runs, no hook fires for any other call of the tenant: the call of
  the example, denied by a rule, is let through.\<close>

lemma running_action_opens:
  assumes "hk_tenantId i \<in> set running"
    and "hook_run hit execute rank fits wrote fresh now running i st = (Some (x, called), st')"
  shows "hx_decision x = HookAllow \<and> hx_matched x = [] \<and> decision (hook_decision (Some x)) = Allow"
  using assms by (auto simp: hook_run_def hook_decision_def split: prod.splits sum.splits option.splits)

lemma running_action_opens_example: "\<exists>x called st'. demo_hook_run [''t''] = (Some (x, called), st') \<and> \<not> hx_blocked x"
proof -
  have "(case demo_hook_run [''t''] of (Some (x, called), st') \<Rightarrow> \<not> hx_blocked x | _ \<Rightarrow> False)" by code_simp
  then show ?thesis by (auto split: option.splits prod.splits)
qed

end
