(* ===== verification/AgentProfiles.thy ===== *)
theory AgentProfiles
  imports Results Types
begin

text \<open>
  The registry of agent profiles, \<^verbatim>\<open>profiles/agent-profile-registry.ts\<close>: the named, versioned instructions
  of a tenant with an optional capability allowlist and model routes, kept in one JSON file. Its \<^verbatim>\<open>load\<close> and
  \<^verbatim>\<open>save\<close> have the effects of \<open>durable_mutate\<close>: the file is read once, an operation that throws leaves in
  memory what it changed before, and a write that fails leaves the change in memory only.
\<close>

record profile_record =
  pf_id :: id
  pf_tenantId :: string
  pf_name :: string
  pf_description :: string
  pf_instructions :: string
  pf_allowed :: "string list option"
  pf_modelRoute :: "string option"
  pf_fallbackModels :: "string list"
  pf_enabled :: bool
  pf_version :: nat
  pf_createdAt :: msec
  pf_updatedAt :: msec

datatype profile_error =
    BadRoute | BadAllowlist | BadNameOrInstructions | NameTaken | BadInstructions | ProfileNotFound | ProfileForeign | ProfileDisabled

section \<open>Validators\<close>

definition lower_or_upper :: "char \<Rightarrow> bool" where
  "lower_or_upper c = (let n = (of_char c :: nat) in (97 \<le> n \<and> n \<le> 122) \<or> (65 \<le> n \<and> n \<le> 90))"

definition digit :: "char \<Rightarrow> bool" where
  "digit c = (let n = (of_char c :: nat) in 48 \<le> n \<and> n \<le> 57)"

text \<open>\<^verbatim>\<open>/^[a-z0-9][a-z0-9-]{0,99}$/i\<close>\<close>

definition provider_ok :: "string \<Rightarrow> bool" where
  "provider_ok s = (case s of [] \<Rightarrow> False
     | c # cs \<Rightarrow> (lower_or_upper c \<or> digit c) \<and> length cs \<le> 99 \<and> list_all (\<lambda>d. lower_or_upper d \<or> digit d \<or> d = CHR ''-'') cs)"

text \<open>\<^verbatim>\<open>modelRoute\<close>: the provider is the text before the first colon.\<close>

definition model_route :: "string \<Rightarrow> (profile_error, string) result" where
  "model_route value =
     (let route = js_trim value; provider = takeWhile (\<lambda>c. c \<noteq> CHR '':'') route in
      if CHR '':'' \<notin> set route \<or> provider = [] \<or> length provider = length route - 1 \<or> \<not> provider_ok provider \<or> length route > 300
      then throw BadRoute else ok route)"

text \<open>\<^verbatim>\<open>/^[a-zA-Z0-9_.:-]{1,200}$/\<close>\<close>

definition capability_id_ok :: "string \<Rightarrow> bool" where
  "capability_id_ok s = (s \<noteq> [] \<and> length s \<le> 200 \<and> list_all (\<lambda>c. lower_or_upper c \<or> digit c \<or> c \<in> set ''_.:-'') s)"

definition allowlist :: "string list option \<Rightarrow> (profile_error, string list option) result" where
  "allowlist value =
     (case value of None \<Rightarrow> ok None
      | Some xs \<Rightarrow>
          let ys = dedupe (filter (\<lambda>t. t \<noteq> []) (map js_trim xs))
          in if length ys > 500 \<or> list_ex (\<lambda>y. \<not> capability_id_ok y) ys then throw BadAllowlist else ok (Some ys))"

definition routes :: "string list \<Rightarrow> (profile_error, string list) result" where
  "routes xs = bind_ok (map_ok model_route xs) (\<lambda>ys. ok (take 8 (dedupe ys)))"

section \<open>Operations\<close>

record profile_input =
  fi_tenantId :: string
  fi_name :: string
  fi_description :: "string option"
  fi_instructions :: string
  fi_allowed :: "string list option"
  fi_modelRoute :: "string option"
  fi_fallbackModels :: "string list option"

definition new_profile :: "id \<Rightarrow> msec \<Rightarrow> profile_input \<Rightarrow> profile_record list \<Rightarrow> (profile_error, profile_record) result" where
  "new_profile fresh now i ps =
     (let name = js_trim (fi_name i); instructions = js_trim (fi_instructions i) in
      if name = [] \<or> length name > 200 \<or> instructions = [] \<or> length instructions > 50000 then throw BadNameOrInstructions
      else if list_ex (\<lambda>p. pf_tenantId p = fi_tenantId i \<and> js_lower (pf_name p) = js_lower name) ps then throw NameTaken
      else
        bind_ok (allowlist (fi_allowed i)) (\<lambda>allowed.
        bind_ok (case given_text (fi_modelRoute i) of None \<Rightarrow> ok None | Some r \<Rightarrow> bind_ok (model_route r) (\<lambda>r. ok (Some r))) (\<lambda>route.
        bind_ok (routes (or_else (fi_fallbackModels i) [])) (\<lambda>fallbacks.
          ok \<lparr>pf_id = fresh, pf_tenantId = fi_tenantId i, pf_name = name, pf_description = take 2000 (js_trim (or_else (fi_description i) [])),
              pf_instructions = instructions, pf_allowed = allowed, pf_modelRoute = route, pf_fallbackModels = fallbacks,
              pf_enabled = True, pf_version = 1, pf_createdAt = now, pf_updatedAt = now\<rparr>))))"

definition profile_add :: "id \<Rightarrow> msec \<Rightarrow> profile_input \<Rightarrow> profile_record list \<Rightarrow> (profile_error, profile_record) result \<times> profile_record list" where
  "profile_add fresh now i ps =
     (case new_profile fresh now i ps of Inl e \<Rightarrow> (throw e, ps) | Inr p \<Rightarrow> (ok p, ps @ [p]))"

text \<open>The fields of an update; \<open>Some None\<close> is \<^verbatim>\<open>null\<close>.\<close>

record profile_change =
  fu_name :: "string option"
  fu_description :: "string option"
  fu_instructions :: "string option"
  fu_allowed :: "string list option option"
  fu_modelRoute :: "string option option"
  fu_fallbackModels :: "string list option"
  fu_enabled :: "bool option"

text \<open>Each field is checked and set in turn: \<open>Inl\<close> is the throw, with the record as it is then.\<close>

definition set_name :: "profile_record list \<Rightarrow> string option \<Rightarrow> profile_record \<Rightarrow> (profile_error, profile_record) result" where
  "set_name ps v p =
     (case v of None \<Rightarrow> ok p
      | Some n \<Rightarrow>
          let name = js_trim n in
          if name = [] \<or> length name > 200
             \<or> list_ex (\<lambda>q. pf_id q \<noteq> pf_id p \<and> pf_tenantId q = pf_tenantId p \<and> js_lower (pf_name q) = js_lower name) ps
          then throw NameTaken else ok (p\<lparr>pf_name := name\<rparr>))"

definition set_instructions :: "string option \<Rightarrow> profile_record \<Rightarrow> (profile_error, profile_record) result" where
  "set_instructions v p =
     (case v of None \<Rightarrow> ok p
      | Some t \<Rightarrow> (let t = js_trim t in if t = [] \<or> length t > 50000 then throw BadInstructions else ok (p\<lparr>pf_instructions := t\<rparr>)))"

definition set_allowed :: "string list option option \<Rightarrow> profile_record \<Rightarrow> (profile_error, profile_record) result" where
  "set_allowed v p =
     (case v of None \<Rightarrow> ok p | Some a \<Rightarrow> bind_ok (allowlist a) (\<lambda>a. ok (p\<lparr>pf_allowed := a\<rparr>)))"

definition set_route :: "string option option \<Rightarrow> profile_record \<Rightarrow> (profile_error, profile_record) result" where
  "set_route v p =
     (case v of None \<Rightarrow> ok p
      | Some None \<Rightarrow> ok (p\<lparr>pf_modelRoute := None\<rparr>)
      | Some (Some r) \<Rightarrow> if js_trim r = [] then ok (p\<lparr>pf_modelRoute := None\<rparr>) else bind_ok (model_route r) (\<lambda>r. ok (p\<lparr>pf_modelRoute := Some r\<rparr>)))"

definition set_fallbacks :: "string list option \<Rightarrow> profile_record \<Rightarrow> (profile_error, profile_record) result" where
  "set_fallbacks v p = (case v of None \<Rightarrow> ok p | Some xs \<Rightarrow> bind_ok (routes xs) (\<lambda>rs. ok (p\<lparr>pf_fallbackModels := rs\<rparr>)))"

fun set_fields :: "(profile_record \<Rightarrow> (profile_error, profile_record) result) list \<Rightarrow> profile_record \<Rightarrow> profile_error option \<times> profile_record" where
  "set_fields [] p = (None, p)"
| "set_fields (f # fs) p = (case f p of Inl e \<Rightarrow> (Some e, p) | Inr q \<Rightarrow> set_fields fs q)"

definition changed_profile :: "msec \<Rightarrow> profile_change \<Rightarrow> profile_record list \<Rightarrow> profile_record \<Rightarrow> profile_error option \<times> profile_record" where
  "changed_profile now u ps p = set_fields
     [set_name ps (fu_name u),
      \<lambda>p. ok (case fu_description u of None \<Rightarrow> p | Some d \<Rightarrow> p\<lparr>pf_description := take 2000 (js_trim d)\<rparr>),
      set_instructions (fu_instructions u), set_allowed (fu_allowed u), set_route (fu_modelRoute u), set_fallbacks (fu_fallbackModels u),
      \<lambda>p. ok (p\<lparr>pf_enabled := or_else (fu_enabled u) (pf_enabled p), pf_version := pf_version p + 1, pf_updatedAt := now\<rparr>)] p"

definition profile_update :: "msec \<Rightarrow> id \<Rightarrow> profile_change \<Rightarrow> profile_record list \<Rightarrow> (profile_error, profile_record) result \<times> profile_record list" where
  "profile_update now k u ps =
     (case List.find (\<lambda>p. pf_id p = k) ps of
        None \<Rightarrow> (throw ProfileNotFound, ps)
      | Some p \<Rightarrow>
          (case changed_profile now u ps p of (err, q) \<Rightarrow>
             (case err of Some e \<Rightarrow> throw e | None \<Rightarrow> ok q, update_first (\<lambda>p. pf_id p = k) (\<lambda>_. q) ps)))"

text \<open>\<^verbatim>\<open>remove\<close>; the file is only written when something went.\<close>

definition profile_remove :: "id \<Rightarrow> profile_record list \<Rightarrow> (profile_error, bool) result \<times> profile_record list" where
  "profile_remove k ps = (let qs = filter (\<lambda>p. pf_id p \<noteq> k) ps in (ok (length qs \<noteq> length ps), qs))"

definition profile_list :: "string \<Rightarrow> profile_record list \<Rightarrow> profile_record list" where
  "profile_list tenant ps = filter (\<lambda>p. pf_tenantId p = tenant) ps"

definition profile_get :: "id \<Rightarrow> profile_record list \<Rightarrow> (profile_error, profile_record) result" where
  "profile_get k ps = (case List.find (\<lambda>p. pf_id p = k) ps of None \<Rightarrow> throw ProfileNotFound | Some p \<Rightarrow> ok p)"

definition profile_snapshot :: "id \<Rightarrow> string \<Rightarrow> profile_record list \<Rightarrow> (profile_error, agent_profile) result" where
  "profile_snapshot k tenant ps =
     bind_ok (profile_get k ps) (\<lambda>p.
       if pf_tenantId p \<noteq> tenant then throw ProfileForeign else if \<not> pf_enabled p then throw ProfileDisabled
       else ok \<lparr>ap_id = pf_id p, ap_name = pf_name p, ap_version = pf_version p, ap_instructions = pf_instructions p,
                ap_allowedCapabilityIds = pf_allowed p, ap_modelRoute = pf_modelRoute p, ap_fallbackModels = pf_fallbackModels p\<rparr>)"

datatype profile_op = ProfileAdd id msec profile_input | ProfileUpdate msec id profile_change | ProfileRemove id

definition profile_step :: "profile_op \<Rightarrow> profile_record list \<Rightarrow> (profile_error, profile_record option) result \<times> profile_record list" where
  "profile_step c ps =
     (case c of
        ProfileAdd fresh now i \<Rightarrow> (case profile_add fresh now i ps of (r, ps) \<Rightarrow> (bind_ok r (\<lambda>p. ok (Some p)), ps))
      | ProfileUpdate now k u \<Rightarrow> (case profile_update now k u ps of (r, ps) \<Rightarrow> (bind_ok r (\<lambda>p. ok (Some p)), ps))
      | ProfileRemove k \<Rightarrow> (case profile_remove k ps of (r, ps) \<Rightarrow> (bind_ok r (\<lambda>_. ok None), ps)))"

section \<open>What the registry keeps\<close>

definition profile_ok :: "profile_record \<Rightarrow> bool" where
  "profile_ok p \<longleftrightarrow> pf_name p \<noteq> [] \<and> length (pf_name p) \<le> 200 \<and> js_trim (pf_name p) = pf_name p
     \<and> pf_instructions p \<noteq> [] \<and> length (pf_instructions p) \<le> 50000 \<and> length (pf_description p) \<le> 2000
     \<and> (\<forall>ys. pf_allowed p = Some ys \<longrightarrow> distinct ys \<and> length ys \<le> 500 \<and> list_all capability_id_ok ys)
     \<and> (\<forall>r. pf_modelRoute p = Some r \<longrightarrow> model_route r = Inr r)
     \<and> distinct (pf_fallbackModels p) \<and> length (pf_fallbackModels p) \<le> 8 \<and> list_all (\<lambda>r. model_route r = Inr r) (pf_fallbackModels p)
     \<and> 1 \<le> pf_version p"

text \<open>Two profiles of a tenant whose names differ in case only are one.\<close>

definition same_name :: "profile_record \<Rightarrow> profile_record \<Rightarrow> bool" where
  "same_name p q \<longleftrightarrow> pf_tenantId p = pf_tenantId q \<and> js_lower (pf_name p) = js_lower (pf_name q)"

definition profiles_ok :: "profile_record list \<Rightarrow> bool" where
  "profiles_ok ps \<longleftrightarrow> list_all profile_ok ps \<and> (\<forall>p \<in> set ps. \<forall>q \<in> set ps. same_name p q \<longrightarrow> pf_id p = pf_id q)"

lemma same_name_flip: "same_name p q \<Longrightarrow> same_name q p"
  by (simp add: same_name_def)

lemma model_route_trimmed: "model_route v = Inr r \<Longrightarrow> model_route r = Inr r"
  by (auto simp: model_route_def Let_def split: if_splits)

lemma allowlist_ok:
  "allowlist v = Inr (Some ys) \<Longrightarrow> distinct ys \<and> length ys \<le> 500 \<and> list_all capability_id_ok ys"
  by (auto simp: allowlist_def Let_def list_ex_iff list_all_iff split: option.splits if_splits)

lemma routes_ok:
  assumes "routes xs = Inr rs"
  shows "distinct rs \<and> length rs \<le> 8 \<and> list_all (\<lambda>r. model_route r = Inr r) rs"
proof -
  obtain ys where ys: "map_ok model_route xs = Inr ys" and rs: "rs = take 8 (dedupe ys)"
    using assms by (auto simp: routes_def bind_ok_Inr)
  have "model_route y = Inr y" if "y \<in> set ys" for y
    using map_ok_all [OF ys] that by (auto simp: list_all2_conv_all_nth in_set_conv_nth intro: model_route_trimmed)
  then show ?thesis unfolding rs by (auto simp: list_all_iff dest: in_set_takeD)
qed

lemma route_given: "(case given_text v of None \<Rightarrow> ok None | Some r \<Rightarrow> bind_ok (model_route r) (\<lambda>r. ok (Some r))) = Inr (Some r) \<Longrightarrow> model_route r = Inr r"
  by (auto simp: bind_ok_Inr dest: model_route_trimmed split: option.splits)

lemma new_profile_ok:
  assumes "new_profile fresh now i ps = Inr p"
  shows "profile_ok p \<and> (\<forall>q \<in> set ps. \<not> same_name p q)"
proof -
  obtain allowed route fallbacks where a: "allowlist (fi_allowed i) = Inr allowed"
    and r: "(case given_text (fi_modelRoute i) of None \<Rightarrow> ok None | Some r \<Rightarrow> bind_ok (model_route r) (\<lambda>r. ok (Some r))) = Inr route"
    and f: "routes (or_else (fi_fallbackModels i) []) = Inr fallbacks"
    and p: "p = \<lparr>pf_id = fresh, pf_tenantId = fi_tenantId i, pf_name = js_trim (fi_name i),
       pf_description = take 2000 (js_trim (or_else (fi_description i) [])), pf_instructions = js_trim (fi_instructions i), pf_allowed = allowed,
       pf_modelRoute = route, pf_fallbackModels = fallbacks, pf_enabled = True, pf_version = 1, pf_createdAt = now, pf_updatedAt = now\<rparr>"
    and t: "js_trim (fi_name i) \<noteq> []" "length (js_trim (fi_name i)) \<le> 200" "js_trim (fi_instructions i) \<noteq> []"
      "length (js_trim (fi_instructions i)) \<le> 50000"
    and u: "\<not> list_ex (\<lambda>p. pf_tenantId p = fi_tenantId i \<and> js_lower (pf_name p) = js_lower (js_trim (fi_name i))) ps"
    using assms by (auto simp: new_profile_def bind_ok_Inr Let_def simp del: list_ex_iff split: if_splits)
  have "profile_ok p" using allowlist_ok [of "fi_allowed i"] a route_given [of "fi_modelRoute i"] r routes_ok [OF f] t
    by (auto simp: profile_ok_def p)
  moreover have "\<not> same_name p q" if "q \<in> set ps" for q using u that by (auto simp: p same_name_def list_ex_iff)
  ultimately show ?thesis by blast
qed

lemma profile_add_good: "profiles_ok ps \<Longrightarrow> profiles_ok (snd (profile_add fresh now i ps))"
proof (cases "new_profile fresh now i ps")
  case (Inr p)
  assume "profiles_ok ps"
  then have "list_all profile_ok (ps @ [p])" "\<forall>x \<in> set (ps @ [p]). \<forall>y \<in> set (ps @ [p]). same_name x y \<longrightarrow> pf_id x = pf_id y"
    using new_profile_ok [OF Inr] unfolding profiles_ok_def by (simp, simp, blast dest: same_name_flip)
  then show ?thesis by (simp add: profile_add_def Inr profiles_ok_def)
qed (simp add: profile_add_def)

text \<open>Every field an update sets keeps the record sound, its id and its tenant; only \<open>set_name\<close> touches the name.\<close>

definition keeps_profile :: "(profile_record \<Rightarrow> (profile_error, profile_record) result) \<Rightarrow> bool" where
  "keeps_profile f \<longleftrightarrow> (\<forall>p q. profile_ok p \<longrightarrow> f p = Inr q \<longrightarrow>
     profile_ok q \<and> pf_id q = pf_id p \<and> pf_tenantId q = pf_tenantId p \<and> pf_name q = pf_name p)"

lemma keeps_description: "keeps_profile (\<lambda>p. ok (case d of None \<Rightarrow> p | Some d \<Rightarrow> p\<lparr>pf_description := take 2000 (js_trim d)\<rparr>))"
  by (cases d) (simp_all add: keeps_profile_def profile_ok_def)

lemma keeps_instructions: "keeps_profile (set_instructions t)"
  unfolding keeps_profile_def profile_ok_def set_instructions_def by (cases t) (simp_all add: Let_def)

lemma keeps_allowed: "keeps_profile (set_allowed a)"
  unfolding keeps_profile_def profile_ok_def set_allowed_def by (cases a) (auto simp: bind_ok_Inr dest: allowlist_ok)

lemma keeps_route: "keeps_profile (set_route r)"
proof -
  have "set_route r p = Inr q \<Longrightarrow> q = p \<or> (\<exists>s. q = p\<lparr>pf_modelRoute := s\<rparr> \<and> (\<forall>x. s = Some x \<longrightarrow> model_route x = Inr x))" for p q
  proof (cases r)
    case (Some v)
    assume "set_route r p = Inr q"
    then show ?thesis unfolding set_route_def Some by (cases v) (auto simp: bind_ok_Inr dest: model_route_trimmed split: if_splits)
  qed (simp add: set_route_def)
  then show ?thesis unfolding keeps_profile_def profile_ok_def by force
qed

lemma keeps_fallbacks: "keeps_profile (set_fallbacks f)"
  unfolding keeps_profile_def profile_ok_def set_fallbacks_def by (cases f) (auto simp: bind_ok_Inr dest: routes_ok)

lemma keeps_version: "keeps_profile (\<lambda>p. ok (p\<lparr>pf_enabled := e p, pf_version := pf_version p + 1, pf_updatedAt := now\<rparr>))"
  by (simp add: keeps_profile_def profile_ok_def)

lemmas keeps_fields = keeps_description keeps_instructions keeps_allowed keeps_route keeps_fallbacks keeps_version

lemma set_fields_keep:
  assumes "set_fields fs p = (err, q)" and "list_all keeps_profile fs" and "profile_ok p"
  shows "profile_ok q \<and> pf_id q = pf_id p \<and> pf_tenantId q = pf_tenantId p \<and> pf_name q = pf_name p"
  using assms
proof (induction fs arbitrary: p)
  case (Cons f fs)
  show ?case
  proof (cases "f p")
    case (Inl e)
    then show ?thesis using Cons.prems by simp
  next
    case (Inr p1)
    have k: "profile_ok p1 \<and> pf_id p1 = pf_id p \<and> pf_tenantId p1 = pf_tenantId p \<and> pf_name p1 = pf_name p"
      using Cons.prems(2,3) Inr by (simp only: list.pred_inject keeps_profile_def)
    have "set_fields fs p1 = (err, q)" using Cons.prems(1) Inr by simp
    from Cons.IH [OF this] k show ?thesis using Cons.prems(2) by simp
  qed
qed simp

lemma set_name_Inr:
  assumes "set_name ps v p = Inr q" and "profile_ok p"
  shows "profile_ok q \<and> pf_id q = pf_id p \<and> pf_tenantId q = pf_tenantId p
    \<and> (q = p \<or> (\<forall>x \<in> set ps. same_name q x \<longrightarrow> pf_id x = pf_id p))"
  using assms by (auto simp: set_name_def Let_def profile_ok_def same_name_def list_ex_iff split: option.splits if_splits)

lemma changed_profile_keeps:
  assumes "changed_profile now u ps p = (err, q)" and "profile_ok p"
  shows "profile_ok q \<and> pf_id q = pf_id p \<and> pf_tenantId q = pf_tenantId p
    \<and> (pf_name q = pf_name p \<or> (\<forall>x \<in> set ps. same_name q x \<longrightarrow> pf_id x = pf_id p))"
proof (cases "set_name ps (fu_name u) p")
  case (Inl e)
  then show ?thesis using assms by (simp add: changed_profile_def)
next
  case (Inr p1)
  note k = set_name_Inr [OF Inr assms(2)]
  have "profile_ok q \<and> pf_id q = pf_id p1 \<and> pf_tenantId q = pf_tenantId p1 \<and> pf_name q = pf_name p1"
  proof (rule set_fields_keep)
    show "set_fields [\<lambda>p. ok (case fu_description u of None \<Rightarrow> p | Some d \<Rightarrow> p\<lparr>pf_description := take 2000 (js_trim d)\<rparr>),
      set_instructions (fu_instructions u), set_allowed (fu_allowed u), set_route (fu_modelRoute u), set_fallbacks (fu_fallbackModels u),
      \<lambda>p. ok (p\<lparr>pf_enabled := or_else (fu_enabled u) (pf_enabled p), pf_version := pf_version p + 1, pf_updatedAt := now\<rparr>)] p1 = (err, q)"
      using assms(1) unfolding changed_profile_def set_fields.simps(2) [of "set_name ps (fu_name u)"] Inr by simp
  qed (use k keeps_fields in simp_all)
  then show ?thesis using k by (auto simp: same_name_def)
qed

lemma profile_update_good:
  assumes g: "profiles_ok ps"
  shows "profiles_ok (snd (profile_update now k u ps))"
proof (cases "List.find (\<lambda>p. pf_id p = k) ps")
  case (Some p)
  obtain err q where c: "changed_profile now u ps p = (err, q)" by (cases "changed_profile now u ps p")
  have p: "p \<in> set ps" "pf_id p = k" using find_Some_mem [OF Some] by simp_all
  then have "profile_ok p" using g by (simp add: profiles_ok_def list_all_iff)
  note q = changed_profile_keeps [OF c this]
  let ?ps = "update_first (\<lambda>p. pf_id p = k) (\<lambda>_. q) ps"
  have mem: "x = q \<or> x \<in> set ps" if "x \<in> set ?ps" for x using update_first_mem [OF that] by auto
  have one: "pf_id x = pf_id q" if "x \<in> set ps" "same_name q x" for x
  proof (cases "pf_name q = pf_name p")
    case True
    then have "same_name p x" using that(2) q by (simp add: same_name_def)
    then show ?thesis using g p(1) that(1) q unfolding profiles_ok_def by metis
  next
    case False
    then show ?thesis using q that by metis
  qed
  have "pf_id x = pf_id y" if "x \<in> set ?ps" "y \<in> set ?ps" "same_name x y" for x y
    using mem [OF that(1)]
  proof
    assume "x = q"
    then show ?thesis using mem [OF that(2)] one that(3) by auto
  next
    assume x: "x \<in> set ps"
    show ?thesis using mem [OF that(2)]
    proof
      assume "y = q"
      then show ?thesis using one [OF x] that(3) by (blast dest: same_name_flip)
    next
      assume "y \<in> set ps"
      then show ?thesis using g x that(3) by (simp add: profiles_ok_def)
    qed
  qed
  moreover have "list_all profile_ok ?ps" using g q by (auto simp: profiles_ok_def list_all_iff dest!: mem)
  ultimately show ?thesis using Some c by (simp add: profile_update_def profiles_ok_def)
qed (use g in \<open>simp add: profile_update_def\<close>)

lemma profile_remove_good: "profiles_ok ps \<Longrightarrow> profiles_ok (snd (profile_remove k ps))"
  by (auto simp: profile_remove_def profiles_ok_def Let_def list_all_iff)

lemma profile_step_good: "profiles_ok ps \<Longrightarrow> profiles_ok (snd (profile_step c ps))"
proof (cases c)
  case (ProfileAdd fresh now i)
  assume "profiles_ok ps"
  from profile_add_good [OF this, of fresh now i] show ?thesis by (simp add: profile_step_def ProfileAdd split_beta)
next
  case (ProfileUpdate now k u)
  assume "profiles_ok ps"
  from profile_update_good [OF this, of now k u] show ?thesis by (simp add: profile_step_def ProfileUpdate split_beta)
next
  case (ProfileRemove k)
  assume "profiles_ok ps"
  from profile_remove_good [OF this, of k] show ?thesis by (simp add: profile_step_def ProfileRemove split_beta)
qed

interpretation pf: durable_service "[]" profile_step profiles_ok
  by unfold_locales (simp add: profiles_ok_def, rule profile_step_good)

text \<open>In every state the registry can reach, with refused updates, failed writes and restarts: names, instructions,
  allowlists and model routes are within their bounds, the versions count from one, and no two profiles of a tenant have
  names that differ in case only.\<close>

theorem profiles_well_formed:
  assumes "durable_reach [] fits profile_step st" and "durable_view [] st = Some ps"
  shows "list_all profile_ok ps \<and> (\<forall>p \<in> set ps. \<forall>q \<in> set ps. same_name p q \<longrightarrow> pf_id p = pf_id q)"
proof -
  have "profiles_ok ps"
    using durable_read_value_good [of profiles_ok "[]" st ps] pf.good_create pf.reach_good [OF assms(1)] assms(2)
    by (simp add: durable_view_def)
  then show ?thesis by (simp add: profiles_ok_def)
qed

definition demo_profile_input :: profile_input where
  "demo_profile_input = \<lparr>fi_tenantId = ''t'', fi_name = '' Reviewer '', fi_description = None, fi_instructions = ''Review.'', fi_allowed = Some [''file.read''],
     fi_modelRoute = Some ''acme:large'', fi_fallbackModels = None\<rparr>"

lemma profiles_well_formed_witness:
  "\<exists>ps. durable_view [] (snd (durable_mutate [] (\<lambda>_. True) True (profile_step (ProfileAdd ''p'' 1 demo_profile_input)) \<lparr>cached = None, disk = Absent\<rparr>))
      = Some ps \<and> map pf_name ps = [''Reviewer''] \<and> list_all profile_ok ps"
proof -
  let ?st = "snd (durable_mutate [] (\<lambda>_. True) True (profile_step (ProfileAdd ''p'' 1 demo_profile_input)) \<lparr>cached = None, disk = Absent\<rparr>)"
  have r: "durable_reach [] (\<lambda>_. True) profile_step ?st" by (intro durable_reach.mutate durable_reach.fresh)
  have "case durable_view [] ?st of None \<Rightarrow> False | Some ps \<Rightarrow> map pf_name ps = [''Reviewer'']" by code_simp
  then show ?thesis using profiles_well_formed [OF r] by (auto split: option.splits)
qed

text \<open>An update refused for one field keeps the fields set before it, at the old version: the new name is what readers see.\<close>

lemma refused_update_renames:
  assumes "List.find (\<lambda>p. pf_id p = k) ps = Some p" and "fu_name u = Some n" "set_name ps (Some n) p = Inr q"
    and "fu_description u = None" "fu_instructions u = Some t" "js_trim t = []"
  shows "profile_update now k u ps = (Inl BadInstructions, update_first (\<lambda>p. pf_id p = k) (\<lambda>_. q) ps)"
  using assms by (simp add: profile_update_def changed_profile_def set_instructions_def)

end
