(* ===== verification/ServiceCalls.thy ===== *)
theory ServiceCalls
  imports Results
begin

text \<open>
  Services that keep one loaded state and write its file in the middle of a call: a call is a sequence of reads of
  the loaded state (\<open>look\<close>), changes of it in memory (\<open>poke\<close>) and writes (\<open>durable_mutate\<close>), composed with
  \<open>and_do\<close>, which a throw ends. The second section is a small logic for such calls, on assertions about the state a
  reader sees, and the interface of a service whose calls keep an invariant.
\<close>

section \<open>Calls\<close>

text \<open>The rest of a call runs on the value of a part that did not throw.\<close>

definition and_do :: "('s \<Rightarrow> ('e, 'a) result \<times> 's) \<Rightarrow> ('a \<Rightarrow> 's \<Rightarrow> ('e, 'b) result \<times> 's) \<Rightarrow> 's \<Rightarrow> ('e, 'b) result \<times> 's" where
  "and_do m f st = (case m st of (Inl e, st) \<Rightarrow> (throw e, st) | (Inr x, st) \<Rightarrow> f x st)"

definition give :: "('e, 'a) result \<Rightarrow> 's \<Rightarrow> ('e store_error, 'a) result \<times> 's" where
  "give r st = (lift_error Rejected r, st)"

text \<open>A look at the loaded state, and a change of it that is not written.\<close>

definition look :: "'a \<Rightarrow> ('a \<Rightarrow> ('e, 'r) result) \<Rightarrow> 'a durable \<Rightarrow> ('e store_error, 'r) result \<times> 'a durable" where
  "look create f st = (case durable_read create st of (None, st) \<Rightarrow> (throw LoadFailed, st) | (Some v, st) \<Rightarrow> give (f v) st)"

definition poke :: "'a \<Rightarrow> ('a \<Rightarrow> ('e, 'r) result \<times> 'a) \<Rightarrow> 'a durable \<Rightarrow> ('e store_error, 'r) result \<times> 'a durable" where
  "poke create f st =
     (case durable_read create st of
        (None, st) \<Rightarrow> (throw LoadFailed, st)
      | (Some v, st) \<Rightarrow> (case f v of (r, v) \<Rightarrow> give r (st\<lparr>cached := Some v\<rparr>)))"

section \<open>Reasoning about calls\<close>

text \<open>From a state with \<open>P\<close> the call answers a value with \<open>Q\<close>, or throws in a state with \<open>E\<close>.\<close>

definition triple :: "('s \<Rightarrow> bool) \<Rightarrow> ('s \<Rightarrow> ('e, 'a) result \<times> 's) \<Rightarrow> ('a \<Rightarrow> 's \<Rightarrow> bool) \<Rightarrow> ('s \<Rightarrow> bool) \<Rightarrow> bool" where
  "triple P m Q E \<longleftrightarrow> (\<forall>s. P s \<longrightarrow> (case m s of (Inr x, s') \<Rightarrow> Q x s' | (Inl _, s') \<Rightarrow> E s'))"

lemma tripleI:
  assumes "\<And>s x s'. P s \<Longrightarrow> m s = (Inr x, s') \<Longrightarrow> Q x s'" and "\<And>s e s'. P s \<Longrightarrow> m s = (Inl e, s') \<Longrightarrow> E s'"
  shows "triple P m Q E"
  using assms by (auto simp: triple_def split: prod.split sum.split)

lemma triple_Inr: "triple P m Q E \<Longrightarrow> P s \<Longrightarrow> m s = (Inr x, s') \<Longrightarrow> Q x s'"
  by (auto simp: triple_def dest!: spec [of _ s])

lemma triple_Inl: "triple P m Q E \<Longrightarrow> P s \<Longrightarrow> m s = (Inl e, s') \<Longrightarrow> E s'"
  by (auto simp: triple_def dest!: spec [of _ s])

lemma triple_and_do: "triple P m R E \<Longrightarrow> (\<And>x. triple (R x) (f x) Q E) \<Longrightarrow> triple P (and_do m f) Q E"
proof -
  assume m: "triple P m R E" and f: "\<And>x. triple (R x) (f x) Q E"
  show ?thesis
  proof (rule tripleI)
    fix s y s2 assume p: "P s" and r: "and_do m f s = (Inr y, s2)"
    then obtain x s1 where "m s = (Inr x, s1)" "f x s1 = (Inr y, s2)"
      by (auto simp: and_do_def split: prod.splits sum.splits)
    then show "Q y s2" using triple_Inr [OF m p] triple_Inr [OF f] by blast
  next
    fix s e s2 assume p: "P s" and r: "and_do m f s = (Inl e, s2)"
    then consider "m s = (Inl e, s2)" | x s1 where "m s = (Inr x, s1)" "f x s1 = (Inl e, s2)"
      by (auto simp: and_do_def split: prod.splits sum.splits)
    then show "E s2" using triple_Inl [OF m p] triple_Inr [OF m p] triple_Inl [OF f] by cases blast+
  qed
qed

lemma triple_conseq:
  "triple P m Q E \<Longrightarrow> (\<And>s. P' s \<Longrightarrow> P s) \<Longrightarrow> (\<And>x s. Q x s \<Longrightarrow> Q' x s) \<Longrightarrow> (\<And>s. E s \<Longrightarrow> E' s) \<Longrightarrow> triple P' m Q' E'"
  by (rule tripleI) (blast dest: triple_Inr triple_Inl)+

lemma triple_if: "(b \<Longrightarrow> triple P m Q E) \<Longrightarrow> (\<not> b \<Longrightarrow> triple P m' Q E) \<Longrightarrow> triple P (if b then m else m') Q E"
  by simp

text \<open>The invariant holds of what is loaded and of what is on disk, and \<open>R\<close> of what a reader sees.\<close>

definition sees :: "'a \<Rightarrow> ('a \<Rightarrow> bool) \<Rightarrow> ('a \<Rightarrow> bool) \<Rightarrow> 'a durable \<Rightarrow> bool" where
  "sees create good R st \<longleftrightarrow> durable_good good st \<and> (\<forall>v. durable_view create st = Some v \<longrightarrow> R v)"

lemma sees_good: "sees create good R st \<Longrightarrow> durable_good good st"
  by (simp add: sees_def)

lemma sees_loaded: "durable_good good (st\<lparr>cached := Some v\<rparr>) \<Longrightarrow> R v \<Longrightarrow> sees create good R (st\<lparr>cached := Some v\<rparr>)"
  by (simp add: sees_def durable_view_def durable_read_def)

text \<open>What a read finds: the invariant, the assertion, and the same state for the next reader.\<close>

lemma sees_read:
  assumes "good create" and "sees create good R st" and "durable_read create st = (r, st')"
  shows "durable_good good st'" "r = Some v \<Longrightarrow> good v \<and> R v \<and> cached st' = Some v"
proof -
  show "durable_good good st'" using durable_read_good [OF assms(1) sees_good [OF assms(2)]] assms(3) by simp
  show "good v \<and> R v \<and> cached st' = Some v" if "r = Some v"
  proof (intro conjI)
    show "good v" using durable_read_value_good [OF assms(1) sees_good [OF assms(2)]] assms(3) that by simp
    show "R v" using assms(2,3) that by (simp add: sees_def durable_view_def)
    show "cached st' = Some v" using assms(3) that by (auto simp: durable_read_def split: option.splits disk_file.splits)
  qed
qed

lemma triple_answer: "(\<And>x. r = Inr x \<Longrightarrow> P = Q x) \<Longrightarrow> (\<And>s. P s \<Longrightarrow> E s) \<Longrightarrow> triple P (give r) Q E"
  by (cases r) (auto simp: triple_def give_def lift_error_def)

lemma triple_look:
  assumes "good create"
  shows "triple (sees create good R) (look create f) (\<lambda>x. sees create good (\<lambda>v. R v \<and> f v = Inr x)) (durable_good good)"
proof (rule tripleI)
  fix st x st' assume s: "sees create good R st" and l: "look create f st = (Inr x, st')"
  then obtain v where r: "durable_read create st = (Some v, st')" and x: "f v = Inr x"
    by (auto simp: look_def give_def split: prod.splits option.splits)
  note sees_read [OF assms s r]
  then show "sees create good (\<lambda>v. R v \<and> f v = Inr x) st'" using x
    by (simp add: sees_def durable_view_def durable_read_def)
next
  fix st e st' assume s: "sees create good R st" and l: "look create f st = (Inl e, st')"
  then obtain r where "durable_read create st = (r, st')" by (auto simp: look_def give_def split: prod.splits option.splits)
  from sees_read(1) [OF assms s this] show "durable_good good st'" .
qed

lemma loaded_good: "durable_good good st \<Longrightarrow> good v \<Longrightarrow> durable_good good (st\<lparr>cached := Some v\<rparr>)"
  by (simp add: durable_good_def)

lemma written_good: "good v \<Longrightarrow> durable_good good (st\<lparr>cached := Some v, disk := Stored v\<rparr>)"
  by (simp add: durable_good_def)

lemma triple_poke:
  assumes create: "good create" and keeps: "\<And>v. good v \<Longrightarrow> R v \<Longrightarrow> good (snd (f v))"
    and post: "\<And>v x. good v \<Longrightarrow> R v \<Longrightarrow> fst (f v) = Inr x \<Longrightarrow> R' x (snd (f v))"
  shows "triple (sees create good R) (poke create f) (\<lambda>x. sees create good (R' x)) (durable_good good)"
proof (rule tripleI)
  fix st x st' assume s: "sees create good R st" and l: "poke create f st = (Inr x, st')"
  then obtain v st0 where r: "durable_read create st = (Some v, st0)" and x: "fst (f v) = Inr x" "st' = st0\<lparr>cached := Some (snd (f v))\<rparr>"
    by (auto simp: poke_def give_def split: prod.splits option.splits)
  note g = sees_read [OF create s r]
  show "sees create good (R' x) st'" unfolding x(2) using g x(1) by (intro sees_loaded loaded_good keeps post) auto
next
  fix st e st' assume s: "sees create good R st" and l: "poke create f st = (Inl e, st')"
  obtain r st0 where r: "durable_read create st = (r, st0)" by (cases "durable_read create st")
  note g = sees_read [OF create s r]
  show "durable_good good st'"
  proof (cases r)
    case None
    then show ?thesis using l r g(1) by (simp add: poke_def)
  next
    case (Some v)
    then have "st' = st0\<lparr>cached := Some (snd (f v))\<rparr>" using l r by (auto simp: poke_def give_def split: prod.splits)
    then show ?thesis using g Some by (simp add: loaded_good keeps)
  qed
qed

lemma triple_mutate:
  assumes create: "good create" and keeps: "\<And>v. good v \<Longrightarrow> R v \<Longrightarrow> good (snd (f v))"
    and post: "\<And>v x. good v \<Longrightarrow> R v \<Longrightarrow> fst (f v) = Inr x \<Longrightarrow> R' x (snd (f v))"
  shows "triple (sees create good R) (durable_mutate create fits written f) (\<lambda>x. sees create good (R' x)) (durable_good good)"
proof (rule tripleI)
  fix st x st' assume s: "sees create good R st" and l: "durable_mutate create fits written f st = (Inr x, st')"
  then obtain v st0 where r: "durable_read create st = (Some v, st0)" and x: "fst (f v) = Inr x"
    and st': "st' = st0\<lparr>cached := Some (snd (f v)), disk := Stored (snd (f v))\<rparr>"
    by (auto simp: durable_mutate_def split: prod.splits option.splits sum.splits if_splits)
  note g = sees_read(2) [OF create s r refl]
  then show "sees create good (R' x) st'" unfolding st' using x
    by (auto simp: sees_def durable_view_def durable_read_def intro!: written_good keeps post)
next
  fix st e st' assume s: "sees create good R st" and l: "durable_mutate create fits written f st = (Inl e, st')"
  obtain r st0 where r: "durable_read create st = (r, st0)" by (cases "durable_read create st")
  note g = sees_read [OF create s r]
  show "durable_good good st'"
  proof (cases r)
    case None
    then show ?thesis using l r g(1) by (simp add: durable_mutate_def)
  next
    case (Some v)
    then have "st' = st0\<lparr>cached := Some (snd (f v))\<rparr>"
      using l r by (auto simp: durable_mutate_def split: prod.splits sum.splits if_splits)
    then show ?thesis using g Some by (simp add: loaded_good keeps)
  qed
qed

section \<open>The interface of a service\<close>

text \<open>The states of a store under calls and restarts; the answers of the disk are part of the call.\<close>

inductive call_reach :: "('c \<Rightarrow> 'a durable \<Rightarrow> 'r \<times> 'a durable) \<Rightarrow> 'a durable \<Rightarrow> bool" for call where
  fresh: "call_reach call \<lparr>cached = None, disk = Absent\<rparr>"
| call: "call_reach call st \<Longrightarrow> call_reach call (snd (call c st))"
| restart: "call_reach call st \<Longrightarrow> call_reach call (st\<lparr>cached := None\<rparr>)"

locale call_service =
  fixes create :: "'a" and call :: "'c \<Rightarrow> 'a durable \<Rightarrow> 'r \<times> 'a durable" and good :: "'a \<Rightarrow> bool"
  assumes good_create: "good create"
    and good_call: "durable_good good st \<Longrightarrow> durable_good good (snd (call c st))"
begin

lemma reach_good: "call_reach call st \<Longrightarrow> durable_good good st"
proof (induction rule: call_reach.induct)
  case (call st c)
  then show ?case by (intro good_call)
qed (simp_all add: durable_good_def)

lemma reach_view: "call_reach call st \<Longrightarrow> durable_view create st = Some v \<Longrightarrow> good v"
  using durable_read_value_good [of good create st v] good_create reach_good by (simp add: durable_view_def)

lemma reach_sees: "call_reach call st \<Longrightarrow> sees create good (\<lambda>v. durable_view create st = Some v) st"
  by (simp add: sees_def reach_good)

end

end
