(* ===== verification/Society.thy ===== *)
theory Society
  imports AgentProfiles Tally ServiceCalls
begin

text \<open>
  The agent society, \<^verbatim>\<open>society/agent-society-service.ts\<close>: roles, a task market with bids, token budgets and
  outcomes, deliberations and the message bus of a tenant, in one JSON file that is loaded once. A call is a
  sequence of reads of the loaded state, changes of it and writes of the file (theory ServiceCalls), in the order of
  the code; a write that fails ends the call and leaves the change in memory. What the supervisor, the
  profile registry and the event store answer are arguments. Calls do not overlap.
\<close>

section \<open>Data\<close>

datatype society_layer = PrimeLayer | Council | Specialist | Micro

datatype role_status = RoleActive | RoleRetired

record society_role =
  ro_id :: string
  ro_tenantId :: string
  ro_name :: string
  ro_layer :: society_layer
  ro_purpose :: string
  ro_capabilityTags :: "string list"
  ro_parentRoleId :: "string option"
  ro_agentProfileId :: "id option"
  ro_builtin :: bool
  ro_status :: role_status
  ro_reputation :: rat
  ro_completedTasks :: nat
  ro_failedTasks :: nat
  ro_createdAt :: msec
  ro_updatedAt :: msec

record society_bid =
  sb_id :: id
  sb_roleId :: string
  sb_confidence :: rat
  sb_estimatedTokens :: int
  sb_estimatedDurationMs :: int
  sb_rationale :: string
  sb_score :: "rat option"
  sb_createdAt :: msec

datatype market_status = TkOpen | TkAssigned | TkRunning | TkCompleted | TkFailed | TkCancelled

datatype society_priority = PrioCritical | PrioHigh | PrioNormal | PrioLow

record society_task =
  sk_id :: id
  sk_tenantId :: string
  sk_rootSessionId :: id
  sk_title :: string
  sk_objective :: string
  sk_requiredTags :: "string list"
  sk_priority :: society_priority
  sk_status :: market_status
  sk_maxTokens :: int
  sk_deadline :: "msec option"
  sk_bids :: "society_bid list"
  sk_assignedRoleId :: "string option"
  sk_childSessionId :: "id option"
  sk_reservedTokens :: int
  sk_actualTokens :: "int option"
  sk_quality :: "rat option"
  sk_evidence :: "id list"
  sk_createdAt :: msec
  sk_updatedAt :: msec

datatype recommendation = Approve | Reject | Abstain

record perspective =
  pv_roleId :: string
  pv_recommendation :: recommendation
  pv_confidence :: rat
  pv_summary :: string
  pv_evidence :: "id list"
  pv_submittedAt :: msec

datatype society_decision = DecApprove | DecReject | DecUncertain

record deliberation_result =
  dr_decision :: society_decision
  dr_confidence :: rat
  dr_approveWeight :: rat
  dr_rejectWeight :: rat
  dr_abstainWeight :: rat
  dr_dissent :: "string list"
  dr_missing :: "string list"

record deliberation =
  dl_id :: id
  dl_tenantId :: string
  dl_question :: string
  dl_requiredRoleIds :: "string list"
  dl_quorum :: int
  dl_resolved :: bool
  dl_perspectives :: "perspective list"
  dl_result :: "deliberation_result option"
  dl_createdAt :: msec
  dl_updatedAt :: msec

text \<open>\<open>bu_day\<close> is the number of the UTC day, for its date.\<close>

record society_budget =
  bu_tenantId :: string
  bu_day :: int
  bu_daily :: int
  bu_used :: int
  bu_reserved :: int
  bu_maxConcurrent :: int

record society_message =
  ms_id :: id
  ms_tenantId :: string
  ms_fromRoleId :: string
  ms_audience :: "string list"
  ms_topic :: string
  ms_body :: string
  ms_taskId :: "id option"
  ms_deliberationId :: "id option"
  ms_importance :: rat
  ms_acknowledgedBy :: "string list"
  ms_createdAt :: msec

record society_state =
  so_roles :: "society_role list"
  so_tasks :: "society_task list"
  so_deliberations :: "deliberation list"
  so_budgets :: "society_budget list"
  so_messages :: "society_message list"

definition no_society :: society_state where
  "no_society = \<lparr>so_roles = [], so_tasks = [], so_deliberations = [], so_budgets = [], so_messages = []\<rparr>"

definition MAX_ROLES :: nat where "MAX_ROLES = 500"
definition MAX_TASKS :: nat where "MAX_TASKS = 100000"
definition MAX_DELIBERATIONS :: nat where "MAX_DELIBERATIONS = 10000"

datatype society_error =
    SocText aurora_error | SocTags | SocScore | RoleLimit | RoleNotFound | RoleRetiredError | ProfileRefused profile_error
  | PrimeStays | RoleBusy | SessionFailed | TenantMismatch | TaskLimit | DeadlinePast | TaskNotFound | NotAcceptingBids | TagsMissing
  | AlreadyBid | NoAwardableBids | ConcurrencyExhausted | BudgetExhausted | RoleGone | NotAssigned | ExceedsParent | SpawnFailed
  | NotRunning | EventsFailed | EvidenceUnknown | DeliberationLimit | DeliberationRoles | DeliberationNotFound | NotAuthorized
  | AlreadySubmitted | NoQuorum | MessageNotFound | CannotPublish

section \<open>Validators\<close>

text \<open>\<^verbatim>\<open>/^[a-z0-9][a-z0-9._-]{0,99}$/\<close>\<close>

definition society_tag_ok :: "string \<Rightarrow> bool" where
  "society_tag_ok s = (case s of [] \<Rightarrow> False
     | c # cs \<Rightarrow> lower_alnum c \<and> length cs \<le> 99 \<and> list_all (\<lambda>d. lower_alnum d \<or> d \<in> set ''._-'') cs)"

definition tagsOf :: "string list \<Rightarrow> (society_error, string list) result" where
  "tagsOf xs = (let tags = dedupe (map (\<lambda>x. js_lower (js_trim x)) xs) in
     if length tags > 100 \<or> list_ex (\<lambda>t. \<not> society_tag_ok t) tags then throw SocTags else ok tags)"

text \<open>\<^verbatim>\<open>bounded\<close>, \<^verbatim>\<open>integer\<close> and \<^verbatim>\<open>score\<close>.\<close>

definition bounded :: "string \<Rightarrow> nat \<Rightarrow> string \<Rightarrow> (society_error, string) result" where
  "bounded v mx label = lift_error SocText (auroraText v mx label)"

definition whole :: "int \<Rightarrow> int \<Rightarrow> int \<Rightarrow> string \<Rightarrow> (society_error, int) result" where
  "whole v lo hi label = lift_error SocText (auroraInteger v lo hi label)"

definition scored :: "rat \<Rightarrow> (society_error, rat) result" where
  "scored v = (if v < 0 \<or> v > 1 then throw SocScore else ok (to_fixed6 v))"

definition day_of :: "msec \<Rightarrow> int" where "day_of now = now div 86400000"

section \<open>Roles\<close>

definition builtin_roles :: "(string \<times> string \<times> society_layer \<times> string \<times> string list \<times> string option) list" where
  "builtin_roles = [
    (''aurora-prime'', ''Aurora Prime'', PrimeLayer, ''Synthesize plans, priorities, reports and resource allocations without bypassing policy.'',
       [''coordination'', ''synthesis'', ''prioritization''], None),
    (''memory-director'', ''Memory Director'', Council, ''Govern recall, consolidation, compression, relations and archives.'',
       [''memory'', ''knowledge'', ''consolidation''], Some ''aurora-prime''),
    (''research-director'', ''Research Director'', Council, ''Coordinate evidence gathering, trend analysis and source verification.'',
       [''research'', ''evidence'', ''sources''], Some ''aurora-prime''),
    (''planning-director'', ''Planning Director'', Council, ''Coordinate roadmaps, decomposition and priority arbitration.'',
       [''planning'', ''roadmap'', ''tasks''], Some ''aurora-prime''),
    (''security-director'', ''Security Director'', Council, ''Assess authority, access and operational risk.'',
       [''security'', ''risk'', ''policy''], Some ''aurora-prime''),
    (''skill-director'', ''Skill Director'', Council, ''Govern skill evaluation, versions and quality.'',
       [''skills'', ''evaluation'', ''evolution''], Some ''aurora-prime''),
    (''world-model-director'', ''World Model Director'', Council, ''Coordinate predictions, causality and scenarios.'',
       [''world-model'', ''prediction'', ''simulation''], Some ''aurora-prime''),
    (''user-director'', ''User Director'', Council, ''Protect user goals, preferences and long-term alignment.'',
       [''user'', ''goals'', ''guardian''], Some ''aurora-prime''),
    (''research-agent'', ''Research Agent'', Specialist, ''Research and compare evidence.'',
       [''research'', ''web'', ''analysis''], Some ''research-director''),
    (''coding-agent'', ''Coding Agent'', Specialist, ''Implement, refactor and test software.'',
       [''coding'', ''testing'', ''debugging''], Some ''planning-director''),
    (''debug-agent'', ''Debug Agent'', Specialist, ''Analyze failures, logs and performance defects.'',
       [''debugging'', ''logs'', ''performance''], Some ''planning-director''),
    (''architecture-agent'', ''Architecture Agent'', Specialist, ''Design scalable module boundaries and systems.'',
       [''architecture'', ''scaling'', ''design''], Some ''planning-director''),
    (''planner-agent'', ''Planner Agent'', Specialist, ''Decompose objectives into roadmaps and sprints.'',
       [''planning'', ''tasks'', ''roadmap''], Some ''planning-director''),
    (''reflection-agent'', ''Reflection Agent'', Specialist, ''Review errors and extract lessons.'',
       [''reflection'', ''learning'', ''quality''], Some ''memory-director''),
    (''creativity-agent'', ''Creativity Agent'', Specialist, ''Generate alternative and experimental approaches.'',
       [''creativity'', ''alternatives'', ''innovation''], Some ''world-model-director''),
    (''opportunity-agent'', ''Opportunity Agent'', Specialist, ''Detect useful tools, programs and research opportunities.'',
       [''opportunity'', ''research'', ''initiative''], Some ''research-director''),
    (''risk-agent'', ''Risk Agent'', Specialist, ''Identify hazards and mitigations.'',
       [''risk'', ''security'', ''mitigation''], Some ''security-director''),
    (''communication-agent'', ''Communication Agent'', Specialist, ''Prepare notifications, reports and summaries.'',
       [''communication'', ''reports'', ''summaries''], Some ''user-director''),
    (''guardian-agent'', ''Guardian Agent'', Specialist, ''Advocate for user safety and goals.'',
       [''guardian'', ''user'', ''safety''], Some ''user-director''),
    (''project-manager-agent'', ''Project Manager Agent'', Specialist, ''Track progress, dependencies and delivery risks.'',
       [''projects'', ''progress'', ''dependencies''], Some ''planning-director''),
    (''knowledge-agent'', ''Knowledge Agent'', Specialist, ''Manage concepts, relations and knowledge graphs.'',
       [''knowledge'', ''graph'', ''relations''], Some ''memory-director''),
    (''simulation-agent'', ''Simulation Agent'', Specialist, ''Evaluate scenarios and counterfactuals.'',
       [''simulation'', ''scenarios'', ''counterfactual''], Some ''world-model-director''),
    (''skill-builder-agent'', ''Skill Builder Agent'', Specialist, ''Design candidate skills, tests and controlled releases.'',
       [''skills'', ''coding'', ''testing''], Some ''skill-director'')]"

definition seed_role :: "msec \<Rightarrow> string \<Rightarrow> string \<times> string \<times> society_layer \<times> string \<times> string list \<times> string option \<Rightarrow> society_role" where
  "seed_role now tenant b = (case b of (k, name, layer, purpose, tags, parent) \<Rightarrow>
     \<lparr>ro_id = k, ro_tenantId = tenant, ro_name = name, ro_layer = layer, ro_purpose = purpose, ro_capabilityTags = tags,
      ro_parentRoleId = parent, ro_agentProfileId = None, ro_builtin = True, ro_status = RoleActive, ro_reputation = 1 / 2,
      ro_completedTasks = 0, ro_failedTasks = 0, ro_createdAt = now, ro_updatedAt = now\<rparr>)"

text \<open>The surroundings of a call: the clock, a new id, the size bound and the answer of the disk to its writes.\<close>

record society_io =
  io_now :: msec
  io_fresh :: id
  io_fits :: "society_state \<Rightarrow> bool"
  io_wrote :: bool
  io_rank :: "string \<Rightarrow> nat"

definition change :: "society_io \<Rightarrow> (society_state \<Rightarrow> (society_error, 'r) result \<times> society_state) \<Rightarrow> society_state durable
    \<Rightarrow> (society_error store_error, 'r) result \<times> society_state durable" where
  "change io f = durable_mutate no_society (io_fits io) (io_wrote io) f"

definition society_seeded :: "string \<Rightarrow> society_state \<Rightarrow> bool" where
  "society_seeded tenant v = list_ex (\<lambda>r. ro_tenantId r = tenant \<and> ro_builtin r) (so_roles v)"

definition society_seed :: "society_io \<Rightarrow> string \<Rightarrow> society_state durable \<Rightarrow> (society_error store_error, unit) result \<times> society_state durable" where
  "society_seed io tenant =
     and_do (look no_society (\<lambda>v. ok (society_seeded tenant v))) (\<lambda>yes.
       if yes then give (ok ())
       else change io (\<lambda>v. (ok (), v\<lparr>so_roles := so_roles v @ map (seed_role (io_now io) tenant) builtin_roles\<rparr>)))"

definition is_role :: "string \<Rightarrow> string \<Rightarrow> society_role \<Rightarrow> bool" where
  "is_role tenant k r = (ro_tenantId r = tenant \<and> ro_id r = k)"

definition find_role :: "string \<Rightarrow> string \<Rightarrow> society_state \<Rightarrow> (society_error, society_role) result" where
  "find_role tenant k v = (case List.find (is_role tenant k) (so_roles v) of None \<Rightarrow> throw RoleNotFound | Some r \<Rightarrow> ok r)"

definition the_role :: "society_io \<Rightarrow> string \<Rightarrow> string \<Rightarrow> society_state durable \<Rightarrow> (society_error store_error, society_role) result \<times> society_state durable" where
  "the_role io tenant k = and_do (society_seed io tenant) (\<lambda>_. look no_society (find_role tenant k))"

definition society_roles :: "society_io \<Rightarrow> string \<Rightarrow> society_state durable \<Rightarrow> (society_error store_error, society_role list) result \<times> society_state durable" where
  "society_roles io tenant = and_do (society_seed io tenant) (\<lambda>_. look no_society (\<lambda>v. ok (filter (\<lambda>r. ro_tenantId r = tenant) (so_roles v))))"

definition put_role :: "string \<Rightarrow> string \<Rightarrow> (society_role \<Rightarrow> society_role) \<Rightarrow> society_state \<Rightarrow> society_state" where
  "put_role tenant k f v = v\<lparr>so_roles := update_first (is_role tenant k) f (so_roles v)\<rparr>"

text \<open>A change of a role that is there, answered with the changed role.\<close>

definition change_role ::
    "society_io \<Rightarrow> string \<Rightarrow> string \<Rightarrow> (society_role \<Rightarrow> society_role) \<Rightarrow> society_state durable
       \<Rightarrow> (society_error store_error, society_role) result \<times> society_state durable" where
  "change_role io tenant k f = change io (\<lambda>v. let v' = put_role tenant k f v in (find_role tenant k v', v'))"

definition snapshot_of :: "profile_record list \<Rightarrow> id \<Rightarrow> string \<Rightarrow> (society_error, agent_profile) result" where
  "snapshot_of profiles k tenant = lift_error ProfileRefused (profile_snapshot k tenant profiles)"

definition bindProfile ::
    "society_io \<Rightarrow> profile_record list \<Rightarrow> string \<Rightarrow> string \<Rightarrow> id option \<Rightarrow> society_state durable
       \<Rightarrow> (society_error store_error, society_role) result \<times> society_state durable" where
  "bindProfile io profiles tenant roleId k =
     and_do (the_role io tenant roleId) (\<lambda>_.
     and_do (give (case given_text k of None \<Rightarrow> ok () | Some p \<Rightarrow> bind_ok (snapshot_of profiles p tenant) (\<lambda>_. ok ()))) (\<lambda>_.
       change_role io tenant roleId (\<lambda>r. r\<lparr>ro_agentProfileId := given_text k, ro_updatedAt := io_now io\<rparr>)))"

record role_input =
  li_tenantId :: string
  li_name :: string
  li_layer :: society_layer
  li_purpose :: string
  li_capabilityTags :: "string list"
  li_parentRoleId :: "string option"
  li_agentProfileId :: "id option"

definition new_role :: "society_io \<Rightarrow> profile_record list \<Rightarrow> role_input \<Rightarrow> society_state \<Rightarrow> (society_error, society_role) result" where
  "new_role io profiles i v =
     (if length (filter (\<lambda>r. ro_tenantId r = li_tenantId i) (so_roles v)) \<ge> MAX_ROLES then throw RoleLimit
      else
        bind_ok (bounded (li_name i) 200 ''Society role name'') (\<lambda>name.
        bind_ok (bounded (li_purpose i) 2000 ''Society role purpose'') (\<lambda>purpose.
        bind_ok (tagsOf (li_capabilityTags i)) (\<lambda>tags.
        bind_ok (case given_text (li_parentRoleId i) of None \<Rightarrow> ok () | Some k \<Rightarrow> bind_ok (find_role (li_tenantId i) k v) (\<lambda>_. ok ())) (\<lambda>_.
        bind_ok (case given_text (li_agentProfileId i) of None \<Rightarrow> ok ()
                 | Some k \<Rightarrow> bind_ok (snapshot_of profiles k (li_tenantId i)) (\<lambda>_. ok ())) (\<lambda>_.
          ok \<lparr>ro_id = ''role-'' @ io_fresh io, ro_tenantId = li_tenantId i, ro_name = name, ro_layer = li_layer i, ro_purpose = purpose,
              ro_capabilityTags = tags, ro_parentRoleId = given_text (li_parentRoleId i), ro_agentProfileId = given_text (li_agentProfileId i),
              ro_builtin = False, ro_status = RoleActive, ro_reputation = 1 / 2, ro_completedTasks = 0, ro_failedTasks = 0,
              ro_createdAt = io_now io, ro_updatedAt = io_now io\<rparr>))))))"

definition addRole ::
    "society_io \<Rightarrow> profile_record list \<Rightarrow> role_input \<Rightarrow> society_state durable \<Rightarrow> (society_error store_error, society_role) result \<times> society_state durable" where
  "addRole io profiles i =
     and_do (society_seed io (li_tenantId i)) (\<lambda>_.
       change io (\<lambda>v. case new_role io profiles i v of Inl e \<Rightarrow> (throw e, v) | Inr r \<Rightarrow> (ok r, v\<lparr>so_roles := so_roles v @ [r]\<rparr>)))"

definition task_active :: "society_task \<Rightarrow> bool" where
  "task_active t = (sk_status t = TkAssigned \<or> sk_status t = TkRunning)"

definition retireRole ::
    "society_io \<Rightarrow> string \<Rightarrow> string \<Rightarrow> society_state durable \<Rightarrow> (society_error store_error, society_role) result \<times> society_state durable" where
  "retireRole io tenant roleId =
     and_do (the_role io tenant roleId) (\<lambda>r.
     and_do (look no_society (\<lambda>v. if ro_layer r = PrimeLayer then throw PrimeStays
        else if list_ex (\<lambda>t. sk_assignedRoleId t = Some roleId \<and> task_active t) (so_tasks v) then throw RoleBusy else ok ())) (\<lambda>_.
       change_role io tenant roleId (\<lambda>r. r\<lparr>ro_status := RoleRetired, ro_updatedAt := io_now io\<rparr>)))"

section \<open>Budgets\<close>

definition rollBudget :: "msec \<Rightarrow> society_budget \<Rightarrow> society_budget" where
  "rollBudget now b = (if bu_day b \<noteq> day_of now then b\<lparr>bu_day := day_of now, bu_used := 0, bu_reserved := 0\<rparr> else b)"

definition is_budget :: "string \<Rightarrow> society_budget \<Rightarrow> bool" where
  "is_budget tenant b = (bu_tenantId b = tenant)"

definition put_budget :: "string \<Rightarrow> (society_budget \<Rightarrow> society_budget) \<Rightarrow> society_state \<Rightarrow> society_state" where
  "put_budget tenant f v = v\<lparr>so_budgets := update_first (is_budget tenant) f (so_budgets v)\<rparr>"

definition with_budget :: "msec \<Rightarrow> string \<Rightarrow> society_state \<Rightarrow> society_state" where
  "with_budget now tenant v =
     (if list_ex (is_budget tenant) (so_budgets v) then v
      else v\<lparr>so_budgets := so_budgets v @ [\<lparr>bu_tenantId = tenant, bu_day = day_of now, bu_daily = 0, bu_used = 0, bu_reserved = 0, bu_maxConcurrent = 1\<rparr>]\<rparr>)"

definition set_budget :: "msec \<Rightarrow> string \<Rightarrow> int \<Rightarrow> int \<Rightarrow> society_state \<Rightarrow> (society_error, unit) result \<times> society_state" where
  "set_budget now tenant daily concurrent v =
     (let v1 = put_budget tenant (rollBudget now) (with_budget now tenant v) in
      case whole daily 1000 100000000 ''Daily society token budget'' of
        Inl e \<Rightarrow> (throw e, v1)
      | Inr d \<Rightarrow>
          let v2 = put_budget tenant (\<lambda>b. b\<lparr>bu_daily := d\<rparr>) v1 in
          case whole concurrent 1 100 ''Society concurrency'' of
            Inl e \<Rightarrow> (throw e, v2)
          | Inr c \<Rightarrow> (ok (), put_budget tenant (\<lambda>b. b\<lparr>bu_maxConcurrent := c\<rparr>) v2))"

definition configureBudget ::
    "society_io \<Rightarrow> string \<Rightarrow> int \<Rightarrow> int \<Rightarrow> society_state durable \<Rightarrow> (society_error store_error, unit) result \<times> society_state durable" where
  "configureBudget io tenant daily concurrent = change io (set_budget (io_now io) tenant daily concurrent)"

text \<open>\<^verbatim>\<open>mutableBudget\<close> and \<^verbatim>\<open>budget\<close>: the budget of the tenant, made when it is not there, rolled to the day in memory.\<close>

definition mutableBudget :: "society_io \<Rightarrow> string \<Rightarrow> society_state durable \<Rightarrow> (society_error store_error, society_budget) result \<times> society_state durable" where
  "mutableBudget io tenant =
     and_do (look no_society (\<lambda>v. ok (list_ex (is_budget tenant) (so_budgets v)))) (\<lambda>there.
     and_do (if there then give (ok ()) else configureBudget io tenant 1000000 8) (\<lambda>_.
       poke no_society (\<lambda>v. let v' = put_budget tenant (rollBudget (io_now io)) v in
         (case List.find (is_budget tenant) (so_budgets v') of None \<Rightarrow> throw RoleGone | Some b \<Rightarrow> ok b, v'))))"

section \<open>The task market\<close>

text \<open>What \<^verbatim>\<open>supervisor.getSession\<close> answers: tenant and agent profile, \<open>None\<close> when it throws.\<close>

type_synonym session_answer = "(string \<times> agent_profile option) option"

text \<open>A deadline is \<open>Some None\<close> when it does not parse.\<close>

record task_input =
  ti_tenantId :: string
  ti_rootSessionId :: id
  ti_title :: string
  ti_objective :: string
  ti_requiredTags :: "string list"
  ti_priority :: "society_priority option"
  ti_maxTokens :: "int option"
  ti_deadline :: "msec option option"

definition new_society_task :: "society_io \<Rightarrow> session_answer \<Rightarrow> task_input \<Rightarrow> society_state \<Rightarrow> (society_error, society_task) result" where
  "new_society_task io session i v =
     (case session of
        None \<Rightarrow> throw SessionFailed
      | Some (tenant, _) \<Rightarrow>
          if tenant \<noteq> ti_tenantId i then throw TenantMismatch
          else if length (so_tasks v) \<ge> MAX_TASKS then throw TaskLimit
          else if (case ti_deadline i of None \<Rightarrow> False | Some None \<Rightarrow> True | Some (Some t) \<Rightarrow> t \<le> io_now io) then throw DeadlinePast
          else
            bind_ok (bounded (ti_title i) 300 ''Society task title'') (\<lambda>ti.
            bind_ok (bounded (ti_objective i) 50000 ''Society task objective'') (\<lambda>obj.
            bind_ok (tagsOf (ti_requiredTags i)) (\<lambda>tags.
            bind_ok (whole (or_else (ti_maxTokens i) 100000) 100 10000000 ''Society task token budget'') (\<lambda>mx.
              ok \<lparr>sk_id = io_fresh io, sk_tenantId = ti_tenantId i, sk_rootSessionId = ti_rootSessionId i, sk_title = ti, sk_objective = obj,
                  sk_requiredTags = tags, sk_priority = or_else (ti_priority i) PrioNormal, sk_status = TkOpen, sk_maxTokens = mx,
                  sk_deadline = or_else (ti_deadline i) None, sk_bids = [], sk_assignedRoleId = None, sk_childSessionId = None,
                  sk_reservedTokens = 0, sk_actualTokens = None, sk_quality = None, sk_evidence = [],
                  sk_createdAt = io_now io, sk_updatedAt = io_now io\<rparr>)))))"

definition postTask ::
    "society_io \<Rightarrow> session_answer \<Rightarrow> task_input \<Rightarrow> society_state durable \<Rightarrow> (society_error store_error, society_task) result \<times> society_state durable" where
  "postTask io session i =
     and_do (society_seed io (ti_tenantId i)) (\<lambda>_.
       change io (\<lambda>v. case new_society_task io session i v of Inl e \<Rightarrow> (throw e, v) | Inr t \<Rightarrow> (ok t, v\<lparr>so_tasks := so_tasks v @ [t]\<rparr>)))"

definition is_task :: "string \<Rightarrow> id \<Rightarrow> society_task \<Rightarrow> bool" where
  "is_task tenant k t = (sk_tenantId t = tenant \<and> sk_id t = k)"

definition find_society_task :: "string \<Rightarrow> id \<Rightarrow> society_state \<Rightarrow> (society_error, society_task) result" where
  "find_society_task tenant k v = (case List.find (is_task tenant k) (so_tasks v) of None \<Rightarrow> throw TaskNotFound | Some t \<Rightarrow> ok t)"

definition put_task :: "string \<Rightarrow> id \<Rightarrow> society_task \<Rightarrow> society_state \<Rightarrow> society_state" where
  "put_task tenant k t v = v\<lparr>so_tasks := update_first (is_task tenant k) (\<lambda>_. t) (so_tasks v)\<rparr>"

record bid_input =
  bi_tenantId :: string
  bi_taskId :: id
  bi_roleId :: string
  bi_confidence :: rat
  bi_estimatedTokens :: int
  bi_estimatedDurationMs :: int
  bi_rationale :: string

definition new_bid :: "society_io \<Rightarrow> bid_input \<Rightarrow> society_role \<Rightarrow> society_task \<Rightarrow> (society_error, society_bid) result" where
  "new_bid io i r t =
     (if ro_status r \<noteq> RoleActive then throw RoleRetiredError
      else if \<not> list_all (\<lambda>tag. tag \<in> set (ro_capabilityTags r)) (sk_requiredTags t) then throw TagsMissing
      else if list_ex (\<lambda>b. sb_roleId b = ro_id r) (sk_bids t) then throw AlreadyBid
      else
        bind_ok (scored (bi_confidence i)) (\<lambda>c.
        bind_ok (whole (bi_estimatedTokens i) 1 (sk_maxTokens t) ''Bid token estimate'') (\<lambda>n.
        bind_ok (whole (bi_estimatedDurationMs i) 1 2592000000 ''Bid duration'') (\<lambda>d.
        bind_ok (bounded (bi_rationale i) 2000 ''Bid rationale'') (\<lambda>why.
          ok \<lparr>sb_id = io_fresh io, sb_roleId = ro_id r, sb_confidence = c, sb_estimatedTokens = n, sb_estimatedDurationMs = d,
              sb_rationale = why, sb_score = None, sb_createdAt = io_now io\<rparr>)))))"

definition placeBid ::
    "society_io \<Rightarrow> bid_input \<Rightarrow> society_state durable \<Rightarrow> (society_error store_error, society_task) result \<times> society_state durable" where
  "placeBid io i =
     and_do (look no_society (\<lambda>v. bind_ok (find_society_task (bi_tenantId i) (bi_taskId i) v) (\<lambda>t.
       if sk_status t \<noteq> TkOpen then throw NotAcceptingBids else ok t))) (\<lambda>_.
     and_do (the_role io (bi_tenantId i) (bi_roleId i)) (\<lambda>r.
       change io (\<lambda>v. case bind_ok (find_society_task (bi_tenantId i) (bi_taskId i) v) (\<lambda>t. bind_ok (new_bid io i r t) (\<lambda>b. ok (t, b))) of
           Inl e \<Rightarrow> (throw e, v)
         | Inr (t, b) \<Rightarrow>
             let t' = t\<lparr>sk_bids := sk_bids t @ [b], sk_updatedAt := io_now io\<rparr>
             in (ok t', put_task (bi_tenantId i) (bi_taskId i) t' v))))"

text \<open>The value of a bid; \<open>roles\<close> is \<^verbatim>\<open>roleMap\<close>.\<close>

definition bid_value :: "society_task \<Rightarrow> society_role \<Rightarrow> society_bid \<Rightarrow> rat" where
  "bid_value t r b =
     (let coverage = (if sk_requiredTags t = [] then 1
            else of_nat (length (filter (\<lambda>tag. tag \<in> set (ro_capabilityTags r)) (sk_requiredTags t))) / of_nat (length (sk_requiredTags t)));
          cost = 1 - min 1 (of_int (sb_estimatedTokens b) / of_int (sk_maxTokens t))
      in coverage * (4 / 10) + ro_reputation r * (3 / 10) + sb_confidence b * (2 / 10) + cost * (1 / 10))"

definition role_map :: "string \<Rightarrow> society_state \<Rightarrow> string \<Rightarrow> society_role option" where
  "role_map tenant v = map_of (rev (map (\<lambda>r. (ro_id r, r)) (filter (\<lambda>r. ro_tenantId r = tenant) (so_roles v))))"

fun valued_bids :: "(string \<Rightarrow> society_role option) \<Rightarrow> society_task \<Rightarrow> society_bid list \<Rightarrow> (society_bid \<times> rat) list option" where
  "valued_bids roles t [] = Some []"
| "valued_bids roles t (b # bs) =
     (case roles (sb_roleId b) of
        None \<Rightarrow> None
      | Some r \<Rightarrow> map_option (\<lambda>ys. (b\<lparr>sb_score := Some (to_fixed6 (bid_value t r b))\<rparr>, bid_value t r b) # ys) (valued_bids roles t bs))"

definition ranked_bids :: "(string \<Rightarrow> nat) \<Rightarrow> (society_bid \<times> rat) list \<Rightarrow> (society_bid \<times> rat) list" where
  "ranked_bids rank bs = sort_key (\<lambda>(b, x). - x) (sort_key (\<lambda>(b, x). rank (sb_roleId b)) bs)"

definition running_tasks :: "string \<Rightarrow> society_state \<Rightarrow> nat" where
  "running_tasks tenant v = length (filter (\<lambda>t. sk_tenantId t = tenant \<and> task_active t) (so_tasks v))"

text \<open>The end of \<^verbatim>\<open>award\<close>: the scores are in the task before the budget is looked at.\<close>

definition award_best :: "society_io \<Rightarrow> string \<Rightarrow> id \<Rightarrow> society_state \<Rightarrow> (society_error, society_task) result \<times> society_state" where
  "award_best io tenant k v =
     (case find_society_task tenant k v of
        Inl e \<Rightarrow> (throw e, v)
      | Inr t \<Rightarrow>
          (case valued_bids (role_map tenant v) t (sk_bids t) of
             None \<Rightarrow> (throw RoleGone, v)
           | Some bs \<Rightarrow>
               let t1 = t\<lparr>sk_bids := map fst bs\<rparr>; v1 = put_task tenant k t1 v in
               case (ranked_bids (io_rank io) bs, List.find (is_budget tenant) (so_budgets v1)) of
                 ((winner, _) # _, Some b) \<Rightarrow>
                   if bu_used b + bu_reserved b + sb_estimatedTokens winner > bu_daily b then (throw BudgetExhausted, v1)
                   else
                     let t2 = t1\<lparr>sk_assignedRoleId := Some (sb_roleId winner), sk_reservedTokens := sb_estimatedTokens winner,
                                 sk_status := TkAssigned, sk_updatedAt := io_now io\<rparr>
                     in (ok t2, put_task tenant k t2 (put_budget tenant (\<lambda>b. b\<lparr>bu_reserved := bu_reserved b + sb_estimatedTokens winner\<rparr>) v1))
               | _ \<Rightarrow> (throw NoAwardableBids, v1)))"

definition award ::
    "society_io \<Rightarrow> string \<Rightarrow> id \<Rightarrow> society_state durable \<Rightarrow> (society_error store_error, society_task) result \<times> society_state durable" where
  "award io tenant k =
     and_do (look no_society (\<lambda>v. bind_ok (find_society_task tenant k v) (\<lambda>t.
       if sk_status t \<noteq> TkOpen \<or> sk_bids t = [] then throw NoAwardableBids else ok ()))) (\<lambda>_.
     and_do (mutableBudget io tenant) (\<lambda>b.
     and_do (look no_society (\<lambda>v. if int (running_tasks tenant v) \<ge> bu_maxConcurrent b then throw ConcurrencyExhausted else ok ())) (\<lambda>_.
     and_do (society_seed io tenant) (\<lambda>_.
       change io (award_best io tenant k)))))"

text \<open>The child session \<^verbatim>\<open>execute\<close> asks the supervisor for.\<close>

record spawn_request =
  sr_parent :: id
  sr_name :: string
  sr_profile :: "agent_profile option"

definition within_parent :: "agent_profile option \<Rightarrow> agent_profile \<Rightarrow> bool" where
  "within_parent parent candidate =
     (case parent of
        None \<Rightarrow> True
      | Some p \<Rightarrow>
          (case ap_allowedCapabilityIds p of
             None \<Rightarrow> True
           | Some ids \<Rightarrow> (case ap_allowedCapabilityIds candidate of None \<Rightarrow> False | Some cs \<Rightarrow> set cs \<subseteq> set ids)))"

definition execution_profile ::
    "profile_record list \<Rightarrow> string \<Rightarrow> society_role \<Rightarrow> session_answer \<Rightarrow> (society_error, agent_profile option) result" where
  "execution_profile profiles tenant r session =
     (case session of
        None \<Rightarrow> throw SessionFailed
      | Some (_, parent) \<Rightarrow>
          (case ro_agentProfileId r of
             None \<Rightarrow> ok parent
           | Some k \<Rightarrow> bind_ok (snapshot_of profiles k tenant) (\<lambda>c. if within_parent parent c then ok (Some c) else throw ExceedsParent)))"

text \<open>\<open>child\<close> is the id of the spawned session, \<open>None\<close> when \<^verbatim>\<open>spawnChild\<close> throws; the objective text is left out.\<close>

definition society_execute ::
    "society_io \<Rightarrow> profile_record list \<Rightarrow> session_answer \<Rightarrow> id option \<Rightarrow> string \<Rightarrow> id \<Rightarrow> society_state durable
       \<Rightarrow> (society_error store_error, society_task \<times> spawn_request) result \<times> society_state durable" where
  "society_execute io profiles session child tenant k =
     and_do (look no_society (\<lambda>v. bind_ok (find_society_task tenant k v) (\<lambda>t.
       case sk_assignedRoleId t of None \<Rightarrow> throw NotAssigned | Some r \<Rightarrow> if sk_status t \<noteq> TkAssigned then throw NotAssigned else ok (t, r)))) (\<lambda>(t, roleId).
     and_do (the_role io tenant roleId) (\<lambda>r.
     and_do (give (execution_profile profiles tenant r session)) (\<lambda>profile.
     and_do (give (case child of None \<Rightarrow> throw SpawnFailed | Some c \<Rightarrow> ok c)) (\<lambda>c.
       change io (\<lambda>v. case find_society_task tenant k v of Inl e \<Rightarrow> (throw e, v)
         | Inr t \<Rightarrow>
             let t' = t\<lparr>sk_childSessionId := Some c, sk_status := TkRunning, sk_updatedAt := io_now io\<rparr>
             in (ok (t', \<lparr>sr_parent = sk_rootSessionId t, sr_name = ro_id r @ ''-'' @ take 8 (sk_id t), sr_profile = profile\<rparr>),
                 put_task tenant k t' v))))))"

record outcome_input =
  oi_tenantId :: string
  oi_taskId :: id
  oi_success :: bool
  oi_quality :: rat
  oi_actualTokens :: int
  oi_evidence :: "id list"

text \<open>The checks of an outcome; \<open>events\<close> are the ids of the events of the child session, \<open>None\<close> when reading them throws.\<close>

definition check_outcome :: "id list option \<Rightarrow> outcome_input \<Rightarrow> society_state \<Rightarrow> (society_error, string \<times> rat \<times> int) result" where
  "check_outcome events i v =
     bind_ok (find_society_task (oi_tenantId i) (oi_taskId i) v) (\<lambda>t.
       case (sk_assignedRoleId t, sk_childSessionId t) of
         (Some r, Some c) \<Rightarrow>
           if sk_status t \<noteq> TkRunning then throw NotRunning
           else
             bind_ok (scored (oi_quality i)) (\<lambda>q.
             bind_ok (whole (oi_actualTokens i) 0 (sk_maxTokens t * 2) ''Actual tokens'') (\<lambda>n.
               case events of
                 None \<Rightarrow> throw EventsFailed
               | Some known \<Rightarrow> if oi_evidence i = [] \<or> list_ex (\<lambda>e. e \<notin> set known) (oi_evidence i) then throw EvidenceUnknown else ok (r, q, n)))
       | _ \<Rightarrow> throw NotRunning)"

definition judged :: "msec \<Rightarrow> bool \<Rightarrow> rat \<Rightarrow> society_role \<Rightarrow> society_role" where
  "judged now success quality r =
     (let previous = ro_completedTasks r + ro_failedTasks r in
      r\<lparr>ro_completedTasks := ro_completedTasks r + (if success then 1 else 0), ro_failedTasks := ro_failedTasks r + (if success then 0 else 1),
        ro_reputation := to_fixed6 ((ro_reputation r * of_nat previous + (if success then quality else 0)) / of_nat (previous + 1)),
        ro_updatedAt := now\<rparr>)"

definition settle_budget :: "int \<Rightarrow> int \<Rightarrow> society_budget \<Rightarrow> society_budget" where
  "settle_budget reserved actual b =
     b\<lparr>bu_reserved := max 0 (bu_reserved b - reserved), bu_used := min (bu_daily b) (bu_used b + actual)\<rparr>"

definition recordOutcome ::
    "society_io \<Rightarrow> id list option \<Rightarrow> outcome_input \<Rightarrow> society_state durable \<Rightarrow> (society_error store_error, society_task) result \<times> society_state durable" where
  "recordOutcome io events i =
     and_do (look no_society (check_outcome events i)) (\<lambda>(roleId, quality, actual).
     and_do (the_role io (oi_tenantId i) roleId) (\<lambda>_.
     and_do (poke no_society (\<lambda>v. (ok (), put_role (oi_tenantId i) roleId (judged (io_now io) (oi_success i) quality) v))) (\<lambda>_.
     and_do (mutableBudget io (oi_tenantId i)) (\<lambda>_.
       change io (\<lambda>v. case find_society_task (oi_tenantId i) (oi_taskId i) v of Inl e \<Rightarrow> (throw e, v)
         | Inr t \<Rightarrow>
             let t' = t\<lparr>sk_status := (if oi_success i then TkCompleted else TkFailed), sk_actualTokens := Some actual, sk_quality := Some quality,
                        sk_evidence := take 200 (dedupe (oi_evidence i)), sk_updatedAt := io_now io\<rparr>
             in (ok t', put_task (oi_tenantId i) (oi_taskId i) t'
                  (put_budget (oi_tenantId i) (settle_budget (sk_reservedTokens t) actual) v)))))))"

section \<open>Deliberations\<close>

record deliberation_input =
  ni_tenantId :: string
  ni_question :: string
  ni_requiredRoleIds :: "string list"
  ni_quorum :: "int option"

text \<open>\<^verbatim>\<open>Math.ceil(n * 0.67)\<close>: the quorum when none is given.\<close>

definition default_quorum :: "nat \<Rightarrow> int" where
  "default_quorum n = \<lceil>(of_nat n * (67 / 100) :: rat)\<rceil>"

definition new_deliberation :: "society_io \<Rightarrow> deliberation_input \<Rightarrow> society_state \<Rightarrow> (society_error, deliberation) result" where
  "new_deliberation io i v =
     (let ids = dedupe (ni_requiredRoleIds i) in
      if length (so_deliberations v) \<ge> MAX_DELIBERATIONS then throw DeliberationLimit
      else if length ids < 2 \<or> length ids > 50 then throw DeliberationRoles
      else
        bind_ok (map_ok (\<lambda>k. bind_ok (find_role (ni_tenantId i) k v) (\<lambda>r. if ro_status r \<noteq> RoleActive then throw RoleRetiredError else ok k)) ids) (\<lambda>_.
        bind_ok (bounded (ni_question i) 10000 ''Deliberation question'') (\<lambda>q.
        bind_ok (whole (or_else (ni_quorum i) (default_quorum (length ids))) 2 (int (length ids)) ''Deliberation quorum'') (\<lambda>n.
          ok \<lparr>dl_id = io_fresh io, dl_tenantId = ni_tenantId i, dl_question = q, dl_requiredRoleIds = ids, dl_quorum = n, dl_resolved = False,
              dl_perspectives = [], dl_result = None, dl_createdAt = io_now io, dl_updatedAt = io_now io\<rparr>))))"

definition createDeliberation ::
    "society_io \<Rightarrow> deliberation_input \<Rightarrow> society_state durable \<Rightarrow> (society_error store_error, deliberation) result \<times> society_state durable" where
  "createDeliberation io i =
     and_do (society_seed io (ni_tenantId i)) (\<lambda>_.
       change io (\<lambda>v. case new_deliberation io i v of Inl e \<Rightarrow> (throw e, v)
         | Inr d \<Rightarrow> (ok d, v\<lparr>so_deliberations := so_deliberations v @ [d]\<rparr>)))"

definition is_deliberation :: "string \<Rightarrow> id \<Rightarrow> deliberation \<Rightarrow> bool" where
  "is_deliberation tenant k d = (dl_tenantId d = tenant \<and> dl_id d = k)"

definition find_deliberation :: "string \<Rightarrow> id \<Rightarrow> society_state \<Rightarrow> (society_error, deliberation) result" where
  "find_deliberation tenant k v =
     (case List.find (is_deliberation tenant k) (so_deliberations v) of None \<Rightarrow> throw DeliberationNotFound | Some d \<Rightarrow> ok d)"

definition put_deliberation :: "string \<Rightarrow> id \<Rightarrow> deliberation \<Rightarrow> society_state \<Rightarrow> society_state" where
  "put_deliberation tenant k d v = v\<lparr>so_deliberations := update_first (is_deliberation tenant k) (\<lambda>_. d) (so_deliberations v)\<rparr>"

record perspective_input =
  vi_tenantId :: string
  vi_deliberationId :: id
  vi_roleId :: string
  vi_recommendation :: recommendation
  vi_confidence :: rat
  vi_summary :: string
  vi_evidence :: "id list option"

definition add_perspective :: "society_io \<Rightarrow> perspective_input \<Rightarrow> society_state \<Rightarrow> (society_error, deliberation) result" where
  "add_perspective io i v =
     bind_ok (find_deliberation (vi_tenantId i) (vi_deliberationId i) v) (\<lambda>d.
       if dl_resolved d \<or> vi_roleId i \<notin> set (dl_requiredRoleIds d) then throw NotAuthorized
       else if list_ex (\<lambda>p. pv_roleId p = vi_roleId i) (dl_perspectives d) then throw AlreadySubmitted
       else
         bind_ok (scored (vi_confidence i)) (\<lambda>c.
         bind_ok (bounded (vi_summary i) 10000 ''Perspective summary'') (\<lambda>s.
           ok (d\<lparr>dl_perspectives := dl_perspectives d @
                   [\<lparr>pv_roleId = vi_roleId i, pv_recommendation = vi_recommendation i, pv_confidence = c, pv_summary = s,
                     pv_evidence = take 200 (dedupe (or_else (vi_evidence i) [])), pv_submittedAt = io_now io\<rparr>],
                 dl_updatedAt := io_now io\<rparr>))))"

definition submitPerspective ::
    "society_io \<Rightarrow> perspective_input \<Rightarrow> society_state durable \<Rightarrow> (society_error store_error, deliberation) result \<times> society_state durable" where
  "submitPerspective io i =
     change io (\<lambda>v. case add_perspective io i v of Inl e \<Rightarrow> (throw e, v)
       | Inr d \<Rightarrow> (ok d, put_deliberation (vi_tenantId i) (vi_deliberationId i) d v))"

definition weight_of :: "(string \<Rightarrow> society_role option) \<Rightarrow> perspective \<Rightarrow> rat" where
  "weight_of roles p = (25 / 100 + 75 / 100 * ro_reputation (the (roles (pv_roleId p)))) * pv_confidence p"

definition total_weight :: "(string \<Rightarrow> society_role option) \<Rightarrow> recommendation \<Rightarrow> perspective list \<Rightarrow> rat" where
  "total_weight roles k ps = sum_list (map (weight_of roles) (filter (\<lambda>p. pv_recommendation p = k) ps))"

definition verdict_on :: "rat \<Rightarrow> rat \<Rightarrow> society_decision" where
  "verdict_on approve reject =
     (let decisive = approve + reject; margin = (if decisive = 0 then 0 else \<bar>approve - reject\<bar> / decisive) in
      if decisive = 0 \<or> margin < 15 / 100 then DecUncertain else if approve > reject then DecApprove else DecReject)"

definition opposes :: "society_decision \<Rightarrow> perspective \<Rightarrow> bool" where
  "opposes d p = (case d of
       DecUncertain \<Rightarrow> False
     | DecApprove \<Rightarrow> pv_recommendation p = Reject
     | DecReject \<Rightarrow> pv_recommendation p = Approve)"

definition resolve :: "(string \<Rightarrow> society_role option) \<Rightarrow> deliberation \<Rightarrow> deliberation_result" where
  "resolve roles d =
     (let ps = dl_perspectives d; approve = total_weight roles Approve ps; reject = total_weight roles Reject ps;
          abstain = total_weight roles Abstain ps; sum = approve + reject + abstain; kind = verdict_on approve reject
      in \<lparr>dr_decision = kind, dr_confidence = to_fixed6 (if sum = 0 then 0 else max approve reject / sum),
          dr_approveWeight = to_fixed6 approve, dr_rejectWeight = to_fixed6 reject, dr_abstainWeight = to_fixed6 abstain,
          dr_dissent = map pv_roleId (filter (opposes kind) ps),
          dr_missing = filter (\<lambda>k. \<not> list_ex (\<lambda>p. pv_roleId p = k) ps) (dl_requiredRoleIds d)\<rparr>)"

definition resolveDeliberation ::
    "society_io \<Rightarrow> string \<Rightarrow> id \<Rightarrow> society_state durable \<Rightarrow> (society_error store_error, deliberation) result \<times> society_state durable" where
  "resolveDeliberation io tenant k =
     and_do (look no_society (\<lambda>v. bind_ok (find_deliberation tenant k v) (\<lambda>d.
       if dl_resolved d \<or> int (length (dl_perspectives d)) < dl_quorum d then throw NoQuorum else ok ()))) (\<lambda>_.
     and_do (society_seed io tenant) (\<lambda>_.
       change io (\<lambda>v. case find_deliberation tenant k v of Inl e \<Rightarrow> (throw e, v)
         | Inr d \<Rightarrow>
             if list_ex (\<lambda>p. role_map tenant v (pv_roleId p) = None) (dl_perspectives d) then (throw RoleGone, v)
             else let d' = d\<lparr>dl_result := Some (resolve (role_map tenant v) d), dl_resolved := True, dl_updatedAt := io_now io\<rparr>
                  in (ok d', put_deliberation tenant k d' v))))"

definition society_tasks :: "string \<Rightarrow> society_state durable \<Rightarrow> (society_error store_error, society_task list) result \<times> society_state durable" where
  "society_tasks tenant = look no_society (\<lambda>v. ok (filter (\<lambda>t. sk_tenantId t = tenant) (so_tasks v)))"

definition getTask :: "string \<Rightarrow> id \<Rightarrow> society_state durable \<Rightarrow> (society_error store_error, society_task) result \<times> society_state durable" where
  "getTask tenant k = look no_society (find_society_task tenant k)"

definition society_deliberations :: "string \<Rightarrow> society_state durable \<Rightarrow> (society_error store_error, deliberation list) result \<times> society_state durable" where
  "society_deliberations tenant = look no_society (\<lambda>v. ok (filter (\<lambda>d. dl_tenantId d = tenant) (so_deliberations v)))"

section \<open>The message bus\<close>

record message_input =
  xi_tenantId :: string
  xi_fromRoleId :: string
  xi_topic :: string
  xi_body :: string
  xi_audience :: "string list option"
  xi_taskId :: "id option"
  xi_deliberationId :: "id option"
  xi_importance :: "rat option"

definition MAX_MESSAGES :: nat where "MAX_MESSAGES = 20000"

definition audience_of :: "message_input \<Rightarrow> string list" where
  "audience_of i = take 50 (dedupe (or_else (xi_audience i) []))"

definition new_message_on_bus :: "society_io \<Rightarrow> message_input \<Rightarrow> society_state \<Rightarrow> (society_error, society_message) result" where
  "new_message_on_bus io i v =
     bind_ok (map_ok (\<lambda>k. bind_ok (find_role (xi_tenantId i) k v) (\<lambda>_. ok k)) (audience_of i)) (\<lambda>audience.
     bind_ok (case given_text (xi_taskId i) of None \<Rightarrow> ok () | Some k \<Rightarrow> bind_ok (find_society_task (xi_tenantId i) k v) (\<lambda>_. ok ())) (\<lambda>_.
     bind_ok (case given_text (xi_deliberationId i) of None \<Rightarrow> ok ()
              | Some k \<Rightarrow> bind_ok (find_deliberation (xi_tenantId i) k v) (\<lambda>_. ok ())) (\<lambda>_.
     bind_ok (bounded (xi_topic i) 200 ''Society message topic'') (\<lambda>topic.
     bind_ok (bounded (xi_body i) 20000 ''Society message body'') (\<lambda>body.
     bind_ok (scored (or_else (xi_importance i) (1 / 2))) (\<lambda>importance.
       ok \<lparr>ms_id = io_fresh io, ms_tenantId = xi_tenantId i, ms_fromRoleId = xi_fromRoleId i, ms_audience = audience, ms_topic = topic,
           ms_body = body, ms_taskId = given_text (xi_taskId i), ms_deliberationId = given_text (xi_deliberationId i),
           ms_importance = importance, ms_acknowledgedBy = [], ms_createdAt = io_now io\<rparr>))))))"

text \<open>The oldest messages of the tenant go, by their ids, when it has more than the bound.\<close>

definition trim_messages :: "string \<Rightarrow> society_message list \<Rightarrow> society_message list" where
  "trim_messages tenant ms =
     (let own = filter (\<lambda>m. ms_tenantId m = tenant) ms in
      if length own > MAX_MESSAGES
      then (let gone = map ms_id (take (length own - MAX_MESSAGES) (sort_key ms_createdAt own)) in filter (\<lambda>m. ms_id m \<notin> set gone) ms)
      else ms)"

definition broadcast ::
    "society_io \<Rightarrow> message_input \<Rightarrow> society_state durable \<Rightarrow> (society_error store_error, society_message) result \<times> society_state durable" where
  "broadcast io i =
     and_do (the_role io (xi_tenantId i) (xi_fromRoleId i)) (\<lambda>r.
     and_do (give (if ro_status r \<noteq> RoleActive then throw CannotPublish else ok ())) (\<lambda>_.
       change io (\<lambda>v. case new_message_on_bus io i v of Inl e \<Rightarrow> (throw e, v)
         | Inr m \<Rightarrow> (ok m, v\<lparr>so_messages := trim_messages (xi_tenantId i) (so_messages v @ [m])\<rparr>))))"

definition addressed :: "string \<Rightarrow> string \<Rightarrow> society_message \<Rightarrow> bool" where
  "addressed tenant k m =
     (ms_tenantId m = tenant \<and> (ms_audience m = [] \<or> k \<in> set (ms_audience m)) \<and> ms_fromRoleId m \<noteq> k)"

definition society_inbox ::
    "society_io \<Rightarrow> string \<Rightarrow> string \<Rightarrow> bool \<Rightarrow> int option \<Rightarrow> society_state durable
       \<Rightarrow> (society_error store_error, society_message list) result \<times> society_state durable" where
  "society_inbox io tenant k unacknowledgedOnly lim' =
     and_do (the_role io tenant k) (\<lambda>_.
       look no_society (\<lambda>v. bind_ok (whole (or_else lim' 100) 1 1000 ''Society inbox limit'') (\<lambda>n.
         ok (take (nat n) (sort_key (\<lambda>m. - ms_createdAt m)
           (filter (\<lambda>m. unacknowledgedOnly \<longrightarrow> k \<notin> set (ms_acknowledgedBy m)) (filter (addressed tenant k) (so_messages v))))))))"

definition acknowledge :: "string \<Rightarrow> society_message \<Rightarrow> society_message" where
  "acknowledge k m = (if k \<in> set (ms_acknowledgedBy m) then m else m\<lparr>ms_acknowledgedBy := ms_acknowledgedBy m @ [k]\<rparr>)"

definition acknowledgeMessage ::
    "society_io \<Rightarrow> string \<Rightarrow> id \<Rightarrow> string \<Rightarrow> society_state durable \<Rightarrow> (society_error store_error, society_message) result \<times> society_state durable" where
  "acknowledgeMessage io tenant messageId k =
     and_do (the_role io tenant k) (\<lambda>_.
       change io (\<lambda>v. let this = (\<lambda>m. ms_tenantId m = tenant \<and> ms_id m = messageId) in
         case List.find this (so_messages v) of
           None \<Rightarrow> (throw MessageNotFound, v)
         | Some m \<Rightarrow> (ok (acknowledge k m), v\<lparr>so_messages := update_first this (acknowledge k) (so_messages v)\<rparr>)))"

section \<open>Monitoring\<close>

text \<open>\<open>LoopRisk\<close> is declared but never reported.\<close>

datatype advisory_code = StalledTask | UnbidTask | FailingRole | IdleRole | BudgetSaturated | ConcurrencyStarved | DuplicateTask | LoopRisk

datatype advisory_severity = AdvInfo | AdvWarning | AdvCritical

text \<open>An advisory without its two texts.\<close>

record advisory =
  av_code :: advisory_code
  av_severity :: advisory_severity
  av_subject :: "id option"

record meta_report =
  mr_advisories :: "advisory list"
  mr_open :: nat
  mr_running :: nat
  mr_completed :: nat
  mr_failed :: nat
  mr_averageQuality :: rat
  mr_saturation :: rat

definition over_deadline :: "msec \<Rightarrow> society_task \<Rightarrow> bool" where
  "over_deadline now t = (case sk_deadline t of None \<Rightarrow> False | Some d \<Rightarrow> d < now)"

definition stalled_of :: "msec \<Rightarrow> int \<Rightarrow> society_task list \<Rightarrow> advisory list" where
  "stalled_of now after ts =
     map (\<lambda>t. \<lparr>av_code = StalledTask, av_severity = (if over_deadline now t then AdvCritical else AdvWarning), av_subject = Some (sk_id t)\<rparr>)
       (filter (\<lambda>t. over_deadline now t \<or> now - sk_updatedAt t > after) (filter task_active ts))"

definition unbid_of :: "msec \<Rightarrow> int \<Rightarrow> society_task list \<Rightarrow> advisory list" where
  "unbid_of now after ts =
     map (\<lambda>t. \<lparr>av_code = UnbidTask, av_severity = AdvWarning, av_subject = Some (sk_id t)\<rparr>)
       (filter (\<lambda>t. sk_status t = TkOpen \<and> sk_bids t = [] \<and> now - sk_createdAt t > after) ts)"

text \<open>The ids of the unfinished tasks by title, in order of first appearance.\<close>

definition titles_of :: "society_task list \<Rightarrow> (string, id list) js_map" where
  "titles_of ts = fold (\<lambda>t m. let key = js_lower (js_trim (sk_title t)) in map_set key (or_else (map_get m key) [] @ [sk_id t]) m)
     (filter (\<lambda>t. sk_status t = TkOpen \<or> task_active t) ts) []"

definition duplicates_of :: "society_task list \<Rightarrow> advisory list" where
  "duplicates_of ts =
     map (\<lambda>(title, ids). \<lparr>av_code = DuplicateTask, av_severity = AdvInfo, av_subject = Some (hd ids)\<rparr>)
       (filter (\<lambda>(title, ids). \<not> length ids < 2) (titles_of ts))"

definition role_advisories :: "msec \<Rightarrow> int \<Rightarrow> society_role \<Rightarrow> advisory list" where
  "role_advisories now after r =
     (let attempts = ro_completedTasks r + ro_failedTasks r in
      (if attempts \<ge> 3 \<and> (of_nat (ro_failedTasks r) / of_nat attempts :: rat) > 1 / 2
       then [\<lparr>av_code = FailingRole, av_severity = AdvWarning, av_subject = Some (ro_id r)\<rparr>] else [])
      @ (if \<not> ro_builtin r \<and> attempts = 0 \<and> now - ro_createdAt r > after
         then [\<lparr>av_code = IdleRole, av_severity = AdvInfo, av_subject = Some (ro_id r)\<rparr>] else []))"

definition budget_saturation :: "society_budget \<Rightarrow> rat" where
  "budget_saturation b = (if bu_daily b = 0 then 0 else to_fixed6 (of_int (bu_used b + bu_reserved b) / of_int (bu_daily b)))"

definition meta_report_of :: "msec \<Rightarrow> string \<Rightarrow> int \<Rightarrow> int \<Rightarrow> society_budget \<Rightarrow> society_state \<Rightarrow> meta_report" where
  "meta_report_of now tenant stalledAfter idleAfter b v =
     (let ts = filter (\<lambda>t. sk_tenantId t = tenant) (so_tasks v);
          rs = filter (\<lambda>r. ro_tenantId r = tenant \<and> ro_status r = RoleActive) (so_roles v);
          saturation = budget_saturation b; running = length (filter task_active ts);
          opened = length (filter (\<lambda>t. sk_status t = TkOpen) ts); completed = filter (\<lambda>t. sk_status t = TkCompleted) ts
      in \<lparr>mr_advisories = stalled_of now stalledAfter ts @ unbid_of now stalledAfter ts @ duplicates_of ts
            @ concat (map (role_advisories now idleAfter) rs)
            @ (if saturation \<ge> 9 / 10 then [\<lparr>av_code = BudgetSaturated, av_severity = AdvCritical, av_subject = None\<rparr>] else [])
            @ (if int running \<ge> bu_maxConcurrent b \<and> opened \<noteq> 0
               then [\<lparr>av_code = ConcurrencyStarved, av_severity = AdvWarning, av_subject = None\<rparr>] else []),
          mr_open = opened, mr_running = running, mr_completed = length completed,
          mr_failed = length (filter (\<lambda>t. sk_status t = TkFailed) ts),
          mr_averageQuality = (if completed = [] then 0
            else to_fixed6 (sum_list (map (\<lambda>t. or_else (sk_quality t) 0) completed) / of_nat (length completed))),
          mr_saturation = saturation\<rparr>)"

definition metaMonitor ::
    "society_io \<Rightarrow> string \<Rightarrow> int option \<Rightarrow> int option \<Rightarrow> society_state durable \<Rightarrow> (society_error store_error, meta_report) result \<times> society_state durable" where
  "metaMonitor io tenant stalledAfter idleAfter =
     and_do (society_seed io tenant) (\<lambda>_.
     and_do (give (whole (or_else stalledAfter 21600000) 60000 2592000000 ''Stalled task window'')) (\<lambda>sa.
     and_do (give (whole (or_else idleAfter 2592000000) 60000 31536000000 ''Idle role window'')) (\<lambda>ia.
     and_do (mutableBudget io tenant) (\<lambda>b.
       look no_society (\<lambda>v. ok (meta_report_of (io_now io) tenant sa ia b v))))))"

text \<open>A role \<^verbatim>\<open>retireUnderperformers\<close> retires.\<close>

definition underperforms :: "string \<Rightarrow> int \<Rightarrow> rat \<Rightarrow> society_task list \<Rightarrow> society_role \<Rightarrow> bool" where
  "underperforms tenant minAttempts maxRate ts r =
     (let attempts = ro_completedTasks r + ro_failedTasks r in
      ro_tenantId r = tenant \<and> ro_status r = RoleActive \<and> \<not> ro_builtin r \<and> \<not> int attempts < minAttempts
      \<and> \<not> of_nat (ro_failedTasks r) / of_nat attempts \<le> maxRate
      \<and> \<not> list_ex (\<lambda>t. sk_tenantId t = tenant \<and> sk_assignedRoleId t = Some (ro_id r) \<and> task_active t) ts)"

definition retire_now :: "msec \<Rightarrow> society_role \<Rightarrow> society_role" where
  "retire_now now r = r\<lparr>ro_status := RoleRetired, ro_updatedAt := now\<rparr>"

text \<open>The answer is the ids of the roles that went; the file is written only when there are some.\<close>

definition retireUnderperformers ::
    "society_io \<Rightarrow> string \<Rightarrow> int option \<Rightarrow> rat option \<Rightarrow> society_state durable \<Rightarrow> (society_error store_error, string list) result \<times> society_state durable" where
  "retireUnderperformers io tenant minAttempts maxRate =
     and_do (society_seed io tenant) (\<lambda>_.
     and_do (give (whole (or_else minAttempts 5) 1 1000 ''Minimum attempts'')) (\<lambda>n.
     and_do (give (scored (or_else maxRate (6 / 10)))) (\<lambda>rate.
     and_do (look no_society (\<lambda>v. ok (list_ex (underperforms tenant n rate (so_tasks v)) (so_roles v)))) (\<lambda>some.
       if \<not> some then give (ok [])
       else change io (\<lambda>v. (ok (map ro_id (filter (underperforms tenant n rate (so_tasks v)) (so_roles v))),
              v\<lparr>so_roles := map (\<lambda>r. if underperforms tenant n rate (so_tasks v) r then retire_now (io_now io) r else r) (so_roles v)\<rparr>))))))"

section \<open>Calls\<close>

datatype society_op =
    OpRoles string
  | OpBind string string "id option" "profile_record list"
  | OpAddRole role_input "profile_record list"
  | OpRetire string string
  | OpConfigure string int int
  | OpBudget string
  | OpPost task_input session_answer
  | OpBid bid_input
  | OpAward string id
  | OpExecute string id "profile_record list" session_answer "id option"
  | OpOutcome outcome_input "id list option"
  | OpDeliberate deliberation_input
  | OpSubmit perspective_input
  | OpResolve string id
  | OpBroadcast message_input
  | OpInbox string string
  | OpAcknowledge string id string
  | OpMonitor string "int option" "int option"
  | OpUnderperformers string "int option" "rat option"

definition forget :: "('e, 'a) result \<times> 's \<Rightarrow> ('e, unit) result \<times> 's" where
  "forget p = (map_sum (\<lambda>e. e) (\<lambda>_. ()) (fst p), snd p)"

definition society_call ::
    "society_io \<times> society_op \<Rightarrow> society_state durable \<Rightarrow> (society_error store_error, unit) result \<times> society_state durable" where
  "society_call c st = (case c of (io, op) \<Rightarrow> (case op of
       OpRoles tenant \<Rightarrow> forget (society_roles io tenant st)
     | OpBind tenant r k ps \<Rightarrow> forget (bindProfile io ps tenant r k st)
     | OpAddRole i ps \<Rightarrow> forget (addRole io ps i st)
     | OpRetire tenant r \<Rightarrow> forget (retireRole io tenant r st)
     | OpConfigure tenant d n \<Rightarrow> forget (configureBudget io tenant d n st)
     | OpBudget tenant \<Rightarrow> forget (mutableBudget io tenant st)
     | OpPost i session \<Rightarrow> forget (postTask io session i st)
     | OpBid i \<Rightarrow> forget (placeBid io i st)
     | OpAward tenant k \<Rightarrow> forget (award io tenant k st)
     | OpExecute tenant k ps session child \<Rightarrow> forget (society_execute io ps session child tenant k st)
     | OpOutcome i events \<Rightarrow> forget (recordOutcome io events i st)
     | OpDeliberate i \<Rightarrow> forget (createDeliberation io i st)
     | OpSubmit i \<Rightarrow> forget (submitPerspective io i st)
     | OpResolve tenant k \<Rightarrow> forget (resolveDeliberation io tenant k st)
     | OpBroadcast i \<Rightarrow> forget (broadcast io i st)
     | OpInbox tenant k \<Rightarrow> forget (society_inbox io tenant k False None st)
     | OpAcknowledge tenant m k \<Rightarrow> forget (acknowledgeMessage io tenant m k st)
     | OpMonitor tenant sa ia \<Rightarrow> forget (metaMonitor io tenant sa ia st)
     | OpUnderperformers tenant n rate \<Rightarrow> forget (retireUnderperformers io tenant n rate st)))"

end
