(* ===== verification/SocietyLaws.thy ===== *)
theory SocietyLaws
  imports Society
begin

text \<open>
  What the calls of the agent society keep: bids, awards and reservations fit together, reservations are covered by
  active tasks, reputations stay between 0 and 1, the built-in prime role stays active, and a deliberation has distinct
  voices of its own roles and enough of them once it is resolved.
\<close>

section \<open>The invariant\<close>

text \<open>The task goes to the role of one of its bids, for the tokens of that bid.\<close>

definition won :: "society_task \<Rightarrow> bool" where
  "won t \<longleftrightarrow> (\<exists>b \<in> set (sk_bids t). sk_assignedRoleId t = Some (sb_roleId b) \<and> sk_reservedTokens t = sb_estimatedTokens b)"

definition bids_ok :: "int \<Rightarrow> society_bid list \<Rightarrow> bool" where
  "bids_ok mx bs \<longleftrightarrow> distinct (map sb_roleId bs)
     \<and> list_all (\<lambda>b. 1 \<le> sb_estimatedTokens b \<and> sb_estimatedTokens b \<le> mx \<and> 0 \<le> sb_confidence b \<and> sb_confidence b \<le> 1) bs"

definition settled_ok :: "society_task \<Rightarrow> bool" where
  "settled_ok t \<longleftrightarrow> sk_childSessionId t \<noteq> None \<and> sk_evidence t \<noteq> []
     \<and> (\<exists>n. sk_actualTokens t = Some n \<and> 0 \<le> n \<and> n \<le> 2 * sk_maxTokens t)"

definition society_task_ok :: "society_task \<Rightarrow> bool" where
  "society_task_ok t \<longleftrightarrow> bids_ok (sk_maxTokens t) (sk_bids t) \<and> 0 \<le> sk_maxTokens t \<and> sk_status t \<noteq> TkCancelled
     \<and> (sk_status t = TkOpen \<longrightarrow> sk_assignedRoleId t = None \<and> sk_childSessionId t = None)
     \<and> (sk_status t \<noteq> TkOpen \<longrightarrow> won t)
     \<and> (sk_status t = TkAssigned \<longrightarrow> sk_childSessionId t = None)
     \<and> (sk_status t = TkRunning \<longrightarrow> sk_childSessionId t \<noteq> None)
     \<and> (sk_status t = TkCompleted \<or> sk_status t = TkFailed \<longrightarrow> settled_ok t)"

text \<open>The tokens a tenant owes to its active tasks.\<close>

definition owed :: "string \<Rightarrow> society_task \<Rightarrow> int" where
  "owed tenant t = (if sk_tenantId t = tenant \<and> task_active t then sk_reservedTokens t else 0)"

definition owed_in :: "string \<Rightarrow> society_task list \<Rightarrow> int" where
  "owed_in tenant ts = sum_list (map (owed tenant) ts)"

definition budget_ok :: "society_task list \<Rightarrow> society_budget \<Rightarrow> bool" where
  "budget_ok ts b \<longleftrightarrow> 0 \<le> bu_daily b \<and> 0 \<le> bu_used b \<and> 0 \<le> bu_reserved b \<and> bu_reserved b \<le> owed_in (bu_tenantId b) ts"

definition role_ok :: "society_role \<Rightarrow> bool" where
  "role_ok r \<longleftrightarrow> 0 \<le> ro_reputation r \<and> ro_reputation r \<le> 1
     \<and> (ro_builtin r \<and> ro_layer r = PrimeLayer \<longrightarrow> ro_status r = RoleActive)"

definition deliberation_ok :: "deliberation \<Rightarrow> bool" where
  "deliberation_ok d \<longleftrightarrow> distinct (dl_requiredRoleIds d) \<and> length (dl_requiredRoleIds d) \<le> 50
     \<and> 2 \<le> dl_quorum d \<and> dl_quorum d \<le> int (length (dl_requiredRoleIds d))
     \<and> distinct (map pv_roleId (dl_perspectives d)) \<and> set (map pv_roleId (dl_perspectives d)) \<subseteq> set (dl_requiredRoleIds d)
     \<and> list_all (\<lambda>p. 0 \<le> pv_confidence p \<and> pv_confidence p \<le> 1) (dl_perspectives d)
     \<and> (dl_resolved d \<longleftrightarrow> dl_result d \<noteq> None) \<and> (dl_resolved d \<longrightarrow> dl_quorum d \<le> int (length (dl_perspectives d)))"

definition society_good :: "society_state \<Rightarrow> bool" where
  "society_good v \<longleftrightarrow> list_all role_ok (so_roles v) \<and> list_all society_task_ok (so_tasks v)
     \<and> distinct (map bu_tenantId (so_budgets v)) \<and> list_all (budget_ok (so_tasks v)) (so_budgets v)
     \<and> list_all deliberation_ok (so_deliberations v)"

lemma no_society_good: "society_good no_society"
  by (simp add: society_good_def no_society_def)

text \<open>What a part of a call needs of the state a reader sees, and what it gives.\<close>

abbreviation keeps_society ::
    "(society_state \<Rightarrow> bool) \<Rightarrow> (society_state durable \<Rightarrow> ('e, 'r) result \<times> society_state durable) \<Rightarrow> ('r \<Rightarrow> society_state \<Rightarrow> bool) \<Rightarrow> bool" where
  "keeps_society R m Q \<equiv> triple (sees no_society society_good R) m (\<lambda>x. sees no_society society_good (Q x)) (durable_good society_good)"

lemma keeps_societyD: "keeps_society R m Q \<Longrightarrow> sees no_society society_good R st \<Longrightarrow> durable_good society_good (snd (m st))"
  by (cases "m st"; cases "fst (m st)") (auto dest: triple_Inr triple_Inl sees_good)

lemma keeps_look: "keeps_society R (look no_society f) (\<lambda>x v. R v \<and> f v = Inr x)"
  by (rule triple_look [where good = society_good, OF no_society_good])

lemma keeps_answer: "keeps_society R (give r) (\<lambda>x v. R v \<and> r = Inr x)"
  by (rule triple_answer) (auto dest: sees_good)

lemma keeps_change:
  assumes "\<And>v. society_good v \<Longrightarrow> R v \<Longrightarrow> society_good (snd (f v))"
    and "\<And>v x. society_good v \<Longrightarrow> R v \<Longrightarrow> fst (f v) = Inr x \<Longrightarrow> Q x (snd (f v))"
  shows "keeps_society R (change io f) Q"
  unfolding change_def using assms by (rule triple_mutate [where good = society_good, OF no_society_good])

lemma keeps_poke:
  assumes "\<And>v. society_good v \<Longrightarrow> R v \<Longrightarrow> society_good (snd (f v))"
    and "\<And>v x. society_good v \<Longrightarrow> R v \<Longrightarrow> fst (f v) = Inr x \<Longrightarrow> Q x (snd (f v))"
  shows "keeps_society R (poke no_society f) Q"
  using assms by (rule triple_poke [where good = society_good, OF no_society_good])

lemma keeps_weaken: "keeps_society R m Q \<Longrightarrow> (\<And>v. R' v \<Longrightarrow> R v) \<Longrightarrow> (\<And>x v. Q x v \<Longrightarrow> Q' x v) \<Longrightarrow> keeps_society R' m Q'"
  by (erule triple_conseq) (auto simp: sees_def)

lemma keeps_done: "(\<And>v. society_good v \<Longrightarrow> R v \<Longrightarrow> society_good (snd (f v))) \<Longrightarrow> keeps_society R (change io f) (\<lambda>_ _. True)"
  by (rule keeps_change) auto

section \<open>Roles and budgets in the middle of a call\<close>

text \<open>Assertions that do not look at the roles, or not at the budgets.\<close>

definition role_blind :: "(society_state \<Rightarrow> bool) \<Rightarrow> bool" where
  "role_blind R \<longleftrightarrow> (\<forall>v rs. R v \<longrightarrow> R (v\<lparr>so_roles := rs\<rparr>))"

definition budget_blind :: "(society_state \<Rightarrow> bool) \<Rightarrow> bool" where
  "budget_blind R \<longleftrightarrow> (\<forall>v bs. R v \<longrightarrow> R (v\<lparr>so_budgets := bs\<rparr>))"

lemma seed_role_ok: "list_all role_ok (map (seed_role now tenant) bs)"
  by (induction bs) (auto simp: seed_role_def role_ok_def)

lemma keeps_seed:
  assumes "role_blind R"
  shows "keeps_society R (society_seed io tenant) (\<lambda>_. R)"
  unfolding society_seed_def
proof (rule triple_and_do [OF keeps_look])
  fix yes
  show "keeps_society (\<lambda>v. R v \<and> ok (society_seeded tenant v) = Inr yes)
      (if yes then give (ok ())
       else change io (\<lambda>v. (ok (), v\<lparr>so_roles := so_roles v @ map (seed_role (io_now io) tenant) builtin_roles\<rparr>))) (\<lambda>_. R)"
  proof (rule triple_if)
    show "keeps_society (\<lambda>v. R v \<and> ok (society_seeded tenant v) = Inr yes) (give (ok ())) (\<lambda>_. R)"
      by (rule keeps_weaken [OF keeps_answer [of R]]) auto
  next
    show "keeps_society (\<lambda>v. R v \<and> ok (society_seeded tenant v) = Inr yes)
        (change io (\<lambda>v. (ok (), v\<lparr>so_roles := so_roles v @ map (seed_role (io_now io) tenant) builtin_roles\<rparr>))) (\<lambda>_. R)"
      using assms seed_role_ok [of "io_now io" tenant builtin_roles]
      by (intro keeps_change) (auto simp: society_good_def role_blind_def simp del: list_all_length)
  qed
qed

lemma keeps_role:
  assumes "role_blind R"
  shows "keeps_society R (the_role io tenant k) (\<lambda>r v. R v \<and> find_role tenant k v = Inr r)"
  unfolding the_role_def by (rule triple_and_do [OF keeps_seed [OF assms] keeps_look])

lemma bu_tenant_stays [simp]: "bu_tenantId (rollBudget now b) = bu_tenantId b"
  by (simp add: rollBudget_def)

lemma update_first_where: "list_all P xs \<Longrightarrow> (\<And>x. p x \<Longrightarrow> P x \<Longrightarrow> Q (f x)) \<Longrightarrow> (\<And>x. P x \<Longrightarrow> Q x) \<Longrightarrow> list_all Q (update_first p f xs)"
  by (auto simp: list_all_iff dest!: update_first_mem)

lemma owed_nonneg: "list_all society_task_ok ts \<Longrightarrow> 0 \<le> owed_in tenant ts"
proof (induction ts)
  case (Cons t ts)
  have "0 \<le> sk_reservedTokens t" if "task_active t"
  proof -
    have "won t" using that Cons.prems by (auto simp: society_task_ok_def task_active_def)
    then show ?thesis using Cons.prems by (auto simp: won_def society_task_ok_def bids_ok_def list_all_iff)
  qed
  then show ?case using Cons by (simp add: owed_in_def owed_def)
qed (simp add: owed_in_def)

text \<open>A change of the budget of a tenant that leaves the tenant alone and keeps the budget sound.\<close>

lemma put_budget_good:
  assumes "society_good v" and "\<And>b. bu_tenantId (f b) = bu_tenantId b"
    and "\<And>b. bu_tenantId b = tenant \<Longrightarrow> budget_ok (so_tasks v) b \<Longrightarrow> budget_ok (so_tasks v) (f b)"
  shows "society_good (put_budget tenant f v)"
  using assms by (auto simp: society_good_def put_budget_def map_update_first is_budget_def intro!: update_first_all)

lemma rolled_good: "society_good v \<Longrightarrow> society_good (put_budget tenant (rollBudget now) v)"
proof (rule put_budget_good)
  fix b assume g: "society_good v" and b: "budget_ok (so_tasks v) b"
  have "0 \<le> owed_in (bu_tenantId b) (so_tasks v)" using g by (intro owed_nonneg) (simp add: society_good_def)
  then show "budget_ok (so_tasks v) (rollBudget now b)" using b by (simp add: budget_ok_def rollBudget_def)
qed simp_all

lemma with_budget_good: "society_good v \<Longrightarrow> society_good (with_budget now tenant v)"
proof -
  assume g: "society_good v"
  then have "0 \<le> owed_in tenant (so_tasks v)" by (intro owed_nonneg) (simp add: society_good_def)
  then show ?thesis using g
    by (auto simp: society_good_def with_budget_def budget_ok_def is_budget_def list_ex_iff image_iff)
qed

lemma set_budget_good: "society_good v \<Longrightarrow> society_good (snd (set_budget now tenant daily concurrent v))"
proof -
  assume "society_good v"
  then have 1: "society_good (put_budget tenant (rollBudget now) (with_budget now tenant v))"
    by (intro rolled_good with_budget_good)
  have 2: "society_good (put_budget tenant (\<lambda>b. b\<lparr>bu_daily := d\<rparr>) (put_budget tenant (rollBudget now) (with_budget now tenant v)))"
    if "whole daily 1000 100000000 ''Daily society token budget'' = Inr d" for d
    using that by (intro put_budget_good 1) (auto simp: budget_ok_def whole_def auroraInteger_def split: if_splits)
  have 3: "society_good (put_budget tenant (\<lambda>b. b\<lparr>bu_maxConcurrent := c\<rparr>) w)" if "society_good w" for c w
    using that by (intro put_budget_good) (auto simp: budget_ok_def)
  show ?thesis using 1 2 3 by (auto simp: set_budget_def Let_def split: sum.split)
qed

text \<open>Only the budgets change.\<close>

lemma set_budget_only: "\<exists>bs. snd (set_budget now tenant daily concurrent v) = v\<lparr>so_budgets := bs\<rparr>"
  by (auto simp: set_budget_def Let_def put_budget_def with_budget_def split: sum.split intro: exI [of _ "so_budgets v"])

lemma keeps_budget:
  assumes "budget_blind R"
  shows "keeps_society R (mutableBudget io tenant) (\<lambda>b v. R v \<and> List.find (is_budget tenant) (so_budgets v) = Some b)"
  unfolding mutableBudget_def
proof (rule triple_and_do [OF keeps_look], rule triple_and_do [where R = "\<lambda>_. sees no_society society_good R"])
  fix there
  show "keeps_society (\<lambda>v. R v \<and> ok (list_ex (is_budget tenant) (so_budgets v)) = Inr there)
      (if there then give (ok ()) else configureBudget io tenant 1000000 8) (\<lambda>_. R)"
  proof (rule triple_if)
    show "keeps_society (\<lambda>v. R v \<and> ok (list_ex (is_budget tenant) (so_budgets v)) = Inr there) (give (ok ())) (\<lambda>_. R)"
      by (rule keeps_weaken [OF keeps_answer [of R]]) auto
    show "keeps_society (\<lambda>v. R v \<and> ok (list_ex (is_budget tenant) (so_budgets v)) = Inr there)
        (configureBudget io tenant 1000000 8) (\<lambda>_. R)"
      unfolding configureBudget_def
    proof (rule keeps_change)
      fix v x assume "R v \<and> ok (list_ex (is_budget tenant) (so_budgets v)) = Inr there"
      then show "R (snd (set_budget (io_now io) tenant 1000000 8 v))"
        using assms set_budget_only [of "io_now io" tenant 1000000 8 v] by (auto simp: budget_blind_def)
    qed (rule set_budget_good)
  qed
next
  show "keeps_society R (poke no_society (\<lambda>v. let v' = put_budget tenant (rollBudget (io_now io)) v in
         (case List.find (is_budget tenant) (so_budgets v') of None \<Rightarrow> throw RoleGone | Some b \<Rightarrow> ok b, v')))
       (\<lambda>b v. R v \<and> List.find (is_budget tenant) (so_budgets v) = Some b)"
    using assms
    by (intro keeps_poke) (auto simp: Let_def rolled_good [unfolded put_budget_def] budget_blind_def put_budget_def split: option.splits)
qed

section \<open>Changes of one role or one task\<close>

lemma find_role_Inr: "find_role tenant k v = Inr r \<longleftrightarrow> List.find (is_role tenant k) (so_roles v) = Some r"
  by (auto simp: find_role_def split: option.splits)

lemma find_task_Inr: "find_society_task tenant k v = Inr t \<longleftrightarrow> List.find (is_task tenant k) (so_tasks v) = Some t"
  by (auto simp: find_society_task_def split: option.splits)

lemma find_deliberation_Inr:
  "find_deliberation tenant k v = Inr d \<longleftrightarrow> List.find (is_deliberation tenant k) (so_deliberations v) = Some d"
  by (auto simp: find_deliberation_def split: option.splits)

lemma update_found_all:
  assumes "List.find p xs = Some x" and "list_all P xs" and "P (f x)"
  shows "list_all P (update_first p f xs)"
  using assms by (induction xs) (auto split: if_splits)

lemma put_role_good: "society_good v \<Longrightarrow> (\<And>r. role_ok r \<Longrightarrow> role_ok (f r)) \<Longrightarrow> society_good (put_role tenant k f v)"
  by (auto simp: society_good_def put_role_def intro!: update_first_all)

lemma put_role_found_good:
  "society_good v \<Longrightarrow> find_role tenant k v = Inr r \<Longrightarrow> role_ok (f r) \<Longrightarrow> society_good (put_role tenant k f v)"
  by (auto simp: society_good_def put_role_def find_role_Inr intro: update_found_all)

lemma found_role_ok: "society_good v \<Longrightarrow> find_role tenant k v = Inr r \<Longrightarrow> role_ok r"
  by (auto simp: society_good_def find_role_Inr list_all_iff dest: find_Some_mem)

lemma found_task_ok: "society_good v \<Longrightarrow> find_society_task tenant k v = Inr t \<Longrightarrow> society_task_ok t \<and> sk_tenantId t = tenant"
  by (auto simp: society_good_def find_task_Inr list_all_iff is_task_def dest: find_Some_mem)

lemma owed_in_update:
  assumes "List.find p ts = Some t"
  shows "owed_in tenant (update_first p (\<lambda>_. t') ts) = owed_in tenant ts - owed tenant t + owed tenant t'"
  using assms by (induction ts) (auto simp: owed_in_def split: if_splits)

lemma update_first_keyed:
  assumes "y \<in> set (update_first (\<lambda>x. key x = k) f xs)" and "distinct (map key xs)"
  shows "(\<exists>x \<in> set xs. key x = k \<and> y = f x) \<or> y \<in> set xs \<and> key y \<noteq> k"
  using assms by (induction xs) (auto simp: image_iff split: if_splits)

text \<open>A task changes, and the budget of its tenant with it.\<close>

lemma task_budget_good:
  assumes good: "society_good v" and t: "find_society_task tenant k v = Inr t" and t': "society_task_ok t'" "sk_tenantId t' = tenant"
    and f: "\<And>b. bu_tenantId (f b) = bu_tenantId b"
    and b': "\<And>b. bu_tenantId b = tenant \<Longrightarrow> budget_ok (so_tasks v) b \<Longrightarrow> budget_ok (so_tasks (put_task tenant k t' v)) (f b)"
  shows "society_good (put_task tenant k t' (put_budget tenant f v))"
proof -
  let ?ts = "update_first (is_task tenant k) (\<lambda>_. t') (so_tasks v)" and ?bs = "update_first (is_budget tenant) f (so_budgets v)"
  have sum: "owed_in x ?ts = owed_in x (so_tasks v)" if "x \<noteq> tenant" for x
    using owed_in_update [of "is_task tenant k" "so_tasks v" t x t'] t found_task_ok [OF good t] t' that
    by (simp add: find_task_Inr owed_def)
  have "budget_ok ?ts b" if "b \<in> set ?bs" for b
  proof -
    have "(\<exists>x \<in> set (so_budgets v). bu_tenantId x = tenant \<and> b = f x) \<or> b \<in> set (so_budgets v) \<and> bu_tenantId b \<noteq> tenant"
      using that good by (intro update_first_keyed) (auto simp: society_good_def is_budget_def [abs_def])
    then show ?thesis
    proof (elim disjE bexE)
      fix x assume x: "x \<in> set (so_budgets v)" "bu_tenantId x = tenant \<and> b = f x"
      then have "budget_ok (so_tasks v) x" using good by (simp add: society_good_def list_all_iff)
      then show ?thesis using b' [of x] x by (simp add: put_task_def)
    next
      assume x: "b \<in> set (so_budgets v) \<and> bu_tenantId b \<noteq> tenant"
      then have "budget_ok (so_tasks v) b" using good by (simp add: society_good_def list_all_iff)
      then show ?thesis using sum x by (simp add: budget_ok_def)
    qed
  qed
  moreover have "list_all society_task_ok ?ts" using good t t'(1) by (auto simp: society_good_def find_task_Inr intro: update_found_all)
  moreover have "distinct (map bu_tenantId ?bs)" using good f by (simp add: society_good_def map_update_first)
  ultimately show ?thesis using good by (simp add: society_good_def put_task_def put_budget_def list_all_iff)
qed

lemma put_budget_id: "put_budget tenant (\<lambda>b. b) v = v"
proof -
  have "update_first p (\<lambda>b. b) xs = xs" for p :: "society_budget \<Rightarrow> bool" and xs by (induction xs) auto
  then show ?thesis by (simp add: put_budget_def)
qed

lemma put_task_good:
  assumes good: "society_good v" and t: "find_society_task tenant k v = Inr t" and t': "society_task_ok t'" "sk_tenantId t' = tenant"
    and more: "owed tenant t \<le> owed tenant t'"
  shows "society_good (put_task tenant k t' v)"
proof -
  have "society_good (put_task tenant k t' (put_budget tenant (\<lambda>b. b) v))"
    using more t by (intro task_budget_good [OF good t t'])
      (auto simp: budget_ok_def put_task_def find_task_Inr owed_in_update)
  then show ?thesis by (simp add: put_budget_id)
qed

section \<open>Each call keeps the invariant\<close>

abbreviation anything :: "'r \<Rightarrow> society_state \<Rightarrow> bool" where "anything \<equiv> (\<lambda>_ _. True)"

lemma role_blind_simps [simp]: "role_blind (\<lambda>_. True)" "budget_blind (\<lambda>_. True)"
  "role_blind (\<lambda>v. find_society_task tenant k v = x)" "budget_blind (\<lambda>v. find_society_task tenant k v = x)"
  by (simp_all add: role_blind_def budget_blind_def find_society_task_def)

lemma scored_unit: "scored x = Inr y \<Longrightarrow> 0 \<le> y \<and> y \<le> 1"
  using to_fixed6_unit [of x] by (auto simp: scored_def split: if_splits)

lemma whole_Inr: "whole x lo hi l = Inr y \<Longrightarrow> y = x \<and> lo \<le> y \<and> y \<le> hi"
  by (auto simp: whole_def auroraInteger_def split: if_splits)

lemma keeps_change_role:
  assumes "\<And>r. role_ok r \<Longrightarrow> role_ok (f r)"
  shows "keeps_society R (change_role io tenant k f) anything"
  unfolding change_role_def by (rule keeps_done) (simp add: Let_def put_role_good assms)

lemma keeps_bindProfile: "keeps_society (\<lambda>_. True) (bindProfile io ps tenant r k) anything"
  unfolding bindProfile_def
  by (rule triple_and_do [OF keeps_role], simp, rule triple_and_do [OF keeps_answer], rule keeps_change_role) (simp add: role_ok_def)

lemma new_role_ok: "new_role io ps i v = Inr r \<Longrightarrow> role_ok r"
  by (auto simp: new_role_def bind_ok_Inr role_ok_def split: if_splits)

lemma keeps_addRole: "keeps_society (\<lambda>_. True) (addRole io ps i) anything"
  unfolding addRole_def
proof (rule triple_and_do [OF keeps_seed], simp, rule keeps_done)
  fix v assume "society_good v"
  then show "society_good (snd (case new_role io ps i v of Inl e \<Rightarrow> (throw e, v) | Inr r \<Rightarrow> (ok r, v\<lparr>so_roles := so_roles v @ [r]\<rparr>)))"
    using new_role_ok [of io ps i v] by (auto simp: society_good_def split: sum.split)
qed

lemma keeps_retireRole: "keeps_society (\<lambda>_. True) (retireRole io tenant roleId) anything"
  unfolding retireRole_def change_role_def
proof (rule triple_and_do [OF keeps_role], simp, rule triple_and_do [OF keeps_look], rule keeps_done)
  fix r x v
  assume g: "society_good v"
    and a: "(True \<and> find_role tenant roleId v = Inr r) \<and> (if ro_layer r = PrimeLayer then throw PrimeStays
        else if list_ex (\<lambda>t. sk_assignedRoleId t = Some roleId \<and> task_active t) (so_tasks v) then throw RoleBusy else ok ()) = Inr x"
  have "role_ok (r\<lparr>ro_status := RoleRetired, ro_updatedAt := io_now io\<rparr>)"
    using found_role_ok [OF g, of tenant roleId r] a by (auto simp: role_ok_def split: if_splits)
  then show "society_good (snd (let v' = put_role tenant roleId (\<lambda>r. r\<lparr>ro_status := RoleRetired, ro_updatedAt := io_now io\<rparr>) v
      in (find_role tenant roleId v', v')))"
    using g a by (auto simp: Let_def intro: put_role_found_good)
qed

lemma new_task_ok: "new_society_task io session i v = Inr t \<Longrightarrow> society_task_ok t \<and> owed tenant t = 0"
  by (auto simp: new_society_task_def bind_ok_Inr society_task_ok_def bids_ok_def owed_def task_active_def dest!: whole_Inr split: option.splits if_splits)

lemma keeps_postTask: "keeps_society (\<lambda>_. True) (postTask io session i) anything"
  unfolding postTask_def
proof (rule triple_and_do [OF keeps_seed], simp, rule keeps_done)
  fix v assume "society_good v"
  then show "society_good (snd (case new_society_task io session i v of Inl e \<Rightarrow> (throw e, v) | Inr t \<Rightarrow> (ok t, v\<lparr>so_tasks := so_tasks v @ [t]\<rparr>)))"
    using new_task_ok [of io session i v] by (auto simp: society_good_def budget_ok_def owed_in_def list_all_iff split: sum.split)
qed

lemma new_bid_ok:
  assumes "new_bid io i r t = Inr b" and "bids_ok (sk_maxTokens t) (sk_bids t)"
  shows "bids_ok (sk_maxTokens t) (sk_bids t @ [b])"
  using assms by (auto simp: new_bid_def bids_ok_def bind_ok_Inr list_ex_iff image_iff dest!: whole_Inr scored_unit split: if_splits)

lemma bid_task_ok:
  assumes "society_task_ok t" and "new_bid io i r t = Inr b"
  shows "society_task_ok (t\<lparr>sk_bids := sk_bids t @ [b], sk_updatedAt := now\<rparr>)"
  using assms new_bid_ok [OF assms(2)] by (auto simp: society_task_ok_def won_def settled_ok_def)

lemma keeps_bid: "keeps_society (\<lambda>_. True) (placeBid io i) anything"
  unfolding placeBid_def
proof (rule triple_and_do [OF keeps_look],
    rule triple_and_do [where R = "\<lambda>r. sees no_society society_good (\<lambda>v. True \<and> find_role (bi_tenantId i) (bi_roleId i) v = Inr r)"])
  fix x
  show "keeps_society (\<lambda>v. True \<and> bind_ok (find_society_task (bi_tenantId i) (bi_taskId i) v) (\<lambda>t. if sk_status t \<noteq> TkOpen then throw NotAcceptingBids else ok t) = Inr x)
      (the_role io (bi_tenantId i) (bi_roleId i)) (\<lambda>r v. True \<and> find_role (bi_tenantId i) (bi_roleId i) v = Inr r)"
    by (rule keeps_weaken [OF keeps_role [of "\<lambda>_. True"]]) auto
next
  fix r
  show "keeps_society (\<lambda>v. True \<and> find_role (bi_tenantId i) (bi_roleId i) v = Inr r)
      (change io (\<lambda>v. case bind_ok (find_society_task (bi_tenantId i) (bi_taskId i) v) (\<lambda>t. bind_ok (new_bid io i r t) (\<lambda>b. ok (t, b))) of
           Inl e \<Rightarrow> (throw e, v)
         | Inr (t, b) \<Rightarrow>
             let t' = t\<lparr>sk_bids := sk_bids t @ [b], sk_updatedAt := io_now io\<rparr>
             in (ok t', put_task (bi_tenantId i) (bi_taskId i) t' v))) anything"
  proof (rule keeps_done)
    fix v assume g: "society_good v"
    show "society_good (snd (case bind_ok (find_society_task (bi_tenantId i) (bi_taskId i) v) (\<lambda>t. bind_ok (new_bid io i r t) (\<lambda>b. ok (t, b))) of
           Inl e \<Rightarrow> (throw e, v)
         | Inr (t, b) \<Rightarrow>
             let t' = t\<lparr>sk_bids := sk_bids t @ [b], sk_updatedAt := io_now io\<rparr>
             in (ok t', put_task (bi_tenantId i) (bi_taskId i) t' v)))"
    proof (cases "bind_ok (find_society_task (bi_tenantId i) (bi_taskId i) v) (\<lambda>t. bind_ok (new_bid io i r t) (\<lambda>b. ok (t, b)))")
      case (Inr p)
      then obtain t b where t: "find_society_task (bi_tenantId i) (bi_taskId i) v = Inr t" and b: "new_bid io i r t = Inr b" and p: "p = (t, b)"
        by (auto simp: bind_ok_Inr)
      show ?thesis using found_task_ok [OF g t] bid_task_ok [OF _ b]
        by (simp add: Inr p Let_def put_task_good [OF g t] owed_def task_active_def)
    qed (use g in simp)
  qed
qed

text \<open>What a bid is worth is not a matter of its score.\<close>

abbreviation bid_key :: "society_bid \<Rightarrow> string \<times> int \<times> rat" where
  "bid_key b \<equiv> (sb_roleId b, sb_estimatedTokens b, sb_confidence b)"

lemma bids_ok_key: "bids_ok mx bs \<longleftrightarrow> distinct (map fst (map bid_key bs))
    \<and> list_all (\<lambda>(r, n, c). 1 \<le> n \<and> n \<le> mx \<and> 0 \<le> c \<and> c \<le> 1) (map bid_key bs)"
  by (simp add: bids_ok_def list_all_iff o_def)

lemma valued_bids_key: "valued_bids roles t bs = Some ys \<Longrightarrow> map bid_key (map fst ys) = map bid_key bs"
  by (induction bs arbitrary: ys) (auto split: option.splits)

lemma valued_bids_value:
  "valued_bids roles t bs = Some ys \<Longrightarrow> (b, x) \<in> set ys \<Longrightarrow> \<exists>r b0. roles (sb_roleId b) = Some r \<and> b0 \<in> set bs
     \<and> b = b0\<lparr>sb_score := Some (to_fixed6 x)\<rparr> \<and> x = bid_value t r b0"
  by (induction bs arbitrary: ys) (fastforce split: option.splits)+

lemma ranked_set: "set (ranked_bids rank ys) = set ys"
  by (simp add: ranked_bids_def)

text \<open>An accepted award, step by step.\<close>

lemma award_best_Inr:
  assumes "award_best io tenant k v = (Inr t2, v')"
  obtains t ys winner x rest b where "find_society_task tenant k v = Inr t" "valued_bids (role_map tenant v) t (sk_bids t) = Some ys"
    "ranked_bids (io_rank io) ys = (winner, x) # rest"
    "List.find (is_budget tenant) (so_budgets (put_task tenant k (t\<lparr>sk_bids := map fst ys\<rparr>) v)) = Some b"
    "bu_used b + bu_reserved b + sb_estimatedTokens winner \<le> bu_daily b"
    "t2 = t\<lparr>sk_bids := map fst ys, sk_assignedRoleId := Some (sb_roleId winner), sk_reservedTokens := sb_estimatedTokens winner,
       sk_status := TkAssigned, sk_updatedAt := io_now io\<rparr>"
    "v' = put_task tenant k t2 (put_budget tenant (\<lambda>b. b\<lparr>bu_reserved := bu_reserved b + sb_estimatedTokens winner\<rparr>)
       (put_task tenant k (t\<lparr>sk_bids := map fst ys\<rparr>) v))"
  using assms by (auto simp: award_best_def Let_def split: sum.splits option.splits list.splits if_splits prod.splits)

lemma award_best_Inl:
  assumes "award_best io tenant k v = (Inl e, v')"
  shows "v' = v \<or> (\<exists>t ys. find_society_task tenant k v = Inr t \<and> valued_bids (role_map tenant v) t (sk_bids t) = Some ys
    \<and> v' = put_task tenant k (t\<lparr>sk_bids := map fst ys\<rparr>) v)"
  using assms by (auto simp: award_best_def Let_def split: sum.splits option.splits list.splits if_splits prod.splits)

lemma valued_bids_ok: "valued_bids roles t bs = Some ys \<Longrightarrow> bids_ok mx (map fst ys) = bids_ok mx bs"
  by (simp only: bids_ok_key valued_bids_key)

lemma rescored_ok: "society_task_ok t \<Longrightarrow> sk_status t = TkOpen \<Longrightarrow> valued_bids roles t (sk_bids t) = Some ys \<Longrightarrow> society_task_ok (t\<lparr>sk_bids := map fst ys\<rparr>)"
  by (simp add: society_task_ok_def valued_bids_ok)

lemma rescored_good:
  assumes "society_good v" and t: "find_society_task tenant k v = Inr t" and "sk_status t = TkOpen"
    and "valued_bids roles t (sk_bids t) = Some ys"
  shows "society_good (put_task tenant k (t\<lparr>sk_bids := map fst ys\<rparr>) v)"
  using found_task_ok [OF assms(1) t] assms(3,4)
  by (intro put_task_good [OF assms(1) t]) (auto simp: owed_def task_active_def intro: rescored_ok)

lemma found_after_put:
  "find_society_task tenant k v = Inr t \<Longrightarrow> sk_tenantId t' = tenant \<Longrightarrow> sk_id t' = k \<Longrightarrow> find_society_task tenant k (put_task tenant k t' v) = Inr t'"
  by (auto simp: find_task_Inr put_task_def is_task_def intro!: find_update_first)

lemma found_task_id: "find_society_task tenant k v = Inr t \<Longrightarrow> sk_tenantId t = tenant \<and> sk_id t = k"
  by (auto simp: find_task_Inr is_task_def dest: find_Some_mem)

lemma award_best_good:
  assumes g: "society_good v" and o: "\<And>t. find_society_task tenant k v = Inr t \<Longrightarrow> sk_status t = TkOpen"
  shows "society_good (snd (award_best io tenant k v))"
proof (cases "award_best io tenant k v")
  case (Pair r v')
  show ?thesis
  proof (cases r)
    case (Inl e)
    then show ?thesis using award_best_Inl [of io tenant k v e v'] Pair g o by (auto intro: rescored_good)
  next
    case (Inr t2)
    obtain t ys winner x rest b where a: "find_society_task tenant k v = Inr t" "valued_bids (role_map tenant v) t (sk_bids t) = Some ys"
      "ranked_bids (io_rank io) ys = (winner, x) # rest"
      and t2: "t2 = t\<lparr>sk_bids := map fst ys, sk_assignedRoleId := Some (sb_roleId winner), sk_reservedTokens := sb_estimatedTokens winner,
         sk_status := TkAssigned, sk_updatedAt := io_now io\<rparr>"
      and v': "v' = put_task tenant k t2 (put_budget tenant (\<lambda>b. b\<lparr>bu_reserved := bu_reserved b + sb_estimatedTokens winner\<rparr>)
         (put_task tenant k (t\<lparr>sk_bids := map fst ys\<rparr>) v))"
      by (rule award_best_Inr [OF Pair [unfolded Inr]]) blast
    let ?t1 = "t\<lparr>sk_bids := map fst ys\<rparr>"
    note opened = o [OF a(1)] and ident = found_task_id [OF a(1)]
    have g1: "society_good (put_task tenant k ?t1 v)" by (rule rescored_good [OF g a(1) opened a(2)])
    have f1: "find_society_task tenant k (put_task tenant k ?t1 v) = Inr ?t1" using ident by (intro found_after_put [OF a(1)]) simp_all
    have w: "winner \<in> set (map fst ys)" using ranked_set [of "io_rank io" ys] a(3) by force
    have ok1: "society_task_ok ?t1" using found_task_ok [OF g1 f1] by simp
    then have est: "1 \<le> sb_estimatedTokens winner" using w by (auto simp: society_task_ok_def bids_ok_def list_all_iff)
    have "society_task_ok t2" using ok1 w opened by (auto simp: society_task_ok_def won_def t2)
    moreover have "owed tenant ?t1 = 0" "owed tenant t2 = sb_estimatedTokens winner"
      using opened ident by (simp_all add: owed_def task_active_def t2)
    ultimately have "society_good v'" unfolding v' using ident est f1
      by (intro task_budget_good [OF g1 f1]) (auto simp: t2 budget_ok_def put_task_def find_task_Inr owed_in_update)
    then show ?thesis using Pair by simp
  qed
qed

text \<open>What an award promises: the budget of the tenant covers it, one more task is active than before and not too many
  are, and the task goes to a bid no other bid scores above.\<close>

definition best_bid :: "society_bid list \<Rightarrow> society_bid \<Rightarrow> bool" where
  "best_bid bs w \<longleftrightarrow> w \<in> set bs \<and> (\<forall>b \<in> set bs. the (sb_score b) \<le> the (sb_score w))"

definition award_fits :: "string \<Rightarrow> society_task \<Rightarrow> society_state \<Rightarrow> bool" where
  "award_fits tenant t v \<longleftrightarrow>
     (\<exists>b w. List.find (is_budget tenant) (so_budgets v) = Some b \<and> best_bid (sk_bids t) w
        \<and> sk_status t = TkAssigned \<and> sk_assignedRoleId t = Some (sb_roleId w) \<and> sk_reservedTokens t = sb_estimatedTokens w
        \<and> sb_estimatedTokens w \<le> bu_reserved b \<and> bu_used b + bu_reserved b \<le> bu_daily b
        \<and> int (running_tasks tenant v) \<le> bu_maxConcurrent b)"

lemma running_update:
  assumes "List.find (is_task tenant k) (so_tasks v) = Some t" and "sk_tenantId t' = tenant"
  shows "running_tasks tenant (put_task tenant k t' v) + (if task_active t then 1 else 0)
     = running_tasks tenant v + (if task_active t' then 1 else 0)"
proof -
  have "length (filter (\<lambda>t. sk_tenantId t = tenant \<and> task_active t) (update_first (is_task tenant k) (\<lambda>_. t') ts))
      + (if task_active t then 1 else 0)
    = length (filter (\<lambda>t. sk_tenantId t = tenant \<and> task_active t) ts) + (if task_active t' then 1 else 0)"
    if "List.find (is_task tenant k) ts = Some t" for ts
    using that assms(2) by (induction ts) (auto simp: is_task_def split: if_splits)
  then show ?thesis using assms(1) by (simp add: running_tasks_def put_task_def)
qed

lemma to_fixed6_mono: "x \<le> y \<Longrightarrow> to_fixed6 x \<le> to_fixed6 y"
  by (simp add: to_fixed6_def floor_mono divide_right_mono)

lemma ranked_best:
  assumes ys: "valued_bids roles t bs = Some ys" and r: "ranked_bids rank ys = (w, x) # rest"
  shows "best_bid (map fst ys) w"
proof -
  have score: "the (sb_score b) = to_fixed6 y" if "(b, y) \<in> set ys" for b y
    using valued_bids_value [OF ys that] by auto
  have w: "(w, x) \<in> set ys" using ranked_set [of rank ys] r by auto
  have "sorted (map (\<lambda>(b, x). - x) (ranked_bids rank ys))" unfolding ranked_bids_def by simp
  then have "y \<le> x" if "(b, y) \<in> set (ranked_bids rank ys)" for b y using that unfolding r by auto
  then have "the (sb_score b) \<le> the (sb_score w)" if "(b, y) \<in> set ys" for b y
    using that score [OF that] score [OF w] by (auto simp: ranked_set intro: to_fixed6_mono)
  then show ?thesis using w by (force simp: best_bid_def)
qed

lemma award_best_fits:
  assumes g: "society_good v" and o: "\<And>t. find_society_task tenant k v = Inr t \<Longrightarrow> sk_status t = TkOpen"
    and b0: "List.find (is_budget tenant) (so_budgets v) = Some b0" "int (running_tasks tenant v) < bu_maxConcurrent b0"
    and a: "award_best io tenant k v = (Inr t2, v')"
  shows "award_fits tenant t2 v'"
proof -
  obtain t ys w x rest b where t: "find_society_task tenant k v = Inr t" "valued_bids (role_map tenant v) t (sk_bids t) = Some ys"
    and rk: "ranked_bids (io_rank io) ys = (w, x) # rest"
    and b: "List.find (is_budget tenant) (so_budgets (put_task tenant k (t\<lparr>sk_bids := map fst ys\<rparr>) v)) = Some b"
    and fit: "bu_used b + bu_reserved b + sb_estimatedTokens w \<le> bu_daily b"
    and t2: "t2 = t\<lparr>sk_bids := map fst ys, sk_assignedRoleId := Some (sb_roleId w), sk_reservedTokens := sb_estimatedTokens w,
       sk_status := TkAssigned, sk_updatedAt := io_now io\<rparr>"
    and v': "v' = put_task tenant k t2 (put_budget tenant (\<lambda>b. b\<lparr>bu_reserved := bu_reserved b + sb_estimatedTokens w\<rparr>)
       (put_task tenant k (t\<lparr>sk_bids := map fst ys\<rparr>) v))"
    by (rule award_best_Inr [OF a])
  let ?t1 = "t\<lparr>sk_bids := map fst ys\<rparr>" and ?b = "b\<lparr>bu_reserved := bu_reserved b + sb_estimatedTokens w\<rparr>"
  let ?v1 = "put_budget tenant (\<lambda>b. b\<lparr>bu_reserved := bu_reserved b + sb_estimatedTokens w\<rparr>) (put_task tenant k ?t1 v)"
  note ident = found_task_id [OF t(1)] and opened = o [OF t(1)]
  have bb: "b = b0" using b b0(1) by (simp add: put_task_def)
  have found: "List.find (is_budget tenant) (so_budgets v') = Some ?b" unfolding v' put_task_def put_budget_def
    using find_update_first [of "is_budget tenant" "so_budgets v" b "\<lambda>b. b\<lparr>bu_reserved := bu_reserved b + sb_estimatedTokens w\<rparr>"] b0(1)
      find_Some_mem [OF b0(1)] by (simp add: bb is_budget_def)
  have f1: "List.find (is_task tenant k) (so_tasks ?v1) = Some ?t1"
    using found_after_put [OF t(1), of ?t1] ident by (simp add: find_task_Inr put_budget_def)
  have "running_tasks tenant v' = running_tasks tenant ?v1 + 1"
    using running_update [OF f1, of t2] ident opened by (simp add: v' t2 task_active_def)
  moreover have "running_tasks tenant ?v1 = running_tasks tenant v"
    using running_update [of tenant k v t ?t1] t(1) ident opened
    by (simp add: find_task_Inr put_budget_def running_tasks_def task_active_def)
  ultimately have running: "int (running_tasks tenant v') \<le> bu_maxConcurrent ?b" using b0(2) by (simp add: bb)
  have "0 \<le> bu_reserved b" using g find_Some_mem [OF b0(1)] by (simp add: bb society_good_def list_all_iff budget_ok_def)
  then show ?thesis unfolding award_fits_def
    by (intro exI [of _ ?b] exI [of _ w] conjI found running) (use fit ranked_best [OF t(2) rk] in \<open>simp_all add: t2\<close>)
qed

lemma award_spec: "keeps_society (\<lambda>_. True) (award io tenant k) (award_fits tenant)"
  unfolding award_def
proof (rule triple_and_do [OF keeps_look])
  let ?open = "\<lambda>v. \<exists>t. find_society_task tenant k v = Inr t \<and> sk_status t = TkOpen"
  let ?room = "\<lambda>v. ?open v \<and> (\<exists>b. List.find (is_budget tenant) (so_budgets v) = Some b \<and> int (running_tasks tenant v) < bu_maxConcurrent b)"
  fix x
  have blind: "budget_blind ?open" "role_blind ?room"
    by (simp_all add: budget_blind_def role_blind_def find_society_task_def running_tasks_def)
  have "keeps_society ?open (and_do (mutableBudget io tenant) (\<lambda>b.
     and_do (look no_society (\<lambda>v. if int (running_tasks tenant v) \<ge> bu_maxConcurrent b then throw ConcurrencyExhausted else ok ())) (\<lambda>_.
     and_do (society_seed io tenant) (\<lambda>_. change io (award_best io tenant k))))) (award_fits tenant)"
  proof (rule triple_and_do [OF keeps_budget [OF blind(1)]], rule triple_and_do [OF keeps_look], rule triple_and_do [where R = "\<lambda>_. sees no_society society_good ?room"])
    fix b y
    show "keeps_society (\<lambda>v. (?open v \<and> List.find (is_budget tenant) (so_budgets v) = Some b)
        \<and> (if int (running_tasks tenant v) \<ge> bu_maxConcurrent b then throw ConcurrencyExhausted else ok ()) = Inr y)
        (society_seed io tenant) (\<lambda>_. ?room)"
      by (rule keeps_weaken [OF keeps_seed [OF blind(2)]]) (auto split: if_splits)
  next
    show "keeps_society ?room (change io (award_best io tenant k)) (award_fits tenant)"
    proof (rule keeps_change)
      fix v t assume "society_good v" "?room v" "fst (award_best io tenant k v) = Inr t"
      then show "award_fits tenant t (snd (award_best io tenant k v))"
        by (cases "award_best io tenant k v") (clarsimp, rule award_best_fits, auto)
    qed (auto intro: award_best_good)
  qed
  then show "keeps_society (\<lambda>v. True \<and> bind_ok (find_society_task tenant k v) (\<lambda>t. if sk_status t \<noteq> TkOpen \<or> sk_bids t = [] then throw NoAwardableBids else ok ()) = Inr x)
     (and_do (mutableBudget io tenant) (\<lambda>b.
     and_do (look no_society (\<lambda>v. if int (running_tasks tenant v) \<ge> bu_maxConcurrent b then throw ConcurrencyExhausted else ok ())) (\<lambda>_.
     and_do (society_seed io tenant) (\<lambda>_. change io (award_best io tenant k))))) (award_fits tenant)"
    by (rule keeps_weaken) (auto simp: bind_ok_Inr split: if_splits)
qed

lemma keeps_award: "keeps_society (\<lambda>_. True) (award io tenant k) anything"
  by (rule keeps_weaken [OF award_spec]) auto

lemma keeps_execute: "keeps_society (\<lambda>_. True) (society_execute io ps session child tenant k) anything"
  unfolding society_execute_def
proof (rule triple_and_do [OF keeps_look])
  let ?assigned = "\<lambda>v. \<exists>t. find_society_task tenant k v = Inr t \<and> sk_status t = TkAssigned"
  let ?last = "\<lambda>r profile c v. case find_society_task tenant k v of Inl e \<Rightarrow> (throw e, v)
         | Inr t \<Rightarrow>
             let t' = t\<lparr>sk_childSessionId := Some c, sk_status := TkRunning, sk_updatedAt := io_now io\<rparr>
             in (ok (t', \<lparr>sr_parent = sk_rootSessionId t, sr_name = ro_id r @ ''-'' @ take 8 (sk_id t), sr_profile = profile\<rparr>),
                 put_task tenant k t' v)"
  let ?rest = "\<lambda>(t :: society_task, roleId). and_do (the_role io tenant roleId) (\<lambda>r.
     and_do (give (execution_profile ps tenant r session)) (\<lambda>profile.
     and_do (give (case child of None \<Rightarrow> throw SpawnFailed | Some c \<Rightarrow> ok c)) (\<lambda>c. change io (?last r profile c))))"
  fix x :: "society_task \<times> string"
  have blind: "role_blind ?assigned" by (simp add: role_blind_def find_society_task_def)
  have last: "society_good (snd (?last r profile c v))" if g: "society_good v" and a: "?assigned v" for r profile c v
  proof -
    from a obtain t where t: "find_society_task tenant k v = Inr t" "sk_status t = TkAssigned" by blast
    have "society_task_ok (t\<lparr>sk_childSessionId := Some c, sk_status := TkRunning, sk_updatedAt := io_now io\<rparr>)"
      using found_task_ok [OF g t(1)] t(2) by (auto simp: society_task_ok_def won_def)
    then have "society_good (put_task tenant k (t\<lparr>sk_childSessionId := Some c, sk_status := TkRunning, sk_updatedAt := io_now io\<rparr>) v)"
      using found_task_ok [OF g t(1)] t(2) by (intro put_task_good [OF g t(1)]) (simp_all add: owed_def task_active_def)
    then show ?thesis by (simp add: t(1) Let_def)
  qed
  have "keeps_society ?assigned (?rest x) anything"
    unfolding case_prod_unfold
    by (rule triple_and_do [OF keeps_role [OF blind]], rule triple_and_do [OF keeps_answer], rule triple_and_do [OF keeps_answer],
        rule keeps_done, rule last) auto
  then show "keeps_society (\<lambda>v. True \<and> bind_ok (find_society_task tenant k v) (\<lambda>t.
       case sk_assignedRoleId t of None \<Rightarrow> throw NotAssigned | Some r \<Rightarrow> if sk_status t \<noteq> TkAssigned then throw NotAssigned else ok (t, r)) = ok x)
     (?rest x) anything"
    by (rule keeps_weaken) (auto simp: bind_ok_Inr split: option.splits if_splits)
qed

lemma judged_ok: "role_ok r \<Longrightarrow> 0 \<le> q \<Longrightarrow> q \<le> 1 \<Longrightarrow> role_ok (judged now success q r)"
proof -
  assume r: "role_ok r" and q: "0 \<le> q" "q \<le> 1"
  let ?n = "of_nat (ro_completedTasks r + ro_failedTasks r) :: rat" and ?q = "if success then q else 0"
  have n: "0 \<le> ?n" by simp
  have b: "0 \<le> ro_reputation r" "ro_reputation r \<le> 1" using r by (simp_all add: role_ok_def)
  have "ro_reputation r * ?n \<le> 1 * ?n" by (rule mult_right_mono) (use b n in auto)
  moreover have "0 \<le> ro_reputation r * ?n" using b n by simp
  moreover have "0 \<le> ?q" "?q \<le> 1" using q by simp_all
  ultimately have "0 \<le> (ro_reputation r * ?n + ?q) / (?n + 1)" "(ro_reputation r * ?n + ?q) / (?n + 1) \<le> 1"
    using n by (simp_all add: divide_le_eq_1)
  then have "0 \<le> ro_reputation (judged now success q r) \<and> ro_reputation (judged now success q r) \<le> 1"
    using to_fixed6_unit by (simp add: judged_def Let_def add.commute)
  moreover have "ro_builtin (judged now success q r) = ro_builtin r" "ro_layer (judged now success q r) = ro_layer r"
    "ro_status (judged now success q r) = ro_status r" by (simp_all add: judged_def Let_def)
  ultimately show ?thesis using r by (simp add: role_ok_def)
qed

lemma check_outcome_Inr:
  assumes "check_outcome events i v = Inr (r, q, n)"
  obtains t where "find_society_task (oi_tenantId i) (oi_taskId i) v = Inr t" "sk_status t = TkRunning" "sk_assignedRoleId t = Some r"
    "0 \<le> q \<and> q \<le> 1" "0 \<le> n \<and> n \<le> sk_maxTokens t * 2" "oi_evidence i \<noteq> []"
proof -
  obtain t where t: "find_society_task (oi_tenantId i) (oi_taskId i) v = Inr t"
    using assms by (auto simp: check_outcome_def bind_ok_Inr)
  obtain r' where r': "sk_assignedRoleId t = Some r'" using assms t by (cases "sk_assignedRoleId t") (simp_all add: check_outcome_def)
  obtain c where c: "sk_childSessionId t = Some c" using assms t r' by (cases "sk_childSessionId t") (simp_all add: check_outcome_def)
  have s: "sk_status t = TkRunning" using assms t r' c by (simp add: check_outcome_def split: if_splits)
  show ?thesis
    using assms t r' c s by (intro that [of t]) (auto simp: check_outcome_def bind_ok_Inr dest!: scored_unit whole_Inr split: option.splits if_splits)
qed

lemma settle_budget_ok:
  assumes g: "society_good v" and t: "find_society_task tenant k v = Inr t" "sk_status t = TkRunning" and n: "0 \<le> n"
    and t': "sk_tenantId t' = tenant" "\<not> task_active t'" and b: "bu_tenantId b = tenant" "budget_ok (so_tasks v) b"
  shows "budget_ok (so_tasks (put_task tenant k t' v)) (settle_budget (sk_reservedTokens t) n b)"
proof -
  have ts': "owed_in tenant (so_tasks (put_task tenant k t' v)) = owed_in tenant (so_tasks v) - sk_reservedTokens t"
    using t t' found_task_ok [OF g t(1)] by (simp add: put_task_def find_task_Inr owed_in_update owed_def task_active_def)
  have "sk_reservedTokens t \<le> owed_in tenant (so_tasks v)"
  proof -
    have "list_all society_task_ok (update_first (is_task tenant k) (\<lambda>_. t) (so_tasks v))"
      using g t(1) found_task_ok [OF g t(1)] by (auto simp: society_good_def find_task_Inr intro: update_found_all)
    have "t \<in> set (so_tasks v)" using t(1) by (auto simp: find_task_Inr dest: find_Some_mem)
    moreover have "0 \<le> owed tenant s" if "s \<in> set (so_tasks v)" for s
      using g that owed_nonneg [of "[s]" tenant] by (simp add: society_good_def list_all_iff owed_in_def)
    ultimately have "owed tenant t \<le> owed_in tenant (so_tasks v)" unfolding owed_in_def
      by (intro member_le_sum_list) auto
    then show ?thesis using t found_task_ok [OF g t(1)] by (simp add: owed_def task_active_def)
  qed
  then show ?thesis using b n ts' by (auto simp: budget_ok_def settle_budget_def)
qed

lemma keeps_outcome: "keeps_society (\<lambda>_. True) (recordOutcome io events i) anything"
  unfolding recordOutcome_def
proof (rule triple_and_do [OF keeps_look])
  fix x :: "string \<times> rat \<times> int"
  obtain r q n where x: "x = (r, q, n)" by (cases x)
  let ?R = "\<lambda>v. \<exists>t. find_society_task (oi_tenantId i) (oi_taskId i) v = Inr t \<and> sk_status t = TkRunning
     \<and> 0 \<le> q \<and> q \<le> 1 \<and> 0 \<le> n \<and> n \<le> sk_maxTokens t * 2 \<and> oi_evidence i \<noteq> []"
  let ?t' = "\<lambda>t. t\<lparr>sk_status := (if oi_success i then TkCompleted else TkFailed), sk_actualTokens := Some n, sk_quality := Some q,
                        sk_evidence := take 200 (dedupe (oi_evidence i)), sk_updatedAt := io_now io\<rparr>"
  let ?last = "\<lambda>v. case find_society_task (oi_tenantId i) (oi_taskId i) v of Inl e \<Rightarrow> (throw e, v)
         | Inr t \<Rightarrow> let t' = ?t' t
             in (ok t', put_task (oi_tenantId i) (oi_taskId i) t' (put_budget (oi_tenantId i) (settle_budget (sk_reservedTokens t) n) v))"
  let ?rest = "\<lambda>(roleId, quality, actual). and_do (the_role io (oi_tenantId i) roleId) (\<lambda>_.
     and_do (poke no_society (\<lambda>v. (ok (), put_role (oi_tenantId i) roleId (judged (io_now io) (oi_success i) quality) v))) (\<lambda>_.
     and_do (mutableBudget io (oi_tenantId i)) (\<lambda>_.
       change io (\<lambda>v. case find_society_task (oi_tenantId i) (oi_taskId i) v of Inl e \<Rightarrow> (throw e, v)
         | Inr t \<Rightarrow>
             let t' = t\<lparr>sk_status := (if oi_success i then TkCompleted else TkFailed), sk_actualTokens := Some actual, sk_quality := Some quality,
                        sk_evidence := take 200 (dedupe (oi_evidence i)), sk_updatedAt := io_now io\<rparr>
             in (ok t', put_task (oi_tenantId i) (oi_taskId i) t'
                  (put_budget (oi_tenantId i) (settle_budget (sk_reservedTokens t) actual) v))))))"
  have blind: "role_blind ?R" "budget_blind ?R" by (simp_all add: role_blind_def budget_blind_def find_society_task_def)
  have last: "society_good (snd (?last v))" if g: "society_good v" and a: "?R v" for v
  proof -
    from a obtain t where t: "find_society_task (oi_tenantId i) (oi_taskId i) v = Inr t" "sk_status t = TkRunning"
      and n: "0 \<le> n" "n \<le> sk_maxTokens t * 2" and e: "oi_evidence i \<noteq> []" by blast
    have "dedupe (oi_evidence i) \<noteq> []" using e by (metis set_dedupe set_empty)
    then have "society_task_ok (?t' t)" using found_task_ok [OF g t(1)] t(2) n by (auto simp: society_task_ok_def settled_ok_def won_def)
    then have "society_good (put_task (oi_tenantId i) (oi_taskId i) (?t' t)
        (put_budget (oi_tenantId i) (settle_budget (sk_reservedTokens t) n) v))"
      using found_task_ok [OF g t(1)]
      by (intro task_budget_good [OF g t(1)] settle_budget_ok [OF g t n(1)]) (simp_all add: task_active_def, simp add: settle_budget_def)
    then show ?thesis by (simp add: t(1) Let_def)
  qed
  have "keeps_society ?R (?rest x) anything"
    unfolding x prod.case
  proof (rule triple_and_do [OF keeps_role [OF blind(1)]], rule triple_and_do [where R = "\<lambda>_. sees no_society society_good ?R"],
      rule_tac [2] triple_and_do [where R = "\<lambda>_. sees no_society society_good ?R"])
    fix s
    show "keeps_society (\<lambda>v. ?R v \<and> find_role (oi_tenantId i) r v = Inr s)
        (poke no_society (\<lambda>v. (ok (), put_role (oi_tenantId i) r (judged (io_now io) (oi_success i) q) v))) (\<lambda>_. ?R)"
      by (intro keeps_poke) (auto intro: put_role_good judged_ok, auto simp: put_role_def find_society_task_def)
    show "keeps_society ?R (mutableBudget io (oi_tenantId i)) (\<lambda>_. ?R)"
      by (rule keeps_weaken [OF keeps_budget [OF blind(2)]]) auto
    show "keeps_society ?R (change io ?last) anything" by (rule keeps_done, rule last)
  qed
  moreover have "?R v" if "check_outcome events i v = Inr x" for v
    using that unfolding x by (rule check_outcome_Inr) auto
  ultimately show "keeps_society (\<lambda>v. True \<and> check_outcome events i v = Inr x) (?rest x) anything"
    by (rule keeps_weaken) auto
qed

lemma new_deliberation_ok: "new_deliberation io i v = Inr d \<Longrightarrow> deliberation_ok d"
  by (auto simp: new_deliberation_def bind_ok_Inr Let_def deliberation_ok_def dest!: whole_Inr split: if_splits)

lemma keeps_createDeliberation: "keeps_society (\<lambda>_. True) (createDeliberation io i) anything"
  unfolding createDeliberation_def
proof (rule triple_and_do [OF keeps_seed], simp, rule keeps_done)
  fix v assume "society_good v"
  then show "society_good (snd (case new_deliberation io i v of Inl e \<Rightarrow> (throw e, v)
       | Inr d \<Rightarrow> (ok d, v\<lparr>so_deliberations := so_deliberations v @ [d]\<rparr>)))"
    using new_deliberation_ok [of io i v] by (auto simp: society_good_def split: sum.split)
qed

lemma put_deliberation_good:
  "society_good v \<Longrightarrow> find_deliberation tenant k v = Inr d \<Longrightarrow> deliberation_ok d' \<Longrightarrow> society_good (put_deliberation tenant k d' v)"
  by (auto simp: society_good_def put_deliberation_def find_deliberation_Inr intro: update_found_all)

lemma found_deliberation_ok: "society_good v \<Longrightarrow> find_deliberation tenant k v = Inr d \<Longrightarrow> deliberation_ok d"
  by (auto simp: society_good_def find_deliberation_Inr list_all_iff dest: find_Some_mem)

lemma add_perspective_ok:
  assumes g: "society_good v" and a: "add_perspective io i v = Inr d'"
  shows "deliberation_ok d' \<and> (\<exists>d. find_deliberation (vi_tenantId i) (vi_deliberationId i) v = Inr d)"
proof -
  obtain d where d: "find_deliberation (vi_tenantId i) (vi_deliberationId i) v = Inr d"
    using a by (auto simp: add_perspective_def bind_ok_Inr)
  have "vi_roleId i \<notin> pv_roleId ` set (dl_perspectives d)" using a d by (auto simp: add_perspective_def list_ex_iff split: if_splits)
  with found_deliberation_ok [OF g d] show ?thesis using a d
    by (auto simp: add_perspective_def bind_ok_Inr deliberation_ok_def image_subset_iff dest!: scored_unit split: if_splits)
qed

lemma keeps_submitPerspective: "keeps_society (\<lambda>_. True) (submitPerspective io i) anything"
  unfolding submitPerspective_def
proof (rule keeps_done)
  fix v assume g: "society_good v"
  show "society_good (snd (case add_perspective io i v of Inl e \<Rightarrow> (throw e, v)
       | Inr d \<Rightarrow> (ok d, put_deliberation (vi_tenantId i) (vi_deliberationId i) d v)))"
  proof (cases "add_perspective io i v")
    case (Inr d)
    then show ?thesis using add_perspective_ok [OF g Inr] by (auto intro: put_deliberation_good [OF g])
  qed (use g in simp)
qed

text \<open>A resolved deliberation holds the outcome of its voices, each weighed by the reputation of its role.\<close>

definition resolved_by :: "string \<Rightarrow> deliberation \<Rightarrow> society_state \<Rightarrow> bool" where
  "resolved_by tenant d v \<longleftrightarrow> deliberation_ok d \<and> dl_resolved d \<and> dl_result d = Some (resolve (role_map tenant v) d)
     \<and> list_all (\<lambda>p. role_map tenant v (pv_roleId p) \<noteq> None) (dl_perspectives d)"

lemma resolve_spec: "keeps_society (\<lambda>_. True) (resolveDeliberation io tenant k) (resolved_by tenant)"
  unfolding resolveDeliberation_def
proof (rule triple_and_do [OF keeps_look])
  let ?R = "\<lambda>v. \<exists>d. find_deliberation tenant k v = Inr d \<and> dl_quorum d \<le> int (length (dl_perspectives d))"
  let ?last = "\<lambda>v. case find_deliberation tenant k v of Inl e \<Rightarrow> (throw e, v)
         | Inr d \<Rightarrow>
             if list_ex (\<lambda>p. role_map tenant v (pv_roleId p) = None) (dl_perspectives d) then (throw RoleGone, v)
             else let d' = d\<lparr>dl_result := Some (resolve (role_map tenant v) d), dl_resolved := True, dl_updatedAt := io_now io\<rparr>
                  in (ok d', put_deliberation tenant k d' v)"
  fix x
  have blind: "role_blind ?R" by (simp add: role_blind_def find_deliberation_def)
  have last: "society_good (snd (?last v)) \<and> (\<forall>d. fst (?last v) = Inr d \<longrightarrow> resolved_by tenant d (snd (?last v)))"
    if g: "society_good v" and a: "?R v" for v
  proof -
    from a obtain d where d: "find_deliberation tenant k v = Inr d" "dl_quorum d \<le> int (length (dl_perspectives d))" by blast
    have ok: "deliberation_ok (d\<lparr>dl_result := r, dl_resolved := True, dl_updatedAt := io_now io\<rparr>)" if "r \<noteq> None" for r
      using found_deliberation_ok [OF g d(1)] d(2) that by (simp add: deliberation_ok_def)
    have "role_map tenant (put_deliberation tenant k d' v) = role_map tenant v" for d'
      by (simp add: role_map_def put_deliberation_def)
    then show ?thesis using g ok
      by (auto simp: d(1) Let_def resolved_by_def resolve_def list_ex_iff list_all_iff intro: put_deliberation_good [OF g d(1)])
  qed
  have "keeps_society ?R (and_do (society_seed io tenant) (\<lambda>_. change io ?last)) (resolved_by tenant)"
    by (rule triple_and_do [OF keeps_seed [OF blind]], rule keeps_change) (use last in blast)+
  then show "keeps_society (\<lambda>v. True \<and> bind_ok (find_deliberation tenant k v) (\<lambda>d.
       if dl_resolved d \<or> int (length (dl_perspectives d)) < dl_quorum d then throw NoQuorum else ok ()) = Inr x)
     (and_do (society_seed io tenant) (\<lambda>_. change io ?last)) (resolved_by tenant)"
    by (rule keeps_weaken) (auto simp: bind_ok_Inr split: if_splits)
qed

lemma keeps_resolveDeliberation: "keeps_society (\<lambda>_. True) (resolveDeliberation io tenant k) anything"
  by (rule keeps_weaken [OF resolve_spec]) auto

lemma messages_good: "society_good (v\<lparr>so_messages := ms\<rparr>) \<longleftrightarrow> society_good v"
  by (simp add: society_good_def)

lemma keeps_broadcast: "keeps_society (\<lambda>_. True) (broadcast io i) anything"
  unfolding broadcast_def
  by (rule triple_and_do [OF keeps_role], simp, rule triple_and_do [OF keeps_answer], rule keeps_done)
    (auto simp: messages_good split: sum.split)

lemma keeps_inbox: "keeps_society (\<lambda>_. True) (society_inbox io tenant k u l) anything"
  unfolding society_inbox_def
  by (rule triple_and_do [OF keeps_role], simp, rule keeps_weaken [OF keeps_look]) auto

lemma keeps_acknowledge: "keeps_society (\<lambda>_. True) (acknowledgeMessage io tenant m k) anything"
  unfolding acknowledgeMessage_def
  by (rule triple_and_do [OF keeps_role], simp, rule keeps_done) (auto simp: messages_good Let_def split: option.split)

lemma keeps_metaMonitor: "keeps_society (\<lambda>_. True) (metaMonitor io tenant sa ia) anything"
  unfolding metaMonitor_def
  by (rule triple_and_do [OF keeps_seed], simp, rule triple_and_do [OF keeps_weaken [OF keeps_answer]], assumption, rule TrueI,
      rule triple_and_do [OF keeps_weaken [OF keeps_answer]], assumption, rule TrueI,
      rule triple_and_do [OF keeps_budget], simp, rule keeps_weaken [OF keeps_look]) auto

lemma retire_now_ok: "role_ok r \<Longrightarrow> underperforms tenant n rate ts r \<Longrightarrow> role_ok (retire_now now r)"
  by (simp add: role_ok_def retire_now_def underperforms_def Let_def)

lemma keeps_retireUnderperformers: "keeps_society (\<lambda>_. True) (retireUnderperformers io tenant n rate) anything"
  unfolding retireUnderperformers_def
proof (rule triple_and_do [OF keeps_seed], simp, rule triple_and_do [OF keeps_answer], rule triple_and_do [OF keeps_answer],
    rule triple_and_do [OF keeps_look], rule triple_if)
  fix x y z
  show "keeps_society (\<lambda>v. ((True \<and> P v) \<and> Q v) \<and> S v) (give (ok [])) anything" for P Q S
    by (rule keeps_weaken [OF keeps_answer]) auto
  show "keeps_society R (change io (\<lambda>v. (ok (map ro_id (filter (underperforms tenant x y (so_tasks v)) (so_roles v))),
              v\<lparr>so_roles := map (\<lambda>r. if underperforms tenant x y (so_tasks v) r then retire_now (io_now io) r else r) (so_roles v)\<rparr>))) anything" for R
    by (rule keeps_done) (auto simp: society_good_def list_all_iff intro: retire_now_ok)
qed

lemma keeps_configureBudget: "keeps_society (\<lambda>_. True) (configureBudget io tenant d n) anything"
  unfolding configureBudget_def by (rule keeps_done) (rule set_budget_good)

lemma keeps_roles: "keeps_society (\<lambda>_. True) (society_roles io tenant) anything"
  unfolding society_roles_def by (rule triple_and_do [OF keeps_seed], simp, rule keeps_weaken [OF keeps_look]) auto

lemma keeps_anyBudget: "keeps_society (\<lambda>_. True) (mutableBudget io tenant) anything"
  by (rule keeps_weaken [OF keeps_budget [of "\<lambda>_. True"]]) auto

section \<open>The service\<close>

lemmas society_keeps = keeps_roles keeps_bindProfile keeps_addRole keeps_retireRole keeps_configureBudget keeps_anyBudget keeps_postTask
  keeps_bid keeps_award keeps_execute keeps_outcome keeps_createDeliberation keeps_submitPerspective keeps_resolveDeliberation
  keeps_broadcast keeps_inbox keeps_acknowledge keeps_metaMonitor keeps_retireUnderperformers

lemma society_call_good:
  assumes "durable_good society_good st"
  shows "durable_good society_good (snd (society_call c st))"
proof -
  have s: "sees no_society society_good (\<lambda>_. True) st" using assms by (simp add: sees_def)
  obtain io op where c: "c = (io, op)" by (cases c)
  show ?thesis unfolding c society_call_def prod.case
    by (cases op) (simp_all add: forget_def keeps_societyD [OF society_keeps(1) s] keeps_societyD [OF society_keeps(2) s]
      keeps_societyD [OF society_keeps(3) s] keeps_societyD [OF society_keeps(4) s] keeps_societyD [OF society_keeps(5) s]
      keeps_societyD [OF society_keeps(6) s] keeps_societyD [OF society_keeps(7) s] keeps_societyD [OF society_keeps(8) s]
      keeps_societyD [OF society_keeps(9) s] keeps_societyD [OF society_keeps(10) s] keeps_societyD [OF society_keeps(11) s]
      keeps_societyD [OF society_keeps(12) s] keeps_societyD [OF society_keeps(13) s] keeps_societyD [OF society_keeps(14) s]
      keeps_societyD [OF society_keeps(15) s] keeps_societyD [OF society_keeps(16) s] keeps_societyD [OF society_keeps(17) s]
      keeps_societyD [OF society_keeps(18) s] keeps_societyD [OF society_keeps(19) s])
qed

interpretation soc: call_service no_society society_call society_good
  by unfold_locales (rule no_society_good, rule society_call_good)

section \<open>Properties\<close>



lemma and_do_Inr: "and_do m f st = (Inr y, st') \<longleftrightarrow> (\<exists>x st1. m st = (Inr x, st1) \<and> f x st1 = (Inr y, st'))"
  by (auto simp: and_do_def split: prod.split sum.split)

lemma answer_Inr: "give r st = (Inr x, st') \<longleftrightarrow> r = Inr x \<and> st' = st"
  by (auto simp: give_def)

lemma award_answer:
  assumes "award io tenant k st = (Inr t, st')"
  shows "sk_status t = TkAssigned" "sk_tenantId t = tenant"
proof -
  obtain st1 where "change io (award_best io tenant k) st1 = (Inr t, st')"
    using assms unfolding award_def and_do_Inr by blast
  then obtain v v' where a: "award_best io tenant k v = (Inr t, v')"
    by (auto simp: change_def durable_mutate_def split: prod.splits option.splits sum.splits if_splits)
  show "sk_status t = TkAssigned" "sk_tenantId t = tenant" by (rule award_best_Inr [OF a], simp add: found_task_id)+
qed

lemma execute_Inr:
  assumes "society_execute io profiles session child tenant k st = (Inr (t, req), st')"
  obtains r where "execution_profile profiles tenant r session = Inr (sr_profile req)" "sk_status t = TkRunning" "sk_childSessionId t = child"
proof -
  from assms obtain t0 roleId st0 where 1: "and_do (the_role io tenant roleId) (\<lambda>r.
     and_do (give (execution_profile profiles tenant r session)) (\<lambda>profile.
     and_do (give (case child of None \<Rightarrow> throw SpawnFailed | Some c \<Rightarrow> ok c)) (\<lambda>c.
       change io (\<lambda>v. case find_society_task tenant k v of Inl e \<Rightarrow> (throw e, v)
         | Inr t \<Rightarrow>
             let t' = t\<lparr>sk_childSessionId := Some c, sk_status := TkRunning, sk_updatedAt := io_now io\<rparr>
             in (ok (t', \<lparr>sr_parent = sk_rootSessionId t, sr_name = ro_id r @ ''-'' @ take 8 (sk_id t), sr_profile = profile\<rparr>),
                 put_task tenant k t' v))))) st0 = (Inr (t, req), st')"
    unfolding society_execute_def and_do_Inr [of "look no_society f" for f] by auto
  then obtain r st1 profile c where p: "execution_profile profiles tenant r session = Inr profile"
    and c: "(case child of None \<Rightarrow> throw SpawnFailed | Some c \<Rightarrow> ok c) = (Inr c :: (society_error, id) result)"
    and ch: "change io (\<lambda>v. case find_society_task tenant k v of Inl e \<Rightarrow> (throw e, v)
         | Inr t \<Rightarrow>
             let t' = t\<lparr>sk_childSessionId := Some c, sk_status := TkRunning, sk_updatedAt := io_now io\<rparr>
             in (ok (t', \<lparr>sr_parent = sk_rootSessionId t, sr_name = ro_id r @ ''-'' @ take 8 (sk_id t), sr_profile = profile\<rparr>),
                 put_task tenant k t' v)) st1 = (Inr (t, req), st')"
    unfolding and_do_Inr answer_Inr by auto
  from ch have "sr_profile req = profile" "sk_status t = TkRunning" "sk_childSessionId t = Some c"
    by (auto simp: change_def durable_mutate_def Let_def split: prod.splits option.splits sum.splits if_splits)
  moreover have "child = Some c" using c by (auto split: option.splits)
  ultimately show ?thesis using p by (intro that [of r]) simp_all
qed

lemma execution_profile_cases:
  assumes "execution_profile profiles tenant r (Some (owner, parent)) = Inr x"
  shows "x = parent \<or> (\<exists>k c. profile_snapshot k tenant profiles = Inr c \<and> within_parent parent c \<and> x = Some c)"
  using assms by (cases "ro_agentProfileId r") (auto simp: execution_profile_def bind_ok_Inr snapshot_of_def split: if_splits)

text \<open>C21. The child session of a task gets no capability its parent session does not have: when the parent has an
  allowlist the child has one, and it is within the parent's; a profile other than the parent's own is an enabled
  profile of the tenant.\<close>

theorem child_within_parent:
  assumes "society_execute io profiles session child tenant k st = (Inr (t, req), st')" and "session = Some (owner, parent)"
  shows "(\<forall>p ids. parent = Some p \<and> ap_allowedCapabilityIds p = Some ids \<longrightarrow>
      (\<exists>c cs. sr_profile req = Some c \<and> ap_allowedCapabilityIds c = Some cs \<and> set cs \<subseteq> set ids))
    \<and> (sr_profile req = parent \<or> (\<exists>r c. profile_snapshot r tenant profiles = Inr c \<and> sr_profile req = Some c))
    \<and> sk_status t = TkRunning \<and> sk_childSessionId t = child"
proof -
  obtain r where p: "execution_profile profiles tenant r session = Inr (sr_profile req)"
    and t: "sk_status t = TkRunning" "sk_childSessionId t = child"
    by (rule execute_Inr [OF assms(1)])
  from execution_profile_cases [OF p [unfolded assms(2)]] show ?thesis using t
    by (elim disjE exE conjE) (auto simp: within_parent_def split: option.splits)
qed

lemma verdict_on_exact:
  assumes "0 \<le> a" and "0 \<le> b"
  shows "(verdict_on a b = DecApprove \<longleftrightarrow> 0 < a \<and> 115 * b \<le> 85 * a) \<and> (verdict_on a b = DecReject \<longleftrightarrow> 0 < b \<and> 115 * a \<le> 85 * b)"
proof (cases "a + b = 0")
  case True
  then have "a = 0" "b = 0" using assms by linarith+
  then show ?thesis by (simp add: verdict_on_def)
next
  case False
  then have p: "0 < a + b" using assms by linarith
  then have "(\<bar>a - b\<bar> / (a + b) < 15 / 100) = (\<bar>a - b\<bar> * 100 < 15 * (a + b))" 
    by (subst pos_divide_less_eq [OF p]) (rule iffI; simp)
  then show ?thesis using assms p by (auto simp: verdict_on_def Let_def)
qed

lemma role_map_mem: "role_map tenant v k = Some r \<Longrightarrow> r \<in> set (so_roles v)"
  by (auto simp: role_map_def dest!: map_of_SomeD)

lemma total_weight_nonneg:
  assumes "society_good v" and "resolved_by tenant d v"
  shows "0 \<le> total_weight (role_map tenant v) k (dl_perspectives d)"
  unfolding total_weight_def
proof (rule sum_list_nonneg)
  fix x assume "x \<in> set (map (weight_of (role_map tenant v)) (filter (\<lambda>p. pv_recommendation p = k) (dl_perspectives d)))"
  then obtain p where p: "p \<in> set (dl_perspectives d)" "x = weight_of (role_map tenant v) p" by auto
  then obtain r where r: "role_map tenant v (pv_roleId p) = Some r" using assms(2) by (auto simp: resolved_by_def list_all_iff)
  then have "0 \<le> ro_reputation r" using assms(1) role_map_mem [OF r] by (auto simp: society_good_def list_all_iff role_ok_def)
  moreover have "0 \<le> pv_confidence p" using assms(2) p by (auto simp: resolved_by_def deliberation_ok_def list_all_iff)
  ultimately show "0 \<le> x" unfolding p(2) weight_of_def r by simp
qed

text \<open>C25. A resolved deliberation had its quorum; it approves just when the weight of its approving voices exceeds that of the
  rejecting ones by 15 per cent of their sum, and rejects just when the reverse holds, each voice weighed by the
  reputation of its role and its confidence; the roles that voted against the decision are its dissent, and each of its
  roles was heard or is listed as missing, not both.\<close>

theorem deliberation_outcome:
  assumes "call_reach society_call st" and "resolveDeliberation io tenant k st = (Inr d, st')" and "durable_view no_society st' = Some v"
  shows "\<exists>r. dl_result d = Some r \<and> dl_quorum d \<le> int (length (dl_perspectives d))
    \<and> (dr_decision r = DecApprove \<longleftrightarrow> 0 < total_weight (role_map tenant v) Approve (dl_perspectives d)
         \<and> 115 * total_weight (role_map tenant v) Reject (dl_perspectives d) \<le> 85 * total_weight (role_map tenant v) Approve (dl_perspectives d))
    \<and> (dr_decision r = DecReject \<longleftrightarrow> 0 < total_weight (role_map tenant v) Reject (dl_perspectives d)
         \<and> 115 * total_weight (role_map tenant v) Approve (dl_perspectives d) \<le> 85 * total_weight (role_map tenant v) Reject (dl_perspectives d))
    \<and> set (dr_dissent r) = pv_roleId ` {p \<in> set (dl_perspectives d). opposes (dr_decision r) p}
    \<and> pv_roleId ` set (dl_perspectives d) \<union> set (dr_missing r) = set (dl_requiredRoleIds d)
    \<and> pv_roleId ` set (dl_perspectives d) \<inter> set (dr_missing r) = {}"
proof -
  have s: "sees no_society society_good (resolved_by tenant d) st'"
    using triple_Inr [OF resolve_spec _ assms(2)] soc.reach_good [OF assms(1)] by (simp add: sees_def)
  then have v: "resolved_by tenant d v" using assms(3) by (simp add: sees_def)
  have g: "society_good v"
    using durable_read_value_good [OF no_society_good sees_good [OF s]] assms(3) by (simp add: durable_view_def)
  let ?r = "resolve (role_map tenant v) d" and ?w = "\<lambda>k. total_weight (role_map tenant v) k (dl_perspectives d)"
  have dec: "dr_decision ?r = verdict_on (?w Approve) (?w Reject)" by (simp add: resolve_def Let_def)
  note exact = verdict_on_exact [OF total_weight_nonneg [OF g v] total_weight_nonneg [OF g v], of Approve Reject]
  have "set (dr_dissent ?r) = pv_roleId ` {p \<in> set (dl_perspectives d). opposes (dr_decision ?r) p}" by (auto simp: resolve_def Let_def)
  moreover have "dl_result d = Some ?r" "dl_quorum d \<le> int (length (dl_perspectives d))"
    "pv_roleId ` set (dl_perspectives d) \<subseteq> set (dl_requiredRoleIds d)"
    using v by (auto simp: resolved_by_def deliberation_ok_def)
  moreover have "set (dr_missing ?r) = set (dl_requiredRoleIds d) - pv_roleId ` set (dl_perspectives d)"
    by (auto simp: resolve_def Let_def list_ex_iff)
  ultimately show ?thesis using exact dec by (intro exI [of _ ?r] conjI) (simp_all, blast+)
qed

section \<open>Sample runs\<close>

definition demo_io :: "msec \<Rightarrow> id \<Rightarrow> society_io" where
  "demo_io now k = \<lparr>io_now = now, io_fresh = k, io_fits = (\<lambda>_. True), io_wrote = True, io_rank = length\<rparr>"

definition society_run :: "(society_io \<times> society_op) list \<Rightarrow> society_state durable" where
  "society_run cs = fold (\<lambda>c st. snd (society_call c st)) cs \<lparr>cached = None, disk = Absent\<rparr>"

lemma society_run_reach: "call_reach society_call (society_run cs)"
proof -
  have "call_reach society_call (fold (\<lambda>c st. snd (society_call c st)) cs st)" if "call_reach society_call st" for st
    using that by (induction cs arbitrary: st) (simp_all add: call_reach.call)
  then show ?thesis unfolding society_run_def by (simp add: call_reach.fresh)
qed

definition demo_bid :: "string \<Rightarrow> int \<Rightarrow> bid_input" where
  "demo_bid r n = \<lparr>bi_tenantId = ''t'', bi_taskId = ''k'', bi_roleId = r, bi_confidence = 1 / 2, bi_estimatedTokens = n,
     bi_estimatedDurationMs = 5, bi_rationale = ''can do''\<rparr>"

definition demo_market :: "(society_io \<times> society_op) list" where
  "demo_market = [
     (demo_io 1 ''r'', OpAddRole \<lparr>li_tenantId = ''t'', li_name = ''Smith'', li_layer = Specialist, li_purpose = ''Forge.'',
        li_capabilityTags = [''coding''], li_parentRoleId = None, li_agentProfileId = None\<rparr> []),
     (demo_io 2 ''k'', OpPost \<lparr>ti_tenantId = ''t'', ti_rootSessionId = ''s'', ti_title = ''Fix'', ti_objective = ''Fix it.'',
        ti_requiredTags = [''coding''], ti_priority = None, ti_maxTokens = Some 200, ti_deadline = None\<rparr> (Some (''t'', None))),
     (demo_io 3 ''b1'', OpBid (demo_bid ''coding-agent'' 150)),
     (demo_io 4 ''b2'', OpBid (demo_bid ''role-r'' 100))]"

text \<open>The role that wins has been retired since its bid.\<close>

definition demo_retired :: "(society_io \<times> society_op) list" where
  "demo_retired = demo_market @ [(demo_io 5 ''x'', OpRetire ''t'' ''role-r'')]"

definition demo_profiles :: "profile_record list" where
  "demo_profiles = [\<lparr>pf_id = ''p'', pf_tenantId = ''t'', pf_name = ''careful'', pf_description = [], pf_instructions = ''Be careful.'',
     pf_allowed = Some [''file.read''], pf_modelRoute = None, pf_fallbackModels = [], pf_enabled = True, pf_version = 1, pf_createdAt = 0,
     pf_updatedAt = 0\<rparr>]"

definition demo_parent :: agent_profile where
  "demo_parent = \<lparr>ap_id = ''q'', ap_name = ''lead'', ap_version = 1, ap_instructions = ''Lead.'',
     ap_allowedCapabilityIds = Some [''file.read'', ''file.write''], ap_modelRoute = None, ap_fallbackModels = []\<rparr>"

definition demo_perspective :: "string \<Rightarrow> recommendation \<Rightarrow> perspective_input" where
  "demo_perspective r k = \<lparr>vi_tenantId = ''t'', vi_deliberationId = ''d'', vi_roleId = r, vi_recommendation = k, vi_confidence = 1 / 2,
     vi_summary = ''because'', vi_evidence = None\<rparr>"

definition demo_deliberation :: "(society_io \<times> society_op) list" where
  "demo_deliberation = [
     (demo_io 1 ''d'', OpDeliberate \<lparr>ni_tenantId = ''t'', ni_question = ''Ship?'', ni_requiredRoleIds = [''coding-agent'', ''risk-agent'', ''debug-agent''],
        ni_quorum = Some 2\<rparr>),
     (demo_io 2 ''x'', OpSubmit (demo_perspective ''coding-agent'' Approve)),
     (demo_io 3 ''x'', OpSubmit (demo_perspective ''risk-agent'' Approve))]"

text \<open>What the sample calls answer.\<close>

definition demo_child :: "(society_error store_error, society_task \<times> spawn_request) result \<times> society_state durable" where
  "demo_child = society_execute (demo_io 8 ''x'') demo_profiles (Some (''t'', Some demo_parent)) (Some ''c'') ''t'' ''k''
      (society_run (demo_market @ [(demo_io 5 ''x'', OpBind ''t'' ''role-r'' (Some ''p'') demo_profiles), (demo_io 6 ''x'', OpAward ''t'' ''k'')]))"

lemma sample_runs:
  "(case award (demo_io 6 ''x'') ''t'' ''k'' (society_run demo_retired) of (Inl e, st') \<Rightarrow> False
     | (Inr t, st') \<Rightarrow> sk_assignedRoleId t = Some ''role-r'' \<and> length (sk_bids t) = 2 \<and> (case durable_view no_society st' of None \<Rightarrow> False
         | Some v \<Rightarrow> list_ex (\<lambda>r. is_role ''t'' ''role-r'' r \<and> ro_status r = RoleRetired) (so_roles v)))
   \<and> (case durable_view no_society (society_run demo_market) of None \<Rightarrow> False | Some v \<Rightarrow> map (\<lambda>t. length (sk_bids t)) (so_tasks v) = [2])
   \<and> (case demo_child of (Inl e, st') \<Rightarrow> False
     | (Inr (t, req), st') \<Rightarrow> (case sr_profile req of None \<Rightarrow> False | Some c \<Rightarrow> ap_name c = ''careful''))
   \<and> (case resolveDeliberation (demo_io 4 ''x'') ''t'' ''d'' (society_run demo_deliberation) of (Inl e, st') \<Rightarrow> False
     | (Inr d, st') \<Rightarrow> durable_view no_society st' \<noteq> None \<and> map_option dr_decision (dl_result d) = Some DecApprove)"
  by code_simp

lemma demo_award:
  "\<exists>t st' v. award (demo_io 6 ''x'') ''t'' ''k'' (society_run demo_retired) = (Inr t, st')
     \<and> durable_view no_society st' = Some v \<and> sk_assignedRoleId t = Some ''role-r'' \<and> length (sk_bids t) = 2
     \<and> list_ex (\<lambda>r. is_role ''t'' ''role-r'' r \<and> ro_status r = RoleRetired) (so_roles v)"
proof -
  let ?a = "award (demo_io 6 ''x'') ''t'' ''k'' (society_run demo_retired)"
  have "case ?a of (Inl e, st') \<Rightarrow> False
     | (Inr t, st') \<Rightarrow> sk_assignedRoleId t = Some ''role-r'' \<and> length (sk_bids t) = 2 \<and> (case durable_view no_society st' of None \<Rightarrow> False
         | Some v \<Rightarrow> list_ex (\<lambda>r. is_role ''t'' ''role-r'' r \<and> ro_status r = RoleRetired) (so_roles v))"
    using sample_runs by (rule conjunct1)
  then show ?thesis by (auto simp del: list_ex_iff split: prod.splits sum.splits option.splits)
qed

text \<open>A role can be awarded a task after it was retired: \<^verbatim>\<open>award\<close> does not look at the status of a bidder, and
  \<^verbatim>\<open>retireRole\<close> only minds tasks that are assigned already.\<close>

theorem retired_bidder_awarded:
  "\<exists>st t st' v r. call_reach society_call st \<and> award (demo_io 6 ''x'') ''t'' ''k'' st = (Inr t, st')
     \<and> durable_view no_society st' = Some v \<and> sk_status t = TkAssigned \<and> sk_assignedRoleId t = Some (ro_id r)
     \<and> r \<in> set (so_roles v) \<and> ro_tenantId r = sk_tenantId t \<and> ro_status r = RoleRetired"
proof -
  obtain t st' v where a: "award (demo_io 6 ''x'') ''t'' ''k'' (society_run demo_retired) = (Inr t, st')"
    and v: "durable_view no_society st' = Some v" and t: "sk_assignedRoleId t = Some ''role-r''"
    and r: "list_ex (\<lambda>r. is_role ''t'' ''role-r'' r \<and> ro_status r = RoleRetired) (so_roles v)"
    using demo_award by blast
  have "sk_status t = TkAssigned" by (rule award_answer [OF a])
  moreover have "sk_tenantId t = ''t''" by (rule award_answer [OF a])
  moreover obtain p where "p \<in> set (so_roles v)" "is_role ''t'' ''role-r'' p" "ro_status p = RoleRetired"
    using r unfolding list_ex_iff by blast
  ultimately show ?thesis using a v t society_run_reach [of demo_retired] unfolding is_role_def by metis
qed



lemma child_within_parent_witness:
  "\<exists>t req st'. demo_child = (Inr (t, req), st') \<and> (\<exists>c. sr_profile req = Some c \<and> ap_name c = ''careful'' \<and> sk_childSessionId t = Some ''c'')"
proof -
  have "case demo_child of (Inl e, st') \<Rightarrow> False
     | (Inr (t, req), st') \<Rightarrow> (case sr_profile req of None \<Rightarrow> False | Some c \<Rightarrow> ap_name c = ''careful'')" using sample_runs by (elim conjE)
  then obtain p st' where e': "demo_child = (Inr p, st')" and "case sr_profile (snd p) of None \<Rightarrow> False | Some c \<Rightarrow> ap_name c = ''careful''"
    by (auto split: prod.splits sum.splits)
  then obtain t req c where e: "demo_child = (Inr (t, req), st')" and c: "sr_profile req = Some c" "ap_name c = ''careful''"
    by (cases p) (auto split: option.splits)
  from child_within_parent [OF e [unfolded demo_child_def] refl] have "sk_childSessionId t = Some ''c''" by blast
  then show ?thesis using e c by blast
qed

lemma deliberation_outcome_witness:
  "\<exists>d r. fst (resolveDeliberation (demo_io 4 ''x'') ''t'' ''d'' (society_run demo_deliberation)) = Inr d \<and> dl_result d = Some r
     \<and> dr_decision r = DecApprove \<and> set (dr_dissent r) = pv_roleId ` {p \<in> set (dl_perspectives d). opposes (dr_decision r) p}"
proof -
  let ?e = "resolveDeliberation (demo_io 4 ''x'') ''t'' ''d'' (society_run demo_deliberation)"
  have "case ?e of (Inl e, st') \<Rightarrow> False | (Inr d, st') \<Rightarrow> durable_view no_society st' \<noteq> None
     \<and> map_option dr_decision (dl_result d) = Some DecApprove" using sample_runs by (elim conjE)
  then obtain d st' v where e: "?e = (Inr d, st')" and v: "durable_view no_society st' = Some v"
    and k: "map_option dr_decision (dl_result d) = Some DecApprove" by (auto split: prod.splits sum.splits)
  from deliberation_outcome [OF society_run_reach e v] k e show ?thesis by auto
qed

end
