(* ===== verification/RoleAuthority.thy ===== *)
theory RoleAuthority
  imports SocietyLaws "HOL-Library.List_Lexorder" "HOL-Library.Char_ord"
begin

text \<open>
  \<^verbatim>\<open>RoleAuthorityService\<close>, \<^verbatim>\<open>aurora/role-authority-service.ts\<close>: templates of least authority, resolved against the
  live catalog of capabilities, written into agent profiles and bound to the roles of the society. The service has a
  store of its own and calls the profile registry (theory AgentProfiles) and the society (theory Society); the
  catalog is an argument. The dashes of the built-in texts are written as hyphens.
\<close>

section \<open>Templates\<close>

definition risk_rank :: "capability_risk \<Rightarrow> nat" where
  "risk_rank r = (case r of Pure \<Rightarrow> 0 | WorkspaceRead \<Rightarrow> 1 | WorkspaceWrite \<Rightarrow> 2 | Process \<Rightarrow> 3 | Network \<Rightarrow> 4 | ExternalSideEffect \<Rightarrow> 5 | Privileged \<Rightarrow> 6)"

record authority_template =
  at_id :: string
  at_builtin :: bool
  at_tenantId :: "string option"
  at_title :: string
  at_rationale :: string
  at_roleIds :: "string list"
  at_allow :: "string list"
  at_deny :: "string list"
  at_maxRisk :: capability_risk

record resolved_template =
  rt_templateId :: string
  rt_title :: string
  rt_maxRisk :: capability_risk
  rt_roleIds :: "string list"
  rt_capabilityIds :: "string list"
  rt_byRisk :: "(capability_risk, nat) js_map"
  rt_droppedByRisk :: "string list"
  rt_droppedByDeny :: "string list"
  rt_unmatchedPatterns :: "string list"
  rt_catalogSize :: nat
  rt_reductionRatio :: rat

definition matchesPattern :: "string \<Rightarrow> string \<Rightarrow> bool" where
  "matchesPattern k pattern =
     (let trimmed = js_trim pattern in
      trimmed \<noteq> [] \<and> (if ends_with trimmed ''*'' then starts_with k (take (length trimmed - 1) trimmed) else k = trimmed))"

definition builtin_template ::
    "string \<Rightarrow> string \<Rightarrow> string \<Rightarrow> string list \<Rightarrow> string list \<Rightarrow> string list \<Rightarrow> capability_risk \<Rightarrow> authority_template" where
  "builtin_template k ti why roles allow deny mx =
     \<lparr>at_id = k, at_builtin = True, at_tenantId = None, at_title = ti, at_rationale = why, at_roleIds = roles,
      at_allow = allow, at_deny = deny, at_maxRisk = mx\<rparr>"

definition builtin_templates :: "authority_template list" where
  "builtin_templates = [
    builtin_template ''prime'' ''Aurora Prime - coordination without execution''
        ''Prime synthesises plans, priorities and reports. It must be able to read everything Aurora knows and write coordination state, but it should never be the process that touches a shell, the network or a credential, and it may not start delegated work itself.''
        [''aurora-prime'']
        [''acos.status'', ''acos.cycles'', ''acos.journal'', ''acos.journal.note'', ''plan.*'', ''decision.*'', ''cognitive.*'',
         ''society.*'', ''initiative.*'', ''memory.graph.recall'', ''memory.search'', ''memory.graph.health'', ''constitution.check'',
         ''constitution.compliance'', ''constitution.principles'', ''constitution.identity'', ''constitution.projection'', ''world.*'',
         ''multiworld.*'', ''aurora.explain'', ''aurora.metrics'', ''aurora.alerts'']
        [''plan.activate'', ''plan.delegate'', ''society.task.execute'', ''society.roles.retire-underperformers''] WorkspaceWrite,
    builtin_template ''researcher'' ''Research specialist - evidence in, no writes out''
        ''Research needs the network and the knowledge stores, and nothing else. It cannot touch the filesystem, run processes or change society state, so a hostile search result cannot become a code change.''
        [''research-agent'', ''research-director'', ''opportunity-agent'', ''knowledge-agent'']
        [''web.fetch'', ''knowledge.search'', ''session.search'', ''artifact.list'', ''memory.search'', ''memory.propose'',
         ''memory.graph.recall'', ''memory.graph.remember'', ''memory.graph.neighborhood'', ''microagents.list'', ''microagents.recall'',
         ''microagents.register'', ''microagents.feedback'', ''world.entities.list'', ''world.entity.upsert'', ''world.event.record'',
         ''world.prediction.create'']
        [''memory.graph.supersede''] Network,
    builtin_template ''coder'' ''Coding specialist - workspace and tests, no external effects''
        ''Implementation needs files, git and a process to run tests. It does not need the network, channels, credentials or the ability to change Aurora's own governance, and it may capture a checkpoint but never restore one.''
        [''coding-agent'', ''debug-agent'', ''architecture-agent'']
        [''filesystem.*'', ''git.*'', ''process.exec'', ''python.execute'', ''checkpoint.capture'', ''checkpoint.diff'',
         ''checkpoint.list'', ''checkpoint.usage'', ''artifact.list'', ''artifact.publish'', ''session.search'', ''session.stuck.analyze'',
         ''skills.list'', ''skills.get'', ''task.*'', ''memory.graph.recall'']
        [''checkpoint.restore'', ''repository.review.merge''] Process,
    builtin_template ''planner'' ''Planning specialist - decomposition and delegation, no hands''
        ''Planning writes plans and decisions and posts work to the marketplace. It never performs the work itself, which keeps the plan an independent record of what was intended rather than a description of what already happened.''
        [''planner-agent'', ''planning-director'', ''project-manager-agent'']
        [''plan.*'', ''decision.*'', ''task.*'', ''society.task.post'', ''society.task.bid'', ''society.task.award'',
         ''society.tasks.list'', ''society.roles.list'', ''society.meta.monitor'', ''acos.status'', ''memory.graph.recall'',
         ''world.state.at'', ''world.simulate'', ''world.entities.list'']
        [''plan.activate'', ''plan.delegate'', ''society.task.execute''] WorkspaceWrite,
    builtin_template ''memory-keeper'' ''Memory specialist - consolidation and recall only''
        ''Memory work is high-volume and mostly reversible, but forgetting and exporting are not. Recall, storage, relation and consolidation are granted; deletion, export and user purges are not.''
        [''memory-director'', ''reflection-agent'']
        [''memory.*'', ''knowledge.search'', ''microagents.recall'', ''aurora.explain'', ''session.search'']
        [''aurora.export'', ''aurora.purge.user'', ''user.model.forget''] WorkspaceWrite,
    builtin_template ''guardian'' ''Guardian and security review - read everything, change nothing''
        ''Review roles are only trustworthy if they cannot quietly fix what they are reviewing. They get broad read access across Aurora's state and no write authority at all: every capability in this template is side-effect free.''
        [''guardian-agent'', ''risk-agent'', ''security-director'', ''user-director'']
        [''risk.assess'', ''risk.posture'', ''risk.rules'', ''constitution.check'', ''constitution.compliance'',
         ''constitution.principles'', ''constitution.identity'', ''aurora.metrics'', ''aurora.alerts'', ''aurora.selfcheck'',
         ''aurora.footprint'', ''aurora.explain'', ''plan.list'', ''plan.progress'', ''plan.stalled'', ''plan.delegations'',
         ''plan.delegation-report'', ''environment.actions.list'', ''environment.actions.unverified'', ''environment.inventory'',
         ''society.roles.list'', ''society.meta.monitor'', ''session.search'', ''session.stuck.analyze'', ''checkpoint.list'',
         ''checkpoint.usage'', ''autopilot.status'', ''user.alignment.check'', ''user.goals.stalled'']
        [] Pure,
    builtin_template ''communicator'' ''Communication specialist - outward messages, no inward authority''
        ''Notification and reporting roles need channels and digests. They must not be able to read the filesystem or run anything, so an injected instruction inside a message cannot reach into the system.''
        [''communication-agent'']
        [''channel.send'', ''initiative.digest'', ''initiative.list'', ''initiative.delivered'', ''initiative.feedback'',
         ''memory.graph.recall'', ''aurora.metrics'', ''user.timeline'', ''user.goals.list'']
        [] ExternalSideEffect,
    builtin_template ''world-modeler'' ''World model specialist - predict and simulate, resolve honestly''
        ''World modelling writes entities, states, causal claims and predictions, and runs bounded simulations. It has no reach into the workspace, the network or the society, so a wrong model can only be wrong, never destructive.''
        [''world-model-director'', ''simulation-agent'']
        [''world.*'', ''multiworld.*'', ''memory.graph.recall'', ''memory.search'', ''aurora.explain'']
        [] WorkspaceWrite,
    builtin_template ''evolver'' ''Skill evolution - propose and evaluate, never self-promote''
        ''Evolution roles may design, evaluate and regression-test skill candidates. Promotion, retirement and rollback stay with the staged evidence gates operated outside the role.''
        [''skill-director'', ''creativity-agent'', ''skill-builder-agent'']
        [''evolution.*'', ''experience.distill'', ''experience.proposals'', ''harness.entries'', ''harness.project'', ''harness.refine'',
         ''harness.refinements'', ''harness.refinement.outcome'', ''skills.*'', ''memory.graph.recall'']
        [''evolution.retire'', ''evolution.retirement.sweep'', ''evolution.stage.advance'', ''harness.rollback'', ''experience.apply''] WorkspaceWrite]"

section \<open>Resolving\<close>

definition denied_by :: "authority_template \<Rightarrow> string \<Rightarrow> bool" where
  "denied_by t k = list_ex (matchesPattern k) (at_deny t)"

definition matched_ids :: "capability_descriptor list \<Rightarrow> authority_template \<Rightarrow> string list" where
  "matched_ids catalog t = dedupe (concat (map (\<lambda>p. map desc_id (filter (\<lambda>c. matchesPattern (desc_id c) p) catalog)) (at_allow t)))"

text \<open>The descriptor of an id that was matched: the first of the catalog with it.\<close>

definition descriptor_of :: "capability_descriptor list \<Rightarrow> string \<Rightarrow> capability_descriptor" where
  "descriptor_of catalog k = the (List.find (\<lambda>c. desc_id c = k) catalog)"

definition above_ceiling :: "capability_descriptor list \<Rightarrow> authority_template \<Rightarrow> string \<Rightarrow> bool" where
  "above_ceiling catalog t k = (risk_rank (desc_risk (descriptor_of catalog k)) > risk_rank (at_maxRisk t))"

definition resolveTemplate :: "capability_descriptor list \<Rightarrow> authority_template \<Rightarrow> resolved_template" where
  "resolveTemplate catalog t =
     (let matched = matched_ids catalog t;
          kept = filter (\<lambda>k. \<not> denied_by t k) matched;
          granted = map (descriptor_of catalog) (filter (\<lambda>k. \<not> above_ceiling catalog t k) kept)
      in \<lparr>rt_templateId = at_id t, rt_title = at_title t, rt_maxRisk = at_maxRisk t, rt_roleIds = at_roleIds t,
          rt_capabilityIds = sort (map desc_id granted), rt_byRisk = tally (map desc_risk granted),
          rt_droppedByRisk = sort (filter (above_ceiling catalog t) kept), rt_droppedByDeny = sort (filter (denied_by t) matched),
          rt_unmatchedPatterns = filter (\<lambda>p. \<not> list_ex (\<lambda>c. matchesPattern (desc_id c) p) catalog) (at_allow t),
          rt_catalogSize = length catalog,
          rt_reductionRatio = (if catalog = [] then 0 else to_fixed6 (1 - of_nat (length granted) / of_nat (length catalog)))\<rparr>)"

section \<open>The service\<close>

text \<open>\<open>au_store\<close> is \<open>None\<close> for a service without a data root.\<close>

record authority_state =
  au_store :: "authority_template list durable option"
  au_profiles :: "profile_record list durable"
  au_society :: "society_state durable"

record authority_io =
  ay_catalog :: "capability_descriptor list"
  ay_rank :: "string \<Rightarrow> nat"
  ay_fits :: "authority_template list \<Rightarrow> bool"
  ay_wrote :: bool
  ay_fresh :: id
  ay_wroteProfile :: bool
  ay_society :: society_io

datatype authority_error =
    AuthText aurora_error | NoDataRoot | BadTemplateId | ReservedId | TooManyPatterns | BadPattern | NoAllowPattern | ResolvesToNothing
  | TemplateLimit | UnknownTemplate | BuiltinStays | StoreFailed | ProfileFailed "profile_error store_error"
  | SocietyFailed "society_error store_error"

type_synonym 'r authority_proc = "authority_state \<Rightarrow> (authority_error, 'r) result \<times> authority_state"

text \<open>A step in one of the three stores.\<close>

definition in_store ::
    "(authority_template list durable \<Rightarrow> (authority_error store_error, 'r) result \<times> authority_template list durable) \<Rightarrow> 'r authority_proc" where
  "in_store m st =
     (case au_store st of
        None \<Rightarrow> (throw NoDataRoot, st)
      | Some s \<Rightarrow> (case m s of (r, s) \<Rightarrow> (lift_error (\<lambda>e. case e of Rejected x \<Rightarrow> x | _ \<Rightarrow> StoreFailed) r, st\<lparr>au_store := Some s\<rparr>)))"

definition in_profiles ::
    "(profile_record list durable \<Rightarrow> (profile_error store_error, 'r) result \<times> profile_record list durable) \<Rightarrow> 'r authority_proc" where
  "in_profiles m st = (case m (au_profiles st) of (r, s) \<Rightarrow> (lift_error ProfileFailed r, st\<lparr>au_profiles := s\<rparr>))"

definition in_society ::
    "(society_state durable \<Rightarrow> (society_error store_error, 'r) result \<times> society_state durable) \<Rightarrow> 'r authority_proc" where
  "in_society m st = (case m (au_society st) of (r, s) \<Rightarrow> (lift_error SocietyFailed r, st\<lparr>au_society := s\<rparr>))"

definition returns :: "(authority_error, 'r) result \<Rightarrow> 'r authority_proc" where
  "returns r st = (r, st)"

definition template_of :: "string \<Rightarrow> (authority_error, authority_template) result" where
  "template_of k = (case List.find (\<lambda>t. at_id t = js_trim k) builtin_templates of None \<Rightarrow> throw UnknownTemplate | Some t \<Rightarrow> ok t)"

definition allTemplates :: "authority_io \<Rightarrow> string \<Rightarrow> authority_template list authority_proc" where
  "allTemplates io tenant st =
     (case au_store st of
        None \<Rightarrow> (ok builtin_templates, st)
      | Some _ \<Rightarrow> in_store (look [] (\<lambda>ts. ok (builtin_templates @ sort_key (\<lambda>t. ay_rank io (at_id t)) (filter (\<lambda>t. at_tenantId t = Some tenant) ts)))) st)"

text \<open>\<^verbatim>\<open>/^[a-z][a-z0-9-]{1,59}$/\<close> and \<^verbatim>\<open>/^[a-zA-Z0-9_.:-]{1,200}\*?$/\<close>\<close>

definition template_id_ok :: "string \<Rightarrow> bool" where
  "template_id_ok s = (case s of [] \<Rightarrow> False
     | c # cs \<Rightarrow> lower_alnum c \<and> \<not> digit c \<and> cs \<noteq> [] \<and> length cs \<le> 59 \<and> list_all (\<lambda>d. lower_alnum d \<or> d = CHR ''-'') cs)"

definition pattern_ok :: "string \<Rightarrow> bool" where
  "pattern_ok s = (capability_id_ok s \<or> ends_with s ''*'' \<and> capability_id_ok (take (length s - 1) s))"

definition patterns :: "string list \<Rightarrow> (authority_error, string list) result" where
  "patterns xs = (let ys = dedupe (filter (\<lambda>x. x \<noteq> []) (map js_trim xs)) in
     if length ys > 100 then throw TooManyPatterns else if list_ex (\<lambda>y. \<not> pattern_ok y) ys then throw BadPattern else ok ys)"

record template_input =
  mi_tenant :: string
  mi_id :: string
  mi_templateTitle :: string
  mi_rationale :: string
  mi_roleIds :: "string list option"
  mi_allow :: "string list"
  mi_deny :: "string list option"
  mi_maxRisk :: capability_risk

definition auth_text :: "string \<Rightarrow> nat \<Rightarrow> string \<Rightarrow> (authority_error, string) result" where
  "auth_text v mx l = lift_error AuthText (auroraText v mx l)"

definition new_template :: "template_input \<Rightarrow> (authority_error, authority_template) result" where
  "new_template i =
     bind_ok (auth_text (mi_tenant i) 200 ''Tenant ID'') (\<lambda>tenant.
     bind_ok (auth_text (mi_id i) 60 ''Template ID'') (\<lambda>raw.
       let k = js_lower raw in
       if \<not> template_id_ok k then throw BadTemplateId
       else if list_ex (\<lambda>t. at_id t = k) builtin_templates then throw ReservedId
       else
         bind_ok (patterns (mi_allow i)) (\<lambda>allow.
           if allow = [] then throw NoAllowPattern
           else
             bind_ok (auth_text (mi_templateTitle i) 200 ''Template title'') (\<lambda>ti.
             bind_ok (auth_text (mi_rationale i) 2000 ''Template rationale'') (\<lambda>ra.
             bind_ok (map_ok (\<lambda>r. auth_text r 200 ''Role ID'') (or_else (mi_roleIds i) [])) (\<lambda>rs.
             bind_ok (patterns (or_else (mi_deny i) [])) (\<lambda>deny.
               ok \<lparr>at_id = k, at_builtin = False, at_tenantId = Some tenant, at_title = ti, at_rationale = ra,
                   at_roleIds = take 50 (dedupe rs), at_allow = allow, at_deny = deny, at_maxRisk = mi_maxRisk i\<rparr>)))))))"

definition same_template :: "string option \<Rightarrow> string \<Rightarrow> authority_template \<Rightarrow> bool" where
  "same_template tenant k t = (at_tenantId t = tenant \<and> at_id t = k)"

text \<open>The limit is checked after the template is in the list.\<close>

definition put_template :: "authority_template \<Rightarrow> authority_template list \<Rightarrow> (authority_error, unit) result \<times> authority_template list" where
  "put_template t ts =
     (let this = same_template (at_tenantId t) (at_id t);
          ts' = (if list_ex this ts then update_first this (\<lambda>_. t) ts else ts @ [t])
      in (if length ts' > 500 then throw TemplateLimit else ok (), ts'))"

definition defineTemplate :: "authority_io \<Rightarrow> template_input \<Rightarrow> (authority_template \<times> resolved_template) authority_proc" where
  "defineTemplate io i st =
     (if au_store st = None then (throw NoDataRoot, st)
      else
        and_do (returns (new_template i)) (\<lambda>t.
          let resolved = resolveTemplate (ay_catalog io) t in
          if rt_capabilityIds resolved = [] then returns (throw ResolvesToNothing)
          else and_do (in_store (durable_mutate [] (ay_fits io) (ay_wrote io) (put_template t))) (\<lambda>_. returns (ok (t, resolved)))) st)"

definition drop_template :: "string \<Rightarrow> string \<Rightarrow> authority_template list \<Rightarrow> (authority_error, bool) result \<times> authority_template list" where
  "drop_template tenant k ts =
     (let this = same_template (Some tenant) k in
      if list_ex this ts then (ok True, remove_first this ts) else (ok False, ts))"

definition removeTemplate :: "authority_io \<Rightarrow> string \<Rightarrow> string \<Rightarrow> bool authority_proc" where
  "removeTemplate io tenant k st =
     (if au_store st = None then (ok False, st)
      else if list_ex (\<lambda>t. at_id t = k) builtin_templates then (throw BuiltinStays, st)
      else in_store (durable_mutate [] (ay_fits io) (ay_wrote io) (drop_template tenant k)) st)"

definition pick_template :: "string \<Rightarrow> authority_template list \<Rightarrow> (authority_error, authority_template) result" where
  "pick_template k ts = (case List.find (\<lambda>t. at_id t = js_trim k) ts of None \<Rightarrow> throw UnknownTemplate | Some t \<Rightarrow> ok t)"

definition resolveFor :: "authority_io \<Rightarrow> string \<Rightarrow> string \<Rightarrow> resolved_template authority_proc" where
  "resolveFor io tenant k =
     and_do (allTemplates io tenant) (\<lambda>ts. returns (bind_ok (pick_template k ts) (\<lambda>t. ok (resolveTemplate (ay_catalog io) t))))"

definition resolve_builtin :: "authority_io \<Rightarrow> string \<Rightarrow> (authority_error, resolved_template) result" where
  "resolve_builtin io k = bind_ok (template_of k) (\<lambda>t. ok (resolveTemplate (ay_catalog io) t))"

section \<open>Applying a template\<close>

record apply_input =
  yi_tenantId :: string
  yi_templateId :: string
  yi_roleIds :: "string list option"
  yi_bind :: "bool option"
  yi_modelRoute :: "string option"

definition template_name :: "authority_template \<Rightarrow> string" where
  "template_name t = ''aurora-'' @ at_id t"

definition show_ceiling :: "capability_risk \<Rightarrow> string" where
  "show_ceiling r = (case r of Pure \<Rightarrow> ''pure'' | WorkspaceRead \<Rightarrow> ''workspace_read'' | WorkspaceWrite \<Rightarrow> ''workspace_write'' | Process \<Rightarrow> ''process''
     | Network \<Rightarrow> ''network'' | ExternalSideEffect \<Rightarrow> ''external_side_effect'' | Privileged \<Rightarrow> ''privileged'')"

definition template_instructions :: "authority_template \<Rightarrow> string" where
  "template_instructions t =
     ''<AURORA_ROLE template='' @ [char_of (34 :: nat)] @ at_id t @ [char_of (34 :: nat)] @ ''>'' @ [char_of (10 :: nat)]
     @ at_title t @ [char_of (10 :: nat)] @ at_rationale t @ [char_of (10 :: nat)]
     @ ''Authority ceiling: '' @ show_ceiling (at_maxRisk t)
     @ ''. Work strictly inside this allowlist; if a task needs more, say so instead of improvising.'' @ [char_of (10 :: nat)]
     @ ''</AURORA_ROLE>''"

definition profile_for :: "authority_io \<Rightarrow> string \<Rightarrow> authority_template \<Rightarrow> string list \<Rightarrow> string option \<Rightarrow> profile_record authority_proc" where
  "profile_for io tenant t capabilityIds modelRoute =
     and_do (in_profiles (look [] (\<lambda>ps. ok (List.find (\<lambda>p. js_lower (pf_name p) = template_name t) (profile_list tenant ps))))) (\<lambda>existing.
       in_profiles (durable_mutate [] (\<lambda>_. True) (ay_wroteProfile io)
         (case existing of
            Some p \<Rightarrow> profile_update (io_now (ay_society io)) (pf_id p)
              \<lparr>fu_name = None, fu_description = Some (at_title t), fu_instructions = Some (template_instructions t),
               fu_allowed = Some (Some capabilityIds), fu_modelRoute = map_option Some (given_text modelRoute), fu_fallbackModels = None, fu_enabled = None\<rparr>
          | None \<Rightarrow> profile_add (ay_fresh io) (io_now (ay_society io))
              \<lparr>fi_tenantId = tenant, fi_name = template_name t, fi_description = Some (at_title t), fi_instructions = template_instructions t,
               fi_allowed = Some capabilityIds, fi_modelRoute = given_text modelRoute, fi_fallbackModels = None\<rparr>)))"

text \<open>\<open>active\<close> is the list of the ids of the active roles as it was before the first binding.\<close>

fun bind_roles :: "authority_io \<Rightarrow> string \<Rightarrow> id \<Rightarrow> string list \<Rightarrow> string list \<Rightarrow> string list authority_proc" where
  "bind_roles io tenant k active [] = returns (ok [])"
| "bind_roles io tenant k active (r # rs) =
     (if r \<notin> set active then bind_roles io tenant k active rs
      else
        and_do (in_profiles (look [] ok)) (\<lambda>ps.
        and_do (in_society (bindProfile (ay_society io) ps tenant r (Some k))) (\<lambda>_.
        and_do (bind_roles io tenant k active rs) (\<lambda>bound. returns (ok (r # bound))))))"

record applied =
  ad_templateId :: string
  ad_profile :: profile_record
  ad_resolved :: resolved_template
  ad_boundRoleIds :: "string list"

definition authority_apply :: "authority_io \<Rightarrow> apply_input \<Rightarrow> applied authority_proc" where
  "authority_apply io i =
     and_do (returns (auth_text (yi_tenantId i) 200 ''Tenant ID'')) (\<lambda>tenant.
     and_do (allTemplates io tenant) (\<lambda>ts.
     and_do (returns (pick_template (yi_templateId i) ts)) (\<lambda>t.
       let resolved = resolveTemplate (ay_catalog io) t in
       if rt_capabilityIds resolved = [] then returns (throw ResolvesToNothing)
       else
         and_do (profile_for io tenant t (rt_capabilityIds resolved) (yi_modelRoute i)) (\<lambda>p.
         and_do (if \<not> or_else (yi_bind i) True then returns (ok [])
                 else
                   and_do (in_society (society_roles (ay_society io) tenant)) (\<lambda>roles.
                     bind_roles io tenant (pf_id p) (map ro_id (filter (\<lambda>r. ro_status r = RoleActive) roles))
                       (or_else (yi_roleIds i) (at_roleIds t)))) (\<lambda>bound.
           returns (ok \<lparr>ad_templateId = at_id t, ad_profile = p, ad_resolved = resolved, ad_boundRoleIds = bound\<rparr>))))))"

text \<open>\<open>ios\<close> gives the surroundings of the call for each template; a template that throws is skipped.\<close>

fun apply_each :: "(nat \<Rightarrow> authority_io) \<Rightarrow> nat \<Rightarrow> string \<Rightarrow> authority_template list \<Rightarrow> authority_state \<Rightarrow> applied list \<times> authority_state" where
  "apply_each ios n tenant [] st = ([], st)"
| "apply_each ios n tenant (t # ts) st =
     (case authority_apply (ios n) \<lparr>yi_tenantId = tenant, yi_templateId = at_id t, yi_roleIds = None, yi_bind = None, yi_modelRoute = None\<rparr> st of
        (Inl e, st) \<Rightarrow> apply_each ios (Suc n) tenant ts st
      | (Inr a, st) \<Rightarrow> (case apply_each ios (Suc n) tenant ts st of (as, st) \<Rightarrow> (a # as, st)))"

definition applyAll :: "(nat \<Rightarrow> authority_io) \<Rightarrow> string \<Rightarrow> applied list authority_proc" where
  "applyAll ios tenant = and_do (allTemplates (ios 0) tenant) (\<lambda>ts st. case apply_each ios 0 tenant ts st of (as, st) \<Rightarrow> (ok as, st))"

section \<open>The audit\<close>

datatype authority_severity = AuthInfo | AuthWarning | AuthCritical

datatype authority_code = InheritsFullAuthority | ProfileMissing | NoAllowlist | DriftedAboveTemplate

record authority_finding =
  fd_severity :: authority_severity
  fd_code :: authority_code
  fd_roleId :: "string option"
  fd_profileId :: "id option"

definition role_finding :: "profile_record list \<Rightarrow> society_role \<Rightarrow> authority_finding list" where
  "role_finding profiles r =
     (case given_text (ro_agentProfileId r) of
        None \<Rightarrow> [\<lparr>fd_severity = (if ro_layer r = Specialist then AuthWarning else AuthInfo), fd_code = InheritsFullAuthority,
                  fd_roleId = Some (ro_id r), fd_profileId = None\<rparr>]
      | Some k \<Rightarrow>
          (case List.find (\<lambda>p. pf_id p = k) profiles of
             None \<Rightarrow> [\<lparr>fd_severity = AuthCritical, fd_code = ProfileMissing, fd_roleId = Some (ro_id r), fd_profileId = None\<rparr>]
           | Some p \<Rightarrow>
               if or_else (pf_allowed p) [] = []
               then [\<lparr>fd_severity = AuthWarning, fd_code = NoAllowlist, fd_roleId = Some (ro_id r), fd_profileId = Some (pf_id p)\<rparr>] else []))"

definition template_named :: "profile_record \<Rightarrow> bool" where
  "template_named p = (starts_with (js_lower (pf_name p)) ''aurora-'' \<and> drop 7 (pf_name p) \<noteq> [])"

definition profile_finding :: "capability_descriptor list \<Rightarrow> authority_template list \<Rightarrow> profile_record \<Rightarrow> authority_finding list" where
  "profile_finding catalog ts p =
     (if \<not> template_named p then []
      else
        (case List.find (\<lambda>t. at_id t = drop 7 (pf_name p)) ts of
           None \<Rightarrow> []
         | Some t \<Rightarrow>
             if list_ex (\<lambda>k. k \<notin> set (rt_capabilityIds (resolveTemplate catalog t))) (or_else (pf_allowed p) [])
             then [\<lparr>fd_severity = AuthWarning, fd_code = DriftedAboveTemplate, fd_roleId = None, fd_profileId = Some (pf_id p)\<rparr>] else []))"

record authority_audit =
  ua_roles :: nat
  ua_boundRoles :: nat
  ua_unboundRoles :: "string list"
  ua_findings :: "authority_finding list"
  ua_leastAuthorityRatio :: rat

definition audit :: "authority_io \<Rightarrow> string \<Rightarrow> authority_audit authority_proc" where
  "audit io tenant =
     and_do (in_society (society_roles (ay_society io) tenant)) (\<lambda>roles.
     and_do (in_profiles (look [] (\<lambda>ps. ok (profile_list tenant ps)))) (\<lambda>profiles.
     and_do (if list_ex template_named profiles then allTemplates io tenant else returns (ok [])) (\<lambda>ts.
       let active = filter (\<lambda>r. ro_status r = RoleActive) roles;
           unbound = filter (\<lambda>r. given_text (ro_agentProfileId r) = None) active
       in returns (ok \<lparr>ua_roles = length active, ua_boundRoles = length active - length unbound, ua_unboundRoles = map ro_id unbound,
            ua_findings = concat (map (role_finding profiles) active) @ concat (map (profile_finding (ay_catalog io) ts) profiles),
            ua_leastAuthorityRatio = (if active = [] then 0 else to_fixed6 (of_nat (length active - length unbound) / of_nat (length active)))\<rparr>))))"

section \<open>What a template grants\<close>

text \<open>A template grants a capability of the catalog that an allow pattern matches, no deny pattern does, and whose risk is
  within the ceiling.\<close>

definition grants :: "capability_descriptor list \<Rightarrow> authority_template \<Rightarrow> string \<Rightarrow> bool" where
  "grants catalog t k \<longleftrightarrow>
     (\<exists>c. List.find (\<lambda>c. desc_id c = k) catalog = Some c \<and> list_ex (matchesPattern k) (at_allow t) \<and> \<not> denied_by t k
        \<and> risk_rank (desc_risk c) \<le> risk_rank (at_maxRisk t))"

lemma matched_ids_iff:
  "k \<in> set (matched_ids catalog t) \<longleftrightarrow> k \<in> desc_id ` set catalog \<and> list_ex (matchesPattern k) (at_allow t)"
  by (auto simp: matched_ids_def list_ex_iff)

lemma find_id: "k \<in> desc_id ` set catalog \<longleftrightarrow> (\<exists>c. List.find (\<lambda>c. desc_id c = k) catalog = Some c)"
  by (cases "List.find (\<lambda>c. desc_id c = k) catalog") (auto simp: find_None_iff dest: find_Some_mem)

lemma descriptor_id: "k \<in> set (matched_ids catalog t) \<Longrightarrow> desc_id (descriptor_of catalog k) = k"
  by (auto simp: matched_ids_iff find_id descriptor_of_def dest: find_Some_mem)

lemma granted_ids:
  "map desc_id (map (descriptor_of catalog) (filter (\<lambda>k. \<not> above_ceiling catalog t k) (filter (\<lambda>k. \<not> denied_by t k) (matched_ids catalog t))))
     = filter (\<lambda>k. \<not> above_ceiling catalog t k) (filter (\<lambda>k. \<not> denied_by t k) (matched_ids catalog t))"
  unfolding map_map by (rule map_idI) (auto intro: descriptor_id)

lemma capabilityIds_eq: "rt_capabilityIds (resolveTemplate catalog t)
    = sort (filter (\<lambda>k. \<not> above_ceiling catalog t k) (filter (\<lambda>k. \<not> denied_by t k) (matched_ids catalog t)))"
  by (simp only: resolveTemplate_def Let_def resolved_template.simps granted_ids)

lemma resolved_mem: "k \<in> set (rt_capabilityIds (resolveTemplate catalog t)) \<longleftrightarrow> grants catalog t k"
  by (auto simp: capabilityIds_eq matched_ids_iff find_id grants_def above_ceiling_def descriptor_of_def)

text \<open>C24. Resolving a template against a catalog grants exactly the capabilities of the catalog that an allow pattern matches,
  no deny pattern does and whose risk is within the ceiling, each once and in order; every other match is reported as
  dropped by a denial or by the ceiling, and an allow pattern is reported as unmatched just when it matches nothing.\<close>

theorem resolve_grants_exactly:
  "(\<forall>k. k \<in> set (rt_capabilityIds (resolveTemplate catalog t)) = grants catalog t k)
   \<and> sorted (rt_capabilityIds (resolveTemplate catalog t)) \<and> distinct (rt_capabilityIds (resolveTemplate catalog t))
   \<and> set (matched_ids catalog t) = set (rt_capabilityIds (resolveTemplate catalog t)) \<union> set (rt_droppedByDeny (resolveTemplate catalog t))
        \<union> set (rt_droppedByRisk (resolveTemplate catalog t))
   \<and> (\<forall>p. p \<in> set (rt_unmatchedPatterns (resolveTemplate catalog t))
        = (p \<in> set (at_allow t) \<and> \<not> list_ex (\<lambda>c. matchesPattern (desc_id c) p) catalog))"
proof (intro conjI allI)
  show "distinct (rt_capabilityIds (resolveTemplate catalog t))" by (simp add: capabilityIds_eq matched_ids_def)
  show "set (matched_ids catalog t) = set (rt_capabilityIds (resolveTemplate catalog t)) \<union> set (rt_droppedByDeny (resolveTemplate catalog t))
        \<union> set (rt_droppedByRisk (resolveTemplate catalog t))"
    unfolding capabilityIds_eq by (auto simp: resolveTemplate_def Let_def)
qed (simp_all add: resolved_mem, simp_all add: resolveTemplate_def Let_def)

section \<open>What a call sees\<close>

lemma look_view:
  assumes "look create f st = (Inr x, st')"
  shows "\<exists>v. durable_view create st = Some v \<and> durable_view create st' = Some v \<and> f v = Inr x"
  using assms by (auto simp: look_def give_def durable_view_def durable_read_def split: prod.splits option.splits disk_file.splits)

lemma mutate_view:
  assumes "durable_mutate create fits w f st = (Inr x, st')"
  shows "\<exists>v v'. durable_view create st = Some v \<and> f v = (Inr x, v') \<and> durable_view create st' = Some v'"
  using assms by (auto simp: durable_mutate_def durable_view_def durable_read_def split: prod.splits option.splits disk_file.splits sum.splits if_splits)

lemma seed_view:
  assumes "society_seed io tenant st = (Inr u, st')"
  shows "\<exists>v rs. durable_view no_society st = Some v \<and> durable_view no_society st' = Some (v\<lparr>so_roles := so_roles v @ rs\<rparr>)"
proof -
  obtain yes st1 where l: "look no_society (\<lambda>v. ok (society_seeded tenant v) :: (society_error, bool) result) st = (Inr yes, st1)"
    and r: "(if yes then give (ok ())
       else change io (\<lambda>v. (ok (), v\<lparr>so_roles := so_roles v @ map (seed_role (io_now io) tenant) builtin_roles\<rparr>))) st1 = (Inr u, st')"
    using assms unfolding society_seed_def and_do_Inr by blast
  obtain v where v: "durable_view no_society st = Some v" "durable_view no_society st1 = Some v" using look_view [OF l] by blast
  show ?thesis
  proof (cases yes)
    case True
    then have "durable_view no_society st' = Some (v\<lparr>so_roles := so_roles v @ []\<rparr>)" using r v by (simp add: answer_Inr)
    then show ?thesis using v by blast
  next
    case False
    then show ?thesis using r v mutate_view [of no_society "io_fits io" "io_wrote io" _ st1 u st'] by (auto simp: change_def)
  qed
qed

lemma find_role_append: "find_role tenant k v = Inr x \<Longrightarrow> find_role tenant k (v\<lparr>so_roles := so_roles v @ rs\<rparr>) = Inr x"
proof -
  have "List.find p xs = Some x \<Longrightarrow> List.find p (xs @ ys) = Some x" for p :: "society_role \<Rightarrow> bool" and xs ys
    by (induction xs) auto
  then show "find_role tenant k v = Inr x \<Longrightarrow> ?thesis" by (simp add: find_role_Inr)
qed

lemma role_view:
  assumes "the_role io tenant k st = (Inr r, st')"
  shows "\<exists>v rs. durable_view no_society st = Some v \<and> durable_view no_society st' = Some (v\<lparr>so_roles := so_roles v @ rs\<rparr>)
    \<and> find_role tenant k (v\<lparr>so_roles := so_roles v @ rs\<rparr>) = Inr r"
proof -
  obtain u st1 where s: "society_seed io tenant st = (Inr u, st1)" and l: "look no_society (find_role tenant k) st1 = (Inr r, st')"
    using assms unfolding the_role_def and_do_Inr by blast
  show ?thesis using seed_view [OF s] look_view [OF l] by force
qed

text \<open>A role bound to a profile, as a reader of the society sees it.\<close>

definition bound_to :: "string \<Rightarrow> id \<Rightarrow> society_state durable \<Rightarrow> string \<Rightarrow> bool" where
  "bound_to tenant k s r \<longleftrightarrow> (\<exists>v x. durable_view no_society s = Some v \<and> find_role tenant r v = Inr x \<and> ro_agentProfileId x = Some k)"

lemma find_put_role:
  assumes "\<And>x. is_role tenant r x \<Longrightarrow> is_role tenant r (f x)"
  shows "find_role tenant r' (put_role tenant r f v) = (if r' = r then map_sum (\<lambda>e. e) f (find_role tenant r' v) else find_role tenant r' v)"
proof (cases "r' = r")
  case True
  have "List.find (is_role tenant r) (update_first (is_role tenant r) f xs) = map_option f (List.find (is_role tenant r) xs)" for xs
    using assms by (induction xs) auto
  then show ?thesis using True by (simp add: find_role_def put_role_def split: option.split)
next
  case False
  then have "List.find (is_role tenant r') (update_first (is_role tenant r) f xs) = List.find (is_role tenant r') xs" for xs
    using assms by (intro find_update_first_other) (auto simp: is_role_def)
  then show ?thesis using False by (simp add: find_role_def put_role_def)
qed

lemma bind_view:
  assumes "bindProfile io ps tenant r (Some k) st = (Inr x, st')" and "k \<noteq> []"
  shows "(\<exists>c. profile_snapshot k tenant ps = Inr c) \<and> bound_to tenant k st' r \<and> (\<forall>q. bound_to tenant k st q \<longrightarrow> bound_to tenant k st' q)"
proof -
  have g: "given_text (Some k) = Some k" using assms(2) by (cases k) (simp_all add: given_text_def)
  let ?f = "\<lambda>r. r\<lparr>ro_agentProfileId := Some k, ro_updatedAt := io_now io\<rparr>"
  obtain y st1 u where a: "the_role io tenant r st = (Inr y, st1)" and c: "bind_ok (snapshot_of ps k tenant) (\<lambda>_. ok ()) = Inr u"
    and m: "change_role io tenant r ?f st1 = (Inr x, st')"
    using assms(1) unfolding bindProfile_def and_do_Inr answer_Inr g by auto
  obtain v rs where v: "durable_view no_society st = Some v" "durable_view no_society st1 = Some (v\<lparr>so_roles := so_roles v @ rs\<rparr>)"
    "find_role tenant r (v\<lparr>so_roles := so_roles v @ rs\<rparr>) = Inr y" using role_view [OF a] by blast
  let ?v = "put_role tenant r ?f (v\<lparr>so_roles := so_roles v @ rs\<rparr>)"
  have v': "durable_view no_society st' = Some ?v"
    using mutate_view [OF m [unfolded change_role_def change_def]] v(2) by (auto simp: Let_def)
  have f: "find_role tenant q ?v = (if q = r then map_sum (\<lambda>e. e) ?f (find_role tenant q (v\<lparr>so_roles := so_roles v @ rs\<rparr>))
      else find_role tenant q (v\<lparr>so_roles := so_roles v @ rs\<rparr>))" for q
    by (rule find_put_role) (simp add: is_role_def)
  have "bound_to tenant k st' r" using v(3) v' f [of r] by (simp add: bound_to_def)
  moreover have "bound_to tenant k st' q" if b: "bound_to tenant k st q" for q
  proof -
    obtain z where "find_role tenant q v = Inr z" "ro_agentProfileId z = Some k" using b v(1) by (auto simp: bound_to_def)
    then show ?thesis using v' f [of q] find_role_append [of tenant q v z rs] by (auto simp: bound_to_def)
  qed
  moreover have "\<exists>c. profile_snapshot k tenant ps = Inr c" using c by (auto simp: snapshot_of_def bind_ok_Inr)
  ultimately show ?thesis by blast
qed

lemma look_view_same: "look create f st = (r, st') \<Longrightarrow> durable_view create st' = durable_view create st"
  by (auto simp: look_def give_def durable_view_def durable_read_def split: prod.splits option.splits disk_file.splits)

lemma in_profiles_Inr: "in_profiles m st = (Inr x, st') \<Longrightarrow> \<exists>s. m (au_profiles st) = (Inr x, s) \<and> st' = st\<lparr>au_profiles := s\<rparr>"
  by (auto simp: in_profiles_def split: prod.splits)

lemma in_society_Inr: "in_society m st = (Inr x, st') \<Longrightarrow> \<exists>s. m (au_society st) = (Inr x, s) \<and> st' = st\<lparr>au_society := s\<rparr>"
  by (auto simp: in_society_def split: prod.splits)

text \<open>Every role the loop reports is bound at the end, and the profiles stay.\<close>

lemma bind_roles_view:
  assumes "bind_roles io tenant k active rs st = (Inr bound, st')" and "k \<noteq> []"
  shows "durable_view [] (au_profiles st') = durable_view [] (au_profiles st)
    \<and> (\<forall>r \<in> set bound. bound_to tenant k (au_society st') r \<and> (\<exists>ps c. durable_view [] (au_profiles st) = Some ps \<and> profile_snapshot k tenant ps = Inr c))
    \<and> (\<forall>q. bound_to tenant k (au_society st) q \<longrightarrow> bound_to tenant k (au_society st') q)"
  using assms(1)
proof (induction rs arbitrary: st bound)
  case Nil
  then show ?case by (simp add: returns_def)
next
  case (Cons r rs)
  show ?case
  proof (cases "r \<in> set active")
    case False
    then show ?thesis using Cons by simp
  next
    case True
    then obtain ps st1 x st2 bound2 where l: "in_profiles (look [] ok) st = (Inr ps, st1)"
      and b: "in_society (bindProfile (ay_society io) ps tenant r (Some k)) st1 = (Inr x, st2)"
      and rest: "bind_roles io tenant k active rs st2 = (Inr bound2, st')" and bound: "bound = r # bound2"
      using Cons.prems by (auto simp: and_do_Inr returns_def)
    obtain s where s: "look [] (ok :: _ \<Rightarrow> (profile_error, _) result) (au_profiles st) = (Inr ps, s)" "st1 = st\<lparr>au_profiles := s\<rparr>" using in_profiles_Inr [OF l] by blast
    have ps: "durable_view [] (au_profiles st) = Some ps" "durable_view [] s = Some ps" using look_view [OF s(1)] by auto
    obtain w where w: "bindProfile (ay_society io) ps tenant r (Some k) (au_society st1) = (Inr x, w)" "st2 = st1\<lparr>au_society := w\<rparr>"
      using in_society_Inr [OF b] by blast
    note here = bind_view [OF w(1) assms(2)] and there = Cons.IH [OF rest]
    have "au_society st1 = au_society st" "au_society st2 = w" "durable_view [] (au_profiles st2) = durable_view [] (au_profiles st)"
      using s(2) w(2) ps by simp_all
    then show ?thesis using here there ps(1) bound by auto
  qed
qed

lemma changed_profile_allowed:
  assumes "changed_profile now \<lparr>fu_name = None, fu_description = Some d, fu_instructions = i, fu_allowed = Some (Some ids), fu_modelRoute = r,
      fu_fallbackModels = None, fu_enabled = None\<rparr> ps p = (None, q)"
  shows "pf_id q = pf_id p \<and> (\<exists>ys. allowlist (Some ids) = Inr (Some ys) \<and> pf_allowed q = Some ys)"
proof -
  have i: "set_instructions i p1 = Inr p2 \<Longrightarrow> pf_id p2 = pf_id p1" for p1 p2
    by (auto simp: set_instructions_def Let_def split: option.splits if_splits)
  have r: "set_route r p1 = Inr p2 \<Longrightarrow> pf_id p2 = pf_id p1 \<and> pf_allowed p2 = pf_allowed p1" for p1 p2
    by (auto simp: set_route_def bind_ok_Inr split: option.splits if_splits)
  have a: "set_allowed (Some (Some ids)) p1 = Inr p2 \<Longrightarrow> pf_id p2 = pf_id p1 \<and> (\<exists>ys. allowlist (Some ids) = Inr (Some ys) \<and> pf_allowed p2 = Some ys)" for p1 p2
    by (auto simp: set_allowed_def bind_ok_Inr allowlist_def Let_def split: if_splits)
  let ?p1 = "p\<lparr>pf_description := take 2000 (js_trim d)\<rparr>"
  obtain p2 p3 p4 where "set_instructions i ?p1 = Inr p2" "set_allowed (Some (Some ids)) p2 = Inr p3"
    "set_route r p3 = Inr p4" "q = p4\<lparr>pf_version := pf_version p4 + 1, pf_updatedAt := now\<rparr>"
    using assms by (auto simp: changed_profile_def set_name_def set_fallbacks_def split: sum.splits option.splits)
  then show ?thesis using i [of ?p1 p2] a [of p2 p3] r [of p3 p4] by auto
qed

lemma profile_for_view:
  assumes "profile_for io tenant t ids route st = (Inr p, st')"
    and fresh: "\<And>ps. durable_view [] (au_profiles st) = Some ps \<Longrightarrow> ay_fresh io \<notin> pf_id ` set ps"
  shows "(\<exists>ys. allowlist (Some ids) = Inr (Some ys) \<and> pf_allowed p = Some ys)
    \<and> (\<exists>ps. durable_view [] (au_profiles st') = Some ps \<and> List.find (\<lambda>q. pf_id q = pf_id p) ps = Some p)"
proof -
  let ?op = "\<lambda>existing. case existing of
            Some p \<Rightarrow> profile_update (io_now (ay_society io)) (pf_id p)
              \<lparr>fu_name = None, fu_description = Some (at_title t), fu_instructions = Some (template_instructions t),
               fu_allowed = Some (Some ids), fu_modelRoute = map_option Some (given_text route), fu_fallbackModels = None, fu_enabled = None\<rparr>
          | None \<Rightarrow> profile_add (ay_fresh io) (io_now (ay_society io))
              \<lparr>fi_tenantId = tenant, fi_name = template_name t, fi_description = Some (at_title t), fi_instructions = template_instructions t,
               fi_allowed = Some ids, fi_modelRoute = given_text route, fi_fallbackModels = None\<rparr>"
  obtain existing st1 where l: "in_profiles (look [] (\<lambda>ps. ok (List.find (\<lambda>p. js_lower (pf_name p) = template_name t) (profile_list tenant ps)))) st
      = (Inr existing, st1)"
    and m: "in_profiles (durable_mutate [] (\<lambda>_. True) (ay_wroteProfile io) (?op existing)) st1 = (Inr p, st')"
    using assms(1) unfolding profile_for_def and_do_Inr by blast
  obtain s where s: "look [] (\<lambda>ps. ok (List.find (\<lambda>p. js_lower (pf_name p) = template_name t) (profile_list tenant ps)) :: (profile_error, _) result)
      (au_profiles st) = (Inr existing, s)" "st1 = st\<lparr>au_profiles := s\<rparr>" using in_profiles_Inr [OF l] by blast
  obtain ps where ps: "durable_view [] (au_profiles st) = Some ps" "durable_view [] s = Some ps"
    and e: "List.find (\<lambda>p. js_lower (pf_name p) = template_name t) (profile_list tenant ps) = existing"
    using look_view [OF s(1)] by auto
  obtain s2 where s2: "durable_mutate [] (\<lambda>_. True) (ay_wroteProfile io) (?op existing) s = (Inr p, s2)" "st' = st1\<lparr>au_profiles := s2\<rparr>"
    using in_profiles_Inr [OF m] s(2) by auto
  obtain ps' where o: "?op existing ps = (Inr p, ps')" and ps': "durable_view [] s2 = Some ps'"
    using mutate_view [OF s2(1)] ps(2) by auto
  have "(\<exists>ys. allowlist (Some ids) = Inr (Some ys) \<and> pf_allowed p = Some ys) \<and> List.find (\<lambda>q. pf_id q = pf_id p) ps' = Some p"
  proof (cases existing)
    case None
    then have n: "new_profile (ay_fresh io) (io_now (ay_society io)) \<lparr>fi_tenantId = tenant, fi_name = template_name t,
        fi_description = Some (at_title t), fi_instructions = template_instructions t, fi_allowed = Some ids, fi_modelRoute = given_text route,
        fi_fallbackModels = None\<rparr> ps = Inr p" and eq: "ps' = ps @ [p]"
      using o by (auto simp: profile_add_def split: sum.splits)
    have al: "\<exists>ys. allowlist (Some ids) = Inr (Some ys) \<and> pf_allowed p = Some ys" and pid: "pf_id p = ay_fresh io"
      using n by (auto simp: new_profile_def bind_ok_Inr Let_def allowlist_def split: if_splits)
    have "List.find (\<lambda>q. pf_id q = pf_id p) (xs @ [p]) = Some p" if "pf_id p \<notin> pf_id ` set xs" for xs
      using that by (induction xs) auto
    then show ?thesis using al eq pid fresh [OF ps(1)] by simp
  next
    case (Some x)
    have "x \<in> set ps" using e Some find_Some_mem [of _ "profile_list tenant ps" x] by (auto simp: profile_list_def)
    then obtain y where y: "List.find (\<lambda>p. pf_id p = pf_id x) ps = Some y"
      by (cases "List.find (\<lambda>p. pf_id p = pf_id x) ps") (auto simp: find_None_iff)
    then have yx: "pf_id y = pf_id x" by (auto dest: find_Some_mem)
    obtain q where q: "changed_profile (io_now (ay_society io)) \<lparr>fu_name = None, fu_description = Some (at_title t),
        fu_instructions = Some (template_instructions t), fu_allowed = Some (Some ids), fu_modelRoute = map_option Some (given_text route),
        fu_fallbackModels = None, fu_enabled = None\<rparr> ps y = (None, q)" and eq: "q = p" "ps' = update_first (\<lambda>p. pf_id p = pf_id x) (\<lambda>_. q) ps"
      using o y Some by (auto simp: profile_update_def split: prod.splits option.splits)
    note c = changed_profile_allowed [OF q]
    then show ?thesis using eq y yx by (auto intro!: find_update_first)
  qed
  then show ?thesis using ps' s2(2) by auto
qed

lemma apply_Inr:
  assumes "authority_apply io i st = (Inr a, st')"
    and fresh: "\<And>ps. durable_view [] (au_profiles st) = Some ps \<Longrightarrow> ay_fresh io \<notin> pf_id ` set ps"
    and named: "pf_id (ad_profile a) \<noteq> []" and r: "r \<in> set (ad_boundRoleIds a)"
  shows "\<exists>t ps c ys. ad_templateId a = at_id t \<and> ad_resolved a = resolveTemplate (ay_catalog io) t
    \<and> bound_to (js_trim (yi_tenantId i)) (pf_id (ad_profile a)) (au_society st') r
    \<and> durable_view [] (au_profiles st') = Some ps \<and> profile_snapshot (pf_id (ad_profile a)) (js_trim (yi_tenantId i)) ps = Inr c
    \<and> allowlist (Some (rt_capabilityIds (ad_resolved a))) = Inr (Some ys) \<and> ap_allowedCapabilityIds c = Some ys"
proof -
  let ?bind = "\<lambda>tenant t p. if \<not> or_else (yi_bind i) True then returns (ok [])
                 else
                   and_do (in_society (society_roles (ay_society io) tenant)) (\<lambda>roles.
                     bind_roles io tenant (pf_id p) (map ro_id (filter (\<lambda>r. ro_status r = RoleActive) roles))
                       (or_else (yi_roleIds i) (at_roleIds t)))"
  obtain tenant st1 ts st2 t where tn: "auth_text (yi_tenantId i) 200 ''Tenant ID'' = Inr tenant" and ts: "allTemplates io tenant st = (Inr ts, st1)"
    and rest: "(let resolved = resolveTemplate (ay_catalog io) t in
       if rt_capabilityIds resolved = [] then returns (throw ResolvesToNothing)
       else and_do (profile_for io tenant t (rt_capabilityIds resolved) (yi_modelRoute i)) (\<lambda>p. and_do (?bind tenant t p) (\<lambda>bound.
           returns (ok \<lparr>ad_templateId = at_id t, ad_profile = p, ad_resolved = resolved, ad_boundRoleIds = bound\<rparr>)))) st1 = (Inr a, st')"
    using assms(1) unfolding authority_apply_def and_do_Inr [of "returns x" for x] and_do_Inr [of "allTemplates io x" for x] returns_def by auto
  obtain p st3 bound where p: "profile_for io tenant t (rt_capabilityIds (resolveTemplate (ay_catalog io) t)) (yi_modelRoute i) st1 = (Inr p, st3)"
    and b: "?bind tenant t p st3 = (Inr bound, st')"
    and a: "a = \<lparr>ad_templateId = at_id t, ad_profile = p, ad_resolved = resolveTemplate (ay_catalog io) t, ad_boundRoleIds = bound\<rparr>"
    using rest by (auto simp: Let_def and_do_Inr returns_def split: if_splits)
  have same: "au_profiles st1 = au_profiles st"
    using ts by (auto simp: allTemplates_def in_store_def split: option.splits prod.splits)
  have ten: "tenant = js_trim (yi_tenantId i)" using tn by (auto simp: auth_text_def auroraText_def Let_def split: if_splits)
  obtain ys ps where ys: "allowlist (Some (rt_capabilityIds (resolveTemplate (ay_catalog io) t))) = Inr (Some ys)" "pf_allowed p = Some ys"
    and ps: "durable_view [] (au_profiles st3) = Some ps" "List.find (\<lambda>q. pf_id q = pf_id p) ps = Some p"
    using profile_for_view [OF p] fresh same by auto
  have "or_else (yi_bind i) True" using b r by (auto simp: a returns_def split: if_splits)
  then obtain roles st4 where so: "in_society (society_roles (ay_society io) tenant) st3 = (Inr roles, st4)"
    and br: "bind_roles io tenant (pf_id p) (map ro_id (filter (\<lambda>r. ro_status r = RoleActive) roles)) (or_else (yi_roleIds i) (at_roleIds t)) st4 = (Inr bound, st')"
    using b by (auto simp: and_do_Inr)
  have "au_profiles st4 = au_profiles st3" using in_society_Inr [OF so] by auto
  moreover have "pf_id p \<noteq> []" using named a by simp
  ultimately have v: "durable_view [] (au_profiles st') = Some ps" "bound_to tenant (pf_id p) (au_society st') r"
    "\<exists>c. profile_snapshot (pf_id p) tenant ps = Inr c"
    using bind_roles_view [OF br] ps(1) r a by auto
  then obtain c where c: "profile_snapshot (pf_id p) tenant ps = Inr c" by blast
  then have "ap_allowedCapabilityIds c = Some ys"
    using ps(2) ys(2) by (auto simp: profile_snapshot_def profile_get_def split: if_splits)
  then show ?thesis using v c ys(1) unfolding a ten by auto
qed

lemma the_role_fixed:
  assumes "the_role io tenant k st = (Inr r, st')" and "bound_to tenant p st k"
  shows "ro_agentProfileId r = Some p"
proof -
  obtain v x where v: "durable_view no_society st = Some v" and x: "find_role tenant k v = Inr x" "ro_agentProfileId x = Some p"
    using assms(2) by (auto simp: bound_to_def)
  obtain rs where "find_role tenant k (v\<lparr>so_roles := so_roles v @ rs\<rparr>) = Inr r" using role_view [OF assms(1)] v by auto
  then show ?thesis using find_role_append [OF x(1), of rs] x(2) by auto
qed

text \<open>The role a task is executed for is the one it was awarded to.\<close>

lemma execute_role:
  assumes "society_execute io profiles session child tenant k st = (Inr (t, req), st')" and "sk_assignedRoleId t = Some roleId"
  shows "\<exists>r st1 st2. durable_view no_society st1 = durable_view no_society st \<and> the_role io tenant roleId st1 = (Inr r, st2)
    \<and> execution_profile profiles tenant r session = Inr (sr_profile req)"
proof -
  let ?f = "\<lambda>v. bind_ok (find_society_task tenant k v) (\<lambda>t.
       case sk_assignedRoleId t of None \<Rightarrow> throw NotAssigned | Some r \<Rightarrow> if sk_status t \<noteq> TkAssigned then throw NotAssigned else ok (t, r))"
  let ?last = "\<lambda>r profile c v. case find_society_task tenant k v of Inl e \<Rightarrow> (throw e, v)
         | Inr t \<Rightarrow>
             let t' = t\<lparr>sk_childSessionId := Some c, sk_status := TkRunning, sk_updatedAt := io_now io\<rparr>
             in (ok (t', \<lparr>sr_parent = sk_rootSessionId t, sr_name = ro_id r @ ''-'' @ take 8 (sk_id t), sr_profile = profile\<rparr>),
                 put_task tenant k t' v)"
  obtain t0 role st1 where l: "look no_society ?f st = (Inr (t0, role), st1)"
    and rest: "and_do (the_role io tenant role) (\<lambda>r.
     and_do (give (execution_profile profiles tenant r session)) (\<lambda>profile.
     and_do (give (case child of None \<Rightarrow> throw SpawnFailed | Some c \<Rightarrow> ok c)) (\<lambda>c. change io (?last r profile c)))) st1 = (Inr (t, req), st')"
    using assms(1) unfolding society_execute_def and_do_Inr [of "look no_society f" for f] by auto
  obtain v where v: "durable_view no_society st = Some v" "durable_view no_society st1 = Some v" and f: "?f v = Inr (t0, role)"
    using look_view [OF l] by blast
  have t0: "find_society_task tenant k v = Inr t0" "sk_assignedRoleId t0 = Some role" using f by (auto simp: bind_ok_Inr split: option.splits if_splits)
  obtain r st2 profile c where r: "the_role io tenant role st1 = (Inr r, st2)" and p: "execution_profile profiles tenant r session = Inr profile"
    and m: "change io (?last r profile c) st2 = (Inr (t, req), st')"
    using rest unfolding and_do_Inr answer_Inr by blast
  obtain rs where v2: "durable_view no_society st2 = Some (v\<lparr>so_roles := so_roles v @ rs\<rparr>)" using role_view [OF r] v by auto
  have "find_society_task tenant k (v\<lparr>so_roles := so_roles v @ rs\<rparr>) = Inr t0" using t0(1) by (simp add: find_society_task_def)
  then have "sk_assignedRoleId t = sk_assignedRoleId t0 \<and> sr_profile req = profile"
    using mutate_view [OF m [unfolded change_def]] v2 by (auto simp: Let_def)
  then have "role = roleId" "sr_profile req = profile" using t0(2) assms(2) by auto
  then show ?thesis using r p v by metis
qed


section \<open>A sample run\<close>

definition demo_catalog :: "capability_descriptor list" where
  "demo_catalog = [\<lparr>desc_id = ''web.fetch'', desc_risk = Network, desc_sideEffect = False\<rparr>,
     \<lparr>desc_id = ''memory.search'', desc_risk = Pure, desc_sideEffect = False\<rparr>,
     \<lparr>desc_id = ''process.exec'', desc_risk = Process, desc_sideEffect = True\<rparr>]"

definition demo_authority_io :: authority_io where
  "demo_authority_io = \<lparr>ay_catalog = demo_catalog, ay_rank = length, ay_fits = (\<lambda>_. True), ay_wrote = True, ay_fresh = ''p'', ay_wroteProfile = True,
     ay_society = demo_io 8 ''x''\<rparr>"

text \<open>A task of the tenant is awarded to the research agent before the template is applied.\<close>

definition demo_authority :: authority_state where
  "demo_authority = \<lparr>au_store = None, au_profiles = \<lparr>cached = None, disk = Absent\<rparr>, au_society = society_run [
     (demo_io 2 ''k'', OpPost \<lparr>ti_tenantId = ''t'', ti_rootSessionId = ''s'', ti_title = ''Find'', ti_objective = ''Find it.'',
        ti_requiredTags = [''research''], ti_priority = None, ti_maxTokens = Some 200, ti_deadline = None\<rparr> (Some (''t'', None))),
     (demo_io 3 ''b1'', OpBid (demo_bid ''research-agent'' 150)),
     (demo_io 4 ''x'', OpAward ''t'' ''k'')]\<rparr>"

definition demo_apply :: apply_input where
  "demo_apply = \<lparr>yi_tenantId = ''t'', yi_templateId = ''researcher'', yi_roleIds = Some [''research-agent''], yi_bind = None, yi_modelRoute = None\<rparr>"

definition demo_delegated :: bool where
  "demo_delegated =
     (case authority_apply demo_authority_io demo_apply demo_authority of
        (Inl e, st') \<Rightarrow> False
      | (Inr a, st') \<Rightarrow> ad_boundRoleIds a = [''research-agent''] \<and> pf_id (ad_profile a) = ''p'' \<and>
          (case durable_view [] (au_profiles st') of
             None \<Rightarrow> False
           | Some profiles \<Rightarrow>
               (case society_execute (demo_io 9 ''y'') profiles (Some (''t'', None)) (Some ''c'') ''t'' ''k'' (au_society st') of
                  (Inl e, soc) \<Rightarrow> False
                | (Inr (t, req), soc) \<Rightarrow> sk_assignedRoleId t = Some ''research-agent''
                    \<and> map_option ap_allowedCapabilityIds (sr_profile req) = Some (Some [''memory.search'', ''web.fetch'']))))"

lemma demo_delegated_runs: demo_delegated
  by code_simp


end
