(* ===== verification/Spec2Isabelle.thy ===== *)
theory Spec2Isabelle
  imports AuroraState Types Journals EventStore SessionActor AgentInbox AgentMessages SessionModes Approvals SessionBudget AutoApproval Scheduler Lease LongestPath Planning UserQuestions WorkerChannel Governance LifecycleHooks RoleAuthority
begin

text \<open>
  A verification development of the engine of the Aurora agent fabric,
  \<^verbatim>\<open>hybrid-agent-fabric/packages/engine/src\<close>. File names below are relative to that directory.

  \<^bold>\<open>The program.\<close> An engine runs agent sessions. A \<^verbatim>\<open>Supervisor\<close> keeps a catalog of sessions, creates, spawns, forks
  and closes them and hands each command to the \<^verbatim>\<open>SessionActor\<close> of its session. The actor owns the snapshot, the
  conversation tree and the task board; it runs a turn as a loop of model answers and capability calls, and
  numbers the events it emits. A command is wrapped by a command journal and an external effect by an effect
  journal, so that a restart does not repeat them. Sessions of one family write to each other through inboxes. A
  capability call goes to the \<^verbatim>\<open>CapabilityBroker\<close>, which asks the policy stack - the base policy, OPA, the Aurora
  governance (risk analyzer and constitution), the operator's hooks and the settings, bent by the mode of the
  session - and, where an approval is wanted, the automatic rules and then a person. Around this stand services that
  each keep one durable JSON state per file: modes, budgets, approval rules, hooks, plans, the constitution,
  agent profiles, the agent society and the templates of authority. A scheduler starts turns at their time, leases
  keep a session to one process, and a worker protocol carries commands, events and snapshots between processes.

  \<^bold>\<open>Theories and sources.\<close> In the order of their imports:
  \<^item> \<^verbatim>\<open>Prelude\<close>, \<^verbatim>\<open>Results\<close>, \<^verbatim>\<open>Effects\<close>, \<^verbatim>\<open>JsText\<close>, \<^verbatim>\<open>Tally\<close>: the JavaScript operations the engine uses (insertion-ordered
    maps and sets, \<^verbatim>\<open>slice\<close>, \<^verbatim>\<open>trim\<close>), code that throws, code that changes a state and throws, texts, counting.
  \<^item> \<^verbatim>\<open>AuroraState\<close> (\<^verbatim>\<open>util/aurora-state.ts\<close>) and \<^verbatim>\<open>ServiceCalls\<close>: the validators and the durable JSON state; operations
    that write once at their end (locales \<open>durable_service\<close>, \<open>atomic_service\<close>), and calls that write in their middle
    (a logic of triples and the locale \<open>call_service\<close>).
  \<^item> \<^verbatim>\<open>Types\<close> (\<^verbatim>\<open>types.ts\<close>); \<^verbatim>\<open>Journals\<close> (\<^verbatim>\<open>persistence/command-journal.ts\<close>, \<^verbatim>\<open>effect-journal.ts\<close>; locale
    \<open>write_ahead\<close>); \<^verbatim>\<open>EventStore\<close> (\<^verbatim>\<open>persistence/event-store.ts\<close>; locale \<open>event_log\<close> for the file and the memory store);
    \<^verbatim>\<open>Lease\<close> (\<^verbatim>\<open>persistence/session-lease.ts\<close>).
  \<^item> \<^verbatim>\<open>SessionTree\<close>, \<^verbatim>\<open>TaskBoard\<close> on \<^verbatim>\<open>Dfs\<close>, \<^verbatim>\<open>Continuation\<close>, \<^verbatim>\<open>SessionActor\<close> (\<^verbatim>\<open>runtime/session-tree.ts\<close>,
    \<^verbatim>\<open>continuation-policy.ts\<close>, \<^verbatim>\<open>session-actor.ts\<close>): a session.
  \<^item> \<^verbatim>\<open>AgentInbox\<close>, \<^verbatim>\<open>Supervisor\<close>, \<^verbatim>\<open>AgentMessages\<close> (\<^verbatim>\<open>runtime/agent-inbox.ts\<close>, \<^verbatim>\<open>supervisor.ts\<close>): families of sessions
    and their messages. \<^verbatim>\<open>UserQuestions\<close> (\<^verbatim>\<open>runtime/user-questions.ts\<close>): questions to a person.
  \<^item> \<^verbatim>\<open>PolicyStack\<close>, \<^verbatim>\<open>SessionModes\<close>, \<^verbatim>\<open>Approvals\<close>, \<^verbatim>\<open>SessionBudget\<close>, \<^verbatim>\<open>AutoApproval\<close>, \<^verbatim>\<open>RiskAnalyzer\<close>, \<^verbatim>\<open>LifecycleHooks\<close>
    (\<^verbatim>\<open>policy/\<close>, \<^verbatim>\<open>capabilities/capability-broker.ts\<close>, \<^verbatim>\<open>engine.ts\<close>), \<^verbatim>\<open>Constitution\<close>
    (\<^verbatim>\<open>aurora/constitution-service.ts\<close>) and \<^verbatim>\<open>Governance\<close> (\<^verbatim>\<open>policy/aurora-policy-engine.ts\<close>): what a call may do.
  \<^item> \<^verbatim>\<open>Planning\<close> on \<^verbatim>\<open>LongestPath\<close> (\<^verbatim>\<open>aurora/planning-service.ts\<close>) and \<^verbatim>\<open>Scheduler\<close> (\<^verbatim>\<open>scheduler/scheduler.ts\<close>).
  \<^item> \<^verbatim>\<open>WorkerFraming\<close>, \<^verbatim>\<open>WorkerProtocol\<close>, \<^verbatim>\<open>WorkerChannel\<close> (\<^verbatim>\<open>runtime/worker/\<close>): frames on bytes, the two ends, and
    the two ends together.
  \<^item> \<^verbatim>\<open>AgentProfiles\<close> (\<^verbatim>\<open>profiles/agent-profile-registry.ts\<close>), \<^verbatim>\<open>Society\<close> with \<^verbatim>\<open>SocietyLaws\<close>
    (\<^verbatim>\<open>society/agent-society-service.ts\<close>) and \<^verbatim>\<open>RoleAuthority\<close> (\<^verbatim>\<open>aurora/role-authority-service.ts\<close>), which calls both.

  \<^bold>\<open>How the code is rendered.\<close> A class is a record of its fields, and an operation a function from its arguments
  and the state to a result and the new state. A method that throws gives \<open>Inl\<close> with the error; where it has changed the
  state before, the changed state is part of the answer, because an exception undoes nothing. A call that
  runs under a mutex is one step; where the code waits in between - a tick of the scheduler, the system calls
  of a lease, a journalled operation - it is several steps of a run, and crashes, restarts and failing writes
  are steps as well. Time, fresh ids, the answers of the file system, of a model or of an operator are
  arguments. A string is a list of characters below 256, a time stamp a number of milliseconds, a number from
  a payload a rational; the bytes of a frame 8-bit words.

  \<^bold>\<open>What the lemmas show.\<close> Each theory proves the invariant of its state and that every operation keeps it, the ones that
  throw included; the locales carry an invariant over restarts and failed writes, and are interpreted on the modelled
  operations. On top of them stand the properties, numbered C1 to C40 by importance:
  \<^item> durability and recovery: an operation is called once per key and its recorded answer stays (C1, C2), events
    are numbered without a gap and read back (C3, C8), a failed command leaves a usable, saved session (C5, C6);
  \<^item> sessions and families: the task board stays acyclic and the cycle test is exact (C4, C9), turns end (C7), an inbox
    message is handed over once and a drain settles what it claims (C10, C12), families respect their limits (C11);
  \<^item> authority: what the layers of policy deny or want approved stays so (C13 to C17, C40), what a broker runs was
    cleared (C26), an approval is answered once and an automatic one is covered by a rule (C27, C29), a budget
    blocks exactly at its caps (C28), and a session's mode is well kept (C19);
  \<^item> the society: its invariant (C23), awards within the budget (C22), children within their parent (C21),
    templates that grant exactly what they say (C24) down to the profile a bound role runs with (C20), outcomes of
    deliberations (C25);
  \<^item> services: no occurrence of a job is fired twice (C30), one holder of a lease (C31), plans that can be executed
    and their critical path (C32, C33), the life of a question (C34);
  \<^item> the worker protocol: frames survive any chunking (C35), listeners see events in order (C36), only the holder of
    the token is served (C37), a snapshot arrives whole (C39).
  Some properties state a behaviour that is a defect, as the code has it: C17 (an assessment that cannot
  be stored lets a call through), C18 (a refused amendment stays in memory) and C38 (a complete replay is dropped).
  Plain theorems record more of them, such as \<open>retired_bidder_awarded\<close> and \<open>ceiling_skips_defaults\<close>.

  \<^bold>\<open>Bounds and fuel.\<close> Searches of a graph carry fuel. \<^verbatim>\<open>Dfs\<close> needs more than the number of reachable nodes;
  \<open>task_fuel\<close> of \<^verbatim>\<open>TaskBoard\<close> counts every id and dependency, and C9 shows that it never runs out.
  \<^verbatim>\<open>Planning\<close> gives the longest-chain search one more than the number of steps, which \<^verbatim>\<open>LongestPath\<close> shows to be
  enough on the acyclic graphs a plan has. The walks to the root of a conversation and of a family keep the set of the
  nodes seen, as the code does, and end by that measure. The loop of a turn is bounded by the iterations the
  code itself allows. Everything else recurs on its data.

  \<^bold>\<open>Parameters.\<close> Code the repository does not hold is an argument: regular expressions, cron expressions,
  digests, \<^verbatim>\<open>localeCompare\<close>, \<^verbatim>\<open>toLowerCase\<close>, the printing of floats, the answers of an OPA server, of model providers
  and of the file system. Where a property relies on one, its hypothesis says what.

  \<^bold>\<open>Not modelled.\<close> The wiring of \<^verbatim>\<open>engine.ts\<close> but for the composition of the policy layers; HTTP, sockets,
  processes, databases and cryptography; the applications, which are interfaces to the engine; the handlers of
  the capabilities, which call services or the operating system; and the services that rank and score (memory, knowledge,
  cognition, routing, the remaining services of \<^verbatim>\<open>aurora/\<close>). Event payloads, the texts of advisories and previews
  for people are left out where nothing reads them back. The texts of a file that was damaged by others are not read.
\<close>

end
